(* ===== verification/Prelude.thy ===== *)
theory Prelude
  imports Main "HOL-Library.Word" "HOL-Library.Monad_Syntax"
begin

text \<open>
  Shared vocabulary of the development.

  \<^item> \<open>u_int\<close> is the C type \<open>u_int\<close> read as a natural number below \<open>2 ^ 32\<close>. Additions and
    subtractions whose wrap-around the code can reach are written \<open>u_add\<close> and \<open>u_sub\<close>.
  \<^item> \<open>u_char\<close> and \<open>c_flags\<close> are machine words, because the code uses them bitwise.
  \<^item> A computation of type \<open>'a option\<close> is a piece of C that may die: \<open>None\<close> is an access outside
    an allocation, or a call of \<open>fatal\<close>/\<open>fatalx\<close>. \<open>returns m P\<close> says that \<open>m\<close> does not die
    and that its result satisfies \<open>P\<close>.
  \<^item> \<open>get_at\<close>, \<open>put_at\<close> and \<open>memmove_list\<close> are the checked accesses to an allocated array, and
    \<open>for_upto\<close> is the C loop \<open>for (i = a; i < b; i++)\<close>.
\<close>

section \<open>Machine integers\<close>

type_synonym u_int = nat
type_synonym u_char = "8 word"
type_synonym c_flags = "32 word"

abbreviation UINT_MOD :: nat where
  "UINT_MOD \<equiv> 4294967296"

definition UINT_MAX :: u_int where
  "UINT_MAX = 4294967295"

definition u_add :: "u_int \<Rightarrow> u_int \<Rightarrow> u_int" where
  "u_add a b = (a + b) mod UINT_MOD"

definition u_sub :: "u_int \<Rightarrow> u_int \<Rightarrow> u_int" where
  "u_sub a b = (a + UINT_MOD - b) mod UINT_MOD"

definition u_mul :: "u_int \<Rightarrow> u_int \<Rightarrow> u_int" where
  "u_mul a b = (a * b) mod UINT_MOD"

lemma u_add_less [simp]: "u_add a b < UINT_MOD"
  by (simp add: u_add_def)

lemma u_sub_less [simp]: "u_sub a b < UINT_MOD"
  by (simp add: u_sub_def)

lemma u_mul_less [simp]: "u_mul a b < UINT_MOD"
  by (simp add: u_mul_def)

lemma u_add_small [simp]: "a + b < UINT_MOD \<Longrightarrow> u_add a b = a + b"
  by (simp add: u_add_def)

lemma u_sub_small [simp]: "b \<le> a \<Longrightarrow> a < UINT_MOD \<Longrightarrow> u_sub a b = a - b"
proof -
  assume "b \<le> a" and "a < UINT_MOD"
  then have "a + UINT_MOD - b = (a - b) + UINT_MOD" and "a - b < UINT_MOD" by arith+
  then show ?thesis unfolding u_sub_def by (simp only: mod_add_self2 mod_less)
qed

lemma u_sub_wrap: "a < b \<Longrightarrow> b \<le> UINT_MOD \<Longrightarrow> u_sub a b = a + UINT_MOD - b"
  by (simp add: u_sub_def)

lemma u_mul_small: "a * b < UINT_MOD \<Longrightarrow> u_mul a b = a * b"
  by (simp add: u_mul_def)

lemma u_add_sub_wrap:
  "a < b \<Longrightarrow> b \<le> UINT_MOD \<Longrightarrow> b - a \<le> c \<Longrightarrow> c < UINT_MOD \<Longrightarrow> u_add c (u_sub a b) = c + a - b"
proof -
  assume *: "a < b" "b \<le> UINT_MOD" "b - a \<le> c" "c < UINT_MOD"
  then have "c + (a + UINT_MOD - b) = (c + a - b) + UINT_MOD" and "c + a - b < UINT_MOD" by arith+
  then show ?thesis using *
    unfolding u_sub_wrap [OF *(1,2)] u_add_def by (simp only: mod_add_self2 mod_less)
qed

lemma u_sub_1_bound: "u_sub a 1 < n \<Longrightarrow> n < UINT_MOD \<Longrightarrow> a < UINT_MOD \<Longrightarrow> a \<le> n \<and> 0 < a"
  by (cases a) (auto simp: u_sub_wrap)

section \<open>Computations that may die\<close>

definition returns :: "'a option \<Rightarrow> ('a \<Rightarrow> bool) \<Rightarrow> bool" where
  "returns m P \<longleftrightarrow> (case m of None \<Rightarrow> False | Some x \<Rightarrow> P x)"

named_theorems wp \<open>rewriting returns through the constructs of the option monad\<close>

lemma returns_Some [simp, wp]: "returns (Some x) P = P x"
  by (simp add: returns_def)

lemma returns_None [simp, wp]: "returns None P = False"
  by (simp add: returns_def)

lemma returns_bind [simp, wp]: "returns (m \<bind> f) P = returns m (\<lambda>x. returns (f x) P)"
  by (cases m) simp_all

lemma returns_if [wp]:
  "returns (if b then m else n) P = (if b then returns m P else returns n P)"
  by simp

lemma returns_eq: "returns m P \<longleftrightarrow> (\<exists>x. m = Some x \<and> P x)"
  by (cases m) simp_all

lemma returns_mono: "returns m Q \<Longrightarrow> (\<And>x. Q x \<Longrightarrow> P x) \<Longrightarrow> returns m P"
  by (cases m) simp_all

lemma returns_conj: "returns m P \<Longrightarrow> returns m Q \<Longrightarrow> returns m (\<lambda>x. P x \<and> Q x)"
  by (cases m) simp_all

lemma returnsD: "returns m P \<Longrightarrow> m = Some x \<Longrightarrow> P x"
  by simp

lemma returns_conjD1: "returns m (\<lambda>x. P x \<and> Q x) \<Longrightarrow> returns m P"
  by (cases m) simp_all

lemma bind_Some_iff: "(m \<bind> f) = Some y \<longleftrightarrow> (\<exists>x. m = Some x \<and> f x = Some y)"
  by (cases m) simp_all

section \<open>Checked array accesses\<close>

definition get_at :: "'a list \<Rightarrow> nat \<Rightarrow> 'a option" where
  "get_at xs i = (if i < length xs then Some (xs ! i) else None)"

definition put_at :: "nat \<Rightarrow> 'a \<Rightarrow> 'a list \<Rightarrow> 'a list option" where
  "put_at i x xs = (if i < length xs then Some (xs[i := x]) else None)"

lemma get_at_Some [simp]: "i < length xs \<Longrightarrow> get_at xs i = Some (xs ! i)"
  by (simp add: get_at_def)

lemma get_at_None [simp]: "length xs \<le> i \<Longrightarrow> get_at xs i = None"
  by (simp add: get_at_def)

lemma get_at_eq_Some: "get_at xs i = Some x \<longleftrightarrow> i < length xs \<and> x = xs ! i"
  by (auto simp: get_at_def)

lemma put_at_Some [simp]: "i < length xs \<Longrightarrow> put_at i x xs = Some (xs[i := x])"
  by (simp add: put_at_def)

lemma put_at_None [simp]: "length xs \<le> i \<Longrightarrow> put_at i x xs = None"
  by (simp add: put_at_def)

text \<open>\<open>memmove\<close> of \<open>n\<close> elements from index \<open>s\<close> to index \<open>d\<close> of one array.\<close>

definition move_list :: "nat \<Rightarrow> nat \<Rightarrow> nat \<Rightarrow> 'a list \<Rightarrow> 'a list" where
  "move_list d s n xs =
     map (\<lambda>i. if d \<le> i \<and> i < d + n then xs ! (s + (i - d)) else xs ! i) [0..<length xs]"

definition memmove_list :: "nat \<Rightarrow> nat \<Rightarrow> nat \<Rightarrow> 'a list \<Rightarrow> 'a list option" where
  "memmove_list d s n xs =
     (if d + n \<le> length xs \<and> s + n \<le> length xs then Some (move_list d s n xs) else None)"

lemma length_move_list [simp]: "length (move_list d s n xs) = length xs"
  by (simp add: move_list_def)

lemma nth_move_list [simp]:
  "i < length xs \<Longrightarrow>
   move_list d s n xs ! i = (if d \<le> i \<and> i < d + n then xs ! (s + (i - d)) else xs ! i)"
  by (simp add: move_list_def)

lemma memmove_list_Some [simp]:
  "d + n \<le> length xs \<Longrightarrow> s + n \<le> length xs \<Longrightarrow> memmove_list d s n xs = Some (move_list d s n xs)"
  by (simp add: memmove_list_def)

lemma set_move_list_subset: "s + n \<le> length xs \<Longrightarrow> set (move_list d s n xs) \<subseteq> set xs"
  by (auto simp: move_list_def)

text \<open>Overwriting the elements of a range, as a loop of assignments does.\<close>

definition fill_list :: "nat \<Rightarrow> nat \<Rightarrow> 'a \<Rightarrow> 'a list \<Rightarrow> 'a list" where
  "fill_list a b x xs = map (\<lambda>i. if a \<le> i \<and> i < b then x else xs ! i) [0..<length xs]"

lemma length_fill_list [simp]: "length (fill_list a b x xs) = length xs"
  by (simp add: fill_list_def)

lemma nth_fill_list [simp]:
  "i < length xs \<Longrightarrow> fill_list a b x xs ! i = (if a \<le> i \<and> i < b then x else xs ! i)"
  by (simp add: fill_list_def)

lemma fill_list_empty [simp]: "b \<le> a \<Longrightarrow> fill_list a b x xs = xs"
  by (rule nth_equalityI) auto

lemma fill_list_Suc:
  "a \<le> b \<Longrightarrow> b < length xs \<Longrightarrow> (fill_list a b x xs)[b := x] = fill_list a (Suc b) x xs"
  by (rule nth_equalityI) (auto simp: nth_list_update)

lemma set_fill_list_subset: "set (fill_list a b x xs) \<subseteq> insert x (set xs)"
  by (auto simp: fill_list_def)

text \<open>\<open>xrealloc\<close>: the old contents are kept up to the new size; \<open>junk\<close> is what the new memory holds.\<close>

definition realloc_list :: "'a \<Rightarrow> nat \<Rightarrow> 'a list \<Rightarrow> 'a list" where
  "realloc_list junk n xs = take n xs @ replicate (n - length xs) junk"

lemma length_realloc_list [simp]: "length (realloc_list junk n xs) = n"
  by (simp add: realloc_list_def)

lemma nth_realloc_list:
  "i < n \<Longrightarrow> realloc_list junk n xs ! i = (if i < length xs then xs ! i else junk)"
  by (simp add: realloc_list_def nth_append)

section \<open>Counting loops\<close>

fun fold_opt :: "('i \<Rightarrow> 's \<Rightarrow> 's option) \<Rightarrow> 'i list \<Rightarrow> 's \<Rightarrow> 's option" where
  "fold_opt f [] s = Some s"
| "fold_opt f (i # is) s = f i s \<bind> fold_opt f is"

definition for_upto :: "nat \<Rightarrow> nat \<Rightarrow> (nat \<Rightarrow> 's \<Rightarrow> 's option) \<Rightarrow> 's \<Rightarrow> 's option" where
  "for_upto a b f = fold_opt f [a..<b]"

lemma fold_opt_append: "fold_opt f (xs @ ys) s = fold_opt f xs s \<bind> fold_opt f ys"
  by (induction xs arbitrary: s) (auto split: Option.bind_splits)

lemma fold_opt_returns:
  assumes "I s" and "\<And>i s. i \<in> set is \<Longrightarrow> I s \<Longrightarrow> returns (f i s) I"
  shows "returns (fold_opt f is s) I"
  using assms
proof (induction "is" arbitrary: s)
  case (Cons i "is")
  have "returns (f i s) I" using Cons.prems by simp
  then have "returns (f i s) (\<lambda>t. returns (fold_opt f is t) I)"
    by (rule returns_mono) (use Cons in auto)
  then show ?case by simp
qed simp

lemma for_upto_empty [simp]: "b \<le> a \<Longrightarrow> for_upto a b f s = Some s"
  by (simp add: for_upto_def)

lemma for_upto_Suc: "a \<le> b \<Longrightarrow> for_upto a (Suc b) f s = for_upto a b f s \<bind> f b"
  by (simp add: for_upto_def fold_opt_append)
     (cases "fold_opt f [a..<b] s"; simp add: split: Option.bind_splits)

lemma for_upto_cong:
  assumes "\<And>i s. a \<le> i \<Longrightarrow> i < b \<Longrightarrow> f i s = g i s"
  shows "for_upto a b f s = for_upto a b g s"
proof -
  have "fold_opt f is s = fold_opt g is s" if "\<forall>i \<in> set is. a \<le> i \<and> i < b" for "is" s
    using that
  proof (induction "is" arbitrary: s)
    case (Cons i "is")
    then have "fold_opt f is = fold_opt g is" by (intro ext) simp
    then show ?case using Cons.prems assms [of i s] by simp
  qed simp
  then show ?thesis by (simp add: for_upto_def)
qed

lemma for_upto_eq:
  assumes "a \<le> b" and "S a = s" and "\<And>i. a \<le> i \<Longrightarrow> i < b \<Longrightarrow> f i (S i) = Some (S (Suc i))"
  shows "for_upto a b f s = Some (S b)"
  using assms(1,3)
proof (induction b rule: dec_induct)
  case base
  show ?case using assms(2) by simp
next
  case (step n)
  then show ?case by (simp add: for_upto_Suc)
qed

lemma for_upto_returns:
  assumes "I s" and "\<And>i s. a \<le> i \<Longrightarrow> i < b \<Longrightarrow> I s \<Longrightarrow> returns (f i s) I"
  shows "returns (for_upto a b f s) I"
  unfolding for_upto_def by (rule fold_opt_returns) (use assms in auto)

lemma for_upto_returns_index:
  assumes "a \<le> b" and "I a s"
    and "\<And>i s. a \<le> i \<Longrightarrow> i < b \<Longrightarrow> I i s \<Longrightarrow> returns (f i s) (I (Suc i))"
  shows "returns (for_upto a b f s) (I b)"
  using assms(1,3)
proof (induction b rule: dec_induct)
  case base
  show ?case using assms(2) by simp
next
  case (step n)
  then have "returns (for_upto a n f s) (I n)" by simp
  then have "returns (for_upto a n f s) (\<lambda>s'. returns (f n s') (I (Suc n)))"
    by (rule returns_mono) (use step in simp)
  then show ?case using step by (simp add: for_upto_Suc)
qed

lemma for_upto_put_at:
  assumes "b \<le> length xs"
  shows "for_upto a b (\<lambda>i. put_at i x) xs = Some (fill_list a b x xs)"
proof (cases "a \<le> b")
  case True
  then show ?thesis
    by (rule for_upto_eq [where S = "\<lambda>i. fill_list a i x xs"])
       (use assms in \<open>auto simp: fill_list_Suc\<close>)
qed simp

section \<open>Contracts\<close>

text \<open>
  A component that is driven by a sequence of operations, none of which may die in a state that
  satisfies the component's invariant. \<open>rel\<close> is what an operation keeps of the state.
\<close>

locale guarded_ops =
  fixes inv :: "'s \<Rightarrow> bool"
    and rel :: "'s \<Rightarrow> 's \<Rightarrow> bool"
    and step :: "'op \<Rightarrow> 's \<Rightarrow> 's option"
  assumes step_ok: "inv s \<Longrightarrow> returns (step op s) (\<lambda>s'. inv s' \<and> rel s s')"
    and rel_refl: "rel s s"
    and rel_trans: "rel s t \<Longrightarrow> rel t u \<Longrightarrow> rel s u"
begin

lemma run_ok: "inv s \<Longrightarrow> returns (fold_opt step ops s) (\<lambda>s'. inv s' \<and> rel s s')"
proof -
  assume "inv s"
  then have "inv s \<and> rel s s" by (simp add: rel_refl)
  then show ?thesis
  proof (rule fold_opt_returns)
    fix i s' assume *: "inv s' \<and> rel s s'"
    then have "returns (step i s') (\<lambda>t. inv t \<and> rel s' t)" by (blast intro: step_ok)
    then show "returns (step i s') (\<lambda>t. inv t \<and> rel s t)"
      by (rule returns_mono) (use * in \<open>blast intro: rel_trans\<close>)
  qed
qed

lemma run_total: "inv s \<Longrightarrow> \<exists>s'. fold_opt step ops s = Some s'"
  using run_ok [of s ops] by (auto simp: returns_eq)

lemma run_inv: "inv s \<Longrightarrow> fold_opt step ops s = Some s' \<Longrightarrow> inv s'"
  using run_ok [of s ops] by simp

end

end
