(* ===== verification/Utf8.thy ===== *)
theory Utf8
  imports Prelude
begin

text \<open>
  UTF-8 decoding and character widths (\<open>src/utf8.c\<close>): the decoder state \<open>struct utf8_data\<close> with
  \<open>utf8_open\<close> and \<open>utf8_append\<close>, the code point computed by \<open>utf8_combine\<close>, and the width table,
  which \<open>utf8_build\<close> turns into a search tree at start-up and \<open>utf8_width\<close> searches. The theory
  proves that the tree is built, that the search agrees with a scan of the table, and which code
  point each well-formed sequence decodes to.
\<close>

unbundle bit_operations_syntax

section \<open>The width table and its search tree\<close>

text \<open>An entry of \<open>utf8_width_table\<close>: first code point, last code point, width.\<close>

datatype utf8_width_entry =
  Width (uw_first: u_int) (uw_last: u_int) (uw_width: u_int)

definition utf8_width_table :: "utf8_width_entry list" where
  "utf8_width_table = [
   Width 0x00951 0x00954 0, Width 0x00ccc 0x00ccd 0, Width 0x0fff9 0x0fffb 0,
   Width 0x20000 0x2fffd 2, Width 0x00ebb 0x00ebc 0, Width 0x01932 0x01932 0,
   Width 0x0070f 0x0070f 0, Width 0x00a70 0x00a71 0, Width 0x02329 0x02329 2,
   Width 0x00acd 0x00acd 0, Width 0x00ac7 0x00ac8 0, Width 0x00a3c 0x00a3c 0,
   Width 0x009cd 0x009cd 0, Width 0x00591 0x005bd 0, Width 0x01058 0x01059 0,
   Width 0x0ffe0 0x0ffe6 2, Width 0x01100 0x0115f 2, Width 0x0fe20 0x0fe23 0,
   Width 0x0302a 0x0302f 0, Width 0x01772 0x01773 0, Width 0x005bf 0x005bf 0,
   Width 0x006ea 0x006ed 0, Width 0x00bc0 0x00bc0 0, Width 0x00962 0x00963 0,
   Width 0x01732 0x01734 0, Width 0x00d41 0x00d43 0, Width 0x01b42 0x01b42 0,
   Width 0x00a41 0x00a42 0, Width 0x00eb4 0x00eb9 0, Width 0x00b01 0x00b01 0,
   Width 0x00e34 0x00e3a 0, Width 0x03040 0x03098 2, Width 0x0093c 0x0093c 0,
   Width 0x00c4a 0x00c4d 0, Width 0x01032 0x01032 0, Width 0x00f37 0x00f37 0,
   Width 0x00901 0x00902 0, Width 0x00cbf 0x00cbf 0, Width 0x0a806 0x0a806 0,
   Width 0x00dd2 0x00dd4 0, Width 0x00f71 0x00f7e 0, Width 0x01752 0x01753 0,
   Width 0x1d242 0x1d244 0, Width 0x005c1 0x005c2 0, Width 0x0309b 0x0a4cf 2,
   Width 0xe0100 0xe01ef 0, Width 0x017dd 0x017dd 0, Width 0x00600 0x00603 0,
   Width 0x009e2 0x009e3 0, Width 0x00cc6 0x00cc6 0, Width 0x0a80b 0x0a80b 0,
   Width 0x01712 0x01714 0, Width 0x00b3c 0x00b3c 0, Width 0x01b00 0x01b03 0,
   Width 0x007eb 0x007f3 0, Width 0xe0001 0xe0001 0, Width 0x1d185 0x1d18b 0,
   Width 0x0feff 0x0feff 0, Width 0x01b36 0x01b3a 0, Width 0x01920 0x01922 0,
   Width 0x00670 0x00670 0, Width 0x00f90 0x00f97 0, Width 0x01927 0x01928 0,
   Width 0x0200b 0x0200f 0, Width 0x0ff00 0x0ff60 2, Width 0x0f900 0x0faff 2,
   Width 0x0fb1e 0x0fb1e 0, Width 0x00cbc 0x00cbc 0, Width 0x00eb1 0x00eb1 0,
   Width 0x10a38 0x10a3a 0, Width 0x007a6 0x007b0 0, Width 0x00f80 0x00f84 0,
   Width 0x005c4 0x005c5 0, Width 0x0ac00 0x0d7a3 2, Width 0x017c9 0x017d3 0,
   Width 0x00d4d 0x00d4d 0, Width 0x1d167 0x1d169 0, Width 0x01036 0x01037 0,
   Width 0xe0020 0xe007f 0, Width 0x00f35 0x00f35 0, Width 0x017b4 0x017b5 0,
   Width 0x0206a 0x0206f 0, Width 0x00c46 0x00c48 0, Width 0x01939 0x0193b 0,
   Width 0x01dc0 0x01dca 0, Width 0x10a0c 0x10a0f 0, Width 0x0102d 0x01030 0,
   Width 0x017c6 0x017c6 0, Width 0x00ec8 0x00ecd 0, Width 0x00b41 0x00b43 0,
   Width 0x017b7 0x017bd 0, Width 0x1d173 0x1d182 0, Width 0x00a47 0x00a48 0,
   Width 0x0232a 0x0232a 2, Width 0x01b3c 0x01b3c 0, Width 0x10a01 0x10a03 0,
   Width 0x00ae2 0x00ae3 0, Width 0x00483 0x00486 0, Width 0x0135f 0x0135f 0,
   Width 0x01a17 0x01a18 0, Width 0x006e7 0x006e8 0, Width 0x03099 0x0309a 0,
   Width 0x00b4d 0x00b4d 0, Width 0x00ce2 0x00ce3 0, Width 0x00bcd 0x00bcd 0,
   Width 0x00610 0x00615 0, Width 0x00f99 0x00fbc 0, Width 0x009c1 0x009c4 0,
   Width 0x00730 0x0074a 0, Width 0x00300 0x0036f 0, Width 0x03030 0x0303e 2,
   Width 0x01b34 0x01b34 0, Width 0x1d1aa 0x1d1ad 0, Width 0x00dca 0x00dca 0,
   Width 0x006d6 0x006e4 0, Width 0x00f86 0x00f87 0, Width 0x00b3f 0x00b3f 0,
   Width 0x0fe30 0x0fe6f 2, Width 0x01039 0x01039 0, Width 0x0094d 0x0094d 0,
   Width 0x00c55 0x00c56 0, Width 0x00488 0x00489 0, Width 0x00e47 0x00e4e 0,
   Width 0x00a81 0x00a82 0, Width 0x00ac1 0x00ac5 0, Width 0x0202a 0x0202e 0,
   Width 0x00dd6 0x00dd6 0, Width 0x018a9 0x018a9 0, Width 0x0064b 0x0065e 0,
   Width 0x00abc 0x00abc 0, Width 0x00b82 0x00b82 0, Width 0x00f39 0x00f39 0,
   Width 0x020d0 0x020ef 0, Width 0x01dfe 0x01dff 0, Width 0x30000 0x3fffd 2,
   Width 0x00711 0x00711 0, Width 0x0fe00 0x0fe0f 0, Width 0x01160 0x011ff 0,
   Width 0x0180b 0x0180d 0, Width 0x10a3f 0x10a3f 0, Width 0x00981 0x00981 0,
   Width 0x0a825 0x0a826 0, Width 0x00941 0x00948 0, Width 0x01b6b 0x01b73 0,
   Width 0x00e31 0x00e31 0, Width 0x0fe10 0x0fe19 2, Width 0x00a01 0x00a02 0,
   Width 0x00a4b 0x00a4d 0, Width 0x00f18 0x00f19 0, Width 0x00fc6 0x00fc6 0,
   Width 0x02e80 0x03029 2, Width 0x00b56 0x00b56 0, Width 0x009bc 0x009bc 0,
   Width 0x005c7 0x005c7 0, Width 0x02060 0x02063 0, Width 0x00c3e 0x00c40 0,
   Width 0x10a05 0x10a06 0]"

text \<open>The table's entries linked by their \<open>left\<close> and \<open>right\<close> pointers.\<close>

datatype utf8_tree = Null | Entry utf8_width_entry utf8_tree utf8_tree

fun utf8_entries :: "utf8_tree \<Rightarrow> utf8_width_entry set" where
  "utf8_entries Null = {}"
| "utf8_entries (Entry e l r) = insert e (utf8_entries l \<union> utf8_entries r)"

definition utf8_overlap :: "utf8_width_entry \<Rightarrow> utf8_width_entry \<Rightarrow> bool" where
  "utf8_overlap item1 item2 =
     (if uw_first item1 \<ge> uw_first item2 \<and> uw_first item1 \<le> uw_last item2 then True
      else if uw_last item1 \<ge> uw_first item2 \<and> uw_last item1 \<le> uw_last item2 then True
      else if uw_first item2 \<ge> uw_first item1 \<and> uw_first item2 \<le> uw_last item1 then True
      else if uw_last item2 \<ge> uw_first item1 \<and> uw_last item2 \<le> uw_last item1 then True
      else False)"

text \<open>
  The walk of \<open>utf8_build\<close> to the place of a new entry. When neither side of a node applies, the
  loop of the code runs forever: \<open>None\<close>.
\<close>

fun utf8_insert :: "utf8_width_entry \<Rightarrow> utf8_tree \<Rightarrow> utf8_tree option" where
  "utf8_insert item Null = Some (Entry item Null Null)"
| "utf8_insert item (Entry node l r) =
     (if uw_last item < uw_first node then map_option (\<lambda>l'. Entry node l' r) (utf8_insert item l)
      else if uw_first item > uw_last node then map_option (\<lambda>r'. Entry node l r') (utf8_insert item r)
      else None)"

definition utf8_overlap_check :: "utf8_width_entry list \<Rightarrow> nat \<Rightarrow> bool" where
  "utf8_overlap_check table i =
     list_all (\<lambda>j. \<not> (i \<noteq> j \<and> utf8_overlap (table ! i) (table ! j))) [0..<length table]"

definition utf8_build :: "utf8_width_entry list \<Rightarrow> utf8_tree option" where
  "utf8_build table =
     fold_opt (\<lambda>i root. if utf8_overlap_check table i then utf8_insert (table ! i) root else None)
       [0..<length table] Null"

text \<open>The global \<open>utf8_width_root\<close>, set by the call of \<open>utf8_build\<close> in \<open>main\<close>.\<close>

definition utf8_width_root :: utf8_tree where
  "utf8_width_root = (case utf8_build utf8_width_table of Some t \<Rightarrow> t | None \<Rightarrow> Null)"

fun utf8_search :: "u_int \<Rightarrow> utf8_tree \<Rightarrow> u_int" where
  "utf8_search v Null = 1"
| "utf8_search v (Entry item l r) =
     (if v < uw_first item then utf8_search v l
      else if v > uw_last item then utf8_search v r
      else uw_width item)"

section \<open>Decoding\<close>

abbreviation UTF8_SIZE :: nat where
  "UTF8_SIZE \<equiv> 9"

record utf8_data =
  ud_data :: "u_char list"
  ud_have :: nat
  ud_size :: nat
  ud_width :: u_int

definition utf8_zero :: utf8_data where
  "utf8_zero = \<lparr>ud_data = replicate UTF8_SIZE 0, ud_have = 0, ud_size = 0, ud_width = 0\<rparr>"

definition utf8_combine :: "utf8_data \<Rightarrow> 32 word" where
  "utf8_combine ud =
     (let d = (\<lambda>i. (ucast (ud_data ud ! i) :: 32 word))
      in if ud_size ud = 1 then d 0
         else if ud_size ud = 2 then
           (d 1 AND 0x3f) OR push_bit 6 (d 0 AND 0x1f)
         else if ud_size ud = 3 then
           ((d 2 AND 0x3f) OR push_bit 6 (d 1 AND 0x3f)) OR push_bit 12 (d 0 AND 0x0f)
         else if ud_size ud = 4 then
           (((d 3 AND 0x3f) OR push_bit 6 (d 2 AND 0x3f)) OR push_bit 12 (d 1 AND 0x3f))
             OR push_bit 18 (d 0 AND 0x3f)
         else 0xff)"

definition utf8_width :: "utf8_data \<Rightarrow> u_int" where
  "utf8_width ud = utf8_search (unat (utf8_combine ud)) utf8_width_root"

text \<open>\<open>utf8_append\<close> returns the new state and whether more bytes are to come.\<close>

definition utf8_append :: "utf8_data \<Rightarrow> u_char \<Rightarrow> (utf8_data \<times> bool) option" where
  "utf8_append ud ch =
     (if ud_have ud \<ge> ud_size ud then None
      else if ud_size ud > UTF8_SIZE then None
      else do {
        d \<leftarrow> put_at (ud_have ud) ch (ud_data ud);
        let ud1 = ud\<lparr>ud_data := d, ud_have := ud_have ud + 1\<rparr>;
        if ud_have ud1 \<noteq> ud_size ud1 then Some (ud1, True)
        else Some (ud1\<lparr>ud_width := utf8_width ud1\<rparr>, False)
      })"

definition utf8_open_size :: "u_char \<Rightarrow> nat" where
  "utf8_open_size ch =
     (if ch \<ge> 0xc2 \<and> ch \<le> 0xdf then 2
      else if ch \<ge> 0xe0 \<and> ch \<le> 0xef then 3
      else if ch \<ge> 0xf0 \<and> ch \<le> 0xf4 then 4
      else 0)"

definition utf8_open :: "u_char \<Rightarrow> (utf8_data \<times> bool) option" where
  "utf8_open ch =
     (if utf8_open_size ch = 0 then Some (utf8_zero, False)
      else do {
        (ud, _) \<leftarrow> utf8_append (utf8_zero\<lparr>ud_size := utf8_open_size ch\<rparr>) ch;
        Some (ud, True)
      })"

definition utf8_split2 :: "32 word \<Rightarrow> u_char list" where
  "utf8_split2 uc =
     (if uc > 0x7f then
        [ucast (drop_bit 6 uc OR 0xc0), ucast ((uc AND 0x3f) OR 0x80)]
      else [ucast uc])"

section \<open>The search tree\<close>

definition disjoint_entries :: "utf8_width_entry \<Rightarrow> utf8_width_entry \<Rightarrow> bool" where
  "disjoint_entries a b \<longleftrightarrow> uw_last a < uw_first b \<or> uw_last b < uw_first a"

fun utf8_ordered :: "utf8_tree \<Rightarrow> bool" where
  "utf8_ordered Null = True"
| "utf8_ordered (Entry e l r) =
     (uw_first e \<le> uw_last e \<and> utf8_ordered l \<and> utf8_ordered r \<and>
      (\<forall>x \<in> utf8_entries l. uw_last x < uw_first e) \<and>
      (\<forall>x \<in> utf8_entries r. uw_last e < uw_first x))"

lemma utf8_overlap_iff:
  "uw_first a \<le> uw_last a \<Longrightarrow> uw_first b \<le> uw_last b \<Longrightarrow>
   utf8_overlap a b \<longleftrightarrow> \<not> disjoint_entries a b"
  by (auto simp: utf8_overlap_def disjoint_entries_def)

lemma utf8_ordered_nonempty: "utf8_ordered t \<Longrightarrow> x \<in> utf8_entries t \<Longrightarrow> uw_first x \<le> uw_last x"
  by (induction t) auto

lemma utf8_insert_spec:
  assumes "utf8_ordered t" and "uw_first e \<le> uw_last e" and "utf8_insert e t = Some t'"
  shows "utf8_entries t' = insert e (utf8_entries t) \<and> utf8_ordered t' \<and>
    (\<forall>x \<in> utf8_entries t. disjoint_entries e x)"
  using assms
proof (induction t arbitrary: t')
  case (Entry n l r)
  show ?case
  proof (cases "uw_last e < uw_first n")
    case True
    then obtain l' where l': "utf8_insert e l = Some l'" "t' = Entry n l' r"
      using Entry.prems by (auto split: if_splits)
    have "utf8_entries l' = insert e (utf8_entries l) \<and> utf8_ordered l' \<and>
      (\<forall>x \<in> utf8_entries l. disjoint_entries e x)"
      by (rule Entry.IH(1) [OF _ _ l'(1)]) (use Entry.prems in auto)
    moreover have "\<forall>x \<in> utf8_entries r. disjoint_entries e x"
      using True Entry.prems(1) by (auto simp: disjoint_entries_def)
    ultimately show ?thesis using True Entry.prems l' by (auto simp: disjoint_entries_def)
  next
    case False
    then obtain r' where r': "utf8_insert e r = Some r'" "t' = Entry n l r'"
      and gt: "uw_first e > uw_last n"
      using Entry.prems by (auto split: if_splits)
    have "utf8_entries r' = insert e (utf8_entries r) \<and> utf8_ordered r' \<and>
      (\<forall>x \<in> utf8_entries r. disjoint_entries e x)"
      by (rule Entry.IH(2) [OF _ _ r'(1)]) (use Entry.prems in auto)
    moreover have "\<forall>x \<in> utf8_entries l. disjoint_entries e x"
      using gt Entry.prems(1) by (force simp: disjoint_entries_def)
    ultimately show ?thesis using gt Entry.prems r' by (auto simp: disjoint_entries_def)
  qed
qed auto

lemma fold_utf8_insert_spec:
  assumes "utf8_ordered t" and "\<forall>e \<in> set es. uw_first e \<le> uw_last e"
    and "fold_opt utf8_insert es t = Some t'"
  shows "utf8_ordered t' \<and> utf8_entries t' = set es \<union> utf8_entries t \<and>
    (\<forall>i < length es. \<forall>x \<in> utf8_entries t. disjoint_entries (es ! i) x) \<and>
    (\<forall>i < length es. \<forall>j < i. disjoint_entries (es ! i) (es ! j))"
  using assms
proof (induction es arbitrary: t)
  case (Cons e es)
  from Cons.prems obtain t1 where t1: "utf8_insert e t = Some t1" "fold_opt utf8_insert es t1 = Some t'"
    by (auto simp: bind_Some_iff)
  have one: "utf8_entries t1 = insert e (utf8_entries t) \<and> utf8_ordered t1 \<and>
    (\<forall>x \<in> utf8_entries t. disjoint_entries e x)"
    using utf8_insert_spec [OF Cons.prems(1) _ t1(1)] Cons.prems(2) by simp
  have rest: "utf8_ordered t' \<and> utf8_entries t' = set es \<union> utf8_entries t1 \<and>
    (\<forall>i < length es. \<forall>x \<in> utf8_entries t1. disjoint_entries (es ! i) x) \<and>
    (\<forall>i < length es. \<forall>j < i. disjoint_entries (es ! i) (es ! j))"
    using Cons.IH [of t1] one Cons.prems(2) t1(2) by simp
  show ?case
  proof (intro conjI allI impI ballI)
    fix i j assume "i < length (e # es)" and "j < i"
    then show "disjoint_entries ((e # es) ! i) ((e # es) ! j)"
      using one rest by (cases i; cases j) auto
  next
    fix i x assume "i < length (e # es)" and "x \<in> utf8_entries t"
    then show "disjoint_entries ((e # es) ! i) x"
      using one rest by (cases i) auto
  qed (use one rest in auto)
qed simp

lemma utf8_insert_all_evaluates: "fold_opt utf8_insert utf8_width_table Null \<noteq> None"
  by (simp add: utf8_width_table_def)

lemma utf8_width_table_nonempty_ranges: "\<forall>e \<in> set utf8_width_table. uw_first e \<le> uw_last e"
  by (simp add: utf8_width_table_def)

lemma fold_opt_map_index:
  "fold_opt (\<lambda>i. f (xs ! i)) [0..<length xs] s = fold_opt f xs s"
proof -
  have "fold_opt (\<lambda>i. f (xs ! i)) is s = fold_opt f (map ((!) xs) is) s" for "is" s
    by (induction "is" arbitrary: s) (auto split: Option.bind_splits)
  then show ?thesis by (simp add: map_nth)
qed

lemma fold_opt_cong_Some:
  "(\<And>i s. i \<in> set is \<Longrightarrow> f i s = g i s) \<Longrightarrow> fold_opt f is s = fold_opt g is s"
  by (induction "is" arbitrary: s) (auto split: Option.bind_splits)

lemma utf8_table_tree:
  obtains t where "utf8_build utf8_width_table = Some t" and "utf8_ordered t"
    and "utf8_entries t = set utf8_width_table"
proof -
  obtain t where t: "fold_opt utf8_insert utf8_width_table Null = Some t"
    using utf8_insert_all_evaluates by blast
  note spec = fold_utf8_insert_spec [OF _ utf8_width_table_nonempty_ranges t]
  have check: "utf8_overlap_check utf8_width_table i" if i: "i < length utf8_width_table" for i
  proof -
    have "\<not> utf8_overlap (utf8_width_table ! i) (utf8_width_table ! j)"
      if "i \<noteq> j" "j < length utf8_width_table" for j
    proof -
      have "disjoint_entries (utf8_width_table ! i) (utf8_width_table ! j)"
        using spec i that by (cases i j rule: linorder_cases) (auto simp: disjoint_entries_def)
      then show ?thesis
        using utf8_width_table_nonempty_ranges i that by (simp add: utf8_overlap_iff)
    qed
    then show ?thesis by (auto simp: utf8_overlap_check_def list_all_iff)
  qed
  have "utf8_build utf8_width_table =
    fold_opt (\<lambda>i. utf8_insert (utf8_width_table ! i)) [0..<length utf8_width_table] Null"
    unfolding utf8_build_def by (rule fold_opt_cong_Some) (use check in auto)
  also have "\<dots> = Some t" using t by (simp add: fold_opt_map_index)
  finally show thesis using that spec by auto
qed

lemma utf8_search_hit:
  "utf8_ordered t \<Longrightarrow> e \<in> utf8_entries t \<Longrightarrow> uw_first e \<le> v \<Longrightarrow> v \<le> uw_last e \<Longrightarrow>
   utf8_search v t = uw_width e"
proof (induction t)
  case (Entry n l r)
  then show ?case using utf8_ordered_nonempty [of l e] utf8_ordered_nonempty [of r e] by force
qed simp

lemma utf8_search_miss:
  "(\<And>e. e \<in> utf8_entries t \<Longrightarrow> \<not> (uw_first e \<le> v \<and> v \<le> uw_last e)) \<Longrightarrow> utf8_search v t = 1"
proof (induction t)
  case (Entry n l r)
  from Entry.prems [of n] have "v < uw_first n \<or> uw_last n < v" by auto
  then show ?case using Entry by auto
qed simp

text \<open>What a scan of the table would answer.\<close>

definition utf8_width_scan :: "u_int \<Rightarrow> u_int" where
  "utf8_width_scan v =
     (case List.find (\<lambda>e. uw_first e \<le> v \<and> v \<le> uw_last e) utf8_width_table of
        Some e \<Rightarrow> uw_width e | None \<Rightarrow> 1)"

lemma utf8_search_root: "utf8_search v utf8_width_root = utf8_width_scan v"
proof -
  obtain t where t: "utf8_build utf8_width_table = Some t" "utf8_ordered t"
    "utf8_entries t = set utf8_width_table" by (rule utf8_table_tree)
  show ?thesis
  proof (cases "List.find (\<lambda>e. uw_first e \<le> v \<and> v \<le> uw_last e) utf8_width_table")
    case None
    then have "utf8_search v t = 1" using t
      by (intro utf8_search_miss) (auto simp: find_None_iff)
    then show ?thesis using None t by (simp add: utf8_width_root_def utf8_width_scan_def)
  next
    case (Some e)
    then have "e \<in> set utf8_width_table" "uw_first e \<le> v" "v \<le> uw_last e"
      by (auto simp: find_Some_iff)
    then show ?thesis using Some utf8_search_hit [of t e v] t
      by (simp add: utf8_width_root_def utf8_width_scan_def)
  qed
qed

text \<open>
  C18. \<open>utf8_build\<close> terminates without finding an overlap, and the tree it leaves in
  \<open>utf8_width_root\<close> gives every code point the width that a linear scan of \<open>utf8_width_table\<close> gives it.
\<close>

theorem utf8_build_correct:
  "utf8_build utf8_width_table = Some utf8_width_root \<and>
   utf8_width ud = utf8_width_scan (unat (utf8_combine ud))"
proof -
  obtain t where "utf8_build utf8_width_table = Some t" by (rule utf8_table_tree)
  then have "utf8_build utf8_width_table = Some utf8_width_root" by (simp add: utf8_width_root_def)
  then show ?thesis by (simp add: utf8_width_def utf8_search_root)
qed

lemma utf8_width_scan_range: "utf8_width_scan v \<le> 2"
proof -
  have "\<forall>e \<in> set utf8_width_table. uw_width e \<le> 2"
    by (simp add: utf8_width_table_def)
  then show ?thesis
    by (auto simp: utf8_width_scan_def find_Some_iff split: option.splits)
qed

lemma utf8_width_le_2: "utf8_width ud \<le> 2"
  by (simp add: utf8_width_def utf8_search_root utf8_width_scan_range)

section \<open>Decoding well-formed sequences\<close>

text \<open>The invariant of the decoder: the buffer has its full size and the write position is inside it.\<close>

definition utf8_data_ok :: "utf8_data \<Rightarrow> bool" where
  "utf8_data_ok ud \<longleftrightarrow> length (ud_data ud) = UTF8_SIZE \<and> ud_size ud \<le> 4 \<and> ud_have ud \<le> ud_size ud"

lemma utf8_zero_ok: "utf8_data_ok utf8_zero"
  by (simp add: utf8_data_ok_def utf8_zero_def)

lemma utf8_append_returns:
  assumes "utf8_data_ok ud" and "ud_have ud < ud_size ud"
  shows "returns (utf8_append ud ch) (\<lambda>(ud', more). utf8_data_ok ud' \<and>
    ud_have ud' = ud_have ud + 1 \<and> ud_size ud' = ud_size ud \<and>
    more = (ud_have ud' \<noteq> ud_size ud') \<and>
    (\<not> more \<longrightarrow> ud_width ud' \<le> 2))"
  using assms by (auto simp: utf8_append_def utf8_data_ok_def Let_def utf8_width_le_2)

lemma utf8_open_returns:
  "returns (utf8_open ch) (\<lambda>(ud, ok). utf8_data_ok ud \<and> ok = (utf8_open_size ch \<noteq> 0) \<and>
    ud_size ud = utf8_open_size ch \<and> (ok \<longrightarrow> ud_have ud = 1))"
proof (cases "utf8_open_size ch = 0")
  case True
  then show ?thesis by (simp add: utf8_open_def utf8_zero_ok) (simp add: utf8_zero_def)
next
  case False
  have "returns (utf8_append (utf8_zero\<lparr>ud_size := utf8_open_size ch\<rparr>) ch) (\<lambda>(ud', more).
    utf8_data_ok ud' \<and> ud_have ud' = 1 \<and> ud_size ud' = utf8_open_size ch)"
    using utf8_append_returns [of "utf8_zero\<lparr>ud_size := utf8_open_size ch\<rparr>" ch] False
    by (auto elim!: returns_mono simp: utf8_data_ok_def utf8_zero_def utf8_open_size_def split: if_splits)
  then show ?thesis using False
    by (simp add: utf8_open_def case_prod_beta') (erule returns_mono, auto)
qed

text \<open>Driving the decoder over one sequence, as \<open>input.c\<close> does.\<close>

definition utf8_decode :: "u_char list \<Rightarrow> (utf8_data \<times> bool) option" where
  "utf8_decode bytes =
     utf8_open (hd bytes) \<bind> fold_opt (\<lambda>ch (ud, _). utf8_append ud ch) (tl bytes)"

text \<open>The UTF-8 encoding of a code point (RFC 3629).\<close>

definition utf8_encode :: "nat \<Rightarrow> u_char list" where
  "utf8_encode cp =
     (if cp < 0x80 then [of_nat cp]
      else if cp < 0x800 then [of_nat (0xc0 + cp div 64), of_nat (0x80 + cp mod 64)]
      else if cp < 0x10000 then
        [of_nat (0xe0 + cp div 4096), of_nat (0x80 + cp div 64 mod 64), of_nat (0x80 + cp mod 64)]
      else [of_nat (0xf0 + cp div 262144), of_nat (0x80 + cp div 4096 mod 64),
            of_nat (0x80 + cp div 64 mod 64), of_nat (0x80 + cp mod 64)])"

lemma or_push_nat: "x < 2 ^ k \<Longrightarrow> x OR push_bit k y = x + y * 2 ^ k" for x y :: nat
proof -
  assume "x < 2 ^ k"
  then have tb: "take_bit k x = x" by (simp add: take_bit_nat_eq_self_iff)
  have "bit x n \<longrightarrow> n < k" for n using tb by (metis bit_take_bit_iff)
  then have "x AND push_bit k y = 0"
    by (intro bit_eqI) (auto simp: bit_simps dest: leD)
  then have "x + push_bit k y = x OR push_bit k y" by (rule disjunctive_add_eq_or)
  then show ?thesis by (simp add: push_bit_eq_mult)
qed

lemma unat_or_push:
  fixes x y :: "32 word"
  assumes "unat x < 2 ^ k" and "unat y * 2 ^ k < 2 ^ 32"
  shows "unat (x OR push_bit k y) = unat x + unat y * 2 ^ k"
proof -
  have "unat (push_bit k y) = push_bit k (unat y)"
    using assms(2) unfolding unsigned_push_bit_eq by (simp add: push_bit_eq_mult take_bit_nat_eq_self_iff)
  then show ?thesis using or_push_nat [OF assms(1), of "unat y"] by (simp add: unsigned_or_eq)
qed

lemma and_63_nat: "n AND 63 = n mod 64" for n :: nat
  using take_bit_eq_mask [of 6 n] by (simp add: take_bit_eq_mod mask_eq_exp_minus_1)

lemma unat_byte_and_mask:
  fixes b :: "8 word"
  shows "unat ((ucast b :: 32 word) AND 0x3f) = unat b mod 64"
    "unat ((ucast b :: 32 word) AND 0x1f) = unat b mod 32"
    "unat ((ucast b :: 32 word) AND 0x0f) = unat b mod 16"
  using unsigned_less [of b, where ?'a = nat] take_bit_eq_mask [of 6 "unat b"] take_bit_eq_mask [of 5 "unat b"] take_bit_eq_mask [of 4 "unat b"]
  by (simp_all add: unsigned_and_eq unsigned_ucast_eq take_bit_eq_mod mask_eq_exp_minus_1 take_bit_nat_eq_self_iff unsigned_take_bit_eq)

text \<open>The decoder's state after a whole sequence.\<close>

definition utf8_closed :: "u_char list \<Rightarrow> utf8_data" where
  "utf8_closed bs =
     (let ud = \<lparr>ud_data = bs @ replicate (UTF8_SIZE - length bs) 0, ud_have = length bs,
                ud_size = length bs, ud_width = 0\<rparr>
      in ud\<lparr>ud_width := utf8_width ud\<rparr>)"

lemma utf8_width_update [simp]: "utf8_width (ud\<lparr>ud_width := w\<rparr>) = utf8_width ud"
  by (simp add: utf8_width_def utf8_combine_def)

lemma utf8_combine_update [simp]: "utf8_combine (ud\<lparr>ud_width := w\<rparr>) = utf8_combine ud"
  by (simp add: utf8_combine_def)

lemmas utf8_run_simps = utf8_decode_def utf8_open_def utf8_append_def utf8_zero_def utf8_closed_def
  Let_def eval_nat_numeral

lemma utf8_decode_closed:
  "utf8_open_size b0 = 2 \<Longrightarrow> utf8_decode [b0, b1] = Some (utf8_closed [b0, b1], False)"
  "utf8_open_size b0 = 3 \<Longrightarrow> utf8_decode [b0, b1, b2] = Some (utf8_closed [b0, b1, b2], False)"
  "utf8_open_size b0 = 4 \<Longrightarrow> utf8_decode [b0, b1, b2, b3] = Some (utf8_closed [b0, b1, b2, b3], False)"
  by (simp_all add: utf8_run_simps)

lemma utf8_combine_closed:
  "unat (utf8_combine (utf8_closed [b0, b1])) = unat b1 mod 64 + unat b0 mod 32 * 64"
  "unat (utf8_combine (utf8_closed [b0, b1, b2])) =
     unat b2 mod 64 + unat b1 mod 64 * 64 + unat b0 mod 16 * 4096"
  "unat (utf8_combine (utf8_closed [b0, b1, b2, b3])) =
     unat b3 mod 64 + unat b2 mod 64 * 64 + unat b1 mod 64 * 4096 + unat b0 mod 64 * 262144"
proof -
  have *: "n mod 64 * c < 64 * c" "n mod 32 * c < 32 * c" "n mod 16 * c < 16 * c" "n mod 64 < 64"
    if "0 < c" for n c :: nat using that by simp_all
  show "unat (utf8_combine (utf8_closed [b0, b1])) = unat b1 mod 64 + unat b0 mod 32 * 64"
    using *(2) [of 64 "unat b0"] unfolding utf8_combine_def utf8_closed_def
    by (simp add: Let_def unat_or_push unat_byte_and_mask del: push_bit_and)
  show "unat (utf8_combine (utf8_closed [b0, b1, b2])) =
     unat b2 mod 64 + unat b1 mod 64 * 64 + unat b0 mod 16 * 4096"
    using *(1) [of 64 "unat b1"] *(3) [of 4096 "unat b0"] *(4) [of 1 "unat b2"]
    unfolding utf8_combine_def utf8_closed_def
    by (simp add: Let_def unat_or_push unat_byte_and_mask del: push_bit_and)
  show "unat (utf8_combine (utf8_closed [b0, b1, b2, b3])) =
     unat b3 mod 64 + unat b2 mod 64 * 64 + unat b1 mod 64 * 4096 + unat b0 mod 64 * 262144"
    using *(1) [of 64 "unat b2"] *(1) [of 4096 "unat b1"] *(1) [of 262144 "unat b0"] *(4) [of 1 "unat b3"]
    unfolding utf8_combine_def utf8_closed_def
    by (simp add: Let_def unat_or_push unat_byte_and_mask del: push_bit_and)
qed

lemma unat_byte: "n < 256 \<Longrightarrow> unat (of_nat n :: u_char) = n"
  by (simp add: unsigned_of_nat take_bit_nat_eq_self_iff)

lemma utf8_open_size_unat:
  "utf8_open_size ch =
     (if 194 \<le> unat ch \<and> unat ch \<le> 223 then 2
      else if 224 \<le> unat ch \<and> unat ch \<le> 239 then 3
      else if 240 \<le> unat ch \<and> unat ch \<le> 244 then 4 else 0)"
  by (simp add: utf8_open_size_def word_le_nat_alt)

lemma utf8_encode_bounds:
  "cp < 0x800 \<Longrightarrow> cp div 64 < 32"
  "cp < 0x10000 \<Longrightarrow> cp div 4096 < 16"
  "cp \<le> 0x10ffff \<Longrightarrow> cp div 262144 \<le> 4"
  "0x80 \<le> cp \<Longrightarrow> 2 \<le> cp div 64"
  "x mod 64 < (64::nat)"
  for cp :: nat
  by auto

lemma div_mod_split:
  "cp mod 64 + cp div 64 mod 64 * 64 + cp div 4096 * 4096 = cp"
  "cp mod 64 + cp div 64 mod 64 * 64 + cp div 4096 mod 64 * 4096 + cp div 262144 * 262144 = cp"
  for cp :: nat
proof -
  have step: "m = r + q * 64 \<Longrightarrow> q = r' + q' * 64 \<Longrightarrow> r + r' * 64 + q' * 4096 = m"
    "m = r + q * 64 \<Longrightarrow> q = r' + q' * 64 \<Longrightarrow> q' = r'' + q'' * 64 \<Longrightarrow>
      r + r' * 64 + r'' * 4096 + q'' * 262144 = m" for m q q' q'' r r' r'' :: nat
    by (hypsubst, simp)+
  have eq: "cp div 4096 = cp div 64 div 64" "cp div 262144 = cp div 64 div 64 div 64"
    using div_mult2_eq [of cp 64 64] div_mult2_eq [of cp 4096 64] by simp_all
  have split: "m = m mod 64 + m div 64 * 64" for m :: nat
    by simp
  show "cp mod 64 + cp div 64 mod 64 * 64 + cp div 4096 * 4096 = cp"
    unfolding eq by (rule step(1)) (rule split)+
  show "cp mod 64 + cp div 64 mod 64 * 64 + cp div 4096 mod 64 * 4096 + cp div 262144 * 262144 = cp"
    unfolding eq by (rule step(2)) (rule split)+
qed

lemma utf8_encode_bytes:
  "unat (of_nat (128 + x mod 64) :: u_char) mod 64 = x mod 64"
  "x < 32 \<Longrightarrow> unat (of_nat (192 + x) :: u_char) mod 32 = x"
  "x < 16 \<Longrightarrow> unat (of_nat (224 + x) :: u_char) mod 16 = x"
  "x \<le> 4 \<Longrightarrow> unat (of_nat (240 + x) :: u_char) mod 64 = 48 + x"
proof -
  have "128 + y < 256 \<and> (128 + y) mod 64 = y" if "y < 64" for y :: nat
    using that by (simp add: mod_if)
  from this [of "x mod 64"] have "128 + x mod 64 < 256" and "(128 + x mod 64) mod 64 = x mod 64"
    by (simp_all only: mod_less_divisor zero_less_numeral)
  then show "unat (of_nat (128 + x mod 64) :: u_char) mod 64 = x mod 64"
    by (simp only: unat_byte)
  show "x < 32 \<Longrightarrow> unat (of_nat (192 + x) :: u_char) mod 32 = x"
    "x < 16 \<Longrightarrow> unat (of_nat (224 + x) :: u_char) mod 16 = x"
    "x \<le> 4 \<Longrightarrow> unat (of_nat (240 + x) :: u_char) mod 64 = 48 + x"
    by (simp_all add: unat_byte mod_if del: of_nat_add)
qed

lemma utf8_decode_encode_closed:
  assumes "0x80 \<le> cp" and "cp \<le> 0x10ffff"
  shows "utf8_decode (utf8_encode cp) = Some (utf8_closed (utf8_encode cp), False)"
proof -
  consider "cp < 0x800" | "0x800 \<le> cp" "cp < 0x10000" | "0x10000 \<le> cp" by linarith
  then show ?thesis
  proof cases
    case 1
    then have "utf8_open_size (of_nat (0xc0 + cp div 64)) = 2"
      using assms utf8_encode_bounds(1,4) [of cp] by (simp only: utf8_open_size_unat unat_byte) simp
    then show ?thesis using 1 assms(1) by (simp add: utf8_encode_def utf8_decode_closed)
  next
    case 2
    then have "utf8_open_size (of_nat (0xe0 + cp div 4096)) = 3"
      using utf8_encode_bounds(2) [of cp] by (simp only: utf8_open_size_unat unat_byte) simp
    then show ?thesis using 2 by (simp add: utf8_encode_def utf8_decode_closed)
  next
    case 3
    then have "utf8_open_size (of_nat (0xf0 + cp div 262144)) = 4"
      using utf8_encode_bounds(3) [OF assms(2)] by (simp only: utf8_open_size_unat unat_byte) simp
    then show ?thesis using 3 by (simp add: utf8_encode_def utf8_decode_closed)
  qed
qed

text \<open>
  C19. Feeding the UTF-8 encoding of a code point of two or three bytes to \<open>utf8_open\<close> and
  \<open>utf8_append\<close> ends the sequence at its last byte, \<open>utf8_combine\<close> gives the code point back, and
  the width recorded is the one the table lists for it.
\<close>

theorem utf8_decode_encode:
  assumes "0x80 \<le> cp" and "cp < 0x10000"
  shows "returns (utf8_decode (utf8_encode cp)) (\<lambda>(ud, more).
    \<not> more \<and> unat (utf8_combine ud) = cp \<and> ud_width ud = utf8_width_scan cp \<and>
    take (ud_size ud) (ud_data ud) = utf8_encode cp)"
proof -
  have comb: "unat (utf8_combine (utf8_closed (utf8_encode cp))) = cp"
  proof (cases "cp < 0x800")
    case True
    then show ?thesis using assms utf8_encode_bounds(1) [of cp]
      by (simp add: utf8_encode_def utf8_combine_closed utf8_encode_bytes del: of_nat_add)
  next
    case False
    then show ?thesis using assms utf8_encode_bounds(2) [of cp] div_mod_split(1) [of cp]
      by (simp add: utf8_encode_def utf8_combine_closed utf8_encode_bytes del: of_nat_add)
  qed
  have size: "take (ud_size (utf8_closed (utf8_encode cp))) (ud_data (utf8_closed (utf8_encode cp)))
      = utf8_encode cp" and width: "ud_width (utf8_closed bs) = utf8_width (utf8_closed bs)" for bs
    by (simp_all add: utf8_closed_def utf8_width_def utf8_combine_def Let_def)
  show ?thesis using assms comb size
    by (simp add: utf8_decode_encode_closed width utf8_width_def utf8_search_root)
qed

theorem utf8_decode_encode_witness:
  "returns (utf8_decode [0xe3, 0x81, 0x82]) (\<lambda>(ud, more). \<not> more \<and> unat (utf8_combine ud) = 0x3042)"
proof -
  have "utf8_encode 0x3042 = [0xe3, 0x81, 0x82]" by (simp add: utf8_encode_def)
  then show ?thesis using utf8_decode_encode [of "0x3042"]
    by (auto elim!: returns_mono)
qed

lemma utf8_width_scan_above: "0xe01ef < v \<Longrightarrow> utf8_width_scan v = 1"
proof -
  assume "0xe01ef < v"
  moreover have "\<forall>e \<in> set utf8_width_table. uw_last e \<le> 0xe01ef"
    by (simp add: utf8_width_table_def)
  ultimately have "List.find (\<lambda>e. uw_first e \<le> v \<and> v \<le> uw_last e) utf8_width_table = None"
    by (force simp: find_None_iff)
  then show ?thesis by (simp add: utf8_width_scan_def)
qed

text \<open>
  C20. The decoder misreads every four-byte sequence: the marker bits of the first byte are kept by
  the mask \<open>0x3f\<close>, so the value of code point \<open>cp\<close> is \<open>cp + 0xc00000\<close>, which no entry of the width
  table covers. Every such character is therefore given width 1, whatever the table says of it.
\<close>

theorem utf8_four_byte_width:
  assumes "0x10000 \<le> cp" and "cp \<le> 0x10ffff"
  shows "returns (utf8_decode (utf8_encode cp)) (\<lambda>(ud, more).
    \<not> more \<and> unat (utf8_combine ud) = cp + 0xc00000 \<and> ud_width ud = 1)"
proof -
  have comb: "unat (utf8_combine (utf8_closed (utf8_encode cp))) = cp + 0xc00000"
    using assms utf8_encode_bounds(3) [OF assms(2)] div_mod_split(2) [of cp]
    by (simp add: utf8_encode_def utf8_combine_closed utf8_encode_bytes del: of_nat_add)
  have width: "ud_width (utf8_closed bs) = utf8_width (utf8_closed bs)" for bs
    by (simp add: utf8_closed_def utf8_width_def utf8_combine_def Let_def)
  show ?thesis using assms comb
    by (simp add: utf8_decode_encode_closed width utf8_width_def utf8_search_root utf8_width_scan_above)
qed

theorem utf8_four_byte_width_witness:
  "utf8_width_scan 0x20000 = 2 \<and>
   returns (utf8_decode (utf8_encode 0x20000)) (\<lambda>(ud, more). ud_width ud = 1)"
proof -
  have "utf8_width_scan 0x20000 = 2" by (simp add: utf8_width_scan_def utf8_width_table_def)
  then show ?thesis using utf8_four_byte_width [of "0x20000"] by (auto elim!: returns_mono)
qed

end
