(* ===== verification/Grid_Utf8.thy ===== *)
theory Grid_Utf8
  imports Prelude Utf8
begin

text \<open>
  The UTF-8 contents of a grid cell (\<open>struct grid_utf8\<close> of \<open>src/tmux.h\<close> and \<open>src/grid-utf8.c\<close>):
  up to nine bytes, ended by \<open>0xff\<close> when there are fewer. The theory gives the five operations and
  proves that setting, appending and copying behave as operations on the byte string the array
  stands for, whatever the array held before.
\<close>

unbundle bit_operations_syntax

record grid_utf8 =
  gu_width :: u_char
  gu_data :: "u_char list"

definition grid_utf8_size :: "grid_utf8 \<Rightarrow> nat" where
  "grid_utf8_size gu = length (takeWhile (\<lambda>c. c \<noteq> 0xff) (gu_data gu))"

text \<open>The bytes that \<open>grid_utf8_copy\<close> writes to a buffer with room for \<open>len\<close> bytes.\<close>

definition grid_utf8_copy :: "grid_utf8 \<Rightarrow> nat \<Rightarrow> u_char list option" where
  "grid_utf8_copy gu len =
     (let size = grid_utf8_size gu
      in if size > len then None else Some (take size (gu_data gu)))"

text \<open>\<open>memcpy\<close> of \<open>bytes\<close> into an array at offset \<open>off\<close>.\<close>

definition memcpy_at :: "nat \<Rightarrow> 'a list \<Rightarrow> 'a list \<Rightarrow> 'a list option" where
  "memcpy_at off bytes xs =
     (if off + length bytes \<le> length xs
      then Some (take off xs @ bytes @ drop (off + length bytes) xs) else None)"

definition grid_utf8_set :: "grid_utf8 \<Rightarrow> utf8_data \<Rightarrow> grid_utf8 option" where
  "grid_utf8_set gu ud =
     (if ud_size ud = 0 then None
      else if ud_size ud > UTF8_SIZE then None
      else do {
        d \<leftarrow> memcpy_at 0 (take (ud_size ud) (ud_data ud)) (gu_data gu);
        d \<leftarrow> (if ud_size ud \<noteq> UTF8_SIZE then put_at (ud_size ud) 0xff d else Some d);
        Some (gu\<lparr>gu_data := d, gu_width := of_nat (ud_width ud)\<rparr>)
      })"

text \<open>The second component is the code's return value: true for 0, false for -1.\<close>

definition grid_utf8_append :: "grid_utf8 \<Rightarrow> utf8_data \<Rightarrow> (grid_utf8 \<times> bool) option" where
  "grid_utf8_append gu ud =
     (let old_size = grid_utf8_size gu
      in if old_size + ud_size ud > UTF8_SIZE then Some (gu, False)
         else do {
           d \<leftarrow> memcpy_at old_size (take (ud_size ud) (ud_data ud)) (gu_data gu);
           d \<leftarrow> (if old_size + ud_size ud \<noteq> UTF8_SIZE then put_at (old_size + ud_size ud) 0xff d
                 else Some d);
           Some (gu\<lparr>gu_data := d\<rparr>, True)
         })"

definition grid_utf8_compare :: "grid_utf8 \<Rightarrow> grid_utf8 \<Rightarrow> bool" where
  "grid_utf8_compare gu1 gu2 =
     (let size = grid_utf8_size gu1
      in if size \<noteq> grid_utf8_size gu2 then False
         else if take size (gu_data gu1) \<noteq> take size (gu_data gu2) then False
         else True)"

section \<open>The byte string of a cell\<close>

definition gu_ok :: "grid_utf8 \<Rightarrow> bool" where
  "gu_ok gu \<longleftrightarrow> length (gu_data gu) = UTF8_SIZE"

definition gu_bytes :: "grid_utf8 \<Rightarrow> u_char list" where
  "gu_bytes gu = takeWhile (\<lambda>c. c \<noteq> 0xff) (gu_data gu)"

definition ud_bytes :: "utf8_data \<Rightarrow> u_char list" where
  "ud_bytes ud = take (ud_size ud) (ud_data ud)"

lemma grid_utf8_size_bytes: "grid_utf8_size gu = length (gu_bytes gu)"
  by (simp add: grid_utf8_size_def gu_bytes_def)

lemma grid_utf8_size_le: "gu_ok gu \<Longrightarrow> grid_utf8_size gu \<le> UTF8_SIZE"
  using length_takeWhile_le [of "\<lambda>c. c \<noteq> 0xff" "gu_data gu"]
  by (simp add: grid_utf8_size_def gu_ok_def)

lemma gu_bytes_take: "gu_bytes gu = take (grid_utf8_size gu) (gu_data gu)"
  unfolding gu_bytes_def grid_utf8_size_def by (rule takeWhile_eq_take)

lemma grid_utf8_copy_bytes:
  "grid_utf8_copy gu len = (if length (gu_bytes gu) \<le> len then Some (gu_bytes gu) else None)"
  by (simp add: grid_utf8_copy_def Let_def gu_bytes_take [symmetric] grid_utf8_size_bytes [symmetric]
      not_le)

lemma takeWhile_terminated:
  "0xff \<notin> set bs \<Longrightarrow> takeWhile (\<lambda>c. c \<noteq> (0xff :: u_char)) (bs @ rest) =
   bs @ takeWhile (\<lambda>c. c \<noteq> 0xff) rest"
  by (rule takeWhile_append2) auto

lemma grid_utf8_write:
  assumes "gu_ok gu" and "off \<le> UTF8_SIZE" and "off + n \<le> UTF8_SIZE" and "n = length bs"
    and "0xff \<notin> set (take off (gu_data gu))" and "0xff \<notin> set bs"
  shows "returns (memcpy_at off bs (gu_data gu) \<bind>
      (\<lambda>d. if off + n \<noteq> UTF8_SIZE then put_at (off + n) 0xff d else Some d))
    (\<lambda>d. length d = UTF8_SIZE \<and> takeWhile (\<lambda>c. c \<noteq> 0xff) d = take off (gu_data gu) @ bs)"
proof -
  let ?pre = "take off (gu_data gu) @ bs"
  have pre: "length ?pre = off + n" "0xff \<notin> set ?pre"
    using assms by (auto simp: gu_ok_def)
  have cut: "memcpy_at off bs (gu_data gu) = Some (?pre @ drop (off + n) (gu_data gu))"
    using assms by (simp add: memcpy_at_def gu_ok_def)
  show ?thesis
  proof (cases "off + n = UTF8_SIZE")
    case True
    then show ?thesis using cut pre takeWhile_terminated [OF pre(2), of "[]"] assms(1)
      by (simp add: gu_ok_def)
  next
    case False
    then obtain x rest where rest: "drop (off + n) (gu_data gu) = x # rest"
      using assms(1,3) by (cases "drop (off + n) (gu_data gu)") (auto simp: gu_ok_def)
    have "length (drop (off + n) (gu_data gu)) = UTF8_SIZE - (off + n)"
      using assms(1) by (simp add: gu_ok_def)
    then have len: "off + n + Suc (length rest) = UTF8_SIZE"
      unfolding rest using assms(3) False by simp
    have "(?pre @ x # rest)[off + n := 0xff] = ?pre @ 0xff # rest"
      using pre(1) by (metis list_update_length)
    moreover have "takeWhile (\<lambda>c. c \<noteq> 0xff) (?pre @ 0xff # rest) = ?pre"
      using takeWhile_terminated [OF pre(2), of "0xff # rest"] by simp
    ultimately show ?thesis using cut pre rest len False by simp
  qed
qed

text \<open>
  C21. Setting a cell from a decoded character, appending a combining character to it and copying it
  out again are, on the byte strings, assignment and concatenation: the result does not depend on
  what the cell's array held before, an append that does not fit is refused and changes nothing.
\<close>

theorem grid_utf8_bytes:
  assumes "gu_ok gu" and "length (ud_data ud) = UTF8_SIZE" and "0xff \<notin> set (ud_bytes ud)"
  shows "(0 < ud_size ud \<longrightarrow> ud_size ud \<le> UTF8_SIZE \<longrightarrow>
      returns (grid_utf8_set gu ud) (\<lambda>gu'. gu_ok gu' \<and> grid_utf8_copy gu' UTF8_SIZE = Some (ud_bytes ud)))
    \<and> returns (grid_utf8_append gu ud) (\<lambda>(gu', ok). gu_ok gu' \<and>
        ok = (length (gu_bytes gu) + ud_size ud \<le> UTF8_SIZE) \<and>
        gu_bytes gu' = (if ok then gu_bytes gu @ ud_bytes ud else gu_bytes gu))"
proof (intro conjI impI)
  assume size: "0 < ud_size ud" "ud_size ud \<le> UTF8_SIZE"
  have "returns (memcpy_at 0 (ud_bytes ud) (gu_data gu) \<bind>
      (\<lambda>d. if 0 + ud_size ud \<noteq> UTF8_SIZE then put_at (0 + ud_size ud) 0xff d else Some d))
    (\<lambda>d. length d = UTF8_SIZE \<and> takeWhile (\<lambda>c. c \<noteq> 0xff) d = take 0 (gu_data gu) @ ud_bytes ud)"
    by (rule grid_utf8_write) (use assms size in \<open>auto simp: ud_bytes_def\<close>)
  then show "returns (grid_utf8_set gu ud)
      (\<lambda>gu'. gu_ok gu' \<and> grid_utf8_copy gu' UTF8_SIZE = Some (ud_bytes ud))"
    using size assms(2)
    by (auto simp: grid_utf8_set_def grid_utf8_copy_bytes gu_ok_def gu_bytes_def ud_bytes_def
        elim!: returns_mono)
next
  show "returns (grid_utf8_append gu ud) (\<lambda>(gu', ok). gu_ok gu' \<and>
      ok = (length (gu_bytes gu) + ud_size ud \<le> UTF8_SIZE) \<and>
      gu_bytes gu' = (if ok then gu_bytes gu @ ud_bytes ud else gu_bytes gu))"
  proof (cases "grid_utf8_size gu + ud_size ud > UTF8_SIZE")
    case True
    then show ?thesis using assms(1)
      by (simp add: grid_utf8_append_def Let_def grid_utf8_size_bytes)
  next
    case False
    have "0xff \<notin> set (take (grid_utf8_size gu) (gu_data gu))"
      using gu_bytes_take [of gu] set_takeWhileD [of "0xff" "\<lambda>c. c \<noteq> 0xff" "gu_data gu"]
      by (auto simp: gu_bytes_def)
    with False assms have "returns (memcpy_at (grid_utf8_size gu) (ud_bytes ud) (gu_data gu) \<bind>
        (\<lambda>d. if grid_utf8_size gu + ud_size ud \<noteq> UTF8_SIZE
              then put_at (grid_utf8_size gu + ud_size ud) 0xff d else Some d))
      (\<lambda>d. length d = UTF8_SIZE \<and>
        takeWhile (\<lambda>c. c \<noteq> 0xff) d = gu_bytes gu @ ud_bytes ud)"
      unfolding gu_bytes_take [of gu] by (intro grid_utf8_write) (auto simp: ud_bytes_def)
    then show ?thesis using False
      by (auto simp: grid_utf8_append_def Let_def gu_ok_def gu_bytes_def [of "gu\<lparr>gu_data := _\<rparr>"]
          ud_bytes_def grid_utf8_size_bytes elim!: returns_mono)
  qed
qed

theorem grid_utf8_bytes_witness:
  "returns (grid_utf8_append \<lparr>gu_width = 1, gu_data = [0x65, 0xff, 0, 0, 0, 0, 0, 0, 0]\<rparr>
      \<lparr>ud_data = [0xcc, 0x81, 0, 0, 0, 0, 0, 0, 0], ud_have = 2, ud_size = 2, ud_width = 0\<rparr>)
    (\<lambda>(gu', ok). ok \<and> gu_bytes gu' = [0x65, 0xcc, 0x81])"
  using grid_utf8_bytes [of "\<lparr>gu_width = 1, gu_data = [0x65, 0xff, 0, 0, 0, 0, 0, 0, 0]\<rparr>"
    "\<lparr>ud_data = [0xcc, 0x81, 0, 0, 0, 0, 0, 0, 0], ud_have = 2, ud_size = 2, ud_width = 0\<rparr>"]
  by (auto simp: gu_ok_def ud_bytes_def gu_bytes_def elim!: returns_mono)

end
