(* ===== verification/Grid.thy ===== *)
theory Grid
  imports Prelude Grid_Utf8
begin

text \<open>
  The grid of cells behind every screen (\<open>struct grid\<close> of \<open>src/tmux.h\<close> and \<open>src/grid.c\<close>). Lines
  \<open>0 .. hsize - 1\<close> are the history, lines \<open>hsize .. hsize + sy - 1\<close> the visible part.

  Memory is modelled as follows. \<open>gl_celldata\<close>, \<open>gl_utf8data\<close> and \<open>gd_linedata\<close> are the allocated
  arrays: their length is the size of the allocation, which can exceed \<open>cellsize\<close>, \<open>utf8size\<close> and
  \<open>hsize + sy\<close>; an unallocated (\<open>NULL\<close>) array is \<open>[]\<close>. Every access is checked against the
  allocation. Memory that \<open>xrealloc\<close> does not initialise holds \<open>undefined\<close>, of which nothing is
  known. Each line owns its arrays: an operation that would make two lines share one is \<open>None\<close>
  (see \<open>line_duplicate\<close>). A pointer to a cell is the pair of its coordinates.
\<close>

unbundle bit_operations_syntax

section \<open>Flags\<close>

definition has_flag :: "'a::len word \<Rightarrow> 'a word \<Rightarrow> bool" where
  "has_flag w m \<longleftrightarrow> w AND m \<noteq> 0"

definition set_flag :: "'a::len word \<Rightarrow> 'a word \<Rightarrow> 'a word" where
  "set_flag w m = w OR m"

definition clear_flag :: "'a::len word \<Rightarrow> 'a word \<Rightarrow> 'a word" where
  "clear_flag w m = w AND NOT m"

lemma has_flag_zero [simp]: "\<not> has_flag 0 m"
  by (simp add: has_flag_def)

lemma has_flag_set_self: "m \<noteq> 0 \<Longrightarrow> has_flag (set_flag w m) m"
proof -
  assume "m \<noteq> 0"
  have "(w OR m) AND m = m" by (rule bit_eqI) (auto simp: bit_simps)
  with \<open>m \<noteq> 0\<close> show ?thesis by (simp add: has_flag_def set_flag_def)
qed

lemma has_flag_set_other: "m AND n = 0 \<Longrightarrow> has_flag (set_flag w m) n = has_flag w n"
proof -
  assume "m AND n = 0"
  then have "(w OR m) AND n = w AND n" by (simp add: bit.conj_disj_distrib2)
  then show ?thesis by (simp add: has_flag_def set_flag_def)
qed

lemma has_flag_clear_self [simp]: "\<not> has_flag (clear_flag w m) m"
proof -
  have "(w AND NOT m) AND m = 0" by (rule bit_eqI) (auto simp: bit_simps)
  then show ?thesis by (simp add: has_flag_def clear_flag_def)
qed

lemma has_flag_clear_other: "m AND n = 0 \<Longrightarrow> has_flag (clear_flag w m) n = has_flag w n"
proof -
  assume "m AND n = 0"
  then have *: "\<not> (bit m i \<and> bit n i)" for i by (metis bit_and_iff bit_0_eq bot_apply bot_bool_def)
  have "(w AND NOT m) AND n = w AND n" by (rule bit_eqI) (use * in \<open>auto simp: bit_simps\<close>)
  then show ?thesis by (simp add: has_flag_def clear_flag_def)
qed

abbreviation "GRID_ATTR_BRIGHT \<equiv> (0x1 :: u_char)"
abbreviation "GRID_ATTR_DIM \<equiv> (0x2 :: u_char)"
abbreviation "GRID_ATTR_UNDERSCORE \<equiv> (0x4 :: u_char)"
abbreviation "GRID_ATTR_BLINK \<equiv> (0x8 :: u_char)"
abbreviation "GRID_ATTR_REVERSE \<equiv> (0x10 :: u_char)"
abbreviation "GRID_ATTR_HIDDEN \<equiv> (0x20 :: u_char)"
abbreviation "GRID_ATTR_ITALICS \<equiv> (0x40 :: u_char)"
abbreviation "GRID_ATTR_CHARSET \<equiv> (0x80 :: u_char)"

abbreviation "GRID_FLAG_FG256 \<equiv> (0x1 :: u_char)"
abbreviation "GRID_FLAG_BG256 \<equiv> (0x2 :: u_char)"
abbreviation "GRID_FLAG_PADDING \<equiv> (0x4 :: u_char)"
abbreviation "GRID_FLAG_UTF8 \<equiv> (0x8 :: u_char)"

abbreviation "GRID_LINE_WRAPPED \<equiv> (0x1 :: c_flags)"
abbreviation "GRID_HISTORY \<equiv> (0x1 :: c_flags)"

section \<open>Data\<close>

record grid_cell =
  gc_attr :: u_char
  gc_flags :: u_char
  gc_fg :: u_char
  gc_bg :: u_char
  gc_data :: u_char

record grid_line =
  gl_cellsize :: u_int
  gl_celldata :: "grid_cell list"
  gl_utf8size :: u_int
  gl_utf8data :: "grid_utf8 list"
  gl_flags :: c_flags

record grid =
  gd_flags :: c_flags
  gd_sx :: u_int
  gd_sy :: u_int
  gd_hsize :: u_int
  gd_hlimit :: u_int
  gd_linedata :: "grid_line list"

definition grid_default_cell :: grid_cell where
  "grid_default_cell = \<lparr>gc_attr = 0, gc_flags = 0, gc_fg = 8, gc_bg = 8, gc_data = 0x20\<rparr>"

definition grid_marker_cell :: grid_cell where
  "grid_marker_cell = \<lparr>gc_attr = 0, gc_flags = 0, gc_fg = 8, gc_bg = 8, gc_data = 0x5f\<rparr>"

text \<open>A line after \<open>memset (gl, 0, sizeof *gl)\<close>.\<close>

definition grid_line_zero :: grid_line where
  "grid_line_zero =
     \<lparr>gl_cellsize = 0, gl_celldata = [], gl_utf8size = 0, gl_utf8data = [], gl_flags = 0\<rparr>"

section \<open>Operations\<close>

text \<open>True when the code's \<open>grid_check_y\<close> returns 0.\<close>

definition grid_check_y :: "grid \<Rightarrow> u_int \<Rightarrow> bool" where
  "grid_check_y gd py \<longleftrightarrow> \<not> (py \<ge> u_add (gd_hsize gd) (gd_sy gd))"

definition upd_line :: "u_int \<Rightarrow> (grid_line \<Rightarrow> grid_line option) \<Rightarrow> grid \<Rightarrow> grid option" where
  "upd_line py f gd = do {
     gl \<leftarrow> get_at (gd_linedata gd) py;
     gl' \<leftarrow> f gl;
     Some (gd\<lparr>gd_linedata := (gd_linedata gd)[py := gl']\<rparr>)
   }"

definition line_put_cell :: "u_int \<Rightarrow> grid_cell \<Rightarrow> grid_line \<Rightarrow> grid_line option" where
  "line_put_cell px gc gl = do {
     cells \<leftarrow> put_at px gc (gl_celldata gl);
     Some (gl\<lparr>gl_celldata := cells\<rparr>)
   }"

definition line_put_utf8 :: "u_int \<Rightarrow> grid_utf8 \<Rightarrow> grid_line \<Rightarrow> grid_line option" where
  "line_put_utf8 px gu gl = do {
     us \<leftarrow> put_at px gu (gl_utf8data gl);
     Some (gl\<lparr>gl_utf8data := us\<rparr>)
   }"

definition grid_put_cell :: "grid \<Rightarrow> u_int \<Rightarrow> u_int \<Rightarrow> grid_cell \<Rightarrow> grid option" where
  "grid_put_cell gd px py gc = upd_line py (line_put_cell px gc) gd"

definition grid_put_utf8 :: "grid \<Rightarrow> u_int \<Rightarrow> u_int \<Rightarrow> grid_utf8 \<Rightarrow> grid option" where
  "grid_put_utf8 gd px py gu = upd_line py (line_put_utf8 px gu) gd"

definition grid_create :: "u_int \<Rightarrow> u_int \<Rightarrow> u_int \<Rightarrow> grid option" where
  "grid_create sx sy hlimit =
     (if sy = 0 then None \<comment> \<open>\<open>xcalloc\<close> of zero size\<close>
      else Some \<lparr>gd_flags = GRID_HISTORY, gd_sx = sx, gd_sy = sy, gd_hsize = 0, gd_hlimit = hlimit,
                 gd_linedata = replicate sy grid_line_zero\<rparr>)"

text \<open>The comparison of one column of two lines; true when it differs.\<close>

definition line_compare_at :: "grid_line \<Rightarrow> grid_line \<Rightarrow> u_int \<Rightarrow> bool option" where
  "line_compare_at gla glb xx = do {
     gca \<leftarrow> get_at (gl_celldata gla) xx;
     gcb \<leftarrow> get_at (gl_celldata glb) xx;
     if gca \<noteq> gcb then Some True
     else if \<not> has_flag (gc_flags gca) GRID_FLAG_UTF8 then Some False
     else do {
       gua \<leftarrow> get_at (gl_utf8data gla) xx;
       gub \<leftarrow> get_at (gl_utf8data glb) xx;
       Some (gua \<noteq> gub)
     }
   }"

text \<open>True when \<open>grid_compare\<close> returns 1 (the grids differ).\<close>

definition grid_compare :: "grid \<Rightarrow> grid \<Rightarrow> bool option" where
  "grid_compare ga gb =
     (if gd_sx ga \<noteq> gd_sx gb \<or> gd_sy ga \<noteq> gd_sy gb then Some True
      else for_upto 0 (gd_sy ga) (\<lambda>yy differ.
        if differ then Some True
        else do {
          gla \<leftarrow> get_at (gd_linedata ga) yy;
          glb \<leftarrow> get_at (gd_linedata gb) yy;
          if gl_cellsize gla \<noteq> gl_cellsize glb then Some True
          else for_upto 0 (gd_sx ga) (\<lambda>xx differ.
            if differ then Some True else line_compare_at gla glb xx) False
        }) False)"

text \<open>Expanding a line: \<open>xrealloc\<close>, then the loop that writes the default cell to the new cells.\<close>

definition line_expand :: "u_int \<Rightarrow> grid_line \<Rightarrow> grid_line" where
  "line_expand sx gl =
     (if sx \<le> gl_cellsize gl then gl
      else gl\<lparr>gl_celldata := fill_list (gl_cellsize gl) sx grid_default_cell
                               (realloc_list undefined sx (gl_celldata gl)),
              gl_cellsize := sx\<rparr>)"

definition line_expand_utf8 :: "u_int \<Rightarrow> grid_line \<Rightarrow> grid_line" where
  "line_expand_utf8 sx gl =
     (if sx \<le> gl_utf8size gl then gl
      else gl\<lparr>gl_utf8data := realloc_list undefined sx (gl_utf8data gl), gl_utf8size := sx\<rparr>)"

definition grid_expand_line :: "grid \<Rightarrow> u_int \<Rightarrow> u_int \<Rightarrow> grid option" where
  "grid_expand_line gd py sx = upd_line py (\<lambda>gl. Some (line_expand sx gl)) gd"

definition grid_expand_line_utf8 :: "grid \<Rightarrow> u_int \<Rightarrow> u_int \<Rightarrow> grid option" where
  "grid_expand_line_utf8 gd py sx = upd_line py (\<lambda>gl. Some (line_expand_utf8 sx gl)) gd"

definition grid_peek_cell :: "grid \<Rightarrow> u_int \<Rightarrow> u_int \<Rightarrow> grid_cell option" where
  "grid_peek_cell gd px py =
     (if \<not> grid_check_y gd py then Some grid_default_cell
      else do {
        gl \<leftarrow> get_at (gd_linedata gd) py;
        if px \<ge> gl_cellsize gl then Some grid_default_cell
        else get_at (gl_celldata gl) px
      })"

text \<open>
  The \<open>get\<close> functions return a pointer to write through: the grid after the expansion and whether the
  pointer is not \<open>NULL\<close>. Reads and writes through it are \<open>grid_cell_read\<close>, \<open>grid_put_cell\<close> and their
  \<open>utf8\<close> counterparts.
\<close>

definition grid_get_cell :: "grid \<Rightarrow> u_int \<Rightarrow> u_int \<Rightarrow> (grid \<times> bool) option" where
  "grid_get_cell gd px py =
     (if \<not> grid_check_y gd py then Some (gd, False)
      else do { gd \<leftarrow> grid_expand_line gd py (u_add px 1); Some (gd, True) })"

definition grid_cell_read :: "grid \<Rightarrow> u_int \<Rightarrow> u_int \<Rightarrow> grid_cell option" where
  "grid_cell_read gd px py = do {
     gl \<leftarrow> get_at (gd_linedata gd) py;
     get_at (gl_celldata gl) px
   }"

definition grid_utf8_read :: "grid \<Rightarrow> u_int \<Rightarrow> u_int \<Rightarrow> grid_utf8 option" where
  "grid_utf8_read gd px py = do {
     gl \<leftarrow> get_at (gd_linedata gd) py;
     get_at (gl_utf8data gl) px
   }"

definition grid_set_cell :: "grid \<Rightarrow> u_int \<Rightarrow> u_int \<Rightarrow> grid_cell \<Rightarrow> grid option" where
  "grid_set_cell gd px py gc =
     (if \<not> grid_check_y gd py then Some gd
      else do { gd \<leftarrow> grid_expand_line gd py (u_add px 1); grid_put_cell gd px py gc })"

text \<open>The inner option is the returned pointer: \<open>None\<close> for \<open>NULL\<close>.\<close>

definition grid_peek_utf8 :: "grid \<Rightarrow> u_int \<Rightarrow> u_int \<Rightarrow> grid_utf8 option option" where
  "grid_peek_utf8 gd px py =
     (if \<not> grid_check_y gd py then Some None
      else do {
        gl \<leftarrow> get_at (gd_linedata gd) py;
        if px \<ge> gl_utf8size gl then Some None
        else map_option Some (get_at (gl_utf8data gl) px)
      })"

definition grid_get_utf8 :: "grid \<Rightarrow> u_int \<Rightarrow> u_int \<Rightarrow> (grid \<times> bool) option" where
  "grid_get_utf8 gd px py =
     (if \<not> grid_check_y gd py then Some (gd, False)
      else do { gd \<leftarrow> grid_expand_line_utf8 gd py (u_add px 1); Some (gd, True) })"

definition grid_set_utf8 :: "grid \<Rightarrow> u_int \<Rightarrow> u_int \<Rightarrow> grid_utf8 \<Rightarrow> grid option" where
  "grid_set_utf8 gd px py gu =
     (if \<not> grid_check_y gd py then Some gd
      else do { gd \<leftarrow> grid_expand_line_utf8 gd py (u_add px 1); grid_put_utf8 gd px py gu })"

definition grid_clear_lines :: "grid \<Rightarrow> u_int \<Rightarrow> u_int \<Rightarrow> grid option" where
  "grid_clear_lines gd py ny =
     (if ny = 0 then Some gd
      else if \<not> grid_check_y gd py then Some gd
      else if \<not> grid_check_y gd (u_sub (u_add py ny) 1) then Some gd
      else for_upto py (u_add py ny) (\<lambda>yy. upd_line yy (\<lambda>gl. Some grid_line_zero)) gd)"

text \<open>The part of \<open>grid_clear\<close> that clears one line; the loop's \<open>break\<close> is never reached.\<close>

definition line_clear :: "u_int \<Rightarrow> u_int \<Rightarrow> grid_line \<Rightarrow> grid_line option" where
  "line_clear px nx gl =
     (if px \<ge> gl_cellsize gl then Some gl
      else if u_add px nx \<ge> gl_cellsize gl then Some (gl\<lparr>gl_cellsize := px\<rparr>)
      else for_upto px (u_add px nx) (\<lambda>xx gl.
        if xx \<ge> gl_cellsize gl then Some gl else line_put_cell xx grid_default_cell gl) gl)"

definition grid_clear :: "grid \<Rightarrow> u_int \<Rightarrow> u_int \<Rightarrow> u_int \<Rightarrow> u_int \<Rightarrow> grid option" where
  "grid_clear gd px py nx ny =
     (if nx = 0 \<or> ny = 0 then Some gd
      else if px = 0 \<and> nx = gd_sx gd then grid_clear_lines gd py ny
      else if \<not> grid_check_y gd py then Some gd
      else if \<not> grid_check_y gd (u_sub (u_add py ny) 1) then Some gd
      else for_upto py (u_add py ny) (\<lambda>yy. upd_line yy (line_clear px nx)) gd)"

definition grid_move_lines :: "grid \<Rightarrow> u_int \<Rightarrow> u_int \<Rightarrow> u_int \<Rightarrow> grid option" where
  "grid_move_lines gd dy py ny =
     (if ny = 0 \<or> py = dy then Some gd
      else if \<not> grid_check_y gd py then Some gd
      else if \<not> grid_check_y gd (u_sub (u_add py ny) 1) then Some gd
      else if \<not> grid_check_y gd dy then Some gd
      else if \<not> grid_check_y gd (u_sub (u_add dy ny) 1) then Some gd
      else do {
        \<comment> \<open>free any lines which are being replaced\<close>
        gd \<leftarrow> for_upto dy (u_add dy ny) (\<lambda>yy gd.
          if yy \<ge> py \<and> yy < u_add py ny then Some gd else grid_clear_lines gd yy 1) gd;
        lines \<leftarrow> memmove_list dy py ny (gd_linedata gd);
        \<comment> \<open>wipe any lines that have been moved\<close>
        for_upto py (u_add py ny) (\<lambda>yy gd.
          if yy \<ge> dy \<and> yy < u_add dy ny then Some gd
          else upd_line yy (\<lambda>gl. Some grid_line_zero) gd) (gd\<lparr>gd_linedata := lines\<rparr>)
      })"

definition grid_collect_history :: "grid \<Rightarrow> grid option" where
  "grid_collect_history gd =
     (if gd_hsize gd < gd_hlimit gd then Some gd
      else let yy = (if gd_hlimit gd div 10 < 1 then 1 else gd_hlimit gd div 10)
        in do {
          gd \<leftarrow> grid_move_lines gd 0 yy (u_sub (u_add (gd_hsize gd) (gd_sy gd)) yy);
          Some (gd\<lparr>gd_hsize := u_sub (gd_hsize gd) yy\<rparr>)
        })"

definition grid_scroll_history :: "grid \<Rightarrow> grid option" where
  "grid_scroll_history gd =
     (let yy = u_add (gd_hsize gd) (gd_sy gd)
      in do {
        lines \<leftarrow> put_at yy grid_line_zero (realloc_list undefined (u_add yy 1) (gd_linedata gd));
        Some (gd\<lparr>gd_linedata := lines, gd_hsize := u_add (gd_hsize gd) 1\<rparr>)
      })"

definition grid_scroll_history_region :: "grid \<Rightarrow> u_int \<Rightarrow> u_int \<Rightarrow> grid option" where
  "grid_scroll_history_region gd upper lower =
     (let yy = u_add (gd_hsize gd) (gd_sy gd);
          lines = realloc_list undefined (u_add yy 1) (gd_linedata gd);
          upper = u_add upper 1;
          lower = u_add lower 1
      in do {
        \<comment> \<open>move the entire screen down to free a space for this line\<close>
        lines \<leftarrow> memmove_list (gd_hsize gd + 1) (gd_hsize gd) (gd_sy gd) lines;
        \<comment> \<open>move the line into the history\<close>
        gl_upper \<leftarrow> get_at lines upper;
        lines \<leftarrow> put_at (gd_hsize gd) gl_upper lines;
        \<comment> \<open>then move the region up and clear the bottom line\<close>
        lines \<leftarrow> memmove_list upper (upper + 1) (u_sub lower upper) lines;
        lines \<leftarrow> put_at lower grid_line_zero lines;
        Some (gd\<lparr>gd_linedata := lines, gd_hsize := u_add (gd_hsize gd) 1\<rparr>)
      })"

definition line_move_cells :: "u_int \<Rightarrow> u_int \<Rightarrow> u_int \<Rightarrow> grid_line \<Rightarrow> grid_line option" where
  "line_move_cells dx px nx gl =
     (let gl = line_expand (u_add dx nx) (line_expand (u_add px nx) gl)
      in do {
        cells \<leftarrow> memmove_list dx px nx (gl_celldata gl);
        let gl = gl\<lparr>gl_celldata := cells\<rparr>;
        gl \<leftarrow> (if gl_utf8data gl \<noteq> [] then
                let gl = line_expand_utf8 (u_add dx nx) (line_expand_utf8 (u_add px nx) gl)
                in do {
                  us \<leftarrow> memmove_list dx px nx (gl_utf8data gl);
                  Some (gl\<lparr>gl_utf8data := us\<rparr>)
                }
              else Some gl);
        \<comment> \<open>wipe any cells that have been moved\<close>
        for_upto px (u_add px nx) (\<lambda>xx gl.
          if xx \<ge> dx \<and> xx < u_add dx nx then Some gl
          else line_put_cell xx grid_default_cell gl) gl
      })"

definition grid_move_cells :: "grid \<Rightarrow> u_int \<Rightarrow> u_int \<Rightarrow> u_int \<Rightarrow> u_int \<Rightarrow> grid option" where
  "grid_move_cells gd dx px py nx =
     (if nx = 0 \<or> px = dx then Some gd
      else if \<not> grid_check_y gd py then Some gd
      else upd_line py (line_move_cells dx px nx) gd)"

text \<open>The doubling of the buffer in \<open>grid_string_cells\<close>: \<open>while (len < need) len *= 2\<close>.\<close>

function string_grow :: "nat \<Rightarrow> nat \<Rightarrow> nat" where
  "string_grow len need = (if 0 < len \<and> len < need then string_grow (len * 2) need else len)"
  by pat_completeness auto
termination
  by (relation "measure (\<lambda>(len, need). need - len)") auto

declare string_grow.simps [simp del]

text \<open>The state of the loop is the buffer's capacity and the bytes written so far.\<close>

definition grid_string_cell :: "grid \<Rightarrow> u_int \<Rightarrow> u_int \<Rightarrow> nat \<times> u_char list \<Rightarrow> (nat \<times> u_char list) option" where
  "grid_string_cell gd py xx s =
     (case s of (len, buf) \<Rightarrow> do {
        gc \<leftarrow> grid_peek_cell gd xx py;
        if has_flag (gc_flags gc) GRID_FLAG_PADDING then Some (len, buf)
        else if has_flag (gc_flags gc) GRID_FLAG_UTF8 then do {
          p \<leftarrow> grid_peek_utf8 gd xx py;
          gu \<leftarrow> p;
          let len = string_grow len (length buf + grid_utf8_size gu + 1);
          bs \<leftarrow> grid_utf8_copy gu (len - length buf);
          Some (len, buf @ bs)
        }
        else do {
          let len = string_grow len (length buf + 2);
          if length buf < len then Some (len, buf @ [gc_data gc]) else None
        }
      })"

definition grid_string_cells :: "grid \<Rightarrow> u_int \<Rightarrow> u_int \<Rightarrow> u_int \<Rightarrow> u_char list option" where
  "grid_string_cells gd px py nx = do {
     (len, buf) \<leftarrow> for_upto px (u_add px nx) (grid_string_cell gd py) (128, []);
     let buf = rev (dropWhile (\<lambda>c. c = 0x20) (rev buf));
     if length buf < len then Some buf else None \<comment> \<open>the terminating NUL is written at \<open>buf[off]\<close>\<close>
   }"

text \<open>
  The copy of one line. When \<open>cellsize\<close> is 0 the pointer is copied and not the cells: if there is an
  allocation behind it, the two lines share it and the first \<open>free\<close> leaves the other line dangling.
  The model ends there.
\<close>

definition line_duplicate :: "grid_line \<Rightarrow> grid_line option" where
  "line_duplicate srcl =
     (if gl_cellsize srcl = 0 \<and> gl_celldata srcl \<noteq> [] then None
      else if gl_utf8size srcl = 0 \<and> gl_utf8data srcl \<noteq> [] then None
      else if length (gl_celldata srcl) < gl_cellsize srcl \<or> length (gl_utf8data srcl) < gl_utf8size srcl
      then None
      else Some (srcl\<lparr>gl_celldata := take (gl_cellsize srcl) (gl_celldata srcl),
                      gl_utf8data := take (gl_utf8size srcl) (gl_utf8data srcl)\<rparr>))"

definition grid_duplicate_lines ::
  "grid \<Rightarrow> u_int \<Rightarrow> grid \<Rightarrow> u_int \<Rightarrow> u_int \<Rightarrow> grid option" where
  "grid_duplicate_lines dst dy src sy ny =
     (let dend = u_add (gd_hsize dst) (gd_sy dst);
          send = u_add (gd_hsize src) (gd_sy src);
          ny = (if u_add dy ny > dend then u_sub dend dy else ny);
          ny = (if u_add sy ny > send then u_sub send sy else ny)
      in do {
        dst \<leftarrow> grid_clear_lines dst dy ny;
        for_upto 0 ny (\<lambda>yy dst. do {
          srcl \<leftarrow> get_at (gd_linedata src) (u_add sy yy);
          dstl \<leftarrow> line_duplicate srcl;
          upd_line (u_add dy yy) (\<lambda>gl. Some dstl) dst
        }) dst
      })"

end
