(* ===== verification/Grid_Facts.thy ===== *)
theory Grid_Facts
  imports Grid
begin

text \<open>
  What the operations of \<open>Grid\<close> do. \<open>line_ok\<close> and \<open>grid_ok\<close> are the data invariants; \<open>line_cell\<close> and
  \<open>line_glyph\<close> read a line the way every user of the grid does, so that each operation is described
  by an equation for the cell at column \<open>x\<close>. This theory treats single lines, \<open>Grid_Spec\<close> the grid.
\<close>

unbundle bit_operations_syntax

section \<open>Invariants\<close>

text \<open>
  The history may exceed its limit after a resize, because \<open>screen_resize_y\<close> pushes lines into it without
  collecting; the bound below holds nevertheless. Terminal sizes are \<open>u_short\<close> in \<open>struct winsize\<close>; a
  history limit is at most \<open>INT_MAX\<close>.
\<close>

abbreviation DIM_MAX :: u_int where "DIM_MAX \<equiv> 65535"
abbreviation INT_MAX :: u_int where "INT_MAX \<equiv> 2147483647"

definition is_utf8 :: "grid_cell \<Rightarrow> bool" where
  "is_utf8 gc \<longleftrightarrow> has_flag (gc_flags gc) GRID_FLAG_UTF8"

definition line_ok :: "grid_line \<Rightarrow> bool" where
  "line_ok gl \<longleftrightarrow> gl_cellsize gl \<le> length (gl_celldata gl) \<and>
     gl_utf8size gl = length (gl_utf8data gl) \<and>
     (\<forall>x < gl_cellsize gl. is_utf8 (gl_celldata gl ! x) \<longrightarrow>
        x < gl_utf8size gl \<and> gu_ok (gl_utf8data gl ! x))"

abbreviation grid_total :: "grid \<Rightarrow> u_int" where
  "grid_total gd \<equiv> gd_hsize gd + gd_sy gd"

definition grid_ok :: "grid \<Rightarrow> bool" where
  "grid_ok gd \<longleftrightarrow> 0 < gd_sx gd \<and> gd_sx gd \<le> DIM_MAX \<and> 0 < gd_sy gd \<and> gd_sy gd \<le> DIM_MAX \<and>
     gd_hlimit gd \<le> INT_MAX \<and> gd_hsize gd \<le> gd_hlimit gd + DIM_MAX \<and>
     (has_flag (gd_flags gd) GRID_HISTORY \<longrightarrow> grid_total gd \<le> gd_hlimit gd + DIM_MAX) \<and>
     grid_total gd \<le> length (gd_linedata gd) \<and>
     (\<forall>y < grid_total gd. line_ok (gd_linedata gd ! y))"

text \<open>What every operation on lines leaves alone.\<close>

definition grid_same :: "grid \<Rightarrow> grid \<Rightarrow> bool" where
  "grid_same gd gd' \<longleftrightarrow> gd_flags gd' = gd_flags gd \<and> gd_sx gd' = gd_sx gd \<and> gd_sy gd' = gd_sy gd \<and>
     gd_hsize gd' = gd_hsize gd \<and> gd_hlimit gd' = gd_hlimit gd \<and>
     length (gd_linedata gd') = length (gd_linedata gd)"

lemma grid_same_refl [simp]: "grid_same gd gd"
  by (simp add: grid_same_def)

lemma grid_same_trans: "grid_same a b \<Longrightarrow> grid_same b c \<Longrightarrow> grid_same a c"
  by (simp add: grid_same_def)

lemma grid_same_lines [simp]:
  "length ls = length (gd_linedata gd) \<Longrightarrow> grid_same gd (gd\<lparr>gd_linedata := ls\<rparr>)"
  by (simp add: grid_same_def)

lemma grid_ok_bounds:
  "grid_ok gd \<Longrightarrow> grid_total gd < 2147614720"
  "grid_ok gd \<Longrightarrow> grid_total gd \<le> length (gd_linedata gd)"
  "grid_ok gd \<Longrightarrow> 0 < gd_sx gd" "grid_ok gd \<Longrightarrow> 0 < gd_sy gd"
  "grid_ok gd \<Longrightarrow> gd_sx gd \<le> DIM_MAX" "grid_ok gd \<Longrightarrow> gd_sy gd \<le> DIM_MAX"
  by (simp_all add: grid_ok_def)

lemma grid_ok_line: "grid_ok gd \<Longrightarrow> y < grid_total gd \<Longrightarrow> line_ok (gd_linedata gd ! y)"
  by (simp add: grid_ok_def)

lemma grid_ok_linesI:
  assumes "grid_ok gd" and "length ls = length (gd_linedata gd)"
    and "\<And>y. y < grid_total gd \<Longrightarrow> line_ok (ls ! y)"
  shows "grid_ok (gd\<lparr>gd_linedata := ls\<rparr>)"
  using assms by (simp add: grid_ok_def)

lemma grid_check_y_iff [simp]: "grid_ok gd \<Longrightarrow> grid_check_y gd py \<longleftrightarrow> py < grid_total gd"
  using grid_ok_bounds(1) [of gd] by (simp add: grid_check_y_def not_le)

lemma upd_line_eq:
  "py < length (gd_linedata gd) \<Longrightarrow> f (gd_linedata gd ! py) = Some gl' \<Longrightarrow>
   upd_line py f gd = Some (gd\<lparr>gd_linedata := (gd_linedata gd)[py := gl']\<rparr>)"
  by (simp add: upd_line_def)

lemma grid_ok_upd:
  "grid_ok gd \<Longrightarrow> line_ok gl' \<Longrightarrow> grid_ok (gd\<lparr>gd_linedata := (gd_linedata gd)[py := gl']\<rparr>)"
proof (rule grid_ok_linesI)
  fix y assume "grid_ok gd" and "line_ok gl'" and "y < grid_total gd"
  then show "line_ok ((gd_linedata gd)[py := gl'] ! y)"
    using grid_ok_bounds(2) [of gd] by (cases "y = py") (auto simp: grid_ok_line)
qed simp_all

lemma upd_line_returns:
  assumes "grid_ok gd" and "py < grid_total gd" and "returns (f (gd_linedata gd ! py)) line_ok"
  shows "returns (upd_line py f gd) (\<lambda>gd'. grid_ok gd' \<and> grid_same gd gd')"
proof -
  obtain gl' where "f (gd_linedata gd ! py) = Some gl'" and "line_ok gl'"
    using assms(3) by (auto simp: returns_eq)
  then show ?thesis
    using assms(1,2) grid_ok_bounds(2) [OF assms(1)] upd_line_eq [of py gd f gl']
    by (simp add: grid_ok_upd)
qed

section \<open>Lines\<close>

definition line_cell :: "grid_line \<Rightarrow> u_int \<Rightarrow> grid_cell" where
  "line_cell gl x = (if x < gl_cellsize gl then gl_celldata gl ! x else grid_default_cell)"

text \<open>A cell with the UTF-8 data that belong to it.\<close>

definition line_glyph :: "grid_line \<Rightarrow> u_int \<Rightarrow> grid_cell \<times> grid_utf8 option" where
  "line_glyph gl x =
     (line_cell gl x, if is_utf8 (line_cell gl x) then Some (gl_utf8data gl ! x) else None)"

lemma default_not_utf8 [simp]: "\<not> is_utf8 grid_default_cell"
  by (simp add: is_utf8_def grid_default_cell_def)

lemma line_ok_zero [simp]: "line_ok grid_line_zero"
  by (simp add: line_ok_def grid_line_zero_def)

lemma line_cell_zero [simp]: "line_cell grid_line_zero x = grid_default_cell"
  by (simp add: line_cell_def grid_line_zero_def)

lemma line_glyph_zero [simp]: "line_glyph grid_line_zero x = (grid_default_cell, None)"
  by (simp add: line_glyph_def)

lemma line_ok_cellsize: "line_ok gl \<Longrightarrow> gl_cellsize gl \<le> length (gl_celldata gl)"
  by (simp add: line_ok_def)

lemma line_ok_utf8size: "line_ok gl \<Longrightarrow> length (gl_utf8data gl) = gl_utf8size gl"
  by (simp add: line_ok_def)

lemma line_ok_utf8:
  "line_ok gl \<Longrightarrow> is_utf8 (line_cell gl x) \<Longrightarrow> x < gl_utf8size gl \<and> gu_ok (gl_utf8data gl ! x)"
  by (auto simp: line_ok_def line_cell_def split: if_splits)

lemma line_okI:
  assumes "gl_cellsize gl \<le> length (gl_celldata gl)" and "gl_utf8size gl = length (gl_utf8data gl)"
    and "\<And>x. is_utf8 (line_cell gl x) \<Longrightarrow> x < gl_utf8size gl \<and> gu_ok (gl_utf8data gl ! x)"
  shows "line_ok gl"
  unfolding line_ok_def
proof (intro conjI allI impI)
  fix x assume "x < gl_cellsize gl" and "is_utf8 (gl_celldata gl ! x)"
  then show "x < gl_utf8size gl" and "gu_ok (gl_utf8data gl ! x)"
    using assms(3) [of x] by (simp_all add: line_cell_def)
qed (use assms in simp_all)

subsection \<open>Expansion\<close>

lemma line_expand_simps [simp]:
  "gl_cellsize (line_expand n gl) = max n (gl_cellsize gl)"
  "gl_utf8size (line_expand n gl) = gl_utf8size gl"
  "gl_utf8data (line_expand n gl) = gl_utf8data gl"
  "gl_flags (line_expand n gl) = gl_flags gl"
  by (auto simp: line_expand_def)

lemma line_expand_cell [simp]: "line_ok gl \<Longrightarrow> line_cell (line_expand n gl) x = line_cell gl x"
  by (auto simp: line_expand_def line_cell_def nth_realloc_list line_ok_def)

lemma line_expand_ok [simp]: "line_ok gl \<Longrightarrow> line_ok (line_expand n gl)"
proof (rule line_okI)
  assume ok: "line_ok gl"
  show "gl_cellsize (line_expand n gl) \<le> length (gl_celldata (line_expand n gl))"
    using ok by (auto simp: line_expand_def line_ok_def)
qed (use line_ok_utf8size line_ok_utf8 in auto)

lemma line_expand_glyph [simp]: "line_ok gl \<Longrightarrow> line_glyph (line_expand n gl) x = line_glyph gl x"
  by (simp add: line_glyph_def)

lemma line_expand_utf8_simps [simp]:
  "gl_cellsize (line_expand_utf8 n gl) = gl_cellsize gl"
  "gl_celldata (line_expand_utf8 n gl) = gl_celldata gl"
  "gl_utf8size (line_expand_utf8 n gl) = max n (gl_utf8size gl)"
  "gl_flags (line_expand_utf8 n gl) = gl_flags gl"
  "line_cell (line_expand_utf8 n gl) x = line_cell gl x"
  by (auto simp: line_expand_utf8_def line_cell_def)

lemma line_expand_utf8_nth:
  "line_ok gl \<Longrightarrow> x < gl_utf8size gl \<Longrightarrow> gl_utf8data (line_expand_utf8 n gl) ! x = gl_utf8data gl ! x"
  by (simp add: line_expand_utf8_def nth_realloc_list line_ok_def)

lemma line_expand_utf8_length:
  "line_ok gl \<Longrightarrow> length (gl_utf8data (line_expand_utf8 n gl)) = max n (gl_utf8size gl)"
  by (auto simp: line_expand_utf8_def line_ok_def)

lemma line_expand_utf8_ok [simp]: "line_ok gl \<Longrightarrow> line_ok (line_expand_utf8 n gl)"
proof (rule line_okI)
  fix x assume ok: "line_ok gl" and "is_utf8 (line_cell (line_expand_utf8 n gl) x)"
  then have "x < gl_utf8size gl \<and> gu_ok (gl_utf8data gl ! x)" using line_ok_utf8 by simp
  then show "x < gl_utf8size (line_expand_utf8 n gl) \<and> gu_ok (gl_utf8data (line_expand_utf8 n gl) ! x)"
    using line_expand_utf8_nth [OF ok, of x n] by (simp add: max_def)
qed (simp_all add: line_expand_utf8_length line_ok_cellsize)

lemma line_expand_utf8_glyph [simp]:
  "line_ok gl \<Longrightarrow> line_glyph (line_expand_utf8 n gl) x = line_glyph gl x"
  using line_ok_utf8 [of gl x] by (simp add: line_glyph_def line_expand_utf8_nth)

subsection \<open>Writing a cell\<close>

definition line_set_cell :: "u_int \<Rightarrow> grid_cell \<Rightarrow> grid_line \<Rightarrow> grid_line" where
  "line_set_cell px gc gl =
     (let gl = line_expand (px + 1) gl in gl\<lparr>gl_celldata := (gl_celldata gl)[px := gc]\<rparr>)"

definition line_set_utf8 :: "u_int \<Rightarrow> grid_utf8 \<Rightarrow> grid_line \<Rightarrow> grid_line" where
  "line_set_utf8 px gu gl =
     (let gl = line_expand_utf8 (px + 1) gl in gl\<lparr>gl_utf8data := (gl_utf8data gl)[px := gu]\<rparr>)"

lemma line_put_cell_eq:
  "px < length (gl_celldata gl) \<Longrightarrow>
   line_put_cell px gc gl = Some (gl\<lparr>gl_celldata := (gl_celldata gl)[px := gc]\<rparr>)"
  by (simp add: line_put_cell_def)

lemma line_expand_length: "line_ok gl \<Longrightarrow> n \<le> length (gl_celldata (line_expand n gl))"
  by (auto simp: line_expand_def line_ok_def)

lemma line_set_cell_simps [simp]:
  "gl_cellsize (line_set_cell px gc gl) = max (px + 1) (gl_cellsize gl)"
  "gl_utf8size (line_set_cell px gc gl) = gl_utf8size gl"
  "gl_utf8data (line_set_cell px gc gl) = gl_utf8data gl"
  "gl_flags (line_set_cell px gc gl) = gl_flags gl"
  by (simp_all add: line_set_cell_def Let_def)

lemma line_set_cell_cell [simp]:
  assumes "line_ok gl"
  shows "line_cell (line_set_cell px gc gl) x = (if x = px then gc else line_cell gl x)"
  using line_expand_length [OF assms, of "px + 1"] line_expand_cell [OF assms, of "px + 1" x]
  by (auto simp: line_set_cell_def line_cell_def Let_def nth_list_update max_def)

lemma line_set_cell_cellsize_le: "line_ok gl \<Longrightarrow>
   max (px + 1) (gl_cellsize gl) \<le> length (gl_celldata (line_set_cell px gc gl))"
  using line_ok_cellsize [of "line_expand (px + 1) gl"] by (simp add: line_set_cell_def Let_def)

lemma line_set_cell_ok [simp]:
  assumes "line_ok gl"
    and "is_utf8 gc \<Longrightarrow> px < gl_utf8size gl \<and> gu_ok (gl_utf8data gl ! px)"
  shows "line_ok (line_set_cell px gc gl)"
  by (rule line_okI)
     (use assms line_set_cell_cellsize_le [of gl px gc] line_ok_utf8size line_ok_utf8 in
      \<open>auto split: if_splits\<close>)

lemma line_set_utf8_simps [simp]:
  "gl_cellsize (line_set_utf8 px gu gl) = gl_cellsize gl"
  "gl_celldata (line_set_utf8 px gu gl) = gl_celldata gl"
  "gl_utf8size (line_set_utf8 px gu gl) = max (px + 1) (gl_utf8size gl)"
  "gl_flags (line_set_utf8 px gu gl) = gl_flags gl"
  "line_cell (line_set_utf8 px gu gl) x = line_cell gl x"
  by (simp_all add: line_set_utf8_def Let_def line_cell_def)


lemma line_set_utf8_nth:
  assumes "line_ok gl"
  shows "x = px \<or> x < gl_utf8size gl \<Longrightarrow>
    gl_utf8data (line_set_utf8 px gu gl) ! x = (if x = px then gu else gl_utf8data gl ! x)"
  using line_expand_utf8_length [OF assms, of "px + 1"] line_expand_utf8_nth [OF assms, of x "px + 1"]
  by (auto simp: line_set_utf8_def Let_def nth_list_update)

lemma line_set_utf8_ok [simp]:
  assumes "line_ok gl" and "gu_ok gu"
  shows "line_ok (line_set_utf8 px gu gl)"
proof (rule line_okI)
  fix x assume "is_utf8 (line_cell (line_set_utf8 px gu gl) x)"
  then have "x < gl_utf8size gl \<and> gu_ok (gl_utf8data gl ! x)" using line_ok_utf8 assms(1) by simp
  then show "x < gl_utf8size (line_set_utf8 px gu gl) \<and> gu_ok (gl_utf8data (line_set_utf8 px gu gl) ! x)"
    using line_set_utf8_nth [OF assms(1), of x px gu] assms(2) by (simp add: max_def)
next
  show "gl_utf8size (line_set_utf8 px gu gl) = length (gl_utf8data (line_set_utf8 px gu gl))"
    using line_expand_utf8_length [OF assms(1), of "px + 1"] by (simp add: line_set_utf8_def Let_def)
qed (use line_ok_cellsize [OF assms(1)] in simp)

lemma line_set_cell_glyph:
  assumes "line_ok gl"
  shows "line_glyph (line_set_cell px gc gl) x =
    (if x = px then (gc, if is_utf8 gc then Some (gl_utf8data gl ! px) else None) else line_glyph gl x)"
  using assms by (auto simp: line_glyph_def)

lemma line_set_utf8_glyph:
  assumes "line_ok gl"
  shows "line_glyph (line_set_utf8 px gu gl) x =
    (line_cell gl x, if \<not> is_utf8 (line_cell gl x) then None
       else if x = px then Some gu else Some (gl_utf8data gl ! x))"
  using line_ok_utf8 [OF assms, of x] line_set_utf8_nth [OF assms, of x px gu]
  by (auto simp: line_glyph_def)

text \<open>A wide or combined character is stored as a flagged cell and its UTF-8 data.\<close>

lemma line_set_pair_ok:
  assumes "line_ok gl" and "gu_ok gu"
  shows "line_ok (line_set_utf8 px gu (line_set_cell px gc gl))"
proof -
  let ?gl = "line_set_cell px gc gl"
  have cell: "line_cell ?gl x = (if x = px then gc else line_cell gl x)" for x
    using assms(1) by simp
  have len: "length (gl_utf8data (line_set_utf8 px gu ?gl)) = max (px + 1) (gl_utf8size gl)"
    by (auto simp: line_set_utf8_def Let_def line_expand_utf8_def line_ok_utf8size [OF assms(1)])
  have nth: "gl_utf8data (line_set_utf8 px gu ?gl) ! x = (if x = px then gu else gl_utf8data gl ! x)"
    if "x = px \<or> x < gl_utf8size gl" for x
    using that line_ok_utf8size [OF assms(1)]
    by (auto simp: line_set_utf8_def Let_def line_expand_utf8_def nth_list_update nth_realloc_list)
  show ?thesis
  proof (rule line_okI)
    fix x assume "is_utf8 (line_cell (line_set_utf8 px gu ?gl) x)"
    then have "x = px \<or> x < gl_utf8size gl \<and> gu_ok (gl_utf8data gl ! x)"
      using cell line_ok_utf8 [OF assms(1), of x] by (auto split: if_splits)
    then show "x < gl_utf8size (line_set_utf8 px gu ?gl) \<and> gu_ok (gl_utf8data (line_set_utf8 px gu ?gl) ! x)"
      using nth [of x] assms(2) by (auto simp: max_def)
  qed (use len line_set_cell_cellsize_le [OF assms(1)] in simp_all)
qed

lemma line_set_pair_glyph:
  assumes "line_ok gl" and "is_utf8 gc"
  shows "line_glyph (line_set_utf8 px gu (line_set_cell px gc gl)) x =
    (if x = px then (gc, Some gu) else line_glyph gl x)"
proof -
  have "gl_utf8data (line_set_utf8 px gu (line_set_cell px gc gl)) ! x =
      (if x = px then gu else gl_utf8data gl ! x)" if "x = px \<or> x < gl_utf8size gl"
    using that line_ok_utf8size [OF assms(1)]
    by (auto simp: line_set_utf8_def Let_def line_expand_utf8_def nth_list_update nth_realloc_list)
  then show ?thesis using assms line_ok_utf8 [OF assms(1), of x] by (auto simp: line_glyph_def)
qed

subsection \<open>Clearing\<close>

lemma line_put_default_loop:
  assumes "b \<le> length (gl_celldata gl)"
  shows "for_upto a b (\<lambda>xx. line_put_cell xx grid_default_cell) gl =
    Some (gl\<lparr>gl_celldata := fill_list a b grid_default_cell (gl_celldata gl)\<rparr>)"
proof (cases "a \<le> b")
  case True
  then show ?thesis
    by (rule for_upto_eq [where S = "\<lambda>i. gl\<lparr>gl_celldata := fill_list a i grid_default_cell (gl_celldata gl)\<rparr>"])
       (use assms in \<open>auto simp: fill_list_Suc line_put_cell_eq\<close>)
qed simp

text \<open>
  Clearing \<open>nx\<close> cells from \<open>px\<close>. When \<open>px + nx\<close> wraps around nothing is cleared: the callers that
  rely on wrap-around pass such counts.
\<close>

lemma line_truncate_ok: "line_ok gl \<Longrightarrow> px \<le> gl_cellsize gl \<Longrightarrow> line_ok (gl\<lparr>gl_cellsize := px\<rparr>)"
  by (auto simp: line_ok_def)

lemma line_fill_default_ok:
  "line_ok gl \<Longrightarrow> line_ok (gl\<lparr>gl_celldata := fill_list a b grid_default_cell (gl_celldata gl)\<rparr>)"
  by (auto simp: line_ok_def)

lemma line_fill_default_glyph:
  "line_ok gl \<Longrightarrow> line_glyph (gl\<lparr>gl_celldata := fill_list a b grid_default_cell (gl_celldata gl)\<rparr>) x =
     (if a \<le> x \<and> x < b then (grid_default_cell, None) else line_glyph gl x)"
  by (auto simp: line_glyph_def line_cell_def line_ok_def)

lemma line_clear_returns:
  assumes ok: "line_ok gl" and "px < UINT_MOD" and "nx < UINT_MOD"
  shows "returns (line_clear px nx gl) (\<lambda>gl'. line_ok gl' \<and> (\<forall>x. line_glyph gl' x =
      (if px \<le> x \<and> x < px + nx \<and> px + nx < UINT_MOD then (grid_default_cell, None)
       else line_glyph gl x)))"
proof -
  have wrap: "px + nx < UINT_MOD \<and> u_add px nx = px + nx \<or> UINT_MOD \<le> px + nx \<and> u_add px nx < px"
    using assms(2,3) by (cases "px + nx < UINT_MOD") (auto simp: u_add_def mod_if)
  consider "gl_cellsize gl \<le> px" | "px < gl_cellsize gl" "gl_cellsize gl \<le> u_add px nx"
    | "px < gl_cellsize gl" "u_add px nx < gl_cellsize gl" by linarith
  then show ?thesis
  proof cases
    case 1
    then show ?thesis using ok by (auto simp: line_clear_def line_glyph_def line_cell_def)
  next
    case 2
    then show ?thesis using ok wrap
      by (auto simp: line_clear_def line_truncate_ok line_glyph_def line_cell_def)
  next
    case 3
    have "for_upto px (u_add px nx)
        (\<lambda>xx gl. if xx \<ge> gl_cellsize gl then Some gl else line_put_cell xx grid_default_cell gl) gl =
      Some (gl\<lparr>gl_celldata := fill_list px (u_add px nx) grid_default_cell (gl_celldata gl)\<rparr>)"
    proof (cases "px \<le> u_add px nx")
      case True
      then show ?thesis
        by (rule for_upto_eq [where
              S = "\<lambda>i. gl\<lparr>gl_celldata := fill_list px i grid_default_cell (gl_celldata gl)\<rparr>"])
           (use 3 line_ok_cellsize [OF ok] in \<open>auto simp: fill_list_Suc line_put_cell_eq\<close>)
    qed simp
    then show ?thesis using 3 ok wrap
      by (auto simp: line_clear_def line_fill_default_ok line_fill_default_glyph)
  qed
qed

subsection \<open>Moving cells\<close>

text \<open>A loop over an array that overwrites the elements outside \<open>Q\<close>.\<close>

definition wipe_list :: "nat \<Rightarrow> nat \<Rightarrow> (nat \<Rightarrow> bool) \<Rightarrow> 'a \<Rightarrow> 'a list \<Rightarrow> 'a list" where
  "wipe_list a b Q z xs = map (\<lambda>i. if a \<le> i \<and> i < b \<and> \<not> Q i then z else xs ! i) [0..<length xs]"

lemma length_wipe_list [simp]: "length (wipe_list a b Q z xs) = length xs"
  by (simp add: wipe_list_def)

lemma nth_wipe_list [simp]: "i < length xs \<Longrightarrow>
    wipe_list a b Q z xs ! i = (if a \<le> i \<and> i < b \<and> \<not> Q i then z else xs ! i)"
  by (simp add: wipe_list_def)

lemma wipe_list_empty: "b \<le> a \<Longrightarrow> wipe_list a b Q z xs = xs"
  by (rule nth_equalityI) auto

lemma wipe_list_Suc: "a \<le> b \<Longrightarrow> b < length xs \<Longrightarrow>
    wipe_list a (Suc b) Q z xs = (if Q b then wipe_list a b Q z xs else (wipe_list a b Q z xs)[b := z])"
  by (auto intro!: nth_equalityI simp: nth_list_update less_Suc_eq)

lemma line_wipe_loop:
  assumes "a \<le> b" and "b \<le> length (gl_celldata gl)"
  shows "for_upto a b (\<lambda>xx gl. if Q xx then Some gl else line_put_cell xx z gl) gl =
    Some (gl\<lparr>gl_celldata := wipe_list a b Q z (gl_celldata gl)\<rparr>)"
  by (rule for_upto_eq [where S = "\<lambda>i. gl\<lparr>gl_celldata := wipe_list a i Q z (gl_celldata gl)\<rparr>"])
     (use assms in \<open>auto simp: wipe_list_Suc wipe_list_empty line_put_cell_eq\<close>)

definition moved :: "u_int \<Rightarrow> u_int \<Rightarrow> u_int \<Rightarrow> 'a \<Rightarrow> (u_int \<Rightarrow> 'a) \<Rightarrow> u_int \<Rightarrow> 'a" where
  "moved d s n z f x =
     (if d \<le> x \<and> x < d + n then f (s + (x - d)) else if s \<le> x \<and> x < s + n then z else f x)"

lemma line_move_cells_returns:
  assumes ok: "line_ok gl" and "px + nx < UINT_MOD" and "dx + nx < UINT_MOD"
  shows "returns (line_move_cells dx px nx gl) (\<lambda>gl'. line_ok gl' \<and>
    (\<forall>x. line_glyph gl' x = moved dx px nx (grid_default_cell, None) (line_glyph gl) x))"
proof -
  let ?g = "line_expand (dx + nx) (line_expand (px + nx) gl)"
  let ?gu = "line_expand_utf8 (dx + nx) (line_expand_utf8 (px + nx) gl)"
  let ?to = "\<lambda>x. dx \<le> x \<and> x < dx + nx"
  define cells where "cells = move_list dx px nx (gl_celldata ?g)"
  define us where "us = (if gl_utf8data gl \<noteq> [] then move_list dx px nx (gl_utf8data ?gu) else [])"
  define g2 where "g2 = ?g\<lparr>gl_celldata := cells, gl_utf8size := length us, gl_utf8data := us\<rparr>"
  define g3 where "g3 = g2\<lparr>gl_celldata := wipe_list px (px + nx) ?to grid_default_cell cells\<rparr>"
  have okg: "line_ok ?g" using ok by simp
  have len: "dx + nx \<le> length (gl_celldata ?g)" "px + nx \<le> length (gl_celldata ?g)"
    "gl_cellsize ?g \<le> length (gl_celldata ?g)"
    using line_ok_cellsize [OF okg] by simp_all
  have ulen: "length (gl_utf8data ?gu) = max (dx + nx) (max (px + nx) (gl_utf8size gl))"
    "length us = (if gl_utf8data gl \<noteq> [] then max (dx + nx) (max (px + nx) (gl_utf8size gl)) else 0)"
    using line_expand_utf8_length [OF line_expand_utf8_ok [OF ok]] line_expand_utf8_length [OF ok]
    by (simp_all add: us_def)
  have "line_move_cells dx px nx gl = Some g3"
  proof -
    have "line_expand_utf8 (dx + nx) (line_expand_utf8 (px + nx) (?g\<lparr>gl_celldata := cells\<rparr>)) =
        ?g\<lparr>gl_celldata := cells, gl_utf8size := gl_utf8size ?gu, gl_utf8data := gl_utf8data ?gu\<rparr>"
      by (simp add: line_expand_utf8_def)
    moreover have "for_upto px (px + nx) (\<lambda>xx gl. if ?to xx then Some gl
        else line_put_cell xx grid_default_cell gl) g2 = Some g3"
      using line_wipe_loop [of px "px + nx" g2 ?to grid_default_cell] len
      by (simp add: g2_def g3_def cells_def)
    moreover have "gl_utf8data gl = [] \<Longrightarrow> ?g\<lparr>gl_celldata := cells\<rparr> = g2"
      using line_ok_utf8size [OF ok] by (simp add: g2_def us_def)
    ultimately show ?thesis using assms(2,3) len ulen
      by (auto simp: line_move_cells_def Let_def cells_def [symmetric] us_def g2_def)
  qed
  moreover have cell: "line_cell g3 x = moved dx px nx grid_default_cell (line_cell gl) x" for x
  proof -
    have "line_cell gl x = (if x < gl_cellsize ?g then gl_celldata ?g ! x else grid_default_cell)" for x
      using line_expand_cell [OF line_expand_ok [OF ok, of "px + nx"], of "dx + nx" x]
        line_expand_cell [OF ok, of "px + nx" x] by (simp add: line_cell_def [of ?g])
    then show ?thesis using len
      by (auto simp: g3_def g2_def cells_def moved_def line_cell_def [of "_\<lparr>gl_celldata := _\<rparr>"])
  qed
  have utf8: "gl_utf8data g3 ! x = (if ?to x then gl_utf8data gl ! (px + (x - dx)) else gl_utf8data gl ! x)
      \<and> x < length us" if "is_utf8 (line_cell g3 x)" for x
  proof -
    have src: "is_utf8 (line_cell gl (if ?to x then px + (x - dx) else x))"
      using that by (auto simp: cell moved_def split: if_splits)
    then have "(if ?to x then px + (x - dx) else x) < gl_utf8size gl" by (rule line_ok_utf8 [OF ok, THEN conjunct1])
    then show ?thesis
      using ulen line_ok_utf8size [OF ok]
        line_expand_utf8_nth [OF line_expand_utf8_ok [OF ok], of _ "px + nx" "dx + nx"]
        line_expand_utf8_nth [OF ok]
      by (auto simp: g3_def g2_def us_def split: if_splits)
  qed
  have "line_ok g3"
  proof (rule line_okI)
    fix x assume *: "is_utf8 (line_cell g3 x)"
    then have "is_utf8 (line_cell gl (if ?to x then px + (x - dx) else x))"
      by (auto simp: cell moved_def split: if_splits)
    then show "x < gl_utf8size g3 \<and> gu_ok (gl_utf8data g3 ! x)"
      using utf8 [OF *] line_ok_utf8 [OF ok] by (auto simp: g3_def g2_def split: if_splits)
  qed (use len in \<open>simp_all add: g3_def g2_def cells_def\<close>)
  moreover have "line_glyph g3 x = moved dx px nx (grid_default_cell, None) (line_glyph gl) x" for x
    using utf8 [of x] by (auto simp: line_glyph_def cell moved_def split: if_splits)
  ultimately show ?thesis by simp
qed

end
