(* ===== verification/Grid_Spec.thy ===== *)
theory Grid_Spec
  imports Grid_Facts
begin

text \<open>
  The operations of \<open>src/grid.c\<close> on a grid that satisfies \<open>grid_ok\<close>: none dies, each keeps the
  invariant, and \<open>grid_glyph\<close> (the cell and its UTF-8 data at a position) of the result is given by an
  equation. The properties of the component follow.
\<close>

unbundle bit_operations_syntax

section \<open>Rows\<close>

definition grid_line_at :: "grid \<Rightarrow> u_int \<Rightarrow> grid_line" where
  "grid_line_at gd y = gd_linedata gd ! y"

definition grid_glyph :: "grid \<Rightarrow> u_int \<Rightarrow> u_int \<Rightarrow> grid_cell \<times> grid_utf8 option" where
  "grid_glyph gd x y = line_glyph (gd_linedata gd ! y) x"

lemma grid_rows_returns:
  assumes ok: "grid_ok gd" and "b \<le> grid_total gd"
    and f: "\<And>gl. line_ok gl \<Longrightarrow> returns (f gl) (\<lambda>gl'. line_ok gl' \<and> P gl gl')"
  shows "returns (for_upto a b (\<lambda>yy. upd_line yy f) gd) (\<lambda>gd'. grid_ok gd' \<and> grid_same gd gd' \<and>
    (\<forall>y < grid_total gd. if a \<le> y \<and> y < b then P (gd_linedata gd ! y) (gd_linedata gd' ! y)
       else gd_linedata gd' ! y = gd_linedata gd ! y))"
proof (cases "a \<le> b")
  case True
  then show ?thesis
  proof (rule for_upto_returns_index)
    show "grid_ok gd \<and> grid_same gd gd \<and>
      (\<forall>y < grid_total gd. if a \<le> y \<and> y < a then P (gd_linedata gd ! y) (gd_linedata gd ! y)
       else gd_linedata gd ! y = gd_linedata gd ! y)" using ok by auto
  next
    fix i gd' assume i: "a \<le> i" "i < b" and I: "grid_ok gd' \<and> grid_same gd gd' \<and>
      (\<forall>y < grid_total gd. if a \<le> y \<and> y < i then P (gd_linedata gd ! y) (gd_linedata gd' ! y)
       else gd_linedata gd' ! y = gd_linedata gd ! y)"
    have tot: "grid_total gd' = grid_total gd" using I by (simp add: grid_same_def)
    have line: "gd_linedata gd' ! i = gd_linedata gd ! i" using I i assms(2) by auto
    obtain gl' where gl': "f (gd_linedata gd ! i) = Some gl'" "line_ok gl'" "P (gd_linedata gd ! i) gl'"
      using f [OF grid_ok_line [OF ok, of i]] i assms(2) by (auto simp: returns_eq)
    have len: "i < length (gd_linedata gd')"
      using grid_ok_bounds(2) [of gd'] I i assms(2) tot by linarith
    have "upd_line i f gd' = Some (gd'\<lparr>gd_linedata := (gd_linedata gd')[i := gl']\<rparr>)"
      using len gl' line by (simp add: upd_line_eq)
    moreover have "grid_ok (gd'\<lparr>gd_linedata := (gd_linedata gd')[i := gl']\<rparr>)"
      using I gl' by (simp add: grid_ok_upd)
    moreover have "if a \<le> y \<and> y < Suc i then P (gd_linedata gd ! y) ((gd_linedata gd')[i := gl'] ! y)
       else (gd_linedata gd')[i := gl'] ! y = gd_linedata gd ! y" if "y < grid_total gd" for y
      using that I gl' i len by (cases "y = i") (auto simp: less_Suc_eq)
    ultimately show "returns (upd_line i f gd') (\<lambda>gd'. grid_ok gd' \<and> grid_same gd gd' \<and>
      (\<forall>y < grid_total gd. if a \<le> y \<and> y < Suc i then P (gd_linedata gd ! y) (gd_linedata gd' ! y)
       else gd_linedata gd' ! y = gd_linedata gd ! y))"
      using I by (simp add: grid_same_def)
  qed
qed (use ok in auto)

subsection \<open>Reading and writing\<close>

lemma grid_peek_cell_eq:
  assumes "grid_ok gd"
  shows "grid_peek_cell gd px py =
    Some (if py < grid_total gd then fst (grid_glyph gd px py) else grid_default_cell)"
  using assms grid_ok_bounds(2) [OF assms] line_ok_cellsize [OF grid_ok_line [OF assms, of py]]
  by (auto simp: grid_peek_cell_def grid_glyph_def line_glyph_def line_cell_def)

lemma grid_peek_utf8_eq:
  assumes "grid_ok gd" and "is_utf8 (fst (grid_glyph gd px py))" and "py < grid_total gd"
  shows "\<exists>gu. snd (grid_glyph gd px py) = Some gu \<and> gu_ok gu \<and> grid_peek_utf8 gd px py = Some (Some gu)"
proof -
  let ?gl = "gd_linedata gd ! py"
  have "line_ok ?gl" using assms by (simp add: grid_ok_line)
  moreover have "is_utf8 (line_cell ?gl px)" using assms(2) by (simp add: grid_glyph_def line_glyph_def)
  ultimately have "px < gl_utf8size ?gl \<and> gu_ok (gl_utf8data ?gl ! px)" by (rule line_ok_utf8)
  then show ?thesis using assms grid_ok_bounds(2) [OF assms(1)] line_ok_utf8size [OF \<open>line_ok ?gl\<close>]
    by (simp add: grid_peek_utf8_def grid_glyph_def line_glyph_def)
qed

lemma grid_set_cell_eq:
  assumes "grid_ok gd" and "py < grid_total gd" and "px + 1 < UINT_MOD"
  shows "grid_set_cell gd px py gc =
    Some (gd\<lparr>gd_linedata := (gd_linedata gd)[py := line_set_cell px gc (gd_linedata gd ! py)]\<rparr>)"
proof -
  let ?gl = "gd_linedata gd ! py"
  have len: "py < length (gd_linedata gd)" using assms grid_ok_bounds(2) [OF assms(1)] by linarith
  have "px < length (gl_celldata (line_expand (px + 1) ?gl))"
    using line_expand_length [OF grid_ok_line [OF assms(1,2)], of "px + 1"] by simp
  then show ?thesis using assms len
    by (simp add: grid_set_cell_def grid_expand_line_def grid_put_cell_def upd_line_def
        line_put_cell_def line_set_cell_def Let_def)
qed

lemma grid_set_utf8_eq:
  assumes "grid_ok gd" and "py < grid_total gd" and "px + 1 < UINT_MOD"
  shows "grid_set_utf8 gd px py gu =
    Some (gd\<lparr>gd_linedata := (gd_linedata gd)[py := line_set_utf8 px gu (gd_linedata gd ! py)]\<rparr>)"
proof -
  let ?gl = "gd_linedata gd ! py"
  have len: "py < length (gd_linedata gd)" using assms grid_ok_bounds(2) [OF assms(1)] by linarith
  have "px < length (gl_utf8data (line_expand_utf8 (px + 1) ?gl))"
    using line_expand_utf8_length [OF grid_ok_line [OF assms(1,2)], of "px + 1"] by simp
  then show ?thesis using assms len
    by (simp add: grid_set_utf8_def grid_expand_line_utf8_def grid_put_utf8_def upd_line_def
        line_put_utf8_def line_set_utf8_def Let_def)
qed

text \<open>
  What an operation did, seen from outside: the invariant, the sizes, and every cell of the lines in
  use given by \<open>F\<close>.
\<close>

definition grid_result :: "grid \<Rightarrow> (u_int \<Rightarrow> u_int \<Rightarrow> grid_cell \<times> grid_utf8 option) \<Rightarrow> grid \<Rightarrow> bool" where
  "grid_result gd F gd' \<longleftrightarrow> grid_ok gd' \<and> grid_same gd gd' \<and>
     (\<forall>x y. y < grid_total gd \<longrightarrow> grid_glyph gd' x y = F x y)"

lemma grid_result_refl: "grid_ok gd \<Longrightarrow> grid_result gd (grid_glyph gd) gd"
  by (simp add: grid_result_def)

lemma grid_result_ok: "grid_result gd F gd' \<Longrightarrow> grid_ok gd' \<and> grid_same gd gd'"
  by (simp add: grid_result_def)

lemma grid_result_returns_ok: "returns m (grid_result gd F) \<Longrightarrow> returns m (\<lambda>gd'. grid_ok gd' \<and> grid_same gd gd')"
  by (erule returns_mono) (rule grid_result_ok)

lemma grid_result_upd:
  assumes "grid_ok gd" and "py < grid_total gd" and "line_ok gl'"
    and "\<And>x y. y < grid_total gd \<Longrightarrow> F x y = (if y = py then line_glyph gl' x else grid_glyph gd x y)"
  shows "grid_result gd F (gd\<lparr>gd_linedata := (gd_linedata gd)[py := gl']\<rparr>)"
  using assms grid_ok_bounds(2) [OF assms(1)]
  by (auto simp: grid_result_def grid_ok_upd grid_glyph_def nth_list_update)

lemma grid_result_cong:
  "grid_result gd F gd' \<Longrightarrow> (\<And>x y. y < grid_total gd \<Longrightarrow> F x y = G x y) \<Longrightarrow> grid_result gd G gd'"
  by (simp add: grid_result_def)

lemma grid_set_cell_returns:
  assumes "grid_ok gd" and "px + 1 < UINT_MOD" and "\<not> is_utf8 gc"
  shows "returns (grid_set_cell gd px py gc)
    (grid_result gd (\<lambda>x y. if x = px \<and> y = py then (gc, None) else grid_glyph gd x y))"
proof (cases "py < grid_total gd")
  case True
  have lok: "line_ok (line_set_cell px gc (gd_linedata gd ! py))"
    by (rule line_set_cell_ok) (use assms True grid_ok_line [OF assms(1)] in auto)
  have "grid_result gd (\<lambda>x y. if x = px \<and> y = py then (gc, None) else grid_glyph gd x y)
      (gd\<lparr>gd_linedata := (gd_linedata gd)[py := line_set_cell px gc (gd_linedata gd ! py)]\<rparr>)"
    by (rule grid_result_upd)
       (use assms True lok grid_ok_line [OF assms(1) True] in
        \<open>auto simp: line_set_cell_glyph grid_glyph_def\<close>)
  then show ?thesis using assms True by (simp add: grid_set_cell_eq)
next
  case False
  then show ?thesis using assms by (auto simp: grid_set_cell_def grid_result_def)
qed

text \<open>Storing a UTF-8 cell: the flagged cell and then its data, as \<open>screen_write_cell\<close> does.\<close>

lemma grid_set_pair_returns:
  assumes "grid_ok gd" and "px + 1 < UINT_MOD" and "is_utf8 gc" and "gu_ok gu"
  shows "returns (grid_set_cell gd px py gc \<bind> (\<lambda>gd. grid_set_utf8 gd px py gu))
    (grid_result gd (\<lambda>x y. if x = px \<and> y = py then (gc, Some gu) else grid_glyph gd x y))"
proof (cases "py < grid_total gd")
  case True
  let ?gl = "line_set_cell px gc (gd_linedata gd ! py)"
  let ?gd = "gd\<lparr>gd_linedata := (gd_linedata gd)[py := ?gl]\<rparr>"
  have len: "py < length (gd_linedata gd)" using True grid_ok_bounds(2) [OF assms(1)] by linarith
  have lok: "line_ok (gd_linedata gd ! py)" using assms True by (simp add: grid_ok_line)
  have "grid_check_y ?gd py" using assms(1) True grid_check_y_iff [OF assms(1), of py]
    by (simp add: grid_check_y_def)
  moreover have "px < length (gl_utf8data (line_expand_utf8 (px + 1) ?gl))"
    using line_ok_utf8size [OF lok] by (auto simp: line_expand_utf8_def)
  ultimately have "grid_set_utf8 ?gd px py gu = Some (gd\<lparr>gd_linedata := (gd_linedata gd)
      [py := line_set_utf8 px gu ?gl]\<rparr>)"
    using assms(2) len
    by (simp add: grid_set_utf8_def grid_expand_line_utf8_def grid_put_utf8_def upd_line_def
        line_put_utf8_def line_set_utf8_def Let_def)
  moreover have "grid_result gd (\<lambda>x y. if x = px \<and> y = py then (gc, Some gu) else grid_glyph gd x y)
      (gd\<lparr>gd_linedata := (gd_linedata gd)[py := line_set_utf8 px gu ?gl]\<rparr>)"
    by (rule grid_result_upd)
       (use assms True lok line_set_pair_ok line_set_pair_glyph in \<open>auto simp: grid_glyph_def\<close>)
  ultimately show ?thesis using assms True by (simp add: grid_set_cell_eq)
next
  case False
  then show ?thesis using assms
    by (auto simp: grid_set_cell_def grid_set_utf8_def grid_result_def)
qed

subsection \<open>Clearing\<close>

text \<open>The rows visited by a loop over \<open>py .. py + ny - 1\<close> after the two row checks.\<close>

lemma checked_rows:
  assumes "u_sub (u_add py ny) 1 < n" and "n < UINT_MOD" and "py < UINT_MOD" and "ny < UINT_MOD"
  shows "u_add py ny \<le> n"
    and "py \<le> y \<and> y < u_add py ny \<longleftrightarrow> py \<le> y \<and> y < py + ny \<and> py + ny \<le> n"
proof -
  show le: "u_add py ny \<le> n" using u_sub_1_bound [of "u_add py ny" n] assms(1,2) by simp
  have "py + ny < UINT_MOD \<and> u_add py ny = py + ny \<or> UINT_MOD \<le> py + ny \<and> u_add py ny < py"
    using assms(3,4) by (cases "py + ny < UINT_MOD") (auto simp: u_add_def mod_if)
  then show "py \<le> y \<and> y < u_add py ny \<longleftrightarrow> py \<le> y \<and> y < py + ny \<and> py + ny \<le> n"
    using le assms(2) by auto
qed

lemma unchecked_rows:
  "n < UINT_MOD \<Longrightarrow> ny = 0 \<or> \<not> (py < n \<and> u_sub (u_add py ny) 1 < n) \<Longrightarrow>
   \<not> (py \<le> y \<and> y < py + ny \<and> py + ny \<le> n)"
  by auto

lemma grid_clear_lines_returns:
  assumes ok: "grid_ok gd" and "py < UINT_MOD" and "ny < UINT_MOD"
  shows "returns (grid_clear_lines gd py ny) (grid_result gd
    (\<lambda>x y. if py \<le> y \<and> y < py + ny \<and> py + ny \<le> grid_total gd then (grid_default_cell, None)
           else grid_glyph gd x y))"
proof (cases "ny \<noteq> 0 \<and> py < grid_total gd \<and> u_sub (u_add py ny) 1 < grid_total gd")
  case True
  note rows = checked_rows [OF conjunct2 [OF conjunct2 [OF True]] _ assms(2,3)]
  have bound: "grid_total gd < UINT_MOD" using grid_ok_bounds(1) [OF ok] by simp
  have "returns (for_upto py (u_add py ny) (\<lambda>yy. upd_line yy (\<lambda>gl. Some grid_line_zero)) gd)
    (\<lambda>gd'. grid_ok gd' \<and> grid_same gd gd' \<and>
      (\<forall>y < grid_total gd. if py \<le> y \<and> y < u_add py ny then gd_linedata gd' ! y = grid_line_zero
       else gd_linedata gd' ! y = gd_linedata gd ! y))"
    by (rule grid_rows_returns [where P = "\<lambda>gl gl'. gl' = grid_line_zero"]) (use ok rows(1) [OF bound] in auto)
  then show ?thesis using True ok unfolding rows(2) [OF bound]
    by (auto simp: grid_clear_lines_def grid_result_def grid_glyph_def elim!: returns_mono)
next
  case False
  have no: "\<not> (py \<le> y \<and> y < py + ny \<and> py + ny \<le> grid_total gd)" for y
    using False grid_ok_bounds(1) [OF ok] by (intro unchecked_rows) auto
  have "grid_clear_lines gd py ny = Some gd" using False ok by (auto simp: grid_clear_lines_def)
  then show ?thesis using no ok by (auto simp: grid_result_def)
qed

lemma grid_clear_cells_returns:
  assumes ok: "grid_ok gd" and "py < UINT_MOD" and "ny < UINT_MOD" and nx: "px < UINT_MOD" "nx < UINT_MOD"
    and part: "\<not> (px = 0 \<and> nx = gd_sx gd)"
  shows "returns (grid_clear gd px py nx ny) (grid_result gd (\<lambda>x y.
      if (py \<le> y \<and> y < py + ny \<and> py + ny \<le> grid_total gd) \<and>
         px \<le> x \<and> x < px + nx \<and> px + nx < UINT_MOD
      then (grid_default_cell, None) else grid_glyph gd x y))"
proof (cases "nx \<noteq> 0 \<and> ny \<noteq> 0 \<and> py < grid_total gd \<and> u_sub (u_add py ny) 1 < grid_total gd")
  case True
  then have *: "u_sub (u_add py ny) 1 < grid_total gd" by simp
  note rows = checked_rows [OF * _ assms(2,3)]
  have bound: "grid_total gd < UINT_MOD" using grid_ok_bounds(1) [OF ok] by simp
  have "returns (for_upto py (u_add py ny) (\<lambda>yy. upd_line yy (line_clear px nx)) gd)
    (\<lambda>gd'. grid_ok gd' \<and> grid_same gd gd' \<and>
      (\<forall>y < grid_total gd. if py \<le> y \<and> y < u_add py ny then
          (\<forall>x. line_glyph (gd_linedata gd' ! y) x =
            (if px \<le> x \<and> x < px + nx \<and> px + nx < UINT_MOD then (grid_default_cell, None)
             else line_glyph (gd_linedata gd ! y) x))
       else gd_linedata gd' ! y = gd_linedata gd ! y))"
    by (rule grid_rows_returns) (use ok rows(1) [OF bound] line_clear_returns [OF _ nx] in auto)
  moreover have "grid_clear gd px py nx ny =
      for_upto py (u_add py ny) (\<lambda>yy. upd_line yy (line_clear px nx)) gd"
    using True part ok by (auto simp: grid_clear_def)
  ultimately show ?thesis unfolding rows(2) [OF bound] grid_result_def grid_glyph_def
    by (auto elim!: returns_mono) metis+
next
  case False
  have "\<not> (py \<le> y \<and> y < py + ny \<and> py + ny \<le> grid_total gd)" if "nx \<noteq> 0" for y
    using that False grid_ok_bounds(1) [OF ok] by (intro unchecked_rows) auto
  moreover have "grid_clear gd px py nx ny = Some gd" using False ok part by (auto simp: grid_clear_def)
  ultimately show ?thesis using ok by (auto simp: grid_result_def)
qed

lemma grid_clear_returns:
  assumes ok: "grid_ok gd" and py: "py < UINT_MOD" "ny < UINT_MOD" and px: "px < UINT_MOD" "nx < UINT_MOD"
  shows "returns (grid_clear gd px py nx ny) (grid_result gd (\<lambda>x y.
      if (py \<le> y \<and> y < py + ny \<and> py + ny \<le> grid_total gd) \<and> px \<le> x \<and>
         (x < px + nx \<and> px + nx < UINT_MOD \<or> px = 0 \<and> nx = gd_sx gd)
      then (grid_default_cell, None) else grid_glyph gd x y))"
proof (cases "px = 0 \<and> nx = gd_sx gd")
  case True
  have "grid_clear gd px py nx ny = grid_clear_lines gd py ny"
    using True grid_ok_bounds(3) [OF ok] by (simp add: grid_clear_def grid_clear_lines_def)
  then show ?thesis using True grid_clear_lines_returns [OF ok py] by simp
next
  case False
  show ?thesis using grid_clear_cells_returns [OF ok py px False] False
    by (auto simp: grid_result_def elim!: returns_mono)
qed

subsection \<open>Moving cells and lines\<close>

lemma grid_move_cells_returns:
  assumes ok: "grid_ok gd" and "px + nx < UINT_MOD" and "dx + nx < UINT_MOD"
  shows "returns (grid_move_cells gd dx px py nx) (grid_result gd
    (\<lambda>x y. if y = py then moved dx px nx (grid_default_cell, None) (\<lambda>x. grid_glyph gd x y) x
           else grid_glyph gd x y))"
proof (cases "nx = 0 \<or> px = dx \<or> grid_total gd \<le> py")
  case True
  then show ?thesis using ok by (auto simp: grid_move_cells_def grid_result_def moved_def)
next
  case False
  have lok: "line_ok (gd_linedata gd ! py)" and len: "py < length (gd_linedata gd)"
    using ok False grid_ok_bounds(2) [OF ok] by (auto simp: grid_ok_line)
  obtain gl' where gl': "line_move_cells dx px nx (gd_linedata gd ! py) = Some gl'" "line_ok gl'"
    "\<And>x. line_glyph gl' x = moved dx px nx (grid_default_cell, None) (line_glyph (gd_linedata gd ! py)) x"
    using line_move_cells_returns [OF lok assms(2,3)] by (auto simp: returns_eq)
  have "grid_result gd (\<lambda>x y. if y = py then moved dx px nx (grid_default_cell, None) (\<lambda>x. grid_glyph gd x y) x
      else grid_glyph gd x y) (gd\<lparr>gd_linedata := (gd_linedata gd)[py := gl']\<rparr>)"
    by (rule grid_result_upd) (use ok False gl' in \<open>auto simp: grid_glyph_def\<close>)
  then show ?thesis using False ok gl' len by (simp add: grid_move_cells_def upd_line_eq)
qed

lemma grid_wipe_loop:
  assumes "a \<le> b" and "b \<le> length (gd_linedata gd)"
  shows "for_upto a b (\<lambda>yy gd. if Q yy then Some gd else upd_line yy (\<lambda>gl. Some grid_line_zero) gd) gd =
    Some (gd\<lparr>gd_linedata := wipe_list a b Q grid_line_zero (gd_linedata gd)\<rparr>)"
  by (rule for_upto_eq [where S = "\<lambda>i. gd\<lparr>gd_linedata := wipe_list a i Q grid_line_zero (gd_linedata gd)\<rparr>"])
     (use assms in \<open>auto simp: wipe_list_Suc wipe_list_empty upd_line_def\<close>)

definition lines_moved :: "u_int \<Rightarrow> u_int \<Rightarrow> u_int \<Rightarrow> grid_line list \<Rightarrow> grid_line list" where
  "lines_moved dy py ny ls =
     map (moved dy py ny grid_line_zero (\<lambda>y. ls ! y)) [0..<length ls]"

lemma length_lines_moved [simp]: "length (lines_moved dy py ny ls) = length ls"
  by (simp add: lines_moved_def)

lemma nth_lines_moved [simp]:
  "y < length ls \<Longrightarrow> lines_moved dy py ny ls ! y = moved dy py ny grid_line_zero (\<lambda>y. ls ! y) y"
  by (simp add: lines_moved_def)

lemma grid_move_lines_eq:
  assumes ok: "grid_ok gd" and "py + ny \<le> grid_total gd" and "dy + ny \<le> grid_total gd"
  shows "grid_move_lines gd dy py ny = Some (gd\<lparr>gd_linedata := lines_moved dy py ny (gd_linedata gd)\<rparr>)"
proof (cases "ny = 0 \<or> py = dy")
  case True
  then have "lines_moved dy py ny (gd_linedata gd) = gd_linedata gd"
    by (auto intro!: nth_equalityI simp: moved_def)
  then show ?thesis using True by (simp add: grid_move_lines_def)
next
  case False
  let ?ls = "gd_linedata gd"
  let ?src = "\<lambda>yy. py \<le> yy \<and> yy < py + ny" and ?dst = "\<lambda>yy. dy \<le> yy \<and> yy < dy + ny"
  let ?l1 = "wipe_list dy (dy + ny) ?src grid_line_zero ?ls"
  have bound: "grid_total gd < UINT_MOD" "grid_total gd \<le> length ?ls"
    using grid_ok_bounds [OF ok] by simp_all
  have "for_upto dy (dy + ny) (\<lambda>yy gd'. if ?src yy then Some gd' else grid_clear_lines gd' yy 1) gd =
      Some (gd\<lparr>gd_linedata := ?l1\<rparr>)"
  proof (rule for_upto_eq [where S = "\<lambda>i. gd\<lparr>gd_linedata := wipe_list dy i ?src grid_line_zero ?ls\<rparr>"])
    fix i assume i: "dy \<le> i" "i < dy + ny"
    have "grid_check_y (gd\<lparr>gd_linedata := ls\<rparr>) i" for ls
      using i assms(3) bound by (simp add: grid_check_y_def)
    then have "grid_clear_lines (gd\<lparr>gd_linedata := ls\<rparr>) i 1 =
        upd_line i (\<lambda>gl. Some grid_line_zero) (gd\<lparr>gd_linedata := ls\<rparr>)" for ls
      using for_upto_Suc [of i i] i assms(3) bound by (simp add: grid_clear_lines_def)
    then show "(if ?src i then Some (gd\<lparr>gd_linedata := wipe_list dy i ?src grid_line_zero ?ls\<rparr>)
        else grid_clear_lines (gd\<lparr>gd_linedata := wipe_list dy i ?src grid_line_zero ?ls\<rparr>) i 1) =
      Some (gd\<lparr>gd_linedata := wipe_list dy (Suc i) ?src grid_line_zero ?ls\<rparr>)"
      using i assms(3) bound by (auto simp: wipe_list_Suc upd_line_def)
  qed (auto simp: wipe_list_empty)
  moreover have "memmove_list dy py ny ?l1 = Some (move_list dy py ny ?l1)"
    using assms bound by (intro memmove_list_Some) auto
  moreover have "for_upto py (py + ny) (\<lambda>yy gd. if ?dst yy then Some gd
        else upd_line yy (\<lambda>gl. Some grid_line_zero) gd) (gd\<lparr>gd_linedata := move_list dy py ny ?l1\<rparr>) =
      Some (gd\<lparr>gd_linedata := wipe_list py (py + ny) ?dst grid_line_zero (move_list dy py ny ?l1)\<rparr>)"
    using grid_wipe_loop [of py "py + ny" "gd\<lparr>gd_linedata := move_list dy py ny ?l1\<rparr>" ?dst] assms bound by simp
  moreover have "wipe_list py (py + ny) ?dst grid_line_zero (move_list dy py ny ?l1) =
      lines_moved dy py ny ?ls"
    using assms bound by (intro nth_equalityI) (auto simp: moved_def)
  ultimately show ?thesis using False assms bound ok grid_ok_bounds(4) [OF ok]
    by (simp add: grid_move_lines_def Let_def)
qed

lemma lines_moved_ok:
  assumes "grid_ok gd" and "py + ny \<le> grid_total gd"
  shows "grid_ok (gd\<lparr>gd_linedata := lines_moved dy py ny (gd_linedata gd)\<rparr>)"
  by (rule grid_ok_linesI)
     (use assms grid_ok_bounds(2) [OF assms(1)] in \<open>auto simp: moved_def grid_ok_line\<close>)

lemma grid_move_lines_returns:
  assumes "grid_ok gd" and "py + ny \<le> grid_total gd" and "dy + ny \<le> grid_total gd"
  shows "returns (grid_move_lines gd dy py ny) (grid_result gd
    (\<lambda>x y. moved dy py ny (grid_default_cell, None) (grid_glyph gd x) y))"
  using grid_move_lines_eq [OF assms] lines_moved_ok [OF assms(1,2)] grid_ok_bounds(2) [OF assms(1)]
  by (auto simp: grid_result_def grid_glyph_def moved_def)

end
