(* ===== verification/Grid_Scroll.thy ===== *)
theory Grid_Scroll
  imports Grid_Spec
begin

text \<open>
  The history of a grid: collecting its oldest lines, scrolling the screen or a region of it into it
  (\<open>grid_collect_history\<close>, \<open>grid_scroll_history\<close>, \<open>grid_scroll_history_region\<close>), as equations between
  lists of lines.
\<close>

section \<open>Scrolling\<close>

text \<open>
  The lines of a grid as a list: history first. Collecting drops the oldest tenth of the history,
  scrolling appends a line, or moves the top line of a region to the end of the history.
\<close>

definition grid_lines :: "grid \<Rightarrow> grid_line list" where
  "grid_lines gd = take (grid_total gd) (gd_linedata gd)"

lemma length_grid_lines [simp]: "grid_ok gd \<Longrightarrow> length (grid_lines gd) = grid_total gd"
  using grid_ok_bounds(2) by (simp add: grid_lines_def)

lemma nth_grid_lines [simp]: "y < grid_total gd \<Longrightarrow> grid_lines gd ! y = gd_linedata gd ! y"
  by (simp add: grid_lines_def)

definition collect_count :: "grid \<Rightarrow> u_int" where
  "collect_count gd = (if gd_hsize gd < gd_hlimit gd then 0 else max 1 (gd_hlimit gd div 10))"

text \<open>
  \<open>grid_shape\<close> is what history collection and scrolling keep; \<open>grid_keep\<close> is what every operation on the view
  keeps: without history, the history does not grow either.
\<close>

definition grid_shape :: "grid \<Rightarrow> grid \<Rightarrow> bool" where
  "grid_shape gd gd' \<longleftrightarrow> gd_flags gd' = gd_flags gd \<and> gd_sx gd' = gd_sx gd \<and> gd_sy gd' = gd_sy gd \<and>
     gd_hlimit gd' = gd_hlimit gd"

definition grid_keep :: "grid \<Rightarrow> grid \<Rightarrow> bool" where
  "grid_keep gd gd' \<longleftrightarrow> gd_flags gd' = gd_flags gd \<and> gd_sx gd' = gd_sx gd \<and> gd_sy gd' = gd_sy gd \<and>
     gd_hlimit gd' = gd_hlimit gd \<and> (has_flag (gd_flags gd) GRID_HISTORY \<or> gd_hsize gd' \<le> gd_hsize gd)"

lemma grid_keep_shape: "grid_keep gd gd' \<Longrightarrow> grid_shape gd gd'"
  by (simp add: grid_keep_def grid_shape_def)

lemma grid_shape_keep: "grid_shape gd gd' \<Longrightarrow> has_flag (gd_flags gd) GRID_HISTORY \<Longrightarrow> grid_keep gd gd'"
  by (simp add: grid_keep_def grid_shape_def)

lemma grid_keep_refl [simp]: "grid_keep gd gd"
  by (simp add: grid_keep_def)

lemma grid_keep_trans: "grid_keep a b \<Longrightarrow> grid_keep b c \<Longrightarrow> grid_keep a c"
  by (auto simp: grid_keep_def)

lemma grid_same_keep: "grid_same gd gd' \<Longrightarrow> grid_keep gd gd'"
  by (simp add: grid_keep_def grid_same_def)

lemma collect_count_le: "0 < gd_hlimit gd \<Longrightarrow> collect_count gd \<le> gd_hsize gd"
  by (auto simp: collect_count_def max_def)

lemma grid_collect_history_returns:
  assumes ok: "grid_ok gd" and "0 < gd_hlimit gd" and hist: "has_flag (gd_flags gd) GRID_HISTORY"
  shows "returns (grid_collect_history gd) (\<lambda>gd'. grid_ok gd' \<and> grid_keep gd gd' \<and>
    grid_lines gd' = drop (collect_count gd) (grid_lines gd) \<and>
    gd_hsize gd' = gd_hsize gd - collect_count gd \<and> grid_total gd' < gd_hlimit gd + DIM_MAX)"
proof (cases "gd_hsize gd < gd_hlimit gd")
  case True
  then show ?thesis using ok grid_ok_bounds(6) [OF ok] by (simp add: grid_collect_history_def collect_count_def)
next
  case False
  let ?yy = "collect_count gd"
  let ?gd = "gd\<lparr>gd_linedata := lines_moved 0 ?yy (grid_total gd - ?yy) (gd_linedata gd)\<rparr>"
  have yy: "?yy \<le> gd_hsize gd" "0 < ?yy"
      "?yy = (if gd_hlimit gd div 10 < 1 then 1 else gd_hlimit gd div 10)"
    using collect_count_le [OF assms(2)] False by (auto simp: collect_count_def max_def)
  have bound: "grid_total gd < UINT_MOD" using grid_ok_bounds(1) [OF ok] by simp
  have n: "?yy + (grid_total gd - ?yy) \<le> grid_total gd" "0 + (grid_total gd - ?yy) \<le> grid_total gd"
    using yy(1) by linarith+
  have run: "grid_collect_history gd = Some (?gd\<lparr>gd_hsize := gd_hsize gd - ?yy\<rparr>)"
    using False yy(1) bound grid_move_lines_eq [OF ok n]
    unfolding grid_collect_history_def yy(3) [symmetric] Let_def by simp
  have "line_ok (gd_linedata ?gd ! y)" if "y < grid_total gd - ?yy" for y
    using that ok grid_ok_bounds(2) [OF ok] by (simp add: moved_def grid_ok_line)
  then have "grid_ok (?gd\<lparr>gd_hsize := gd_hsize gd - ?yy\<rparr>)"
    using ok yy(1) by (auto simp: grid_ok_def)
  moreover have "grid_lines (?gd\<lparr>gd_hsize := gd_hsize gd - ?yy\<rparr>) = drop ?yy (grid_lines gd)"
    using yy(1) ok grid_ok_bounds(2) [OF ok]
    by (intro nth_equalityI) (auto simp: grid_lines_def moved_def)
  moreover have "grid_total gd \<le> gd_hlimit gd + DIM_MAX" using ok hist by (simp add: grid_ok_def)
  then have "gd_hsize gd - ?yy + gd_sy gd < gd_hlimit gd + DIM_MAX" using yy(1,2) by linarith
  ultimately show ?thesis using run by (simp add: grid_keep_def)
qed

lemma grid_scroll_history_returns:
  assumes ok: "grid_ok gd" and "grid_total gd < gd_hlimit gd + DIM_MAX"
  shows "returns (grid_scroll_history gd) (\<lambda>gd'. grid_ok gd' \<and> grid_shape gd gd' \<and>
    grid_lines gd' = grid_lines gd @ [grid_line_zero] \<and> gd_hsize gd' = gd_hsize gd + 1)"
proof -
  let ?n = "grid_total gd"
  let ?ls = "(realloc_list undefined (?n + 1) (gd_linedata gd))[?n := grid_line_zero]"
  let ?gd = "gd\<lparr>gd_linedata := ?ls, gd_hsize := gd_hsize gd + 1\<rparr>"
  have bound: "?n + 1 < UINT_MOD" and len: "?n \<le> length (gd_linedata gd)"
    using grid_ok_bounds [OF ok] by simp_all
  have run: "grid_scroll_history gd = Some ?gd"
    using bound by (simp add: grid_scroll_history_def Let_def)
  have nth: "?ls ! y = (if y = ?n then grid_line_zero else gd_linedata gd ! y)" if "y \<le> ?n" for y
    using that len by (auto simp: nth_list_update nth_realloc_list)
  have "line_ok (?ls ! y)" if "y < ?n + 1" for y
    using that nth [of y] grid_ok_line [OF ok, of y] by (cases "y = ?n") simp_all
  then have "grid_ok ?gd" using ok assms(2) by (auto simp: grid_ok_def)
  moreover have "grid_lines ?gd = grid_lines gd @ [grid_line_zero]"
    using nth len by (intro nth_equalityI) (auto simp: grid_lines_def nth_append)
  ultimately show ?thesis using run by (simp add: grid_shape_def)
qed

lemma grid_scroll_history_region_returns:
  assumes ok: "grid_ok gd" and "grid_total gd < gd_hlimit gd + DIM_MAX"
    and "upper \<le> lower" and "lower < gd_sy gd"
  defines "h \<equiv> gd_hsize gd"
  shows "returns (grid_scroll_history_region gd (h + upper) (h + lower)) (\<lambda>gd'. grid_ok gd' \<and>
    grid_shape gd gd' \<and> gd_hsize gd' = h + 1 \<and>
    grid_lines gd' = take h (grid_lines gd) @ [grid_lines gd ! (h + upper)] @
      take upper (drop h (grid_lines gd)) @
      take (lower - upper) (drop (h + upper + 1) (grid_lines gd)) @ [grid_line_zero] @
      drop (h + lower + 1) (grid_lines gd))"
proof -
  let ?n = "grid_total gd"
  let ?l0 = "realloc_list undefined (?n + 1) (gd_linedata gd)"
  let ?l1 = "move_list (h + 1) h (gd_sy gd) ?l0"
  let ?l2 = "?l1[h := ?l1 ! (h + upper + 1)]"
  let ?l3 = "move_list (h + upper + 1) (h + upper + 1 + 1) (lower - upper) ?l2"
  let ?l4 = "?l3[h + lower + 1 := grid_line_zero]"
  let ?gd = "gd\<lparr>gd_linedata := ?l4, gd_hsize := h + 1\<rparr>"
  have bound: "?n + 1 < UINT_MOD" and len: "?n \<le> length (gd_linedata gd)" and n: "?n = h + gd_sy gd"
    using grid_ok_bounds [OF ok] by (simp_all add: h_def)
  have run: "grid_scroll_history_region gd (h + upper) (h + lower) = Some ?gd"
  proof -
    have a: "u_add (h + gd_sy gd) 1 = h + gd_sy gd + 1" "u_add h (gd_sy gd) = h + gd_sy gd"
      "u_add (h + upper) 1 = h + upper + 1" "u_add (h + lower) 1 = h + lower + 1"
      "u_sub (h + lower + 1) (h + upper + 1) = lower - upper" "u_add h 1 = h + 1"
      using bound assms(3,4) n by simp_all
    show ?thesis
      unfolding grid_scroll_history_region_def Let_def h_def [symmetric] a
      using assms(3,4) by (simp add: h_def)
  qed
  have nth: "?l4 ! y = (if y < h then gd_linedata gd ! y else if y = h then gd_linedata gd ! (h + upper)
      else if y \<le> h + upper then gd_linedata gd ! (y - 1)
      else if y \<le> h + lower then gd_linedata gd ! y
      else if y = h + lower + 1 then grid_line_zero else gd_linedata gd ! (y - 1))" if "y \<le> ?n" for y
    using that n len assms(3,4) by (auto simp: nth_list_update nth_realloc_list)
  have "grid_ok ?gd"
    using ok assms(2-4) nth n by (auto simp: grid_ok_def h_def [symmetric])
  moreover have "grid_lines ?gd = take h (grid_lines gd) @ [grid_lines gd ! (h + upper)] @
      take upper (drop h (grid_lines gd)) @
      take (lower - upper) (drop (h + upper + 1) (grid_lines gd)) @ [grid_line_zero] @
      drop (h + lower + 1) (grid_lines gd)" (is "_ = ?R")
  proof (rule nth_equalityI)
    show "length (grid_lines ?gd) = length ?R"
      using ok len n assms(3,4) by (simp add: grid_lines_def)
    fix y assume "y < length (grid_lines ?gd)"
    then have y: "y \<le> ?n" using len n by (simp add: grid_lines_def)
    have "grid_lines ?gd ! y = ?l4 ! y" using y n by (simp add: grid_lines_def)
    also have "\<dots> = ?R ! y" unfolding nth [OF y]
      using y n len assms(3,4) by (auto simp: nth_append grid_lines_def nth_Cons' not_less intro!: arg_cong [where f = "nth (gd_linedata gd)"])
    finally show "grid_lines ?gd ! y = ?R ! y" .
  qed
  ultimately show ?thesis using run by (simp add: grid_shape_def)
qed

end
