(* ===== verification/Grid_Props.thy ===== *)
theory Grid_Props
  imports Grid_Scroll
begin

text \<open>
  The properties of \<open>src/grid.c\<close>, stated with the code's own readers (\<open>grid_peek_cell\<close>,
  \<open>grid_peek_utf8\<close>) and with \<open>grid_lines\<close>, each with a concrete witness.
\<close>

unbundle bit_operations_syntax

section \<open>Grids for the witnesses\<close>

definition grid_blank :: "u_int \<Rightarrow> u_int \<Rightarrow> u_int \<Rightarrow> grid" where
  "grid_blank sx sy hlimit =
     \<lparr>gd_flags = GRID_HISTORY, gd_sx = sx, gd_sy = sy, gd_hsize = 0, gd_hlimit = hlimit,
      gd_linedata = replicate sy grid_line_zero\<rparr>"

lemma grid_create_blank: "0 < sy \<Longrightarrow> grid_create sx sy hlimit = Some (grid_blank sx sy hlimit)"
  by (simp add: grid_create_def grid_blank_def)

lemma grid_blank_ok:
  "0 < sx \<Longrightarrow> sx \<le> DIM_MAX \<Longrightarrow> 0 < sy \<Longrightarrow> sy \<le> DIM_MAX \<Longrightarrow> hlimit \<le> INT_MAX \<Longrightarrow>
   grid_ok (grid_blank sx sy hlimit)"
  by (simp add: grid_blank_def grid_ok_def)

lemma grid_blank_simps [simp]:
  "gd_sx (grid_blank sx sy hlimit) = sx" "gd_sy (grid_blank sx sy hlimit) = sy"
  "gd_hsize (grid_blank sx sy hlimit) = 0" "gd_hlimit (grid_blank sx sy hlimit) = hlimit"
  "gd_flags (grid_blank sx sy hlimit) = GRID_HISTORY"
  by (simp_all add: grid_blank_def)

lemma grid_blank_glyph [simp]: "y < sy \<Longrightarrow> grid_glyph (grid_blank sx sy hlimit) x y = (grid_default_cell, None)"
  by (simp add: grid_glyph_def grid_blank_def)

lemma grid_blank_lines [simp]: "grid_lines (grid_blank sx sy hlimit) = replicate sy grid_line_zero"
  by (simp add: grid_lines_def grid_blank_def)

section \<open>Reading and writing\<close>

lemma grid_result_peek:
  assumes "grid_ok gd" and "grid_result gd F gd'" and "y < grid_total gd"
  shows "grid_peek_cell gd' x y = Some (fst (F x y))"
  using assms grid_peek_cell_eq [of gd' x y] by (auto simp: grid_result_def grid_same_def)

lemma grid_result_peeks:
  assumes "grid_ok gd" and "grid_result gd F gd'"
  shows "grid_ok gd' \<and> grid_same gd gd' \<and>
    (\<forall>x y. y < grid_total gd \<longrightarrow> grid_peek_cell gd' x y = Some (fst (F x y)))"
  using grid_result_ok [OF assms(2)] grid_result_peek [OF assms] by blast

text \<open>
  C10. Writing a cell, and its UTF-8 data when the cell is flagged as UTF-8, never leaves the
  allocation, keeps the invariant, and afterwards every reader sees exactly that cell changed,
  whatever line expansion the write caused.
\<close>

theorem grid_write_read:
  assumes "grid_ok gd" and "px + 1 < UINT_MOD" and "py < grid_total gd" and "gu_ok gu"
  shows "returns (grid_set_cell gd px py gc \<bind>
      (\<lambda>gd. if has_flag (gc_flags gc) GRID_FLAG_UTF8 then grid_set_utf8 gd px py gu else Some gd))
    (\<lambda>gd'. grid_ok gd' \<and> grid_same gd gd' \<and>
      (has_flag (gc_flags gc) GRID_FLAG_UTF8 \<longrightarrow> grid_peek_utf8 gd' px py = Some (Some gu)) \<and>
      (\<forall>x y. y < grid_total gd \<longrightarrow> grid_peek_cell gd' x y =
         (if x = px \<and> y = py then Some gc else grid_peek_cell gd x y)))"
proof (cases "is_utf8 gc")
  case True
  then have "returns (grid_set_cell gd px py gc \<bind>
      (\<lambda>gd. if has_flag (gc_flags gc) GRID_FLAG_UTF8 then grid_set_utf8 gd px py gu else Some gd))
    (grid_result gd (\<lambda>x y. if x = px \<and> y = py then (gc, Some gu) else grid_glyph gd x y))"
    using grid_set_pair_returns [OF assms(1,2) True assms(4), of py] by (simp add: is_utf8_def)
  then show ?thesis
  proof (rule returns_mono)
    fix gd' assume *: "grid_result gd (\<lambda>x y. if x = px \<and> y = py then (gc, Some gu) else grid_glyph gd x y) gd'"
    have "grid_ok gd'" "grid_glyph gd' px py = (gc, Some gu)" "grid_total gd' = grid_total gd"
      using * assms(3) by (auto simp: grid_result_def grid_same_def)
    then have "grid_peek_utf8 gd' px py = Some (Some gu)"
      using grid_peek_utf8_eq [of gd' px py] True assms(3) by auto
    then show "grid_ok gd' \<and> grid_same gd gd' \<and>
      (has_flag (gc_flags gc) GRID_FLAG_UTF8 \<longrightarrow> grid_peek_utf8 gd' px py = Some (Some gu)) \<and>
      (\<forall>x y. y < grid_total gd \<longrightarrow> grid_peek_cell gd' x y =
         (if x = px \<and> y = py then Some gc else grid_peek_cell gd x y))"
      using * grid_result_peek [OF assms(1) *] grid_peek_cell_eq [OF assms(1)] by (auto simp: grid_result_def)
  qed
next
  case False
  then have "\<not> has_flag (gc_flags gc) GRID_FLAG_UTF8" by (simp add: is_utf8_def)
  moreover have "returns (grid_set_cell gd px py gc)
      (grid_result gd (\<lambda>x y. if x = px \<and> y = py then (gc, None) else grid_glyph gd x y))"
    using grid_set_cell_returns [OF assms(1,2) False] .
  ultimately show ?thesis using grid_peek_cell_eq [OF assms(1)]
    by (auto elim!: returns_mono dest!: grid_result_peeks [OF assms(1)])
qed

theorem grid_write_read_witness:
  "returns (grid_set_cell (grid_blank 3 2 10) 1 1 (grid_default_cell\<lparr>gc_data := 0x41\<rparr>))
    (\<lambda>gd'. grid_peek_cell gd' 1 1 = Some (grid_default_cell\<lparr>gc_data := 0x41\<rparr>) \<and>
      grid_peek_cell gd' 2 1 = Some grid_default_cell)"
  using grid_write_read [of "grid_blank 3 2 10" 1 1 "\<lparr>gu_width = 1, gu_data = replicate 9 0\<rparr>"
      "grid_default_cell\<lparr>gc_data := 0x41\<rparr>"] grid_blank_ok [of 3 2 10]
  by (auto simp: gu_ok_def grid_default_cell_def grid_peek_cell_eq elim!: returns_mono)

section \<open>Clearing and moving\<close>

text \<open>
  C22. \<open>grid_clear\<close> accepts any area: it never dies, it keeps the invariant and the sizes, and it makes
  exactly the cells of the area blank when the rows of the area exist. It does nothing when they do
  not, nor when a count was computed below zero and wrapped around, which the callers in \<open>grid-view.c\<close>
  rely on. Clearing whole lines also blanks what lies beyond the right edge.
\<close>

theorem grid_clear_area:
  assumes "grid_ok gd" and "py < UINT_MOD" and "ny < UINT_MOD" and "px < UINT_MOD" and "nx < UINT_MOD"
  shows "returns (grid_clear gd px py nx ny) (\<lambda>gd'. grid_ok gd' \<and> grid_same gd gd' \<and>
    (\<forall>x y. y < grid_total gd \<longrightarrow> grid_peek_cell gd' x y =
      (if (py \<le> y \<and> y < py + ny \<and> py + ny \<le> grid_total gd) \<and>
          px \<le> x \<and> (x < px + nx \<and> px + nx < UINT_MOD \<or> px = 0 \<and> nx = gd_sx gd)
       then Some grid_default_cell else grid_peek_cell gd x y)))"
  using grid_clear_returns [OF assms] grid_peek_cell_eq [OF assms(1)]
  by (auto elim!: returns_mono dest!: grid_result_peeks [OF assms(1)])

theorem grid_clear_area_witness:
  "returns (grid_clear (grid_blank 3 2 10) 1 0 2 2) (\<lambda>gd'. grid_peek_cell gd' 1 0 = Some grid_default_cell)"
  using grid_clear_area [of "grid_blank 3 2 10" 0 2 1 2] grid_blank_ok [of 3 2 10]
  by (auto elim!: returns_mono)

text \<open>
  C23. Moving \<open>nx\<close> cells of a line from \<open>px\<close> to \<open>dx\<close>, overlapping or not, carries each cell together
  with its UTF-8 data, blanks the cells moved away from, and touches nothing else.
\<close>

theorem grid_move_cells_spec:
  assumes "grid_ok gd" and "px + nx < UINT_MOD" and "dx + nx < UINT_MOD"
  shows "returns (grid_move_cells gd dx px py nx) (\<lambda>gd'. grid_ok gd' \<and> grid_same gd gd' \<and>
    (\<forall>x y. y < grid_total gd \<longrightarrow> grid_glyph gd' x y =
      (if y \<noteq> py then grid_glyph gd x y
       else if dx \<le> x \<and> x < dx + nx then grid_glyph gd (px + (x - dx)) y
       else if px \<le> x \<and> x < px + nx then (grid_default_cell, None)
       else grid_glyph gd x y)))"
  using grid_move_cells_returns [OF assms, of py]
  by (rule returns_mono) (auto simp: grid_result_def moved_def)

theorem grid_move_cells_spec_witness:
  "returns (grid_move_cells (grid_blank 3 2 10) 1 0 0 2) (\<lambda>gd'. grid_glyph gd' 0 0 = (grid_default_cell, None))"
  using grid_move_cells_spec [of "grid_blank 3 2 10" 0 2 1 0] grid_blank_ok [of 3 2 10]
  by (auto elim!: returns_mono)

text \<open>
  C24. Moving \<open>ny\<close> lines from \<open>py\<close> to \<open>dy\<close> inside the grid, overlapping or not, carries each line
  over, leaves empty lines where lines were moved away, and touches nothing else. No line is left
  shared between two places.
\<close>

theorem grid_move_lines_spec:
  assumes "grid_ok gd" and "py + ny \<le> grid_total gd" and "dy + ny \<le> grid_total gd"
  shows "returns (grid_move_lines gd dy py ny) (\<lambda>gd'. grid_ok gd' \<and> grid_same gd gd' \<and>
    (\<forall>y < grid_total gd. grid_lines gd' ! y =
      (if dy \<le> y \<and> y < dy + ny then grid_lines gd ! (py + (y - dy))
       else if py \<le> y \<and> y < py + ny then grid_line_zero
       else grid_lines gd ! y)))"
  using grid_move_lines_eq [OF assms] lines_moved_ok [OF assms(1,2)] assms grid_ok_bounds(2) [OF assms(1)]
  by (auto simp: moved_def grid_lines_def)

theorem grid_move_lines_spec_witness:
  "returns (grid_move_lines (grid_blank 3 4 10) 1 0 3) (\<lambda>gd'. grid_lines gd' ! 0 = grid_line_zero)"
  using grid_move_lines_spec [of "grid_blank 3 4 10" 0 3 1] grid_blank_ok [of 3 4 10]
  by (auto elim!: returns_mono)

section \<open>Scrolling\<close>

text \<open>
  C15. A full-screen scroll of a grid with history (\<open>grid_collect_history\<close> and then
  \<open>grid_scroll_history\<close>, as \<open>grid_view_scroll_region_up\<close> does) never dies, appends one empty line and
  drops lines from the oldest end only, none while the limit is not reached; the history does not
  grow once it is at the limit.
\<close>

theorem grid_scroll_spec:
  assumes "grid_ok gd" and "0 < gd_hlimit gd" and "has_flag (gd_flags gd) GRID_HISTORY"
  shows "returns (grid_collect_history gd \<bind> grid_scroll_history) (\<lambda>gd'. grid_ok gd' \<and> grid_keep gd gd' \<and>
    (\<exists>n. grid_lines gd' = drop n (grid_lines gd) @ [grid_line_zero] \<and> n \<le> gd_hsize gd \<and>
      gd_hsize gd' = gd_hsize gd - n + 1 \<and>
      n = (if gd_hsize gd < gd_hlimit gd then 0 else max 1 (gd_hlimit gd div 10))) \<and>
    gd_hsize gd' \<le> max (gd_hlimit gd) (gd_hsize gd))"
  unfolding returns_bind
proof (rule returns_mono [OF grid_collect_history_returns [OF assms]])
  have bound: "Suc (gd_hsize gd - collect_count gd) \<le> max (gd_hlimit gd) (gd_hsize gd)"
  proof (cases "gd_hsize gd < gd_hlimit gd")
    case False
    then have "1 \<le> collect_count gd" by (simp add: collect_count_def)
    then show ?thesis using collect_count_le [OF assms(2)] by linarith
  qed simp
  fix gd1 assume 1: "grid_ok gd1 \<and> grid_keep gd gd1 \<and>
    grid_lines gd1 = drop (collect_count gd) (grid_lines gd) \<and>
    gd_hsize gd1 = gd_hsize gd - collect_count gd \<and> grid_total gd1 < gd_hlimit gd + DIM_MAX"
  then have "returns (grid_scroll_history gd1) (\<lambda>gd'. grid_ok gd' \<and> grid_shape gd1 gd' \<and>
    grid_lines gd' = grid_lines gd1 @ [grid_line_zero] \<and> gd_hsize gd' = gd_hsize gd1 + 1)"
    by (intro grid_scroll_history_returns) (auto simp: grid_keep_def grid_shape_def)
  then show "returns (grid_scroll_history gd1) (\<lambda>gd'. grid_ok gd' \<and> grid_keep gd gd' \<and>
    (\<exists>n. grid_lines gd' = drop n (grid_lines gd) @ [grid_line_zero] \<and> n \<le> gd_hsize gd \<and>
      gd_hsize gd' = gd_hsize gd - n + 1 \<and>
      n = (if gd_hsize gd < gd_hlimit gd then 0 else max 1 (gd_hlimit gd div 10))) \<and>
    gd_hsize gd' \<le> max (gd_hlimit gd) (gd_hsize gd))"
    by (rule returns_mono)
       (use 1 assms(3) collect_count_le [OF assms(2)] bound in \<open>auto simp: grid_keep_def grid_shape_def collect_count_def [symmetric]\<close>)
qed

theorem grid_scroll_spec_witness:
  "returns (grid_collect_history (grid_blank 3 2 10) \<bind> grid_scroll_history)
    (\<lambda>gd'. grid_ok gd' \<and> gd_hsize gd' \<le> 10)"
  by (rule returns_mono [OF grid_scroll_spec [of "grid_blank 3 2 10"]]) (simp_all add: grid_blank_ok has_flag_def)

text \<open>
  C25. Scrolling a region moves the region's top line, and no other, to the end of the history; the
  other lines of the region move up by one, the region's bottom line becomes empty, and the lines
  above and below the region stay.
\<close>

theorem grid_scroll_region_spec:
  assumes "grid_ok gd" and "grid_total gd < gd_hlimit gd + DIM_MAX"
    and "upper \<le> lower" and "lower < gd_sy gd"
  shows "returns (grid_scroll_history_region gd (gd_hsize gd + upper) (gd_hsize gd + lower))
    (\<lambda>gd'. grid_ok gd' \<and> grid_shape gd gd' \<and> gd_hsize gd' = gd_hsize gd + 1 \<and>
      take (gd_hsize gd') (grid_lines gd') =
        take (gd_hsize gd) (grid_lines gd) @ [grid_lines gd ! (gd_hsize gd + upper)] \<and>
      drop (gd_hsize gd') (grid_lines gd') =
        (let view = drop (gd_hsize gd) (grid_lines gd)
         in take upper view @ take (lower - upper) (drop (upper + 1) view) @ [grid_line_zero] @
            drop (lower + 1) view))"
  by (rule returns_mono [OF grid_scroll_history_region_returns [OF assms]])
     (use assms in \<open>auto simp: Let_def ac_simps\<close>)

theorem grid_scroll_region_spec_witness:
  "returns (grid_scroll_history_region (grid_blank 3 4 10) 1 2) (\<lambda>gd'. gd_hsize gd' = 1)"
  using grid_scroll_region_spec [of "grid_blank 3 4 10" 1 2] grid_blank_ok [of 3 4 10]
  by (auto simp: numeral_2_eq_2 elim!: returns_mono)

section \<open>Reading text\<close>

lemma string_grow_bounds: "0 < len \<Longrightarrow> len \<le> string_grow len need \<and> need \<le> string_grow len need"
proof (induction len need rule: string_grow.induct)
  case (1 len need)
  show ?case
  proof (cases "len < need")
    case True
    then show ?thesis using 1 by (subst (1 2) string_grow.simps) auto
  next
    case False
    then show ?thesis by (subst (1 2) string_grow.simps) simp
  qed
qed

definition glyph_text :: "grid_cell \<times> grid_utf8 option \<Rightarrow> u_char list" where
  "glyph_text g =
     (if has_flag (gc_flags (fst g)) GRID_FLAG_PADDING then []
      else case snd g of Some gu \<Rightarrow> gu_bytes gu | None \<Rightarrow> [gc_data (fst g)])"

definition rstrip :: "u_char list \<Rightarrow> u_char list" where
  "rstrip bs = rev (dropWhile (\<lambda>c. c = 0x20) (rev bs))"

lemma grid_string_cell_returns:
  assumes ok: "grid_ok gd" and py: "py < grid_total gd" and len: "length buf < len"
  shows "returns (grid_string_cell gd py xx (len, buf)) (\<lambda>(len', buf').
    length buf' < len' \<and> buf' = buf @ glyph_text (grid_glyph gd xx py))"
proof -
  let ?g = "grid_glyph gd xx py"
  have peek: "grid_peek_cell gd xx py = Some (fst ?g)" using grid_peek_cell_eq [OF ok] py by simp
  show ?thesis
  proof (cases "is_utf8 (fst ?g)")
    case True
    obtain gu where "snd ?g = Some gu" "grid_peek_utf8 gd xx py = Some (Some gu)"
      using grid_peek_utf8_eq [OF ok True py] by auto
    moreover have "length buf + grid_utf8_size gu + 1 \<le> string_grow len (length buf + grid_utf8_size gu + 1)"
      using string_grow_bounds [of len] len by simp
    ultimately show ?thesis using peek True len
      by (auto simp: grid_string_cell_def glyph_text_def is_utf8_def grid_utf8_copy_bytes
          grid_utf8_size_bytes Let_def)
  next
    case False
    then have "snd ?g = None" by (simp add: grid_glyph_def line_glyph_def)
    moreover have "length buf + 2 \<le> string_grow len (length buf + 2)"
      using string_grow_bounds [of len] len by simp
    ultimately show ?thesis using peek False len
      by (auto simp: grid_string_cell_def glyph_text_def is_utf8_def Let_def)
  qed
qed

text \<open>
  C26. \<open>grid_string_cells\<close> returns the text of the cells, padding cells skipped, UTF-8 cells with all
  their bytes, trailing spaces removed; the growing buffer is always large enough, the terminating
  NUL included.
\<close>

theorem grid_string_cells_spec:
  assumes "grid_ok gd" and "py < grid_total gd" and "px + nx < UINT_MOD"
  shows "grid_string_cells gd px py nx =
    Some (rstrip (concat (map (\<lambda>x. glyph_text (grid_glyph gd x py)) [px..<px + nx])))"
proof -
  let ?text = "\<lambda>i. concat (map (\<lambda>x. glyph_text (grid_glyph gd x py)) [px..<i])"
  have "returns (for_upto px (px + nx) (grid_string_cell gd py) (128, []))
      (\<lambda>s. length (snd s) < fst s \<and> snd s = ?text (px + nx))"
  proof (rule for_upto_returns_index)
    fix i s assume "px \<le> i" and I: "length (snd s) < fst s \<and> snd s = ?text i"
    then show "returns (grid_string_cell gd py i s)
        (\<lambda>s. length (snd s) < fst s \<and> snd s = ?text (Suc i))"
      using grid_string_cell_returns [OF assms(1,2), of "snd s" "fst s" i]
      by (cases s) (auto elim!: returns_mono)
  qed simp_all
  then obtain len buf where "for_upto px (px + nx) (grid_string_cell gd py) (128, []) = Some (len, buf)"
    and "length buf < len" "buf = ?text (px + nx)" by (auto simp: returns_eq)
  moreover have "length (rstrip buf) \<le> length buf"
    using length_dropWhile_le [of "\<lambda>c. c = 0x20" "rev buf"] by (simp add: rstrip_def)
  ultimately show ?thesis using assms(3) by (simp add: grid_string_cells_def rstrip_def Let_def)
qed

theorem grid_string_cells_spec_witness:
  "grid_string_cells (grid_blank 3 2 10) 0 1 3 = Some []"
  using grid_string_cells_spec [of "grid_blank 3 2 10" 1 0 3] grid_blank_ok [of 3 2 10]
  by (simp add: rstrip_def glyph_text_def upt_rec grid_default_cell_def)

section \<open>Duplicating lines\<close>

text \<open>A line that was truncated to no cells but still owns its array of cells.\<close>

definition line_stale :: "grid_line \<Rightarrow> bool" where
  "line_stale gl \<longleftrightarrow> gl_cellsize gl = 0 \<and> gl_celldata gl \<noteq> []"

lemma line_duplicate_eq:
  assumes "line_ok gl"
  shows "line_duplicate gl =
    (if line_stale gl then None else Some (gl\<lparr>gl_celldata := take (gl_cellsize gl) (gl_celldata gl)\<rparr>))"
proof -
  have "gl_utf8size gl = 0 \<longleftrightarrow> gl_utf8data gl = []" using line_ok_utf8size [OF assms] by auto
  then show ?thesis using line_ok_utf8size [OF assms] line_ok_cellsize [OF assms]
    by (auto simp: line_duplicate_def line_stale_def)
qed

lemma line_truncate_glyph:
  "line_glyph (gl\<lparr>gl_celldata := take (gl_cellsize gl) (gl_celldata gl)\<rparr>) x = line_glyph gl x"
  by (simp add: line_glyph_def line_cell_def)

lemma line_truncate_data_ok:
  "line_ok gl \<Longrightarrow> line_ok (gl\<lparr>gl_celldata := take (gl_cellsize gl) (gl_celldata gl)\<rparr>)"
  by (auto simp: line_ok_def)

definition duplicate_step :: "u_int \<Rightarrow> grid \<Rightarrow> u_int \<Rightarrow> u_int \<Rightarrow> grid \<Rightarrow> grid option" where
  "duplicate_step dy src sy yy dst = do {
     srcl \<leftarrow> get_at (gd_linedata src) (u_add sy yy);
     dstl \<leftarrow> line_duplicate srcl;
     upd_line (u_add dy yy) (\<lambda>gl. Some dstl) dst
   }"

lemma duplicate_fresh: "\<not> line_stale (gl\<lparr>gl_celldata := take (gl_cellsize gl) (gl_celldata gl)\<rparr>)"
  by (auto simp: line_stale_def)

lemma duplicate_loop:
  assumes src: "grid_ok src" and dst: "grid_ok dst"
    and "dy + ny \<le> grid_total dst" and "sy + ny \<le> grid_total src"
    and fresh: "\<And>k. k < ny \<Longrightarrow> \<not> line_stale (gd_linedata src ! (sy + k))"
  shows "returns (for_upto 0 ny (duplicate_step dy src sy) dst) (\<lambda>gd. grid_result dst
    (\<lambda>x y. if dy \<le> y \<and> y < dy + ny then grid_glyph src x (sy + (y - dy)) else grid_glyph dst x y) gd \<and>
    (\<forall>k < ny. \<not> line_stale (gd_linedata gd ! (dy + k))))"
proof (rule for_upto_returns_index)
  show "grid_result dst (\<lambda>x y. if dy \<le> y \<and> y < dy + 0 then grid_glyph src x (sy + (y - dy))
      else grid_glyph dst x y) dst \<and> (\<forall>k < 0. \<not> line_stale (gd_linedata dst ! (dy + k)))"
    using dst by (auto simp: grid_result_def)
next
  fix i gd assume i: "0 \<le> i" "i < ny" and J: "grid_result dst (\<lambda>x y. if dy \<le> y \<and> y < dy + i
      then grid_glyph src x (sy + (y - dy)) else grid_glyph dst x y) gd \<and>
      (\<forall>k < i. \<not> line_stale (gd_linedata gd ! (dy + k)))"
  note I = conjunct1 [OF J]
  let ?sl = "gd_linedata src ! (sy + i)"
  let ?dl = "?sl\<lparr>gl_celldata := take (gl_cellsize ?sl) (gl_celldata ?sl)\<rparr>"
  let ?gd = "gd\<lparr>gd_linedata := (gd_linedata gd)[dy + i := ?dl]\<rparr>"
  have gd: "grid_ok gd" "grid_total gd = grid_total dst" using I by (auto simp: grid_result_def grid_same_def)
  have sl: "line_ok ?sl" using src i assms(4) by (simp add: grid_ok_line)
  have step: "duplicate_step dy src sy i gd = Some ?gd"
    using fresh [OF i(2)] i assms(3,4) gd sl grid_ok_bounds [OF src] grid_ok_bounds [OF gd(1)]
    by (simp add: duplicate_step_def line_duplicate_eq upd_line_eq)
  have "grid_result gd (\<lambda>x y. if y = dy + i then line_glyph ?dl x else grid_glyph gd x y) ?gd"
    by (rule grid_result_upd) (use gd i assms(3) sl in \<open>simp_all add: line_truncate_data_ok\<close>)
  then have "grid_result dst (\<lambda>x y. if dy \<le> y \<and> y < dy + Suc i then grid_glyph src x (sy + (y - dy))
      else grid_glyph dst x y) ?gd"
    using I gd by (auto simp: grid_result_def line_truncate_glyph grid_same_def grid_glyph_def [of src])
  moreover have "dy + i < length (gd_linedata gd)" using i assms(3) gd grid_ok_bounds(2) [OF gd(1)] by simp
  then have "\<forall>k < Suc i. \<not> line_stale (gd_linedata ?gd ! (dy + k))"
    using J duplicate_fresh by (auto simp: less_Suc_eq nth_list_update)
  ultimately show "returns (duplicate_step dy src sy i gd) (\<lambda>gd. grid_result dst (\<lambda>x y. if dy \<le> y \<and> y < dy + Suc i
      then grid_glyph src x (sy + (y - dy)) else grid_glyph dst x y) gd \<and>
      (\<forall>k < Suc i. \<not> line_stale (gd_linedata gd ! (dy + k))))"
    using step by simp
qed simp

lemma grid_duplicate_lines_eq:
  assumes "grid_ok src" and "grid_ok dst" and "dy + ny \<le> grid_total dst" and "sy + ny \<le> grid_total src"
  shows "grid_duplicate_lines dst dy src sy ny =
    grid_clear_lines dst dy ny \<bind> for_upto 0 ny (duplicate_step dy src sy)"
  using assms grid_ok_bounds(1) [OF assms(1)] grid_ok_bounds(1) [OF assms(2)]
  by (simp add: grid_duplicate_lines_def duplicate_step_def [abs_def] Let_def)

lemma grid_duplicate_returns:
  assumes "grid_ok src" and "grid_ok dst" and "dy + ny \<le> grid_total dst" and "sy + ny \<le> grid_total src"
    and "\<And>k. k < ny \<Longrightarrow> \<not> line_stale (gd_linedata src ! (sy + k))"
  shows "returns (grid_duplicate_lines dst dy src sy ny) (\<lambda>gd. grid_result dst
    (\<lambda>x y. if dy \<le> y \<and> y < dy + ny then grid_glyph src x (sy + (y - dy)) else grid_glyph dst x y) gd \<and>
    (\<forall>k < ny. \<not> line_stale (gd_linedata gd ! (dy + k))))"
  unfolding grid_duplicate_lines_eq [OF assms(1-4)] returns_bind
proof (rule returns_mono)
  show "returns (grid_clear_lines dst dy ny) (grid_result dst
    (\<lambda>x y. if dy \<le> y \<and> y < dy + ny \<and> dy + ny \<le> grid_total dst then (grid_default_cell, None)
           else grid_glyph dst x y))"
    by (rule grid_clear_lines_returns) (use assms grid_ok_bounds(1) [OF assms(2)] in auto)
next
  fix gd assume *: "grid_result dst (\<lambda>x y. if dy \<le> y \<and> y < dy + ny \<and> dy + ny \<le> grid_total dst
      then (grid_default_cell, None) else grid_glyph dst x y) gd"
  then have gd: "grid_ok gd" "grid_total gd = grid_total dst" by (auto simp: grid_result_def grid_same_def)
  have "returns (for_upto 0 ny (duplicate_step dy src sy) gd) (\<lambda>gd'. grid_result gd
    (\<lambda>x y. if dy \<le> y \<and> y < dy + ny then grid_glyph src x (sy + (y - dy)) else grid_glyph gd x y) gd' \<and>
    (\<forall>k < ny. \<not> line_stale (gd_linedata gd' ! (dy + k))))"
    by (rule duplicate_loop) (use assms gd in auto)
  then show "returns (for_upto 0 ny (duplicate_step dy src sy) gd) (\<lambda>gd'. grid_result dst
    (\<lambda>x y. if dy \<le> y \<and> y < dy + ny then grid_glyph src x (sy + (y - dy)) else grid_glyph dst x y) gd' \<and>
    (\<forall>k < ny. \<not> line_stale (gd_linedata gd' ! (dy + k))))"
    using * gd by (auto simp: grid_result_def grid_same_def elim!: returns_mono)
qed

text \<open>
  C27. Duplicating lines into another grid gives, when it returns, exactly the cells of the source
  lines and leaves the other lines alone. It returns exactly when no source line is stale: a line that
  \<open>grid_clear\<close> truncated to size 0 keeps its array, and its copy then shares that array, to be freed
  twice.
\<close>

theorem grid_duplicate_spec:
  assumes "grid_ok src" and "grid_ok dst" and "dy + ny \<le> grid_total dst" and "sy + ny \<le> grid_total src"
    and "\<And>k. k < ny \<Longrightarrow> \<not> line_stale (grid_lines src ! (sy + k))"
  shows "returns (grid_duplicate_lines dst dy src sy ny) (\<lambda>gd'. grid_ok gd' \<and> grid_same dst gd' \<and>
    (\<forall>x y. y < grid_total dst \<longrightarrow> grid_glyph gd' x y =
      (if dy \<le> y \<and> y < dy + ny then grid_glyph src x (sy + (y - dy)) else grid_glyph dst x y)))"
  by (rule returns_mono [OF grid_duplicate_returns [OF assms(1-4)]])
     (use assms(4,5) in \<open>auto simp: grid_result_def\<close>)

theorem grid_duplicate_spec_witness:
  "returns (grid_duplicate_lines (grid_blank 3 4 10) 1 (grid_blank 5 3 0) 0 2)
    (\<lambda>gd'. grid_glyph gd' 0 1 = (grid_default_cell, None))"
proof -
  have "\<not> line_stale (grid_lines (grid_blank 5 3 0) ! (0 + k))" if "k < 2" for k
    using that by (simp add: line_stale_def grid_line_zero_def)
  then show ?thesis
    using grid_duplicate_spec [of "grid_blank 5 3 0" "grid_blank 3 4 10" 1 2 0]
      grid_blank_ok [of 3 4 10] grid_blank_ok [of 5 3 0]
    by (auto elim!: returns_mono)
qed

text \<open>
  The stale line arises from writing one cell and erasing it (\<open>CSI 1 K\<close>), and copying it to a saved
  screen then shares its array.
\<close>

lemma grid_duplicate_shares:
  "(do {
      gd \<leftarrow> grid_set_cell (grid_blank 3 1 10) 0 0 grid_marker_cell;
      gd \<leftarrow> grid_clear gd 0 0 1 1;
      grid_duplicate_lines (grid_blank 3 1 0) 0 gd 0 1
    }) = None"
  by (simp add: grid_blank_def grid_set_cell_def grid_check_y_def grid_expand_line_def upd_line_def
      line_expand_def grid_line_zero_def realloc_list_def grid_put_cell_def line_put_cell_def
      grid_clear_def for_upto_def line_clear_def grid_duplicate_lines_def grid_clear_lines_def
      line_duplicate_def fill_list_def)

text \<open>\<open>grid_compare\<close> reads past the end of two equal lines that are shorter than the grid is wide.\<close>

lemma grid_compare_short_lines:
  "0 < sx \<Longrightarrow> 0 < sy \<Longrightarrow> grid_compare (grid_blank sx sy h1) (grid_blank sx sy h2) = None"
  by (cases sx; cases sy)
     (simp_all add: grid_compare_def grid_blank_def for_upto_def upt_conv_Cons grid_line_zero_def
        line_compare_at_def del: upt_Suc)

end
