(* ===== verification/Grid_View.thy ===== *)
theory Grid_View
  imports Grid_Props
begin

text \<open>
  The visible part of a grid (\<open>src/grid-view.c\<close>): the operations of \<open>Grid\<close> in coordinates relative to
  the first line below the history. \<open>view_ok\<close> adds to \<open>grid_ok\<close> that a grid that keeps history has a
  history limit: with the limit 0 the first scroll makes \<open>hsize\<close> wrap around.
\<close>

unbundle bit_operations_syntax

section \<open>Operations\<close>

definition grid_view_x :: "grid \<Rightarrow> u_int \<Rightarrow> u_int" where
  "grid_view_x gd x = x"

definition grid_view_y :: "grid \<Rightarrow> u_int \<Rightarrow> u_int" where
  "grid_view_y gd y = u_add (gd_hsize gd) y"

definition grid_view_peek_cell :: "grid \<Rightarrow> u_int \<Rightarrow> u_int \<Rightarrow> grid_cell option" where
  "grid_view_peek_cell gd px py = grid_peek_cell gd (grid_view_x gd px) (grid_view_y gd py)"

definition grid_view_get_cell :: "grid \<Rightarrow> u_int \<Rightarrow> u_int \<Rightarrow> (grid \<times> bool) option" where
  "grid_view_get_cell gd px py = grid_get_cell gd (grid_view_x gd px) (grid_view_y gd py)"

definition grid_view_set_cell :: "grid \<Rightarrow> u_int \<Rightarrow> u_int \<Rightarrow> grid_cell \<Rightarrow> grid option" where
  "grid_view_set_cell gd px py gc = grid_set_cell gd (grid_view_x gd px) (grid_view_y gd py) gc"

definition grid_view_peek_utf8 :: "grid \<Rightarrow> u_int \<Rightarrow> u_int \<Rightarrow> grid_utf8 option option" where
  "grid_view_peek_utf8 gd px py = grid_peek_utf8 gd (grid_view_x gd px) (grid_view_y gd py)"

definition grid_view_get_utf8 :: "grid \<Rightarrow> u_int \<Rightarrow> u_int \<Rightarrow> (grid \<times> bool) option" where
  "grid_view_get_utf8 gd px py = grid_get_utf8 gd (grid_view_x gd px) (grid_view_y gd py)"

definition grid_view_set_utf8 :: "grid \<Rightarrow> u_int \<Rightarrow> u_int \<Rightarrow> grid_utf8 \<Rightarrow> grid option" where
  "grid_view_set_utf8 gd px py gu = grid_set_utf8 gd (grid_view_x gd px) (grid_view_y gd py) gu"

definition grid_view_last_used :: "grid \<Rightarrow> u_int option" where
  "grid_view_last_used gd = for_upto 0 (gd_sy gd) (\<lambda>yy last. do {
     gl \<leftarrow> get_at (gd_linedata gd) (grid_view_y gd yy);
     Some (if gl_cellsize gl \<noteq> 0 \<or> gl_utf8size gl \<noteq> 0 then yy + 1 else last)
   }) 0"

definition grid_view_clear_history :: "grid \<Rightarrow> grid option" where
  "grid_view_clear_history gd = do {
     last \<leftarrow> grid_view_last_used gd;
     if last = 0 then Some gd
     else for_upto 0 last (\<lambda>yy gd. do { gd \<leftarrow> grid_collect_history gd; grid_scroll_history gd }) gd
   }"

definition grid_view_clear :: "grid \<Rightarrow> u_int \<Rightarrow> u_int \<Rightarrow> u_int \<Rightarrow> u_int \<Rightarrow> grid option" where
  "grid_view_clear gd px py nx ny = grid_clear gd (grid_view_x gd px) (grid_view_y gd py) nx ny"

definition grid_view_scroll_region_up :: "grid \<Rightarrow> u_int \<Rightarrow> u_int \<Rightarrow> grid option" where
  "grid_view_scroll_region_up gd rupper rlower =
     (if has_flag (gd_flags gd) GRID_HISTORY then do {
        gd \<leftarrow> grid_collect_history gd;
        if rupper = 0 \<and> rlower = u_sub (gd_sy gd) 1 then grid_scroll_history gd
        else grid_scroll_history_region gd (grid_view_y gd rupper) (grid_view_y gd rlower)
      }
      else let rupper = grid_view_y gd rupper; rlower = grid_view_y gd rlower
        in grid_move_lines gd rupper (u_add rupper 1) (u_sub rlower rupper))"

definition grid_view_scroll_region_down :: "grid \<Rightarrow> u_int \<Rightarrow> u_int \<Rightarrow> grid option" where
  "grid_view_scroll_region_down gd rupper rlower =
     (let rupper = grid_view_y gd rupper; rlower = grid_view_y gd rlower
      in grid_move_lines gd (u_add rupper 1) rupper (u_sub rlower rupper))"

definition grid_view_insert_lines :: "grid \<Rightarrow> u_int \<Rightarrow> u_int \<Rightarrow> grid option" where
  "grid_view_insert_lines gd py ny =
     (let py = grid_view_y gd py; sy = grid_view_y gd (gd_sy gd)
      in grid_move_lines gd (u_add py ny) py (u_sub (u_sub sy py) ny))"

definition grid_view_insert_lines_region :: "grid \<Rightarrow> u_int \<Rightarrow> u_int \<Rightarrow> u_int \<Rightarrow> grid option" where
  "grid_view_insert_lines_region gd rlower py ny =
     (let rlower = grid_view_y gd rlower; py = grid_view_y gd py;
          ny2 = u_sub (u_sub (u_add rlower 1) py) ny
      in do {
        gd \<leftarrow> grid_move_lines gd (u_sub (u_add rlower 1) ny2) py ny2;
        grid_clear gd 0 (u_add py ny2) (gd_sx gd) (u_sub ny ny2)
      })"

definition grid_view_delete_lines :: "grid \<Rightarrow> u_int \<Rightarrow> u_int \<Rightarrow> grid option" where
  "grid_view_delete_lines gd py ny =
     (let py = grid_view_y gd py; sy = grid_view_y gd (gd_sy gd)
      in do {
        gd \<leftarrow> grid_move_lines gd py (u_add py ny) (u_sub (u_sub sy py) ny);
        grid_clear gd 0 (u_sub sy ny) (gd_sx gd) (u_sub (u_add py ny) (u_sub sy ny))
      })"

definition grid_view_delete_lines_region :: "grid \<Rightarrow> u_int \<Rightarrow> u_int \<Rightarrow> u_int \<Rightarrow> grid option" where
  "grid_view_delete_lines_region gd rlower py ny =
     (let rlower = grid_view_y gd rlower; py = grid_view_y gd py;
          ny2 = u_sub (u_sub (u_add rlower 1) py) ny
      in do {
        gd \<leftarrow> grid_move_lines gd py (u_add py ny) ny2;
        grid_clear gd 0 (u_add py ny2) (gd_sx gd) (u_sub ny ny2)
      })"

definition grid_view_insert_cells :: "grid \<Rightarrow> u_int \<Rightarrow> u_int \<Rightarrow> u_int \<Rightarrow> grid option" where
  "grid_view_insert_cells gd px py nx =
     (let px = grid_view_x gd px; py = grid_view_y gd py; sx = grid_view_x gd (gd_sx gd)
      in if px = u_sub sx 1 then grid_clear gd px py 1 1
         else grid_move_cells gd (u_add px nx) px py (u_sub (u_sub sx px) nx))"

definition grid_view_delete_cells :: "grid \<Rightarrow> u_int \<Rightarrow> u_int \<Rightarrow> u_int \<Rightarrow> grid option" where
  "grid_view_delete_cells gd px py nx =
     (let px = grid_view_x gd px; py = grid_view_y gd py; sx = grid_view_x gd (gd_sx gd)
      in do {
        gd \<leftarrow> grid_move_cells gd px (u_add px nx) py (u_sub (u_sub sx px) nx);
        grid_clear gd (u_sub sx nx) py (u_sub (u_add px nx) (u_sub sx nx)) 1
      })"

definition grid_view_string_cells :: "grid \<Rightarrow> u_int \<Rightarrow> u_int \<Rightarrow> u_int \<Rightarrow> u_char list option" where
  "grid_view_string_cells gd px py nx =
     grid_string_cells gd (grid_view_x gd px) (grid_view_y gd py) nx"

section \<open>The visible cells\<close>

definition view_glyph :: "grid \<Rightarrow> u_int \<Rightarrow> u_int \<Rightarrow> grid_cell \<times> grid_utf8 option" where
  "view_glyph gd x y = grid_glyph gd x (gd_hsize gd + y)"

definition view_ok :: "grid \<Rightarrow> bool" where
  "view_ok gd \<longleftrightarrow> grid_ok gd \<and> (has_flag (gd_flags gd) GRID_HISTORY \<longrightarrow> 0 < gd_hlimit gd)"

lemma view_ok_grid: "view_ok gd \<Longrightarrow> grid_ok gd"
  by (simp add: view_ok_def)

lemma view_ok_keep: "view_ok gd \<Longrightarrow> grid_ok gd' \<Longrightarrow> grid_keep gd gd' \<Longrightarrow> view_ok gd'"
  by (simp add: view_ok_def grid_keep_def)

lemma grid_view_y_eq: "grid_ok gd \<Longrightarrow> y \<le> 2 * DIM_MAX \<Longrightarrow> grid_view_y gd y = gd_hsize gd + y"
  using grid_ok_bounds(1) [of gd] by (simp add: grid_view_y_def)

lemma grid_view_y_less [simp]: "grid_view_y gd y < UINT_MOD"
  by (simp add: grid_view_y_def)

text \<open>The result of an operation on the visible part: the history has been extended, or is as before.\<close>

definition view_result :: "grid \<Rightarrow> (u_int \<Rightarrow> u_int \<Rightarrow> grid_cell \<times> grid_utf8 option) \<Rightarrow> grid \<Rightarrow> bool" where
  "view_result gd F gd' \<longleftrightarrow> view_ok gd' \<and> grid_keep gd gd' \<and>
     (\<forall>x y. x < gd_sx gd \<longrightarrow> y < gd_sy gd \<longrightarrow> view_glyph gd' x y = F x y)"

lemma view_result_ok: "view_result gd F gd' \<Longrightarrow> view_ok gd' \<and> grid_keep gd gd'"
  by (simp add: view_result_def)

lemma view_returns_ok: "returns m (view_result gd F) \<Longrightarrow> returns m (\<lambda>gd'. view_ok gd' \<and> grid_keep gd gd')"
  by (erule returns_mono) (rule view_result_ok)

lemma grid_result_view:
  assumes "view_ok gd" and "grid_result gd F gd'"
    and "\<And>x y. x < gd_sx gd \<Longrightarrow> y < gd_sy gd \<Longrightarrow> G x y = F x (gd_hsize gd + y)"
  shows "view_result gd G gd'"
  using assms view_ok_keep [OF assms(1), of gd'] grid_same_keep [of gd gd']
  by (simp add: view_result_def grid_result_def view_glyph_def grid_same_def)

lemma grid_returns_view:
  assumes "view_ok gd" and "returns m (grid_result gd F)"
    and "\<And>x y. x < gd_sx gd \<Longrightarrow> y < gd_sy gd \<Longrightarrow> G x y = F x (gd_hsize gd + y)"
  shows "returns m (view_result gd G)"
  using assms(2) by (rule returns_mono) (erule grid_result_view [OF assms(1)], erule (1) assms(3))

lemma grid_result_trans:
  "grid_result gd F gd1 \<Longrightarrow> grid_result gd1 G gd2 \<Longrightarrow>
   (\<And>x y. y < grid_total gd \<Longrightarrow> H x y = G x y) \<Longrightarrow> grid_result gd H gd2"
  by (simp add: grid_result_def grid_same_def)

lemma grid_view_set_cell_returns:
  assumes "view_ok gd" and "px + 1 < UINT_MOD" and "py < gd_sy gd" and "\<not> is_utf8 gc"
  shows "returns (grid_view_set_cell gd px py gc)
    (view_result gd (\<lambda>x y. if x = px \<and> y = py then (gc, None) else view_glyph gd x y))"
  unfolding grid_view_set_cell_def grid_view_x_def
  by (rule grid_returns_view [OF assms(1) grid_set_cell_returns])
     (use assms view_ok_grid [OF assms(1)] grid_ok_bounds(6) [OF view_ok_grid [OF assms(1)]] in
      \<open>auto simp: grid_view_y_eq view_glyph_def\<close>)

lemma grid_view_set_pair_returns:
  assumes "view_ok gd" and "px + 1 < UINT_MOD" and "py < gd_sy gd" and "is_utf8 gc" and "gu_ok gu"
  shows "returns (grid_view_set_cell gd px py gc \<bind> (\<lambda>gd. grid_view_set_utf8 gd px py gu))
    (view_result gd (\<lambda>x y. if x = px \<and> y = py then (gc, Some gu) else view_glyph gd x y))"
proof -
  have ok: "grid_ok gd" and y: "grid_view_y gd py = gd_hsize gd + py"
    using assms grid_ok_bounds(6) [OF view_ok_grid [OF assms(1)]]
    by (simp_all add: view_ok_grid grid_view_y_eq)
  have "grid_set_cell gd px (gd_hsize gd + py) gc =
      Some (gd\<lparr>gd_linedata := (gd_linedata gd)[gd_hsize gd + py :=
        line_set_cell px gc (gd_linedata gd ! (gd_hsize gd + py))]\<rparr>)"
    using assms(2,3) by (simp add: grid_set_cell_eq [OF ok])
  then have "(grid_view_set_cell gd px py gc \<bind> (\<lambda>gd. grid_view_set_utf8 gd px py gu)) =
      (grid_set_cell gd px (gd_hsize gd + py) gc \<bind> (\<lambda>gd'. grid_set_utf8 gd' px (gd_hsize gd + py) gu))"
    using y by (simp add: grid_view_set_cell_def grid_view_set_utf8_def grid_view_x_def grid_view_y_def)
  then show ?thesis
    using grid_returns_view [OF assms(1) grid_set_pair_returns [OF ok assms(2,4,5), of "gd_hsize gd + py"],
        of "\<lambda>x y. if x = px \<and> y = py then (gc, Some gu) else view_glyph gd x y"]
    by (simp add: view_glyph_def)
qed

lemma grid_view_clear_returns:
  assumes "view_ok gd" and "px < UINT_MOD" and "py < gd_sy gd" and "nx < UINT_MOD" and "py + ny \<le> gd_sy gd"
  shows "returns (grid_view_clear gd px py nx ny) (view_result gd
    (\<lambda>x y. if py \<le> y \<and> y < py + ny \<and> px \<le> x \<and> (x < px + nx \<and> px + nx < UINT_MOD \<or> px = 0 \<and> nx = gd_sx gd)
           then (grid_default_cell, None) else view_glyph gd x y))"
proof -
  have ok: "grid_ok gd" using assms(1) by (rule view_ok_grid)
  have y: "grid_view_y gd py = gd_hsize gd + py" "ny < UINT_MOD"
    using assms grid_ok_bounds(6) [OF ok] by (simp_all add: ok grid_view_y_eq)
  show ?thesis unfolding grid_view_clear_def grid_view_x_def y
    by (rule grid_returns_view [OF assms(1) grid_clear_returns])
       (use ok y assms grid_ok_bounds(1) [OF ok] in \<open>auto simp: view_glyph_def\<close>)
qed

lemma grid_view_move_cells_returns:
  assumes "view_ok gd" and "px + nx < UINT_MOD" and "dx + nx < UINT_MOD" and "py < gd_sy gd"
  shows "returns (grid_move_cells gd dx px (grid_view_y gd py) nx) (view_result gd
    (\<lambda>x y. if y = py then moved dx px nx (grid_default_cell, None) (\<lambda>x. view_glyph gd x y) x
           else view_glyph gd x y))"
  by (rule grid_returns_view [OF assms(1) grid_move_cells_returns])
     (use assms view_ok_grid [OF assms(1)] grid_ok_bounds(6) [OF view_ok_grid [OF assms(1)]] in
      \<open>auto simp: grid_view_y_eq view_glyph_def moved_def\<close>)

section \<open>Scrolling a region\<close>

definition view_lines :: "grid \<Rightarrow> grid_line list" where
  "view_lines gd = drop (gd_hsize gd) (grid_lines gd)"

lemma length_view_lines [simp]: "grid_ok gd \<Longrightarrow> length (view_lines gd) = gd_sy gd"
  by (simp add: view_lines_def)

lemma view_glyph_lines: "grid_ok gd \<Longrightarrow> y < gd_sy gd \<Longrightarrow> view_glyph gd x y = line_glyph (view_lines gd ! y) x"
  by (simp add: view_glyph_def view_lines_def grid_glyph_def)

definition region_up :: "u_int \<Rightarrow> u_int \<Rightarrow> 'a \<Rightarrow> (u_int \<Rightarrow> 'a) \<Rightarrow> u_int \<Rightarrow> 'a" where
  "region_up upper lower z f y =
     (if upper \<le> y \<and> y < lower then f (y + 1) else if y = lower then z else f y)"

lemma region_lines_nth:
  assumes "upper \<le> lower" and "lower < length v" and "y < length v"
  shows "(take upper v @ take (lower - upper) (drop (upper + 1) v) @ [z] @ drop (lower + 1) v) ! y =
    region_up upper lower z ((!) v) y"
  using assms by (auto simp: region_up_def nth_append nth_Cons' not_less
      intro!: arg_cong [where f = "(!) v"])

lemma region_up_line_glyph:
  "line_glyph (region_up upper lower grid_line_zero f y) x =
   region_up upper lower (grid_default_cell, None) (\<lambda>y. line_glyph (f y) x) y"
  by (simp add: region_up_def)

text \<open>Both ways of scrolling into the history do the same to the view.\<close>

definition view_scrolled :: "grid \<Rightarrow> u_int \<Rightarrow> u_int \<Rightarrow> grid \<Rightarrow> bool" where
  "view_scrolled gd upper lower gd' \<longleftrightarrow> grid_ok gd' \<and> grid_shape gd gd' \<and>
     view_lines gd' = take upper (view_lines gd) @
        take (lower - upper) (drop (upper + 1) (view_lines gd)) @ [grid_line_zero] @
        drop (lower + 1) (view_lines gd)"

lemma view_scrolled_history:
  assumes "grid_ok gd" and "grid_total gd < gd_hlimit gd + DIM_MAX"
  shows "returns (grid_scroll_history gd) (view_scrolled gd 0 (gd_sy gd - 1))"
  by (rule returns_mono [OF grid_scroll_history_returns [OF assms]])
     (use assms(1) grid_ok_bounds(4) [OF assms(1)] in \<open>auto simp: view_scrolled_def view_lines_def\<close>)

lemma view_scrolled_region:
  assumes "grid_ok gd" and "grid_total gd < gd_hlimit gd + DIM_MAX" and "upper \<le> lower" and "lower < gd_sy gd"
  shows "returns (grid_scroll_history_region gd (gd_hsize gd + upper) (gd_hsize gd + lower))
    (view_scrolled gd upper lower)"
  by (rule returns_mono [OF grid_scroll_history_region_returns [OF assms]])
     (use assms in \<open>auto simp: view_scrolled_def view_lines_def ac_simps\<close>)

lemma grid_view_scroll_region_up_returns:
  assumes ok: "view_ok gd" and "upper < lower" and "lower < gd_sy gd"
  shows "returns (grid_view_scroll_region_up gd upper lower) (view_result gd
    (\<lambda>x y. region_up upper lower (grid_default_cell, None) (view_glyph gd x) y))"
proof (cases "has_flag (gd_flags gd) GRID_HISTORY")
  case True
  have gok: "grid_ok gd" and lim: "0 < gd_hlimit gd" using ok True by (simp_all add: view_ok_def)
  have res: "view_result gd (\<lambda>x y. region_up upper lower (grid_default_cell, None) (view_glyph gd x) y) gd'"
    if "view_scrolled gd upper lower gd'" for gd'
  proof -
    have gd': "grid_ok gd'" "grid_keep gd gd'" "gd_sy gd' = gd_sy gd"
      using that True by (auto simp: view_scrolled_def grid_keep_def grid_shape_def)
    have "view_glyph gd' x y = region_up upper lower (grid_default_cell, None) (view_glyph gd x) y"
      if y: "y < gd_sy gd" for x y
    proof -
      have "view_lines gd' ! y = region_up upper lower grid_line_zero ((!) (view_lines gd)) y"
        using \<open>view_scrolled gd upper lower gd'\<close> region_lines_nth [of upper lower "view_lines gd" y] assms(2,3) gok y
        by (simp add: view_scrolled_def)
      then show ?thesis using assms(2,3) gok y gd'
        by (auto simp: region_up_line_glyph region_up_def view_glyph_lines)
    qed
    then show ?thesis using gd' view_ok_keep [OF ok] by (simp add: view_result_def)
  qed
  show ?thesis
    unfolding grid_view_scroll_region_up_def if_P [OF True] returns_bind
  proof (rule returns_mono [OF grid_collect_history_returns [OF gok lim True]])
    fix gd1 assume *: "grid_ok gd1 \<and> grid_keep gd gd1 \<and>
      grid_lines gd1 = drop (collect_count gd) (grid_lines gd) \<and>
      gd_hsize gd1 = gd_hsize gd - collect_count gd \<and> grid_total gd1 < gd_hlimit gd + DIM_MAX"
    then have k: "grid_ok gd1" "gd_sy gd1 = gd_sy gd" "grid_keep gd gd1"
      "grid_total gd1 < gd_hlimit gd1 + DIM_MAX"
      by (auto simp: grid_keep_def)
    have "view_lines gd1 = view_lines gd"
      using * collect_count_le [OF lim] by (simp add: view_lines_def)
    then have via: "view_scrolled gd upper lower gd'" if "view_scrolled gd1 upper lower gd'" for gd'
      using that k(3) by (auto simp: view_scrolled_def grid_shape_def grid_keep_def)
    have y: "grid_view_y gd1 upper = gd_hsize gd1 + upper" "grid_view_y gd1 lower = gd_hsize gd1 + lower"
      "u_sub (gd_sy gd1) 1 = gd_sy gd1 - 1"
      using k(2) assms(2,3) grid_ok_bounds(4,6) [OF k(1)] by (simp_all add: grid_view_y_eq k(1))
    have "returns (if upper = 0 \<and> lower = gd_sy gd1 - 1 then grid_scroll_history gd1
        else grid_scroll_history_region gd1 (gd_hsize gd1 + upper) (gd_hsize gd1 + lower))
      (view_scrolled gd1 upper lower)"
      using view_scrolled_history [OF k(1,4)] view_scrolled_region [OF k(1,4), of upper lower] assms(2,3) k(2)
      by auto
    then show "returns (if upper = 0 \<and> lower = u_sub (gd_sy gd1) 1 then grid_scroll_history gd1
        else grid_scroll_history_region gd1 (grid_view_y gd1 upper) (grid_view_y gd1 lower))
      (view_result gd (\<lambda>x y. region_up upper lower (grid_default_cell, None) (view_glyph gd x) y))"
      unfolding y by (rule returns_mono) (rule res [OF via])
  qed
next
  case False
  have gok: "grid_ok gd" using ok by (rule view_ok_grid)
  have y: "grid_view_y gd upper = gd_hsize gd + upper" "grid_view_y gd lower = gd_hsize gd + lower"
    using assms(2,3) grid_ok_bounds(6) [OF gok] by (simp_all add: grid_view_y_eq gok)
  have "returns (grid_move_lines gd (gd_hsize gd + upper) (gd_hsize gd + upper + 1) (lower - upper))
    (view_result gd (\<lambda>x y. region_up upper lower (grid_default_cell, None) (view_glyph gd x) y))"
    by (rule grid_returns_view [OF ok grid_move_lines_returns])
       (use gok assms(2,3) in \<open>auto simp: moved_def region_up_def view_glyph_def\<close>)
  then show ?thesis using False assms(2,3) grid_ok_bounds(1) [OF gok]
    by (simp add: grid_view_scroll_region_up_def y Let_def)
qed

lemma grid_view_scroll_region_down_returns:
  assumes ok: "view_ok gd" and "upper < lower" and "lower < gd_sy gd"
  shows "returns (grid_view_scroll_region_down gd upper lower) (view_result gd
    (\<lambda>x y. if upper < y \<and> y \<le> lower then view_glyph gd x (y - 1)
           else if y = upper then (grid_default_cell, None) else view_glyph gd x y))"
proof -
  have gok: "grid_ok gd" using ok by (rule view_ok_grid)
  have y: "grid_view_y gd upper = gd_hsize gd + upper" "grid_view_y gd lower = gd_hsize gd + lower"
    using assms(2,3) grid_ok_bounds(6) [OF gok] by (simp_all add: grid_view_y_eq gok)
  have "returns (grid_move_lines gd (gd_hsize gd + upper + 1) (gd_hsize gd + upper) (lower - upper))
    (view_result gd (\<lambda>x y. if upper < y \<and> y \<le> lower then view_glyph gd x (y - 1)
           else if y = upper then (grid_default_cell, None) else view_glyph gd x y))"
    by (rule grid_returns_view [OF ok grid_move_lines_returns])
       (use gok assms(2,3) in \<open>auto simp: moved_def view_glyph_def\<close>)
  then show ?thesis using assms(2,3) grid_ok_bounds(1) [OF gok]
    by (simp add: grid_view_scroll_region_down_def y Let_def)
qed

section \<open>Inserting and deleting lines\<close>

lemma grid_move_then_clear:
  assumes ok: "view_ok gd" and "py + ny \<le> grid_total gd" and "dy + ny \<le> grid_total gd"
    and "cy < UINT_MOD" and "cn < UINT_MOD"
  shows "returns (grid_move_lines gd dy py ny \<bind> (\<lambda>gd. grid_clear gd 0 cy (gd_sx gd) cn))
    (grid_result gd (\<lambda>x y. if cy \<le> y \<and> y < cy + cn \<and> cy + cn \<le> grid_total gd then (grid_default_cell, None)
       else moved dy py ny (grid_default_cell, None) (grid_glyph gd x) y))"
proof -
  have gok: "grid_ok gd" using ok by (rule view_ok_grid)
  show ?thesis unfolding returns_bind
  proof (rule returns_mono [OF grid_move_lines_returns [OF gok assms(2,3)]])
    fix gd1 assume 1: "grid_result gd (\<lambda>x y. moved dy py ny (grid_default_cell, None) (grid_glyph gd x) y) gd1"
    then have k: "grid_ok gd1" "gd_sx gd1 = gd_sx gd" "grid_total gd1 = grid_total gd"
      by (auto simp: grid_result_def grid_same_def)
    have "returns (grid_clear gd1 0 cy (gd_sx gd1) cn) (grid_result gd1 (\<lambda>x y.
        if (cy \<le> y \<and> y < cy + cn \<and> cy + cn \<le> grid_total gd1) \<and> 0 \<le> x \<and>
           (x < 0 + gd_sx gd1 \<and> 0 + gd_sx gd1 < UINT_MOD \<or> (0::nat) = 0 \<and> gd_sx gd1 = gd_sx gd1)
        then (grid_default_cell, None) else grid_glyph gd1 x y))"
      by (rule grid_clear_returns) (use k assms(4,5) grid_ok_bounds(5) [OF k(1)] in auto)
    then show "returns (grid_clear gd1 0 cy (gd_sx gd1) cn) (grid_result gd (\<lambda>x y.
        if cy \<le> y \<and> y < cy + cn \<and> cy + cn \<le> grid_total gd then (grid_default_cell, None)
        else moved dy py ny (grid_default_cell, None) (grid_glyph gd x) y))"
      by (rule returns_mono) (rule grid_result_trans [OF 1], use 1 k in \<open>auto simp: grid_result_def\<close>)
  qed
qed

lemma u_sub_clear_count:
  assumes "c + (a - b) < UINT_MOD" and "a < UINT_MOD" and "b \<le> UINT_MOD" and "n < UINT_MOD" and "b \<le> c + a"
  shows "c \<le> y \<and> y < c + u_sub a b \<and> c + u_sub a b \<le> n \<longleftrightarrow> b < a \<and> c \<le> y \<and> y < c + (a - b) \<and> c + (a - b) \<le> n"
  using assms by (cases "b \<le> a") (auto simp: u_sub_wrap)

text \<open>
  The line operations at absolute rows: \<open>b\<close> is the row after the last one of the area, \<open>py + ny \<le> b\<close>.
\<close>

lemma insert_lines_core:
  assumes ok: "view_ok gd" and "py + ny \<le> b" and "b \<le> grid_total gd"
  shows "returns (grid_move_lines gd (u_sub b (b - py - ny)) py (b - py - ny) \<bind>
      (\<lambda>gd. grid_clear gd 0 (u_add py (b - py - ny)) (gd_sx gd) (u_sub ny (b - py - ny))))
    (grid_result gd (\<lambda>x y. if py \<le> y \<and> y < py + ny then (grid_default_cell, None)
       else if py + ny \<le> y \<and> y < b then grid_glyph gd x (y - ny) else grid_glyph gd x y))"
proof -
  have bound: "grid_total gd < UINT_MOD" using grid_ok_bounds(1) [OF view_ok_grid [OF ok]] by simp
  let ?n2 = "b - py - ny"
  have a: "u_sub b ?n2 = py + ny" "u_add py ?n2 = py + ?n2" using assms(2,3) bound by simp_all
  have "returns (grid_move_lines gd (py + ny) py ?n2 \<bind>
      (\<lambda>gd. grid_clear gd 0 (py + ?n2) (gd_sx gd) (u_sub ny ?n2)))
    (grid_result gd (\<lambda>x y. if py + ?n2 \<le> y \<and> y < py + ?n2 + u_sub ny ?n2 \<and> py + ?n2 + u_sub ny ?n2 \<le> grid_total gd
       then (grid_default_cell, None)
       else moved (py + ny) py ?n2 (grid_default_cell, None) (grid_glyph gd x) y))"
    by (rule grid_move_then_clear [OF ok]) (use assms(2,3) bound in auto)
  moreover have "py + ?n2 \<le> y \<and> y < py + ?n2 + u_sub ny ?n2 \<and> py + ?n2 + u_sub ny ?n2 \<le> grid_total gd \<longleftrightarrow>
      ?n2 < ny \<and> py + ?n2 \<le> y \<and> y < py + ?n2 + (ny - ?n2) \<and> py + ?n2 + (ny - ?n2) \<le> grid_total gd" for y
    by (rule u_sub_clear_count) (use assms(2,3) bound in auto)
  ultimately have "returns (grid_move_lines gd (py + ny) py ?n2 \<bind>
      (\<lambda>gd. grid_clear gd 0 (py + ?n2) (gd_sx gd) (u_sub ny ?n2)))
    (grid_result gd (\<lambda>x y. if ?n2 < ny \<and> py + ?n2 \<le> y \<and> y < py + ?n2 + (ny - ?n2) \<and> py + ?n2 + (ny - ?n2) \<le> grid_total gd
       then (grid_default_cell, None)
       else moved (py + ny) py ?n2 (grid_default_cell, None) (grid_glyph gd x) y))" by simp
  then show ?thesis unfolding a
  proof (rule returns_mono, elim grid_result_cong)
    fix x y
    have "b = py + ny + ?n2" using assms(2) by linarith
    then obtain n2 where n2: "b = py + ny + n2" "?n2 = n2" by blast
    show "(if ?n2 < ny \<and> py + ?n2 \<le> y \<and> y < py + ?n2 + (ny - ?n2) \<and> py + ?n2 + (ny - ?n2) \<le> grid_total gd
         then (grid_default_cell, None)
         else moved (py + ny) py ?n2 (grid_default_cell, None) (grid_glyph gd x) y) =
      (if py \<le> y \<and> y < py + ny then (grid_default_cell, None)
       else if py + ny \<le> y \<and> y < b then grid_glyph gd x (y - ny) else grid_glyph gd x y)"
      unfolding n2 using assms(3) n2(1) by (auto simp: moved_def intro: arg_cong [where f = "grid_glyph gd x"])
  qed
qed

lemma delete_lines_core:
  assumes ok: "view_ok gd" and "py + ny \<le> b" and "b \<le> grid_total gd"
  shows "returns (grid_move_lines gd py (u_add py ny) (b - py - ny) \<bind>
      (\<lambda>gd. grid_clear gd 0 (py + (b - py - ny)) (gd_sx gd) (u_sub ny (b - py - ny))))
    (grid_result gd (\<lambda>x y. if py \<le> y \<and> y + ny < b then grid_glyph gd x (y + ny)
       else if b \<le> y + ny \<and> y < b \<and> py \<le> y then (grid_default_cell, None) else grid_glyph gd x y))"
proof -
  have bound: "grid_total gd < UINT_MOD" using grid_ok_bounds(1) [OF view_ok_grid [OF ok]] by simp
  let ?n2 = "b - py - ny"
  have a: "u_add py ny = py + ny" using assms(2,3) bound by simp
  have "returns (grid_move_lines gd py (py + ny) ?n2 \<bind>
      (\<lambda>gd. grid_clear gd 0 (py + ?n2) (gd_sx gd) (u_sub ny ?n2)))
    (grid_result gd (\<lambda>x y. if py + ?n2 \<le> y \<and> y < py + ?n2 + u_sub ny ?n2 \<and> py + ?n2 + u_sub ny ?n2 \<le> grid_total gd
       then (grid_default_cell, None)
       else moved py (py + ny) ?n2 (grid_default_cell, None) (grid_glyph gd x) y))"
    by (rule grid_move_then_clear [OF ok]) (use assms(2,3) bound in auto)
  moreover have "py + ?n2 \<le> y \<and> y < py + ?n2 + u_sub ny ?n2 \<and> py + ?n2 + u_sub ny ?n2 \<le> grid_total gd \<longleftrightarrow>
      ?n2 < ny \<and> py + ?n2 \<le> y \<and> y < py + ?n2 + (ny - ?n2) \<and> py + ?n2 + (ny - ?n2) \<le> grid_total gd" for y
    by (rule u_sub_clear_count) (use assms(2,3) bound in auto)
  ultimately have "returns (grid_move_lines gd py (py + ny) ?n2 \<bind>
      (\<lambda>gd. grid_clear gd 0 (py + ?n2) (gd_sx gd) (u_sub ny ?n2)))
    (grid_result gd (\<lambda>x y. if ?n2 < ny \<and> py + ?n2 \<le> y \<and> y < py + ?n2 + (ny - ?n2) \<and> py + ?n2 + (ny - ?n2) \<le> grid_total gd
       then (grid_default_cell, None)
       else moved py (py + ny) ?n2 (grid_default_cell, None) (grid_glyph gd x) y))" by simp
  then show ?thesis unfolding a
  proof (rule returns_mono, elim grid_result_cong)
    fix x y
    have "b = py + ny + ?n2" using assms(2) by linarith
    then obtain n2 where n2: "b = py + ny + n2" "?n2 = n2" by blast
    show "(if ?n2 < ny \<and> py + ?n2 \<le> y \<and> y < py + ?n2 + (ny - ?n2) \<and> py + ?n2 + (ny - ?n2) \<le> grid_total gd
         then (grid_default_cell, None)
         else moved py (py + ny) ?n2 (grid_default_cell, None) (grid_glyph gd x) y) =
      (if py \<le> y \<and> y + ny < b then grid_glyph gd x (y + ny)
       else if b \<le> y + ny \<and> y < b \<and> py \<le> y then (grid_default_cell, None) else grid_glyph gd x y)"
      unfolding n2 using assms(3) n2(1) by (auto simp: moved_def intro: arg_cong [where f = "grid_glyph gd x"])
  qed
qed

lemma grid_view_insert_lines_region_returns:
  assumes ok: "view_ok gd" and "py + ny \<le> rlower + 1" and "rlower < gd_sy gd"
  shows "returns (grid_view_insert_lines_region gd rlower py ny) (view_result gd
    (\<lambda>x y. if py \<le> y \<and> y < py + ny then (grid_default_cell, None)
           else if py + ny \<le> y \<and> y \<le> rlower then view_glyph gd x (y - ny) else view_glyph gd x y))"
proof -
  let ?h = "gd_hsize gd" and ?b = "gd_hsize gd + rlower + 1"
  have gok: "grid_ok gd" using ok by (rule view_ok_grid)
  note b = grid_ok_bounds(1) [OF gok] grid_ok_bounds(6) [OF gok]
  have y: "grid_view_y gd rlower = ?h + rlower" "grid_view_y gd py = ?h + py" "u_add (?h + rlower) 1 = ?b"
    using assms(2,3) b by (simp_all add: grid_view_y_eq gok)
  have n: "u_sub (u_sub ?b (?h + py)) ny = ?b - (?h + py) - ny" using assms(2,3) b by simp
  have core: "returns (grid_view_insert_lines_region gd rlower py ny) (grid_result gd
    (\<lambda>x y. if ?h + py \<le> y \<and> y < ?h + py + ny then (grid_default_cell, None)
       else if ?h + py + ny \<le> y \<and> y < ?b then grid_glyph gd x (y - ny) else grid_glyph gd x y))"
    unfolding grid_view_insert_lines_region_def y Let_def n
    by (rule insert_lines_core [OF ok]) (use assms(2,3) in auto)
  show ?thesis by (rule grid_returns_view [OF ok core]) (auto simp: view_glyph_def)
qed

lemma grid_view_delete_lines_region_returns:
  assumes ok: "view_ok gd" and "py + ny \<le> rlower + 1" and "rlower < gd_sy gd"
  shows "returns (grid_view_delete_lines_region gd rlower py ny) (view_result gd
    (\<lambda>x y. if py \<le> y \<and> y + ny \<le> rlower then view_glyph gd x (y + ny)
           else if rlower < y + ny \<and> y \<le> rlower \<and> py \<le> y then (grid_default_cell, None)
           else view_glyph gd x y))"
proof -
  let ?h = "gd_hsize gd" and ?b = "gd_hsize gd + rlower + 1"
  have gok: "grid_ok gd" using ok by (rule view_ok_grid)
  note b = grid_ok_bounds(1) [OF gok] grid_ok_bounds(6) [OF gok]
  have y: "grid_view_y gd rlower = ?h + rlower" "grid_view_y gd py = ?h + py" "u_add (?h + rlower) 1 = ?b"
    using assms(2,3) b by (simp_all add: grid_view_y_eq gok)
  have n: "u_sub (u_sub ?b (?h + py)) ny = ?b - (?h + py) - ny"
      "u_add (?h + py) (?b - (?h + py) - ny) = ?h + py + (?b - (?h + py) - ny)" using assms(2,3) b by simp_all
  have core: "returns (grid_view_delete_lines_region gd rlower py ny) (grid_result gd
    (\<lambda>x y. if ?h + py \<le> y \<and> y + ny < ?b then grid_glyph gd x (y + ny)
       else if ?b \<le> y + ny \<and> y < ?b \<and> ?h + py \<le> y then (grid_default_cell, None) else grid_glyph gd x y))"
    unfolding grid_view_delete_lines_region_def y Let_def n
    by (rule delete_lines_core [OF ok]) (use assms(2,3) in auto)
  show ?thesis by (rule grid_returns_view [OF ok core]) (auto simp: view_glyph_def ac_simps)
qed

lemma grid_view_insert_lines_returns:
  assumes ok: "view_ok gd" and "py + ny \<le> gd_sy gd"
  shows "returns (grid_view_insert_lines gd py ny) (view_result gd
    (\<lambda>x y. moved (py + ny) py (gd_sy gd - py - ny) (grid_default_cell, None) (view_glyph gd x) y))"
proof -
  let ?h = "gd_hsize gd"
  have gok: "grid_ok gd" using ok by (rule view_ok_grid)
  note b = grid_ok_bounds(1) [OF gok] grid_ok_bounds(6) [OF gok]
  have y: "grid_view_y gd py = ?h + py" "grid_view_y gd (gd_sy gd) = grid_total gd"
    "u_add (?h + py) ny = ?h + py + ny"
    "u_sub (u_sub (grid_total gd) (?h + py)) ny = gd_sy gd - py - ny"
    using assms(2) b by (simp_all add: grid_view_y_eq gok)
  show ?thesis unfolding grid_view_insert_lines_def y Let_def
    by (rule grid_returns_view [OF ok grid_move_lines_returns])
       (use assms(2) gok in \<open>auto simp: view_glyph_def moved_def intro: arg_cong [where f = "grid_glyph gd _"]\<close>)
qed

lemma u_sub_cancel: "u_sub (k + a) (k + b) = u_sub a b" if "b \<le> UINT_MOD" "k + b \<le> UINT_MOD"
proof -
  have "k + a + UINT_MOD - (k + b) = a + UINT_MOD - b" using that by linarith
  then show ?thesis by (simp add: u_sub_def)
qed

lemma grid_view_delete_lines_returns:
  assumes ok: "view_ok gd" and "py + ny \<le> gd_sy gd"
  shows "returns (grid_view_delete_lines gd py ny) (view_result gd
    (\<lambda>x y. if py \<le> y \<and> y + ny < gd_sy gd then view_glyph gd x (y + ny)
           else if gd_sy gd \<le> y + ny \<and> y < gd_sy gd \<and> py \<le> y then (grid_default_cell, None)
           else view_glyph gd x y))"
proof -
  let ?h = "gd_hsize gd" and ?b = "grid_total gd"
  have gok: "grid_ok gd" using ok by (rule view_ok_grid)
  note b = grid_ok_bounds(1) [OF gok] grid_ok_bounds(6) [OF gok]
  have y: "grid_view_y gd py = ?h + py" "grid_view_y gd (gd_sy gd) = ?b"
    using assms(2) b by (simp_all add: grid_view_y_eq gok)
  let ?n2 = "?b - (?h + py) - ny"
  have n: "u_sub (u_sub ?b (?h + py)) ny = ?n2" "u_sub ?b ny = ?h + py + ?n2"
    "u_add (?h + py) ny = ?h + py + ny"
    using assms(2) b by simp_all
  have c: "u_sub (?h + py + ny) (?h + py + ?n2) = u_sub ny ?n2"
    by (rule u_sub_cancel) (use assms(2) b in simp_all)
  have core: "returns (grid_view_delete_lines gd py ny) (grid_result gd
    (\<lambda>x y. if ?h + py \<le> y \<and> y + ny < ?b then grid_glyph gd x (y + ny)
       else if ?b \<le> y + ny \<and> y < ?b \<and> ?h + py \<le> y then (grid_default_cell, None) else grid_glyph gd x y))"
    using delete_lines_core [OF ok, of "?h + py" ny ?b] assms(2)
    unfolding grid_view_delete_lines_def y Let_def n c by simp
  show ?thesis by (rule grid_returns_view [OF ok core]) (auto simp: view_glyph_def ac_simps)
qed

section \<open>Inserting and deleting cells\<close>

lemma grid_view_insert_cells_returns:
  assumes ok: "view_ok gd" and "px + nx \<le> gd_sx gd" and "px < gd_sx gd" and "py < gd_sy gd"
  shows "returns (grid_view_insert_cells gd px py nx) (view_result gd
    (\<lambda>x y. if y \<noteq> py then view_glyph gd x y
           else if px + 1 = gd_sx gd then (if x = px then (grid_default_cell, None) else view_glyph gd x y)
           else moved (px + nx) px (gd_sx gd - px - nx) (grid_default_cell, None) (\<lambda>x. view_glyph gd x y) x))"
proof -
  have gok: "grid_ok gd" using ok by (rule view_ok_grid)
  have b: "gd_sx gd < UINT_MOD" "0 < gd_sx gd" using grid_ok_bounds(3,5) [OF gok] by simp_all
  show ?thesis
  proof (cases "px + 1 = gd_sx gd")
    case True
    have "returns (grid_view_clear gd px py 1 1) (view_result gd (\<lambda>x y. if py \<le> y \<and> y < py + 1 \<and> px \<le> x \<and>
        (x < px + 1 \<and> px + 1 < UINT_MOD \<or> px = 0 \<and> 1 = gd_sx gd) then (grid_default_cell, None)
        else view_glyph gd x y))"
      by (rule grid_view_clear_returns [OF ok]) (use assms b in auto)
    moreover have "u_sub (gd_sx gd) 1 = px" using True b by auto
    ultimately show ?thesis using True b
      by (auto simp: grid_view_insert_cells_def grid_view_clear_def grid_view_x_def Let_def view_result_def
          elim!: returns_mono)
  next
    case False
    then have "px \<noteq> u_sub (gd_sx gd) 1" using b by auto
    moreover have a: "u_add px nx = px + nx" "u_sub (u_sub (gd_sx gd) px) nx = gd_sx gd - px - nx"
      using assms(2) b by simp_all
    ultimately have run: "grid_view_insert_cells gd px py nx =
        grid_move_cells gd (px + nx) px (grid_view_y gd py) (gd_sx gd - px - nx)"
      by (simp add: grid_view_insert_cells_def grid_view_x_def Let_def)
    have "returns (grid_move_cells gd (px + nx) px (grid_view_y gd py) (gd_sx gd - px - nx)) (view_result gd
      (\<lambda>x y. if y = py then moved (px + nx) px (gd_sx gd - px - nx) (grid_default_cell, None)
        (\<lambda>x. view_glyph gd x y) x else view_glyph gd x y))"
      by (rule grid_view_move_cells_returns [OF ok]) (use assms b in auto)
    then show ?thesis unfolding run using False
      by (rule_tac returns_mono) (assumption, simp add: view_result_def)
  qed
qed

lemma grid_view_delete_cells_returns:
  assumes ok: "view_ok gd" and "px + nx \<le> gd_sx gd" and "py < gd_sy gd"
  shows "returns (grid_view_delete_cells gd px py nx) (view_result gd
    (\<lambda>x y. if y \<noteq> py then view_glyph gd x y
           else if px \<le> x \<and> x + nx < gd_sx gd then view_glyph gd (x + nx) y
           else if px \<le> x then (grid_default_cell, None) else view_glyph gd x y))"
proof -
  have gok: "grid_ok gd" using ok by (rule view_ok_grid)
  let ?sx = "gd_sx gd" and ?n2 = "gd_sx gd - px - nx"
  have b: "gd_sx gd < UINT_MOD" using grid_ok_bounds(5) [OF gok] by simp
  have sx: "?sx = px + nx + ?n2" using assms(2) by simp
  have a: "u_add px nx = px + nx" "u_sub (u_sub ?sx px) nx = ?n2" "u_sub ?sx nx = px + ?n2"
    using assms(2) b by simp_all
  have c: "u_sub (px + nx) (px + ?n2) = u_sub nx ?n2" by (rule u_sub_cancel) (use assms(2) b in auto)
  have "returns (grid_move_cells gd px (px + nx) (grid_view_y gd py) ?n2) (view_result gd
    (\<lambda>x y. if y = py then moved px (px + nx) ?n2 (grid_default_cell, None) (\<lambda>x. view_glyph gd x y) x
           else view_glyph gd x y))"
    by (rule grid_view_move_cells_returns [OF ok]) (use assms b in auto)
  moreover have "returns (grid_clear gd1 (px + ?n2) (grid_view_y gd py) (u_sub nx ?n2) 1) (view_result gd
      (\<lambda>x y. if y \<noteq> py then view_glyph gd x y
           else if px \<le> x \<and> x + nx < gd_sx gd then view_glyph gd (x + nx) y
           else if px \<le> x then (grid_default_cell, None) else view_glyph gd x y))"
    if 1: "view_result gd (\<lambda>x y. if y = py then moved px (px + nx) ?n2 (grid_default_cell, None)
        (\<lambda>x. view_glyph gd x y) x else view_glyph gd x y) gd1"
      and hs: "gd_hsize gd1 = gd_hsize gd" for gd1
  proof -
    have k: "view_ok gd1" "gd_sx gd1 = ?sx" "gd_sy gd1 = gd_sy gd" "grid_keep gd gd1"
      using 1 by (auto simp: view_result_def grid_keep_def)
    have "grid_view_y gd py = grid_view_y gd1 py" using hs by (simp add: grid_view_y_def)
    then have "returns (grid_clear gd1 (px + ?n2) (grid_view_y gd py) (u_sub nx ?n2) 1)
      (view_result gd1 (\<lambda>x y. if py \<le> y \<and> y < py + 1 \<and> px + ?n2 \<le> x \<and>
        (x < px + ?n2 + u_sub nx ?n2 \<and> px + ?n2 + u_sub nx ?n2 < UINT_MOD \<or>
         px + ?n2 = 0 \<and> u_sub nx ?n2 = gd_sx gd1)
        then (grid_default_cell, None) else view_glyph gd1 x y))"
      using grid_view_clear_returns [OF k(1), of "px + ?n2" py "u_sub nx ?n2" 1] assms b k
      by (simp add: grid_view_clear_def grid_view_x_def)
    moreover have "px + ?n2 \<le> x \<and> (x < px + ?n2 + u_sub nx ?n2 \<and> px + ?n2 + u_sub nx ?n2 < UINT_MOD \<or>
         px + ?n2 = 0 \<and> u_sub nx ?n2 = ?sx) \<longleftrightarrow> ?n2 < nx \<and> px + ?n2 \<le> x \<and> x < px + nx" if "x < ?sx" for x
    proof (cases "?n2 \<le> nx")
      case True
      then show ?thesis using that b assms(2) by auto
    next
      case False
      then have "u_sub nx ?n2 = nx + UINT_MOD - ?n2" using b by (simp add: u_sub_wrap)
      then show ?thesis using False that b by auto
    qed
    ultimately show ?thesis
    proof (elim returns_mono)
      fix gd2 assume iff: "\<And>x. x < ?sx \<Longrightarrow> px + ?n2 \<le> x \<and> (x < px + ?n2 + u_sub nx ?n2 \<and>
          px + ?n2 + u_sub nx ?n2 < UINT_MOD \<or> px + ?n2 = 0 \<and> u_sub nx ?n2 = ?sx) \<longleftrightarrow> ?n2 < nx \<and> px + ?n2 \<le> x \<and> x < px + nx"
        and 2: "view_result gd1 (\<lambda>x y. if py \<le> y \<and> y < py + 1 \<and> px + ?n2 \<le> x \<and>
          (x < px + ?n2 + u_sub nx ?n2 \<and> px + ?n2 + u_sub nx ?n2 < UINT_MOD \<or>
           px + ?n2 = 0 \<and> u_sub nx ?n2 = gd_sx gd1)
          then (grid_default_cell, None) else view_glyph gd1 x y) gd2"
      have "view_glyph gd2 x y = (if y = py \<and> ?n2 < nx \<and> px + ?n2 \<le> x \<and> x < px + nx then (grid_default_cell, None)
          else view_glyph gd1 x y)" if "x < ?sx" "y < gd_sy gd" for x y
        using 2 iff [OF that(1)] that k by (auto simp: view_result_def)
      moreover have "view_glyph gd1 x y = (if y = py then moved px (px + nx) ?n2 (grid_default_cell, None)
        (\<lambda>x. view_glyph gd x y) x else view_glyph gd x y)" if "x < ?sx" "y < gd_sy gd" for x y
        using 1 that by (auto simp: view_result_def)
      ultimately show "view_result gd (\<lambda>x y. if y \<noteq> py then view_glyph gd x y
           else if px \<le> x \<and> x + nx < gd_sx gd then view_glyph gd (x + nx) y
           else if px \<le> x then (grid_default_cell, None) else view_glyph gd x y) gd2"
        using 2 k(4) assms(2)
        by (auto simp: view_result_def moved_def intro: grid_keep_trans arg_cong [where f = "\<lambda>x. view_glyph gd x py"])
    qed
  qed
  moreover have "returns (grid_move_cells gd px (px + nx) (grid_view_y gd py) ?n2) (\<lambda>gd1. gd_hsize gd1 = gd_hsize gd)"
    by (rule returns_mono [OF grid_move_cells_returns [OF gok]])
       (use assms b in \<open>auto simp: grid_result_def grid_same_def\<close>)
  ultimately show ?thesis
    unfolding grid_view_delete_cells_def grid_view_x_def Let_def a c returns_bind
    by (blast intro: returns_mono [OF returns_conj])
qed

section \<open>Clearing into the history\<close>

lemma grid_view_last_used_returns:
  assumes "grid_ok gd"
  shows "returns (grid_view_last_used gd) (\<lambda>last. last \<le> gd_sy gd \<and>
    (\<forall>x y. last \<le> y \<longrightarrow> y < gd_sy gd \<longrightarrow> view_glyph gd x y = (grid_default_cell, None)))"
proof -
  have "returns (grid_view_last_used gd) (\<lambda>last. last \<le> gd_sy gd \<and>
    (\<forall>y. last \<le> y \<longrightarrow> y < gd_sy gd \<longrightarrow> gl_cellsize (gd_linedata gd ! (gd_hsize gd + y)) = 0))"
    unfolding grid_view_last_used_def
  proof (rule for_upto_returns_index)
    fix i last assume i: "0 \<le> i" "i < gd_sy gd" and I: "last \<le> i \<and>
      (\<forall>y. last \<le> y \<longrightarrow> y < i \<longrightarrow> gl_cellsize (gd_linedata gd ! (gd_hsize gd + y)) = 0)"
    have "grid_view_y gd i = gd_hsize gd + i" "gd_hsize gd + i < length (gd_linedata gd)"
      using i grid_ok_bounds(2,6) [OF assms] by (simp_all add: grid_view_y_eq assms)
    then show "returns (get_at (gd_linedata gd) (grid_view_y gd i) \<bind> (\<lambda>gl.
        Some (if gl_cellsize gl \<noteq> 0 \<or> gl_utf8size gl \<noteq> 0 then i + 1 else last)))
      (\<lambda>last. last \<le> Suc i \<and>
        (\<forall>y. last \<le> y \<longrightarrow> y < Suc i \<longrightarrow> gl_cellsize (gd_linedata gd ! (gd_hsize gd + y)) = 0))"
      using I by (auto simp: less_Suc_eq)
  qed simp_all
  then show ?thesis
    by (rule returns_mono) (simp add: view_glyph_def grid_glyph_def line_glyph_def line_cell_def)
qed

lemma scroll_once_returns:
  assumes ok: "view_ok gd" and "has_flag (gd_flags gd) GRID_HISTORY"
  shows "returns (grid_collect_history gd \<bind> grid_scroll_history) (view_result gd
    (\<lambda>x y. if y + 1 < gd_sy gd then view_glyph gd x (y + 1) else (grid_default_cell, None)))"
proof -
  have gok: "grid_ok gd" and lim: "0 < gd_hlimit gd" using assms by (simp_all add: view_ok_def)
  show ?thesis unfolding returns_bind
  proof (rule returns_mono [OF grid_collect_history_returns [OF gok lim assms(2)]])
    fix gd1 assume *: "grid_ok gd1 \<and> grid_keep gd gd1 \<and>
      grid_lines gd1 = drop (collect_count gd) (grid_lines gd) \<and>
      gd_hsize gd1 = gd_hsize gd - collect_count gd \<and> grid_total gd1 < gd_hlimit gd + DIM_MAX"
    then have k: "grid_ok gd1" "gd_sy gd1 = gd_sy gd" "gd_sx gd1 = gd_sx gd" "grid_keep gd gd1"
        "grid_total gd1 < gd_hlimit gd1 + DIM_MAX" by (auto simp: grid_keep_def)
    have v: "view_lines gd1 = view_lines gd"
      using * collect_count_le [OF lim] by (simp add: view_lines_def)
    show "returns (grid_scroll_history gd1) (view_result gd
      (\<lambda>x y. if y + 1 < gd_sy gd then view_glyph gd x (y + 1) else (grid_default_cell, None)))"
    proof (rule returns_mono [OF view_scrolled_history [OF k(1,5)]])
      fix gd2 assume 2: "view_scrolled gd1 0 (gd_sy gd1 - 1) gd2"
      then have k2: "grid_ok gd2" "grid_keep gd gd2" "gd_sy gd2 = gd_sy gd"
        using k(4) assms(2) by (auto simp: view_scrolled_def grid_keep_def grid_shape_def)
      have "view_lines gd2 ! y = region_up 0 (gd_sy gd - 1) grid_line_zero ((!) (view_lines gd)) y"
        if "y < gd_sy gd" for y
        using 2 region_lines_nth [of 0 "gd_sy gd - 1" "view_lines gd" y] that gok v k(2)
        by (simp add: view_scrolled_def)
      then show "view_result gd (\<lambda>x y. if y + 1 < gd_sy gd then view_glyph gd x (y + 1)
          else (grid_default_cell, None)) gd2"
        using k2 view_ok_keep [OF ok] gok
        by (auto simp: view_result_def view_glyph_lines region_up_def)
    qed
  qed
qed

lemma grid_view_clear_history_returns:
  assumes ok: "view_ok gd" and hist: "has_flag (gd_flags gd) GRID_HISTORY"
  shows "returns (grid_view_clear_history gd) (view_result gd (\<lambda>x y. (grid_default_cell, None)))"
  unfolding grid_view_clear_history_def returns_bind
proof (rule returns_mono [OF grid_view_last_used_returns [OF view_ok_grid [OF ok]]])
  fix last assume last: "last \<le> gd_sy gd \<and>
    (\<forall>x y. last \<le> y \<longrightarrow> y < gd_sy gd \<longrightarrow> view_glyph gd x y = (grid_default_cell, None))"
  have "returns (for_upto 0 last (\<lambda>yy gd. grid_collect_history gd \<bind> grid_scroll_history) gd)
    (view_result gd (\<lambda>x y. if y + last < gd_sy gd then view_glyph gd x (y + last) else (grid_default_cell, None)))"
  proof (rule for_upto_returns_index)
    show "view_result gd (\<lambda>x y. if y + 0 < gd_sy gd then view_glyph gd x (y + 0) else (grid_default_cell, None)) gd"
      using ok by (simp add: view_result_def)
    fix i gd1 assume "view_result gd (\<lambda>x y. if y + i < gd_sy gd then view_glyph gd x (y + i)
        else (grid_default_cell, None)) gd1"
    then have "view_ok gd1" "has_flag (gd_flags gd1) GRID_HISTORY" "gd_sy gd1 = gd_sy gd" "gd_sx gd1 = gd_sx gd"
      "grid_keep gd gd1" "\<And>x y. x < gd_sx gd \<Longrightarrow> y < gd_sy gd \<Longrightarrow> view_glyph gd1 x y =
        (if y + i < gd_sy gd then view_glyph gd x (y + i) else (grid_default_cell, None))"
      using hist by (auto simp: view_result_def grid_keep_def)
    then show "returns (grid_collect_history gd1 \<bind> grid_scroll_history) (view_result gd
        (\<lambda>x y. if y + Suc i < gd_sy gd then view_glyph gd x (y + Suc i) else (grid_default_cell, None)))"
      using scroll_once_returns [of gd1]
      by (auto simp: view_result_def intro: grid_keep_trans elim!: returns_mono)
  qed simp
  then show "returns (if last = 0 then Some gd
      else for_upto 0 last (\<lambda>yy gd. grid_collect_history gd \<bind> grid_scroll_history) gd)
    (view_result gd (\<lambda>x y. (grid_default_cell, None)))"
    using last ok by (auto simp: view_result_def elim!: returns_mono)
qed

section \<open>Properties\<close>

text \<open>
  C28. Scrolling a region of at least two lines up or down shifts exactly the lines of the region by
  one and blanks the line that becomes free; whether the grid keeps history, and which of the three
  code paths runs, makes no difference to the visible part.
\<close>

theorem grid_view_scroll_regions:
  assumes "view_ok gd" and "upper < lower" and "lower < gd_sy gd"
  shows "returns (grid_view_scroll_region_up gd upper lower) (\<lambda>gd'. view_ok gd' \<and> grid_keep gd gd' \<and>
      (\<forall>x y. x < gd_sx gd \<longrightarrow> y < gd_sy gd \<longrightarrow> view_glyph gd' x y =
        (if upper \<le> y \<and> y < lower then view_glyph gd x (y + 1)
         else if y = lower then (grid_default_cell, None) else view_glyph gd x y)))
    \<and> returns (grid_view_scroll_region_down gd upper lower) (\<lambda>gd'. view_ok gd' \<and> grid_keep gd gd' \<and>
      (\<forall>x y. x < gd_sx gd \<longrightarrow> y < gd_sy gd \<longrightarrow> view_glyph gd' x y =
        (if upper < y \<and> y \<le> lower then view_glyph gd x (y - 1)
         else if y = upper then (grid_default_cell, None) else view_glyph gd x y)))"
  using grid_view_scroll_region_up_returns [OF assms] grid_view_scroll_region_down_returns [OF assms]
  unfolding view_result_def [abs_def] region_up_def by (rule conjI)

lemma view_blank_ok: "0 < sx \<Longrightarrow> sx \<le> DIM_MAX \<Longrightarrow> 0 < sy \<Longrightarrow> sy \<le> DIM_MAX \<Longrightarrow> 0 < hlimit \<Longrightarrow>
   hlimit \<le> INT_MAX \<Longrightarrow> view_ok (grid_blank sx sy hlimit)"
  by (simp add: view_ok_def grid_blank_ok)

theorem grid_view_scroll_regions_witness:
  "returns (grid_view_scroll_region_up (grid_blank 3 4 10) 1 2) (\<lambda>gd'. gd_sy gd' = 4)"
  using grid_view_scroll_regions [of "grid_blank 3 4 10" 1 2] view_blank_ok [of 3 4 10]
  by (auto simp: grid_keep_def elim!: returns_mono)



text \<open>
  C30. Deleting \<open>nx\<close> cells shifts the rest of the line left and blanks the right end. Inserting shifts
  right, and blanks the cells moved away from; when more cells are inserted than remain to be moved
  (\<open>sx - px < 2 * nx\<close>) the cells from \<open>sx - nx\<close> up to \<open>px + nx\<close> keep their old contents although they
  lie in the inserted gap.
\<close>

theorem grid_view_line_cells:
  assumes "view_ok gd" and "px + nx \<le> gd_sx gd" and "px + 1 < gd_sx gd" and "py < gd_sy gd"
  shows "returns (grid_view_delete_cells gd px py nx) (\<lambda>gd'. view_ok gd' \<and> grid_keep gd gd' \<and>
      (\<forall>x y. x < gd_sx gd \<longrightarrow> y < gd_sy gd \<longrightarrow> view_glyph gd' x y =
        (if y \<noteq> py \<or> x < px then view_glyph gd x y
         else if x + nx < gd_sx gd then view_glyph gd (x + nx) y else (grid_default_cell, None))))
    \<and> returns (grid_view_insert_cells gd px py nx) (\<lambda>gd'. view_ok gd' \<and> grid_keep gd gd' \<and>
      (\<forall>x y. x < gd_sx gd \<longrightarrow> y < gd_sy gd \<longrightarrow> view_glyph gd' x y =
        (if y \<noteq> py \<or> x < px \<or> gd_sx gd - nx \<le> x \<and> x < px + nx then view_glyph gd x y
         else if x < px + nx then (grid_default_cell, None) else view_glyph gd (x - nx) y)))"
proof
  show "returns (grid_view_delete_cells gd px py nx) (\<lambda>gd'. view_ok gd' \<and> grid_keep gd gd' \<and>
      (\<forall>x y. x < gd_sx gd \<longrightarrow> y < gd_sy gd \<longrightarrow> view_glyph gd' x y =
        (if y \<noteq> py \<or> x < px then view_glyph gd x y
         else if x + nx < gd_sx gd then view_glyph gd (x + nx) y else (grid_default_cell, None))))"
    by (rule returns_mono [OF grid_view_delete_cells_returns [OF assms(1,2,4)]])
       (auto simp: view_result_def not_less)
  have sx: "gd_sx gd = px + nx + (gd_sx gd - px - nx)" using assms(2) by simp
  then obtain n2 where n2: "gd_sx gd = px + nx + n2" "gd_sx gd - px - nx = n2" by blast
  show "returns (grid_view_insert_cells gd px py nx) (\<lambda>gd'. view_ok gd' \<and> grid_keep gd gd' \<and>
      (\<forall>x y. x < gd_sx gd \<longrightarrow> y < gd_sy gd \<longrightarrow> view_glyph gd' x y =
        (if y \<noteq> py \<or> x < px \<or> gd_sx gd - nx \<le> x \<and> x < px + nx then view_glyph gd x y
         else if x < px + nx then (grid_default_cell, None) else view_glyph gd (x - nx) y)))"
  proof (rule returns_mono [OF grid_view_insert_cells_returns [OF assms(1,2) _ assms(4)]])
    fix gd' assume *: "view_result gd (\<lambda>x y. if y \<noteq> py then view_glyph gd x y
           else if px + 1 = gd_sx gd then (if x = px then (grid_default_cell, None) else view_glyph gd x y)
           else moved (px + nx) px (gd_sx gd - px - nx) (grid_default_cell, None) (\<lambda>x. view_glyph gd x y) x) gd'"
    have "moved (px + nx) px n2 (grid_default_cell, None) (\<lambda>x. view_glyph gd x py) x =
        (if x < px \<or> gd_sx gd - nx \<le> x \<and> x < px + nx then view_glyph gd x py
         else if x < px + nx then (grid_default_cell, None) else view_glyph gd (x - nx) py)"
      if "x < gd_sx gd" for x
      using that n2(1) by (auto simp: moved_def intro: arg_cong [where f = "\<lambda>x. view_glyph gd x py"])
    then show "view_ok gd' \<and> grid_keep gd gd' \<and>
      (\<forall>x y. x < gd_sx gd \<longrightarrow> y < gd_sy gd \<longrightarrow> view_glyph gd' x y =
        (if y \<noteq> py \<or> x < px \<or> gd_sx gd - nx \<le> x \<and> x < px + nx then view_glyph gd x y
         else if x < px + nx then (grid_default_cell, None) else view_glyph gd (x - nx) y))"
      using * assms(3) unfolding n2(2) by (simp add: view_result_def)
  qed (use assms(3) in simp)
qed

theorem grid_view_line_cells_witness:
  "returns (grid_view_insert_cells (grid_blank 10 2 10) 2 0 3)
    (\<lambda>gd'. view_glyph gd' 3 0 = (grid_default_cell, None))"
  using grid_view_line_cells [of "grid_blank 10 2 10" 2 3 0] view_blank_ok [of 10 2 10]
  by (auto elim!: returns_mono)

end
