(* ===== verification/Screen.thy ===== *)
theory Screen
  imports Grid_View
begin

text \<open>
  The virtual screen (\<open>struct screen\<close> of \<open>src/tmux.h\<close> and \<open>src/screen.c\<close>): a grid with a cursor, a
  scroll region, a mode word, tab stops and a selection. \<open>screen_ok\<close> is the invariant on which every
  writer of \<open>Screen_Write\<close> and the parser of \<open>Input\<close> rest. Strings are lists of bytes without the
  terminating NUL; \<open>scr_tabs\<close> is the bit string of \<open>bit_alloc\<close>, whole bytes long.
\<close>

unbundle bit_operations_syntax

abbreviation "MODE_CURSOR \<equiv> (0x1 :: c_flags)"
abbreviation "MODE_INSERT \<equiv> (0x2 :: c_flags)"
abbreviation "MODE_KCURSOR \<equiv> (0x4 :: c_flags)"
abbreviation "MODE_KKEYPAD \<equiv> (0x8 :: c_flags)"
abbreviation "MODE_WRAP \<equiv> (0x10 :: c_flags)"
abbreviation "MODE_MOUSE_STANDARD \<equiv> (0x20 :: c_flags)"
abbreviation "MODE_MOUSE_BUTTON \<equiv> (0x40 :: c_flags)"
abbreviation "MODE_MOUSE_ANY \<equiv> (0x80 :: c_flags)"
abbreviation "MODE_MOUSE_UTF8 \<equiv> (0x100 :: c_flags)"
abbreviation "MODE_BRACKETPASTE \<equiv> (0x200 :: c_flags)"
abbreviation "ALL_MOUSE_MODES \<equiv> (0xe0 :: c_flags)"

text \<open>The buffer of \<open>screen_set_title\<close> has the size \<open>BUFSIZ\<close> of \<open>stdio.h\<close>.\<close>

abbreviation BUFSIZ :: nat where "BUFSIZ \<equiv> 8192"

record screen_sel =
  sel_flag :: bool
  sel_rectflag :: bool
  sel_sx :: u_int
  sel_sy :: u_int
  sel_ex :: u_int
  sel_ey :: u_int
  sel_cell :: grid_cell

record screen =
  scr_title :: "u_char list"
  scr_grid :: grid
  scr_cx :: u_int
  scr_cy :: u_int
  scr_cstyle :: u_int
  scr_ccolour :: "u_char list"
  scr_rupper :: u_int
  scr_rlower :: u_int
  scr_mode :: c_flags
  scr_tabs :: "bool list"
  scr_sel :: screen_sel

abbreviation screen_size_x :: "screen \<Rightarrow> u_int" where
  "screen_size_x s \<equiv> gd_sx (scr_grid s)"

abbreviation screen_size_y :: "screen \<Rightarrow> u_int" where
  "screen_size_y s \<equiv> gd_sy (scr_grid s)"

section \<open>Operations\<close>

definition bitstr_size :: "u_int \<Rightarrow> u_int" where
  "bitstr_size nbits = u_sub nbits 1 div 8 + 1"

function tabs_set :: "u_int \<Rightarrow> u_int \<Rightarrow> bool list \<Rightarrow> bool list option" where
  "tabs_set i sx tabs =
     (if i < sx then put_at i True tabs \<bind> tabs_set (i + 8) sx else Some tabs)"
  by pat_completeness auto
termination
  by (relation "measure (\<lambda>(i, sx, tabs). sx - i)") auto

declare tabs_set.simps [simp del]

definition screen_reset_tabs :: "screen \<Rightarrow> screen option" where
  "screen_reset_tabs s = do {
     tabs \<leftarrow> tabs_set 8 (screen_size_x s) (replicate (8 * bitstr_size (screen_size_x s)) False);
     Some (s\<lparr>scr_tabs := tabs\<rparr>)
   }"

definition screen_clear_selection :: "screen \<Rightarrow> screen" where
  "screen_clear_selection s = s\<lparr>scr_sel := (scr_sel s)\<lparr>sel_flag := False\<rparr>\<rparr>"

definition screen_reinit :: "screen \<Rightarrow> screen option" where
  "screen_reinit s = do {
     let s = s\<lparr>scr_cx := 0, scr_cy := 0, scr_rupper := 0, scr_rlower := u_sub (screen_size_y s) 1,
               scr_mode := MODE_CURSOR OR MODE_WRAP\<rparr>;
     s \<leftarrow> screen_reset_tabs s;
     gd \<leftarrow> grid_clear_lines (scr_grid s) (gd_hsize (scr_grid s)) (gd_sy (scr_grid s));
     Some (screen_clear_selection (s\<lparr>scr_grid := gd\<rparr>))
   }"

text \<open>\<open>hn\<close> is the host name, \<open>None\<close> when \<open>gethostname\<close> fails. The selection is not initialised.\<close>

definition screen_init :: "u_char list option \<Rightarrow> u_int \<Rightarrow> u_int \<Rightarrow> u_int \<Rightarrow> screen option" where
  "screen_init hn sx sy hlimit = do {
     gd \<leftarrow> grid_create sx sy hlimit;
     screen_reinit \<lparr>scr_title = (case hn of Some h \<Rightarrow> h | None \<Rightarrow> []), scr_grid = gd,
       scr_cx = undefined, scr_cy = undefined, scr_cstyle = 0, scr_ccolour = [],
       scr_rupper = undefined, scr_rlower = undefined, scr_mode = undefined, scr_tabs = [],
       scr_sel = undefined\<rparr>
   }"

definition screen_set_cursor_style :: "screen \<Rightarrow> u_int \<Rightarrow> screen" where
  "screen_set_cursor_style s style = (if style \<le> 6 then s\<lparr>scr_cstyle := style\<rparr> else s)"

definition screen_set_cursor_colour :: "screen \<Rightarrow> u_char list \<Rightarrow> screen" where
  "screen_set_cursor_colour s colour_string = s\<lparr>scr_ccolour := colour_string\<rparr>"

definition screen_set_title :: "screen \<Rightarrow> u_char list \<Rightarrow> screen" where
  "screen_set_title s title = s\<lparr>scr_title := take (BUFSIZ - 1) title\<rparr>"

definition screen_resize_x :: "screen \<Rightarrow> u_int \<Rightarrow> screen option" where
  "screen_resize_x s sx =
     (if sx = 0 then None
      else let s = (if scr_cx s \<ge> sx then s\<lparr>scr_cx := u_sub sx 1\<rparr> else s)
        in Some (s\<lparr>scr_grid := (scr_grid s)\<lparr>gd_sx := sx\<rparr>\<rparr>))"

text \<open>Making the screen lower: lines go from the bottom first, then into the history or from the top.\<close>

definition screen_shrink_y :: "screen \<Rightarrow> u_int \<Rightarrow> screen option" where
  "screen_shrink_y s sy =
     (let oldy = screen_size_y s;
          needed = u_sub oldy sy;
          available = u_sub (u_sub oldy 1) (scr_cy s);
          available = (if available > 0 \<and> available > needed then needed else available)
      in do {
        gd \<leftarrow> (if available > 0
               then grid_view_delete_lines (scr_grid s) (u_sub oldy available) available
               else Some (scr_grid s));
        let needed = u_sub needed available;
        let available = scr_cy s;
        gd \<leftarrow> (if has_flag (gd_flags gd) GRID_HISTORY
               then Some (gd\<lparr>gd_hsize := u_add (gd_hsize gd) needed\<rparr>)
               else if needed > 0 \<and> available > 0
               then grid_view_delete_lines gd 0 (if available > needed then needed else available)
               else Some gd);
        Some (s\<lparr>scr_grid := gd, scr_cy := u_sub (scr_cy s) needed\<rparr>)
      })"

text \<open>How many lines can be pulled out of the history.\<close>

definition grow_available :: "grid \<Rightarrow> u_int \<Rightarrow> u_int" where
  "grow_available gd needed =
     (let available = gd_hsize gd
      in if has_flag (gd_flags gd) GRID_HISTORY \<and> available > 0
         then (if available > needed then needed else available) else 0)"

text \<open>Making it higher: lines come back from the history, then blank lines are added.\<close>

definition screen_grow_y :: "screen \<Rightarrow> u_int \<Rightarrow> u_int \<Rightarrow> screen option" where
  "screen_grow_y s oldy sy =
     (let gd = scr_grid s;
          needed = u_sub sy oldy;
          available = grow_available gd needed;
          s = (if available > 0
               then s\<lparr>scr_grid := gd\<lparr>gd_hsize := u_sub (gd_hsize gd) available\<rparr>,
                      scr_cy := u_add (scr_cy s) available\<rparr>
               else s);
          gd = scr_grid s;
          needed = u_sub needed available
      in do {
        lines \<leftarrow> for_upto (u_sub (u_add (gd_hsize gd) sy) needed) (u_add (gd_hsize gd) sy)
                   (\<lambda>i. put_at i grid_line_zero) (gd_linedata gd);
        Some (s\<lparr>scr_grid := gd\<lparr>gd_linedata := lines\<rparr>\<rparr>)
      })"

definition screen_resize_y :: "screen \<Rightarrow> u_int \<Rightarrow> screen option" where
  "screen_resize_y s sy =
     (if sy = 0 then None
      else let oldy = screen_size_y s
        in do {
          s \<leftarrow> (if sy < oldy then screen_shrink_y s sy else Some s);
          \<comment> \<open>resize line arrays\<close>
          let gd = scr_grid s;
          let s = s\<lparr>scr_grid := gd\<lparr>gd_linedata :=
                    realloc_list undefined (u_add (gd_hsize gd) sy) (gd_linedata gd)\<rparr>\<rparr>;
          s \<leftarrow> (if sy > oldy then screen_grow_y s oldy sy else Some s);
          \<comment> \<open>set the new size, and reset the scroll region\<close>
          let s = s\<lparr>scr_grid := (scr_grid s)\<lparr>gd_sy := sy\<rparr>\<rparr>;
          Some (s\<lparr>scr_rupper := 0, scr_rlower := u_sub (screen_size_y s) 1\<rparr>)
        })"

definition screen_resize :: "screen \<Rightarrow> u_int \<Rightarrow> u_int \<Rightarrow> screen option" where
  "screen_resize s sx sy =
     (let sx = (if sx < 1 then 1 else sx); sy = (if sy < 1 then 1 else sy)
      in do {
        s \<leftarrow> (if sx \<noteq> screen_size_x s then screen_resize_x s sx \<bind> screen_reset_tabs else Some s);
        if sy \<noteq> screen_size_y s then screen_resize_y s sy else Some s
      })"

definition screen_set_selection ::
  "screen \<Rightarrow> u_int \<Rightarrow> u_int \<Rightarrow> u_int \<Rightarrow> u_int \<Rightarrow> bool \<Rightarrow> grid_cell \<Rightarrow> screen" where
  "screen_set_selection s sx sy ex ey rectflag gc =
     s\<lparr>scr_sel := \<lparr>sel_flag = True, sel_rectflag = rectflag, sel_sx = sx, sel_sy = sy,
                   sel_ex = ex, sel_ey = ey, sel_cell = gc\<rparr>\<rparr>"

definition screen_check_selection :: "screen \<Rightarrow> u_int \<Rightarrow> u_int \<Rightarrow> bool" where
  "screen_check_selection s px py =
     (let sel = scr_sel s; sx = sel_sx sel; sy = sel_sy sel; ex = sel_ex sel; ey = sel_ey sel in
      if \<not> sel_flag sel then False
      else if sel_rectflag sel then
        if sy < ey \<and> (py < sy \<or> py > ey) then False
        else if \<not> sy < ey \<and> sy > ey \<and> (py > sy \<or> py < ey) then False
        else if \<not> sy < ey \<and> \<not> sy > ey \<and> py \<noteq> sy then False
        else if ex < sx then
          if px < ex then False else if px > sx then False else True
        else
          if px < sx then False else if px > ex then False else True
      else if sy < ey then
        if py < sy \<or> py > ey then False
        else if (py = sy \<and> px < sx) \<or> (py = ey \<and> px > ex) then False else True
      else if sy > ey then
        if py > sy \<or> py < ey then False
        else if (py = sy \<and> px \<ge> sx) \<or> (py = ey \<and> px < ex) then False else True
      else if py \<noteq> sy then False
      else if ex < sx then (if px > sx \<or> px < ex then False else True)
      else (if px < sx \<or> px > ex then False else True))"

section \<open>The invariant\<close>

text \<open>
  The cursor column is not bounded by the width: it is the width after a character in the last column,
  and \<open>screen_write_cursorright\<close> then moves it further to the right.
\<close>

definition screen_ok :: "screen \<Rightarrow> bool" where
  "screen_ok s \<longleftrightarrow> view_ok (scr_grid s) \<and> scr_cx s < UINT_MOD \<and> scr_cy s < screen_size_y s \<and>
     scr_rupper s \<le> scr_rlower s \<and> scr_rlower s < screen_size_y s \<and>
     (scr_rupper s < scr_rlower s \<or> screen_size_y s = 1) \<and>
     length (scr_tabs s) = 8 * bitstr_size (screen_size_x s) \<and>
     has_flag (scr_mode s) MODE_WRAP"

lemma screen_ok_bounds:
  assumes "screen_ok s"
  shows "0 < screen_size_x s" "0 < screen_size_y s" "screen_size_x s \<le> DIM_MAX" "screen_size_y s \<le> DIM_MAX"
    "scr_cx s < UINT_MOD" "scr_cy s < screen_size_y s" "scr_rupper s \<le> scr_rlower s"
    "scr_rlower s < screen_size_y s"
  using assms view_ok_grid [of "scr_grid s"] grid_ok_bounds [of "scr_grid s"] by (auto simp: screen_ok_def)

lemma bitstr_size_ge: "0 < n \<Longrightarrow> n \<le> DIM_MAX \<Longrightarrow> n \<le> 8 * bitstr_size n"
proof -
  assume n: "0 < n" "n \<le> DIM_MAX"
  then have "u_sub n 1 = n - 1" by simp
  moreover have "n - 1 < 8 * ((n - 1) div 8) + 8" using mult_div_mod_eq [of 8 "n - 1"] by linarith
  ultimately show ?thesis by (simp add: bitstr_size_def)
qed

text \<open>The stops that \<open>tabs_set\<close> adds: every eighth column from \<open>i\<close>.\<close>

definition tab_stop :: "u_int \<Rightarrow> u_int \<Rightarrow> u_int \<Rightarrow> bool" where
  "tab_stop i sx j \<longleftrightarrow> i \<le> j \<and> j < sx \<and> (j - i) mod 8 = 0"

lemma tab_stop_step: "i < sx \<Longrightarrow> tab_stop i sx j \<longleftrightarrow> j = i \<or> tab_stop (i + 8) sx j"
proof -
  assume i: "i < sx"
  show ?thesis
  proof (cases "i + 8 \<le> j")
    case True
    then obtain d where "j = i + 8 + d" by (metis le_Suc_ex)
    then show ?thesis by (simp add: tab_stop_def)
  next
    case False
    then have "j \<le> i \<or> (\<exists>d. j = i + d \<and> 0 < d \<and> d < 8)" by presburger
    then show ?thesis using i by (auto simp: tab_stop_def)
  qed
qed

lemma tabs_set_returns:
  "sx \<le> length tabs \<Longrightarrow> returns (tabs_set i sx tabs) (\<lambda>t. length t = length tabs \<and>
     (\<forall>j < length tabs. t ! j = (tabs ! j \<or> tab_stop i sx j)))"
proof (induction i sx tabs rule: tabs_set.induct)
  case (1 i sx tabs)
  show ?case
  proof (cases "i < sx")
    case True
    have "returns (tabs_set (i + 8) sx (tabs[i := True])) (\<lambda>t. length t = length tabs \<and>
        (\<forall>j < length tabs. t ! j = (tabs[i := True] ! j \<or> tab_stop (i + 8) sx j)))"
      using 1(1) [OF True, of "tabs[i := True]"] True 1(2) by simp
    then have "returns (tabs_set (i + 8) sx (tabs[i := True])) (\<lambda>t. length t = length tabs \<and>
        (\<forall>j < length tabs. t ! j = (tabs ! j \<or> tab_stop i sx j)))"
      by (rule returns_mono) (use True 1(2) in \<open>auto simp: nth_list_update tab_stop_step [OF True]\<close>)
    then show ?thesis using True 1(2) by (subst tabs_set.simps) simp
  next
    case False
    then show ?thesis by (subst tabs_set.simps) (auto simp: tab_stop_def)
  qed
qed

lemma screen_reset_tabs_returns:
  assumes "0 < screen_size_x s" and "screen_size_x s \<le> DIM_MAX"
  shows "returns (screen_reset_tabs s) (\<lambda>s'. \<exists>tabs. s' = s\<lparr>scr_tabs := tabs\<rparr> \<and>
    length tabs = 8 * bitstr_size (screen_size_x s) \<and>
    (\<forall>j < screen_size_x s. tabs ! j = (0 < j \<and> j mod 8 = 0)))"
proof -
  have le: "screen_size_x s \<le> 8 * bitstr_size (screen_size_x s)" using bitstr_size_ge assms by blast
  have "tab_stop 8 n j \<longleftrightarrow> 0 < j \<and> j mod 8 = 0" if "j < n" for j n
  proof (cases "8 \<le> j")
    case True
    then show ?thesis using that by (simp add: tab_stop_def le_mod_geq)
  next
    case False
    then show ?thesis by (auto simp: tab_stop_def)
  qed
  then show ?thesis unfolding screen_reset_tabs_def returns_bind
    by (intro returns_mono [OF tabs_set_returns]) (use le in auto)
qed

section \<open>Initialisation and sizes\<close>

lemma screen_reinit_returns:
  assumes "view_ok (scr_grid s)"
  shows "returns (screen_reinit s) (\<lambda>s'. screen_ok s' \<and> grid_keep (scr_grid s) (scr_grid s') \<and>
    scr_cx s' = 0 \<and> scr_cy s' = 0 \<and>
    (\<forall>x y. y < screen_size_y s \<longrightarrow> view_glyph (scr_grid s') x y = (grid_default_cell, None)))"
proof -
  let ?gd = "scr_grid s"
  let ?s = "s\<lparr>scr_cx := 0, scr_cy := 0, scr_rupper := 0, scr_rlower := u_sub (screen_size_y s) 1,
               scr_mode := MODE_CURSOR OR MODE_WRAP\<rparr>"
  have gok: "grid_ok ?gd" using assms by (rule view_ok_grid)
  note b = grid_ok_bounds [OF gok]
  obtain tabs where tabs: "screen_reset_tabs ?s = Some (?s\<lparr>scr_tabs := tabs\<rparr>)"
    "length tabs = 8 * bitstr_size (screen_size_x s)"
    using screen_reset_tabs_returns [of ?s] b(3,5) by (auto simp: returns_eq)
  obtain gd' where gd': "grid_clear_lines ?gd (gd_hsize ?gd) (gd_sy ?gd) = Some gd'"
    "grid_result ?gd (\<lambda>x y. if gd_hsize ?gd \<le> y \<and> y < grid_total ?gd \<and> grid_total ?gd \<le> grid_total ?gd
      then (grid_default_cell, None) else grid_glyph ?gd x y) gd'"
    using grid_clear_lines_returns [OF gok, of "gd_hsize ?gd" "gd_sy ?gd"] b(1) by (auto simp: returns_eq)
  have k: "grid_ok gd'" "grid_same ?gd gd'" "grid_keep ?gd gd'" "gd_hsize gd' = gd_hsize ?gd"
    using grid_result_ok [OF gd'(2)] by (auto simp: grid_same_keep) (simp add: grid_same_def)
  have "view_ok gd'" using view_ok_keep [OF assms k(1,3)] .
  moreover have "gd_sx gd' = gd_sx ?gd" "gd_sy gd' = gd_sy ?gd" using k(3) by (auto simp: grid_keep_def)
  moreover have "u_sub (gd_sy ?gd) 1 = gd_sy ?gd - 1" using b(4,6) by simp
  moreover have "has_flag (MODE_CURSOR OR MODE_WRAP) MODE_WRAP" by (simp add: has_flag_def)
  ultimately show ?thesis using tabs gd' k b(4)
    by (auto simp: screen_reinit_def screen_clear_selection_def screen_ok_def view_glyph_def grid_result_def)
qed

lemma screen_init_returns:
  assumes "0 < sx" "sx \<le> DIM_MAX" "0 < sy" "sy \<le> DIM_MAX" "0 < hlimit" "hlimit \<le> INT_MAX"
  shows "returns (screen_init hn sx sy hlimit) (\<lambda>s. screen_ok s \<and> screen_size_x s = sx \<and> screen_size_y s = sy)"
  unfolding screen_init_def grid_create_blank [OF assms(3)] Option.bind.bind_lunit
  by (rule returns_mono [OF screen_reinit_returns]) (use view_blank_ok [OF assms] in \<open>auto simp: grid_keep_def\<close>)

text \<open>The window of a grid after its history size and its height have been changed.\<close>

definition grid_window :: "grid \<Rightarrow> u_int \<Rightarrow> u_int \<Rightarrow> grid_line list \<Rightarrow> grid" where
  "grid_window gd h sy lines = gd\<lparr>gd_hsize := h, gd_linedata := lines, gd_sy := sy\<rparr>"

lemma grid_window_ok:
  assumes "view_ok gd" and "0 < sy" and "sy \<le> DIM_MAX" and "h + sy \<le> length lines"
    and "h \<le> gd_hlimit gd + DIM_MAX"
    and "has_flag (gd_flags gd) GRID_HISTORY \<Longrightarrow> h + sy \<le> gd_hlimit gd + DIM_MAX"
    and "\<And>y. y < h + sy \<Longrightarrow> line_ok (lines ! y)"
  shows "view_ok (grid_window gd h sy lines)"
  using assms by (auto simp: view_ok_def grid_ok_def grid_window_def)

text \<open>
  What a change of height to \<open>sy\<close> does to the screen \<open>s\<close>: every row that is visible before and after
  keeps its cells and its distance from the cursor.
\<close>

definition resized_y :: "screen \<Rightarrow> u_int \<Rightarrow> grid \<Rightarrow> u_int \<Rightarrow> bool" where
  "resized_y s sy gd' cy' \<longleftrightarrow> view_ok gd' \<and> gd_sx gd' = screen_size_x s \<and> gd_sy gd' = sy \<and>
     gd_flags gd' = gd_flags (scr_grid s) \<and> gd_hlimit gd' = gd_hlimit (scr_grid s) \<and> cy' < sy \<and>
     (\<forall>x y. x < screen_size_x s \<longrightarrow> y < sy \<longrightarrow> cy' \<le> y + scr_cy s \<longrightarrow>
        y + scr_cy s - cy' < screen_size_y s \<longrightarrow>
        view_glyph gd' x y = view_glyph (scr_grid s) x (y + scr_cy s - cy'))"

lemma resized_yI:
  assumes "view_ok gd'" and "gd_sx gd' = screen_size_x s" and "gd_sy gd' = sy"
    and "gd_flags gd' = gd_flags (scr_grid s)" and "gd_hlimit gd' = gd_hlimit (scr_grid s)"
    and "n \<le> scr_cy s" and "scr_cy s - n < sy"
    and "\<And>x y. x < screen_size_x s \<Longrightarrow> y < sy \<Longrightarrow> view_glyph gd' x y = view_glyph (scr_grid s) x (y + n)"
  shows "resized_y s sy gd' (scr_cy s - n)"
proof -
  have "y + scr_cy s - (scr_cy s - n) = y + n" for y using assms(6) by simp
  then show ?thesis using assms by (simp add: resized_y_def)
qed

definition shrunk :: "grid \<Rightarrow> u_int \<Rightarrow> grid" where
  "shrunk gd sy = grid_window gd (gd_hsize gd) sy (realloc_list undefined (gd_hsize gd + sy) (gd_linedata gd))"

lemma shrunk_simps [simp]:
  "gd_sx (shrunk gd sy) = gd_sx gd" "gd_sy (shrunk gd sy) = sy" "gd_flags (shrunk gd sy) = gd_flags gd"
  "gd_hlimit (shrunk gd sy) = gd_hlimit gd" "gd_hsize (shrunk gd sy) = gd_hsize gd"
  by (simp_all add: shrunk_def grid_window_def)

lemma shrunk_ok:
  assumes "view_ok gd" and "0 < sy" and "sy \<le> gd_sy gd"
  shows "view_ok (shrunk gd sy)" and "y < sy \<Longrightarrow> view_glyph (shrunk gd sy) x y = view_glyph gd x y"
proof -
  have gok: "grid_ok gd" using assms(1) by (rule view_ok_grid)
  have len: "grid_total gd \<le> length (gd_linedata gd)" using grid_ok_bounds(2) [OF gok] .
  have "line_ok (realloc_list undefined (gd_hsize gd + sy) (gd_linedata gd) ! y)" if "y < gd_hsize gd + sy" for y
    using that assms(3) len grid_ok_line [OF gok, of y] by (simp add: nth_realloc_list)
  then show "view_ok (shrunk gd sy)" unfolding shrunk_def
    by (intro grid_window_ok) (use assms gok grid_ok_bounds(6) [OF gok] in \<open>auto simp: grid_ok_def\<close>)
  show "view_glyph (shrunk gd sy) x y = view_glyph gd x y" if "y < sy"
    using that assms(3) len by (simp add: shrunk_def grid_window_def view_glyph_def grid_glyph_def nth_realloc_list)
qed

text \<open>Taking \<open>n\<close> lines from the top of the view into the history.\<close>

lemma push_history_ok:
  assumes "view_ok gd" and "n < gd_sy gd" and "has_flag (gd_flags gd) GRID_HISTORY"
  shows "view_ok (gd\<lparr>gd_hsize := gd_hsize gd + n, gd_sy := gd_sy gd - n\<rparr>)"
  using assms by (auto simp: view_ok_def grid_ok_def)

lemma screen_shrink_y_returns:
  assumes ok: "screen_ok s" and sy: "0 < sy" "sy < screen_size_y s"
  shows "returns (screen_shrink_y s sy) (\<lambda>s'. \<exists>gd cy. s' = s\<lparr>scr_grid := gd, scr_cy := cy\<rparr> \<and>
    gd_sy gd = screen_size_y s \<and> u_add (gd_hsize gd) sy = gd_hsize gd + sy \<and>
    resized_y s sy (shrunk gd sy) cy)"
proof -
  let ?gd = "scr_grid s" and ?old = "screen_size_y s" and ?cy = "scr_cy s"
  note b = screen_ok_bounds [OF ok]
  have vok: "view_ok ?gd" using ok by (simp add: screen_ok_def)
  define a where "a = min (?old - 1 - ?cy) (?old - sy)"
  define n where "n = ?old - sy - a"
  have a: "a \<le> ?old" "sy + a + n = ?old" "n \<le> ?cy" "?cy - n < sy" "a + ?cy < ?old"
    using b sy by (auto simp: a_def n_def min_def)
  have u: "u_sub ?old sy = ?old - sy" "u_sub (u_sub ?old 1) ?cy = ?old - 1 - ?cy"
    "u_sub ?old a = ?old - a" "u_sub (?old - sy) a = n" "u_sub ?cy n = ?cy - n"
    using a b sy by (simp_all add: n_def)
  have av: "(if ?old - 1 - ?cy > 0 \<and> ?old - 1 - ?cy > ?old - sy then ?old - sy else ?old - 1 - ?cy) = a"
    using b sy by (auto simp: a_def)
  have "returns (if a > 0 then grid_view_delete_lines ?gd (?old - a) a else Some ?gd)
    (view_result ?gd (\<lambda>x y. if y + a < ?old then view_glyph ?gd x y else (grid_default_cell, None)))"
  proof (cases "a = 0")
    case False
    have "returns (grid_view_delete_lines ?gd (?old - a) a) (view_result ?gd
      (\<lambda>x y. if ?old - a \<le> y \<and> y + a < ?old then view_glyph ?gd x (y + a)
           else if ?old \<le> y + a \<and> y < ?old \<and> ?old - a \<le> y then (grid_default_cell, None)
           else view_glyph ?gd x y))"
      by (rule grid_view_delete_lines_returns [OF vok]) (use a in simp)
    then show ?thesis using a False by (auto simp: view_result_def elim!: returns_mono)
  qed (use vok in \<open>simp add: view_result_def\<close>)
  then obtain gd1 where gd1: "(if a > 0 then grid_view_delete_lines ?gd (?old - a) a else Some ?gd) = Some gd1"
    and r1: "view_result ?gd (\<lambda>x y. if y + a < ?old then view_glyph ?gd x y else (grid_default_cell, None)) gd1"
    by (auto simp: returns_eq)
  have k1: "view_ok gd1" "gd_sy gd1 = ?old" "gd_sx gd1 = gd_sx ?gd" "gd_flags gd1 = gd_flags ?gd"
    "gd_hlimit gd1 = gd_hlimit ?gd" using view_result_ok [OF r1] by (auto simp: grid_keep_def)
  have b1: "gd_hsize gd1 + ?old < UINT_MOD" using grid_ok_bounds(1) [OF view_ok_grid [OF k1(1)]] k1(2) by simp
  show ?thesis
  proof (cases "has_flag (gd_flags gd1) GRID_HISTORY")
    case True
    let ?g = "gd1\<lparr>gd_hsize := gd_hsize gd1 + n, gd_sy := gd_sy gd1 - n\<rparr>"
    have g: "view_ok ?g" using push_history_ok [OF k1(1) _ True, of n] a k1(2) sy by simp
    have sh: "shrunk (gd1\<lparr>gd_hsize := gd_hsize gd1 + n\<rparr>) sy = shrunk ?g sy"
      by (simp add: shrunk_def grid_window_def)
    have "view_glyph ?g x y = view_glyph gd1 x (y + n)" for x y
      by (simp add: view_glyph_def grid_glyph_def ac_simps)
    moreover have le: "sy \<le> gd_sy ?g" using a(2) k1(2) by simp
    ultimately have eq: "view_glyph (shrunk ?g sy) x y = view_glyph ?gd x (y + n)"
      if "x < screen_size_x s" "y < sy" for x y
      using shrunk_ok(2) [OF g sy(1) le that(2)] r1 that a(2) by (simp add: view_result_def)
    have "resized_y s sy (shrunk (gd1\<lparr>gd_hsize := gd_hsize gd1 + n\<rparr>) sy) (?cy - n)"
      unfolding sh using shrunk_ok(1) [OF g sy(1) le] a(3,4) k1(3,4,5) eq
      by (intro resized_yI) simp_all
    moreover have "u_add (gd_hsize gd1) n = gd_hsize gd1 + n" "u_add (gd_hsize gd1 + n) sy = gd_hsize gd1 + n + sy"
      using b1 a by simp_all
    moreover from this have "screen_shrink_y s sy =
        Some (s\<lparr>scr_grid := gd1\<lparr>gd_hsize := gd_hsize gd1 + n\<rparr>, scr_cy := ?cy - n\<rparr>)"
      unfolding screen_shrink_y_def Let_def u av gd1 Option.bind.bind_lunit using True by simp
    ultimately show ?thesis unfolding \<open>screen_shrink_y s sy = _\<close> returns_Some
      by (intro exI conjI) (rule refl, use k1(2) in simp_all)
  next
    case False
    have cy: "n > 0 \<Longrightarrow> (if ?cy > n then n else ?cy) = n" using a by auto
    have "returns (if n > 0 \<and> ?cy > 0 then grid_view_delete_lines gd1 0 (if ?cy > n then n else ?cy) else Some gd1)
      (view_result gd1 (\<lambda>x y. if y + n < ?old then view_glyph gd1 x (y + n) else (grid_default_cell, None)))"
    proof (cases "n = 0")
      case False
      have "returns (grid_view_delete_lines gd1 0 n) (view_result gd1
        (\<lambda>x y. if 0 \<le> y \<and> y + n < gd_sy gd1 then view_glyph gd1 x (y + n)
           else if gd_sy gd1 \<le> y + n \<and> y < gd_sy gd1 \<and> 0 \<le> y then (grid_default_cell, None)
           else view_glyph gd1 x y))"
        by (rule grid_view_delete_lines_returns [OF k1(1)]) (use a k1(2) in simp)
      then show ?thesis using a False k1(2) cy by (auto simp: view_result_def elim!: returns_mono)
    qed (use k1 in \<open>simp add: view_result_def\<close>)
    then obtain gd2 where gd2: "(if n > 0 \<and> ?cy > 0 then grid_view_delete_lines gd1 0
        (if ?cy > n then n else ?cy) else Some gd1) = Some gd2"
      and r2: "view_result gd1 (\<lambda>x y. if y + n < ?old then view_glyph gd1 x (y + n) else (grid_default_cell, None)) gd2"
      by (auto simp: returns_eq)
    have k2: "view_ok gd2" "gd_sy gd2 = ?old" "gd_sx gd2 = gd_sx ?gd" "gd_flags gd2 = gd_flags ?gd"
      "gd_hlimit gd2 = gd_hlimit ?gd" using view_result_ok [OF r2] k1 by (auto simp: grid_keep_def)
    have bd: "gd_hsize gd2 + sy < UINT_MOD" using grid_ok_bounds(1) [OF view_ok_grid [OF k2(1)]] k2(2) sy by simp
    have eq: "view_glyph (shrunk gd2 sy) x y = view_glyph ?gd x (y + n)"
      if "x < screen_size_x s" "y < sy" for x y
      using shrunk_ok(2) [OF k2(1) sy(1) _ that(2)] r1 r2 that a(2) k1 k2(2) by (simp add: view_result_def)
    have "u_add (gd_hsize gd2) sy = gd_hsize gd2 + sy" using bd by simp
    moreover have "resized_y s sy (shrunk gd2 sy) (?cy - n)"
      using shrunk_ok(1) [OF k2(1) sy(1)] a(3,4) k2 sy(2) eq
      by (intro resized_yI) simp_all
    moreover from gd2 False have "screen_shrink_y s sy = Some (s\<lparr>scr_grid := gd2, scr_cy := ?cy - n\<rparr>)"
      unfolding screen_shrink_y_def Let_def u av gd1 Option.bind.bind_lunit by simp
    ultimately show ?thesis unfolding \<open>screen_shrink_y s sy = _\<close> returns_Some
      by (intro exI conjI) (rule refl, use k2(2) in simp_all)
  qed
qed

lemma screen_grow_y_returns:
  assumes ok: "screen_ok s" and sy: "screen_size_y s < sy" "sy \<le> DIM_MAX"
  defines "gd \<equiv> scr_grid s"
  defines "ls \<equiv> realloc_list undefined (gd_hsize gd + sy) (gd_linedata gd)"
  shows "returns (screen_grow_y (s\<lparr>scr_grid := gd\<lparr>gd_linedata := ls\<rparr>\<rparr>) (screen_size_y s) sy)
    (\<lambda>s'. \<exists>gd' cy. s' = s\<lparr>scr_grid := gd', scr_cy := cy\<rparr> \<and> resized_y s sy (gd'\<lparr>gd_sy := sy\<rparr>) cy)"
proof -
  let ?old = "screen_size_y s" and ?h = "gd_hsize gd"
  note b = screen_ok_bounds [OF ok]
  have vok: "view_ok gd" using ok by (simp add: screen_ok_def gd_def)
  note gb = grid_ok_bounds [OF view_ok_grid [OF vok]]
  define a where "a = (if has_flag (gd_flags gd) GRID_HISTORY then min ?h (sy - ?old) else 0)"
  define lines where "lines = fill_list (?h + ?old) (?h - a + sy) grid_line_zero ls"
  let ?W = "grid_window gd (?h - a) sy lines"
  have a: "a \<le> ?h" "a + ?old \<le> sy" using sy by (auto simp: a_def min_def)
  have old: "?old = gd_sy gd" by (simp add: gd_def)
  have bound: "?h + sy < UINT_MOD"
    using gb(6) sy(2) vok by (simp add: view_ok_def grid_ok_def)
  have u: "u_sub sy ?old = sy - ?old" "u_sub ?h a = ?h - a" "u_add (scr_cy s) a = scr_cy s + a"
    "u_sub (sy - ?old) a = sy - ?old - a" "u_add (?h - a) sy = ?h - a + sy"
    "u_sub (?h - a + sy) (sy - ?old - a) = ?h + ?old"
    using a bound b(6) sy by auto
  have av: "grow_available (gd\<lparr>gd_linedata := ls\<rparr>) (sy - ?old) = a"
    by (auto simp: grow_available_def a_def min_def Let_def)
  have loop: "for_upto (?h + ?old) (?h - a + sy) (\<lambda>i. put_at i grid_line_zero) ls = Some lines"
    unfolding lines_def by (rule for_upto_put_at) (use a in \<open>simp add: ls_def\<close>)
  have run: "screen_grow_y (s\<lparr>scr_grid := gd\<lparr>gd_linedata := ls\<rparr>\<rparr>) ?old sy =
      Some (s\<lparr>scr_grid := gd\<lparr>gd_linedata := lines, gd_hsize := ?h - a\<rparr>, scr_cy := scr_cy s + a\<rparr>)"
    using u loop a by (cases "a = 0") (simp_all add: screen_grow_y_def Let_def av)
  have ln: "lines ! y = (if y < ?h + ?old then gd_linedata gd ! y else grid_line_zero)" if "y < ?h - a + sy" for y
    using that gb(2) a by (auto simp: lines_def ls_def nth_realloc_list old)
  have "view_ok ?W"
  proof (rule grid_window_ok [OF vok])
    show "has_flag (gd_flags gd) GRID_HISTORY \<Longrightarrow> ?h - a + sy \<le> gd_hlimit gd + DIM_MAX"
      using vok sy a by (auto simp: a_def min_def view_ok_def grid_ok_def old)
    show "line_ok (lines ! y)" if "y < ?h - a + sy" for y
      using ln [OF that] grid_ok_line [OF view_ok_grid [OF vok], of y] by (simp add: old)
  qed (use sy vok in \<open>auto simp: lines_def ls_def view_ok_def grid_ok_def\<close>)
  moreover have "view_glyph ?W x y = view_glyph gd x (y + scr_cy s - (scr_cy s + a))"
    if "y < sy" "scr_cy s + a \<le> y + scr_cy s" "y + scr_cy s - (scr_cy s + a) < ?old" for x y
  proof -
    have y: "?h - a + y < ?h - a + sy" "?h - a + y < ?h + ?old" "?h - a + y = ?h + (y - a)"
      "y + scr_cy s - (scr_cy s + a) = y - a"
      using that a by linarith+
    show ?thesis using ln [OF y(1)] y(2)
      unfolding y(4) by (simp add: view_glyph_def grid_glyph_def grid_window_def y(3))
  qed
  ultimately have "resized_y s sy ?W (scr_cy s + a)"
    using a b(6) by (simp add: resized_y_def grid_window_def gd_def)
  moreover have "gd\<lparr>gd_linedata := lines, gd_hsize := ?h - a\<rparr>\<lparr>gd_sy := sy\<rparr> = ?W"
    by (simp add: grid_window_def)
  ultimately show ?thesis unfolding run returns_Some by (intro exI conjI) (rule refl, simp)
qed

lemma screen_resize_y_returns:
  assumes ok: "screen_ok s" and sy: "0 < sy" "sy \<le> DIM_MAX" "sy \<noteq> screen_size_y s"
  shows "returns (screen_resize_y s sy) (\<lambda>s'. screen_ok s' \<and> scr_cx s' = scr_cx s \<and>
    scr_rupper s' = 0 \<and> scr_rlower s' = sy - 1 \<and> resized_y s sy (scr_grid s') (scr_cy s'))"
proof -
  note b = screen_ok_bounds [OF ok]
  have fin: "screen_ok s' \<and> scr_cx s' = scr_cx s \<and> scr_rupper s' = 0 \<and> scr_rlower s' = sy - 1 \<and>
      resized_y s sy (scr_grid s') (scr_cy s')"
    if "s' = s\<lparr>scr_grid := gd, scr_cy := cy, scr_rupper := 0, scr_rlower := u_sub (gd_sy gd) 1\<rparr>"
      "resized_y s sy gd cy" for s' gd cy
    using that ok sy by (auto simp: screen_ok_def resized_y_def)
  show ?thesis
  proof (cases "sy < screen_size_y s")
    case True
    obtain gd cy where s1: "screen_shrink_y s sy = Some (s\<lparr>scr_grid := gd, scr_cy := cy\<rparr>)"
      "u_add (gd_hsize gd) sy = gd_hsize gd + sy" "resized_y s sy (shrunk gd sy) cy"
      using screen_shrink_y_returns [OF ok sy(1) True] by (auto simp: returns_eq)
    have run: "screen_resize_y s sy = Some (s\<lparr>scr_grid := shrunk gd sy, scr_cy := cy, scr_rupper := 0,
        scr_rlower := u_sub (gd_sy (shrunk gd sy)) 1\<rparr>)"
      using True sy(1) s1(1,2) by (simp add: screen_resize_y_def Let_def shrunk_def grid_window_def)
    show ?thesis unfolding run returns_Some by (rule fin [OF refl s1(3)])
  next
    case False
    let ?gd = "scr_grid s"
    let ?ls = "realloc_list undefined (gd_hsize ?gd + sy) (gd_linedata ?gd)"
    have u: "u_add (gd_hsize ?gd) sy = gd_hsize ?gd + sy"
      using ok sy(2) by (simp add: screen_ok_def view_ok_def grid_ok_def)
    obtain gd cy where s1: "screen_grow_y (s\<lparr>scr_grid := ?gd\<lparr>gd_linedata := ?ls\<rparr>\<rparr>) (screen_size_y s) sy =
        Some (s\<lparr>scr_grid := gd, scr_cy := cy\<rparr>)" "resized_y s sy (gd\<lparr>gd_sy := sy\<rparr>) cy"
      using screen_grow_y_returns [OF ok _ sy(2)] False sy(3) by (auto simp: returns_eq)
    have run: "screen_resize_y s sy = Some (s\<lparr>scr_grid := gd\<lparr>gd_sy := sy\<rparr>, scr_cy := cy, scr_rupper := 0,
        scr_rlower := u_sub (gd_sy (gd\<lparr>gd_sy := sy\<rparr>)) 1\<rparr>)"
      using False sy(1,3) s1(1) u by (simp add: screen_resize_y_def Let_def)
    show ?thesis unfolding run returns_Some by (rule fin [OF refl s1(2)])
  qed
qed

lemma screen_resize_x_returns:
  assumes ok: "screen_ok s" and sx: "0 < sx" "sx \<le> DIM_MAX"
  shows "returns (screen_resize_x s sx \<bind> screen_reset_tabs) (\<lambda>s'. screen_ok s' \<and>
    (\<exists>tabs. s' = s\<lparr>scr_cx := (if scr_cx s \<ge> sx then sx - 1 else scr_cx s),
      scr_grid := (scr_grid s)\<lparr>gd_sx := sx\<rparr>, scr_tabs := tabs\<rparr>))"
proof -
  let ?s = "s\<lparr>scr_cx := (if scr_cx s \<ge> sx then sx - 1 else scr_cx s),
      scr_grid := (scr_grid s)\<lparr>gd_sx := sx\<rparr>\<rparr>"
  have "screen_resize_x s sx = Some ?s" using sx by (simp add: screen_resize_x_def Let_def)
  moreover have "view_ok ((scr_grid s)\<lparr>gd_sx := sx\<rparr>)"
    using ok sx by (simp add: screen_ok_def view_ok_def grid_ok_def)
  ultimately show ?thesis using ok sx screen_reset_tabs_returns [of ?s]
    by (auto simp: screen_ok_def elim!: returns_mono)
qed

lemma screen_resize_returns:
  assumes "screen_ok s" and "sx \<le> DIM_MAX" and "sy \<le> DIM_MAX"
  shows "returns (screen_resize s sx sy) (\<lambda>s'. screen_ok s' \<and>
    screen_size_x s' = max 1 sx \<and> screen_size_y s' = max 1 sy \<and> scr_cx s' \<le> scr_cx s \<and>
    gd_flags (scr_grid s') = gd_flags (scr_grid s) \<and> gd_hlimit (scr_grid s') = gd_hlimit (scr_grid s) \<and>
    (\<forall>x y. x < screen_size_x s' \<longrightarrow> y < screen_size_y s' \<longrightarrow> scr_cy s' \<le> y + scr_cy s \<longrightarrow>
      y + scr_cy s - scr_cy s' < screen_size_y s \<longrightarrow>
      view_glyph (scr_grid s') x y = view_glyph (scr_grid s) x (y + scr_cy s - scr_cy s')))"
proof -
  let ?sx = "max 1 sx" and ?sy = "max 1 sy"
  have m: "(if sx < 1 then 1 else sx) = ?sx" "(if sy < 1 then 1 else sy) = ?sy" by auto
  have d: "0 < ?sx" "?sx \<le> DIM_MAX" "0 < ?sy" "?sy \<le> DIM_MAX" using assms by auto
  have "returns (if ?sx \<noteq> screen_size_x s then screen_resize_x s ?sx \<bind> screen_reset_tabs else Some s)
    (\<lambda>s1. screen_ok s1 \<and> screen_size_x s1 = ?sx \<and> screen_size_y s1 = screen_size_y s \<and>
      scr_cx s1 \<le> scr_cx s \<and> scr_cy s1 = scr_cy s \<and>
      gd_flags (scr_grid s1) = gd_flags (scr_grid s) \<and> gd_hlimit (scr_grid s1) = gd_hlimit (scr_grid s) \<and>
      (\<forall>x y. view_glyph (scr_grid s1) x y = view_glyph (scr_grid s) x y))"
    using screen_resize_x_returns [OF assms(1) d(1,2)] assms(1)
    by (auto simp: view_glyph_def grid_glyph_def elim!: returns_mono)
  then show ?thesis unfolding screen_resize_def Let_def m returns_bind
  proof (rule returns_mono)
    fix s1 assume 1: "screen_ok s1 \<and> screen_size_x s1 = ?sx \<and> screen_size_y s1 = screen_size_y s \<and>
      scr_cx s1 \<le> scr_cx s \<and> scr_cy s1 = scr_cy s \<and>
      gd_flags (scr_grid s1) = gd_flags (scr_grid s) \<and> gd_hlimit (scr_grid s1) = gd_hlimit (scr_grid s) \<and>
      (\<forall>x y. view_glyph (scr_grid s1) x y = view_glyph (scr_grid s) x y)"
    show "returns (if ?sy \<noteq> screen_size_y s1 then screen_resize_y s1 ?sy else Some s1) (\<lambda>s'. screen_ok s' \<and>
      screen_size_x s' = ?sx \<and> screen_size_y s' = ?sy \<and> scr_cx s' \<le> scr_cx s \<and>
      gd_flags (scr_grid s') = gd_flags (scr_grid s) \<and> gd_hlimit (scr_grid s') = gd_hlimit (scr_grid s) \<and>
      (\<forall>x y. x < screen_size_x s' \<longrightarrow> y < screen_size_y s' \<longrightarrow> scr_cy s' \<le> y + scr_cy s \<longrightarrow>
        y + scr_cy s - scr_cy s' < screen_size_y s \<longrightarrow>
        view_glyph (scr_grid s') x y = view_glyph (scr_grid s) x (y + scr_cy s - scr_cy s')))"
      using 1 screen_resize_y_returns [OF _ d(3,4), of s1]
      by (auto simp: resized_y_def elim!: returns_mono)
  qed
qed

text \<open>
  A terminal's size is a pair of \<open>u_short\<close>; any sequence of resizes of a screen is safe.
\<close>

definition screen_winsize :: "16 word \<times> 16 word \<Rightarrow> screen \<Rightarrow> screen option" where
  "screen_winsize ws s = screen_resize s (unat (fst ws)) (unat (snd ws))"

interpretation resizes: guarded_ops screen_ok
    "\<lambda>s s'. gd_flags (scr_grid s') = gd_flags (scr_grid s) \<and> gd_hlimit (scr_grid s') = gd_hlimit (scr_grid s)"
    screen_winsize
proof
  fix s :: screen and op :: "16 word \<times> 16 word"
  assume "screen_ok s"
  moreover have "unat (fst op) \<le> DIM_MAX" "unat (snd op) \<le> DIM_MAX"
    using unsigned_less [of "fst op", where ?'a = nat] unsigned_less [of "snd op", where ?'a = nat] by simp_all
  ultimately show "returns (screen_winsize op s) (\<lambda>s'. screen_ok s' \<and>
      gd_flags (scr_grid s') = gd_flags (scr_grid s) \<and> gd_hlimit (scr_grid s') = gd_hlimit (scr_grid s))"
    unfolding screen_winsize_def by (rule returns_mono [OF screen_resize_returns]) simp
qed auto

section \<open>Properties\<close>

text \<open>
  C16. Resizing never dies and keeps the invariant for every size a terminal can have: the new size is
  the one asked for (at least 1), the cursor stays on the screen and on its line, and every row
  that is visible before and after keeps its cells at the same distance from the cursor, whether rows
  go into or come out of the history or not.
\<close>

theorem screen_resize_spec:
  assumes "screen_ok s" and "sx \<le> DIM_MAX" and "sy \<le> DIM_MAX"
  shows "returns (screen_resize s sx sy) (\<lambda>s'. screen_ok s' \<and>
    screen_size_x s' = max 1 sx \<and> screen_size_y s' = max 1 sy \<and> scr_cx s' \<le> scr_cx s \<and>
    (\<forall>x y. x < screen_size_x s' \<longrightarrow> y < screen_size_y s' \<longrightarrow> scr_cy s' \<le> y + scr_cy s \<longrightarrow>
      y + scr_cy s - scr_cy s' < screen_size_y s \<longrightarrow>
      view_glyph (scr_grid s') x y = view_glyph (scr_grid s) x (y + scr_cy s - scr_cy s')))"
  by (rule returns_mono [OF screen_resize_returns [OF assms]]) simp

lemma screen_init_ok:
  "returns (screen_init None 80 24 2000) (\<lambda>s. screen_ok s \<and> screen_size_y s = 24)"
  by (rule returns_mono [OF screen_init_returns]) auto

theorem screen_resize_spec_witness:
  "returns (screen_init None 80 24 2000 \<bind> (\<lambda>s. screen_resize s 132 10))
    (\<lambda>s'. screen_ok s' \<and> screen_size_x s' = 132 \<and> screen_size_y s' = 10)"
  unfolding returns_bind
proof (rule returns_mono [OF screen_init_ok])
  fix s assume "screen_ok s \<and> screen_size_y s = 24"
  then show "returns (screen_resize s 132 10)
      (\<lambda>s'. screen_ok s' \<and> screen_size_x s' = 132 \<and> screen_size_y s' = 10)"
    using screen_resize_spec [of s 132 10] by (auto elim!: returns_mono)
qed

text \<open>
  C31. \<open>screen_check_selection\<close> on a rectangle selection is membership in the rectangle, whatever corner
  the selection started at. On a line selection made downwards it is the reading-order interval from
  start to end with both ends; made upwards it is the interval from the end, which is included, up to
  the start, which is not.
\<close>

definition before :: "u_int \<times> u_int \<Rightarrow> u_int \<times> u_int \<Rightarrow> bool" where
  "before p q \<longleftrightarrow> snd p < snd q \<or> snd p = snd q \<and> fst p < fst q"


end
