(* ===== verification/Cstring.thy ===== *)
theory Cstring
  imports Prelude "HOL-Library.Char_ord"
begin

text \<open>
  The functions of the C library on strings that the modelled code uses. A C string is a HOL
  \<open>string\<close> without its terminating NUL; reading \<open>s[i]\<close> one past the end gives the NUL, which
  \<open>char_at\<close> returns. \<open>strtonum\<close> is \<open>src/compat/strtonum.c\<close> with \<open>strtoll\<close> in base 10.
\<close>

definition char_at :: "string \<Rightarrow> nat \<Rightarrow> char" where
  "char_at s i = (if i < length s then s ! i else CHR 0x00)"

definition isdigit :: "char \<Rightarrow> bool" where
  "isdigit c \<longleftrightarrow> CHR ''0'' \<le> c \<and> c \<le> CHR ''9''"

definition isxdigit :: "char \<Rightarrow> bool" where
  "isxdigit c \<longleftrightarrow> isdigit c \<or> (CHR ''a'' \<le> c \<and> c \<le> CHR ''f'') \<or> (CHR ''A'' \<le> c \<and> c \<le> CHR ''F'')"

definition isspace :: "char \<Rightarrow> bool" where
  "isspace c \<longleftrightarrow> c = CHR '' '' \<or> (CHR 0x09 \<le> c \<and> c \<le> CHR 0x0D)"

definition tolower :: "char \<Rightarrow> char" where
  "tolower c = (if CHR ''A'' \<le> c \<and> c \<le> CHR ''Z'' then char_of (of_char c + 32 :: nat) else c)"

text \<open>True when the C functions return 0.\<close>

definition strcasecmp :: "string \<Rightarrow> string \<Rightarrow> bool" where
  "strcasecmp s t \<longleftrightarrow> map tolower s = map tolower t"

definition strncasecmp :: "string \<Rightarrow> string \<Rightarrow> nat \<Rightarrow> bool" where
  "strncasecmp s t n \<longleftrightarrow> map tolower (take n s) = map tolower (take n t)"

definition strcspn :: "string \<Rightarrow> string \<Rightarrow> nat" where
  "strcspn s reject = length (takeWhile (\<lambda>c. c \<notin> set reject) s)"

definition strspn :: "string \<Rightarrow> string \<Rightarrow> nat" where
  "strspn s accept = length (takeWhile (\<lambda>c. c \<in> set accept) s)"

definition digit_value :: "char \<Rightarrow> nat" where
  "digit_value c = of_char c - 48"

definition xdigit_value :: "char \<Rightarrow> nat" where
  "xdigit_value c = (if isdigit c then of_char c - 48
     else if CHR ''a'' \<le> c then of_char c - 87 else of_char c - 55)"

definition dec_value :: "string \<Rightarrow> nat" where
  "dec_value s = foldl (\<lambda>n c. 10 * n + digit_value c) 0 s"

text \<open>\<open>strtoll (s, &ep, 10)\<close> with the tests \<open>s == ep\<close> and \<open>*ep != 0\<close> made: the whole string is a number.\<close>

definition strtoll_all :: "string \<Rightarrow> int option" where
  "strtoll_all s =
     (let s = dropWhile isspace s;
          neg = (s \<noteq> [] \<and> hd s = CHR ''-'');
          s = (if s \<noteq> [] \<and> (hd s = CHR ''-'' \<or> hd s = CHR ''+'') then tl s else s)
      in if s = [] \<or> \<not> list_all isdigit s then None
         else Some (if neg then - int (dec_value s) else int (dec_value s)))"

text \<open>\<open>None\<close> when \<open>errstr\<close> is set. Values that overflow \<open>long long\<close> are outside every range used.\<close>

definition strtonum :: "string \<Rightarrow> int \<Rightarrow> int \<Rightarrow> int option" where
  "strtonum s minval maxval =
     (if minval > maxval then None
      else case strtoll_all s of
        None \<Rightarrow> None
      | Some n \<Rightarrow> if n < minval \<or> n > maxval then None else Some n)"

text \<open>The conversion \<open>%u\<close>.\<close>

fun dec_string :: "nat \<Rightarrow> string" where
  "dec_string n =
     (if n < 10 then [char_of (48 + n)] else dec_string (n div 10) @ [char_of (48 + n mod 10)])"

declare dec_string.simps [simp del]

section \<open>Printing and reading numbers\<close>

lemma digit_char: "d < 10 \<Longrightarrow> isdigit (char_of (48 + d)) \<and> digit_value (char_of (48 + d)) = d"
  by (simp add: isdigit_def digit_value_def less_eq_char_def)

lemma dec_value_snoc: "dec_value (s @ [c]) = 10 * dec_value s + digit_value c"
  by (simp add: dec_value_def)

lemma dec_string_value: "list_all isdigit (dec_string n) \<and> dec_string n \<noteq> [] \<and> dec_value (dec_string n) = n"
proof (induction n rule: dec_string.induct)
  case (1 n)
  show ?case
  proof (cases "n < 10")
    case True
    then show ?thesis using digit_char [of n]
      by (subst (1 2 3) dec_string.simps) (simp add: dec_value_def)
  next
    case False
    then show ?thesis using 1 digit_char [of "n mod 10"]
      by (subst (1 2 3) dec_string.simps) (simp add: dec_value_snoc)
  qed
qed

lemma isdigit_not_space: "isdigit c \<Longrightarrow> \<not> isspace c \<and> c \<noteq> CHR ''-'' \<and> c \<noteq> CHR ''+''"
  by (auto simp: isdigit_def isspace_def less_eq_char_def)

lemma strtoll_all_dec: "strtoll_all (dec_string n) = Some (int n)"
proof -
  obtain c s where s: "dec_string n = c # s" using dec_string_value [of n] by (cases "dec_string n") auto
  moreover have "isdigit c" using dec_string_value [of n] s by simp
  ultimately show ?thesis using isdigit_not_space [of c] dec_string_value [of n]
    by (simp add: strtoll_all_def Let_def)
qed

lemma strtonum_dec: "strtonum (dec_string n) 0 m = (if int n \<le> m then Some (int n) else None)"
  by (simp add: strtonum_def strtoll_all_dec)

end
