(* ===== verification/Colour.thy ===== *)
theory Colour
  imports Cstring Grid
begin

text \<open>
  Colours and attributes (\<open>src/colour.c\<close>, \<open>src/attributes.c\<close>): the nearest colour of the 256-colour
  palette, the tables to the smaller palettes and the conversions from and to strings. A colour is an
  \<open>int\<close> whose bit 8 marks a palette colour; -1 is the error.
\<close>

unbundle bit_operations_syntax

section \<open>The 256-colour palette\<close>

record colour_rgb =
  rgb_r :: u_char
  rgb_g :: u_char
  rgb_b :: u_char

text \<open>The loop state of \<open>colour_rgb_generate256\<close>: the counters and the table, from \<open>xcalloc\<close>.\<close>

definition rgb_step :: "u_int \<Rightarrow> u_int \<times> u_int \<times> u_int \<times> colour_rgb list \<Rightarrow>
    (u_int \<times> u_int \<times> u_int \<times> colour_rgb list) option" where
  "rgb_step i st =
     (case st of (r, g, b, table) \<Rightarrow> do {
        rgb \<leftarrow> get_at table (240 - i);
        let rgb = (if r \<noteq> 0 then rgb\<lparr>rgb_r := of_nat (r * 40 + 55)\<rparr> else rgb);
        let rgb = (if g \<noteq> 0 then rgb\<lparr>rgb_g := of_nat (g * 40 + 55)\<rparr> else rgb);
        let rgb = (if b \<noteq> 0 then rgb\<lparr>rgb_b := of_nat (b * 40 + 55)\<rparr> else rgb);
        table \<leftarrow> put_at (240 - i) rgb table;
        let b = b + 1;
        let (g, b) = (if b > 5 then (g + 1, 0) else (g, b));
        let (r, g) = (if g > 5 then (r + 1, 0) else (r, g));
        Some (r, g, b, table)
      })"

definition grey_step :: "u_int \<Rightarrow> colour_rgb list \<Rightarrow> colour_rgb list option" where
  "grey_step i table =
     (let v = of_nat (8 + (24 - i) * 10)
      in put_at (240 - i) \<lparr>rgb_r = v, rgb_g = v, rgb_b = v\<rparr> table)"

definition colour_rgb_generate256 :: "colour_rgb list option" where
  "colour_rgb_generate256 = do {
     (r, g, b, table) \<leftarrow> fold_opt rgb_step (rev [25..<241])
       (0, 0, 0, replicate 240 \<lparr>rgb_r = 0, rgb_g = 0, rgb_b = 0\<rparr>);
     fold_opt grey_step (rev [1..<25]) table
   }"

definition colour_rgb_distance :: "colour_rgb \<Rightarrow> colour_rgb \<Rightarrow> u_int" where
  "colour_rgb_distance rgb1 rgb2 =
     (let r = uint (rgb_r rgb1) - uint (rgb_r rgb2);
          g = uint (rgb_g rgb1) - uint (rgb_g rgb2);
          b = uint (rgb_b rgb1) - uint (rgb_b rgb2)
      in nat (r * r + g * g + b * b))"

definition rgb_find_step :: "colour_rgb list \<Rightarrow> colour_rgb \<Rightarrow> u_int \<Rightarrow> u_int \<times> u_int \<Rightarrow> (u_int \<times> u_int) option" where
  "rgb_find_step table rgb i st =
     (case st of (lowest, colour) \<Rightarrow> do {
        c \<leftarrow> get_at table i;
        let distance = colour_rgb_distance c rgb;
        Some (if distance < lowest then (distance, 16 + i) else (lowest, colour))
      })"

text \<open>The table is generated on first use; it is an argument here.\<close>

definition colour_rgb_find :: "colour_rgb list \<Rightarrow> colour_rgb \<Rightarrow> u_int option" where
  "colour_rgb_find table rgb = do {
     (lowest, colour) \<leftarrow> for_upto 0 240 (rgb_find_step table rgb) (UINT_MAX, 16);
     Some colour
   }"

definition colour_set_fg :: "grid_cell \<Rightarrow> int \<Rightarrow> grid_cell" where
  "colour_set_fg gc c =
     (let gc = (if c AND 0x100 \<noteq> 0 then gc\<lparr>gc_flags := set_flag (gc_flags gc) GRID_FLAG_FG256\<rparr> else gc)
      in gc\<lparr>gc_fg := word_of_int c\<rparr>)"

definition colour_set_bg :: "grid_cell \<Rightarrow> int \<Rightarrow> grid_cell" where
  "colour_set_bg gc c =
     (let gc = (if c AND 0x100 \<noteq> 0 then gc\<lparr>gc_flags := set_flag (gc_flags gc) GRID_FLAG_BG256\<rparr> else gc)
      in gc\<lparr>gc_bg := word_of_int c\<rparr>)"

section \<open>Strings\<close>

text \<open>\<open>None\<close> is the returned \<open>NULL\<close>; \<open>%u\<close> prints the argument as \<open>unsigned int\<close>.\<close>

definition colour_tostring :: "int \<Rightarrow> string option" where
  "colour_tostring c =
     (if c AND 0x100 \<noteq> 0 then Some (''colour'' @ dec_string (nat ((c AND NOT 0x100) mod 2 ^ 32)))
      else if c = 0 then Some ''black''
      else if c = 1 then Some ''red''
      else if c = 2 then Some ''green''
      else if c = 3 then Some ''yellow''
      else if c = 4 then Some ''blue''
      else if c = 5 then Some ''magenta''
      else if c = 6 then Some ''cyan''
      else if c = 7 then Some ''white''
      else if c = 8 then Some ''default''
      else if c = 90 then Some ''brightblack''
      else if c = 91 then Some ''brightred''
      else if c = 92 then Some ''brightgreen''
      else if c = 93 then Some ''brightyellow''
      else if c = 94 then Some ''brightblue''
      else if c = 95 then Some ''brightmagenta''
      else if c = 96 then Some ''brightcyan''
      else if c = 97 then Some ''brightwhite''
      else None)"

definition hex_byte :: "string \<Rightarrow> nat \<Rightarrow> u_char" where
  "hex_byte s i = of_nat (16 * xdigit_value (s ! i) + xdigit_value (s ! (i + 1)))"

text \<open>The two tests of a one-digit and of a two-digit colour number, as the code writes them.\<close>

definition one_digit :: "string \<Rightarrow> char \<Rightarrow> bool" where
  "one_digit s d \<longleftrightarrow> char_at s 0 = d \<and> char_at s 1 = CHR 0x00"

definition nine_digit :: "string \<Rightarrow> char \<Rightarrow> bool" where
  "nine_digit s d \<longleftrightarrow> char_at s 0 = CHR ''9'' \<and> char_at s 1 = d \<and> char_at s 1 = CHR 0x00"

text \<open>The comparisons with the colour names and numbers.\<close>

definition colour_name :: "string \<Rightarrow> int" where
  "colour_name s =
     (if strcasecmp s ''black'' \<or> one_digit s (CHR ''0'') then 0
      else if strcasecmp s ''red'' \<or> one_digit s (CHR ''1'') then 1
      else if strcasecmp s ''green'' \<or> one_digit s (CHR ''2'') then 2
      else if strcasecmp s ''yellow'' \<or> one_digit s (CHR ''3'') then 3
      else if strcasecmp s ''blue'' \<or> one_digit s (CHR ''4'') then 4
      else if strcasecmp s ''magenta'' \<or> one_digit s (CHR ''5'') then 5
      else if strcasecmp s ''cyan'' \<or> one_digit s (CHR ''6'') then 6
      else if strcasecmp s ''white'' \<or> one_digit s (CHR ''7'') then 7
      else if strcasecmp s ''default'' \<or> one_digit s (CHR ''8'') then 8
      else if strcasecmp s ''brightblack'' \<or> nine_digit s (CHR ''0'') then 90
      else if strcasecmp s ''brightred'' \<or> nine_digit s (CHR ''1'') then 91
      else if strcasecmp s ''brightgreen'' \<or> nine_digit s (CHR ''2'') then 92
      else if strcasecmp s ''brightyellow'' \<or> nine_digit s (CHR ''3'') then 93
      else if strcasecmp s ''brightblue'' \<or> nine_digit s (CHR ''4'') then 94
      else if strcasecmp s ''brightmagenta'' \<or> nine_digit s (CHR ''5'') then 95
      else if strcasecmp s ''brightcyan'' \<or> nine_digit s (CHR ''6'') then 96
      else if strcasecmp s ''brightwhite'' \<or> nine_digit s (CHR ''7'') then 97
      else (-1))"

definition colour_fromstring :: "colour_rgb list \<Rightarrow> string \<Rightarrow> int option" where
  "colour_fromstring table s =
     (if char_at s 0 = CHR ''#'' \<and> length s = 7 then
        if \<not> list_all isxdigit (tl s) then Some (-1)
        else do {
          c \<leftarrow> colour_rgb_find table \<lparr>rgb_r = hex_byte s 1, rgb_g = hex_byte s 3, rgb_b = hex_byte s 5\<rparr>;
          Some (int c OR 0x100)
        }
      else if strncasecmp s ''colour'' 6 then
        Some (case strtonum (drop 6 s) 0 255 of None \<Rightarrow> -1 | Some n \<Rightarrow> n OR 0x100)
      else Some (colour_name s))"

section \<open>Smaller palettes\<close>

definition colour_256to16_table :: "nat list" where
  "colour_256to16_table = [
     0, 1, 2, 3, 4, 5, 6, 7, 8, 9, 10, 11, 12, 13, 14, 15,
     0, 4, 4, 4, 12, 12, 2, 6, 4, 4, 12, 12, 2, 2, 6, 4,
     12, 12, 2, 2, 2, 6, 12, 12, 10, 10, 10, 10, 14, 12, 10, 10,
     10, 10, 10, 14, 1, 5, 4, 4, 12, 12, 3, 8, 4, 4, 12, 12,
     2, 2, 6, 4, 12, 12, 2, 2, 2, 6, 12, 12, 10, 10, 10, 10,
     14, 12, 10, 10, 10, 10, 10, 14, 1, 1, 5, 4, 12, 12, 1, 1,
     5, 4, 12, 12, 3, 3, 8, 4, 12, 12, 2, 2, 2, 6, 12, 12,
     10, 10, 10, 10, 14, 12, 10, 10, 10, 10, 10, 14, 1, 1, 1, 5,
     12, 12, 1, 1, 1, 5, 12, 12, 1, 1, 1, 5, 12, 12, 3, 3,
     3, 7, 12, 12, 10, 10, 10, 10, 14, 12, 10, 10, 10, 10, 10, 14,
     9, 9, 9, 9, 13, 12, 9, 9, 9, 9, 13, 12, 9, 9, 9, 9,
     13, 12, 9, 9, 9, 9, 13, 12, 11, 11, 11, 11, 7, 12, 10, 10,
     10, 10, 10, 14, 9, 9, 9, 9, 9, 13, 9, 9, 9, 9, 9, 13,
     9, 9, 9, 9, 9, 13, 9, 9, 9, 9, 9, 13, 9, 9, 9, 9,
     9, 13, 11, 11, 11, 11, 11, 15, 0, 0, 0, 0, 0, 0, 8, 8,
     8, 8, 8, 8, 7, 7, 7, 7, 7, 7, 15, 15, 15, 15, 15, 15]"

definition colour_256to16 :: "u_char \<Rightarrow> u_char" where
  "colour_256to16 c = of_nat (colour_256to16_table ! unat c)"

definition colour_256to88_table :: "nat list" where
  "colour_256to88_table = [
     0, 1, 2, 3, 4, 5, 6, 7, 8, 9, 10, 11, 12, 13, 14, 15,
     16, 17, 17, 18, 18, 19, 20, 21, 21, 22, 22, 23, 20, 21, 21, 22,
     22, 23, 24, 25, 25, 26, 26, 27, 24, 25, 25, 26, 26, 27, 28, 29,
     29, 30, 30, 31, 32, 33, 33, 34, 34, 35, 36, 37, 37, 38, 38, 39,
     36, 37, 37, 38, 38, 39, 40, 41, 41, 42, 42, 43, 40, 41, 41, 42,
     42, 43, 44, 45, 45, 46, 46, 47, 32, 33, 33, 34, 34, 35, 36, 37,
     37, 38, 38, 39, 36, 37, 37, 38, 38, 39, 40, 41, 41, 42, 42, 43,
     40, 41, 41, 42, 42, 43, 44, 45, 45, 46, 46, 47, 48, 49, 49, 50,
     50, 51, 52, 53, 53, 54, 54, 55, 52, 53, 53, 54, 54, 55, 56, 57,
     57, 58, 58, 59, 56, 57, 57, 58, 58, 59, 60, 61, 61, 62, 62, 63,
     48, 49, 49, 50, 50, 51, 52, 53, 53, 54, 54, 55, 52, 53, 53, 54,
     54, 55, 56, 57, 57, 58, 58, 59, 56, 57, 57, 58, 58, 59, 60, 61,
     61, 62, 62, 63, 64, 65, 65, 66, 66, 67, 68, 69, 69, 70, 70, 71,
     68, 69, 69, 70, 70, 71, 72, 73, 73, 74, 74, 75, 72, 73, 73, 74,
     74, 75, 76, 77, 77, 78, 78, 79, 0, 0, 80, 80, 80, 81, 81, 81,
     82, 82, 82, 83, 83, 83, 84, 84, 84, 85, 85, 85, 86, 86, 86, 87]"

definition colour_256to88 :: "u_char \<Rightarrow> u_char" where
  "colour_256to88 c = of_nat (colour_256to88_table ! unat c)"

section \<open>Attributes\<close>

definition attributes_tostring :: "u_char \<Rightarrow> string" where
  "attributes_tostring attr =
     (if attr = 0 then ''none''
      else let buf = (if has_flag attr GRID_ATTR_BRIGHT then ''bright,'' else []) @
               (if has_flag attr GRID_ATTR_DIM then ''dim,'' else []) @
               (if has_flag attr GRID_ATTR_UNDERSCORE then ''underscore,'' else []) @
               (if has_flag attr GRID_ATTR_BLINK then ''blink,'' else []) @
               (if has_flag attr GRID_ATTR_REVERSE then ''reverse,'' else []) @
               (if has_flag attr GRID_ATTR_HIDDEN then ''hidden,'' else []) @
               (if has_flag attr GRID_ATTR_ITALICS then ''italics,'' else [])
        in if length buf > 0 then butlast buf else buf)"

definition attribute_word :: "string \<Rightarrow> nat \<Rightarrow> u_char option" where
  "attribute_word str end =
     (if (end = 6 \<and> strncasecmp str ''bright'' end) \<or> (end = 4 \<and> strncasecmp str ''bold'' end)
      then Some GRID_ATTR_BRIGHT
      else if end = 3 \<and> strncasecmp str ''dim'' end then Some GRID_ATTR_DIM
      else if end = 10 \<and> strncasecmp str ''underscore'' end then Some GRID_ATTR_UNDERSCORE
      else if end = 5 \<and> strncasecmp str ''blink'' end then Some GRID_ATTR_BLINK
      else if end = 7 \<and> strncasecmp str ''reverse'' end then Some GRID_ATTR_REVERSE
      else if end = 6 \<and> strncasecmp str ''hidden'' end then Some GRID_ATTR_HIDDEN
      else if end = 7 \<and> strncasecmp str ''italics'' end then Some GRID_ATTR_ITALICS
      else None)"

text \<open>The loop of \<open>attributes_fromstring\<close>. Each round consumes at least the word it recognised.\<close>

lemma attribute_word_pos: "attribute_word str end = Some a \<Longrightarrow> 0 < end"
  by (auto simp: attribute_word_def split: if_splits)

abbreviation attribute_delimiters :: string where
  "attribute_delimiters \<equiv> '' ,|''"

function attributes_loop :: "string \<Rightarrow> u_char \<Rightarrow> int" where
  "attributes_loop str attr =
     (let end = strcspn str attribute_delimiters
      in case attribute_word str end of
           None \<Rightarrow> -1
         | Some a \<Rightarrow>
             let attr = set_flag attr a;
                 str = drop (end + strspn (drop end str) attribute_delimiters) str
             in if str \<noteq> [] then attributes_loop str attr else uint attr)"
  by pat_completeness auto
termination
  by (relation "measure (\<lambda>(str, attr). length str)") (auto dest!: attribute_word_pos)

declare attributes_loop.simps [simp del]

definition attributes_fromstring :: "string \<Rightarrow> int" where
  "attributes_fromstring str =
     (if str = [] \<or> strcspn str attribute_delimiters = 0 then -1
      else if last str \<in> set attribute_delimiters then -1
      else if strcasecmp str ''default'' \<or> strcasecmp str ''none'' then 0
      else attributes_loop str 0)"

section \<open>Properties\<close>

subsection \<open>Attributes\<close>

definition attributes_back :: "nat \<Rightarrow> bool" where
  "attributes_back n \<longleftrightarrow> attributes_fromstring (attributes_tostring (of_nat n)) = int n"

lemma attributes_back_1: "list_all attributes_back [0..<32]"
  by code_simp

lemma attributes_back_2: "list_all attributes_back [32..<64]"
  by code_simp

lemma attributes_back_3: "list_all attributes_back [64..<96]"
  by code_simp

lemma attributes_back_4: "list_all attributes_back [96..<128]"
  by code_simp

text \<open>
  C32. Every attribute set that \<open>attributes_tostring\<close> can print (all but the character-set bit, which
  it does not name) is read back by \<open>attributes_fromstring\<close>.
\<close>

theorem attributes_round_trip:
  assumes "attr AND GRID_ATTR_CHARSET = 0"
  shows "attributes_fromstring (attributes_tostring attr) = uint attr"
proof -
  have m: "(128 :: u_char) = push_bit 7 1" by simp
  have "\<not> bit attr 7"
  proof
    assume "bit attr 7"
    then have "bit (attr AND 128) 7" unfolding m by (simp add: bit_simps)
    then show False using assms by simp
  qed
  then have "attr = take_bit 7 attr"
  proof (intro bit_word_eqI)
    fix n assume "n < LENGTH(8)"
    then show "bit attr n = bit (take_bit 7 attr) n"
      using \<open>\<not> bit attr 7\<close> by (cases "n = 7") (auto simp: bit_simps)
  qed
  moreover have "unat (take_bit 7 attr) < 2 ^ 7"
    unfolding unsigned_take_bit_eq by (rule take_bit_nat_less_exp)
  ultimately have "unat attr < 128" by simp
  moreover have "attributes_back n" if n: "n < 128" for n
  proof -
    have via: "attributes_back n" if "list_all attributes_back [a..<b]" "a \<le> n" "n < b" for a b
      using that by (simp only: list_all_iff set_upt) auto
    consider "n < 32" | "32 \<le> n" "n < 64" | "64 \<le> n" "n < 96" | "96 \<le> n" "n < 128"
      using n by linarith
    then show ?thesis
      using via [OF attributes_back_1] via [OF attributes_back_2] via [OF attributes_back_3]
        via [OF attributes_back_4] by cases blast+
  qed
  ultimately have "attributes_back (unat attr)" by blast
  then show ?thesis by (simp add: attributes_back_def)
qed

theorem attributes_round_trip_witness:
  "attributes_fromstring (attributes_tostring (GRID_ATTR_BRIGHT OR GRID_ATTR_ITALICS)) = 65"
  using attributes_round_trip [of "GRID_ATTR_BRIGHT OR GRID_ATTR_ITALICS"] by simp

subsection \<open>Colours\<close>

lemma palette_bits:
  fixes n :: int
  assumes "0 \<le> n" and "n < 256"
  shows "n OR 256 = n + 256" and "n AND 256 = 0" and "(n + 256) AND 256 = 256" and "(n + 256) AND NOT 256 = n"
proof -
  have t: "take_bit 8 n = n" using assms by (simp add: take_bit_int_eq_self)
  have "n AND push_bit 8 1 = 0"
  proof (rule bit_eqI)
    fix i
    show "bit (n AND push_bit 8 1) i = bit 0 i"
      by (subst t [symmetric]) (auto simp: bit_and_iff bit_take_bit_iff bit_push_bit_iff simp del: push_bit_of_1 t)
  qed
  then show a: "n AND 256 = 0" by simp
  show o: "n OR 256 = n + 256" using plus_and_or [of n 256] a by simp
  show "(n + 256) AND 256 = 256" unfolding o [symmetric] by (simp add: bit.conj_disj_distrib2 a)
  have "n AND NOT 256 = n" using plus_and_or [of n 256] a
    by (metis and.right_neutral bit.compl_one bit.conj_disj_distrib bit.disj_cancel_right or.right_neutral and.commute or.commute)
  then show "(n + 256) AND NOT 256 = n" unfolding o [symmetric] by (simp add: bit.conj_disj_distrib2)
qed

definition colour_names :: "(int \<times> string) list" where
  "colour_names = [(0, ''black''), (1, ''red''), (2, ''green''), (3, ''yellow''), (4, ''blue''),
     (5, ''magenta''), (6, ''cyan''), (7, ''white''), (8, ''default''), (90, ''brightblack''),
     (91, ''brightred''), (92, ''brightgreen''), (93, ''brightyellow''), (94, ''brightblue''),
     (95, ''brightmagenta''), (96, ''brightcyan''), (97, ''brightwhite'')]"

definition colour_plain :: "string \<Rightarrow> bool" where
  "colour_plain s \<longleftrightarrow> char_at s 0 \<noteq> CHR ''#'' \<and> \<not> strncasecmp s ''colour'' 6"

lemma colour_names_back: "list_all (\<lambda>(c, s). colour_plain s \<and> colour_name s = c) colour_names"
  by code_simp

lemma colour_tostring_names:
  "c AND 256 = 0 \<Longrightarrow> colour_tostring c = Some s \<Longrightarrow> (c, s) \<in> set colour_names"
  by (auto simp: colour_tostring_def colour_names_def split: if_splits)

lemma colour_plain_name: "colour_plain s \<Longrightarrow> colour_fromstring table s = Some (colour_name s)"
  by (simp add: colour_plain_def colour_fromstring_def)

lemma colour_palette:
  assumes "0 \<le> n" and "n < 256"
  shows "colour_tostring (n + 256) = Some (''colour'' @ dec_string (nat n))"
    and "colour_fromstring table (''colour'' @ dec_string (nat n)) = Some (n + 256)"
  using assms palette_bits [OF assms] strtonum_dec [of "nat n" 255]
  by (auto simp: colour_tostring_def colour_fromstring_def char_at_def strncasecmp_def)

text \<open>
  C33. \<open>colour_fromstring\<close> reads back what \<open>colour_tostring\<close> prints, for the eight basic colours, the
  default, the eight bright ones and all 256 palette colours.
\<close>

theorem colour_round_trip:
  assumes "colour_tostring c = Some s" and "0 \<le> c" and "c < 512"
  shows "colour_fromstring table s = Some c"
proof (cases "c < 256")
  case True
  then have "c AND 256 = 0" using palette_bits(2) assms(2) by blast
  then have "(c, s) \<in> set colour_names" using assms(1) by (rule colour_tostring_names)
  then have "colour_plain s \<and> colour_name s = c" using colour_names_back by (auto simp: list_all_iff)
  then show ?thesis using colour_plain_name by simp
next
  case False
  then show ?thesis using colour_palette [of "c - 256"] assms by auto
qed

lemma dec208: "dec_string 208 = ''208''"
  by code_simp

theorem colour_round_trip_witness:
  "colour_fromstring [] ''colour208'' = Some 464"
proof -
  have "colour_tostring 464 = Some ''colour208''"
    using colour_palette(1) [of 208] dec208 by simp
  then show ?thesis using colour_round_trip [of 464 "''colour208''" "[]"] by simp
qed

text \<open>
  The numbers 90 to 97, which name the bright colours everywhere else, are rejected: the test that
  should look for the end of the string looks at its second character again.
\<close>

lemma colour_bright_numbers_rejected: "d \<noteq> CHR 0x00 \<Longrightarrow> \<not> nine_digit s d"
  by (auto simp: nine_digit_def)

text \<open>
  C34. \<open>colour_rgb_find\<close> returns a palette colour whose distance to the wanted one is minimal among the
  240 entries of the table.
\<close>

theorem colour_rgb_find_nearest:
  assumes "length table = 240"
  shows "returns (colour_rgb_find table rgb) (\<lambda>c. 16 \<le> c \<and> c < 256 \<and>
    (\<forall>i < 240. colour_rgb_distance (table ! (c - 16)) rgb \<le> colour_rgb_distance (table ! i) rgb))"
proof -
  have bound: "colour_rgb_distance a b < UINT_MAX" for a b
  proof -
    have sq: "(uint x - uint y) * (uint x - uint y) \<le> 65025" for x y :: u_char
    proof -
      have "uint x < 256" "uint y < 256" "0 \<le> uint x" "0 \<le> uint y"
        using uint_lt2p [of x] uint_lt2p [of y] by simp_all
      then have "\<bar>uint x - uint y\<bar> \<le> 255" by linarith
      then have "\<bar>uint x - uint y\<bar> * \<bar>uint x - uint y\<bar> \<le> 255 * 255" by (intro mult_mono) auto
      then show ?thesis by simp
    qed
    show ?thesis using sq [of "rgb_r a" "rgb_r b"] sq [of "rgb_g a" "rgb_g b"] sq [of "rgb_b a" "rgb_b b"]
      by (simp add: colour_rgb_distance_def Let_def UINT_MAX_def nat_less_iff)
  qed
  let ?d = "\<lambda>i. colour_rgb_distance (table ! i) rgb"
  have "returns (for_upto 0 240 (rgb_find_step table rgb) (UINT_MAX, 16)) (\<lambda>s. 16 \<le> snd s \<and> snd s < 256 \<and>
      (240 = (0::nat) \<or> fst s = ?d (snd s - 16)) \<and> (\<forall>j < 240. fst s \<le> ?d j))"
  proof (rule for_upto_returns_index [where I = "\<lambda>i s. 16 \<le> snd s \<and> snd s < 256 \<and>
      (i = 0 \<and> fst s = UINT_MAX \<or> 0 < i \<and> fst s = ?d (snd s - 16)) \<and> (\<forall>j < i. fst s \<le> ?d j)",
      THEN returns_mono])
    fix i s assume i: "0 \<le> i" "i < 240" and I: "16 \<le> snd s \<and> snd s < 256 \<and>
      (i = 0 \<and> fst s = UINT_MAX \<or> 0 < i \<and> fst s = ?d (snd s - 16)) \<and> (\<forall>j < i. fst s \<le> ?d j)"
    then show "returns (rgb_find_step table rgb i s) (\<lambda>s. 16 \<le> snd s \<and> snd s < 256 \<and>
      (Suc i = 0 \<and> fst s = UINT_MAX \<or> 0 < Suc i \<and> fst s = ?d (snd s - 16)) \<and> (\<forall>j < Suc i. fst s \<le> ?d j))"
      using bound [of "table ! i" rgb] assms
      by (cases s) (auto simp: rgb_find_step_def Let_def less_Suc_eq intro: less_imp_le order_trans [OF less_imp_le])
  qed auto
  then show ?thesis by (auto simp: colour_rgb_find_def returns_eq)
qed

theorem colour_rgb_find_nearest_witness:
  "returns (colour_rgb_find (replicate 240 \<lparr>rgb_r = 0, rgb_g = 0, rgb_b = 0\<rparr>) \<lparr>rgb_r = 1, rgb_g = 0, rgb_b = 0\<rparr>)
    (\<lambda>c. 16 \<le> c)"
  by (rule returns_mono [OF colour_rgb_find_nearest]) auto

end
