(* ===== verification/Screen_Write.thy ===== *)
theory Screen_Write
  imports Screen Colour
begin

text \<open>
  Writing to a screen (\<open>src/screen-write.c\<close>): every function changes the screen of its context and
  tells the terminals by \<open>tty_write\<close>, which is modelled as the ordered list \<open>ctx_out\<close> of the commands
  with their \<open>struct tty_ctx\<close>. A field of the \<open>tty_ctx\<close> that the code leaves uninitialised is
  \<open>None\<close>. \<open>ctx_wp\<close> names the pane, \<open>None\<close> for \<open>NULL\<close>. The \<open>printf\<close> arguments of the string writers are
  replaced by the formatted string, a list of bytes.
\<close>

unbundle bit_operations_syntax

section \<open>Context\<close>

datatype tty_cmd =
    tty_cmd_alignmenttest
  | tty_cmd_cell
  | tty_cmd_clearendofline
  | tty_cmd_clearendofscreen
  | tty_cmd_clearline
  | tty_cmd_clearscreen
  | tty_cmd_clearstartofline
  | tty_cmd_clearstartofscreen
  | tty_cmd_deletecharacter
  | tty_cmd_deleteline
  | tty_cmd_insertcharacter
  | tty_cmd_insertline
  | tty_cmd_linefeed
  | tty_cmd_utf8character
  | tty_cmd_reverseindex
  | tty_cmd_setselection
  | tty_cmd_rawstring

record tty_ctx =
  tc_wp :: "nat option"
  tc_cell :: "grid_cell option"
  tc_utf8 :: "grid_utf8 option"
  tc_num :: "u_int option"
  tc_ptr :: "u_char list option"
  tc_ocx :: u_int
  tc_ocy :: u_int
  tc_orupper :: u_int
  tc_orlower :: u_int
  tc_last_cell :: "grid_cell option"
  tc_last_utf8 :: "grid_utf8 option"
  tc_last_width :: "u_int option"

record screen_write_ctx =
  ctx_wp :: "nat option"
  ctx_s :: screen
  ctx_out :: "(tty_cmd \<times> tty_ctx) list"

type_synonym writer = "screen_write_ctx \<Rightarrow> screen_write_ctx option"

abbreviation set_screen :: "screen_write_ctx \<Rightarrow> screen \<Rightarrow> screen_write_ctx" where
  "set_screen ctx s \<equiv> ctx\<lparr>ctx_s := s\<rparr>"

definition tty_write :: "tty_cmd \<Rightarrow> tty_ctx \<Rightarrow> screen_write_ctx \<Rightarrow> screen_write_ctx" where
  "tty_write cmd ttyctx ctx = ctx\<lparr>ctx_out := ctx_out ctx @ [(cmd, ttyctx)]\<rparr>"

text \<open>A change of the grid of the context's screen.\<close>

definition on_grid :: "(grid \<Rightarrow> grid option) \<Rightarrow> writer" where
  "on_grid f ctx = do {
     gd \<leftarrow> f (scr_grid (ctx_s ctx));
     Some (set_screen ctx ((ctx_s ctx)\<lparr>scr_grid := gd\<rparr>))
   }"

definition screen_write_start :: "nat option \<Rightarrow> screen \<Rightarrow> screen_write_ctx" where
  "screen_write_start wp s = \<lparr>ctx_wp = wp, ctx_s = s, ctx_out = []\<rparr>"

text \<open>
  The search for the last cell of the line that is not padding, from \<open>xx\<close> on: the final \<open>xx\<close> and the
  cell found. The loop runs while \<open>xx \<le> sx\<close>.
\<close>

function last_cell_loop :: "grid \<Rightarrow> u_int \<Rightarrow> u_int \<Rightarrow> u_int \<Rightarrow> grid_cell \<Rightarrow> (u_int \<times> grid_cell) option" where
  "last_cell_loop gd cy sx xx gc =
     (if xx \<le> sx then do {
        gc \<leftarrow> grid_view_peek_cell gd (u_sub sx xx) cy;
        if \<not> has_flag (gc_flags gc) GRID_FLAG_PADDING then Some (xx, gc)
        else last_cell_loop gd cy sx (xx + 1) gc
      }
      else Some (xx, gc))"
  by pat_completeness auto
termination
  by (relation "measure (\<lambda>(gd, cy, sx, xx, gc). sx + 1 - xx)") auto

declare last_cell_loop.simps [simp del]

definition tty_ctx_init :: "screen_write_ctx \<Rightarrow> tty_ctx" where
  "tty_ctx_init ctx =
     \<lparr>tc_wp = ctx_wp ctx, tc_cell = None, tc_utf8 = None, tc_num = None, tc_ptr = None,
      tc_ocx = scr_cx (ctx_s ctx), tc_ocy = scr_cy (ctx_s ctx),
      tc_orupper = scr_rupper (ctx_s ctx), tc_orlower = scr_rlower (ctx_s ctx),
      tc_last_cell = None, tc_last_utf8 = None, tc_last_width = None\<rparr>"

definition screen_write_initctx :: "screen_write_ctx \<Rightarrow> bool \<Rightarrow> tty_ctx option" where
  "screen_write_initctx ctx save_last =
     (let s = ctx_s ctx; ttyctx = tty_ctx_init ctx
      in if \<not> save_last then Some ttyctx
         else do {
           (xx, gc) \<leftarrow> last_cell_loop (scr_grid s) (scr_cy s) (screen_size_x s) 1 grid_default_cell;
           let ttyctx = ttyctx\<lparr>tc_last_width := Some xx, tc_last_cell := Some gc\<rparr>;
           if has_flag (gc_flags gc) GRID_FLAG_UTF8 then do {
             p \<leftarrow> grid_view_peek_utf8 (scr_grid s) (u_sub (screen_size_x s) xx) (scr_cy s);
             gu \<leftarrow> p; \<comment> \<open>\<open>memcpy\<close> from the pointer, which may be \<open>NULL\<close>\<close>
             Some (ttyctx\<lparr>tc_last_utf8 := Some gu\<rparr>)
           }
           else Some ttyctx
         })"

section \<open>Cursor\<close>

definition screen_write_cursorup :: "screen_write_ctx \<Rightarrow> u_int \<Rightarrow> screen_write_ctx" where
  "screen_write_cursorup ctx ny =
     (let s = ctx_s ctx;
          ny = (if ny = 0 then 1 else ny);
          ny = (if scr_cy s < scr_rupper s then (if ny > scr_cy s then scr_cy s else ny)
                else if ny > u_sub (scr_cy s) (scr_rupper s) then u_sub (scr_cy s) (scr_rupper s) else ny)
      in if ny = 0 then ctx else set_screen ctx (s\<lparr>scr_cy := u_sub (scr_cy s) ny\<rparr>))"

definition screen_write_cursordown :: "screen_write_ctx \<Rightarrow> u_int \<Rightarrow> screen_write_ctx" where
  "screen_write_cursordown ctx ny =
     (let s = ctx_s ctx;
          ny = (if ny = 0 then 1 else ny);
          ny = (if scr_cy s > scr_rlower s then
                  (if ny > u_sub (u_sub (screen_size_y s) 1) (scr_cy s)
                   then u_sub (u_sub (screen_size_y s) 1) (scr_cy s) else ny)
                else if ny > u_sub (scr_rlower s) (scr_cy s) then u_sub (scr_rlower s) (scr_cy s) else ny)
      in if ny = 0 then ctx else set_screen ctx (s\<lparr>scr_cy := u_add (scr_cy s) ny\<rparr>))"

definition screen_write_cursorright :: "screen_write_ctx \<Rightarrow> u_int \<Rightarrow> screen_write_ctx" where
  "screen_write_cursorright ctx nx =
     (let s = ctx_s ctx;
          nx = (if nx = 0 then 1 else nx);
          nx = (if nx > u_sub (u_sub (screen_size_x s) 1) (scr_cx s)
                then u_sub (u_sub (screen_size_x s) 1) (scr_cx s) else nx)
      in if nx = 0 then ctx else set_screen ctx (s\<lparr>scr_cx := u_add (scr_cx s) nx\<rparr>))"

definition screen_write_cursorleft :: "screen_write_ctx \<Rightarrow> u_int \<Rightarrow> screen_write_ctx" where
  "screen_write_cursorleft ctx nx =
     (let s = ctx_s ctx;
          nx = (if nx = 0 then 1 else nx);
          nx = (if nx > scr_cx s then scr_cx s else nx)
      in if nx = 0 then ctx else set_screen ctx (s\<lparr>scr_cx := u_sub (scr_cx s) nx\<rparr>))"

definition screen_write_backspace :: writer where
  "screen_write_backspace ctx =
     (let s = ctx_s ctx
      in if scr_cx s = 0 then
           if scr_cy s = 0 then Some ctx
           else do {
             gl \<leftarrow> get_at (gd_linedata (scr_grid s)) (u_sub (u_add (gd_hsize (scr_grid s)) (scr_cy s)) 1);
             if has_flag (gl_flags gl) GRID_LINE_WRAPPED
             then Some (set_screen ctx (s\<lparr>scr_cx := u_sub (screen_size_x s) 1, scr_cy := u_sub (scr_cy s) 1\<rparr>))
             else Some ctx
           }
         else Some (set_screen ctx (s\<lparr>scr_cx := u_sub (scr_cx s) 1\<rparr>)))"

definition screen_write_cursormove :: "screen_write_ctx \<Rightarrow> u_int \<Rightarrow> u_int \<Rightarrow> screen_write_ctx" where
  "screen_write_cursormove ctx px py =
     (let s = ctx_s ctx;
          px = (if px > u_sub (screen_size_x s) 1 then u_sub (screen_size_x s) 1 else px);
          py = (if py > u_sub (screen_size_y s) 1 then u_sub (screen_size_y s) 1 else py)
      in set_screen ctx (s\<lparr>scr_cx := px, scr_cy := py\<rparr>))"

definition screen_write_carriagereturn :: "screen_write_ctx \<Rightarrow> screen_write_ctx" where
  "screen_write_carriagereturn ctx = set_screen ctx ((ctx_s ctx)\<lparr>scr_cx := 0\<rparr>)"

definition screen_write_scrollregion :: "screen_write_ctx \<Rightarrow> u_int \<Rightarrow> u_int \<Rightarrow> screen_write_ctx" where
  "screen_write_scrollregion ctx rupper rlower =
     (let s = ctx_s ctx;
          rupper = (if rupper > u_sub (screen_size_y s) 1 then u_sub (screen_size_y s) 1 else rupper);
          rlower = (if rlower > u_sub (screen_size_y s) 1 then u_sub (screen_size_y s) 1 else rlower)
      in if rupper \<ge> rlower then ctx
         else set_screen ctx (s\<lparr>scr_cx := 0, scr_cy := 0, scr_rupper := rupper, scr_rlower := rlower\<rparr>))"

section \<open>Modes\<close>

definition screen_write_mode :: "c_flags \<Rightarrow> screen_write_ctx \<Rightarrow> bool \<Rightarrow> screen_write_ctx" where
  "screen_write_mode m ctx state =
     (let s = ctx_s ctx
      in set_screen ctx (s\<lparr>scr_mode := (if state then set_flag (scr_mode s) m else clear_flag (scr_mode s) m)\<rparr>))"

definition screen_write_cursormode :: "screen_write_ctx \<Rightarrow> bool \<Rightarrow> screen_write_ctx" where
  "screen_write_cursormode = screen_write_mode MODE_CURSOR"

definition screen_write_insertmode :: "screen_write_ctx \<Rightarrow> bool \<Rightarrow> screen_write_ctx" where
  "screen_write_insertmode = screen_write_mode MODE_INSERT"

definition screen_write_utf8mousemode :: "screen_write_ctx \<Rightarrow> bool \<Rightarrow> screen_write_ctx" where
  "screen_write_utf8mousemode = screen_write_mode MODE_MOUSE_UTF8"

definition screen_write_bracketpaste :: "screen_write_ctx \<Rightarrow> bool \<Rightarrow> screen_write_ctx" where
  "screen_write_bracketpaste = screen_write_mode MODE_BRACKETPASTE"

definition screen_write_kcursormode :: "screen_write_ctx \<Rightarrow> bool \<Rightarrow> screen_write_ctx" where
  "screen_write_kcursormode = screen_write_mode MODE_KCURSOR"

definition screen_write_kkeypadmode :: "screen_write_ctx \<Rightarrow> bool \<Rightarrow> screen_write_ctx" where
  "screen_write_kkeypadmode = screen_write_mode MODE_KKEYPAD"

definition screen_write_mousemode_off :: "screen_write_ctx \<Rightarrow> screen_write_ctx" where
  "screen_write_mousemode_off ctx =
     set_screen ctx ((ctx_s ctx)\<lparr>scr_mode := clear_flag (scr_mode (ctx_s ctx)) ALL_MOUSE_MODES\<rparr>)"

definition screen_write_mousemode_on :: "screen_write_ctx \<Rightarrow> c_flags \<Rightarrow> screen_write_ctx" where
  "screen_write_mousemode_on ctx mode =
     set_screen ctx ((ctx_s ctx)\<lparr>scr_mode :=
       set_flag (clear_flag (scr_mode (ctx_s ctx)) ALL_MOUSE_MODES) mode\<rparr>)"

section \<open>Lines and characters\<close>

text \<open>\<open>tty_write\<close> with the context built by \<open>screen_write_initctx (ctx, &ttyctx, 0)\<close> before \<open>f\<close> ran.\<close>

definition screen_write_alignmenttest :: writer where
  "screen_write_alignmenttest ctx = do {
     ttyctx \<leftarrow> screen_write_initctx ctx False;
     let gc = grid_default_cell\<lparr>gc_data := 0x45\<rparr>;
     let sx = screen_size_x (ctx_s ctx);
     let sy = screen_size_y (ctx_s ctx);
     ctx \<leftarrow> on_grid (for_upto 0 sy (\<lambda>yy. for_upto 0 sx (\<lambda>xx gd. grid_view_set_cell gd xx yy gc))) ctx;
     let s = (ctx_s ctx)\<lparr>scr_cx := 0, scr_cy := 0, scr_rupper := 0, scr_rlower := u_sub sy 1\<rparr>;
     Some (tty_write tty_cmd_alignmenttest ttyctx (set_screen ctx s))
   }"

definition screen_write_insertcharacter :: "screen_write_ctx \<Rightarrow> u_int \<Rightarrow> screen_write_ctx option" where
  "screen_write_insertcharacter ctx nx =
     (let s = ctx_s ctx;
          nx = (if nx = 0 then 1 else nx);
          nx = (if nx > u_sub (screen_size_x s) (scr_cx s) then u_sub (screen_size_x s) (scr_cx s) else nx)
      in if nx = 0 then Some ctx
         else do {
           ttyctx \<leftarrow> screen_write_initctx ctx False;
           ctx \<leftarrow> (if scr_cx s \<le> u_sub (screen_size_x s) 1
                  then on_grid (\<lambda>gd. grid_view_insert_cells gd (scr_cx s) (scr_cy s) nx) ctx else Some ctx);
           Some (tty_write tty_cmd_insertcharacter (ttyctx\<lparr>tc_num := Some nx\<rparr>) ctx)
         })"

definition screen_write_deletecharacter :: "screen_write_ctx \<Rightarrow> u_int \<Rightarrow> screen_write_ctx option" where
  "screen_write_deletecharacter ctx nx =
     (let s = ctx_s ctx;
          nx = (if nx = 0 then 1 else nx);
          nx = (if nx > u_sub (screen_size_x s) (scr_cx s) then u_sub (screen_size_x s) (scr_cx s) else nx)
      in if nx = 0 then Some ctx
         else do {
           ttyctx \<leftarrow> screen_write_initctx ctx False;
           ctx \<leftarrow> (if scr_cx s \<le> u_sub (screen_size_x s) 1
                  then on_grid (\<lambda>gd. grid_view_delete_cells gd (scr_cx s) (scr_cy s) nx) ctx else Some ctx);
           Some (tty_write tty_cmd_deletecharacter (ttyctx\<lparr>tc_num := Some nx\<rparr>) ctx)
         })"

definition screen_write_insertline :: "screen_write_ctx \<Rightarrow> u_int \<Rightarrow> screen_write_ctx option" where
  "screen_write_insertline ctx ny =
     (let s = ctx_s ctx;
          ny = (if ny = 0 then 1 else ny)
      in if scr_cy s < scr_rupper s \<or> scr_cy s > scr_rlower s then
           let ny = (if ny > u_sub (screen_size_y s) (scr_cy s) then u_sub (screen_size_y s) (scr_cy s) else ny)
           in if ny = 0 then Some ctx
              else do {
                ttyctx \<leftarrow> screen_write_initctx ctx False;
                ctx \<leftarrow> on_grid (\<lambda>gd. grid_view_insert_lines gd (scr_cy s) ny) ctx;
                Some (tty_write tty_cmd_insertline (ttyctx\<lparr>tc_num := Some ny\<rparr>) ctx)
              }
         else
           let ny = (if ny > u_sub (u_add (scr_rlower s) 1) (scr_cy s)
                     then u_sub (u_add (scr_rlower s) 1) (scr_cy s) else ny)
           in if ny = 0 then Some ctx
              else do {
                ttyctx \<leftarrow> screen_write_initctx ctx False;
                ctx \<leftarrow> on_grid (\<lambda>gd. if scr_cy s < scr_rupper s \<or> scr_cy s > scr_rlower s
                         then grid_view_insert_lines gd (scr_cy s) ny
                         else grid_view_insert_lines_region gd (scr_rlower s) (scr_cy s) ny) ctx;
                Some (tty_write tty_cmd_insertline (ttyctx\<lparr>tc_num := Some ny\<rparr>) ctx)
              })"

definition screen_write_deleteline :: "screen_write_ctx \<Rightarrow> u_int \<Rightarrow> screen_write_ctx option" where
  "screen_write_deleteline ctx ny =
     (let s = ctx_s ctx;
          ny = (if ny = 0 then 1 else ny)
      in if scr_cy s < scr_rupper s \<or> scr_cy s > scr_rlower s then
           let ny = (if ny > u_sub (screen_size_y s) (scr_cy s) then u_sub (screen_size_y s) (scr_cy s) else ny)
           in if ny = 0 then Some ctx
              else do {
                ttyctx \<leftarrow> screen_write_initctx ctx False;
                ctx \<leftarrow> on_grid (\<lambda>gd. grid_view_delete_lines gd (scr_cy s) ny) ctx;
                Some (tty_write tty_cmd_deleteline (ttyctx\<lparr>tc_num := Some ny\<rparr>) ctx)
              }
         else
           let ny = (if ny > u_sub (u_add (scr_rlower s) 1) (scr_cy s)
                     then u_sub (u_add (scr_rlower s) 1) (scr_cy s) else ny)
           in if ny = 0 then Some ctx
              else do {
                ttyctx \<leftarrow> screen_write_initctx ctx False;
                ctx \<leftarrow> on_grid (\<lambda>gd. if scr_cy s < scr_rupper s \<or> scr_cy s > scr_rlower s
                         then grid_view_delete_lines gd (scr_cy s) ny
                         else grid_view_delete_lines_region gd (scr_rlower s) (scr_cy s) ny) ctx;
                Some (tty_write tty_cmd_deleteline (ttyctx\<lparr>tc_num := Some ny\<rparr>) ctx)
              })"

definition screen_write_clearline :: writer where
  "screen_write_clearline ctx =
     (let s = ctx_s ctx
      in do {
        ttyctx \<leftarrow> screen_write_initctx ctx False;
        ctx \<leftarrow> on_grid (\<lambda>gd. grid_view_clear gd 0 (scr_cy s) (screen_size_x s) 1) ctx;
        Some (tty_write tty_cmd_clearline ttyctx ctx)
      })"

definition screen_write_clearendofline :: writer where
  "screen_write_clearendofline ctx =
     (let s = ctx_s ctx; sx = screen_size_x s
      in do {
        ttyctx \<leftarrow> screen_write_initctx ctx False;
        ctx \<leftarrow> (if scr_cx s \<le> u_sub sx 1
               then on_grid (\<lambda>gd. grid_view_clear gd (scr_cx s) (scr_cy s) (u_sub sx (scr_cx s)) 1) ctx
               else Some ctx);
        Some (tty_write tty_cmd_clearendofline ttyctx ctx)
      })"

definition screen_write_clearstartofline :: writer where
  "screen_write_clearstartofline ctx =
     (let s = ctx_s ctx; sx = screen_size_x s
      in do {
        ttyctx \<leftarrow> screen_write_initctx ctx False;
        ctx \<leftarrow> (if scr_cx s > u_sub sx 1
               then on_grid (\<lambda>gd. grid_view_clear gd 0 (scr_cy s) sx 1) ctx
               else on_grid (\<lambda>gd. grid_view_clear gd 0 (scr_cy s) (u_add (scr_cx s) 1) 1) ctx);
        Some (tty_write tty_cmd_clearstartofline ttyctx ctx)
      })"

definition screen_write_reverseindex :: writer where
  "screen_write_reverseindex ctx =
     (let s = ctx_s ctx
      in do {
        ttyctx \<leftarrow> screen_write_initctx ctx False;
        ctx \<leftarrow> (if scr_cy s = scr_rupper s
               then on_grid (\<lambda>gd. grid_view_scroll_region_down gd (scr_rupper s) (scr_rlower s)) ctx
               else if scr_cy s > 0 then Some (set_screen ctx (s\<lparr>scr_cy := u_sub (scr_cy s) 1\<rparr>))
               else Some ctx);
        Some (tty_write tty_cmd_reverseindex ttyctx ctx)
      })"

definition set_wrapped :: "bool \<Rightarrow> grid_line \<Rightarrow> grid_line" where
  "set_wrapped wrapped gl = gl\<lparr>gl_flags := (if wrapped then set_flag (gl_flags gl) GRID_LINE_WRAPPED
     else clear_flag (gl_flags gl) GRID_LINE_WRAPPED)\<rparr>"

definition screen_write_linefeed :: "screen_write_ctx \<Rightarrow> bool \<Rightarrow> screen_write_ctx option" where
  "screen_write_linefeed ctx wrapped = do {
     ttyctx \<leftarrow> screen_write_initctx ctx False;
     ctx \<leftarrow> on_grid (\<lambda>gd. upd_line (u_add (gd_hsize gd) (scr_cy (ctx_s ctx)))
              (\<lambda>gl. Some (set_wrapped wrapped gl)) gd) ctx;
     let s = ctx_s ctx;
     ctx \<leftarrow> (if scr_cy s = scr_rlower s
            then on_grid (\<lambda>gd. grid_view_scroll_region_up gd (scr_rupper s) (scr_rlower s)) ctx
            else if scr_cy s < u_sub (screen_size_y s) 1
            then Some (set_screen ctx (s\<lparr>scr_cy := u_add (scr_cy s) 1\<rparr>))
            else Some ctx);
     Some (tty_write tty_cmd_linefeed (ttyctx\<lparr>tc_num := Some (if wrapped then 1 else 0)\<rparr>) ctx)
   }"

definition screen_write_clearendofscreen :: writer where
  "screen_write_clearendofscreen ctx =
     (let s = ctx_s ctx; sx = screen_size_x s; sy = screen_size_y s
      in do {
        ttyctx \<leftarrow> screen_write_initctx ctx False;
        ctx \<leftarrow> (if scr_cy s = 0 \<and> has_flag (gd_flags (scr_grid s)) GRID_HISTORY
               then on_grid grid_view_clear_history ctx
               else do {
                 ctx \<leftarrow> (if scr_cx s \<le> u_sub sx 1
                        then on_grid (\<lambda>gd. grid_view_clear gd (scr_cx s) (scr_cy s) (u_sub sx (scr_cx s)) 1) ctx
                        else Some ctx);
                 on_grid (\<lambda>gd. grid_view_clear gd 0 (u_add (scr_cy s) 1) sx (u_sub sy (u_add (scr_cy s) 1))) ctx
               });
        Some (tty_write tty_cmd_clearendofscreen ttyctx ctx)
      })"

definition screen_write_clearstartofscreen :: writer where
  "screen_write_clearstartofscreen ctx =
     (let s = ctx_s ctx; sx = screen_size_x s
      in do {
        ttyctx \<leftarrow> screen_write_initctx ctx False;
        ctx \<leftarrow> (if scr_cy s > 0 then on_grid (\<lambda>gd. grid_view_clear gd 0 0 sx (scr_cy s)) ctx else Some ctx);
        ctx \<leftarrow> (if scr_cx s > u_sub sx 1
               then on_grid (\<lambda>gd. grid_view_clear gd 0 (scr_cy s) sx 1) ctx
               else on_grid (\<lambda>gd. grid_view_clear gd 0 (scr_cy s) (u_add (scr_cx s) 1) 1) ctx);
        Some (tty_write tty_cmd_clearstartofscreen ttyctx ctx)
      })"

definition screen_write_clearscreen :: writer where
  "screen_write_clearscreen ctx =
     (let s = ctx_s ctx
      in do {
        ttyctx \<leftarrow> screen_write_initctx ctx False;
        ctx \<leftarrow> (if has_flag (gd_flags (scr_grid s)) GRID_HISTORY
               then on_grid grid_view_clear_history ctx
               else on_grid (\<lambda>gd. grid_view_clear gd 0 0 (screen_size_x s) (screen_size_y s)) ctx);
        Some (tty_write tty_cmd_clearscreen ttyctx ctx)
      })"

definition screen_write_clearhistory :: writer where
  "screen_write_clearhistory =
     on_grid (\<lambda>gd. do {
       gd \<leftarrow> grid_move_lines gd 0 (gd_hsize gd) (gd_sy gd);
       Some (gd\<lparr>gd_hsize := 0\<rparr>)
     })"

definition screen_write_setselection :: "screen_write_ctx \<Rightarrow> u_char list \<Rightarrow> u_int \<Rightarrow> screen_write_ctx option" where
  "screen_write_setselection ctx str len = do {
     ttyctx \<leftarrow> screen_write_initctx ctx False;
     Some (tty_write tty_cmd_setselection (ttyctx\<lparr>tc_ptr := Some str, tc_num := Some len\<rparr>) ctx)
   }"

definition screen_write_rawstring :: "screen_write_ctx \<Rightarrow> u_char list \<Rightarrow> u_int \<Rightarrow> screen_write_ctx option" where
  "screen_write_rawstring ctx str len = do {
     ttyctx \<leftarrow> screen_write_initctx ctx False;
     Some (tty_write tty_cmd_rawstring (ttyctx\<lparr>tc_ptr := Some str, tc_num := Some len\<rparr>) ctx)
   }"

definition screen_write_reset :: writer where
  "screen_write_reset ctx = do {
     s \<leftarrow> screen_reset_tabs (ctx_s ctx);
     let ctx = set_screen ctx s;
     let ctx = screen_write_scrollregion ctx 0 (u_sub (screen_size_y (ctx_s ctx)) 1);
     let ctx = screen_write_insertmode ctx False;
     let ctx = screen_write_kcursormode ctx False;
     let ctx = screen_write_kkeypadmode ctx False;
     let ctx = screen_write_mousemode_off ctx;
     ctx \<leftarrow> screen_write_clearscreen ctx;
     Some (screen_write_cursormove ctx 0 0)
   }"

section \<open>Cells\<close>

text \<open>
  Clearing the rest of a wide character whose padding is overwritten: back from column \<open>xx\<close> to the
  character, and forward over the following padding.
\<close>

fun overwrite_back :: "u_int \<Rightarrow> u_int \<Rightarrow> grid \<Rightarrow> (grid \<times> u_int) option" where
  "overwrite_back cy 0 gd = Some (gd, 0)"
| "overwrite_back cy (Suc x) gd = do {
     gc \<leftarrow> grid_view_peek_cell gd (Suc x) cy;
     if \<not> has_flag (gc_flags gc) GRID_FLAG_PADDING then Some (gd, Suc x)
     else do {
       gd \<leftarrow> grid_view_set_cell gd (Suc x) cy grid_default_cell;
       overwrite_back cy x gd
     }
   }"

function overwrite_forward :: "u_int \<Rightarrow> u_int \<Rightarrow> u_int \<Rightarrow> grid \<Rightarrow> grid option" where
  "overwrite_forward cy sx xx gd =
     (if xx < sx then do {
        gc \<leftarrow> grid_view_peek_cell gd xx cy;
        if \<not> has_flag (gc_flags gc) GRID_FLAG_PADDING then Some gd
        else do {
          gd \<leftarrow> grid_view_set_cell gd xx cy grid_default_cell;
          overwrite_forward cy sx (xx + 1) gd
        }
      }
      else Some gd)"
  by pat_completeness auto
termination
  by (relation "measure (\<lambda>(cy, sx, xx, gd). sx - xx)") auto

declare overwrite_forward.simps [simp del]

definition screen_write_overwrite :: "screen_write_ctx \<Rightarrow> u_int \<Rightarrow> screen_write_ctx option" where
  "screen_write_overwrite ctx width =
     (let s = ctx_s ctx
      in on_grid (\<lambda>gd. do {
           gc \<leftarrow> grid_view_peek_cell gd (scr_cx s) (scr_cy s);
           gd \<leftarrow> (if has_flag (gc_flags gc) GRID_FLAG_PADDING then do {
                   (gd, xx) \<leftarrow> overwrite_back (scr_cy s) (scr_cx s) gd;
                   grid_view_set_cell gd xx (scr_cy s) grid_default_cell
                 }
                 else Some gd);
           overwrite_forward (scr_cy s) (screen_size_x s) (u_add (scr_cx s) width) gd
         }) ctx)"

text \<open>Adding \<open>GRID_FLAG_PADDING\<close> to a cell through the pointer that \<open>grid_view_get_cell\<close> returns.\<close>

definition grid_pad_cell :: "u_int \<Rightarrow> u_int \<Rightarrow> grid \<Rightarrow> grid option" where
  "grid_pad_cell py xx gd = do {
     (gd, ok) \<leftarrow> grid_view_get_cell gd xx py;
     if ok then do {
       gc \<leftarrow> grid_cell_read gd xx (grid_view_y gd py);
       grid_put_cell gd xx (grid_view_y gd py) (gc\<lparr>gc_flags := set_flag (gc_flags gc) GRID_FLAG_PADDING\<rparr>)
     }
     else Some gd
   }"

text \<open>A \<open>struct grid_utf8\<close> on the stack.\<close>

definition grid_utf8_uninit :: grid_utf8 where
  "grid_utf8_uninit = \<lparr>gu_width = undefined, gu_data = replicate UTF8_SIZE undefined\<rparr>"

text \<open>The replacement of a character to which nothing more can be appended by underscores.\<close>

definition grid_utf8_scrap :: "grid_utf8 \<Rightarrow> grid_utf8" where
  "grid_utf8_scrap gu =
     (let i = min (unat (gu_width gu)) UTF8_SIZE;
          d = replicate i 0x5f @ drop i (gu_data gu);
          d = (if i \<noteq> UTF8_SIZE then d[i := 0xff] else d)
      in gu\<lparr>gu_data := d, gu_width := of_nat i\<rparr>)"

text \<open>True when the code returns 0.\<close>

definition screen_write_combine :: "screen_write_ctx \<Rightarrow> utf8_data \<Rightarrow> (screen_write_ctx \<times> bool) option" where
  "screen_write_combine ctx ud =
     (let s = ctx_s ctx; px = u_sub (scr_cx s) 1
      in if scr_cx s = 0 then Some (ctx, False)
         else if ud_size ud = 0 then None
         else do {
           ctx \<leftarrow> on_grid (\<lambda>gd. do {
             (gd, ok) \<leftarrow> grid_view_get_cell gd px (scr_cy s);
             let py = grid_view_y gd (scr_cy s);
             gc \<leftarrow> (if ok then grid_cell_read gd px py else None);
             gd \<leftarrow> (if \<not> has_flag (gc_flags gc) GRID_FLAG_UTF8 then do {
                     gd \<leftarrow> grid_view_set_utf8 gd px (scr_cy s)
                       \<lparr>gu_width = 1, gu_data = gc_data gc # 0xff # replicate (UTF8_SIZE - 2) undefined\<rparr>;
                     grid_put_cell gd px py (gc\<lparr>gc_flags := set_flag (gc_flags gc) GRID_FLAG_UTF8\<rparr>)
                   }
                   else Some gd);
             \<comment> \<open>append the current cell\<close>
             (gd, ok) \<leftarrow> grid_view_get_utf8 gd px (scr_cy s);
             gu \<leftarrow> (if ok then grid_utf8_read gd px py else None);
             (gu, appended) \<leftarrow> grid_utf8_append gu ud;
             if appended then grid_put_utf8 gd px py gu
             else if gu_width gu = 1 then do {
               gc \<leftarrow> grid_cell_read gd px py;
               grid_put_cell gd px py (gc\<lparr>gc_data := 0x5f, gc_flags := clear_flag (gc_flags gc) GRID_FLAG_UTF8\<rparr>)
             }
             else grid_put_utf8 gd px py (grid_utf8_scrap gu)
           }) ctx;
           Some (ctx, True)
         })"

text \<open>
  The parts of \<open>screen_write_cell\<close>: making room in insert mode (the code passes the row of the view
  where \<open>grid_move_cells\<close> expects a row of the grid), storing the cell, and drawing it.
\<close>

definition screen_write_cell_insert :: "u_int \<Rightarrow> screen_write_ctx \<Rightarrow> (screen_write_ctx \<times> bool) option" where
  "screen_write_cell_insert width ctx =
     (let s = ctx_s ctx
      in if has_flag (scr_mode s) MODE_INSERT \<and> scr_cx s \<le> u_sub (screen_size_x s) width then do {
           let xx = u_sub (u_sub (screen_size_x s) (scr_cx s)) width;
           ctx \<leftarrow> on_grid (\<lambda>gd. grid_move_cells gd (u_add (scr_cx s) width) (scr_cx s) (scr_cy s) xx) ctx;
           Some (ctx, True)
         }
         else Some (ctx, False))"

definition screen_write_cell_wrap :: "u_int \<Rightarrow> writer" where
  "screen_write_cell_wrap width ctx =
     (let s = ctx_s ctx
      in if has_flag (scr_mode s) MODE_WRAP \<and> scr_cx s > u_sub (screen_size_x s) width then do {
           ctx \<leftarrow> screen_write_linefeed ctx True;
           Some (set_screen ctx ((ctx_s ctx)\<lparr>scr_cx := 0\<rparr>))
         }
         else Some ctx)"

definition screen_write_cell_store ::
  "grid_cell \<Rightarrow> utf8_data option \<Rightarrow> u_int \<Rightarrow> screen_write_ctx \<Rightarrow> (screen_write_ctx \<times> grid_utf8 option) option" where
  "screen_write_cell_store gc utf8data width ctx =
     (let s = ctx_s ctx; cx = scr_cx s; cy = scr_cy s
      in do {
        ctx \<leftarrow> on_grid (for_upto (u_add cx 1) (u_add cx width) (grid_pad_cell cy)) ctx;
        ctx \<leftarrow> on_grid (\<lambda>gd. grid_view_set_cell gd cx cy gc) ctx;
        if has_flag (gc_flags gc) GRID_FLAG_UTF8 then do {
          ud \<leftarrow> utf8data;
          gu \<leftarrow> grid_utf8_set grid_utf8_uninit ud;
          ctx \<leftarrow> on_grid (\<lambda>gd. grid_view_set_utf8 gd cx cy gu) ctx;
          Some (ctx, Some gu)
        }
        else Some (ctx, None)
      })"

definition screen_write_cell_draw ::
  "grid_cell \<Rightarrow> u_int \<Rightarrow> bool \<Rightarrow> tty_ctx \<Rightarrow> grid_utf8 option \<Rightarrow> screen_write_ctx \<Rightarrow> screen_write_ctx" where
  "screen_write_cell_draw gc width ins ttyctx gu ctx =
     (let s = ctx_s ctx;
          ttyctx = (if ins then ttyctx\<lparr>tc_num := Some width\<rparr> else ttyctx);
          ctx = (if ins then tty_write tty_cmd_insertcharacter ttyctx ctx else ctx);
          ttyctx = ttyctx\<lparr>tc_utf8 := gu\<rparr>
      in if screen_check_selection s (u_sub (scr_cx s) width) (scr_cy s) then
           let sel = sel_cell (scr_sel s);
               fl = gc_flags gc AND NOT (GRID_FLAG_FG256 OR GRID_FLAG_BG256);
               tmp = sel\<lparr>gc_data := gc_data gc,
                         gc_flags := fl OR (gc_flags sel AND (GRID_FLAG_FG256 OR GRID_FLAG_BG256))\<rparr>
           in tty_write tty_cmd_cell (ttyctx\<lparr>tc_cell := Some tmp\<rparr>) ctx
         else tty_write tty_cmd_cell (ttyctx\<lparr>tc_cell := Some gc\<rparr>) ctx)"

definition screen_write_cell :: "screen_write_ctx \<Rightarrow> grid_cell \<Rightarrow> utf8_data option \<Rightarrow> screen_write_ctx option" where
  "screen_write_cell ctx gc utf8data =
     (if has_flag (gc_flags gc) GRID_FLAG_PADDING then Some ctx
      else do {
        width \<leftarrow> (if has_flag (gc_flags gc) GRID_FLAG_UTF8 then map_option ud_width utf8data else Some 1);
        let s = ctx_s ctx;
        let sx = screen_size_x s;
        if \<not> has_flag (scr_mode s) MODE_WRAP \<and> width > 1 \<and>
           (width > sx \<or> (scr_cx s \<noteq> sx \<and> scr_cx s > u_sub sx width))
        then Some ctx
        else if width = 0 then do {
          ud \<leftarrow> utf8data;
          (ctx, ok) \<leftarrow> screen_write_combine ctx ud;
          if ok then do {
            ttyctx \<leftarrow> screen_write_initctx ctx False;
            Some (tty_write tty_cmd_utf8character ttyctx ctx)
          }
          else Some ctx
        }
        else do {
          ttyctx \<leftarrow> screen_write_initctx ctx True;
          (ctx, ins) \<leftarrow> screen_write_cell_insert width ctx;
          ctx \<leftarrow> screen_write_cell_wrap width ctx;
          let s = ctx_s ctx;
          \<comment> \<open>sanity checks\<close>
          if (has_flag (scr_mode s) MODE_WRAP \<and> scr_cx s > u_sub (screen_size_x s) width) \<or>
             scr_cy s > u_sub (screen_size_y s) 1
          then Some ctx
          else do {
            ctx \<leftarrow> screen_write_overwrite ctx width;
            (ctx, gu) \<leftarrow> screen_write_cell_store gc utf8data width ctx;
            let ctx = set_screen ctx ((ctx_s ctx)\<lparr>scr_cx := u_add (scr_cx (ctx_s ctx)) width\<rparr>);
            Some (screen_write_cell_draw gc width ins ttyctx gu ctx)
          }
        }
      })"

end
