(* ===== verification/Options.thy ===== *)
theory Options
  imports Prelude
begin

text \<open>
  The option store (\<open>src/options.c\<close>): a tree of named entries with a parent that is consulted when a
  name is not found. The red-black tree is a finite map from names to entries. A parent is never freed
  while a child points to it and is not changed through the child, so it is a part of the value. \<open>None\<close>
  is \<open>fatalx\<close>.
\<close>

section \<open>The code\<close>

datatype options_entry =
    OPTIONS_STRING string
  | OPTIONS_NUMBER int

type_synonym options_tree = "string \<Rightarrow> options_entry option"

datatype options = Options (oo_tree: options_tree) (oo_parent: "options option")

definition options_init :: "options option \<Rightarrow> options" where
  "options_init parent = Options Map.empty parent"

definition options_find1 :: "options \<Rightarrow> string \<Rightarrow> options_entry option" where
  "options_find1 oo name = oo_tree oo name"

fun options_find :: "options \<Rightarrow> string \<Rightarrow> options_entry option" where
  "options_find (Options tree parent) name =
     (case tree name of
        Some ent \<Rightarrow> Some ent
      | None \<Rightarrow> (case parent of None \<Rightarrow> None | Some oo \<Rightarrow> options_find oo name))"

definition options_remove :: "options \<Rightarrow> string \<Rightarrow> options" where
  "options_remove oo name =
     (case options_find1 oo name of
        None \<Rightarrow> oo
      | Some _ \<Rightarrow> Options ((oo_tree oo)(name := None)) (oo_parent oo))"

definition options_set_string :: "options \<Rightarrow> string \<Rightarrow> string \<Rightarrow> options" where
  "options_set_string oo name str = Options ((oo_tree oo)(name \<mapsto> OPTIONS_STRING str)) (oo_parent oo)"

definition options_get_string :: "options \<Rightarrow> string \<Rightarrow> string option" where
  "options_get_string oo name =
     (case options_find oo name of
        Some (OPTIONS_STRING str) \<Rightarrow> Some str
      | _ \<Rightarrow> None)"

definition options_set_number :: "options \<Rightarrow> string \<Rightarrow> int \<Rightarrow> options" where
  "options_set_number oo name val = Options ((oo_tree oo)(name \<mapsto> OPTIONS_NUMBER val)) (oo_parent oo)"

definition options_get_number :: "options \<Rightarrow> string \<Rightarrow> int option" where
  "options_get_number oo name =
     (case options_find oo name of
        Some (OPTIONS_NUMBER num) \<Rightarrow> Some num
      | _ \<Rightarrow> None)"

text \<open>An option read as a C truth value, and as a \<open>u_int\<close>.\<close>

definition options_get_bool :: "options \<Rightarrow> string \<Rightarrow> bool option" where
  "options_get_bool oo name = map_option (\<lambda>n. n \<noteq> 0) (options_get_number oo name)"

definition options_get_u_int :: "options \<Rightarrow> string \<Rightarrow> u_int option" where
  "options_get_u_int oo name = map_option (\<lambda>n. nat (n mod int UINT_MOD)) (options_get_number oo name)"

section \<open>What a lookup returns\<close>

lemma options_find_set [simp]:
  "options_find (options_set_number oo name val) m = (if m = name then Some (OPTIONS_NUMBER val) else options_find oo m)"
  "options_find (options_set_string oo name str) m = (if m = name then Some (OPTIONS_STRING str) else options_find oo m)"
  by (cases oo; simp add: options_set_number_def options_set_string_def)+

lemma options_find_remove:
  "options_find (options_remove oo name) m =
     (if m = name then Option.bind (oo_parent oo) (\<lambda>pp. options_find pp m) else options_find oo m)"
  by (cases oo) (auto simp: options_remove_def options_find1_def split: option.splits)

lemma options_parent [simp]:
  "oo_parent (options_set_number oo name val) = oo_parent oo"
  "oo_parent (options_set_string oo name str) = oo_parent oo"
  "oo_parent (options_remove oo name) = oo_parent oo"
  by (auto simp: options_set_number_def options_set_string_def options_remove_def split: option.splits)

lemma options_get_number_set [simp]:
  "options_get_number (options_set_number oo name val) m = (if m = name then Some val else options_get_number oo m)"
  by (simp add: options_get_number_def)



end
