(* ===== verification/Pane.thy ===== *)
theory Pane
  imports Screen_Write Options
begin

text \<open>
  A window pane (\<open>struct window_pane\<close>, \<open>struct input_ctx\<close> and the fields of \<open>struct window\<close> that a pane
  uses) and the pane operations of \<open>src/window.c\<close>: creation, resizing, the alternate screen and the timer
  that limits redrawing. \<open>wp_base\<close> is the pane's screen; \<open>wp_mode\<close> says whether a mode such as copy mode
  covers it. \<open>wp_tty\<close> is the list of commands drawn on the terminals so far, \<open>wp_reply\<close> the bytes written
  back to the program. The calls that only notify other parts of the server are recorded in \<open>w_calls\<close>.
\<close>

unbundle bit_operations_syntax

abbreviation "PANE_REDRAW \<equiv> (0x1 :: c_flags)"
abbreviation "PANE_DROP \<equiv> (0x2 :: c_flags)"
abbreviation "WINDOW_BELL \<equiv> (0x1 :: c_flags)"
abbreviation "WINDOW_ACTIVITY \<equiv> (0x2 :: c_flags)"
abbreviation "WINDOW_SILENCE \<equiv> (0x8 :: c_flags)"
abbreviation "INPUT_DISCARD \<equiv> (0x1 :: c_flags)"

section \<open>Data\<close>

datatype input_state =
    input_state_ground
  | input_state_esc_enter
  | input_state_esc_intermediate
  | input_state_csi_enter
  | input_state_csi_parameter
  | input_state_csi_intermediate
  | input_state_csi_ignore
  | input_state_dcs_enter
  | input_state_dcs_parameter
  | input_state_dcs_intermediate
  | input_state_dcs_handler
  | input_state_dcs_escape
  | input_state_dcs_ignore
  | input_state_osc_string
  | input_state_apc_string
  | input_state_rename_string
  | input_state_consume_st
  | input_state_utf8_three
  | input_state_utf8_two
  | input_state_utf8_one

text \<open>The buffers are lists of the bytes collected so far; the lengths are the lengths of the lists.\<close>

record input_ctx =
  ic_cell :: grid_cell
  ic_old_cell :: grid_cell
  ic_old_cx :: u_int
  ic_old_cy :: u_int
  ic_interm_buf :: "u_char list"
  ic_param_buf :: "u_char list"
  ic_input_buf :: "u_char list"
  ic_param_list :: "int list"
  ic_utf8data :: utf8_data
  ic_ch :: u_char
  ic_flags :: c_flags
  ic_state :: input_state
  ic_since_ground :: "u_char list"

datatype window_call =
    server_status_window
  | notify_window_renamed

record window =
  w_name :: "u_char list"
  w_flags :: c_flags
  w_options :: options
  w_calls :: "window_call list"

record window_pane =
  wp_id :: nat
  wp_window :: window
  wp_sx :: u_int
  wp_sy :: u_int
  wp_flags :: c_flags
  wp_changes :: u_int
  wp_changes_timer :: bool
  wp_changes_redraw :: u_int
  wp_input :: "u_char list"
  wp_reply :: "u_char list"
  wp_ictx :: input_ctx
  wp_base :: screen
  wp_saved_cx :: u_int
  wp_saved_cy :: u_int
  wp_saved_grid :: "grid option"
  wp_saved_cell :: grid_cell
  wp_mode :: bool
  wp_tty :: "(tty_cmd \<times> tty_ctx) list"

type_synonym pane_op = "window_pane \<Rightarrow> window_pane option"

section \<open>Creation\<close>

text \<open>\<open>input_init\<close> of \<open>src/input.c\<close>; the other fields are zero from \<open>xcalloc\<close>.\<close>

definition input_init :: input_ctx where
  "input_init =
     \<lparr>ic_cell = grid_default_cell, ic_old_cell = grid_default_cell, ic_old_cx = 0, ic_old_cy = 0,
      ic_interm_buf = [], ic_param_buf = [], ic_input_buf = [], ic_param_list = [],
      ic_utf8data = \<lparr>ud_data = replicate UTF8_SIZE 0, ud_have = 0, ud_size = 0, ud_width = 0\<rparr>,
      ic_ch = 0, ic_flags = 0, ic_state = input_state_ground, ic_since_ground = []\<rparr>"

definition window_pane_create ::
  "nat \<Rightarrow> u_char list option \<Rightarrow> window \<Rightarrow> u_int \<Rightarrow> u_int \<Rightarrow> u_int \<Rightarrow> window_pane option" where
  "window_pane_create next_id hn w sx sy hlimit = do {
     base \<leftarrow> screen_init hn sx sy hlimit;
     Some \<lparr>wp_id = next_id, wp_window = w, wp_sx = sx, wp_sy = sy, wp_flags = 0, wp_changes = 0,
           wp_changes_timer = False, wp_changes_redraw = 0, wp_input = [], wp_reply = [], wp_ictx = input_init,
           wp_base = base, wp_saved_cx = 0, wp_saved_cy = 0, wp_saved_grid = None,
           wp_saved_cell = \<lparr>gc_attr = 0, gc_flags = 0, gc_fg = 0, gc_bg = 0, gc_data = 0\<rparr>,
           wp_mode = False, wp_tty = []\<rparr>
   }"

section \<open>Updating a pane\<close>

definition upd_window :: "(window \<Rightarrow> window) \<Rightarrow> window_pane \<Rightarrow> window_pane" where
  "upd_window f wp = wp\<lparr>wp_window := f (wp_window wp)\<rparr>"

definition upd_ictx :: "(input_ctx \<Rightarrow> input_ctx) \<Rightarrow> window_pane \<Rightarrow> window_pane" where
  "upd_ictx f wp = wp\<lparr>wp_ictx := f (wp_ictx wp)\<rparr>"

definition upd_base :: "(screen \<Rightarrow> screen) \<Rightarrow> window_pane \<Rightarrow> window_pane" where
  "upd_base f wp = wp\<lparr>wp_base := f (wp_base wp)\<rparr>"

definition window_notify :: "window_call \<Rightarrow> window_pane \<Rightarrow> window_pane" where
  "window_notify c = upd_window (\<lambda>w. w\<lparr>w_calls := w_calls w @ [c]\<rparr>)"

definition pane_option :: "window_pane \<Rightarrow> string \<Rightarrow> int option" where
  "pane_option wp name = options_get_number (w_options (wp_window wp)) name"

text \<open>
  A writer on the pane's screen, in the context that \<open>input_parse\<close> opens: \<open>screen_write_start\<close> gets no
  pane when a mode covers the screen.
\<close>

definition on_ctx :: "writer \<Rightarrow> pane_op" where
  "on_ctx f wp = do {
     ctx \<leftarrow> f \<lparr>ctx_wp = (if wp_mode wp then None else Some (wp_id wp)), ctx_s = wp_base wp, ctx_out = wp_tty wp\<rparr>;
     Some (wp\<lparr>wp_base := ctx_s ctx, wp_tty := ctx_out ctx\<rparr>)
   }"

section \<open>Operations\<close>

definition window_set_name :: "u_char list \<Rightarrow> window_pane \<Rightarrow> window_pane" where
  "window_set_name new_name wp =
     window_notify notify_window_renamed (upd_window (\<lambda>w. w\<lparr>w_name := new_name\<rparr>) wp)"

definition window_pane_timer_start :: "window_pane \<Rightarrow> window_pane" where
  "window_pane_timer_start wp = wp\<lparr>wp_changes_timer := True\<rparr>"

text \<open>The timer has fired, so it is no longer pending.\<close>

definition window_pane_timer_callback :: pane_op where
  "window_pane_timer_callback wp = do {
     let wp = wp\<lparr>wp_changes_timer := False\<rparr>;
     interval \<leftarrow> options_get_u_int (w_options (wp_window wp)) ''c0-change-interval'';
     trigger \<leftarrow> options_get_u_int (w_options (wp_window wp)) ''c0-change-trigger'';
     let redraw = wp_changes_redraw wp;
     let wp = wp\<lparr>wp_changes_redraw := u_add redraw 1\<rparr>;
     let wp = (if redraw = interval
               then wp\<lparr>wp_flags := set_flag (wp_flags wp) PANE_REDRAW, wp_changes_redraw := 0\<rparr> else wp);
     let wp = (if trigger = 0 \<or> wp_changes wp < trigger
               then wp\<lparr>wp_flags := clear_flag (set_flag (wp_flags wp) PANE_REDRAW) PANE_DROP\<rparr>
               else window_pane_timer_start wp);
     Some (wp\<lparr>wp_changes := 0\<rparr>)
   }"

text \<open>Resizing a pane that no mode covers; the \<open>ioctl\<close> on the terminal of the program is left out.\<close>

definition window_pane_resize :: "u_int \<Rightarrow> u_int \<Rightarrow> pane_op" where
  "window_pane_resize sx sy wp =
     (if sx = wp_sx wp \<and> sy = wp_sy wp then Some wp
      else do {
        s \<leftarrow> screen_resize (wp_base wp) sx sy;
        Some (wp\<lparr>wp_sx := sx, wp_sy := sy, wp_base := s\<rparr>)
      })"

text \<open>The cell \<open>gc\<close> is the parser's current cell; leaving the alternate screen stores to it.\<close>

definition window_pane_alternate_on :: "grid_cell \<Rightarrow> pane_op" where
  "window_pane_alternate_on gc wp =
     (let s = wp_base wp; gd = scr_grid s; sx = screen_size_x s; sy = screen_size_y s
      in if wp_saved_grid wp \<noteq> None then Some wp
         else do {
           alternate \<leftarrow> options_get_bool (w_options (wp_window wp)) ''alternate-screen'';
           if \<not> alternate then Some wp
           else do {
             saved \<leftarrow> grid_create sx sy 0;
             saved \<leftarrow> grid_duplicate_lines saved 0 gd (gd_hsize (scr_grid s)) sy;
             gd' \<leftarrow> grid_view_clear gd 0 0 sx sy;
             Some (wp\<lparr>wp_saved_grid := Some saved, wp_saved_cx := scr_cx s, wp_saved_cy := scr_cy s,
                      wp_saved_cell := gc,
                      wp_base := s\<lparr>scr_grid := gd'\<lparr>gd_flags := clear_flag (gd_flags gd') GRID_HISTORY\<rparr>\<rparr>,
                      wp_flags := set_flag (wp_flags wp) PANE_REDRAW\<rparr>)
           }
         })"

definition window_pane_alternate_off :: "window_pane \<Rightarrow> (window_pane \<times> grid_cell option) option" where
  "window_pane_alternate_off wp =
     (case wp_saved_grid wp of
        None \<Rightarrow> Some (wp, None)
      | Some saved \<Rightarrow> do {
          alternate \<leftarrow> options_get_bool (w_options (wp_window wp)) ''alternate-screen'';
          if \<not> alternate then Some (wp, None)
          else do {
            let s = wp_base wp;
            let sx = screen_size_x s;
            let sy = screen_size_y s;
            s \<leftarrow> (if sy > gd_sy saved then screen_resize s sx (gd_sy saved) else Some s);
            gd \<leftarrow> grid_duplicate_lines (scr_grid s) (gd_hsize (scr_grid s)) saved 0 sy;
            let s = s\<lparr>scr_grid := gd\<rparr>;
            let s = s\<lparr>scr_cx := (if wp_saved_cx wp > u_sub (screen_size_x s) 1
                                 then u_sub (screen_size_x s) 1 else wp_saved_cx wp)\<rparr>;
            let s = s\<lparr>scr_cy := (if wp_saved_cy wp > u_sub (screen_size_y s) 1
                                 then u_sub (screen_size_y s) 1 else wp_saved_cy wp)\<rparr>;
            let s = s\<lparr>scr_grid := gd\<lparr>gd_flags := set_flag (gd_flags gd) GRID_HISTORY\<rparr>\<rparr>;
            s \<leftarrow> (if sy > gd_sy saved then screen_resize s sx sy else Some s);
            Some (wp\<lparr>wp_base := s, wp_saved_grid := None, wp_flags := set_flag (wp_flags wp) PANE_REDRAW\<rparr>,
                  Some (wp_saved_cell wp))
          }
        })"

end
