(* ===== verification/Input.thy ===== *)
theory Input
  imports Pane Cstring
begin

text \<open>
  The parser of what the programs in the panes write (\<open>src/input.c\<close>): the transition tables of its twenty
  states, the entry and exit actions, and the handlers, which act on the pane. A handler returns the pane
  and its C result; \<open>None\<close> is an invalid memory access or \<open>fatalx\<close>. Bytes are \<open>u_char\<close> and the tables are
  searched as in the code.
\<close>

unbundle bit_operations_syntax

section \<open>Tables\<close>

datatype input_type =
    INPUT_ESC_DECALN | INPUT_ESC_DECKPAM | INPUT_ESC_DECKPNM | INPUT_ESC_DECRC | INPUT_ESC_DECSC
  | INPUT_ESC_HTS | INPUT_ESC_IND | INPUT_ESC_NEL | INPUT_ESC_RI | INPUT_ESC_RIS
  | INPUT_ESC_SCSOFF_G0 | INPUT_ESC_SCSON_G0
  | INPUT_CSI_CBT | INPUT_CSI_CNL | INPUT_CSI_CPL | INPUT_CSI_CUB | INPUT_CSI_CUD | INPUT_CSI_CUF
  | INPUT_CSI_CUP | INPUT_CSI_CUU | INPUT_CSI_DA | INPUT_CSI_DA_TWO | INPUT_CSI_DCH | INPUT_CSI_DECSCUSR
  | INPUT_CSI_DECSTBM | INPUT_CSI_DL | INPUT_CSI_DSR | INPUT_CSI_ED | INPUT_CSI_EL | INPUT_CSI_HPA
  | INPUT_CSI_ICH | INPUT_CSI_IL | INPUT_CSI_RCP | INPUT_CSI_RM | INPUT_CSI_RM_PRIVATE | INPUT_CSI_SCP
  | INPUT_CSI_SGR | INPUT_CSI_SM | INPUT_CSI_SM_PRIVATE | INPUT_CSI_TBC | INPUT_CSI_VPA

text \<open>An entry: the final byte, the intermediate bytes and the type.\<close>

type_synonym input_table_entry = "u_char \<times> u_char list \<times> input_type"

definition input_esc_table :: "input_table_entry list" where
  "input_esc_table =
     [(0x30, [0x28], INPUT_ESC_SCSOFF_G0),
      (0x37, [], INPUT_ESC_DECSC),
      (0x38, [], INPUT_ESC_DECRC),
      (0x38, [0x23], INPUT_ESC_DECALN),
      (0x3d, [], INPUT_ESC_DECKPAM),
      (0x3e, [], INPUT_ESC_DECKPNM),
      (0x42, [0x28], INPUT_ESC_SCSON_G0),
      (0x44, [], INPUT_ESC_IND),
      (0x45, [], INPUT_ESC_NEL),
      (0x48, [], INPUT_ESC_HTS),
      (0x4d, [], INPUT_ESC_RI),
      (0x63, [], INPUT_ESC_RIS)]"

definition input_csi_table :: "input_table_entry list" where
  "input_csi_table =
     [(0x40, [], INPUT_CSI_ICH),
      (0x41, [], INPUT_CSI_CUU),
      (0x42, [], INPUT_CSI_CUD),
      (0x43, [], INPUT_CSI_CUF),
      (0x44, [], INPUT_CSI_CUB),
      (0x45, [], INPUT_CSI_CNL),
      (0x46, [], INPUT_CSI_CPL),
      (0x47, [], INPUT_CSI_HPA),
      (0x48, [], INPUT_CSI_CUP),
      (0x4a, [], INPUT_CSI_ED),
      (0x4b, [], INPUT_CSI_EL),
      (0x4c, [], INPUT_CSI_IL),
      (0x4d, [], INPUT_CSI_DL),
      (0x50, [], INPUT_CSI_DCH),
      (0x5a, [], INPUT_CSI_CBT),
      (0x63, [], INPUT_CSI_DA),
      (0x63, [0x3e], INPUT_CSI_DA_TWO),
      (0x64, [], INPUT_CSI_VPA),
      (0x66, [], INPUT_CSI_CUP),
      (0x67, [], INPUT_CSI_TBC),
      (0x68, [], INPUT_CSI_SM),
      (0x68, [0x3f], INPUT_CSI_SM_PRIVATE),
      (0x6c, [], INPUT_CSI_RM),
      (0x6c, [0x3f], INPUT_CSI_RM_PRIVATE),
      (0x6d, [], INPUT_CSI_SGR),
      (0x6e, [], INPUT_CSI_DSR),
      (0x71, [0x20], INPUT_CSI_DECSCUSR),
      (0x72, [], INPUT_CSI_DECSTBM),
      (0x73, [], INPUT_CSI_SCP),
      (0x75, [], INPUT_CSI_RCP)]"

text \<open>\<open>strcmp\<close> on byte strings that contain no NUL.\<close>

fun strcmp :: "u_char list \<Rightarrow> u_char list \<Rightarrow> int" where
  "strcmp [] [] = 0"
| "strcmp (a # s) [] = uint a"
| "strcmp [] (b # t) = - uint b"
| "strcmp (a # s) (b # t) = (if a \<noteq> b then uint a - uint b else strcmp s t)"

definition input_table_compare :: "u_char \<Rightarrow> u_char list \<Rightarrow> input_table_entry \<Rightarrow> int" where
  "input_table_compare ch interm ent =
     (case ent of (ech, einterm, _) \<Rightarrow>
        if ch \<noteq> ech then uint ch - uint ech else strcmp interm einterm)"

text \<open>The library function \<open>bsearch\<close> on \<open>lim\<close> entries from index \<open>base\<close>.\<close>

function bsearch_loop :: "('e \<Rightarrow> int) \<Rightarrow> 'e list \<Rightarrow> nat \<Rightarrow> nat \<Rightarrow> 'e option" where
  "bsearch_loop compar xs base lim =
     (if lim = 0 then None
      else let p = base + lim div 2; c = compar (xs ! p)
        in if c = 0 then Some (xs ! p)
           else if c > 0 then bsearch_loop compar xs (p + 1) ((lim - 1) div 2)
           else bsearch_loop compar xs base (lim div 2))"
  by pat_completeness auto
termination
  by (relation "measure (\<lambda>(compar, xs, base, lim). lim)") auto

declare bsearch_loop.simps [simp del]

definition bsearch :: "('e \<Rightarrow> int) \<Rightarrow> 'e list \<Rightarrow> 'e option" where
  "bsearch compar xs = bsearch_loop compar xs 0 (length xs)"

section \<open>States\<close>

datatype input_handler =
    H_print | H_intermediate | H_parameter | H_input | H_c0_dispatch | H_esc_dispatch | H_csi_dispatch
  | H_dcs_dispatch | H_utf8_open | H_utf8_add | H_utf8_close

record input_transition =
  it_first :: u_char
  it_last :: u_char
  it_handler :: "input_handler option"
  it_state :: "input_state option"

abbreviation "tr a b h st \<equiv> \<lparr>it_first = a, it_last = b, it_handler = h, it_state = st\<rparr>"

abbreviation "to_ground \<equiv> Some input_state_ground"

definition INPUT_STATE_ANYWHERE :: "input_transition list" where
  "INPUT_STATE_ANYWHERE =
     [tr 0x18 0x18 (Some H_c0_dispatch) to_ground,
      tr 0x1a 0x1a (Some H_c0_dispatch) to_ground,
      tr 0x1b 0x1b None (Some input_state_esc_enter)]"

text \<open>The control characters that are executed, or ignored, in most states.\<close>

definition c0_rows :: "input_handler option \<Rightarrow> input_transition list" where
  "c0_rows h = [tr 0x00 0x17 h None, tr 0x19 0x19 h None, tr 0x1c 0x1f h None]"

definition input_state_ground_table :: "input_transition list" where
  "input_state_ground_table = INPUT_STATE_ANYWHERE @ c0_rows (Some H_c0_dispatch) @
     [tr 0x20 0x7e (Some H_print) None,
      tr 0x7f 0x7f None None,
      tr 0x80 0xc1 (Some H_print) None,
      tr 0xc2 0xdf (Some H_utf8_open) (Some input_state_utf8_one),
      tr 0xe0 0xef (Some H_utf8_open) (Some input_state_utf8_two),
      tr 0xf0 0xf4 (Some H_utf8_open) (Some input_state_utf8_three),
      tr 0xf5 0xff (Some H_print) None]"

definition input_state_esc_enter_table :: "input_transition list" where
  "input_state_esc_enter_table = INPUT_STATE_ANYWHERE @ c0_rows (Some H_c0_dispatch) @
     [tr 0x20 0x2f (Some H_intermediate) (Some input_state_esc_intermediate),
      tr 0x30 0x4f (Some H_esc_dispatch) to_ground,
      tr 0x50 0x50 None (Some input_state_dcs_enter),
      tr 0x51 0x57 (Some H_esc_dispatch) to_ground,
      tr 0x58 0x58 None (Some input_state_consume_st),
      tr 0x59 0x59 (Some H_esc_dispatch) to_ground,
      tr 0x5a 0x5a (Some H_esc_dispatch) to_ground,
      tr 0x5b 0x5b None (Some input_state_csi_enter),
      tr 0x5c 0x5c (Some H_esc_dispatch) to_ground,
      tr 0x5d 0x5d None (Some input_state_osc_string),
      tr 0x5e 0x5e None (Some input_state_consume_st),
      tr 0x5f 0x5f None (Some input_state_apc_string),
      tr 0x60 0x6a (Some H_esc_dispatch) to_ground,
      tr 0x6b 0x6b None (Some input_state_rename_string),
      tr 0x6c 0x7e (Some H_esc_dispatch) to_ground,
      tr 0x7f 0xff None None]"

definition input_state_esc_intermediate_table :: "input_transition list" where
  "input_state_esc_intermediate_table = INPUT_STATE_ANYWHERE @ c0_rows (Some H_c0_dispatch) @
     [tr 0x20 0x2f (Some H_intermediate) None,
      tr 0x30 0x7e (Some H_esc_dispatch) to_ground,
      tr 0x7f 0xff None None]"

definition input_state_csi_enter_table :: "input_transition list" where
  "input_state_csi_enter_table = INPUT_STATE_ANYWHERE @ c0_rows (Some H_c0_dispatch) @
     [tr 0x20 0x2f (Some H_intermediate) (Some input_state_csi_intermediate),
      tr 0x30 0x39 (Some H_parameter) (Some input_state_csi_parameter),
      tr 0x3a 0x3a None (Some input_state_csi_ignore),
      tr 0x3b 0x3b (Some H_parameter) (Some input_state_csi_parameter),
      tr 0x3c 0x3f (Some H_intermediate) (Some input_state_csi_parameter),
      tr 0x40 0x7e (Some H_csi_dispatch) to_ground,
      tr 0x7f 0xff None None]"

definition input_state_csi_parameter_table :: "input_transition list" where
  "input_state_csi_parameter_table = INPUT_STATE_ANYWHERE @ c0_rows (Some H_c0_dispatch) @
     [tr 0x20 0x2f (Some H_intermediate) (Some input_state_csi_intermediate),
      tr 0x30 0x39 (Some H_parameter) None,
      tr 0x3a 0x3a None (Some input_state_csi_ignore),
      tr 0x3b 0x3b (Some H_parameter) None,
      tr 0x3c 0x3f None (Some input_state_csi_ignore),
      tr 0x40 0x7e (Some H_csi_dispatch) to_ground,
      tr 0x7f 0xff None None]"

definition input_state_csi_intermediate_table :: "input_transition list" where
  "input_state_csi_intermediate_table = INPUT_STATE_ANYWHERE @ c0_rows (Some H_c0_dispatch) @
     [tr 0x20 0x2f (Some H_intermediate) None,
      tr 0x30 0x3f None (Some input_state_csi_ignore),
      tr 0x40 0x7e (Some H_csi_dispatch) to_ground,
      tr 0x7f 0xff None None]"

definition input_state_csi_ignore_table :: "input_transition list" where
  "input_state_csi_ignore_table = INPUT_STATE_ANYWHERE @ c0_rows (Some H_c0_dispatch) @
     [tr 0x20 0x3f None None,
      tr 0x40 0x7e None to_ground,
      tr 0x7f 0xff None None]"

definition input_state_dcs_enter_table :: "input_transition list" where
  "input_state_dcs_enter_table = INPUT_STATE_ANYWHERE @ c0_rows None @
     [tr 0x20 0x2f (Some H_intermediate) (Some input_state_dcs_intermediate),
      tr 0x30 0x39 (Some H_parameter) (Some input_state_dcs_parameter),
      tr 0x3a 0x3a None (Some input_state_dcs_ignore),
      tr 0x3b 0x3b (Some H_parameter) (Some input_state_dcs_parameter),
      tr 0x3c 0x3f (Some H_intermediate) (Some input_state_dcs_parameter),
      tr 0x40 0x7e (Some H_input) (Some input_state_dcs_handler),
      tr 0x7f 0xff None None]"

definition input_state_dcs_parameter_table :: "input_transition list" where
  "input_state_dcs_parameter_table = INPUT_STATE_ANYWHERE @ c0_rows None @
     [tr 0x20 0x2f (Some H_intermediate) (Some input_state_dcs_intermediate),
      tr 0x30 0x39 (Some H_parameter) None,
      tr 0x3a 0x3a None (Some input_state_dcs_ignore),
      tr 0x3b 0x3b (Some H_parameter) None,
      tr 0x3c 0x3f None (Some input_state_dcs_ignore),
      tr 0x40 0x7e (Some H_input) (Some input_state_dcs_handler),
      tr 0x7f 0xff None None]"

definition input_state_dcs_intermediate_table :: "input_transition list" where
  "input_state_dcs_intermediate_table = INPUT_STATE_ANYWHERE @ c0_rows None @
     [tr 0x20 0x2f (Some H_intermediate) None,
      tr 0x30 0x3f None (Some input_state_dcs_ignore),
      tr 0x40 0x7e (Some H_input) (Some input_state_dcs_handler),
      tr 0x7f 0xff None None]"

definition input_state_dcs_handler_table :: "input_transition list" where
  "input_state_dcs_handler_table =
     [tr 0x00 0x1a (Some H_input) None,
      tr 0x1b 0x1b None (Some input_state_dcs_escape),
      tr 0x1c 0xff (Some H_input) None]"

definition input_state_dcs_escape_table :: "input_transition list" where
  "input_state_dcs_escape_table =
     [tr 0x00 0x5b (Some H_input) (Some input_state_dcs_handler),
      tr 0x5c 0x5c (Some H_dcs_dispatch) to_ground,
      tr 0x5d 0xff (Some H_input) (Some input_state_dcs_handler)]"

definition input_state_dcs_ignore_table :: "input_transition list" where
  "input_state_dcs_ignore_table = INPUT_STATE_ANYWHERE @ c0_rows None @ [tr 0x20 0xff None None]"

definition input_state_osc_string_table :: "input_transition list" where
  "input_state_osc_string_table = INPUT_STATE_ANYWHERE @
     [tr 0x00 0x06 None None,
      tr 0x07 0x07 None to_ground,
      tr 0x08 0x17 None None,
      tr 0x19 0x19 None None,
      tr 0x1c 0x1f None None,
      tr 0x20 0xff (Some H_input) None]"

definition input_state_apc_string_table :: "input_transition list" where
  "input_state_apc_string_table = INPUT_STATE_ANYWHERE @ c0_rows None @ [tr 0x20 0xff (Some H_input) None]"

definition input_state_rename_string_table :: "input_transition list" where
  "input_state_rename_string_table = INPUT_STATE_ANYWHERE @ c0_rows None @ [tr 0x20 0xff (Some H_input) None]"

definition input_state_consume_st_table :: "input_transition list" where
  "input_state_consume_st_table = INPUT_STATE_ANYWHERE @ c0_rows None @ [tr 0x20 0xff None None]"

definition input_state_utf8_three_table :: "input_transition list" where
  "input_state_utf8_three_table =
     [tr 0x00 0x7f None to_ground,
      tr 0x80 0xbf (Some H_utf8_add) (Some input_state_utf8_two),
      tr 0xc0 0xff None to_ground]"

definition input_state_utf8_two_table :: "input_transition list" where
  "input_state_utf8_two_table =
     [tr 0x00 0x7f None to_ground,
      tr 0x80 0xbf (Some H_utf8_add) (Some input_state_utf8_one),
      tr 0xc0 0xff None to_ground]"

definition input_state_utf8_one_table :: "input_transition list" where
  "input_state_utf8_one_table =
     [tr 0x00 0x7f None to_ground,
      tr 0x80 0xbf (Some H_utf8_close) to_ground,
      tr 0xc0 0xff None to_ground]"

fun input_transitions :: "input_state \<Rightarrow> input_transition list" where
  "input_transitions input_state_ground = input_state_ground_table"
| "input_transitions input_state_esc_enter = input_state_esc_enter_table"
| "input_transitions input_state_esc_intermediate = input_state_esc_intermediate_table"
| "input_transitions input_state_csi_enter = input_state_csi_enter_table"
| "input_transitions input_state_csi_parameter = input_state_csi_parameter_table"
| "input_transitions input_state_csi_intermediate = input_state_csi_intermediate_table"
| "input_transitions input_state_csi_ignore = input_state_csi_ignore_table"
| "input_transitions input_state_dcs_enter = input_state_dcs_enter_table"
| "input_transitions input_state_dcs_parameter = input_state_dcs_parameter_table"
| "input_transitions input_state_dcs_intermediate = input_state_dcs_intermediate_table"
| "input_transitions input_state_dcs_handler = input_state_dcs_handler_table"
| "input_transitions input_state_dcs_escape = input_state_dcs_escape_table"
| "input_transitions input_state_dcs_ignore = input_state_dcs_ignore_table"
| "input_transitions input_state_osc_string = input_state_osc_string_table"
| "input_transitions input_state_apc_string = input_state_apc_string_table"
| "input_transitions input_state_rename_string = input_state_rename_string_table"
| "input_transitions input_state_consume_st = input_state_consume_st_table"
| "input_transitions input_state_utf8_three = input_state_utf8_three_table"
| "input_transitions input_state_utf8_two = input_state_utf8_two_table"
| "input_transitions input_state_utf8_one = input_state_utf8_one_table"

text \<open>The first transition whose range has the byte; \<open>fatalx\<close> when there is none.\<close>

definition input_find_transition :: "input_state \<Rightarrow> u_char \<Rightarrow> input_transition option" where
  "input_find_transition st ch = find (\<lambda>itr. it_first itr \<le> ch \<and> ch \<le> it_last itr) (input_transitions st)"

end
