(* ===== verification/Input_Parse.thy ===== *)
theory Input_Parse
  imports Input
begin

text \<open>
  The parser itself (the functions of \<open>src/input.c\<close> after its tables): collecting parameters, the handlers
  and the loop over the bytes of a pane.
\<close>

unbundle bit_operations_syntax

section \<open>Parameters\<close>

abbreviation "ictx wp \<equiv> wp_ictx wp"

text \<open>\<open>strsep (&ptr, ";")\<close> until it returns \<open>NULL\<close>: the fields between the separators.\<close>

fun strsep_fields :: "u_char list \<Rightarrow> u_char list list" where
  "strsep_fields [] = [[]]"
| "strsep_fields (c # cs) =
     (if c = 0x3b then [] # strsep_fields cs
      else (case strsep_fields cs of out # outs \<Rightarrow> (c # out) # outs | [] \<Rightarrow> [[c]]))"

definition param_string :: "u_char list \<Rightarrow> string" where
  "param_string = map (\<lambda>b. char_of (unat b))"

text \<open>
  The loop over the fields: the parameters read, and whether the result is 0. The list has room for 24
  parameters.
\<close>

fun input_split_loop :: "u_char list list \<Rightarrow> int list \<Rightarrow> int list \<times> bool" where
  "input_split_loop [] param_list = (param_list, True)"
| "input_split_loop (out # outs) param_list =
     (case (if out = [] then Some (-1) else strtonum (param_string out) 0 2147483647) of
        None \<Rightarrow> (param_list, False)
      | Some n \<Rightarrow>
          let param_list = param_list @ [n]
          in if length param_list = 24 then (param_list, False) else input_split_loop outs param_list)"

definition input_split :: "input_ctx \<Rightarrow> int list \<times> bool" where
  "input_split ic =
     (if ic_param_buf ic = [] then ([], True) else input_split_loop (strsep_fields (ic_param_buf ic)) [])"

definition input_get :: "int list \<Rightarrow> nat \<Rightarrow> int \<Rightarrow> int \<Rightarrow> int" where
  "input_get param_list validx minval defval =
     (if validx \<ge> length param_list then defval
      else let retval = param_list ! validx
        in if retval = -1 then defval else if retval < minval then minval else retval)"

text \<open>Writing back to the program.\<close>

definition input_reply :: "string \<Rightarrow> window_pane \<Rightarrow> window_pane" where
  "input_reply reply wp = wp\<lparr>wp_reply := wp_reply wp @ map (\<lambda>c. of_nat (of_char c)) reply\<rparr>"

definition input_clear :: "input_ctx \<Rightarrow> input_ctx" where
  "input_clear ic =
     ic\<lparr>ic_interm_buf := [], ic_param_buf := [], ic_input_buf := [],
        ic_flags := clear_flag (ic_flags ic) INPUT_DISCARD\<rparr>"

section \<open>Simple handlers\<close>

definition input_print :: pane_op where
  "input_print wp = do {
     let wp = upd_ictx (\<lambda>ic. ic\<lparr>ic_cell := (ic_cell ic)\<lparr>gc_data := ic_ch ic\<rparr>\<rparr>) wp;
     on_ctx (\<lambda>ctx. screen_write_cell ctx (ic_cell (ictx wp)) None) wp
   }"

text \<open>Collecting a byte in a buffer of \<open>size\<close> bytes, one of which is the terminating NUL.\<close>

definition collect_byte :: "nat \<Rightarrow> (input_ctx \<Rightarrow> u_char list) \<Rightarrow> ((u_char list \<Rightarrow> u_char list) \<Rightarrow> input_ctx \<Rightarrow> input_ctx) \<Rightarrow>
    input_ctx \<Rightarrow> input_ctx" where
  "collect_byte bufsize buf upd ic =
     (if length (buf ic) = bufsize - 1 then ic\<lparr>ic_flags := set_flag (ic_flags ic) INPUT_DISCARD\<rparr>
      else upd (\<lambda>b. b @ [ic_ch ic]) ic)"

definition input_intermediate :: "input_ctx \<Rightarrow> input_ctx" where
  "input_intermediate = collect_byte 4 ic_interm_buf ic_interm_buf_update"

definition input_parameter :: "input_ctx \<Rightarrow> input_ctx" where
  "input_parameter = collect_byte 64 ic_param_buf ic_param_buf_update"

definition input_input :: "input_ctx \<Rightarrow> input_ctx" where
  "input_input = collect_byte 256 ic_input_buf ic_input_buf_update"

section \<open>Control characters\<close>

text \<open>The loop of the horizontal tab, entered with \<open>cx < sx - 1\<close>.\<close>

function tab_right :: "bool list \<Rightarrow> u_int \<Rightarrow> u_int \<Rightarrow> u_int option" where
  "tab_right tabs sx cx = do {
     let cx = cx + 1;
     stop \<leftarrow> get_at tabs cx;
     if stop then Some cx
     else if cx < sx - 1 then tab_right tabs sx cx else Some cx
   }"
  by pat_completeness auto
termination
  by (relation "measure (\<lambda>(tabs, sx, cx). sx - cx)") auto

declare tab_right.simps [simp del]

definition input_tab :: "screen \<Rightarrow> screen option" where
  "input_tab s =
     (if scr_cx s \<ge> u_sub (screen_size_x s) 1 then Some s
      else do {
        cx \<leftarrow> tab_right (scr_tabs s) (screen_size_x s) (scr_cx s);
        Some (s\<lparr>scr_cx := cx\<rparr>)
      })"

definition on_base :: "(screen \<Rightarrow> screen option) \<Rightarrow> pane_op" where
  "on_base f wp = do { s \<leftarrow> f (wp_base wp); Some (wp\<lparr>wp_base := s\<rparr>) }"

definition count_c0 :: pane_op where
  "count_c0 wp = do {
     trigger \<leftarrow> options_get_u_int (w_options (wp_window wp)) ''c0-change-trigger'';
     let wp = wp\<lparr>wp_changes := u_add (wp_changes wp) 1\<rparr>;
     if wp_changes wp = trigger
     then Some (window_pane_timer_start (wp\<lparr>wp_flags := set_flag (wp_flags wp) PANE_DROP\<rparr>))
     else Some wp
   }"

definition cell_attr :: "(u_char \<Rightarrow> u_char) \<Rightarrow> input_ctx \<Rightarrow> input_ctx" where
  "cell_attr f ic = ic\<lparr>ic_cell := (ic_cell ic)\<lparr>gc_attr := f (gc_attr (ic_cell ic))\<rparr>\<rparr>"

definition input_c0_dispatch :: pane_op where
  "input_c0_dispatch wp =
     (let ch = ic_ch (ictx wp)
      in if ch = 0x07 then Some (upd_window (\<lambda>w. w\<lparr>w_flags := set_flag (w_flags w) WINDOW_BELL\<rparr>) wp)
         else if ch = 0x08 then do { wp \<leftarrow> on_ctx screen_write_backspace wp; count_c0 wp }
         else if ch = 0x09 then on_base input_tab wp
         else if ch = 0x0a \<or> ch = 0x0b \<or> ch = 0x0c then do {
           wp \<leftarrow> on_ctx (\<lambda>ctx. screen_write_linefeed ctx False) wp;
           count_c0 wp
         }
         else if ch = 0x0d then do {
           wp \<leftarrow> on_ctx (\<lambda>ctx. Some (screen_write_carriagereturn ctx)) wp;
           count_c0 wp
         }
         else if ch = 0x0e then Some (upd_ictx (cell_attr (\<lambda>a. set_flag a GRID_ATTR_CHARSET)) wp)
         else if ch = 0x0f then Some (upd_ictx (cell_attr (\<lambda>a. clear_flag a GRID_ATTR_CHARSET)) wp)
         else Some wp)"

section \<open>Escape sequences\<close>

definition save_cursor :: "window_pane \<Rightarrow> window_pane" where
  "save_cursor wp = upd_ictx (\<lambda>ic. ic\<lparr>ic_old_cell := ic_cell ic,
     ic_old_cx := scr_cx (wp_base wp), ic_old_cy := scr_cy (wp_base wp)\<rparr>) wp"

definition restore_cursor :: pane_op where
  "restore_cursor wp = do {
     let wp = upd_ictx (\<lambda>ic. ic\<lparr>ic_cell := ic_old_cell ic\<rparr>) wp;
     on_ctx (\<lambda>ctx. Some (screen_write_cursormove ctx (ic_old_cx (ictx wp)) (ic_old_cy (ictx wp)))) wp
   }"

definition input_esc_type :: "input_type \<Rightarrow> pane_op" where
  "input_esc_type ty wp =
     (case ty of
        INPUT_ESC_RIS \<Rightarrow>
          on_ctx screen_write_reset
            (upd_ictx (\<lambda>ic. ic\<lparr>ic_cell := grid_default_cell, ic_old_cell := grid_default_cell,
               ic_old_cx := 0, ic_old_cy := 0\<rparr>) wp)
      | INPUT_ESC_IND \<Rightarrow> on_ctx (\<lambda>ctx. screen_write_linefeed ctx False) wp
      | INPUT_ESC_NEL \<Rightarrow> on_ctx (\<lambda>ctx. screen_write_linefeed (screen_write_carriagereturn ctx) False) wp
      | INPUT_ESC_HTS \<Rightarrow>
          on_base (\<lambda>s. if scr_cx s < screen_size_x s then do {
             tabs \<leftarrow> put_at (scr_cx s) True (scr_tabs s);
             Some (s\<lparr>scr_tabs := tabs\<rparr>)
           } else Some s) wp
      | INPUT_ESC_RI \<Rightarrow> on_ctx screen_write_reverseindex wp
      | INPUT_ESC_DECKPAM \<Rightarrow> on_ctx (\<lambda>ctx. Some (screen_write_kkeypadmode ctx True)) wp
      | INPUT_ESC_DECKPNM \<Rightarrow> on_ctx (\<lambda>ctx. Some (screen_write_kkeypadmode ctx False)) wp
      | INPUT_ESC_DECSC \<Rightarrow> Some (save_cursor wp)
      | INPUT_ESC_DECRC \<Rightarrow> restore_cursor wp
      | INPUT_ESC_DECALN \<Rightarrow> on_ctx screen_write_alignmenttest wp
      | INPUT_ESC_SCSON_G0 \<Rightarrow> Some (upd_ictx (cell_attr (\<lambda>a. clear_flag a GRID_ATTR_CHARSET)) wp)
      | INPUT_ESC_SCSOFF_G0 \<Rightarrow> Some (upd_ictx (cell_attr (\<lambda>a. set_flag a GRID_ATTR_CHARSET)) wp)
      | _ \<Rightarrow> Some wp)"

definition input_esc_dispatch :: pane_op where
  "input_esc_dispatch wp =
     (let ic = ictx wp
      in if has_flag (ic_flags ic) INPUT_DISCARD then Some wp
         else case bsearch (input_table_compare (ic_ch ic) (ic_interm_buf ic)) input_esc_table of
           None \<Rightarrow> Some wp
         | Some (_, _, ty) \<Rightarrow> input_esc_type ty wp)"

section \<open>Select graphic rendition\<close>

definition sgr_reset :: "grid_cell \<Rightarrow> grid_cell" where
  "sgr_reset gc = grid_default_cell\<lparr>gc_attr := gc_attr grid_default_cell OR (gc_attr gc AND GRID_ATTR_CHARSET)\<rparr>"

definition set_fg :: "bool \<Rightarrow> u_char \<Rightarrow> grid_cell \<Rightarrow> grid_cell" where
  "set_fg palette c gc = gc\<lparr>gc_fg := c,
     gc_flags := (if palette then set_flag (gc_flags gc) GRID_FLAG_FG256 else clear_flag (gc_flags gc) GRID_FLAG_FG256)\<rparr>"

definition set_bg :: "bool \<Rightarrow> u_char \<Rightarrow> grid_cell \<Rightarrow> grid_cell" where
  "set_bg palette c gc = gc\<lparr>gc_bg := c,
     gc_flags := (if palette then set_flag (gc_flags gc) GRID_FLAG_BG256 else clear_flag (gc_flags gc) GRID_FLAG_BG256)\<rparr>"

definition attr_on :: "u_char \<Rightarrow> grid_cell \<Rightarrow> grid_cell" where
  "attr_on a gc = gc\<lparr>gc_attr := set_flag (gc_attr gc) a\<rparr>"

definition attr_off :: "u_char \<Rightarrow> grid_cell \<Rightarrow> grid_cell" where
  "attr_off a gc = gc\<lparr>gc_attr := clear_flag (gc_attr gc) a\<rparr>"

text \<open>The big switch.\<close>

definition sgr_single :: "int \<Rightarrow> grid_cell \<Rightarrow> grid_cell" where
  "sgr_single n gc =
     (if n = 0 \<or> n = 10 then sgr_reset gc
      else if n = 1 then attr_on GRID_ATTR_BRIGHT gc
      else if n = 2 then attr_on GRID_ATTR_DIM gc
      else if n = 3 then attr_on GRID_ATTR_ITALICS gc
      else if n = 4 then attr_on GRID_ATTR_UNDERSCORE gc
      else if n = 5 then attr_on GRID_ATTR_BLINK gc
      else if n = 7 then attr_on GRID_ATTR_REVERSE gc
      else if n = 8 then attr_on GRID_ATTR_HIDDEN gc
      else if n = 22 then attr_off (GRID_ATTR_BRIGHT OR GRID_ATTR_DIM) gc
      else if n = 23 then attr_off GRID_ATTR_ITALICS gc
      else if n = 24 then attr_off GRID_ATTR_UNDERSCORE gc
      else if n = 25 then attr_off GRID_ATTR_BLINK gc
      else if n = 27 then attr_off GRID_ATTR_REVERSE gc
      else if 30 \<le> n \<and> n \<le> 37 then set_fg False (of_int (n - 30)) gc
      else if n = 39 then set_fg False 8 gc
      else if 40 \<le> n \<and> n \<le> 47 then set_bg False (of_int (n - 40)) gc
      else if n = 49 then set_bg False 8 gc
      else if 90 \<le> n \<and> n \<le> 97 then set_fg False (of_int n) gc
      else if 100 \<le> n \<and> n \<le> 107 then set_bg False (of_int (n - 10)) gc
      else gc)"

text \<open>The palette colours \<open>38;5;m\<close> and \<open>48;5;m\<close>: \<open>m\<close> is -1 when it is missing.\<close>

definition sgr_palette :: "int \<Rightarrow> int \<Rightarrow> grid_cell \<Rightarrow> grid_cell" where
  "sgr_palette n m gc =
     (if m = -1 then (if n = 38 then set_fg False 8 gc else set_bg False 8 gc)
      else (if n = 38 then set_fg True (of_int m) gc else set_bg True (of_int m) gc))"

function sgr_loop :: "int list \<Rightarrow> nat \<Rightarrow> grid_cell \<Rightarrow> grid_cell" where
  "sgr_loop params i gc =
     (if i < length params then
        let n = input_get params i 0 0
        in if n = 38 \<or> n = 48 then
             if input_get params (i + 1) 0 (-1) \<noteq> 5 then sgr_loop params (i + 2) gc
             else sgr_loop params (i + 3) (sgr_palette n (input_get params (i + 2) 0 (-1)) gc)
           else sgr_loop params (i + 1) (sgr_single n gc)
      else gc)"
  by pat_completeness auto
termination
  by (relation "measure (\<lambda>(params, i, gc). length params - i)") auto

declare sgr_loop.simps [simp del]

definition input_csi_dispatch_sgr :: "int list \<Rightarrow> grid_cell \<Rightarrow> grid_cell" where
  "input_csi_dispatch_sgr params gc = (if params = [] then sgr_reset gc else sgr_loop params 0 gc)"

section \<open>Control sequences\<close>

text \<open>
  The loops of the backward tab: \<open>do s->cx--; while (s->cx > 0 && !bit_test (s->tabs, s->cx))\<close>, \<open>n\<close> times.
\<close>

fun tab_left :: "bool list \<Rightarrow> u_int \<Rightarrow> u_int option" where
  "tab_left tabs 0 = Some 0"
| "tab_left tabs (Suc cx) =
     (if cx = 0 then Some cx
      else do {
        stop \<leftarrow> get_at tabs cx;
        if stop then Some cx else tab_left tabs cx
      })"

fun tab_back :: "bool list \<Rightarrow> nat \<Rightarrow> u_int \<Rightarrow> u_int option" where
  "tab_back tabs 0 cx = Some cx"
| "tab_back tabs (Suc n) cx =
     (if cx > 0 then do { cx \<leftarrow> tab_left tabs cx; tab_back tabs n cx } else Some cx)"

definition input_cbt :: "nat \<Rightarrow> screen \<Rightarrow> screen option" where
  "input_cbt n s = do {
     cx \<leftarrow> tab_back (scr_tabs s) n (scr_cx s);
     Some (s\<lparr>scr_cx := cx\<rparr>)
   }"

text \<open>The arguments that count rows or columns, at least 1.\<close>

abbreviation input_count :: "int list \<Rightarrow> nat \<Rightarrow> nat" where
  "input_count params i \<equiv> nat (input_get params i 1 1)"

definition set_mode :: "(screen_write_ctx \<Rightarrow> bool \<Rightarrow> screen_write_ctx) \<Rightarrow> bool \<Rightarrow> pane_op" where
  "set_mode f state = on_ctx (\<lambda>ctx. Some (f ctx state))"

definition input_csi_dispatch_ed :: "int list \<Rightarrow> pane_op" where
  "input_csi_dispatch_ed params wp =
     (let n = input_get params 0 0 0
      in if n = 0 then on_ctx screen_write_clearendofscreen wp
         else if n = 1 then on_ctx screen_write_clearstartofscreen wp
         else if n = 2 then on_ctx screen_write_clearscreen wp
         else if n = 3 \<and> input_get params 1 0 0 = 0 then on_ctx screen_write_clearhistory wp
         else Some wp)"

definition input_csi_dispatch_el :: "int list \<Rightarrow> pane_op" where
  "input_csi_dispatch_el params wp =
     (let n = input_get params 0 0 0
      in if n = 0 then on_ctx screen_write_clearendofline wp
         else if n = 1 then on_ctx screen_write_clearstartofline wp
         else if n = 2 then on_ctx screen_write_clearline wp
         else Some wp)"

definition input_alternate_off :: pane_op where
  "input_alternate_off wp = do {
     (wp, gc) \<leftarrow> window_pane_alternate_off wp;
     Some (case gc of None \<Rightarrow> wp | Some gc \<Rightarrow> upd_ictx (\<lambda>ic. ic\<lparr>ic_cell := gc\<rparr>) wp)
   }"

text \<open>\<open>INPUT_CSI_RM_PRIVATE\<close> and \<open>INPUT_CSI_SM_PRIVATE\<close>.\<close>

definition input_csi_dispatch_rm_private :: "int list \<Rightarrow> pane_op" where
  "input_csi_dispatch_rm_private params wp =
     (let n = input_get params 0 0 (-1)
      in if n = 1 then set_mode screen_write_kcursormode False wp
         else if n = 3 then on_ctx (\<lambda>ctx. screen_write_clearscreen (screen_write_cursormove ctx 0 0)) wp
         else if n = 25 then set_mode screen_write_cursormode False wp
         else if n = 1000 \<or> n = 1001 \<or> n = 1002 \<or> n = 1003
         then on_ctx (\<lambda>ctx. Some (screen_write_mousemode_off ctx)) wp
         else if n = 1005 then set_mode screen_write_utf8mousemode False wp
         else if n = 1049 then input_alternate_off wp
         else if n = 2004 then set_mode screen_write_bracketpaste False wp
         else Some wp)"

definition input_csi_dispatch_sm_private :: "int list \<Rightarrow> pane_op" where
  "input_csi_dispatch_sm_private params wp =
     (let n = input_get params 0 0 (-1)
      in if n = 1 then set_mode screen_write_kcursormode True wp
         else if n = 3 then on_ctx (\<lambda>ctx. screen_write_clearscreen (screen_write_cursormove ctx 0 0)) wp
         else if n = 25 then set_mode screen_write_cursormode True wp
         else if n = 1000 then on_ctx (\<lambda>ctx. Some (screen_write_mousemode_on ctx MODE_MOUSE_STANDARD)) wp
         else if n = 1002 then on_ctx (\<lambda>ctx. Some (screen_write_mousemode_on ctx MODE_MOUSE_BUTTON)) wp
         else if n = 1003 then on_ctx (\<lambda>ctx. Some (screen_write_mousemode_on ctx MODE_MOUSE_ANY)) wp
         else if n = 1005 then set_mode screen_write_utf8mousemode True wp
         else if n = 1049 then window_pane_alternate_on (ic_cell (ictx wp)) wp
         else if n = 2004 then set_mode screen_write_bracketpaste True wp
         else Some wp)"

definition input_csi_dispatch_tbc :: "int list \<Rightarrow> screen \<Rightarrow> screen option" where
  "input_csi_dispatch_tbc params s =
     (let n = input_get params 0 0 0
      in if n = 0 then
           if scr_cx s < screen_size_x s then do {
             tabs \<leftarrow> put_at (scr_cx s) False (scr_tabs s);
             Some (s\<lparr>scr_tabs := tabs\<rparr>)
           }
           else Some s
         else if n = 3 then do {
           tabs \<leftarrow> for_upto 0 (u_sub (screen_size_x s) 1 + 1) (\<lambda>i. put_at i False) (scr_tabs s);
           Some (s\<lparr>scr_tabs := tabs\<rparr>)
         }
         else Some s)"

definition input_csi_type :: "input_type \<Rightarrow> int list \<Rightarrow> pane_op" where
  "input_csi_type ty params wp =
     (let n = input_count params 0; s = wp_base wp
      in case ty of
        INPUT_CSI_CBT \<Rightarrow> on_base (input_cbt n) wp
      | INPUT_CSI_CUB \<Rightarrow> on_ctx (\<lambda>ctx. Some (screen_write_cursorleft ctx n)) wp
      | INPUT_CSI_CUD \<Rightarrow> on_ctx (\<lambda>ctx. Some (screen_write_cursordown ctx n)) wp
      | INPUT_CSI_CUF \<Rightarrow> on_ctx (\<lambda>ctx. Some (screen_write_cursorright ctx n)) wp
      | INPUT_CSI_CUP \<Rightarrow> on_ctx (\<lambda>ctx. Some (screen_write_cursormove ctx (input_count params 1 - 1) (n - 1))) wp
      | INPUT_CSI_CUU \<Rightarrow> on_ctx (\<lambda>ctx. Some (screen_write_cursorup ctx n)) wp
      | INPUT_CSI_CNL \<Rightarrow> on_ctx (\<lambda>ctx. Some (screen_write_cursordown (screen_write_carriagereturn ctx) n)) wp
      | INPUT_CSI_CPL \<Rightarrow> on_ctx (\<lambda>ctx. Some (screen_write_cursorup (screen_write_carriagereturn ctx) n)) wp
      | INPUT_CSI_DA \<Rightarrow>
          Some (if input_get params 0 0 0 = 0 then input_reply (CHR 0x1b # ''[?1;2c'') wp else wp)
      | INPUT_CSI_DA_TWO \<Rightarrow>
          Some (if input_get params 0 0 0 = 0 then input_reply (CHR 0x1b # ''[>0;95;0c'') wp else wp)
      | INPUT_CSI_DCH \<Rightarrow> on_ctx (\<lambda>ctx. screen_write_deletecharacter ctx n) wp
      | INPUT_CSI_DECSTBM \<Rightarrow>
          on_ctx (\<lambda>ctx. Some (screen_write_scrollregion ctx (n - 1)
            (nat (input_get params 1 1 (int (screen_size_y s))) - 1))) wp
      | INPUT_CSI_DL \<Rightarrow> on_ctx (\<lambda>ctx. screen_write_deleteline ctx n) wp
      | INPUT_CSI_DSR \<Rightarrow>
          Some (if input_get params 0 0 0 = 5 then input_reply (CHR 0x1b # ''[0n'') wp
                else if input_get params 0 0 0 = 6 then
                  input_reply (CHR 0x1b # ''['' @ dec_string (u_add (scr_cy s) 1) @ '';'' @
                    dec_string (u_add (scr_cx s) 1) @ ''R'') wp
                else wp)
      | INPUT_CSI_ED \<Rightarrow> input_csi_dispatch_ed params wp
      | INPUT_CSI_EL \<Rightarrow> input_csi_dispatch_el params wp
      | INPUT_CSI_HPA \<Rightarrow> on_ctx (\<lambda>ctx. Some (screen_write_cursormove ctx (n - 1) (scr_cy s))) wp
      | INPUT_CSI_ICH \<Rightarrow> on_ctx (\<lambda>ctx. screen_write_insertcharacter ctx n) wp
      | INPUT_CSI_IL \<Rightarrow> on_ctx (\<lambda>ctx. screen_write_insertline ctx n) wp
      | INPUT_CSI_RCP \<Rightarrow> restore_cursor wp
      | INPUT_CSI_RM \<Rightarrow>
          if input_get params 0 0 (-1) = 4 then set_mode screen_write_insertmode False wp else Some wp
      | INPUT_CSI_RM_PRIVATE \<Rightarrow> input_csi_dispatch_rm_private params wp
      | INPUT_CSI_SCP \<Rightarrow> Some (save_cursor wp)
      | INPUT_CSI_SGR \<Rightarrow>
          Some (upd_ictx (\<lambda>ic. ic\<lparr>ic_cell := input_csi_dispatch_sgr params (ic_cell ic)\<rparr>) wp)
      | INPUT_CSI_SM \<Rightarrow>
          if input_get params 0 0 (-1) = 4 then set_mode screen_write_insertmode True wp else Some wp
      | INPUT_CSI_SM_PRIVATE \<Rightarrow> input_csi_dispatch_sm_private params wp
      | INPUT_CSI_TBC \<Rightarrow> on_base (input_csi_dispatch_tbc params) wp
      | INPUT_CSI_VPA \<Rightarrow> on_ctx (\<lambda>ctx. Some (screen_write_cursormove ctx (scr_cx s) (n - 1))) wp
      | INPUT_CSI_DECSCUSR \<Rightarrow>
          Some (upd_base (\<lambda>s. screen_set_cursor_style s (nat (input_get params 0 0 0))) wp)
      | _ \<Rightarrow> Some wp)"

definition input_csi_dispatch :: pane_op where
  "input_csi_dispatch wp =
     (let ic = ictx wp
      in if has_flag (ic_flags ic) INPUT_DISCARD then Some wp
         else let (params, ok) = input_split ic;
                  wp = upd_ictx (\<lambda>ic. ic\<lparr>ic_param_list := params\<rparr>) wp
           in if \<not> ok then Some wp
              else case bsearch (input_table_compare (ic_ch ic) (ic_interm_buf ic)) input_csi_table of
                None \<Rightarrow> Some wp
              | Some (_, _, ty) \<Rightarrow> input_csi_type ty params wp)"

section \<open>Strings\<close>

definition tmux_prefix :: "u_char list" where
  "tmux_prefix = [0x74, 0x6d, 0x75, 0x78, 0x3b]"

definition input_dcs_dispatch :: pane_op where
  "input_dcs_dispatch wp =
     (let ic = ictx wp
      in if has_flag (ic_flags ic) INPUT_DISCARD then Some wp
         else if length (ic_input_buf ic) \<ge> 5 \<and> take 5 (ic_input_buf ic) = tmux_prefix then
           on_ctx (\<lambda>ctx. screen_write_rawstring ctx (drop 5 (ic_input_buf ic)) (length (ic_input_buf ic) - 5)) wp
         else Some wp)"

abbreviation is_digit_byte :: "u_char \<Rightarrow> bool" where
  "is_digit_byte b \<equiv> 0x30 \<le> b \<and> b \<le> 0x39"

text \<open>
  The number at the start of an OSC string. It is an \<open>int\<close> that overflows for long strings of digits; the
  arithmetic here wraps.
\<close>

definition osc_option :: "u_char list \<Rightarrow> c_flags" where
  "osc_option p = foldl (\<lambda>option c. option * 10 + ucast c - 0x30) 0 (takeWhile (\<lambda>b. is_digit_byte b) p)"

definition input_exit_osc :: "window_pane \<Rightarrow> window_pane" where
  "input_exit_osc wp =
     (let ic = ictx wp; p = ic_input_buf ic
      in if has_flag (ic_flags ic) INPUT_DISCARD then wp
         else if p = [] \<or> \<not> is_digit_byte (hd p) then wp
         else let option = osc_option p;
                  p = dropWhile (\<lambda>b. is_digit_byte b) p;
                  p = (if p \<noteq> [] \<and> hd p = 0x3b then tl p else p)
           in if option = 0 \<or> option = 2
              then window_notify server_status_window (upd_base (\<lambda>s. screen_set_title s p) wp)
              else if option = 12 then upd_base (\<lambda>s. screen_set_cursor_colour s p) wp
              else if option = 112 \<and> p = [] then upd_base (\<lambda>s. screen_set_cursor_colour s []) wp
              else wp)"

definition input_exit_apc :: "window_pane \<Rightarrow> window_pane" where
  "input_exit_apc wp =
     (if has_flag (ic_flags (ictx wp)) INPUT_DISCARD then wp
      else window_notify server_status_window
             (upd_base (\<lambda>s. screen_set_title s (ic_input_buf (ictx wp))) wp))"

definition input_exit_rename :: pane_op where
  "input_exit_rename wp =
     (if has_flag (ic_flags (ictx wp)) INPUT_DISCARD then Some wp
      else do {
        allow \<leftarrow> options_get_bool (w_options (wp_window wp)) ''allow-rename'';
        if \<not> allow then Some wp
        else do {
          let wp = window_set_name (ic_input_buf (ictx wp)) wp;
          let wp = upd_window (\<lambda>w. w\<lparr>w_options := options_set_number (w_options w) ''automatic-rename'' 0\<rparr>) wp;
          Some (window_notify server_status_window wp)
        }
      })"

section \<open>UTF-8\<close>

text \<open>The result is true when the handler returns -1: the state does not change then.\<close>

definition input_utf8_open :: "window_pane \<Rightarrow> (window_pane \<times> bool) option" where
  "input_utf8_open wp = do {
     utf8 \<leftarrow> options_get_bool (w_options (wp_window wp)) ''utf8'';
     if \<not> utf8 then do { wp \<leftarrow> input_print wp; Some (wp, True) }
     else do {
       (ud, _) \<leftarrow> utf8_open (ic_ch (ictx wp));
       Some (upd_ictx (\<lambda>ic. ic\<lparr>ic_utf8data := ud\<rparr>) wp, False)
     }
   }"

definition input_utf8_add :: pane_op where
  "input_utf8_add wp = do {
     (ud, _) \<leftarrow> utf8_append (ic_utf8data (ictx wp)) (ic_ch (ictx wp));
     Some (upd_ictx (\<lambda>ic. ic\<lparr>ic_utf8data := ud\<rparr>) wp)
   }"

definition cell_utf8 :: "bool \<Rightarrow> input_ctx \<Rightarrow> input_ctx" where
  "cell_utf8 on ic = ic\<lparr>ic_cell := (ic_cell ic)\<lparr>gc_flags :=
     (if on then set_flag (gc_flags (ic_cell ic)) GRID_FLAG_UTF8
      else clear_flag (gc_flags (ic_cell ic)) GRID_FLAG_UTF8)\<rparr>\<rparr>"

definition input_utf8_close :: pane_op where
  "input_utf8_close wp = do {
     wp \<leftarrow> input_utf8_add wp;
     let wp = upd_ictx (cell_utf8 True) wp;
     wp \<leftarrow> on_ctx (\<lambda>ctx. screen_write_cell ctx (ic_cell (ictx wp)) (Some (ic_utf8data (ictx wp)))) wp;
     Some (upd_ictx (cell_utf8 False) wp)
   }"

section \<open>The loop\<close>

definition input_run_handler :: "input_handler \<Rightarrow> window_pane \<Rightarrow> (window_pane \<times> bool) option" where
  "input_run_handler h wp =
     (let done = map_option (\<lambda>wp. (wp, False))
      in case h of
        H_print \<Rightarrow> done (input_print wp)
      | H_intermediate \<Rightarrow> Some (upd_ictx input_intermediate wp, False)
      | H_parameter \<Rightarrow> Some (upd_ictx input_parameter wp, False)
      | H_input \<Rightarrow> Some (upd_ictx input_input wp, False)
      | H_c0_dispatch \<Rightarrow> done (input_c0_dispatch wp)
      | H_esc_dispatch \<Rightarrow> done (input_esc_dispatch wp)
      | H_csi_dispatch \<Rightarrow> done (input_csi_dispatch wp)
      | H_dcs_dispatch \<Rightarrow> done (input_dcs_dispatch wp)
      | H_utf8_open \<Rightarrow> input_utf8_open wp
      | H_utf8_add \<Rightarrow> done (input_utf8_add wp)
      | H_utf8_close \<Rightarrow> done (input_utf8_close wp))"

text \<open>The \<open>exit\<close> and \<open>enter\<close> functions of the states.\<close>

definition input_state_exit :: "input_state \<Rightarrow> pane_op" where
  "input_state_exit st wp =
     (case st of
        input_state_osc_string \<Rightarrow> Some (input_exit_osc wp)
      | input_state_apc_string \<Rightarrow> Some (input_exit_apc wp)
      | input_state_rename_string \<Rightarrow> input_exit_rename wp
      | _ \<Rightarrow> Some wp)"

definition input_state_enter :: "input_state \<Rightarrow> window_pane \<Rightarrow> window_pane" where
  "input_state_enter st wp =
     (if st \<in> {input_state_esc_enter, input_state_csi_enter, input_state_dcs_enter,
               input_state_osc_string, input_state_apc_string, input_state_rename_string}
      then upd_ictx input_clear wp else wp)"

definition input_set_state :: "input_state \<Rightarrow> pane_op" where
  "input_set_state st wp = do {
     wp \<leftarrow> input_state_exit (ic_state (ictx wp)) wp;
     let wp = (if st = input_state_ground then upd_ictx (\<lambda>ic. ic\<lparr>ic_since_ground := []\<rparr>) wp else wp);
     let wp = upd_ictx (\<lambda>ic. ic\<lparr>ic_state := st\<rparr>) wp;
     Some (input_state_enter st wp)
   }"

definition input_byte :: "u_char \<Rightarrow> pane_op" where
  "input_byte ch wp = do {
     let wp = upd_ictx (\<lambda>ic. ic\<lparr>ic_ch := ch\<rparr>) wp;
     itr \<leftarrow> input_find_transition (ic_state (ictx wp)) ch;
     (wp, stay) \<leftarrow> (case it_handler itr of None \<Rightarrow> Some (wp, False) | Some h \<Rightarrow> input_run_handler h wp);
     if stay then Some wp
     else do {
       wp \<leftarrow> (case it_state itr of None \<Rightarrow> Some wp | Some st \<Rightarrow> input_set_state st wp);
       Some (if ic_state (ictx wp) \<noteq> input_state_ground
             then upd_ictx (\<lambda>ic. ic\<lparr>ic_since_ground := ic_since_ground ic @ [ch]\<rparr>) wp else wp)
     }
   }"

definition input_bytes :: "u_char list \<Rightarrow> pane_op" where
  "input_bytes = fold_opt input_byte"

definition input_parse :: pane_op where
  "input_parse wp =
     (if wp_input wp = [] then Some wp
      else do {
        let wp = upd_window (\<lambda>w. w\<lparr>w_flags := clear_flag (set_flag (w_flags w) WINDOW_ACTIVITY) WINDOW_SILENCE\<rparr>) wp;
        wp \<leftarrow> input_bytes (wp_input wp) wp;
        Some (wp\<lparr>wp_input := []\<rparr>)
      })"

end
