(* ===== verification/Screen_Write_Facts.thy ===== *)
theory Screen_Write_Facts
  imports Screen_Write
begin

text \<open>
  What the writers of \<open>Screen_Write\<close> do. \<open>screen_safe\<close> adds to \<open>screen_ok\<close> what a screen needs to be
  written to without an invalid access: at least two columns, because a character may be two columns
  wide, and in every visible row a cell that is not padding, because \<open>screen_write_initctx\<close> looks for
  one. \<open>wrote\<close> describes a writer by the cells of the view, the cursor and the terminal commands.
\<close>

unbundle bit_operations_syntax

section \<open>Safe screens\<close>

definition is_padding :: "grid_cell \<Rightarrow> bool" where
  "is_padding gc \<longleftrightarrow> has_flag (gc_flags gc) GRID_FLAG_PADDING"

lemma default_not_padding [simp]: "\<not> is_padding grid_default_cell"
  by (simp add: is_padding_def grid_default_cell_def)

text \<open>Every row of a picture of \<open>sx\<close> columns and \<open>sy\<close> rows has a cell that is not padding.\<close>

definition rows_live :: "u_int \<Rightarrow> u_int \<Rightarrow> (u_int \<Rightarrow> u_int \<Rightarrow> grid_cell \<times> grid_utf8 option) \<Rightarrow> bool" where
  "rows_live sx sy F \<longleftrightarrow> (\<forall>y < sy. \<exists>x < sx. \<not> is_padding (fst (F x y)))"

definition screen_safe :: "screen \<Rightarrow> bool" where
  "screen_safe s \<longleftrightarrow> screen_ok s \<and> 2 \<le> screen_size_x s \<and>
     rows_live (screen_size_x s) (screen_size_y s) (view_glyph (scr_grid s))"

definition ctx_safe :: "screen_write_ctx \<Rightarrow> bool" where
  "ctx_safe ctx \<longleftrightarrow> screen_safe (ctx_s ctx)"

abbreviation "ctx_gd ctx \<equiv> scr_grid (ctx_s ctx)"
abbreviation "ctx_cx ctx \<equiv> scr_cx (ctx_s ctx)"
abbreviation "ctx_cy ctx \<equiv> scr_cy (ctx_s ctx)"
abbreviation "ctx_sx ctx \<equiv> screen_size_x (ctx_s ctx)"
abbreviation "ctx_sy ctx \<equiv> screen_size_y (ctx_s ctx)"
abbreviation "ctx_glyph ctx \<equiv> view_glyph (ctx_gd ctx)"

lemma rows_live_cong:
  "rows_live sx sy F \<Longrightarrow> (\<And>x y. x < sx \<Longrightarrow> y < sy \<Longrightarrow> G x y = F x y) \<Longrightarrow> rows_live sx sy G"
  unfolding rows_live_def by metis

text \<open>A row may be a row of a live picture, or have a blank cell.\<close>

lemma rows_live_rows:
  assumes "rows_live sx sy F"
    and "\<And>y. y < sy \<Longrightarrow> (\<exists>y' < sy. \<forall>x < sx. G x y = F x y') \<or> (\<exists>x < sx. \<not> is_padding (fst (G x y)))"
  shows "rows_live sx sy G"
  unfolding rows_live_def
proof (intro allI impI)
  fix y assume "y < sy"
  then consider y' where "y' < sy" "\<forall>x < sx. G x y = F x y'" | "\<exists>x < sx. \<not> is_padding (fst (G x y))"
    using assms(2) by blast
  then show "\<exists>x < sx. \<not> is_padding (fst (G x y))"
  proof cases
    case 1
    obtain x where "x < sx" "\<not> is_padding (fst (F x y'))" using assms(1) 1(1) by (auto simp: rows_live_def)
    then show ?thesis using 1(2) by (intro exI [where x = x]) simp
  qed simp
qed

lemma ctx_safe_bounds:
  assumes "ctx_safe ctx"
  shows "2 \<le> ctx_sx ctx" "0 < ctx_sy ctx" "ctx_sx ctx \<le> DIM_MAX" "ctx_sy ctx \<le> DIM_MAX"
    "ctx_cx ctx < UINT_MOD" "ctx_cy ctx < ctx_sy ctx"
    "scr_rupper (ctx_s ctx) \<le> scr_rlower (ctx_s ctx)" "scr_rlower (ctx_s ctx) < ctx_sy ctx"
    "view_ok (ctx_gd ctx)" "grid_ok (ctx_gd ctx)" "screen_ok (ctx_s ctx)"
    "rows_live (ctx_sx ctx) (ctx_sy ctx) (ctx_glyph ctx)" "has_flag (scr_mode (ctx_s ctx)) MODE_WRAP"
proof -
  have s: "screen_ok (ctx_s ctx)" "2 \<le> ctx_sx ctx" "rows_live (ctx_sx ctx) (ctx_sy ctx) (ctx_glyph ctx)"
    using assms by (simp_all add: ctx_safe_def screen_safe_def)
  show "2 \<le> ctx_sx ctx" "screen_ok (ctx_s ctx)" "rows_live (ctx_sx ctx) (ctx_sy ctx) (ctx_glyph ctx)"
    by (fact s)+
  show v: "view_ok (ctx_gd ctx)" and "has_flag (scr_mode (ctx_s ctx)) MODE_WRAP"
    using s(1) by (simp_all add: screen_ok_def)
  show "grid_ok (ctx_gd ctx)" using v by (rule view_ok_grid)
qed (use assms screen_ok_bounds [of "ctx_s ctx"] in \<open>simp_all add: ctx_safe_def screen_safe_def\<close>)

text \<open>What every writer keeps: the pane, the size and limits of the grid, and the commands sent so far.\<close>

definition ctx_keep :: "screen_write_ctx \<Rightarrow> screen_write_ctx \<Rightarrow> bool" where
  "ctx_keep ctx ctx' \<longleftrightarrow> ctx_wp ctx' = ctx_wp ctx \<and> grid_keep (ctx_gd ctx) (ctx_gd ctx') \<and>
     (\<exists>out. ctx_out ctx' = ctx_out ctx @ out)"

definition ctx_next :: "screen_write_ctx \<Rightarrow> screen_write_ctx \<Rightarrow> bool" where
  "ctx_next ctx ctx' \<longleftrightarrow> ctx_safe ctx' \<and> ctx_keep ctx ctx'"

lemma ctx_keep_refl [simp]: "ctx_keep ctx ctx"
  by (simp add: ctx_keep_def)

lemma ctx_keep_trans: "ctx_keep a b \<Longrightarrow> ctx_keep b c \<Longrightarrow> ctx_keep a c"
  by (auto simp: ctx_keep_def intro: grid_keep_trans)

lemma ctx_next_refl: "ctx_safe ctx \<Longrightarrow> ctx_next ctx ctx"
  by (simp add: ctx_next_def)

lemma ctx_next_trans: "ctx_next a b \<Longrightarrow> ctx_next b c \<Longrightarrow> ctx_next a c"
  by (auto simp: ctx_next_def intro: ctx_keep_trans)

lemma ctx_next_bind:
  assumes "returns m (ctx_next ctx)" and "\<And>ctx'. ctx_next ctx ctx' \<Longrightarrow> returns (f ctx') (ctx_next ctx')"
  shows "returns (m \<bind> f) (ctx_next ctx)"
  using assms(1) unfolding returns_bind
  by (rule returns_mono) (use assms(2) in \<open>blast intro: returns_mono ctx_next_trans\<close>)

text \<open>The same screen but for the grid, the cursor and the commands.\<close>

definition wrote :: "screen_write_ctx \<Rightarrow> (u_int \<Rightarrow> u_int \<Rightarrow> grid_cell \<times> grid_utf8 option) \<Rightarrow>
    u_int \<Rightarrow> u_int \<Rightarrow> tty_cmd list \<Rightarrow> screen_write_ctx \<Rightarrow> bool" where
  "wrote ctx F cx cy cmds ctx' \<longleftrightarrow> ctx_safe ctx' \<and> ctx_wp ctx' = ctx_wp ctx \<and>
     grid_keep (ctx_gd ctx) (ctx_gd ctx') \<and>
     (\<forall>x y. x < ctx_sx ctx \<longrightarrow> y < ctx_sy ctx \<longrightarrow> ctx_glyph ctx' x y = F x y) \<and>
     (\<exists>gd. ctx_s ctx' = (ctx_s ctx)\<lparr>scr_grid := gd, scr_cx := cx, scr_cy := cy\<rparr>) \<and>
     (\<exists>out. ctx_out ctx' = ctx_out ctx @ out \<and> map fst out = cmds)"

lemma wrote_next: "wrote ctx F cx cy cmds ctx' \<Longrightarrow> ctx_next ctx ctx'"
  by (auto simp: wrote_def ctx_next_def ctx_keep_def)

lemma wrote_returns_next: "returns m (wrote ctx F cx cy cmds) \<Longrightarrow> returns m (ctx_next ctx)"
  by (erule returns_mono) (rule wrote_next)

lemma wrote_cong:
  "wrote ctx F cx cy cmds ctx' \<Longrightarrow> (\<And>x y. x < ctx_sx ctx \<Longrightarrow> y < ctx_sy ctx \<Longrightarrow> G x y = F x y) \<Longrightarrow>
   wrote ctx G cx cy cmds ctx'"
  by (simp add: wrote_def)

lemma wrote_returns_cong:
  "returns m (wrote ctx F cx cy cmds) \<Longrightarrow> (\<And>x y. x < ctx_sx ctx \<Longrightarrow> y < ctx_sy ctx \<Longrightarrow> G x y = F x y) \<Longrightarrow>
   returns m (wrote ctx G cx cy cmds)"
  by (erule returns_mono) (rule wrote_cong)

lemma wrote_refl: "ctx_safe ctx \<Longrightarrow> wrote ctx (ctx_glyph ctx) (ctx_cx ctx) (ctx_cy ctx) [] ctx"
  by (simp add: wrote_def) (rule exI [where x = "ctx_gd ctx"], simp)

lemma wrote_trans:
  assumes "wrote ctx F cx cy cmds ctx1" and "wrote ctx1 G cx' cy' cmds' ctx2"
  shows "wrote ctx G cx' cy' (cmds @ cmds') ctx2"
  using assms by (auto simp: wrote_def grid_keep_def)

lemma wrote_bind:
  assumes "returns m (wrote ctx F cx cy cmds)"
    and "\<And>ctx'. wrote ctx F cx cy cmds ctx' \<Longrightarrow> returns (f ctx') (wrote ctx' G cx' cy' cmds')"
  shows "returns (m \<bind> f) (wrote ctx G cx' cy' (cmds @ cmds'))"
  using assms(1) unfolding returns_bind
  by (rule returns_mono) (use assms(2) in \<open>blast intro: returns_mono wrote_trans\<close>)

lemma wrote_tty:
  "wrote ctx F cx cy cmds ctx' \<Longrightarrow> wrote ctx F cx cy (cmds @ [cmd]) (tty_write cmd t ctx')"
  by (auto simp: wrote_def tty_write_def ctx_safe_def)

lemma wrote_returns_tty:
  "returns m (wrote ctx F cx cy cmds) \<Longrightarrow> cs = cmds @ [cmd] \<Longrightarrow>
   returns (m \<bind> (\<lambda>ctx. Some (tty_write cmd t ctx))) (wrote ctx F cx cy cs)"
  unfolding returns_bind by (erule returns_mono) (simp add: wrote_tty)

text \<open>Moving the cursor, and changing the grid.\<close>

lemma screen_safe_cursor:
  "screen_safe s \<Longrightarrow> cx < UINT_MOD \<Longrightarrow> cy < screen_size_y s \<Longrightarrow>
   screen_safe (s\<lparr>scr_cx := cx, scr_cy := cy\<rparr>)"
  by (simp add: screen_safe_def screen_ok_def)

lemma screen_safe_grid:
  "screen_safe s \<Longrightarrow> view_ok gd \<Longrightarrow> grid_keep (scr_grid s) gd \<Longrightarrow>
   rows_live (gd_sx gd) (gd_sy gd) (view_glyph gd) \<Longrightarrow> screen_safe (s\<lparr>scr_grid := gd\<rparr>)"
  by (simp add: screen_safe_def screen_ok_def grid_keep_def)

lemma wrote_cursor:
  "ctx_safe ctx \<Longrightarrow> cx < UINT_MOD \<Longrightarrow> cy < ctx_sy ctx \<Longrightarrow>
   wrote ctx (ctx_glyph ctx) cx cy [] (set_screen ctx ((ctx_s ctx)\<lparr>scr_cx := cx, scr_cy := cy\<rparr>))"
  by (auto simp: wrote_def ctx_safe_def screen_safe_cursor) (rule exI [where x = "ctx_gd ctx"], simp)

lemma screen_cursor_eq: "(s\<lparr>scr_cx := cx\<rparr> :: screen) = s\<lparr>scr_cx := cx, scr_cy := scr_cy s\<rparr>"
  "(s\<lparr>scr_cy := cy\<rparr> :: screen) = s\<lparr>scr_cx := scr_cx s, scr_cy := cy\<rparr>"
  by simp_all

lemma on_grid_wrote:
  assumes "ctx_safe ctx" and "returns (f (ctx_gd ctx)) (view_result (ctx_gd ctx) F)"
    and "rows_live (ctx_sx ctx) (ctx_sy ctx) F"
  shows "returns (on_grid f ctx) (wrote ctx F (ctx_cx ctx) (ctx_cy ctx) [])"
  unfolding on_grid_def returns_bind
proof (rule returns_mono [OF assms(2)])
  fix gd assume r: "view_result (ctx_gd ctx) F gd"
  then have k: "view_ok gd" "grid_keep (ctx_gd ctx) gd" by (simp_all add: view_result_ok)
  have live: "rows_live (gd_sx gd) (gd_sy gd) (view_glyph gd)"
    using rows_live_cong [OF assms(3), of "view_glyph gd"] r k(2) by (auto simp: view_result_def grid_keep_def)
  have "screen_safe ((ctx_s ctx)\<lparr>scr_grid := gd\<rparr>)"
    using assms(1) k live by (auto simp: ctx_safe_def intro: screen_safe_grid)
  then show "returns (Some (set_screen ctx ((ctx_s ctx)\<lparr>scr_grid := gd\<rparr>)))
      (wrote ctx F (ctx_cx ctx) (ctx_cy ctx) [])"
    using r k(2) by (auto simp: wrote_def ctx_safe_def view_result_def)
qed

text \<open>The commands' context needs a cell that is not padding only when the last cell is saved.\<close>

lemma initctx_plain [simp]: "screen_write_initctx ctx False = Some (tty_ctx_init ctx)"
  by (simp add: screen_write_initctx_def Let_def)

lemma last_cell_loop_returns:
  assumes ok: "view_ok gd" and "cy < gd_sy gd" and "xx \<le> gd_sx gd" and "0 < xx"
    and "\<exists>x \<le> gd_sx gd - xx. \<not> is_padding (fst (view_glyph gd x cy))"
  shows "returns (last_cell_loop gd cy (gd_sx gd) xx gc) (\<lambda>(xx', gc). xx \<le> xx' \<and> xx' \<le> gd_sx gd \<and>
    gc = fst (view_glyph gd (gd_sx gd - xx') cy) \<and> \<not> is_padding gc)"
  using assms(3-5)
proof (induction "gd_sx gd - xx" arbitrary: xx gc rule: less_induct)
  case less
  note gok = view_ok_grid [OF ok]
  let ?x = "gd_sx gd - xx"
  have u: "u_sub (gd_sx gd) xx = ?x" "grid_view_y gd cy = gd_hsize gd + cy"
    using less.prems assms(2) grid_ok_bounds(5,6) [OF gok] by (simp_all add: grid_view_y_eq [OF gok])
  have peek: "grid_view_peek_cell gd ?x cy = Some (fst (view_glyph gd ?x cy))"
    using assms(2) u by (simp add: grid_view_peek_cell_def grid_view_x_def grid_peek_cell_eq [OF gok] view_glyph_def)
  show ?case
  proof (cases "is_padding (fst (view_glyph gd ?x cy))")
    case True
    obtain x where x: "x \<le> ?x" "\<not> is_padding (fst (view_glyph gd x cy))" using less.prems(3) by blast
    with True have "x \<noteq> ?x" by auto
    then have lt: "x < ?x" using x(1) by linarith
    then have "x \<le> gd_sx gd - (xx + 1)" "gd_sx gd - (xx + 1) < ?x" "xx + 1 \<le> gd_sx gd" by linarith+
    then show ?thesis using less.hyps [of "xx + 1" "fst (view_glyph gd ?x cy)"] x(2) less.prems(1) True u peek
      by (subst last_cell_loop.simps) (fastforce simp: is_padding_def elim!: returns_mono)
  next
    case False
    then show ?thesis using less.prems u peek
      by (subst last_cell_loop.simps) (simp add: is_padding_def)
  qed
qed

lemma initctx_returns:
  assumes safe: "ctx_safe ctx"
  shows "returns (screen_write_initctx ctx save_last) (\<lambda>t. tc_ocx t = ctx_cx ctx \<and> tc_ocy t = ctx_cy ctx)"
proof (cases save_last)
  case True
  let ?gd = "ctx_gd ctx"
  note b = ctx_safe_bounds [OF safe]
  obtain x where x: "x < ctx_sx ctx" "\<not> is_padding (fst (ctx_glyph ctx x (ctx_cy ctx)))"
    using b(6,12) by (auto simp: rows_live_def)
  have ex: "\<exists>x \<le> gd_sx ?gd - 1. \<not> is_padding (fst (view_glyph ?gd x (ctx_cy ctx)))"
    using x by (intro exI [where x = x]) auto
  obtain xx gc where l: "last_cell_loop ?gd (ctx_cy ctx) (gd_sx ?gd) 1 grid_default_cell = Some (xx, gc)"
    "1 \<le> xx" "xx \<le> gd_sx ?gd" "gc = fst (view_glyph ?gd (gd_sx ?gd - xx) (ctx_cy ctx))"
    using last_cell_loop_returns [OF b(9,6), of 1 grid_default_cell] ex b(1) by (auto simp: returns_eq)
  show ?thesis
  proof (cases "is_utf8 gc")
    case True
    have y: "gd_hsize ?gd + ctx_cy ctx < grid_total ?gd" "grid_view_y ?gd (ctx_cy ctx) = gd_hsize ?gd + ctx_cy ctx"
      "u_sub (gd_sx ?gd) xx = gd_sx ?gd - xx"
      using b l(3) by (simp_all add: grid_view_y_eq [OF b(10)])
    obtain gu where "grid_peek_utf8 ?gd (gd_sx ?gd - xx) (gd_hsize ?gd + ctx_cy ctx) = Some (Some gu)"
      using grid_peek_utf8_eq [OF b(10) _ y(1), of "gd_sx ?gd - xx"] True l(4) by (auto simp: view_glyph_def)
    then show ?thesis using \<open>save_last\<close> l y True
      by (simp add: screen_write_initctx_def Let_def tty_ctx_init_def grid_view_peek_utf8_def
          grid_view_x_def is_utf8_def)
  next
    case False
    then show ?thesis using \<open>save_last\<close> l
      by (simp add: screen_write_initctx_def Let_def tty_ctx_init_def is_utf8_def)
  qed
qed (simp add: tty_ctx_init_def)

end
