(* ===== verification/Screen_Write_Ops.thy ===== *)
theory Screen_Write_Ops
  imports Screen_Write_Facts
begin

text \<open>
  One lemma per writer that does not write characters: the cells of the view after it, the cursor and
  the terminal command, for every safe screen.
\<close>

unbundle bit_operations_syntax

abbreviation blank :: "grid_cell \<times> grid_utf8 option" where
  "blank \<equiv> (grid_default_cell, None)"

section \<open>Cursor\<close>

lemma ctx_u_sub:
  assumes "ctx_safe ctx"
  shows "u_sub (ctx_sx ctx) 1 = ctx_sx ctx - 1" "u_sub (ctx_sy ctx) 1 = ctx_sy ctx - 1"
    "ctx_cx ctx \<le> ctx_sx ctx \<Longrightarrow> u_sub (ctx_sx ctx) (ctx_cx ctx) = ctx_sx ctx - ctx_cx ctx"
    "u_sub (ctx_sy ctx) (ctx_cy ctx) = ctx_sy ctx - ctx_cy ctx"
    "u_sub (ctx_sy ctx - 1) (ctx_cy ctx) = ctx_sy ctx - 1 - ctx_cy ctx"
    "u_add (scr_rlower (ctx_s ctx)) 1 = scr_rlower (ctx_s ctx) + 1"
    "ctx_cx ctx \<le> ctx_sx ctx \<Longrightarrow> u_add (ctx_cx ctx) 1 = ctx_cx ctx + 1"
    "u_add (ctx_cy ctx) 1 = ctx_cy ctx + 1"
    "u_sub (ctx_sx ctx) (Suc 0) = ctx_sx ctx - 1" "u_sub (ctx_sy ctx) (Suc 0) = ctx_sy ctx - 1"
    "u_sub (ctx_sy ctx - Suc 0) (ctx_cy ctx) = ctx_sy ctx - 1 - ctx_cy ctx"
    "u_add (scr_rlower (ctx_s ctx)) (Suc 0) = scr_rlower (ctx_s ctx) + 1"
    "u_add (ctx_cy ctx) (Suc 0) = ctx_cy ctx + 1"
  using ctx_safe_bounds [OF assms] by simp_all

lemma wrote_cursor_y:
  "ctx_safe ctx \<Longrightarrow> cy < ctx_sy ctx \<Longrightarrow>
   wrote ctx (ctx_glyph ctx) (ctx_cx ctx) cy [] (set_screen ctx ((ctx_s ctx)\<lparr>scr_cy := cy\<rparr>))"
  using wrote_cursor [of ctx "ctx_cx ctx" cy] ctx_safe_bounds(5) [of ctx] by simp

lemma wrote_cursor_x:
  "ctx_safe ctx \<Longrightarrow> cx < UINT_MOD \<Longrightarrow>
   wrote ctx (ctx_glyph ctx) cx (ctx_cy ctx) [] (set_screen ctx ((ctx_s ctx)\<lparr>scr_cx := cx\<rparr>))"
  using wrote_cursor [of ctx cx "ctx_cy ctx"] ctx_safe_bounds(6) [of ctx] by simp

lemma screen_write_cursorup_wrote:
  assumes "ctx_safe ctx"
  shows "wrote ctx (ctx_glyph ctx) (ctx_cx ctx)
    (if ctx_cy ctx < scr_rupper (ctx_s ctx) then ctx_cy ctx - max 1 ny
     else max (scr_rupper (ctx_s ctx)) (ctx_cy ctx - max 1 ny)) [] (screen_write_cursorup ctx ny)"
proof -
  note b = ctx_safe_bounds [OF assms]
  let ?up = "scr_rupper (ctx_s ctx)" and ?cy = "ctx_cy ctx"
  define n where "n = (if ?cy < ?up then min (max 1 ny) ?cy else min (max 1 ny) (?cy - ?up))"
  have u: "u_sub ?cy k = ?cy - k" if "k \<le> ?cy" for k using that b by simp
  have n: "n \<le> ?cy" "(if ?cy < ?up then (if max 1 ny > ?cy then ?cy else max 1 ny)
      else if max 1 ny > u_sub ?cy ?up then u_sub ?cy ?up else max 1 ny) = n"
    using u [of ?up] by (auto simp: n_def)
  have "(if ny = 0 then 1 else ny) = max 1 ny" by auto
  then have "screen_write_cursorup ctx ny = (if n = 0 then ctx else set_screen ctx ((ctx_s ctx)\<lparr>scr_cy := ?cy - n\<rparr>))"
    unfolding screen_write_cursorup_def Let_def using n u [OF n(1)] by presburger
  moreover have "?cy - n = (if ?cy < ?up then ?cy - max 1 ny else max ?up (?cy - max 1 ny))"
    by (auto simp: n_def min_def max_def)
  moreover have "?cy - n < ctx_sy ctx" using b by simp
  ultimately show ?thesis using wrote_cursor_y [OF assms, of "?cy - n"] wrote_refl [OF assms]
    by (cases "n = 0") simp_all
qed

lemma screen_write_cursordown_wrote:
  assumes "ctx_safe ctx"
  shows "wrote ctx (ctx_glyph ctx) (ctx_cx ctx)
    (if ctx_cy ctx > scr_rlower (ctx_s ctx) then min (ctx_sy ctx - 1) (ctx_cy ctx + max 1 ny)
     else min (scr_rlower (ctx_s ctx)) (ctx_cy ctx + max 1 ny)) [] (screen_write_cursordown ctx ny)"
proof -
  note b = ctx_safe_bounds [OF assms]
  let ?lo = "scr_rlower (ctx_s ctx)" and ?cy = "ctx_cy ctx" and ?bot = "ctx_sy ctx - 1"
  define n where "n = (if ?cy > ?lo then min (max 1 ny) (?bot - ?cy) else min (max 1 ny) (?lo - ?cy))"
  have lo: "u_sub ?lo ?cy = ?lo - ?cy" if "\<not> ?cy > ?lo" using that b by simp
  have n: "n + ?cy < ctx_sy ctx" "(if ?cy > ?lo then (if max 1 ny > ?bot - ?cy then ?bot - ?cy else max 1 ny)
      else if max 1 ny > u_sub ?lo ?cy then u_sub ?lo ?cy else max 1 ny) = n"
    using b lo by (auto simp: n_def)
  have u: "u_add ?cy n = ?cy + n" using b n(1) by simp
  have "(if ny = 0 then 1 else ny) = max 1 ny" by auto
  then have "screen_write_cursordown ctx ny = (if n = 0 then ctx else set_screen ctx ((ctx_s ctx)\<lparr>scr_cy := ?cy + n\<rparr>))"
    unfolding screen_write_cursordown_def Let_def ctx_u_sub [OF assms] using n u by presburger
  moreover have "?cy + n = (if ?cy > ?lo then min ?bot (?cy + max 1 ny) else min ?lo (?cy + max 1 ny))"
    using b by (auto simp: n_def min_def max_def)
  ultimately show ?thesis using wrote_cursor_y [OF assms, of "?cy + n"] wrote_refl [OF assms] n(1)
    by (cases "n = 0") (simp_all add: add.commute)
qed

text \<open>
  With the cursor past the last column \<open>sx - 1 - cx\<close> wraps around: the limit is gone and the cursor
  moves on, off the screen.
\<close>

lemma screen_write_cursorright_wrote:
  assumes "ctx_safe ctx"
  shows "wrote ctx (ctx_glyph ctx)
    (if ctx_cx ctx < ctx_sx ctx then min (ctx_sx ctx - 1) (ctx_cx ctx + max 1 nx)
     else u_add (ctx_cx ctx) (min (max 1 nx) (UINT_MOD + ctx_sx ctx - 1 - ctx_cx ctx)))
    (ctx_cy ctx) [] (screen_write_cursorright ctx nx)"
proof -
  note b = ctx_safe_bounds [OF assms]
  let ?cx = "ctx_cx ctx" and ?sx = "ctx_sx ctx"
  define n where "n = min (max 1 nx) (u_sub (?sx - 1) ?cx)"
  have r: "u_sub (?sx - 1) ?cx = (if ?cx < ?sx then ?sx - 1 - ?cx else UINT_MOD + ?sx - 1 - ?cx)"
    using b by (auto simp: u_sub_wrap not_less)
  have "(if nx = 0 then 1 else nx) = max 1 nx"
    "(if max 1 nx > u_sub (?sx - 1) ?cx then u_sub (?sx - 1) ?cx else max 1 nx) = n" by (auto simp: n_def)
  then have "screen_write_cursorright ctx nx = (if n = 0 then ctx else set_screen ctx ((ctx_s ctx)\<lparr>scr_cx := u_add ?cx n\<rparr>))"
    unfolding screen_write_cursorright_def Let_def ctx_u_sub [OF assms] by presburger
  moreover have "u_add ?cx n = ?cx" if "n = 0" using that b by simp
  ultimately have "wrote ctx (ctx_glyph ctx) (u_add ?cx n) (ctx_cy ctx) [] (screen_write_cursorright ctx nx)"
    using wrote_cursor_x [OF assms, of "u_add ?cx n"] wrote_refl [OF assms] by (cases "n = 0") simp_all
  also have "u_add ?cx n = (if ?cx < ?sx then min (?sx - 1) (?cx + max 1 nx)
      else u_add ?cx (min (max 1 nx) (UINT_MOD + ?sx - 1 - ?cx)))"
    using b r by (auto simp: n_def min_def)
  finally show ?thesis .
qed

lemma screen_write_cursorleft_wrote:
  assumes "ctx_safe ctx"
  shows "wrote ctx (ctx_glyph ctx) (ctx_cx ctx - max 1 nx) (ctx_cy ctx) [] (screen_write_cursorleft ctx nx)"
proof -
  note b = ctx_safe_bounds [OF assms]
  let ?n = "min (max 1 nx) (ctx_cx ctx)"
  have "screen_write_cursorleft ctx nx =
      (if ?n = 0 then ctx else set_screen ctx ((ctx_s ctx)\<lparr>scr_cx := ctx_cx ctx - ?n\<rparr>))"
    using b by (auto simp: screen_write_cursorleft_def Let_def min_def max_def)
  moreover have "ctx_cx ctx - ?n = ctx_cx ctx - max 1 nx" by simp
  ultimately show ?thesis
    using wrote_cursor_x [OF assms, of "ctx_cx ctx - ?n"] wrote_refl [OF assms] b(5)
    by (cases "?n = 0") auto
qed

lemma screen_write_cursormove_wrote:
  assumes "ctx_safe ctx"
  shows "wrote ctx (ctx_glyph ctx) (min px (ctx_sx ctx - 1)) (min py (ctx_sy ctx - 1)) []
    (screen_write_cursormove ctx px py)"
proof -
  have "(if px > n then n else px) = min px n" for px n :: nat by simp
  then show ?thesis
    using wrote_cursor [OF assms, of "min px (ctx_sx ctx - 1)" "min py (ctx_sy ctx - 1)"] ctx_safe_bounds [OF assms]
    by (simp only: screen_write_cursormove_def Let_def ctx_u_sub [OF assms])
qed

lemma screen_write_carriagereturn_wrote:
  "ctx_safe ctx \<Longrightarrow> wrote ctx (ctx_glyph ctx) 0 (ctx_cy ctx) [] (screen_write_carriagereturn ctx)"
  using wrote_cursor_x [of ctx 0] by (simp add: screen_write_carriagereturn_def)

lemma screen_write_backspace_next:
  assumes "ctx_safe ctx"
  shows "returns (screen_write_backspace ctx) (ctx_next ctx)"
proof -
  note b = ctx_safe_bounds [OF assms]
  let ?c = "set_screen ctx ((ctx_s ctx)\<lparr>scr_cx := ctx_sx ctx - 1, scr_cy := ctx_cy ctx - 1\<rparr>)"
  let ?y = "gd_hsize (ctx_gd ctx) + ctx_cy ctx - 1"
  have n: "ctx_next ctx ctx" "ctx_next ctx ?c"
    "ctx_next ctx (set_screen ctx ((ctx_s ctx)\<lparr>scr_cx := ctx_cx ctx - 1\<rparr>))"
    using wrote_next [OF wrote_cursor [OF assms, of "ctx_sx ctx - 1" "ctx_cy ctx - 1"]] b
      wrote_next [OF wrote_cursor_x [OF assms, of "ctx_cx ctx - 1"]] ctx_next_refl [OF assms]
    by simp_all
  show ?thesis
  proof (cases "ctx_cx ctx = 0 \<and> ctx_cy ctx > 0")
    case True
    have "u_sub (u_add (gd_hsize (ctx_gd ctx)) (ctx_cy ctx)) 1 = ?y" "u_sub (ctx_cy ctx) 1 = ctx_cy ctx - 1"
      "?y < length (gd_linedata (ctx_gd ctx))"
      using True b grid_ok_bounds(1,2) [OF b(10)] by simp_all
    then show ?thesis using True n(1,2) by (simp add: screen_write_backspace_def Let_def ctx_u_sub [OF assms])
  next
    case False
    then show ?thesis using n b by (auto simp: screen_write_backspace_def Let_def)
  qed
qed

section \<open>Region and modes\<close>

lemma screen_safe_region:
  "screen_safe s \<Longrightarrow> upper < lower \<Longrightarrow> lower < screen_size_y s \<Longrightarrow>
   screen_safe (s\<lparr>scr_cx := 0, scr_cy := 0, scr_rupper := upper, scr_rlower := lower\<rparr>)"
  by (simp add: screen_safe_def screen_ok_def)

lemma screen_write_scrollregion_next:
  assumes "ctx_safe ctx"
  shows "ctx_next ctx (screen_write_scrollregion ctx upper lower)"
  using assms ctx_safe_bounds [OF assms] screen_safe_region [of "ctx_s ctx" "min upper (ctx_sy ctx - 1)" "min lower (ctx_sy ctx - 1)"]
  by (auto simp: screen_write_scrollregion_def Let_def ctx_u_sub [OF assms] ctx_next_def ctx_keep_def
      ctx_safe_def min_def not_le split: if_splits)

lemma ctx_next_mode:
  "ctx_safe ctx \<Longrightarrow> has_flag m MODE_WRAP \<Longrightarrow> ctx_next ctx (set_screen ctx ((ctx_s ctx)\<lparr>scr_mode := m\<rparr>))"
  by (simp add: ctx_next_def ctx_keep_def ctx_safe_def screen_safe_def screen_ok_def)

lemma screen_write_mode_next:
  assumes "ctx_safe ctx" and "m AND MODE_WRAP = 0"
  shows "ctx_next ctx (screen_write_mode m ctx state)"
  unfolding screen_write_mode_def Let_def
  by (rule ctx_next_mode)
     (use assms ctx_safe_bounds(13) [OF assms(1)] in \<open>simp_all add: has_flag_set_other has_flag_clear_other\<close>)

lemmas mode_defs = screen_write_cursormode_def screen_write_insertmode_def screen_write_utf8mousemode_def
  screen_write_bracketpaste_def screen_write_kcursormode_def screen_write_kkeypadmode_def

lemma screen_write_modes_next:
  assumes "ctx_safe ctx"
  shows "ctx_next ctx (screen_write_cursormode ctx state)" "ctx_next ctx (screen_write_insertmode ctx state)"
    "ctx_next ctx (screen_write_utf8mousemode ctx state)" "ctx_next ctx (screen_write_bracketpaste ctx state)"
    "ctx_next ctx (screen_write_kcursormode ctx state)" "ctx_next ctx (screen_write_kkeypadmode ctx state)"
  unfolding mode_defs by (simp_all add: screen_write_mode_next assms)

lemma screen_write_mousemode_next:
  assumes "ctx_safe ctx"
  shows "ctx_next ctx (screen_write_mousemode_off ctx)"
    and "mode AND MODE_WRAP = 0 \<Longrightarrow> ctx_next ctx (screen_write_mousemode_on ctx mode)"
  unfolding screen_write_mousemode_off_def screen_write_mousemode_on_def
  by (rule ctx_next_mode, use assms ctx_safe_bounds(13) [OF assms] in
      \<open>simp_all add: has_flag_set_other has_flag_clear_other\<close>)+

section \<open>Clearing\<close>

lemma live_rows:
  assumes "ctx_safe ctx"
    and "\<And>y. y < ctx_sy ctx \<Longrightarrow> (\<exists>y' < ctx_sy ctx. \<forall>x < ctx_sx ctx. G x y = ctx_glyph ctx x y') \<or>
      (\<exists>x < ctx_sx ctx. \<not> is_padding (fst (G x y)))"
  shows "rows_live (ctx_sx ctx) (ctx_sy ctx) G"
  using ctx_safe_bounds(12) [OF assms(1)] assms(2) by (rule rows_live_rows)

lemma on_grid_view:
  assumes "ctx_safe ctx" and "returns (f (ctx_gd ctx)) (view_result (ctx_gd ctx) F)"
    and eq: "\<And>x y. x < ctx_sx ctx \<Longrightarrow> y < ctx_sy ctx \<Longrightarrow> G x y = F x y"
    and "\<And>y. y < ctx_sy ctx \<Longrightarrow> (\<exists>y' < ctx_sy ctx. \<forall>x < ctx_sx ctx. G x y = ctx_glyph ctx x y') \<or>
      (\<exists>x < ctx_sx ctx. \<not> is_padding (fst (G x y)))"
  shows "returns (on_grid f ctx) (wrote ctx G (ctx_cx ctx) (ctx_cy ctx) [])"
proof (rule on_grid_wrote [OF assms(1)])
  show "returns (f (ctx_gd ctx)) (view_result (ctx_gd ctx) G)"
    using assms(2) by (rule returns_mono) (simp add: view_result_def eq)
  show "rows_live (ctx_sx ctx) (ctx_sy ctx) G" using assms(1,4) by (rule live_rows)
qed

lemma on_grid_clear:
  assumes "ctx_safe ctx" and "px + nx \<le> ctx_sx ctx" and "py + ny \<le> ctx_sy ctx"
  shows "returns (on_grid (\<lambda>gd. grid_view_clear gd px py nx ny) ctx) (wrote ctx
    (\<lambda>x y. if py \<le> y \<and> y < py + ny \<and> px \<le> x \<and> x < px + nx then blank else ctx_glyph ctx x y)
    (ctx_cx ctx) (ctx_cy ctx) [])"
proof (cases "nx = 0 \<or> ny = 0")
  case True
  then have "grid_view_clear gd px py nx ny = Some gd" for gd
    by (auto simp: grid_view_clear_def grid_clear_def)
  then show ?thesis using True ctx_safe_bounds(9) [OF assms(1)]
    by (intro on_grid_view [OF assms(1)]) (auto simp: view_result_def)
next
  case False
  note b = ctx_safe_bounds [OF assms(1)]
  show ?thesis
  proof (rule on_grid_view [OF assms(1)], rule grid_view_clear_returns)
    fix y assume "y < ctx_sy ctx"
    let ?G = "\<lambda>x y. if py \<le> y \<and> y < py + ny \<and> px \<le> x \<and> x < px + nx then blank else ctx_glyph ctx x y"
    show "(\<exists>y' < ctx_sy ctx. \<forall>x < ctx_sx ctx. ?G x y = ctx_glyph ctx x y') \<or>
      (\<exists>x < ctx_sx ctx. \<not> is_padding (fst (?G x y)))"
    proof (cases "py \<le> y \<and> y < py + ny")
      case True
      then have "\<not> is_padding (fst (?G px y))" "px < ctx_sx ctx" using False assms(2) by auto
      then show ?thesis by blast
    next
      case out: False
      then have "\<forall>x < ctx_sx ctx. ?G x y = ctx_glyph ctx x y" by auto
      then show ?thesis using \<open>y < ctx_sy ctx\<close> by blast
    qed
  qed (use b assms False in auto)
qed

lemma clear_to_margin:
  assumes "ctx_safe ctx"
  shows "returns (if ctx_cx ctx \<le> u_sub (ctx_sx ctx) 1
      then on_grid (\<lambda>gd. grid_view_clear gd (ctx_cx ctx) (ctx_cy ctx) (u_sub (ctx_sx ctx) (ctx_cx ctx)) 1) ctx
      else Some ctx)
    (wrote ctx (\<lambda>x y. if y = ctx_cy ctx \<and> ctx_cx ctx \<le> x then blank else ctx_glyph ctx x y)
      (ctx_cx ctx) (ctx_cy ctx) [])"
proof (cases "ctx_cx ctx < ctx_sx ctx")
  case True
  then show ?thesis using ctx_safe_bounds [OF assms]
    by (auto simp: ctx_u_sub [OF assms] intro!: wrote_returns_cong [OF on_grid_clear [OF assms]])
next
  case False
  then have "\<not> ctx_cx ctx \<le> u_sub (ctx_sx ctx) 1"
    using ctx_safe_bounds(1) [OF assms] by (simp add: ctx_u_sub [OF assms])
  then show ?thesis using False by (auto intro: wrote_cong [OF wrote_refl [OF assms]])
qed

lemma clear_from_margin:
  assumes "ctx_safe ctx"
  shows "returns (if ctx_cx ctx > u_sub (ctx_sx ctx) 1
      then on_grid (\<lambda>gd. grid_view_clear gd 0 (ctx_cy ctx) (ctx_sx ctx) 1) ctx
      else on_grid (\<lambda>gd. grid_view_clear gd 0 (ctx_cy ctx) (u_add (ctx_cx ctx) 1) 1) ctx)
    (wrote ctx (\<lambda>x y. if y = ctx_cy ctx \<and> x \<le> ctx_cx ctx then blank else ctx_glyph ctx x y)
      (ctx_cx ctx) (ctx_cy ctx) [])"
proof (cases "ctx_cx ctx < ctx_sx ctx")
  case True
  then show ?thesis using ctx_safe_bounds [OF assms]
    by (auto simp: ctx_u_sub [OF assms] intro!: wrote_returns_cong [OF on_grid_clear [OF assms]])
next
  case False
  then show ?thesis using ctx_safe_bounds [OF assms]
    by (auto simp: ctx_u_sub [OF assms] intro!: wrote_returns_cong [OF on_grid_clear [OF assms]])
qed

lemma screen_write_clearline_wrote:
  assumes "ctx_safe ctx"
  shows "returns (screen_write_clearline ctx) (wrote ctx
    (\<lambda>x y. if y = ctx_cy ctx then blank else ctx_glyph ctx x y) (ctx_cx ctx) (ctx_cy ctx) [tty_cmd_clearline])"
  unfolding screen_write_clearline_def Let_def initctx_plain Option.bind.bind_lunit
  by (rule wrote_returns_tty [OF wrote_returns_cong [OF on_grid_clear [OF assms]]])
     (use ctx_safe_bounds [OF assms] in auto)

lemma screen_write_clearendofline_wrote:
  assumes "ctx_safe ctx"
  shows "returns (screen_write_clearendofline ctx) (wrote ctx
    (\<lambda>x y. if y = ctx_cy ctx \<and> ctx_cx ctx \<le> x then blank else ctx_glyph ctx x y)
    (ctx_cx ctx) (ctx_cy ctx) [tty_cmd_clearendofline])"
  unfolding screen_write_clearendofline_def Let_def initctx_plain Option.bind.bind_lunit
  by (rule wrote_returns_tty [OF clear_to_margin [OF assms]]) simp

lemma screen_write_clearstartofline_wrote:
  assumes "ctx_safe ctx"
  shows "returns (screen_write_clearstartofline ctx) (wrote ctx
    (\<lambda>x y. if y = ctx_cy ctx \<and> x \<le> ctx_cx ctx then blank else ctx_glyph ctx x y)
    (ctx_cx ctx) (ctx_cy ctx) [tty_cmd_clearstartofline])"
  unfolding screen_write_clearstartofline_def Let_def initctx_plain Option.bind.bind_lunit
  by (rule wrote_returns_tty [OF clear_from_margin [OF assms]]) simp

lemma wrote_screen: "wrote ctx F cx cy cmds ctx' \<Longrightarrow> ctx_safe ctx' \<and> ctx_sx ctx' = ctx_sx ctx \<and>
    ctx_sy ctx' = ctx_sy ctx \<and> ctx_cx ctx' = cx \<and> ctx_cy ctx' = cy \<and>
    scr_rupper (ctx_s ctx') = scr_rupper (ctx_s ctx) \<and> scr_rlower (ctx_s ctx') = scr_rlower (ctx_s ctx) \<and>
    scr_mode (ctx_s ctx') = scr_mode (ctx_s ctx) \<and> gd_flags (ctx_gd ctx') = gd_flags (ctx_gd ctx) \<and>
    (\<forall>x y. x < ctx_sx ctx \<longrightarrow> y < ctx_sy ctx \<longrightarrow> ctx_glyph ctx' x y = F x y)"
  by (auto simp: wrote_def grid_keep_def)

text \<open>A second step whose picture \<open>G\<close> is given in terms of the first one's.\<close>

lemma wrote_step:
  assumes "wrote ctx F cx cy cmds ctx1" and "returns m (wrote ctx1 G cx' cy' cmds')"
    and "\<And>x y. x < ctx_sx ctx \<Longrightarrow> y < ctx_sy ctx \<Longrightarrow> H x y = G x y" and "cs = cmds @ cmds'"
  shows "returns m (wrote ctx H cx' cy' cs)"
  using assms(2)
proof (rule returns_mono)
  fix ctx2 assume "wrote ctx1 G cx' cy' cmds' ctx2"
  then have "wrote ctx G cx' cy' (cmds @ cmds') ctx2" by (rule wrote_trans [OF assms(1)])
  then show "wrote ctx H cx' cy' cs ctx2" unfolding assms(4) by (rule wrote_cong) (simp add: assms(3))
qed

text \<open>With history and the cursor on the first row everything is cleared, whatever the column.\<close>

lemma screen_write_clearendofscreen_wrote:
  assumes "ctx_safe ctx"
  shows "returns (screen_write_clearendofscreen ctx) (wrote ctx
    (\<lambda>x y. if ctx_cy ctx < y \<or> y = ctx_cy ctx \<and> (ctx_cx ctx \<le> x \<or>
          y = 0 \<and> has_flag (gd_flags (ctx_gd ctx)) GRID_HISTORY) then blank else ctx_glyph ctx x y)
    (ctx_cx ctx) (ctx_cy ctx) [tty_cmd_clearendofscreen])"
proof -
  note b = ctx_safe_bounds [OF assms]
  show ?thesis
  proof (cases "ctx_cy ctx = 0 \<and> has_flag (gd_flags (ctx_gd ctx)) GRID_HISTORY")
    case True
    have "returns (on_grid grid_view_clear_history ctx) (wrote ctx (\<lambda>x y. blank) (ctx_cx ctx) (ctx_cy ctx) [])"
      by (rule on_grid_view [OF assms], rule grid_view_clear_history_returns) (use True b(1,9) in auto)
    then show ?thesis
      unfolding screen_write_clearendofscreen_def Let_def initctx_plain Option.bind.bind_lunit if_P [OF True]
      by (rule wrote_returns_tty [OF wrote_returns_cong]) (use True in auto)
  next
    case False
    let ?cx = "ctx_cx ctx" and ?cy = "ctx_cy ctx"
    have n: "u_sub (ctx_sy ctx) (ctx_cy ctx + 1) = ctx_sy ctx - (ctx_cy ctx + 1)" using b by simp
    show ?thesis
      unfolding screen_write_clearendofscreen_def Let_def initctx_plain Option.bind.bind_lunit if_not_P [OF False]
        ctx_u_sub(8) [OF assms] n
    proof (rule wrote_returns_tty)
      show "returns ((if ?cx \<le> u_sub (ctx_sx ctx) 1
            then on_grid (\<lambda>gd. grid_view_clear gd ?cx ?cy (u_sub (ctx_sx ctx) ?cx) 1) ctx else Some ctx) \<bind>
          on_grid (\<lambda>gd. grid_view_clear gd 0 (?cy + 1) (ctx_sx ctx) (ctx_sy ctx - (?cy + 1))))
        (wrote ctx (\<lambda>x y. if ?cy < y \<or> y = ?cy \<and> (?cx \<le> x \<or>
          y = 0 \<and> has_flag (gd_flags (ctx_gd ctx)) GRID_HISTORY) then blank else ctx_glyph ctx x y) ?cx ?cy [])"
        unfolding returns_bind
      proof (rule returns_mono [OF clear_to_margin [OF assms]])
        fix ctx1 assume 1: "wrote ctx (\<lambda>x y. if y = ?cy \<and> ?cx \<le> x then blank else ctx_glyph ctx x y) ?cx ?cy [] ctx1"
        note s = wrote_screen [OF 1]
        have "returns (on_grid (\<lambda>gd. grid_view_clear gd 0 (?cy + 1) (ctx_sx ctx) (ctx_sy ctx - (?cy + 1))) ctx1)
          (wrote ctx1 (\<lambda>x y. if ?cy + 1 \<le> y \<and> y < ?cy + 1 + (ctx_sy ctx - (?cy + 1)) \<and> 0 \<le> x \<and> x < 0 + ctx_sx ctx
            then blank else ctx_glyph ctx1 x y) (ctx_cx ctx1) (ctx_cy ctx1) [])"
          by (rule on_grid_clear) (use s b in auto)
        then have "returns (on_grid (\<lambda>gd. grid_view_clear gd 0 (?cy + 1) (ctx_sx ctx) (ctx_sy ctx - (?cy + 1))) ctx1)
          (wrote ctx1 (\<lambda>x y. if ?cy + 1 \<le> y \<and> y < ?cy + 1 + (ctx_sy ctx - (?cy + 1)) \<and> 0 \<le> x \<and> x < 0 + ctx_sx ctx
            then blank else ctx_glyph ctx1 x y) ?cx ?cy [])" using s by simp
        then show "returns (on_grid (\<lambda>gd. grid_view_clear gd 0 (?cy + 1) (ctx_sx ctx) (ctx_sy ctx - (?cy + 1))) ctx1)
          (wrote ctx (\<lambda>x y. if ?cy < y \<or> y = ?cy \<and> (?cx \<le> x \<or>
            y = 0 \<and> has_flag (gd_flags (ctx_gd ctx)) GRID_HISTORY) then blank else ctx_glyph ctx x y) ?cx ?cy [])"
          by (rule wrote_step [OF 1]) (use s False in \<open>auto simp: not_less_eq_eq Suc_le_eq\<close>)
      qed
    qed simp
  qed
qed

lemma screen_write_clearstartofscreen_wrote:
  assumes "ctx_safe ctx"
  shows "returns (screen_write_clearstartofscreen ctx) (wrote ctx
    (\<lambda>x y. if y < ctx_cy ctx \<or> y = ctx_cy ctx \<and> x \<le> ctx_cx ctx then blank else ctx_glyph ctx x y)
    (ctx_cx ctx) (ctx_cy ctx) [tty_cmd_clearstartofscreen])"
proof -
  note b = ctx_safe_bounds [OF assms]
  let ?cx = "ctx_cx ctx" and ?cy = "ctx_cy ctx"
  let ?F = "\<lambda>x y. if y < ?cy then blank else ctx_glyph ctx x y"
  have first: "returns (if ?cy > 0 then on_grid (\<lambda>gd. grid_view_clear gd 0 0 (ctx_sx ctx) ?cy) ctx else Some ctx)
      (wrote ctx ?F ?cx ?cy [])"
    using b wrote_refl [OF assms]
    by (cases "?cy = 0") (auto intro!: wrote_returns_cong [OF on_grid_clear [OF assms]])
  show ?thesis
    unfolding screen_write_clearstartofscreen_def Let_def initctx_plain Option.bind.bind_lunit
    unfolding returns_bind
  proof (rule returns_mono [OF first])
    fix ctx1 assume 1: "wrote ctx ?F ?cx ?cy [] ctx1"
    note s = wrote_screen [OF 1]
    have e: "ctx_cx ctx1 = ?cx" "ctx_cy ctx1 = ?cy" "ctx_sx ctx1 = ctx_sx ctx" using s by simp_all
    have "returns (if ctx_cx ctx1 > u_sub (ctx_sx ctx1) 1
        then on_grid (\<lambda>gd. grid_view_clear gd 0 (ctx_cy ctx1) (ctx_sx ctx1) 1) ctx1
        else on_grid (\<lambda>gd. grid_view_clear gd 0 (ctx_cy ctx1) (u_add (ctx_cx ctx1) 1) 1) ctx1)
      (wrote ctx1 (\<lambda>x y. if y = ctx_cy ctx1 \<and> x \<le> ctx_cx ctx1 then blank else ctx_glyph ctx1 x y)
        (ctx_cx ctx1) (ctx_cy ctx1) [])" by (rule clear_from_margin) (use s in simp)
    then have "returns (if ?cx > u_sub (ctx_sx ctx) 1
        then on_grid (\<lambda>gd. grid_view_clear gd 0 ?cy (ctx_sx ctx) 1) ctx1
        else on_grid (\<lambda>gd. grid_view_clear gd 0 ?cy (u_add ?cx 1) 1) ctx1)
      (wrote ctx1 (\<lambda>x y. if y = ?cy \<and> x \<le> ?cx then blank else ctx_glyph ctx1 x y) ?cx ?cy [])"
      unfolding e .
    then have "returns (if ?cx > u_sub (ctx_sx ctx) 1
        then on_grid (\<lambda>gd. grid_view_clear gd 0 ?cy (ctx_sx ctx) 1) ctx1
        else on_grid (\<lambda>gd. grid_view_clear gd 0 ?cy (u_add ?cx 1) 1) ctx1)
      (wrote ctx (\<lambda>x y. if y < ?cy \<or> y = ?cy \<and> x \<le> ?cx then blank else ctx_glyph ctx x y) ?cx ?cy [])"
      by (rule wrote_step [OF 1]) (use s in auto)
    then show "returns (if ?cx > u_sub (ctx_sx ctx) 1
        then on_grid (\<lambda>gd. grid_view_clear gd 0 ?cy (ctx_sx ctx) 1) ctx1
        else on_grid (\<lambda>gd. grid_view_clear gd 0 ?cy (u_add ?cx 1) 1) ctx1)
      (\<lambda>ctx2. returns (Some (tty_write tty_cmd_clearstartofscreen (tty_ctx_init ctx) ctx2))
        (wrote ctx (\<lambda>x y. if y < ?cy \<or> y = ?cy \<and> x \<le> ?cx then blank else ctx_glyph ctx x y)
          ?cx ?cy [tty_cmd_clearstartofscreen]))"
      by (rule returns_mono) (auto dest: wrote_tty)
  qed
qed

lemma screen_write_clearscreen_wrote:
  assumes "ctx_safe ctx"
  shows "returns (screen_write_clearscreen ctx) (wrote ctx (\<lambda>x y. blank) (ctx_cx ctx) (ctx_cy ctx) [tty_cmd_clearscreen])"
proof -
  note b = ctx_safe_bounds [OF assms]
  have "returns (if has_flag (gd_flags (ctx_gd ctx)) GRID_HISTORY then on_grid grid_view_clear_history ctx
      else on_grid (\<lambda>gd. grid_view_clear gd 0 0 (ctx_sx ctx) (ctx_sy ctx)) ctx)
    (wrote ctx (\<lambda>x y. blank) (ctx_cx ctx) (ctx_cy ctx) [])"
  proof (cases "has_flag (gd_flags (ctx_gd ctx)) GRID_HISTORY")
    case True
    have "returns (on_grid grid_view_clear_history ctx) (wrote ctx (\<lambda>x y. blank) (ctx_cx ctx) (ctx_cy ctx) [])"
      by (rule on_grid_view [OF assms], rule grid_view_clear_history_returns) (use True b(1,9) in auto)
    then show ?thesis using True by simp
  next
    case False
    then show ?thesis by (auto intro!: wrote_returns_cong [OF on_grid_clear [OF assms]])
  qed
  then show ?thesis unfolding screen_write_clearscreen_def Let_def initctx_plain Option.bind.bind_lunit
    by (rule wrote_returns_tty) simp
qed

section \<open>Characters and lines\<close>

lemma clipped: "(if nx = 0 then 1 else nx) = max 1 nx" "(if m > n then n else m) = min m n" for nx m n :: nat
  by auto

lemma wrote_tty0: "wrote ctx F cx cy [] ctx' \<Longrightarrow> wrote ctx F cx cy [cmd] (tty_write cmd t ctx')"
  using wrote_tty [of ctx F cx cy "[]"] by simp

lemma screen_write_insertcharacter_wrote:
  assumes "ctx_safe ctx" and "ctx_cx ctx < ctx_sx ctx"
  shows "returns (screen_write_insertcharacter ctx nx) (wrote ctx
    (\<lambda>x y. let n = min (max 1 nx) (ctx_sx ctx - ctx_cx ctx) in
       if y \<noteq> ctx_cy ctx then ctx_glyph ctx x y
       else if ctx_cx ctx + 1 = ctx_sx ctx then (if x = ctx_cx ctx then blank else ctx_glyph ctx x y)
       else moved (ctx_cx ctx + n) (ctx_cx ctx) (ctx_sx ctx - ctx_cx ctx - n) blank (\<lambda>x. ctx_glyph ctx x y) x)
    (ctx_cx ctx) (ctx_cy ctx) [tty_cmd_insertcharacter])"
proof -
  note b = ctx_safe_bounds [OF assms(1)]
  let ?cx = "ctx_cx ctx" and ?cy = "ctx_cy ctx" and ?sx = "ctx_sx ctx"
  define n where "n = min (max 1 nx) (?sx - ?cx)"
  have n: "0 < n" "?cx + n \<le> ?sx" using assms(2) by (auto simp: n_def min_def)
  let ?G = "\<lambda>x y. if y \<noteq> ?cy then ctx_glyph ctx x y
       else if ?cx + 1 = ?sx then (if x = ?cx then blank else ctx_glyph ctx x y)
       else moved (?cx + n) ?cx (?sx - ?cx - n) blank (\<lambda>x. ctx_glyph ctx x y) x"
  have "returns (on_grid (\<lambda>gd. grid_view_insert_cells gd ?cx ?cy n) ctx) (wrote ctx ?G ?cx ?cy [])"
  proof (rule on_grid_view [OF assms(1)], rule grid_view_insert_cells_returns)
    fix y assume y: "y < ctx_sy ctx"
    show "(\<exists>y' < ctx_sy ctx. \<forall>x < ?sx. ?G x y = ctx_glyph ctx x y') \<or> (\<exists>x < ?sx. \<not> is_padding (fst (?G x y)))"
    proof (cases "y = ?cy \<and> (?cx + 1 = ?sx \<or> ?cx + n < ?sx)")
      case True
      then have "\<not> is_padding (fst (?G ?cx y))" using n by (auto simp: moved_def)
      then show ?thesis using assms(2) by blast
    next
      case False
      then have "\<forall>x < ?sx. ?G x y = ctx_glyph ctx x y" using n by (auto simp: moved_def)
      then show ?thesis using y by blast
    qed
  qed (use b n assms(2) in auto)
  moreover have "?cx \<le> u_sub ?sx 1" using b(1) assms(2) by (simp add: ctx_u_sub [OF assms(1)])
  ultimately show ?thesis using n(1) assms(2)
    unfolding screen_write_insertcharacter_def Let_def initctx_plain Option.bind.bind_lunit clipped
      ctx_u_sub(3) [OF assms(1) less_imp_le [OF assms(2)]] n_def [symmetric]
    by (auto intro: wrote_tty0 elim!: returns_mono)
qed

lemma screen_write_deletecharacter_wrote:
  assumes "ctx_safe ctx" and "ctx_cx ctx < ctx_sx ctx"
  shows "returns (screen_write_deletecharacter ctx nx) (wrote ctx
    (\<lambda>x y. let n = min (max 1 nx) (ctx_sx ctx - ctx_cx ctx) in
       if y \<noteq> ctx_cy ctx \<or> x < ctx_cx ctx then ctx_glyph ctx x y
       else if x + n < ctx_sx ctx then ctx_glyph ctx (x + n) y else blank)
    (ctx_cx ctx) (ctx_cy ctx) [tty_cmd_deletecharacter])"
proof -
  note b = ctx_safe_bounds [OF assms(1)]
  let ?cx = "ctx_cx ctx" and ?cy = "ctx_cy ctx" and ?sx = "ctx_sx ctx"
  define n where "n = min (max 1 nx) (?sx - ?cx)"
  have n: "0 < n" "?cx + n \<le> ?sx" using assms(2) by (auto simp: n_def min_def)
  let ?G = "\<lambda>x y. if y \<noteq> ?cy \<or> x < ?cx then ctx_glyph ctx x y
       else if x + n < ?sx then ctx_glyph ctx (x + n) y else blank"
  have "returns (on_grid (\<lambda>gd. grid_view_delete_cells gd ?cx ?cy n) ctx) (wrote ctx ?G ?cx ?cy [])"
  proof (rule on_grid_view [OF assms(1)], rule grid_view_delete_cells_returns)
    fix y assume y: "y < ctx_sy ctx"
    show "(\<exists>y' < ctx_sy ctx. \<forall>x < ?sx. ?G x y = ctx_glyph ctx x y') \<or> (\<exists>x < ?sx. \<not> is_padding (fst (?G x y)))"
    proof (cases "y = ?cy")
      case True
      then have "\<not> is_padding (fst (?G (?sx - 1) y))" "?sx - 1 < ?sx" using n by auto
      then show ?thesis by blast
    next
      case False
      then have "\<forall>x < ?sx. ?G x y = ctx_glyph ctx x y" by simp
      then show ?thesis using y by blast
    qed
  qed (use b n assms(2) in auto)
  moreover have "?cx \<le> u_sub ?sx 1" using b(1) assms(2) by (simp add: ctx_u_sub [OF assms(1)])
  ultimately show ?thesis using n(1) assms(2)
    unfolding screen_write_deletecharacter_def Let_def initctx_plain Option.bind.bind_lunit clipped
      ctx_u_sub(3) [OF assms(1) less_imp_le [OF assms(2)]] n_def [symmetric]
    by (auto intro: wrote_tty0 elim!: returns_mono)
qed

lemma ctx_next_tty: "ctx_safe ctx \<Longrightarrow> ctx_next ctx (tty_write cmd t ctx)"
  using wrote_next [OF wrote_tty [OF wrote_refl]] .

lemma screen_write_characters_next:
  assumes "ctx_safe ctx"
  shows "returns (screen_write_insertcharacter ctx nx) (ctx_next ctx)"
    and "returns (screen_write_deletecharacter ctx nx) (ctx_next ctx)"
proof -
  have out: "returns (screen_write_insertcharacter ctx nx) (ctx_next ctx) \<and>
      returns (screen_write_deletecharacter ctx nx) (ctx_next ctx)" if "\<not> ctx_cx ctx < ctx_sx ctx"
  proof -
    have "\<not> ctx_cx ctx \<le> u_sub (ctx_sx ctx) 1"
      using that ctx_safe_bounds(1) [OF assms] by (simp add: ctx_u_sub [OF assms])
    then show ?thesis using assms
      by (simp add: screen_write_insertcharacter_def screen_write_deletecharacter_def Let_def
          ctx_next_refl ctx_next_tty)
  qed
  show "returns (screen_write_insertcharacter ctx nx) (ctx_next ctx)"
    "returns (screen_write_deletecharacter ctx nx) (ctx_next ctx)"
    using out wrote_returns_next [OF screen_write_insertcharacter_wrote [OF assms]]
      wrote_returns_next [OF screen_write_deletecharacter_wrote [OF assms]] by blast+
qed

text \<open>
  Lines: \<open>lines_end\<close> is the row after the last one that moves, which is the region's when the cursor is
  inside it and else the screen's.
\<close>

definition in_region :: "screen \<Rightarrow> bool" where
  "in_region s \<longleftrightarrow> scr_rupper s \<le> scr_cy s \<and> scr_cy s \<le> scr_rlower s"

definition lines_end :: "screen \<Rightarrow> u_int" where
  "lines_end s = (if in_region s then scr_rlower s + 1 else screen_size_y s)"

lemma outside_region: "scr_cy s < scr_rupper s \<or> scr_cy s > scr_rlower s \<longleftrightarrow> \<not> in_region s"
  by (auto simp: in_region_def)

lemma shifted_rows_live:
  assumes "ctx_safe ctx"
    and "\<And>y. y < ctx_sy ctx \<Longrightarrow> (\<exists>y' < ctx_sy ctx. \<forall>x. G x y = ctx_glyph ctx x y') \<or> (\<forall>x. G x y = blank)"
    and "y < ctx_sy ctx"
  shows "(\<exists>y' < ctx_sy ctx. \<forall>x < ctx_sx ctx. G x y = ctx_glyph ctx x y') \<or>
    (\<exists>x < ctx_sx ctx. \<not> is_padding (fst (G x y)))"
proof -
  have "0 < ctx_sx ctx" using ctx_safe_bounds(1) [OF assms(1)] by simp
  then show ?thesis using assms(2) [OF assms(3)] by (metis default_not_padding fst_conv)
qed

lemma screen_write_insertline_wrote:
  assumes "ctx_safe ctx" and "in_region (ctx_s ctx)"
  shows "returns (screen_write_insertline ctx ny) (wrote ctx
    (\<lambda>x y. let e = scr_rlower (ctx_s ctx) + 1; n = min (max 1 ny) (e - ctx_cy ctx) in
       if y < ctx_cy ctx \<or> e \<le> y then ctx_glyph ctx x y
       else if y < ctx_cy ctx + n then blank else ctx_glyph ctx x (y - n))
    (ctx_cx ctx) (ctx_cy ctx) [tty_cmd_insertline])"
proof -
  note b = ctx_safe_bounds [OF assms(1)]
  let ?cy = "ctx_cy ctx" and ?lo = "scr_rlower (ctx_s ctx)"
  define n where "n = min (max 1 ny) (?lo + 1 - ?cy)"
  have n: "0 < n" "?cy + n \<le> ?lo + 1" using assms(2) by (auto simp: n_def min_def in_region_def)
  have u: "u_sub (u_add ?lo 1) ?cy = ?lo + 1 - ?cy" using b assms(2) by (simp add: in_region_def)
  let ?G = "\<lambda>x y. if y < ?cy \<or> ?lo + 1 \<le> y then ctx_glyph ctx x y
       else if y < ?cy + n then blank else ctx_glyph ctx x (y - n)"
  have "returns (on_grid (\<lambda>gd. grid_view_insert_lines_region gd ?lo ?cy n) ctx) (wrote ctx ?G (ctx_cx ctx) ?cy [])"
  proof (rule on_grid_view [OF assms(1)], rule grid_view_insert_lines_region_returns)
    fix y assume "y < ctx_sy ctx"
    then show "(\<exists>y' < ctx_sy ctx. \<forall>x < ctx_sx ctx. ?G x y = ctx_glyph ctx x y') \<or>
        (\<exists>x < ctx_sx ctx. \<not> is_padding (fst (?G x y)))"
    proof (rule shifted_rows_live [OF assms(1), rotated])
      fix y assume y: "y < ctx_sy ctx"
      then have "y - n < ctx_sy ctx" by simp
      then show "(\<exists>y' < ctx_sy ctx. \<forall>x. ?G x y = ctx_glyph ctx x y') \<or> (\<forall>x. ?G x y = blank)"
        using y by (auto split: if_splits)
    qed
  qed (use b n in auto)
  then show ?thesis using n(1) assms(2)
    unfolding screen_write_insertline_def Let_def initctx_plain Option.bind.bind_lunit clipped u
      outside_region n_def [symmetric]
    by (auto intro: wrote_tty0 elim!: returns_mono)
qed

lemma screen_write_deleteline_wrote:
  assumes "ctx_safe ctx"
  shows "returns (screen_write_deleteline ctx ny) (wrote ctx
    (\<lambda>x y. let e = lines_end (ctx_s ctx); n = min (max 1 ny) (e - ctx_cy ctx) in
       if y < ctx_cy ctx \<or> e \<le> y then ctx_glyph ctx x y
       else if y + n < e then ctx_glyph ctx x (y + n) else blank)
    (ctx_cx ctx) (ctx_cy ctx) [tty_cmd_deleteline])"
proof -
  note b = ctx_safe_bounds [OF assms]
  let ?cy = "ctx_cy ctx" and ?lo = "scr_rlower (ctx_s ctx)" and ?e = "lines_end (ctx_s ctx)"
  define n where "n = min (max 1 ny) (?e - ?cy)"
  have e: "?cy < ?e" "?e \<le> ctx_sy ctx" using b by (auto simp: lines_end_def in_region_def)
  then have n: "0 < n" "?cy + n \<le> ?e" by (auto simp: n_def min_def)
  let ?G = "\<lambda>x y. if y < ?cy \<or> ?e \<le> y then ctx_glyph ctx x y
       else if y + n < ?e then ctx_glyph ctx x (y + n) else blank"
  have live: "(\<exists>y' < ctx_sy ctx. \<forall>x < ctx_sx ctx. ?G x y = ctx_glyph ctx x y') \<or>
        (\<exists>x < ctx_sx ctx. \<not> is_padding (fst (?G x y)))" if "y < ctx_sy ctx" for y
    using that
  proof (rule shifted_rows_live [OF assms, rotated])
    fix y assume y: "y < ctx_sy ctx"
    then show "(\<exists>y' < ctx_sy ctx. \<forall>x. ?G x y = ctx_glyph ctx x y') \<or> (\<forall>x. ?G x y = blank)"
      using e(2) by (cases "y + n < ?e") (auto split: if_splits intro: exI [where x = "y + n"] exI [where x = y])
  qed
  show ?thesis
  proof (cases "in_region (ctx_s ctx)")
    case True
    have u: "u_sub (u_add ?lo 1) ?cy = ?lo + 1 - ?cy" using b True by (simp add: in_region_def)
    have "returns (on_grid (\<lambda>gd. grid_view_delete_lines_region gd ?lo ?cy n) ctx) (wrote ctx ?G (ctx_cx ctx) ?cy [])"
      by (rule on_grid_view [OF assms], rule grid_view_delete_lines_region_returns)
         (use b n True live in \<open>auto simp: lines_end_def\<close>)
    then show ?thesis using n(1) True
      unfolding screen_write_deleteline_def Let_def initctx_plain Option.bind.bind_lunit clipped u
        outside_region n_def [symmetric]
      by (auto simp: n_def lines_end_def intro: wrote_tty0 elim!: returns_mono)
  next
    case False
    have "returns (on_grid (\<lambda>gd. grid_view_delete_lines gd ?cy n) ctx) (wrote ctx ?G (ctx_cx ctx) ?cy [])"
      by (rule on_grid_view [OF assms], rule grid_view_delete_lines_returns)
         (use b n False live in \<open>auto simp: lines_end_def\<close>)
    then show ?thesis using n(1) False
      unfolding screen_write_deleteline_def Let_def initctx_plain Option.bind.bind_lunit clipped
        ctx_u_sub(4) [OF assms] outside_region n_def [symmetric]
      by (auto simp: n_def lines_end_def intro: wrote_tty0 elim!: returns_mono)
  qed
qed

text \<open>Outside the region \<open>screen_write_insertline\<close> does not clear the rows that stay in the gap.\<close>

lemma screen_write_insertline_outside_wrote:
  assumes "ctx_safe ctx" and "\<not> in_region (ctx_s ctx)"
  shows "returns (screen_write_insertline ctx ny) (wrote ctx
    (\<lambda>x y. let n = min (max 1 ny) (ctx_sy ctx - ctx_cy ctx)
       in moved (ctx_cy ctx + n) (ctx_cy ctx) (ctx_sy ctx - ctx_cy ctx - n) blank (ctx_glyph ctx x) y)
    (ctx_cx ctx) (ctx_cy ctx) [tty_cmd_insertline])"
proof -
  note b = ctx_safe_bounds [OF assms(1)]
  let ?cy = "ctx_cy ctx"
  define n where "n = min (max 1 ny) (ctx_sy ctx - ?cy)"
  have n: "0 < n" "?cy + n \<le> ctx_sy ctx" using b by (auto simp: n_def min_def)
  let ?G = "\<lambda>x y. moved (?cy + n) ?cy (ctx_sy ctx - ?cy - n) blank (ctx_glyph ctx x) y"
  have "returns (on_grid (\<lambda>gd. grid_view_insert_lines gd ?cy n) ctx) (wrote ctx ?G (ctx_cx ctx) ?cy [])"
  proof (rule on_grid_view [OF assms(1)], rule grid_view_insert_lines_returns)
    fix y assume "y < ctx_sy ctx"
    then show "(\<exists>y' < ctx_sy ctx. \<forall>x < ctx_sx ctx. ?G x y = ctx_glyph ctx x y') \<or>
        (\<exists>x < ctx_sx ctx. \<not> is_padding (fst (?G x y)))"
    proof (rule shifted_rows_live [OF assms(1), rotated])
      fix y assume y: "y < ctx_sy ctx"
      then have "?cy + (y - (?cy + n)) < ctx_sy ctx" if "?cy + n \<le> y" using that by linarith
      then show "(\<exists>y' < ctx_sy ctx. \<forall>x. ?G x y = ctx_glyph ctx x y') \<or> (\<forall>x. ?G x y = blank)"
        using y unfolding moved_def by (auto split: if_splits)
    qed
  qed (use b n in auto)
  then show ?thesis using n(1) assms(2)
    unfolding screen_write_insertline_def Let_def initctx_plain Option.bind.bind_lunit clipped
      ctx_u_sub(4) [OF assms(1)] outside_region n_def [symmetric]
    by (auto intro: wrote_tty0 elim!: returns_mono)
qed

lemma screen_write_lines_next:
  assumes "ctx_safe ctx"
  shows "returns (screen_write_insertline ctx ny) (ctx_next ctx)"
    and "returns (screen_write_deleteline ctx ny) (ctx_next ctx)"
  using wrote_returns_next [OF screen_write_insertline_wrote [OF assms]]
    wrote_returns_next [OF screen_write_insertline_outside_wrote [OF assms]]
    wrote_returns_next [OF screen_write_deleteline_wrote [OF assms]] by blast+

section \<open>Line feeds\<close>

text \<open>
  Scrolling the region of a screen up. On a screen of one row without history the region has one row
  too and nothing happens.
\<close>

definition scrolled_up :: "screen \<Rightarrow> u_int \<Rightarrow> u_int \<Rightarrow> grid_cell \<times> grid_utf8 option" where
  "scrolled_up s x y =
     (if scr_rupper s = scr_rlower s \<and> \<not> has_flag (gd_flags (scr_grid s)) GRID_HISTORY
      then view_glyph (scr_grid s) x y
      else region_up (scr_rupper s) (scr_rlower s) blank (view_glyph (scr_grid s) x) y)"

definition scrolled_down :: "screen \<Rightarrow> u_int \<Rightarrow> u_int \<Rightarrow> grid_cell \<times> grid_utf8 option" where
  "scrolled_down s x y =
     (if scr_rupper s < y \<and> y \<le> scr_rlower s then view_glyph (scr_grid s) x (y - 1)
      else if scr_rupper s < scr_rlower s \<and> y = scr_rupper s then blank else view_glyph (scr_grid s) x y)"

lemma screen_region_cases:
  assumes "ctx_safe ctx"
  obtains "scr_rupper (ctx_s ctx) < scr_rlower (ctx_s ctx)"
    | "ctx_sy ctx = 1" "scr_rupper (ctx_s ctx) = 0" "scr_rlower (ctx_s ctx) = 0"
  using ctx_safe_bounds(6-8,11) [OF assms] by (auto simp: screen_ok_def)

lemma region_scroll_up_wrote:
  assumes "ctx_safe ctx"
  shows "returns (on_grid (\<lambda>gd. grid_view_scroll_region_up gd (scr_rupper (ctx_s ctx)) (scr_rlower (ctx_s ctx))) ctx)
    (wrote ctx (scrolled_up (ctx_s ctx)) (ctx_cx ctx) (ctx_cy ctx) [])"
  using assms
proof (cases rule: screen_region_cases)
  note b = ctx_safe_bounds [OF assms]
  let ?up = "scr_rupper (ctx_s ctx)" and ?lo = "scr_rlower (ctx_s ctx)"
  have live: "(\<exists>y' < ctx_sy ctx. \<forall>x < ctx_sx ctx. scrolled_up (ctx_s ctx) x y = ctx_glyph ctx x y') \<or>
        (\<exists>x < ctx_sx ctx. \<not> is_padding (fst (scrolled_up (ctx_s ctx) x y)))" if "y < ctx_sy ctx" for y
    using that
  proof (rule shifted_rows_live [OF assms, rotated])
    fix y assume y: "y < ctx_sy ctx"
    then have "y < ?lo \<Longrightarrow> y + 1 < ctx_sy ctx" using b by simp
    then show "(\<exists>y' < ctx_sy ctx. \<forall>x. scrolled_up (ctx_s ctx) x y = ctx_glyph ctx x y') \<or>
        (\<forall>x. scrolled_up (ctx_s ctx) x y = blank)"
      using y by (auto simp: scrolled_up_def region_up_def)
  qed
  {
    case 1
    show ?thesis
      by (rule on_grid_view [OF assms], rule grid_view_scroll_region_up_returns)
         (use 1 b live in \<open>auto simp: scrolled_up_def\<close>)
  next
    case 2
    have h: "gd_hsize (ctx_gd ctx) < UINT_MOD" using grid_ok_bounds(1) [OF b(10)] by simp
    have "returns (grid_view_scroll_region_up (ctx_gd ctx) 0 0) (view_result (ctx_gd ctx) (scrolled_up (ctx_s ctx)))"
    proof (cases "has_flag (gd_flags (ctx_gd ctx)) GRID_HISTORY")
      case True
      have "returns (grid_collect_history (ctx_gd ctx)) (\<lambda>gd. gd_sy gd = 1)"
        using grid_collect_history_returns [OF b(10) _ True] b(9) True 2(1)
        by (auto simp: view_ok_def grid_keep_def elim!: returns_mono)
      then obtain gd where gd: "grid_collect_history (ctx_gd ctx) = Some gd" "gd_sy gd = 1"
        by (auto simp: returns_eq)
      have "grid_view_scroll_region_up (ctx_gd ctx) 0 0 = grid_collect_history (ctx_gd ctx) \<bind> grid_scroll_history"
        using True gd by (simp add: grid_view_scroll_region_up_def)
      then show ?thesis using scroll_once_returns [OF b(9) True] 2 True
        by (auto simp: view_result_def scrolled_up_def region_up_def elim!: returns_mono)
    next
      case False
      then show ?thesis using 2 b(9) h
        by (simp add: grid_view_scroll_region_up_def Let_def grid_move_lines_def view_result_def scrolled_up_def)
    qed
    then show ?thesis unfolding 2(2,3)
      by (rule on_grid_view [OF assms]) (use live in auto)
  }
qed

lemma region_scroll_down_wrote:
  assumes "ctx_safe ctx"
  shows "returns (on_grid (\<lambda>gd. grid_view_scroll_region_down gd (scr_rupper (ctx_s ctx)) (scr_rlower (ctx_s ctx))) ctx)
    (wrote ctx (scrolled_down (ctx_s ctx)) (ctx_cx ctx) (ctx_cy ctx) [])"
  using assms
proof (cases rule: screen_region_cases)
  note b = ctx_safe_bounds [OF assms]
  let ?up = "scr_rupper (ctx_s ctx)" and ?lo = "scr_rlower (ctx_s ctx)"
  have live: "(\<exists>y' < ctx_sy ctx. \<forall>x < ctx_sx ctx. scrolled_down (ctx_s ctx) x y = ctx_glyph ctx x y') \<or>
        (\<exists>x < ctx_sx ctx. \<not> is_padding (fst (scrolled_down (ctx_s ctx) x y)))" if "y < ctx_sy ctx" for y
    using that
  proof (rule shifted_rows_live [OF assms, rotated])
    fix y assume y: "y < ctx_sy ctx"
    then have "y - 1 < ctx_sy ctx" by simp
    then show "(\<exists>y' < ctx_sy ctx. \<forall>x. scrolled_down (ctx_s ctx) x y = ctx_glyph ctx x y') \<or>
        (\<forall>x. scrolled_down (ctx_s ctx) x y = blank)"
      using y by (auto simp: scrolled_down_def)
  qed
  {
    case 1
    show ?thesis
      by (rule on_grid_view [OF assms], rule grid_view_scroll_region_down_returns)
         (use 1 b live in \<open>auto simp: scrolled_down_def\<close>)
  next
    case 2
    then have "returns (grid_view_scroll_region_down (ctx_gd ctx) 0 0)
        (view_result (ctx_gd ctx) (scrolled_down (ctx_s ctx)))" using b(9)
      by (simp add: grid_view_scroll_region_down_def Let_def grid_move_lines_def view_result_def scrolled_down_def)
    then show ?thesis unfolding 2(2,3)
      by (rule on_grid_view [OF assms]) (use live in auto)
  }
qed

lemma screen_write_reverseindex_wrote:
  assumes "ctx_safe ctx"
  shows "returns (screen_write_reverseindex ctx) (wrote ctx
    (if ctx_cy ctx = scr_rupper (ctx_s ctx) then scrolled_down (ctx_s ctx) else ctx_glyph ctx) (ctx_cx ctx)
    (if ctx_cy ctx = scr_rupper (ctx_s ctx) then ctx_cy ctx else ctx_cy ctx - 1) [tty_cmd_reverseindex])"
proof -
  note b = ctx_safe_bounds [OF assms]
  let ?cy = "ctx_cy ctx"
  have "u_sub ?cy 1 = ?cy - 1" if "0 < ?cy" using that b by simp
  then have "returns (if ?cy = scr_rupper (ctx_s ctx)
        then on_grid (\<lambda>gd. grid_view_scroll_region_down gd (scr_rupper (ctx_s ctx)) (scr_rlower (ctx_s ctx))) ctx
        else if ?cy > 0 then Some (set_screen ctx ((ctx_s ctx)\<lparr>scr_cy := u_sub ?cy 1\<rparr>)) else Some ctx)
      (wrote ctx (if ?cy = scr_rupper (ctx_s ctx) then scrolled_down (ctx_s ctx) else ctx_glyph ctx) (ctx_cx ctx)
        (if ?cy = scr_rupper (ctx_s ctx) then ?cy else ?cy - 1) [])"
    using region_scroll_down_wrote [OF assms] wrote_cursor_y [OF assms, of "?cy - 1"] wrote_refl [OF assms] b(6)
    by (cases "?cy = 0") auto
  then show ?thesis unfolding screen_write_reverseindex_def Let_def initctx_plain Option.bind.bind_lunit
    by (rule wrote_returns_tty) simp
qed

text \<open>Writing the line's flags leaves the cells alone.\<close>

lemma set_wrapped_glyph [simp]: "line_glyph (set_wrapped w gl) x = line_glyph gl x"
  by (simp add: set_wrapped_def line_glyph_def line_cell_def)

lemma set_wrapped_ok: "line_ok gl \<Longrightarrow> line_ok (set_wrapped w gl)"
  by (auto simp: set_wrapped_def line_ok_def)

lemma upd_view_line_wrote:
  assumes "ctx_safe ctx" and "\<And>gl. line_ok gl \<Longrightarrow> line_ok (f gl)" and "\<And>gl x. line_glyph (f gl) x = line_glyph gl x"
  shows "returns (on_grid (\<lambda>gd. upd_line (u_add (gd_hsize gd) (ctx_cy ctx)) (\<lambda>gl. Some (f gl)) gd) ctx)
    (wrote ctx (ctx_glyph ctx) (ctx_cx ctx) (ctx_cy ctx) [])"
proof (rule on_grid_view [OF assms(1)])
  note b = ctx_safe_bounds [OF assms(1)]
  let ?gd = "ctx_gd ctx" and ?y = "gd_hsize (ctx_gd ctx) + ctx_cy ctx"
  have y: "u_add (gd_hsize ?gd) (ctx_cy ctx) = ?y" "?y < grid_total ?gd" "?y < length (gd_linedata ?gd)"
    using b grid_ok_bounds(1,2) [OF b(10)] by simp_all
  have "line_ok (f (gd_linedata ?gd ! ?y))" using assms(2) grid_ok_line [OF b(10) y(2)] .
  then have "grid_result ?gd (grid_glyph ?gd) (?gd\<lparr>gd_linedata := (gd_linedata ?gd)[?y := f (gd_linedata ?gd ! ?y)]\<rparr>)"
    by (intro grid_result_upd) (use b y assms(3) in \<open>auto simp: grid_glyph_def\<close>)
  then have "view_result ?gd (view_glyph ?gd) (?gd\<lparr>gd_linedata := (gd_linedata ?gd)[?y := f (gd_linedata ?gd ! ?y)]\<rparr>)"
    by (rule grid_result_view [OF b(9)]) (simp add: view_glyph_def)
  then show "returns (upd_line (u_add (gd_hsize ?gd) (ctx_cy ctx)) (\<lambda>gl. Some (f gl)) ?gd)
      (view_result ?gd (view_glyph ?gd))"
    using y by (simp add: upd_line_def)
  show "(\<exists>y' < ctx_sy ctx. \<forall>x < ctx_sx ctx. ctx_glyph ctx x y = ctx_glyph ctx x y') \<or>
      (\<exists>x < ctx_sx ctx. \<not> is_padding (fst (ctx_glyph ctx x y)))" if "y < ctx_sy ctx" for y
    using that by blast
qed simp

definition linefeed_view :: "screen \<Rightarrow> u_int \<Rightarrow> u_int \<Rightarrow> grid_cell \<times> grid_utf8 option" where
  "linefeed_view s = (if scr_cy s = scr_rlower s then scrolled_up s else view_glyph (scr_grid s))"

definition linefeed_cy :: "screen \<Rightarrow> u_int" where
  "linefeed_cy s = (if scr_cy s = scr_rlower s then scr_cy s else min (screen_size_y s - 1) (scr_cy s + 1))"

lemma screen_write_linefeed_wrote:
  assumes "ctx_safe ctx"
  shows "returns (screen_write_linefeed ctx wrapped)
    (wrote ctx (linefeed_view (ctx_s ctx)) (ctx_cx ctx) (linefeed_cy (ctx_s ctx)) [tty_cmd_linefeed])"
proof -
  note b = ctx_safe_bounds [OF assms]
  let ?cy = "ctx_cy ctx" and ?F = "linefeed_view (ctx_s ctx)" and ?cy' = "linefeed_cy (ctx_s ctx)"
  show ?thesis
    unfolding screen_write_linefeed_def Let_def initctx_plain Option.bind.bind_lunit
    unfolding returns_bind
  proof (rule returns_mono [OF upd_view_line_wrote [OF assms set_wrapped_ok set_wrapped_glyph]])
    fix ctx1 assume 1: "wrote ctx (ctx_glyph ctx) (ctx_cx ctx) ?cy [] ctx1"
    note s = wrote_screen [OF 1]
    then have safe: "ctx_safe ctx1" by simp
    have step: "returns (if ctx_cy ctx1 = scr_rlower (ctx_s ctx1)
          then on_grid (\<lambda>gd. grid_view_scroll_region_up gd (scr_rupper (ctx_s ctx1)) (scr_rlower (ctx_s ctx1))) ctx1
          else if ctx_cy ctx1 < u_sub (ctx_sy ctx1) 1
          then Some (set_screen ctx1 ((ctx_s ctx1)\<lparr>scr_cy := u_add (ctx_cy ctx1) 1\<rparr>)) else Some ctx1)
        (wrote ctx1 (linefeed_view (ctx_s ctx1)) (ctx_cx ctx1) (linefeed_cy (ctx_s ctx1)) [])"
    proof (cases "ctx_cy ctx1 = scr_rlower (ctx_s ctx1)")
      case True
      then show ?thesis using region_scroll_up_wrote [OF safe]
        by (simp add: linefeed_view_def linefeed_cy_def)
    next
      case False
      have "linefeed_cy (ctx_s ctx1) = (if ctx_cy ctx1 < ctx_sy ctx1 - 1 then ctx_cy ctx1 + 1 else ctx_cy ctx1)"
        using False ctx_safe_bounds(6) [OF safe] by (auto simp: linefeed_cy_def)
      then show ?thesis using False wrote_cursor_y [OF safe, of "ctx_cy ctx1 + 1"] wrote_refl [OF safe]
        by (auto simp: linefeed_view_def ctx_u_sub [OF safe])
    qed
    have cy: "linefeed_cy (ctx_s ctx1) = ?cy'" using s by (simp add: linefeed_cy_def)
    have cx: "ctx_cx ctx1 = ctx_cx ctx" using s by simp
    have view: "linefeed_view (ctx_s ctx1) x y = ?F x y" if "x < ctx_sx ctx" "y < ctx_sy ctx" for x y
    proof -
      have "y < scr_rlower (ctx_s ctx) \<Longrightarrow> y + 1 < ctx_sy ctx" using b by simp
      then show ?thesis using s that by (auto simp: linefeed_view_def scrolled_up_def region_up_def)
    qed
    have "returns (if ctx_cy ctx1 = scr_rlower (ctx_s ctx1)
          then on_grid (\<lambda>gd. grid_view_scroll_region_up gd (scr_rupper (ctx_s ctx1)) (scr_rlower (ctx_s ctx1))) ctx1
          else if ctx_cy ctx1 < u_sub (ctx_sy ctx1) 1
          then Some (set_screen ctx1 ((ctx_s ctx1)\<lparr>scr_cy := u_add (ctx_cy ctx1) 1\<rparr>)) else Some ctx1)
        (wrote ctx ?F (ctx_cx ctx1) (linefeed_cy (ctx_s ctx1)) [])"
      by (rule wrote_step [OF 1 step]) (simp_all add: view)
    then show "returns (if ctx_cy ctx1 = scr_rlower (ctx_s ctx1)
          then on_grid (\<lambda>gd. grid_view_scroll_region_up gd (scr_rupper (ctx_s ctx1)) (scr_rlower (ctx_s ctx1))) ctx1
          else if ctx_cy ctx1 < u_sub (ctx_sy ctx1) 1
          then Some (set_screen ctx1 ((ctx_s ctx1)\<lparr>scr_cy := u_add (ctx_cy ctx1) 1\<rparr>)) else Some ctx1)
        (\<lambda>ctx2. returns (Some (tty_write tty_cmd_linefeed ((tty_ctx_init ctx)\<lparr>tc_num := Some (if wrapped then 1 else 0)\<rparr>) ctx2))
          (wrote ctx ?F (ctx_cx ctx) ?cy' [tty_cmd_linefeed]))"
      by (rule returns_mono) (auto simp: cx cy intro: wrote_tty0)
  qed
qed

section \<open>Whole screen\<close>

lemma view_result_step:
  assumes "view_result gd F gd1" and "returns m (view_result gd1 G)"
    and "\<And>x y. x < gd_sx gd \<Longrightarrow> y < gd_sy gd \<Longrightarrow> H x y = G x y"
  shows "returns m (view_result gd H)"
  using assms(2)
proof (rule returns_mono)
  fix gd2 assume "view_result gd1 G gd2"
  moreover have "grid_keep gd gd1" using assms(1) by (simp add: view_result_def)
  ultimately show "view_result gd H gd2"
    using assms(3) by (auto simp: view_result_def grid_keep_def)
qed

definition alignment_cell :: grid_cell where
  "alignment_cell = grid_default_cell\<lparr>gc_data := 0x45\<rparr>"

lemma alignment_cell_plain [simp]: "\<not> is_utf8 alignment_cell" "\<not> is_padding alignment_cell"
  by (simp_all add: alignment_cell_def is_utf8_def is_padding_def grid_default_cell_def)

lemma alignment_grid_returns:
  assumes ok: "view_ok gd"
  shows "returns (for_upto 0 (gd_sy gd) (\<lambda>yy. for_upto 0 (gd_sx gd)
      (\<lambda>xx gd. grid_view_set_cell gd xx yy alignment_cell)) gd) (view_result gd (\<lambda>x y. (alignment_cell, None)))"
proof -
  note gb = grid_ok_bounds [OF view_ok_grid [OF ok]]
  let ?F = "\<lambda>xx yy x y. if y < yy \<or> y = yy \<and> x < xx then (alignment_cell, None) else view_glyph gd x y"
  have "returns (for_upto 0 (gd_sy gd) (\<lambda>yy. for_upto 0 (gd_sx gd)
      (\<lambda>xx gd. grid_view_set_cell gd xx yy alignment_cell)) gd) (view_result gd (?F 0 (gd_sy gd)))"
  proof (rule for_upto_returns_index)
    show "view_result gd (?F 0 0) gd" using ok by (simp add: view_result_def)
    fix yy gd1 assume yy: "yy < gd_sy gd" and 1: "view_result gd (?F 0 yy) gd1"
    have "returns (for_upto 0 (gd_sx gd) (\<lambda>xx gd. grid_view_set_cell gd xx yy alignment_cell) gd1)
        (view_result gd (?F (gd_sx gd) yy))"
    proof (rule for_upto_returns_index)
      fix xx gd2 assume xx: "xx < gd_sx gd" and 2: "view_result gd (?F xx yy) gd2"
      have k: "view_ok gd2" "grid_keep gd gd2" using view_result_ok [OF 2] by simp_all
      have "returns (grid_view_set_cell gd2 xx yy alignment_cell) (view_result gd2
          (\<lambda>x y. if x = xx \<and> y = yy then (alignment_cell, None) else view_glyph gd2 x y))"
        by (rule grid_view_set_cell_returns) (use k xx yy gb in \<open>auto simp: grid_keep_def\<close>)
      then show "returns (grid_view_set_cell gd2 xx yy alignment_cell) (view_result gd (?F (Suc xx) yy))"
        by (rule view_result_step [OF 2]) (use 2 in \<open>auto simp: view_result_def\<close>)
    qed (use 1 in simp_all)
    then show "returns (for_upto 0 (gd_sx gd) (\<lambda>xx gd. grid_view_set_cell gd xx yy alignment_cell) gd1)
        (view_result gd (?F 0 (Suc yy)))"
      by (rule returns_mono) (auto simp: view_result_def less_Suc_eq)
  qed simp
  then show ?thesis by (rule returns_mono) (simp add: view_result_def)
qed

lemma ctx_next_reset_region:
  assumes "ctx_safe ctx"
  shows "ctx_next ctx (set_screen ctx ((ctx_s ctx)\<lparr>scr_cx := 0, scr_cy := 0, scr_rupper := 0,
    scr_rlower := u_sub (ctx_sy ctx) 1\<rparr>))"
  using assms ctx_safe_bounds [OF assms]
  by (auto simp: ctx_next_def ctx_keep_def ctx_safe_def screen_safe_def screen_ok_def ctx_u_sub [OF assms])

lemma screen_write_alignmenttest_next:
  assumes "ctx_safe ctx"
  shows "returns (screen_write_alignmenttest ctx) (\<lambda>ctx'. ctx_next ctx ctx' \<and> ctx_cx ctx' = 0 \<and> ctx_cy ctx' = 0 \<and>
    (\<forall>x y. x < ctx_sx ctx \<longrightarrow> y < ctx_sy ctx \<longrightarrow> ctx_glyph ctx' x y = (alignment_cell, None)))"
proof -
  note b = ctx_safe_bounds [OF assms]
  have "returns (on_grid (for_upto 0 (ctx_sy ctx) (\<lambda>yy. for_upto 0 (ctx_sx ctx)
      (\<lambda>xx gd. grid_view_set_cell gd xx yy alignment_cell))) ctx)
    (wrote ctx (\<lambda>x y. (alignment_cell, None)) (ctx_cx ctx) (ctx_cy ctx) [])"
    by (rule on_grid_view [OF assms], rule alignment_grid_returns) (use b in auto)
  then show ?thesis
    unfolding screen_write_alignmenttest_def Let_def initctx_plain Option.bind.bind_lunit
      alignment_cell_def [symmetric] returns_bind
  proof (rule returns_mono)
    fix ctx1 assume 1: "wrote ctx (\<lambda>x y. (alignment_cell, None)) (ctx_cx ctx) (ctx_cy ctx) [] ctx1"
    note s = wrote_screen [OF 1]
    let ?c = "set_screen ctx1 ((ctx_s ctx1)\<lparr>scr_cx := 0, scr_cy := 0, scr_rupper := 0, scr_rlower := u_sub (ctx_sy ctx) 1\<rparr>)"
    have "ctx_next ctx ?c"
      using ctx_next_trans [OF wrote_next [OF 1] ctx_next_reset_region] s by simp
    then have "ctx_next ctx (tty_write tty_cmd_alignmenttest (tty_ctx_init ctx) ?c)"
      by (rule ctx_next_trans) (rule ctx_next_tty, use \<open>ctx_next ctx ?c\<close> in \<open>simp add: ctx_next_def\<close>)
    then show "returns (Some (tty_write tty_cmd_alignmenttest (tty_ctx_init ctx) ?c))
      (\<lambda>ctx'. ctx_next ctx ctx' \<and> ctx_cx ctx' = 0 \<and> ctx_cy ctx' = 0 \<and>
        (\<forall>x y. x < ctx_sx ctx \<longrightarrow> y < ctx_sy ctx \<longrightarrow> ctx_glyph ctx' x y = (alignment_cell, None)))"
      using s by (simp add: tty_write_def)
  qed
qed

text \<open>Dropping the history: the visible lines move to the top of the grid.\<close>

lemma clear_history_returns:
  assumes ok: "view_ok gd"
  shows "returns (grid_move_lines gd 0 (gd_hsize gd) (gd_sy gd) \<bind> (\<lambda>gd. Some (gd\<lparr>gd_hsize := 0\<rparr>)))
    (\<lambda>gd'. view_result gd (view_glyph gd) gd' \<and> gd_hsize gd' = 0)"
proof -
  have gok: "grid_ok gd" using ok by (rule view_ok_grid)
  note gb = grid_ok_bounds [OF gok]
  let ?ls = "lines_moved 0 (gd_hsize gd) (gd_sy gd) (gd_linedata gd)"
  let ?g = "gd\<lparr>gd_linedata := ?ls, gd_hsize := 0\<rparr>"
  have run: "grid_move_lines gd 0 (gd_hsize gd) (gd_sy gd) = Some (gd\<lparr>gd_linedata := ?ls\<rparr>)"
    by (rule grid_move_lines_eq [OF gok]) simp_all
  have line: "?ls ! y = gd_linedata gd ! (gd_hsize gd + y)" if "y < gd_sy gd" for y
    using that gb(2) by (simp add: moved_def)
  have "view_ok ?g" using ok gb(2) line
    by (auto simp: view_ok_def grid_ok_def)
  then have "view_result gd (view_glyph gd) ?g"
    using line by (auto simp: view_result_def grid_keep_def view_glyph_def grid_glyph_def)
  then show ?thesis using run by simp
qed

lemma screen_write_clearhistory_wrote:
  assumes "ctx_safe ctx"
  shows "returns (screen_write_clearhistory ctx) (wrote ctx (ctx_glyph ctx) (ctx_cx ctx) (ctx_cy ctx) [])"
  unfolding screen_write_clearhistory_def
  by (rule on_grid_view [OF assms], rule returns_mono [OF clear_history_returns])
     (use ctx_safe_bounds [OF assms] in auto)

lemma screen_write_strings_next:
  assumes "ctx_safe ctx"
  shows "returns (screen_write_setselection ctx str len) (ctx_next ctx)"
    and "returns (screen_write_rawstring ctx str len) (ctx_next ctx)"
  by (simp_all add: screen_write_setselection_def screen_write_rawstring_def ctx_next_tty assms)

lemma ctx_next_tabs:
  "ctx_safe ctx \<Longrightarrow> length tabs = 8 * bitstr_size (ctx_sx ctx) \<Longrightarrow>
   ctx_next ctx (set_screen ctx ((ctx_s ctx)\<lparr>scr_tabs := tabs\<rparr>))"
  by (simp add: ctx_next_def ctx_keep_def ctx_safe_def screen_safe_def screen_ok_def)

lemma ctx_nextD: "ctx_next ctx ctx' \<Longrightarrow> ctx_safe ctx'"
  by (simp add: ctx_next_def)

lemma screen_write_reset_next:
  assumes "ctx_safe ctx"
  shows "returns (screen_write_reset ctx) (\<lambda>ctx'. ctx_next ctx ctx' \<and> ctx_cx ctx' = 0 \<and> ctx_cy ctx' = 0 \<and>
    (\<forall>x y. x < ctx_sx ctx \<longrightarrow> y < ctx_sy ctx \<longrightarrow> ctx_glyph ctx' x y = blank))"
proof -
  note b = ctx_safe_bounds [OF assms]
  obtain tabs where tabs: "screen_reset_tabs (ctx_s ctx) = Some ((ctx_s ctx)\<lparr>scr_tabs := tabs\<rparr>)"
    "length tabs = 8 * bitstr_size (ctx_sx ctx)"
    using screen_reset_tabs_returns [of "ctx_s ctx"] b(1,3) by (auto simp: returns_eq)
  define c1 where "c1 = set_screen ctx ((ctx_s ctx)\<lparr>scr_tabs := tabs\<rparr>)"
  define c2 where "c2 = screen_write_scrollregion c1 0 (u_sub (ctx_sy c1) 1)"
  define c3 where "c3 = screen_write_insertmode c2 False"
  define c4 where "c4 = screen_write_kcursormode c3 False"
  define c5 where "c5 = screen_write_kkeypadmode c4 False"
  define c6 where "c6 = screen_write_mousemode_off c5"
  have n1: "ctx_next ctx c1" unfolding c1_def using assms tabs(2) by (rule ctx_next_tabs)
  have n2: "ctx_next c1 c2" unfolding c2_def using ctx_nextD [OF n1] by (rule screen_write_scrollregion_next)
  have n3: "ctx_next c2 c3" unfolding c3_def using ctx_nextD [OF n2] by (rule screen_write_modes_next)
  have n4: "ctx_next c3 c4" unfolding c4_def using ctx_nextD [OF n3] by (rule screen_write_modes_next)
  have n5: "ctx_next c4 c5" unfolding c5_def using ctx_nextD [OF n4] by (rule screen_write_modes_next)
  have n6: "ctx_next c5 c6" unfolding c6_def using ctx_nextD [OF n5] by (rule screen_write_mousemode_next)
  note n = ctx_next_trans [OF n1 ctx_next_trans [OF n2 ctx_next_trans [OF n3 ctx_next_trans [OF n4
    ctx_next_trans [OF n5 n6]]]]]
  note safe = ctx_nextD [OF n]
  have run: "screen_write_reset ctx = screen_write_clearscreen c6 \<bind> (\<lambda>ctx. Some (screen_write_cursormove ctx 0 0))"
    by (simp only: screen_write_reset_def tabs(1) Option.bind.bind_lunit Let_def c1_def c2_def c3_def c4_def c5_def c6_def)
  show ?thesis unfolding run returns_bind
  proof (rule returns_mono [OF screen_write_clearscreen_wrote [OF safe]])
    fix c7 assume 7: "wrote c6 (\<lambda>x y. blank) (ctx_cx c6) (ctx_cy c6) [tty_cmd_clearscreen] c7"
    have s7: "ctx_safe c7" using wrote_screen [OF 7] by simp
    have m: "wrote c7 (ctx_glyph c7) (min 0 (ctx_sx c7 - 1)) (min 0 (ctx_sy c7 - 1)) [] (screen_write_cursormove c7 0 0)"
      using s7 by (rule screen_write_cursormove_wrote)
    have "ctx_next ctx (screen_write_cursormove c7 0 0)"
      using n wrote_next [OF 7] wrote_next [OF m] by (meson ctx_next_trans)
    moreover have "ctx_sx c6 = ctx_sx ctx" "ctx_sy c6 = ctx_sy ctx"
      using n by (simp_all add: ctx_next_def ctx_keep_def grid_keep_def)
    ultimately show "returns (Some (screen_write_cursormove c7 0 0)) (\<lambda>ctx'. ctx_next ctx ctx' \<and>
        ctx_cx ctx' = 0 \<and> ctx_cy ctx' = 0 \<and>
        (\<forall>x y. x < ctx_sx ctx \<longrightarrow> y < ctx_sy ctx \<longrightarrow> ctx_glyph ctx' x y = blank))"
      using wrote_screen [OF 7] wrote_screen [OF m] by simp
  qed
qed

end
