(* ===== verification/Screen_Write_Cell.thy ===== *)
theory Screen_Write_Cell
  imports Screen_Write_Ops
begin

text \<open>
  What writing a character does (\<open>screen_write_cell\<close> of \<open>Screen_Write\<close>): the remains of a wide character
  that is partly overwritten, the padding of a wide character, wrapping, insert mode, and combining
  characters.
\<close>

unbundle bit_operations_syntax

section \<open>UTF-8 data\<close>

text \<open>What a caller of \<open>screen_write_cell\<close> must pass.\<close>

definition ud_ok :: "utf8_data \<Rightarrow> bool" where
  "ud_ok ud \<longleftrightarrow> length (ud_data ud) = UTF8_SIZE \<and> 0 < ud_size ud \<and> ud_size ud \<le> UTF8_SIZE \<and> ud_width ud \<le> 2"

definition char_ok :: "grid_cell \<Rightarrow> utf8_data option \<Rightarrow> bool" where
  "char_ok gc ud \<longleftrightarrow> (is_utf8 gc \<longrightarrow> (\<exists>u. ud = Some u \<and> ud_ok u))"

definition char_width :: "grid_cell \<Rightarrow> utf8_data option \<Rightarrow> u_int" where
  "char_width gc ud = (if is_utf8 gc then ud_width (the ud) else 1)"

lemma char_width_le: "char_ok gc ud \<Longrightarrow> char_width gc ud \<le> 2"
  by (auto simp: char_ok_def char_width_def ud_ok_def)

lemma memcpy_at_returns:
  "off + length bs \<le> length xs \<Longrightarrow> returns (memcpy_at off bs xs) (\<lambda>d. length d = length xs)"
  by (simp add: memcpy_at_def)

lemma grid_utf8_set_returns:
  assumes "gu_ok gu" and "ud_ok ud"
  shows "returns (grid_utf8_set gu ud) gu_ok"
proof -
  have "length (take (ud_size ud) (ud_data ud)) = ud_size ud" using assms(2) by (simp add: ud_ok_def)
  then have "returns (memcpy_at 0 (take (ud_size ud) (ud_data ud)) (gu_data gu)) (\<lambda>d. length d = UTF8_SIZE)"
    using memcpy_at_returns [of 0 "take (ud_size ud) (ud_data ud)" "gu_data gu"] assms
    by (simp add: gu_ok_def ud_ok_def)
  then show ?thesis using assms(2)
    by (auto simp: grid_utf8_set_def ud_ok_def gu_ok_def elim!: returns_mono)
qed

lemma grid_utf8_append_returns:
  assumes "gu_ok gu" and "length (ud_data ud) = UTF8_SIZE"
  shows "returns (grid_utf8_append gu ud) (\<lambda>(gu', ok). gu_ok gu')"
proof (cases "grid_utf8_size gu + ud_size ud > UTF8_SIZE")
  case True
  then show ?thesis using assms(1) by (simp add: grid_utf8_append_def)
next
  case False
  then have "length (take (ud_size ud) (ud_data ud)) = ud_size ud" using assms(2) by simp
  then have "returns (memcpy_at (grid_utf8_size gu) (take (ud_size ud) (ud_data ud)) (gu_data gu))
      (\<lambda>d. length d = UTF8_SIZE)"
    using memcpy_at_returns [of "grid_utf8_size gu" "take (ud_size ud) (ud_data ud)" "gu_data gu"] False assms(1)
    by (simp add: gu_ok_def)
  then show ?thesis using False
    by (auto simp: grid_utf8_append_def Let_def gu_ok_def elim!: returns_mono)
qed

lemma grid_utf8_uninit_ok: "gu_ok grid_utf8_uninit"
  by (simp add: gu_ok_def grid_utf8_uninit_def)

lemma grid_utf8_scrap_ok: "gu_ok gu \<Longrightarrow> gu_ok (grid_utf8_scrap gu)"
  by (simp add: gu_ok_def grid_utf8_scrap_def Let_def)

section \<open>Overwriting wide characters\<close>

lemma on_grid_bind: "on_grid (\<lambda>gd. f gd \<bind> g) ctx = on_grid f ctx \<bind> on_grid g"
  by (cases "f (ctx_gd ctx)") (simp_all add: on_grid_def)

lemma grid_view_peek_eq:
  assumes "view_ok gd" and "py < gd_sy gd"
  shows "grid_view_peek_cell gd px py = Some (fst (view_glyph gd px py))"
proof -
  have gok: "grid_ok gd" using assms(1) by (rule view_ok_grid)
  show ?thesis using assms(2) grid_ok_bounds(6) [OF gok]
    by (simp add: grid_view_peek_cell_def grid_view_x_def grid_peek_cell_eq [OF gok] grid_view_y_eq [OF gok] view_glyph_def)
qed

text \<open>The padding that ends at column \<open>cx\<close>, with the cell before it, and the padding that starts at \<open>lo\<close>.\<close>

definition padding_before :: "(u_int \<Rightarrow> grid_cell) \<Rightarrow> u_int \<Rightarrow> u_int \<Rightarrow> bool" where
  "padding_before row cx x \<longleftrightarrow> x \<le> cx \<and> (\<forall>k. x < k \<longrightarrow> k \<le> cx \<longrightarrow> is_padding (row k))"

definition padding_from :: "(u_int \<Rightarrow> grid_cell) \<Rightarrow> u_int \<Rightarrow> u_int \<Rightarrow> bool" where
  "padding_from row lo x \<longleftrightarrow> lo \<le> x \<and> (\<forall>k. lo \<le> k \<longrightarrow> k \<le> x \<longrightarrow> is_padding (row k))"

abbreviation view_row :: "grid \<Rightarrow> u_int \<Rightarrow> u_int \<Rightarrow> grid_cell" where
  "view_row gd y \<equiv> (\<lambda>x. fst (view_glyph gd x y))"

lemma overwrite_back_returns:
  assumes "view_ok gd" and "cy < gd_sy gd" and "x < gd_sx gd"
  shows "returns (overwrite_back cy x gd) (\<lambda>(gd', xx). xx \<le> x \<and> (xx = 0 \<or> \<not> is_padding (view_row gd cy xx)) \<and>
    (\<forall>k. xx < k \<longrightarrow> k \<le> x \<longrightarrow> is_padding (view_row gd cy k)) \<and>
    view_result gd (\<lambda>x' y. if y = cy \<and> xx < x' \<and> x' \<le> x then blank else view_glyph gd x' y) gd')"
  using assms
proof (induction cy x gd rule: overwrite_back.induct)
  case (1 cy gd)
  then show ?case by (simp add: view_result_def)
next
  case (2 cy x gd)
  let ?gc = "view_row gd cy (Suc x)"
  have peek: "grid_view_peek_cell gd (Suc x) cy = Some ?gc" using 2(2,3) by (rule grid_view_peek_eq)
  show ?case
  proof (cases "is_padding ?gc")
    case False
    then show ?thesis using peek 2(2) by (auto simp: is_padding_def view_result_def)
  next
    case True
    have "Suc x + 1 < UINT_MOD" using 2(4) grid_ok_bounds(5) [OF view_ok_grid [OF 2(2)]] by simp
    then obtain gd1 where set: "grid_view_set_cell gd (Suc x) cy grid_default_cell = Some gd1" and
      1: "view_result gd (\<lambda>x' y. if x' = Suc x \<and> y = cy then blank else view_glyph gd x' y) gd1"
      using grid_view_set_cell_returns [OF 2(2) _ 2(3), of "Suc x" grid_default_cell] by (auto simp: returns_eq)
    have k: "view_ok gd1" "gd_sy gd1 = gd_sy gd" "gd_sx gd1 = gd_sx gd"
      using view_result_ok [OF 1] by (auto simp: grid_keep_def)
    have old: "view_glyph gd1 k cy = view_glyph gd k cy" if "k \<le> x" for k
      using 1 that 2(3,4) by (auto simp: view_result_def)
    have "returns (overwrite_back cy x gd1) (\<lambda>(gd', xx). xx \<le> x \<and> (xx = 0 \<or> \<not> is_padding (view_row gd1 cy xx)) \<and>
      (\<forall>k. xx < k \<longrightarrow> k \<le> x \<longrightarrow> is_padding (view_row gd1 cy k)) \<and>
      view_result gd1 (\<lambda>x' y. if y = cy \<and> xx < x' \<and> x' \<le> x then blank else view_glyph gd1 x' y) gd')"
      using 2(1) [OF peek _ set] True k 2(3,4) by (simp add: is_padding_def)
    then have "returns (overwrite_back cy x gd1) (\<lambda>(gd', xx). xx \<le> Suc x \<and> (xx = 0 \<or> \<not> is_padding (view_row gd cy xx)) \<and>
      (\<forall>k. xx < k \<longrightarrow> k \<le> Suc x \<longrightarrow> is_padding (view_row gd cy k)) \<and>
      view_result gd (\<lambda>x' y. if y = cy \<and> xx < x' \<and> x' \<le> Suc x then blank else view_glyph gd x' y) gd')"
    proof (rule returns_mono, clarify, intro conjI)
      fix gd' xx
      assume *: "xx \<le> x" "xx = 0 \<or> \<not> is_padding (view_row gd1 cy xx)"
        "\<forall>k. xx < k \<longrightarrow> k \<le> x \<longrightarrow> is_padding (view_row gd1 cy k)"
        "view_result gd1 (\<lambda>x' y. if y = cy \<and> xx < x' \<and> x' \<le> x then blank else view_glyph gd1 x' y) gd'"
      show "xx \<le> Suc x" "xx = 0 \<or> \<not> is_padding (view_row gd cy xx)" using *(1,2) old by auto
      show "\<forall>k. xx < k \<longrightarrow> k \<le> Suc x \<longrightarrow> is_padding (view_row gd cy k)" using *(3) old True by (auto simp: le_Suc_eq)
      show "view_result gd (\<lambda>x' y. if y = cy \<and> xx < x' \<and> x' \<le> Suc x then blank else view_glyph gd x' y) gd'"
        using *(1,4) 1 by (auto simp: view_result_def grid_keep_def)
    qed
    then show ?thesis using peek set True by (simp add: is_padding_def)
  qed
qed

lemma overwrite_forward_returns:
  assumes "view_ok gd" and "cy < gd_sy gd"
  shows "returns (overwrite_forward cy (gd_sx gd) xx gd) (view_result gd
    (\<lambda>x y. if y = cy \<and> padding_from (view_row gd cy) xx x then blank else view_glyph gd x y))"
  using assms
proof (induction "gd_sx gd - xx" arbitrary: xx gd rule: less_induct)
  case less
  let ?gc = "view_row gd cy xx"
  have peek: "grid_view_peek_cell gd xx cy = Some ?gc" using less.prems by (rule grid_view_peek_eq)
  show ?case
  proof (cases "xx < gd_sx gd \<and> is_padding ?gc")
    case False
    then have "\<not> padding_from (view_row gd cy) xx x" if "x < gd_sx gd" for x
      using that by (auto simp: padding_from_def)
    then show ?thesis using peek False less.prems(1)
      by (subst overwrite_forward.simps) (auto simp: is_padding_def view_result_def)
  next
    case True
    have "xx + 1 < UINT_MOD" using True grid_ok_bounds(5) [OF view_ok_grid [OF less.prems(1)]] by simp
    then obtain gd1 where set: "grid_view_set_cell gd xx cy grid_default_cell = Some gd1" and
      1: "view_result gd (\<lambda>x y. if x = xx \<and> y = cy then blank else view_glyph gd x y) gd1"
      using grid_view_set_cell_returns [OF less.prems(1) _ less.prems(2), of xx grid_default_cell]
      by (auto simp: returns_eq)
    have k: "view_ok gd1" "gd_sy gd1 = gd_sy gd" "gd_sx gd1 = gd_sx gd"
      using view_result_ok [OF 1] by (auto simp: grid_keep_def)
    have "returns (overwrite_forward cy (gd_sx gd1) (xx + 1) gd1) (view_result gd1
        (\<lambda>x y. if y = cy \<and> padding_from (view_row gd1 cy) (xx + 1) x then blank else view_glyph gd1 x y))"
      by (rule less.hyps) (use True k less.prems in auto)
    then have "returns (overwrite_forward cy (gd_sx gd) (xx + 1) gd1) (view_result gd
        (\<lambda>x y. if y = cy \<and> padding_from (view_row gd cy) xx x then blank else view_glyph gd x y))"
      unfolding k(3)
    proof (rule view_result_step [OF 1])
      fix x y assume x: "x < gd_sx gd" "y < gd_sy gd"
      have old: "view_glyph gd1 k cy = (if k = xx then blank else view_glyph gd k cy)" if "k < gd_sx gd" for k
        using 1 that less.prems(2) by (auto simp: view_result_def)
      have "padding_from (view_row gd cy) xx x \<longleftrightarrow> x = xx \<or> padding_from (view_row gd1 cy) (xx + 1) x"
        using True x(1) old by (auto simp: padding_from_def Suc_le_eq nat_less_le)
      then show "(if y = cy \<and> padding_from (view_row gd cy) xx x then blank else view_glyph gd x y) =
          (if y = cy \<and> padding_from (view_row gd1 cy) (xx + 1) x then blank else view_glyph gd1 x y)"
        using 1 x by (auto simp: view_result_def)
    qed
    then show ?thesis using peek set True
      by (subst overwrite_forward.simps) (simp add: is_padding_def)
  qed
qed

text \<open>The cells blanked before a character of width \<open>w\<close> is stored at column \<open>cx\<close>.\<close>

definition overwritten :: "(u_int \<Rightarrow> grid_cell) \<Rightarrow> u_int \<Rightarrow> u_int \<Rightarrow> u_int \<Rightarrow> bool" where
  "overwritten row cx w x \<longleftrightarrow> is_padding (row cx) \<and> padding_before row cx x \<or> padding_from row (cx + w) x"

definition overwrite_view :: "grid \<Rightarrow> u_int \<Rightarrow> u_int \<Rightarrow> u_int \<Rightarrow> u_int \<Rightarrow> u_int \<Rightarrow> grid_cell \<times> grid_utf8 option" where
  "overwrite_view gd cx cy w x y =
     (if y = cy \<and> overwritten (view_row gd cy) cx w x then blank else view_glyph gd x y)"

lemma overwrite_before_returns:
  assumes ok: "view_ok gd" and cy: "cy < gd_sy gd" and cx: "cx < gd_sx gd"
  shows "returns (grid_view_peek_cell gd cx cy \<bind> (\<lambda>gc.
      if has_flag (gc_flags gc) GRID_FLAG_PADDING
      then overwrite_back cy cx gd \<bind> (\<lambda>(gd, xx). grid_view_set_cell gd xx cy grid_default_cell) else Some gd))
    (view_result gd (\<lambda>x y. if y = cy \<and> is_padding (view_row gd cy cx) \<and> padding_before (view_row gd cy) cx x
       then blank else view_glyph gd x y))"
proof (cases "is_padding (view_row gd cy cx)")
  case True
  let ?F = "\<lambda>x y. if y = cy \<and> padding_before (view_row gd cy) cx x then blank else view_glyph gd x y"
  have "returns (overwrite_back cy cx gd \<bind> (\<lambda>(gd, xx). grid_view_set_cell gd xx cy grid_default_cell)) (view_result gd ?F)"
    unfolding returns_bind
  proof (rule returns_mono [OF overwrite_back_returns [OF ok cy cx]], clarify)
    fix gd1 xx assume xx: "xx \<le> cx" "xx = 0 \<or> \<not> is_padding (view_row gd cy xx)"
      "\<forall>k. xx < k \<longrightarrow> k \<le> cx \<longrightarrow> is_padding (view_row gd cy k)"
      and 1: "view_result gd (\<lambda>x' y. if y = cy \<and> xx < x' \<and> x' \<le> cx then blank else view_glyph gd x' y) gd1"
    have k: "view_ok gd1" "gd_sy gd1 = gd_sy gd" using view_result_ok [OF 1] by (auto simp: grid_keep_def)
    have b: "xx + 1 < UINT_MOD" using xx(1) cx grid_ok_bounds(5) [OF view_ok_grid [OF ok]] by simp
    have "returns (grid_view_set_cell gd1 xx cy grid_default_cell) (view_result gd1
        (\<lambda>x y. if x = xx \<and> y = cy then blank else view_glyph gd1 x y))"
      by (rule grid_view_set_cell_returns) (use k b cy in auto)
    then show "returns (grid_view_set_cell gd1 xx cy grid_default_cell) (view_result gd ?F)"
    proof (rule view_result_step [OF 1])
      fix x y assume x: "x < gd_sx gd" "y < gd_sy gd"
      have "padding_before (view_row gd cy) cx x \<longleftrightarrow> xx \<le> x \<and> x \<le> cx"
        using xx by (auto simp: padding_before_def not_less [symmetric])
      then show "?F x y = (if x = xx \<and> y = cy then blank else view_glyph gd1 x y)"
        using 1 x xx(1) by (auto simp: view_result_def)
    qed
  qed
  then show ?thesis using True grid_view_peek_eq [OF ok cy] by (simp add: is_padding_def)
next
  case False
  then show ?thesis using ok grid_view_peek_eq [OF ok cy] by (auto simp: is_padding_def view_result_def)
qed

lemma overwrite_returns:
  assumes ok: "view_ok gd" and cy: "cy < gd_sy gd" and cx: "cx < gd_sx gd" and "0 < w"
  shows "returns (grid_view_peek_cell gd cx cy \<bind> (\<lambda>gc.
      (if has_flag (gc_flags gc) GRID_FLAG_PADDING
       then overwrite_back cy cx gd \<bind> (\<lambda>(gd, xx). grid_view_set_cell gd xx cy grid_default_cell) else Some gd) \<bind>
      overwrite_forward cy (gd_sx gd) (cx + w)))
    (view_result gd (overwrite_view gd cx cy w))"
proof -
  let ?F = "\<lambda>x y. if y = cy \<and> is_padding (view_row gd cy cx) \<and> padding_before (view_row gd cy) cx x
       then blank else view_glyph gd x y"
  obtain gc where gc: "grid_view_peek_cell gd cx cy = Some gc" using grid_view_peek_eq [OF ok cy] by simp
  show ?thesis using overwrite_before_returns [OF assms(1-3)]
    unfolding gc Option.bind.bind_lunit returns_bind
  proof (rule returns_mono)
    fix gd1 assume 1: "view_result gd ?F gd1"
    have k: "view_ok gd1" "gd_sy gd1 = gd_sy gd" "gd_sx gd1 = gd_sx gd"
      using view_result_ok [OF 1] by (auto simp: grid_keep_def)
    have "returns (overwrite_forward cy (gd_sx gd1) (cx + w) gd1) (view_result gd1
        (\<lambda>x y. if y = cy \<and> padding_from (view_row gd1 cy) (cx + w) x then blank else view_glyph gd1 x y))"
      by (rule overwrite_forward_returns) (use k cy in auto)
    then show "returns (overwrite_forward cy (gd_sx gd) (cx + w) gd1) (view_result gd (overwrite_view gd cx cy w))"
      unfolding k(3)
    proof (rule view_result_step [OF 1])
      fix x y assume x: "x < gd_sx gd" "y < gd_sy gd"
      have old: "view_glyph gd1 k cy = view_glyph gd k cy" if "cx < k" "k < gd_sx gd" for k
        using 1 that cy by (auto simp: view_result_def padding_before_def)
      have "padding_from (view_row gd1 cy) (cx + w) x \<longleftrightarrow> padding_from (view_row gd cy) (cx + w) x"
        using x(1) assms(4) old unfolding padding_from_def by (intro conj_cong all_cong refl imp_cong) auto
      then show "overwrite_view gd cx cy w x y =
          (if y = cy \<and> padding_from (view_row gd1 cy) (cx + w) x then blank else view_glyph gd1 x y)"
        using 1 x by (auto simp: view_result_def overwrite_view_def overwritten_def)
    qed
  qed
qed

section \<open>Storing a character\<close>

definition pad_glyph :: "grid_cell \<times> grid_utf8 option \<Rightarrow> grid_cell \<times> grid_utf8 option" where
  "pad_glyph g = ((fst g)\<lparr>gc_flags := set_flag (gc_flags (fst g)) GRID_FLAG_PADDING\<rparr>, snd g)"

lemma pad_utf8: "is_utf8 (gc\<lparr>gc_flags := set_flag (gc_flags gc) GRID_FLAG_PADDING\<rparr>) = is_utf8 gc"
  by (simp add: is_utf8_def has_flag_set_other)

lemma pad_padding: "is_padding (fst (pad_glyph g))"
  by (simp add: is_padding_def pad_glyph_def has_flag_set_self)

text \<open>Writing through a pointer into an expanded line.\<close>

lemma upd_line_bind:
  "upd_line py f gd \<bind> upd_line py g = upd_line py (\<lambda>gl. f gl \<bind> g) gd"
  unfolding upd_line_def
  by (cases "py < length (gd_linedata gd)") (auto split: Option.bind_splits)

lemma upd_line_read:
  assumes "py < length (gd_linedata gd)"
  shows "(upd_line py f gd \<bind> (\<lambda>gd. get_at (gd_linedata gd) py \<bind> (\<lambda>gl. g gl gd))) =
    (f (gd_linedata gd ! py) \<bind> (\<lambda>gl. g gl (gd\<lparr>gd_linedata := (gd_linedata gd)[py := gl]\<rparr>)))"
  using assms by (simp add: upd_line_def split: Option.bind_splits)

lemma view_line_update:
  assumes ok: "view_ok gd" and "py < gd_sy gd" and "line_ok gl'"
    and "\<And>x. line_glyph gl' x = G x"
  shows "view_result gd (\<lambda>x y. if y = py then G x else view_glyph gd x y)
    (gd\<lparr>gd_linedata := (gd_linedata gd)[gd_hsize gd + py := gl']\<rparr>)"
  by (rule grid_result_view [OF ok grid_result_upd [OF view_ok_grid [OF ok]]])
     (use assms in \<open>auto simp: view_glyph_def\<close>)

lemma line_put_expanded:
  assumes "line_ok gl"
  shows "line_put_cell px gc (line_expand (px + 1) gl) = Some (line_set_cell px gc gl)"
  using line_expand_length [OF assms, of "px + 1"] by (simp add: line_put_cell_eq line_set_cell_def Let_def)

lemma line_pad_ok:
  assumes "line_ok gl"
  shows "line_ok (line_set_cell px ((line_cell gl px)\<lparr>gc_flags := set_flag (gc_flags (line_cell gl px)) GRID_FLAG_PADDING\<rparr>) gl)"
  by (rule line_set_cell_ok [OF assms]) (use line_ok_utf8 [OF assms, of px] in \<open>simp add: pad_utf8\<close>)

lemma line_read_expanded:
  assumes "line_ok gl"
  shows "get_at (gl_celldata (line_expand (px + 1) gl)) px = Some (line_cell gl px)"
proof -
  have "gl_celldata (line_expand (px + 1) gl) ! px = line_cell (line_expand (px + 1) gl) px"
    by (simp add: line_cell_def)
  then show ?thesis using line_expand_length [OF assms, of "px + 1"] line_expand_cell [OF assms, of "px + 1" px]
    by simp
qed

lemma grid_pad_cell_returns:
  assumes ok: "view_ok gd" and cy: "cy < gd_sy gd" and "xx + 1 < UINT_MOD"
  shows "returns (grid_pad_cell cy xx gd) (view_result gd
    (\<lambda>x y. if x = xx \<and> y = cy then pad_glyph (view_glyph gd x y) else view_glyph gd x y))"
proof -
  have gok: "grid_ok gd" using ok by (rule view_ok_grid)
  let ?py = "gd_hsize gd + cy"
  let ?gl = "gd_linedata gd ! ?py"
  let ?gc = "(line_cell ?gl xx)\<lparr>gc_flags := set_flag (gc_flags (line_cell ?gl xx)) GRID_FLAG_PADDING\<rparr>"
  let ?gl' = "line_set_cell xx ?gc ?gl"
  have y: "grid_view_y gd cy = ?py" "?py < grid_total gd" "?py < length (gd_linedata gd)"
    using cy grid_ok_bounds(2,6) [OF gok] by (simp_all add: grid_view_y_eq [OF gok])
  have lok: "line_ok ?gl" using grid_ok_line [OF gok y(2)] .
  have "grid_pad_cell cy xx gd = Some (gd\<lparr>gd_linedata := (gd_linedata gd)[?py := ?gl']\<rparr>)"
    using y assms(3) gok line_read_expanded [OF lok] line_put_expanded [OF lok, of xx]
    by (simp add: grid_pad_cell_def grid_view_get_cell_def grid_get_cell_def grid_expand_line_def upd_line_def
        grid_view_x_def grid_view_y_def grid_cell_read_def grid_put_cell_def)
  moreover have "view_result gd (\<lambda>x y. if y = cy then line_glyph ?gl' x else view_glyph gd x y)
      (gd\<lparr>gd_linedata := (gd_linedata gd)[?py := ?gl']\<rparr>)"
    by (rule view_line_update [OF ok cy line_pad_ok [OF lok] refl])
  ultimately show ?thesis using lok
    by (auto simp: view_result_def line_set_cell_glyph pad_utf8 pad_glyph_def view_glyph_def grid_glyph_def line_glyph_def)
qed

lemma pad_cells_returns:
  assumes ok: "view_ok gd" and cy: "cy < gd_sy gd" and "b < UINT_MOD"
  shows "returns (for_upto a b (grid_pad_cell cy) gd) (view_result gd
    (\<lambda>x y. if a \<le> x \<and> x < b \<and> y = cy then pad_glyph (view_glyph gd x y) else view_glyph gd x y))"
proof (cases "a \<le> b")
  case True
  then show ?thesis
  proof (rule for_upto_returns_index)
    show "view_result gd (\<lambda>x y. if a \<le> x \<and> x < a \<and> y = cy then pad_glyph (view_glyph gd x y) else view_glyph gd x y) gd"
      using ok by (auto simp: view_result_def)
    fix xx gd1 assume xx: "a \<le> xx" "xx < b" and 1: "view_result gd (\<lambda>x y. if a \<le> x \<and> x < xx \<and> y = cy
        then pad_glyph (view_glyph gd x y) else view_glyph gd x y) gd1"
    have k: "view_ok gd1" "gd_sy gd1 = gd_sy gd" using view_result_ok [OF 1] by (auto simp: grid_keep_def)
    have "returns (grid_pad_cell cy xx gd1) (view_result gd1
        (\<lambda>x y. if x = xx \<and> y = cy then pad_glyph (view_glyph gd1 x y) else view_glyph gd1 x y))"
      by (rule grid_pad_cell_returns) (use k cy xx assms(3) in auto)
    then show "returns (grid_pad_cell cy xx gd1) (view_result gd (\<lambda>x y. if a \<le> x \<and> x < Suc xx \<and> y = cy
        then pad_glyph (view_glyph gd x y) else view_glyph gd x y))"
      by (rule view_result_step [OF 1]) (use 1 xx in \<open>auto simp: view_result_def less_Suc_eq\<close>)
  qed
next
  case False
  then show ?thesis using ok by (auto simp: view_result_def)
qed

text \<open>The picture after a character of width \<open>w\<close> has been put at \<open>(cx, cy)\<close>.\<close>

definition char_view :: "grid \<Rightarrow> u_int \<Rightarrow> u_int \<Rightarrow> u_int \<Rightarrow> grid_cell \<times> grid_utf8 option \<Rightarrow>
    u_int \<Rightarrow> u_int \<Rightarrow> grid_cell \<times> grid_utf8 option" where
  "char_view gd cx cy w glyph x y =
     (if x = cx \<and> y = cy then glyph
      else if y = cy \<and> cx < x \<and> x < cx + w then pad_glyph (overwrite_view gd cx cy w x y)
      else overwrite_view gd cx cy w x y)"

text \<open>The UTF-8 data stored for a character.\<close>

definition char_utf8 :: "grid_cell \<Rightarrow> utf8_data option \<Rightarrow> grid_utf8 option" where
  "char_utf8 gc ud = (if is_utf8 gc then grid_utf8_set grid_utf8_uninit (the ud) else None)"

lemma char_utf8_ok:
  assumes "char_ok gc ud" and "is_utf8 gc"
  obtains u gu where "ud = Some u" "grid_utf8_set grid_utf8_uninit u = Some gu" "char_utf8 gc ud = Some gu" "gu_ok gu"
proof -
  obtain u where u: "ud = Some u" "ud_ok u" using assms by (auto simp: char_ok_def)
  then obtain gu where "grid_utf8_set grid_utf8_uninit u = Some gu" "gu_ok gu"
    using grid_utf8_set_returns [OF grid_utf8_uninit_ok u(2)] by (auto simp: returns_eq)
  then show ?thesis using that u assms(2) by (simp add: char_utf8_def)
qed

lemma on_grid_tail: "on_grid f ctx \<bind> (\<lambda>ctx. on_grid g ctx \<bind> h) = on_grid (\<lambda>gd. f gd \<bind> g) ctx \<bind> h"
  by (simp add: on_grid_bind)

lemma store_grid_returns:
  assumes ok: "view_ok gd" and cy: "cy < gd_sy gd" and cx: "cx + w \<le> gd_sx gd" and "0 < w" and "char_ok gc ud"
    and F: "\<And>x y. F x y = (if x = cx \<and> y = cy then (gc, char_utf8 gc ud)
      else if y = cy \<and> cx < x \<and> x < cx + w then pad_glyph (view_glyph gd x y) else view_glyph gd x y)"
  shows "\<not> is_utf8 gc \<Longrightarrow> returns (for_upto (cx + 1) (cx + w) (grid_pad_cell cy) gd \<bind>
      (\<lambda>gd. grid_view_set_cell gd cx cy gc)) (view_result gd F)"
    and "is_utf8 gc \<Longrightarrow> char_utf8 gc ud = Some gu \<Longrightarrow> gu_ok gu \<Longrightarrow>
      returns (for_upto (cx + 1) (cx + w) (grid_pad_cell cy) gd \<bind>
      (\<lambda>gd. grid_view_set_cell gd cx cy gc \<bind> (\<lambda>gd. grid_view_set_utf8 gd cx cy gu))) (view_result gd F)"
proof -
  let ?P = "\<lambda>x y. if cx + 1 \<le> x \<and> x < cx + w \<and> y = cy then pad_glyph (view_glyph gd x y) else view_glyph gd x y"
  have sx: "gd_sx gd \<le> DIM_MAX" using grid_ok_bounds(5) [OF view_ok_grid [OF ok]] .
  have pad: "returns (for_upto (cx + 1) (cx + w) (grid_pad_cell cy) gd) (view_result gd ?P)"
    by (rule pad_cells_returns) (use ok cy cx sx in auto)
  have k: "view_ok gd1 \<and> cy < gd_sy gd1 \<and> cx + 1 < UINT_MOD" if "view_result gd ?P gd1" for gd1
    using view_result_ok [OF that] cy cx \<open>0 < w\<close> sx by (auto simp: grid_keep_def)
  have fin: "F x y = (if x = cx \<and> y = cy then (gc, char_utf8 gc ud) else view_glyph gd1 x y)"
    if "view_result gd ?P gd1" "x < gd_sx gd" "y < gd_sy gd" for gd1 x y
    using that by (auto simp: F view_result_def)
  show "returns (for_upto (cx + 1) (cx + w) (grid_pad_cell cy) gd \<bind>
      (\<lambda>gd. grid_view_set_cell gd cx cy gc)) (view_result gd F)" if "\<not> is_utf8 gc"
    unfolding returns_bind
  proof (rule returns_mono [OF pad])
    fix gd1 assume 1: "view_result gd ?P gd1"
    have "returns (grid_view_set_cell gd1 cx cy gc)
        (view_result gd1 (\<lambda>x y. if x = cx \<and> y = cy then (gc, None) else view_glyph gd1 x y))"
      using k [OF 1] that by (intro grid_view_set_cell_returns) auto
    then show "returns (grid_view_set_cell gd1 cx cy gc) (view_result gd F)"
      by (rule view_result_step [OF 1]) (use fin [OF 1] that in \<open>auto simp: char_utf8_def\<close>)
  qed
  show "returns (for_upto (cx + 1) (cx + w) (grid_pad_cell cy) gd \<bind>
      (\<lambda>gd. grid_view_set_cell gd cx cy gc \<bind> (\<lambda>gd. grid_view_set_utf8 gd cx cy gu))) (view_result gd F)"
    if gc: "is_utf8 gc" "char_utf8 gc ud = Some gu" "gu_ok gu"
    unfolding returns_bind [of "for_upto (cx + 1) (cx + w) (grid_pad_cell cy) gd"]
  proof (rule returns_mono [OF pad])
    fix gd1 assume 1: "view_result gd ?P gd1"
    have "returns (grid_view_set_cell gd1 cx cy gc \<bind> (\<lambda>gd. grid_view_set_utf8 gd cx cy gu))
        (view_result gd1 (\<lambda>x y. if x = cx \<and> y = cy then (gc, Some gu) else view_glyph gd1 x y))"
      using k [OF 1] gc by (intro grid_view_set_pair_returns) auto
    then show "returns (grid_view_set_cell gd1 cx cy gc \<bind> (\<lambda>gd. grid_view_set_utf8 gd cx cy gu)) (view_result gd F)"
      by (rule view_result_step [OF 1]) (use fin [OF 1] gc(2) in auto)
  qed
qed

lemma overwrite_view_live:
  assumes "ctx_safe ctx" and cx: "cx < ctx_sx ctx" and "y < ctx_sy ctx"
  shows "(\<exists>y' < ctx_sy ctx. \<forall>x < ctx_sx ctx. overwrite_view (ctx_gd ctx) cx cy w x y = ctx_glyph ctx x y') \<or>
    (\<exists>x < ctx_sx ctx. \<not> is_padding (fst (overwrite_view (ctx_gd ctx) cx cy w x y)))"
proof (cases "\<exists>x < ctx_sx ctx. y = cy \<and> overwritten (view_row (ctx_gd ctx) cy) cx w x")
  case True
  then show ?thesis by (auto simp: overwrite_view_def)
next
  case False
  then have "\<forall>x < ctx_sx ctx. overwrite_view (ctx_gd ctx) cx cy w x y = ctx_glyph ctx x y"
    by (auto simp: overwrite_view_def)
  then show ?thesis using assms(3) by blast
qed

lemma screen_write_put_wrote:
  assumes safe: "ctx_safe ctx" and cx: "ctx_cx ctx + w \<le> ctx_sx ctx" and w: "0 < w"
    and gc: "char_ok gc ud" "\<not> is_padding gc"
  shows "returns (screen_write_overwrite ctx w \<bind> screen_write_cell_store gc ud w)
    (\<lambda>(ctx', gu). gu = char_utf8 gc ud \<and> wrote ctx
       (char_view (ctx_gd ctx) (ctx_cx ctx) (ctx_cy ctx) w (gc, char_utf8 gc ud)) (ctx_cx ctx) (ctx_cy ctx) [] ctx')"
proof -
  note b = ctx_safe_bounds [OF safe]
  let ?cx = "ctx_cx ctx" and ?cy = "ctx_cy ctx" and ?gd = "ctx_gd ctx"
  have cx': "?cx < ctx_sx ctx" "u_add ?cx w = ?cx + w" "u_add ?cx 1 = ?cx + 1"
    "u_add ?cx (Suc 0) = ?cx + 1" using cx w b by simp_all
  have "returns (screen_write_overwrite ctx w) (wrote ctx (overwrite_view ?gd ?cx ?cy w) ?cx ?cy [])"
    unfolding screen_write_overwrite_def Let_def cx'(2)
    by (rule on_grid_view [OF safe], rule overwrite_returns)
       (use b cx' w overwrite_view_live [OF safe cx'(1)] in auto)
  then show ?thesis unfolding returns_bind
  proof (rule returns_mono)
    fix ctx1 assume 1: "wrote ctx (overwrite_view ?gd ?cx ?cy w) ?cx ?cy [] ctx1"
    note s = wrote_screen [OF 1]
    note b1 = ctx_safe_bounds [OF conjunct1 [OF s]]
    let ?F = "\<lambda>x y. if x = ?cx \<and> y = ?cy then (gc, char_utf8 gc ud)
      else if y = ?cy \<and> ?cx < x \<and> x < ?cx + w then pad_glyph (ctx_glyph ctx1 x y) else ctx_glyph ctx1 x y"
    have live: "(\<exists>y' < ctx_sy ctx1. \<forall>x < ctx_sx ctx1. ?F x y = ctx_glyph ctx1 x y') \<or>
        (\<exists>x < ctx_sx ctx1. \<not> is_padding (fst (?F x y)))" if "y < ctx_sy ctx1" for y
    proof (cases "y = ?cy")
      case True
      then have "\<not> is_padding (fst (?F ?cx y))" "?cx < ctx_sx ctx1" using gc(2) cx' s by auto
      then show ?thesis by blast
    qed (use that in auto)
    have step: "returns m (wrote ctx (char_view ?gd ?cx ?cy w (gc, char_utf8 gc ud)) ?cx ?cy [])"
      if "returns m (wrote ctx1 ?F (ctx_cx ctx1) (ctx_cy ctx1) [])" for m
    proof -
      have "returns m (wrote ctx (char_view ?gd ?cx ?cy w (gc, char_utf8 gc ud)) (ctx_cx ctx1) (ctx_cy ctx1) [])"
        by (rule wrote_step [OF 1 that]) (use s in \<open>auto simp: char_view_def\<close>)
      then show ?thesis using s by simp
    qed
    have cc: "ctx_cx ctx1 = ?cx" "ctx_cy ctx1 = ?cy" using s by simp_all
    show "returns (screen_write_cell_store gc ud w ctx1) (\<lambda>(ctx', gu). gu = char_utf8 gc ud \<and>
        wrote ctx (char_view ?gd ?cx ?cy w (gc, char_utf8 gc ud)) ?cx ?cy [] ctx')"
    proof (cases "is_utf8 gc")
      case False
      have "returns (on_grid (\<lambda>gd. for_upto (?cx + 1) (?cx + w) (grid_pad_cell ?cy) gd \<bind>
          (\<lambda>gd. grid_view_set_cell gd ?cx ?cy gc)) ctx1) (wrote ctx1 ?F (ctx_cx ctx1) (ctx_cy ctx1) [])"
        by (rule on_grid_view, use s in simp, rule store_grid_returns(1) [where ud = ud])
           (use b1 cx w gc False s live in auto)
      from step [OF this] show ?thesis using False
        by (auto simp: screen_write_cell_store_def Let_def cc cx' on_grid_bind is_utf8_def char_utf8_def elim!: returns_mono)
    next
      case True
      obtain u gu where u: "ud = Some u" "grid_utf8_set grid_utf8_uninit u = Some gu" "char_utf8 gc ud = Some gu" "gu_ok gu"
        using gc(1) True by (rule char_utf8_ok)
      have "returns (on_grid (\<lambda>gd. for_upto (?cx + 1) (?cx + w) (grid_pad_cell ?cy) gd \<bind>
          (\<lambda>gd. grid_view_set_cell gd ?cx ?cy gc \<bind> (\<lambda>gd. grid_view_set_utf8 gd ?cx ?cy gu))) ctx1)
        (wrote ctx1 ?F (ctx_cx ctx1) (ctx_cy ctx1) [])"
        by (rule on_grid_view, use s in simp, rule store_grid_returns(2) [where ud = ud])
           (use b1 cx w gc True s live u in auto)
      from step [OF this] show ?thesis using True u
        by (auto simp: screen_write_cell_store_def Let_def cc cx' on_grid_bind is_utf8_def elim!: returns_mono)
    qed
  qed
qed

section \<open>Wrapping and inserting\<close>

lemma screen_write_cell_wrap_returns:
  assumes "ctx_safe ctx" and "0 < w" and "w \<le> 2"
  shows "returns (screen_write_cell_wrap w ctx) (\<lambda>ctx'. ctx_cx ctx' + w \<le> ctx_sx ctx' \<and>
    (if ctx_cx ctx + w \<le> ctx_sx ctx then ctx' = ctx
     else wrote ctx (linefeed_view (ctx_s ctx)) 0 (linefeed_cy (ctx_s ctx)) [tty_cmd_linefeed] ctx'))"
proof -
  note b = ctx_safe_bounds [OF assms(1)]
  have u: "u_sub (ctx_sx ctx) w = ctx_sx ctx - w" using b assms by simp
  show ?thesis
  proof (cases "ctx_cx ctx + w \<le> ctx_sx ctx")
    case True
    then have "\<not> ctx_cx ctx > ctx_sx ctx - w" by linarith
    then show ?thesis using True by (simp add: screen_write_cell_wrap_def Let_def u)
  next
    case False
    then have gt: "ctx_cx ctx > ctx_sx ctx - w" using b assms by linarith
    have "returns (screen_write_linefeed ctx True \<bind> (\<lambda>ctx. Some (set_screen ctx ((ctx_s ctx)\<lparr>scr_cx := 0\<rparr>))))
        (wrote ctx (linefeed_view (ctx_s ctx)) 0 (linefeed_cy (ctx_s ctx)) [tty_cmd_linefeed])"
      unfolding returns_bind
    proof (rule returns_mono [OF screen_write_linefeed_wrote [OF assms(1)]])
      fix ctx1 assume 1: "wrote ctx (linefeed_view (ctx_s ctx)) (ctx_cx ctx) (linefeed_cy (ctx_s ctx)) [tty_cmd_linefeed] ctx1"
      note s = wrote_screen [OF 1]
      have "wrote ctx1 (ctx_glyph ctx1) 0 (ctx_cy ctx1) [] (set_screen ctx1 ((ctx_s ctx1)\<lparr>scr_cx := 0\<rparr>))"
        by (rule wrote_cursor_x) (use s in simp_all)
      then have "wrote ctx (ctx_glyph ctx1) 0 (ctx_cy ctx1) ([tty_cmd_linefeed] @ [])
          (set_screen ctx1 ((ctx_s ctx1)\<lparr>scr_cx := 0\<rparr>))" by (rule wrote_trans [OF 1])
      then have "wrote ctx (linefeed_view (ctx_s ctx)) 0 (ctx_cy ctx1) ([tty_cmd_linefeed] @ [])
          (set_screen ctx1 ((ctx_s ctx1)\<lparr>scr_cx := 0\<rparr>))" by (rule wrote_cong) (use s in simp)
      then show "returns (Some (set_screen ctx1 ((ctx_s ctx1)\<lparr>scr_cx := 0\<rparr>)))
          (wrote ctx (linefeed_view (ctx_s ctx)) 0 (linefeed_cy (ctx_s ctx)) [tty_cmd_linefeed])" using s by simp
    qed
    then have "returns (screen_write_linefeed ctx True \<bind> (\<lambda>ctx. Some (set_screen ctx ((ctx_s ctx)\<lparr>scr_cx := 0\<rparr>))))
        (\<lambda>ctx'. ctx_cx ctx' + w \<le> ctx_sx ctx' \<and>
          wrote ctx (linefeed_view (ctx_s ctx)) 0 (linefeed_cy (ctx_s ctx)) [tty_cmd_linefeed] ctx')"
    proof (rule returns_mono, intro conjI)
      fix ctx' assume w: "wrote ctx (linefeed_view (ctx_s ctx)) 0 (linefeed_cy (ctx_s ctx)) [tty_cmd_linefeed] ctx'"
      show "ctx_cx ctx' + w \<le> ctx_sx ctx'" using wrote_screen [OF w] b(1) assms(3) by simp
    qed
    moreover have "screen_write_cell_wrap w ctx =
        screen_write_linefeed ctx True \<bind> (\<lambda>ctx. Some (set_screen ctx ((ctx_s ctx)\<lparr>scr_cx := 0\<rparr>)))"
      using gt b(13) by (simp add: screen_write_cell_wrap_def Let_def u)
    ultimately show ?thesis using False by simp
  qed
qed

text \<open>In insert mode the rest of the line is moved, on the row of the grid with the cursor's number.\<close>

lemma screen_write_cell_insert_returns:
  assumes "ctx_safe ctx" and "0 < w" and "w \<le> 2"
  shows "returns (screen_write_cell_insert w ctx) (\<lambda>(ctx', ins).
    ins = (has_flag (scr_mode (ctx_s ctx)) MODE_INSERT \<and> ctx_cx ctx + w \<le> ctx_sx ctx) \<and>
    (if ins then \<exists>F. wrote ctx F (ctx_cx ctx) (ctx_cy ctx) [] ctx' else ctx' = ctx))"
proof -
  note b = ctx_safe_bounds [OF assms(1)]
  let ?cx = "ctx_cx ctx" and ?sx = "ctx_sx ctx" and ?cy = "ctx_cy ctx"
  have u: "u_sub ?sx w = ?sx - w" using b assms by simp
  have le: "?cx \<le> ?sx - w \<longleftrightarrow> ?cx + w \<le> ?sx" using b(1) assms by linarith
  show ?thesis
  proof (cases "has_flag (scr_mode (ctx_s ctx)) MODE_INSERT \<and> ?cx + w \<le> ?sx")
    case True
    define n where "n = ?sx - ?cx - w"
    have a: "u_sub (u_sub ?sx ?cx) w = n" "u_add ?cx w = ?cx + w" "?cx + w + n = ?sx" "?cx < ?sx" "?cx + n < UINT_MOD"
    proof -
      have "w \<le> ?sx - ?cx" "?sx - ?cx < UINT_MOD" using True b(3) by linarith+
      then show "u_sub (u_sub ?sx ?cx) w = n" using True b(3) by (simp add: n_def)
    qed (use True b assms in \<open>simp_all add: n_def\<close>)
    let ?G = "\<lambda>x y. if gd_hsize (ctx_gd ctx) + y = ?cy then moved (?cx + w) ?cx n blank (\<lambda>x. ctx_glyph ctx x y) x
        else ctx_glyph ctx x y"
    have live: "(\<exists>y' < ctx_sy ctx. \<forall>x < ?sx. ?G x y = ctx_glyph ctx x y') \<or> (\<exists>x < ?sx. \<not> is_padding (fst (?G x y)))"
      if y: "y < ctx_sy ctx" for y
    proof (cases "gd_hsize (ctx_gd ctx) + y = ?cy \<and> 0 < n")
      case True
      then have "\<not> is_padding (fst (?G ?cx y))" using assms(2) by (auto simp: moved_def)
      then show ?thesis using a(4) by blast
    next
      case False
      then have "\<forall>x < ?sx. ?G x y = ctx_glyph ctx x y" by (auto simp: moved_def)
      then show ?thesis using y by blast
    qed
    have "returns (grid_move_cells (ctx_gd ctx) (?cx + w) ?cx ?cy n) (view_result (ctx_gd ctx) ?G)"
      by (rule grid_returns_view [OF b(9) grid_move_cells_returns])
         (use b a in \<open>auto simp: view_glyph_def\<close>)
    then have "returns (on_grid (\<lambda>gd. grid_move_cells gd (?cx + w) ?cx ?cy n) ctx) (wrote ctx ?G ?cx ?cy [])"
      by (rule on_grid_view [OF assms(1)]) (use live in auto)
    then show ?thesis using True a u le by (auto simp: screen_write_cell_insert_def Let_def elim!: returns_mono)
  next
    case False
    then show ?thesis using u le by (auto simp: screen_write_cell_insert_def Let_def)
  qed
qed

text \<open>Drawing changes nothing but the commands.\<close>

lemma screen_write_cell_draw_eq:
  "\<exists>out. screen_write_cell_draw gc w ins t gu ctx = ctx\<lparr>ctx_out := ctx_out ctx @ out\<rparr> \<and>
     map fst out = (if ins then [tty_cmd_insertcharacter] else []) @ [tty_cmd_cell]"
  by (cases ins) (auto simp: screen_write_cell_draw_def tty_write_def Let_def)

lemma wrote_draw:
  "wrote ctx F cx cy cmds ctx' \<Longrightarrow> cs = cmds @ (if ins then [tty_cmd_insertcharacter] else []) @ [tty_cmd_cell] \<Longrightarrow>
   wrote ctx F cx cy cs (screen_write_cell_draw gc w ins t gu ctx')"
  using screen_write_cell_draw_eq [of gc w ins t gu ctx'] by (auto simp: wrote_def ctx_safe_def)

lemma wrote_advance:
  assumes "wrote ctx F cx cy cmds ctx'" and "cx + w \<le> ctx_sx ctx"
  shows "wrote ctx F (cx + w) cy cmds (set_screen ctx' ((ctx_s ctx')\<lparr>scr_cx := u_add (ctx_cx ctx') w\<rparr>))"
proof -
  note s = wrote_screen [OF assms(1)]
  have "ctx_sx ctx \<le> DIM_MAX" using ctx_safe_bounds(3) [of ctx'] s by simp
  then have u: "u_add (ctx_cx ctx') w = cx + w" "cx + w < UINT_MOD" using s assms(2) by simp_all
  have "wrote ctx' (ctx_glyph ctx') (cx + w) (ctx_cy ctx') [] (set_screen ctx' ((ctx_s ctx')\<lparr>scr_cx := cx + w\<rparr>))"
    by (rule wrote_cursor_x) (use s u in auto)
  from wrote_trans [OF assms(1) this]
  have "wrote ctx (ctx_glyph ctx') (cx + w) (ctx_cy ctx') cmds (set_screen ctx' ((ctx_s ctx')\<lparr>scr_cx := cx + w\<rparr>))" by simp
  then have "wrote ctx F (cx + w) (ctx_cy ctx') cmds (set_screen ctx' ((ctx_s ctx')\<lparr>scr_cx := cx + w\<rparr>))"
    by (rule wrote_cong) (use s in simp)
  then show ?thesis using u s by simp
qed

section \<open>Combining characters\<close>

text \<open>The same computation on a line.\<close>

definition combine_line :: "utf8_data \<Rightarrow> u_int \<Rightarrow> grid_line \<Rightarrow> grid_line option" where
  "combine_line ud px gl = do {
     let gl = line_expand (px + 1) gl;
     let gc = line_cell gl px;
     let gl = (if \<not> is_utf8 gc
       then line_set_cell px (gc\<lparr>gc_flags := set_flag (gc_flags gc) GRID_FLAG_UTF8\<rparr>)
              (line_set_utf8 px \<lparr>gu_width = 1, gu_data = gc_data gc # 0xff # replicate (UTF8_SIZE - 2) undefined\<rparr> gl)
       else gl);
     let gl = line_expand_utf8 (px + 1) gl;
     (gu, appended) \<leftarrow> grid_utf8_append (gl_utf8data gl ! px) ud;
     Some (if appended then line_set_utf8 px gu gl
       else if gu_width gu = 1
       then line_set_cell px ((line_cell gl px)\<lparr>gc_data := 0x5f,
              gc_flags := clear_flag (gc_flags (line_cell gl px)) GRID_FLAG_UTF8\<rparr>) gl
       else line_set_utf8 px (grid_utf8_scrap gu) gl)
   }"

lemma utf8_flag_padding:
  "is_padding (gc\<lparr>gc_flags := set_flag (gc_flags gc) GRID_FLAG_UTF8\<rparr>) = is_padding gc"
  "is_padding (gc\<lparr>gc_data := d, gc_flags := clear_flag (gc_flags gc) GRID_FLAG_UTF8\<rparr>) = is_padding gc"
  "is_utf8 (gc\<lparr>gc_flags := set_flag (gc_flags gc) GRID_FLAG_UTF8\<rparr>)"
  "\<not> is_utf8 (gc\<lparr>gc_data := d, gc_flags := clear_flag (gc_flags gc) GRID_FLAG_UTF8\<rparr>)"
  by (simp_all add: is_padding_def is_utf8_def has_flag_set_other has_flag_clear_other has_flag_set_self)

lemma line_set_same_cell:
  "line_ok gl \<Longrightarrow> is_utf8 (line_cell gl px) \<Longrightarrow> px < length (gl_utf8data gl)"
  using line_ok_utf8 [of gl px] line_ok_utf8size [of gl] by simp

lemma line_set_utf8_other: "line_ok gl \<Longrightarrow> x \<noteq> px \<Longrightarrow> line_glyph (line_set_utf8 px u gl) x = line_glyph gl x"
  by (simp add: line_set_utf8_glyph) (simp add: line_glyph_def)

lemma line_set_utf8_fst: "fst (line_glyph (line_set_utf8 px u gl) x) = line_cell gl x"
  by (simp add: line_glyph_def)

lemma line_put_in_range:
  "px < gl_cellsize gl \<Longrightarrow> px < length (gl_celldata gl) \<Longrightarrow> line_put_cell px gc gl = Some (line_set_cell px gc gl)"
  "px < gl_utf8size gl \<Longrightarrow> px < length (gl_utf8data gl) \<Longrightarrow> line_put_utf8 px gu gl = Some (line_set_utf8 px gu gl)"
  by (simp_all add: line_put_cell_def line_put_utf8_def line_set_cell_def line_set_utf8_def line_expand_def
      line_expand_utf8_def Let_def)

lemma line_put_utf8_expanded:
  "line_ok gl \<Longrightarrow> line_put_utf8 px gu (line_expand_utf8 (px + 1) gl) = Some (line_set_utf8 px gu gl)"
  using line_expand_utf8_length [of gl "px + 1"] by (simp add: line_put_utf8_def line_set_utf8_def Let_def)

lemma line_combine_sizes:
  assumes "line_ok gl" and "px < gl_cellsize gl" and "px < length (gl_celldata gl)"
  shows "px < gl_cellsize (line_expand_utf8 (px + 1) gl) \<and> px < length (gl_celldata (line_expand_utf8 (px + 1) gl)) \<and>
      px < gl_utf8size (line_expand_utf8 (px + 1) gl) \<and> px < length (gl_utf8data (line_expand_utf8 (px + 1) gl))"
    and "px < gl_cellsize (line_expand_utf8 (px + 1) (line_set_cell px c (line_set_utf8 px u gl))) \<and>
      px < length (gl_celldata (line_expand_utf8 (px + 1) (line_set_cell px c (line_set_utf8 px u gl)))) \<and>
      px < gl_utf8size (line_expand_utf8 (px + 1) (line_set_cell px c (line_set_utf8 px u gl))) \<and>
      px < length (gl_utf8data (line_expand_utf8 (px + 1) (line_set_cell px c (line_set_utf8 px u gl))))"
  using assms line_expand_utf8_length [OF assms(1), of "px + 1"]
  by (auto simp: line_set_cell_def line_set_utf8_def line_expand_def Let_def line_expand_utf8_def line_ok_def)

lemma combine_line_returns:
  assumes ok: "line_ok gl" and ud: "length (ud_data ud) = UTF8_SIZE"
  shows "returns (combine_line ud px gl) (\<lambda>gl'. line_ok gl' \<and>
    (\<forall>x. x \<noteq> px \<longrightarrow> line_glyph gl' x = line_glyph gl x) \<and>
    is_padding (fst (line_glyph gl' px)) = is_padding (fst (line_glyph gl px)))"
proof -
  define gl1 where "gl1 = line_expand (px + 1) gl"
  let ?gc = "line_cell gl1 px"
  let ?gc' = "?gc\<lparr>gc_flags := set_flag (gc_flags ?gc) GRID_FLAG_UTF8\<rparr>"
  let ?gu0 = "\<lparr>gu_width = 1, gu_data = gc_data ?gc # 0xff # replicate (UTF8_SIZE - 2) undefined\<rparr>"
  define gl2 where "gl2 = (if \<not> is_utf8 ?gc then line_set_cell px ?gc' (line_set_utf8 px ?gu0 gl1) else gl1)"
  have ok1: "line_ok gl1" "\<And>x. line_cell gl1 x = line_cell gl x" "\<And>x. line_glyph gl1 x = line_glyph gl x"
    using ok by (simp_all add: gl1_def)
  have ok2: "line_ok gl2 \<and> is_utf8 (line_cell gl2 px) \<and> is_padding (line_cell gl2 px) = is_padding (line_cell gl px) \<and>
      (\<forall>x. x \<noteq> px \<longrightarrow> line_glyph gl2 x = line_glyph gl x)"
  proof (cases "is_utf8 ?gc")
    case True
    then show ?thesis using ok1 by (simp add: gl2_def)
  next
    case False
    let ?m = "line_set_utf8 px ?gu0 gl1"
    have "gu_ok ?gu0" by (simp add: gu_ok_def)
    then have m: "line_ok ?m" using ok1(1) by (rule line_set_utf8_ok [rotated])
    have mg: "line_glyph ?m x = line_glyph gl1 x" if "x \<noteq> px" for x
      using that by (simp add: line_set_utf8_glyph [OF ok1(1)]) (simp add: line_glyph_def)
    have "px < gl_utf8size ?m" "gl_utf8data ?m ! px = ?gu0"
      using line_set_utf8_nth [OF ok1(1), of px px ?gu0] by simp_all
    then have "line_ok (line_set_cell px ?gc' ?m)"
      using \<open>gu_ok ?gu0\<close> by (intro line_set_cell_ok [OF m]) simp
    then show ?thesis using False m mg ok1
      by (simp add: gl2_def line_set_cell_glyph utf8_flag_padding)
  qed
  define gl3 where "gl3 = line_expand_utf8 (px + 1) gl2"
  let ?gu = "gl_utf8data gl3 ! px"
  have ok3: "line_ok gl3" "line_cell gl3 px = line_cell gl2 px" "is_utf8 (line_cell gl3 px)"
    "\<And>x. line_glyph gl3 x = line_glyph gl2 x"
    using ok2 by (simp_all add: gl3_def)
  have gu: "gu_ok ?gu" using line_ok_utf8 [OF ok3(1,3)] by simp
  obtain gu' app where app: "grid_utf8_append ?gu ud = Some (gu', app)" "gu_ok gu'"
    using grid_utf8_append_returns [OF gu ud] by (auto simp: returns_eq)
  let ?sc = "(line_cell gl3 px)\<lparr>gc_data := 0x5f, gc_flags := clear_flag (gc_flags (line_cell gl3 px)) GRID_FLAG_UTF8\<rparr>"
  have run: "combine_line ud px gl = Some (if app then line_set_utf8 px gu' gl3
      else if gu_width gu' = 1 then line_set_cell px ?sc gl3 else line_set_utf8 px (grid_utf8_scrap gu') gl3)"
    unfolding combine_line_def Let_def gl1_def [symmetric] gl2_def [symmetric] gl3_def [symmetric] app(1) by simp
  have put: "line_ok (line_set_utf8 px u gl3) \<and> (\<forall>x. x \<noteq> px \<longrightarrow> line_glyph (line_set_utf8 px u gl3) x = line_glyph gl x) \<and>
      is_padding (fst (line_glyph (line_set_utf8 px u gl3) px)) = is_padding (fst (line_glyph gl px))" if "gu_ok u" for u
    using that ok2 ok3 by (simp add: line_set_utf8_other line_set_utf8_fst) (simp add: line_glyph_def)
  have "line_ok (line_set_cell px ?sc gl3)"
    by (rule line_set_cell_ok [OF ok3(1)]) (simp add: utf8_flag_padding)
  then have scr: "line_ok (line_set_cell px ?sc gl3) \<and>
      (\<forall>x. x \<noteq> px \<longrightarrow> line_glyph (line_set_cell px ?sc gl3) x = line_glyph gl x) \<and>
      is_padding (fst (line_glyph (line_set_cell px ?sc gl3) px)) = is_padding (fst (line_glyph gl px))"
    using ok2 ok3 by (simp add: line_set_cell_glyph utf8_flag_padding) (simp add: line_glyph_def)
  show ?thesis unfolding run using put [OF app(2)] put [OF grid_utf8_scrap_ok [OF app(2)]] scr by simp
qed

text \<open>The code of \<open>screen_write_combine\<close> computes this on the line of the cursor.\<close>

text \<open>A picture that differs from the screen at most in the cell before the cursor.\<close>

definition combined :: "screen_write_ctx \<Rightarrow> (u_int \<Rightarrow> u_int \<Rightarrow> grid_cell \<times> grid_utf8 option) \<Rightarrow> bool" where
  "combined ctx F \<longleftrightarrow> (\<forall>x y. y \<noteq> ctx_cy ctx \<or> x + 1 \<noteq> ctx_cx ctx \<longrightarrow> F x y = ctx_glyph ctx x y)"

lemma combined_refl [simp]: "combined ctx (ctx_glyph ctx)"
  by (simp add: combined_def)

lemma screen_write_combine_wrote:
  assumes safe: "ctx_safe ctx" and ud: "ud_ok ud"
  shows "returns (screen_write_combine ctx ud)
    (\<lambda>(ctx', ok). \<exists>F. combined ctx F \<and> wrote ctx F (ctx_cx ctx) (ctx_cy ctx) [] ctx')"
proof (cases "ctx_cx ctx = 0")
  case True
  then show ?thesis using wrote_refl [OF safe]
    by (auto simp: screen_write_combine_def Let_def intro!: exI [where x = "ctx_glyph ctx"])
next
  case False
  note b = ctx_safe_bounds [OF safe]
  let ?gd = "ctx_gd ctx" and ?cy = "ctx_cy ctx"
  define px where "px = ctx_cx ctx - 1"
  let ?py = "gd_hsize ?gd + ?cy"
  let ?gl = "gd_linedata ?gd ! ?py"
  have col: "u_sub (ctx_cx ctx) 1 = px" "u_sub (ctx_cx ctx) (Suc 0) = px" "u_add px 1 = px + 1"
    "u_add px (Suc 0) = px + 1" using False b(5) by (simp_all add: px_def)
  have y: "u_add (gd_hsize ?gd) ?cy = ?py" "?py < grid_total ?gd" "?py < length (gd_linedata ?gd)"
    using b grid_ok_bounds(1,2) [OF b(10)] by simp_all
  have lok: "line_ok ?gl" using grid_ok_line [OF b(10) y(2)] .
  define f where "f = (\<lambda>gd. do {
             (gd, ok) \<leftarrow> grid_view_get_cell gd px ?cy;
             let py = grid_view_y gd ?cy;
             gc \<leftarrow> (if ok then grid_cell_read gd px py else None);
             gd \<leftarrow> (if \<not> has_flag (gc_flags gc) GRID_FLAG_UTF8 then do {
                     gd \<leftarrow> grid_view_set_utf8 gd px ?cy
                       \<lparr>gu_width = 1, gu_data = gc_data gc # 0xff # replicate (UTF8_SIZE - 2) undefined\<rparr>;
                     grid_put_cell gd px py (gc\<lparr>gc_flags := set_flag (gc_flags gc) GRID_FLAG_UTF8\<rparr>)
                   }
                   else Some gd);
             (gd, ok) \<leftarrow> grid_view_get_utf8 gd px ?cy;
             gu \<leftarrow> (if ok then grid_utf8_read gd px py else None);
             (gu, appended) \<leftarrow> grid_utf8_append gu ud;
             if appended then grid_put_utf8 gd px py gu
             else if gu_width gu = 1 then do {
               gc \<leftarrow> grid_cell_read gd px py;
               grid_put_cell gd px py (gc\<lparr>gc_data := 0x5f, gc_flags := clear_flag (gc_flags gc) GRID_FLAG_UTF8\<rparr>)
             }
             else grid_put_utf8 gd px py (grid_utf8_scrap gu)
           })"
  define L where "L = (\<lambda>gl. ?gd\<lparr>gd_linedata := (gd_linedata ?gd)[?py := gl]\<rparr>)"
  have LL: "L ?gl = ?gd" "\<And>gl. gd_linedata (L gl) ! ?py = gl" "\<And>gl. ?py < length (gd_linedata (L gl))"
    "\<And>gl gl'. (L gl)\<lparr>gd_linedata := (gd_linedata (L gl))[?py := gl']\<rparr> = L gl'"
    "\<And>gl. grid_view_y (L gl) ?cy = ?py" "\<And>gl. grid_check_y (L gl) ?py"
    using y grid_ok_bounds(1) [OF b(10)] by (simp_all add: L_def grid_view_y_def grid_check_y_def)
  have upd: "upd_line ?py h (L gl) = map_option L (h gl)" for h gl
    using LL(2-4) by (cases "h gl") (simp_all add: upd_line_def)
  have ops: "grid_view_get_cell (L gl) px ?cy = Some (L (line_expand (px + 1) gl), True)"
    "grid_cell_read (L gl) px ?py = get_at (gl_celldata gl) px"
    "grid_view_set_utf8 (L gl) px ?cy u = map_option L (line_put_utf8 px u (line_expand_utf8 (px + 1) gl))"
    "grid_put_cell (L gl) px ?py c = map_option L (line_put_cell px c gl)"
    "grid_view_get_utf8 (L gl) px ?cy = Some (L (line_expand_utf8 (px + 1) gl), True)"
    "grid_utf8_read (L gl) px ?py = get_at (gl_utf8data gl) px"
    "grid_put_utf8 (L gl) px ?py u = map_option L (line_put_utf8 px u gl)" for gl u c
    using LL(2,3,5,6) col
    by (simp_all add: grid_view_get_cell_def grid_get_cell_def grid_expand_line_def grid_view_x_def upd
        grid_cell_read_def grid_view_set_utf8_def grid_set_utf8_def grid_expand_line_utf8_def grid_put_utf8_def
        grid_put_cell_def grid_view_get_utf8_def grid_get_utf8_def grid_utf8_read_def)
  have run: "f ?gd = map_option L (combine_line ud px ?gl)"
  proof -
    define gl1 where "gl1 = line_expand (px + 1) ?gl"
    define gc where "gc = line_cell gl1 px"
    let ?c = "gc\<lparr>gc_flags := set_flag (gc_flags gc) GRID_FLAG_UTF8\<rparr>"
    let ?u = "\<lparr>gu_width = 1, gu_data = gc_data gc # 0xff # replicate (UTF8_SIZE - 2) undefined\<rparr>"
    define gl2 where "gl2 = (if \<not> is_utf8 gc then line_set_cell px ?c (line_set_utf8 px ?u gl1) else gl1)"
    define gl3 where "gl3 = line_expand_utf8 (px + 1) gl2"
    have 1: "line_ok gl1" "px < gl_cellsize gl1" "px < length (gl_celldata gl1)"
      using lok line_ok_cellsize [of gl1] by (simp_all add: gl1_def less_le_trans [OF lessI])
    have read: "get_at (gl_celldata gl1) px = Some gc" using 1 by (simp add: gc_def line_cell_def)
    have 2: "(if \<not> is_utf8 gc then grid_view_set_utf8 (L gl1) px ?cy ?u \<bind> (\<lambda>gd. grid_put_cell gd px ?py ?c)
        else Some (L gl1)) = Some (L gl2)"
      using 1 line_put_utf8_expanded [OF 1(1), of px ?u] by (simp add: ops gl2_def line_put_in_range)
    have 3: "px < gl_cellsize gl3" "px < length (gl_celldata gl3)" "px < gl_utf8size gl3" "px < length (gl_utf8data gl3)"
      using line_combine_sizes [OF 1] by (auto simp: gl2_def gl3_def)
    have 4: "get_at (gl_celldata gl3) px = Some (line_cell gl3 px)" "get_at (gl_utf8data gl3) px = Some (gl_utf8data gl3 ! px)"
      using 3 by (simp_all add: line_cell_def)
    have "f (L ?gl) = map_option L (combine_line ud px ?gl)"
      unfolding f_def combine_line_def Let_def gl1_def [symmetric] gc_def [symmetric] gl2_def [symmetric] gl3_def [symmetric]
      unfolding LL(5) ops(1) Option.bind.bind_lunit prod.case if_True ops(2) gl1_def [symmetric] read is_utf8_def [symmetric] 2
        ops(5,6) gl3_def [symmetric] 4(2)
      using 3 4 by (cases "grid_utf8_append (gl_utf8data gl3 ! px) ud") (auto simp: ops line_put_in_range)
    then show ?thesis unfolding LL(1) .
  qed
  obtain gl' where gl': "combine_line ud px ?gl = Some gl'" "line_ok gl'"
    "\<And>x. x \<noteq> px \<Longrightarrow> line_glyph gl' x = line_glyph ?gl x"
    "is_padding (fst (line_glyph gl' px)) = is_padding (fst (line_glyph ?gl px))"
    using combine_line_returns [OF lok, of ud px] ud by (auto simp: returns_eq ud_ok_def)
  let ?F = "\<lambda>x y. if y = ?cy then line_glyph gl' x else ctx_glyph ctx x y"
  have "view_result ?gd ?F (?gd\<lparr>gd_linedata := (gd_linedata ?gd)[?py := gl']\<rparr>)"
    by (rule view_line_update) (use b gl' in auto)
  then have "returns (f ?gd) (view_result ?gd ?F)" unfolding run gl' by (simp add: L_def)
  then have "returns (on_grid f ctx) (wrote ctx ?F (ctx_cx ctx) ?cy [])"
  proof (rule on_grid_view [OF safe])
    fix y assume y: "y < ctx_sy ctx"
    obtain x where x: "x < ctx_sx ctx" "\<not> is_padding (fst (ctx_glyph ctx x y))"
      using b(12) y by (auto simp: rows_live_def)
    have "is_padding (fst (line_glyph gl' x)) = is_padding (fst (line_glyph ?gl x))" for x
      using gl'(3,4) by (cases "x = px") simp_all
    then have "is_padding (fst (?F x y)) = is_padding (fst (ctx_glyph ctx x y))"
      by (simp add: view_glyph_def grid_glyph_def)
    then show "(\<exists>y' < ctx_sy ctx. \<forall>x < ctx_sx ctx. ?F x y = ctx_glyph ctx x y') \<or>
        (\<exists>x < ctx_sx ctx. \<not> is_padding (fst (?F x y)))" using x by blast
  qed simp
  moreover have "screen_write_combine ctx ud = on_grid f ctx \<bind> (\<lambda>ctx. Some (ctx, True))"
  proof -
    have "\<not> ud_size ud = 0" using ud by (simp add: ud_ok_def)
    then show ?thesis unfolding screen_write_combine_def Let_def f_def col(1) if_not_P [OF False] by simp
  qed
  moreover have "combined ctx ?F"
    using gl'(3) False by (auto simp: combined_def px_def view_glyph_def grid_glyph_def)
  ultimately show ?thesis
    by (auto elim!: returns_mono)
qed

section \<open>The whole operation\<close>

definition cell_tail :: "grid_cell \<Rightarrow> utf8_data option \<Rightarrow> u_int \<Rightarrow> bool \<Rightarrow> tty_ctx \<Rightarrow> writer" where
  "cell_tail gc utf8data width ins ttyctx ctx = do {
     ctx \<leftarrow> screen_write_overwrite ctx width;
     (ctx, gu) \<leftarrow> screen_write_cell_store gc utf8data width ctx;
     let ctx = set_screen ctx ((ctx_s ctx)\<lparr>scr_cx := u_add (scr_cx (ctx_s ctx)) width\<rparr>);
     Some (screen_write_cell_draw gc width ins ttyctx gu ctx)
   }"

lemma cell_tail_wrote:
  assumes "ctx_safe ctx" and "ctx_cx ctx + w \<le> ctx_sx ctx" and "0 < w" and "char_ok gc ud" and "\<not> is_padding gc"
  shows "returns (cell_tail gc ud w ins t ctx) (wrote ctx
    (char_view (ctx_gd ctx) (ctx_cx ctx) (ctx_cy ctx) w (gc, char_utf8 gc ud)) (ctx_cx ctx + w) (ctx_cy ctx)
    ((if ins then [tty_cmd_insertcharacter] else []) @ [tty_cmd_cell]))"
proof -
  let ?V = "char_view (ctx_gd ctx) (ctx_cx ctx) (ctx_cy ctx) w (gc, char_utf8 gc ud)"
  define cs where "cs = (if ins then [tty_cmd_insertcharacter] else []) @ [tty_cmd_cell]"
  have draw: "wrote ctx ?V (ctx_cx ctx + w) (ctx_cy ctx) cs
      (screen_write_cell_draw gc w ins t gu (set_screen ctx' ((ctx_s ctx')\<lparr>scr_cx := u_add (ctx_cx ctx') w\<rparr>)))"
    if "wrote ctx ?V (ctx_cx ctx) (ctx_cy ctx) [] ctx'" for ctx' gu
    by (rule wrote_draw [OF wrote_advance [OF that assms(2)]]) (simp add: cs_def)
  have "cell_tail gc ud w ins t ctx = (screen_write_overwrite ctx w \<bind> screen_write_cell_store gc ud w) \<bind>
      (\<lambda>(ctx, gu). Some (screen_write_cell_draw gc w ins t gu
        (set_screen ctx ((ctx_s ctx)\<lparr>scr_cx := u_add (ctx_cx ctx) w\<rparr>))))"
    by (simp add: cell_tail_def Let_def)
  then show ?thesis unfolding cs_def [symmetric]
    by (simp only: returns_bind) (rule returns_mono [OF screen_write_put_wrote [OF assms, unfolded returns_bind]],
        erule returns_mono, auto intro: draw)
qed

text \<open>Writing a character of positive width, step by step.\<close>

lemma screen_write_cell_steps:
  assumes safe: "ctx_safe ctx" and gc: "char_ok gc ud" "\<not> is_padding gc" "0 < char_width gc ud"
  obtains t where "screen_write_cell ctx gc ud = screen_write_cell_insert (char_width gc ud) ctx \<bind> (\<lambda>(ctx, ins).
    screen_write_cell_wrap (char_width gc ud) ctx \<bind> (\<lambda>ctx.
      if (has_flag (scr_mode (ctx_s ctx)) MODE_WRAP \<and> ctx_cx ctx > u_sub (ctx_sx ctx) (char_width gc ud)) \<or>
         ctx_cy ctx > u_sub (ctx_sy ctx) 1
      then Some ctx else cell_tail gc ud (char_width gc ud) ins t ctx))"
proof -
  obtain t where t: "screen_write_initctx ctx True = Some t"
    using initctx_returns [OF safe, of True] by (auto simp: returns_eq)
  have w: "(if has_flag (gc_flags gc) GRID_FLAG_UTF8 then map_option ud_width ud else Some 1) = Some (char_width gc ud)"
    using gc(1) by (auto simp: char_width_def char_ok_def is_utf8_def)
  have c: "\<not> has_flag (gc_flags gc) GRID_FLAG_PADDING" "\<not> (char_width gc ud = 0)"
    "\<not> (\<not> has_flag (scr_mode (ctx_s ctx)) MODE_WRAP \<and> P)" for P
    using gc ctx_safe_bounds(13) [OF safe] by (simp_all add: is_padding_def)
  show ?thesis
    by (rule that [of t])
       (unfold screen_write_cell_def Let_def if_not_P [OF c(1)] w Option.bind.bind_lunit if_not_P [OF c(2)]
          if_not_P [OF c(3)] t cell_tail_def, rule refl)
qed

lemma screen_write_cell_inserted:
  assumes safe: "ctx_safe ctx" and gc: "char_ok gc ud" "\<not> is_padding gc" "0 < char_width gc ud"
  shows "returns (screen_write_cell ctx gc ud) (\<lambda>ctx'. \<exists>ctx1 ctx2 ins. ctx_next ctx ctx1 \<and>
    ins = (has_flag (scr_mode (ctx_s ctx)) MODE_INSERT \<and> ctx_cx ctx + char_width gc ud \<le> ctx_sx ctx) \<and>
    (\<not> ins \<longrightarrow> ctx1 = ctx) \<and>
    (if ctx_cx ctx + char_width gc ud \<le> ctx_sx ctx then ctx2 = ctx1
     else wrote ctx1 (linefeed_view (ctx_s ctx1)) 0 (linefeed_cy (ctx_s ctx1)) [tty_cmd_linefeed] ctx2) \<and>
    wrote ctx2 (char_view (ctx_gd ctx2) (ctx_cx ctx2) (ctx_cy ctx2) (char_width gc ud) (gc, char_utf8 gc ud))
      (ctx_cx ctx2 + char_width gc ud) (ctx_cy ctx2)
      ((if ins then [tty_cmd_insertcharacter] else []) @ [tty_cmd_cell]) ctx')"
proof -
  let ?w = "char_width gc ud"
  have w2: "?w \<le> 2" using char_width_le [OF gc(1)] .
  obtain t where run: "screen_write_cell ctx gc ud = screen_write_cell_insert ?w ctx \<bind> (\<lambda>(ctx, ins).
    screen_write_cell_wrap ?w ctx \<bind> (\<lambda>ctx.
      if (has_flag (scr_mode (ctx_s ctx)) MODE_WRAP \<and> ctx_cx ctx > u_sub (ctx_sx ctx) ?w) \<or>
         ctx_cy ctx > u_sub (ctx_sy ctx) 1
      then Some ctx else cell_tail gc ud ?w ins t ctx))"
    using screen_write_cell_steps [OF safe gc] .
  obtain ctx1 ins where i: "screen_write_cell_insert ?w ctx = Some (ctx1, ins)"
    "ins = (has_flag (scr_mode (ctx_s ctx)) MODE_INSERT \<and> ctx_cx ctx + ?w \<le> ctx_sx ctx)"
    "if ins then \<exists>F. wrote ctx F (ctx_cx ctx) (ctx_cy ctx) [] ctx1 else ctx1 = ctx"
    using screen_write_cell_insert_returns [OF safe gc(3) w2] by (auto simp: returns_eq)
  have n1: "ctx_next ctx ctx1" "ctx_cx ctx1 = ctx_cx ctx" "ctx_sx ctx1 = ctx_sx ctx"
    using i(3) ctx_next_refl [OF safe] by (auto split: if_splits dest: wrote_next wrote_screen)
  have s1: "ctx_safe ctx1" using n1(1) by (rule ctx_nextD)
  obtain ctx2 where 2: "screen_write_cell_wrap ?w ctx1 = Some ctx2" "ctx_cx ctx2 + ?w \<le> ctx_sx ctx2"
    "if ctx_cx ctx1 + ?w \<le> ctx_sx ctx1 then ctx2 = ctx1
     else wrote ctx1 (linefeed_view (ctx_s ctx1)) 0 (linefeed_cy (ctx_s ctx1)) [tty_cmd_linefeed] ctx2"
    using screen_write_cell_wrap_returns [OF s1 gc(3) w2] by (auto simp: returns_eq)
  have s2: "ctx_safe ctx2" using 2(3) s1 by (auto split: if_splits dest: wrote_screen)
  note b2 = ctx_safe_bounds [OF s2]
  have "\<not> ctx_cx ctx2 > u_sub (ctx_sx ctx2) ?w" "\<not> ctx_cy ctx2 > u_sub (ctx_sy ctx2) 1"
    using b2 2(2) w2 by simp_all
  then have "screen_write_cell ctx gc ud = cell_tail gc ud ?w ins t ctx2"
    unfolding run i(1) Option.bind.bind_lunit prod.case 2(1) by simp
  then have run2: "screen_write_cell ctx gc ud = cell_tail gc ud ?w ins t ctx2" .
  have c: "ctx_next ctx ctx1" "\<not> ins \<Longrightarrow> ctx1 = ctx" "if ctx_cx ctx + ?w \<le> ctx_sx ctx then ctx2 = ctx1
     else wrote ctx1 (linefeed_view (ctx_s ctx1)) 0 (linefeed_cy (ctx_s ctx1)) [tty_cmd_linefeed] ctx2"
    using n1 i(3) 2(3) by simp_all
  show ?thesis unfolding run2
    by (rule returns_mono [OF cell_tail_wrote [OF s2 2(2) gc(3,1,2)]], intro exI conjI)
       (use c i(2) in \<open>simp_all\<close>)
qed

lemma screen_write_cell_wrote:
  assumes "ctx_safe ctx" and "char_ok gc ud" and "\<not> is_padding gc" and "0 < char_width gc ud"
    and "\<not> has_flag (scr_mode (ctx_s ctx)) MODE_INSERT" and "ctx_cx ctx + char_width gc ud \<le> ctx_sx ctx"
  shows "returns (screen_write_cell ctx gc ud) (wrote ctx
    (char_view (ctx_gd ctx) (ctx_cx ctx) (ctx_cy ctx) (char_width gc ud) (gc, char_utf8 gc ud))
    (ctx_cx ctx + char_width gc ud) (ctx_cy ctx) [tty_cmd_cell])"
  by (rule returns_mono [OF screen_write_cell_inserted [OF assms(1-4)]]) (use assms(5,6) in auto)

text \<open>A character of width 0 is added to the cell before the cursor.\<close>

lemma screen_write_cell_combine:
  assumes safe: "ctx_safe ctx" and "is_utf8 gc" and "\<not> is_padding gc" and "ud_ok ud" and "ud_width ud = 0"
  shows "returns (screen_write_cell ctx gc (Some ud))
    (\<lambda>ctx'. \<exists>F cmds. combined ctx F \<and> wrote ctx F (ctx_cx ctx) (ctx_cy ctx) cmds ctx')"
proof -
  have "returns (screen_write_combine ctx ud \<bind> (\<lambda>(ctx, ok). if ok then
        screen_write_initctx ctx False \<bind> (\<lambda>t. Some (tty_write tty_cmd_utf8character t ctx)) else Some ctx))
      (\<lambda>ctx'. \<exists>F cmds. combined ctx F \<and> wrote ctx F (ctx_cx ctx) (ctx_cy ctx) cmds ctx')"
    unfolding returns_bind
  proof (rule returns_mono [OF screen_write_combine_wrote [OF safe assms(4)]], clarify)
    fix ctx1 ok F assume "combined ctx F" and 1: "wrote ctx F (ctx_cx ctx) (ctx_cy ctx) [] ctx1"
    then show "returns (if ok then screen_write_initctx ctx1 False \<bind>
          (\<lambda>t. Some (tty_write tty_cmd_utf8character t ctx1)) else Some ctx1)
        (\<lambda>ctx'. \<exists>F cmds. combined ctx F \<and> wrote ctx F (ctx_cx ctx) (ctx_cy ctx) cmds ctx')"
      using wrote_tty0 [OF 1, of tty_cmd_utf8character "tty_ctx_init ctx1"] by auto
  qed
  then show ?thesis using assms(2-5) ctx_safe_bounds(13) [OF safe]
    by (simp add: screen_write_cell_def is_padding_def is_utf8_def)
qed

lemma screen_write_cell_next:
  assumes safe: "ctx_safe ctx" and gc: "char_ok gc ud"
  shows "returns (screen_write_cell ctx gc ud) (ctx_next ctx)"
proof (cases "is_padding gc")
  case True
  then show ?thesis using safe by (simp add: screen_write_cell_def is_padding_def ctx_next_refl)
next
  case False
  show ?thesis
  proof (cases "char_width gc ud = 0")
    case True
    then obtain u where u: "is_utf8 gc" "ud = Some u" "ud_ok u" "ud_width u = 0"
      using gc by (auto simp: char_width_def char_ok_def split: if_splits)
    from screen_write_cell_combine [OF safe u(1) False u(3,4)] show ?thesis
      unfolding u(2) by (rule returns_mono) (auto dest: wrote_next)
  next
    case w: False
    then have "0 < char_width gc ud" by simp
    from returns_mono [OF screen_write_cell_inserted [OF safe gc False this]] show ?thesis
      by (rule returns_mono) (auto split: if_splits dest!: wrote_next intro: ctx_next_trans)
  qed
qed

end
