(* ===== verification/Screen_Text.thy ===== *)
theory Screen_Text
  imports Screen_Write
begin

text \<open>
  Writing strings to a screen (the rest of \<open>src/screen-write.c\<close>): plain and UTF-8 text with a column
  limit, text with embedded styles \<open>#[...]\<close>, and the copy of a part of another screen. A message is
  the list of its bytes, none of which is NUL. The cell that the code updates through a pointer is
  returned with the context.
\<close>

unbundle bit_operations_syntax

definition screen_write_putc :: "screen_write_ctx \<Rightarrow> grid_cell \<Rightarrow> u_char \<Rightarrow> (screen_write_ctx \<times> grid_cell) option" where
  "screen_write_putc ctx gc ch = do {
     let gc = gc\<lparr>gc_data := ch\<rparr>;
     ctx \<leftarrow> screen_write_cell ctx gc None;
     Some (ctx, gc)
   }"

section \<open>Characters of a string\<close>

text \<open>
  The loop \<open>while (utf8_append (&utf8data, *ptr)) ptr++; ptr++\<close>. Reading on past the end of the string
  is \<open>None\<close>.
\<close>

fun utf8_take :: "utf8_data \<Rightarrow> u_char list \<Rightarrow> (utf8_data \<times> u_char list) option" where
  "utf8_take ud [] = None"
| "utf8_take ud (ch # ptr) = do {
     (ud, more) \<leftarrow> utf8_append ud ch;
     if more then utf8_take ud ptr else Some (ud, ptr)
   }"

text \<open>The next character: the end of the text (\<open>break\<close>), a UTF-8 character or a single byte.\<close>

datatype text_item =
    Text_End
  | Text_Utf8 utf8_data "u_char list"
  | Text_Byte u_char "u_char list"

definition text_next :: "bool \<Rightarrow> u_char \<Rightarrow> u_char list \<Rightarrow> text_item option" where
  "text_next utf8flag ch ptr =
     (if utf8flag \<and> ch > 0x7f then do {
        (ud, ok) \<leftarrow> utf8_open ch;
        if \<not> ok then Some (Text_Byte ch ptr)
        else if length ptr < ud_size ud - 1 then Some Text_End
        else do {
          (ud, ptr) \<leftarrow> utf8_take ud ptr;
          Some (Text_Utf8 ud ptr)
        }
      }
      else Some (Text_Byte ch ptr))"

lemma utf8_take_length: "utf8_take ud ptr = Some (ud', ptr') \<Longrightarrow> length ptr' < length ptr"
  by (induction ud ptr rule: utf8_take.induct)
     (auto simp: bind_Some_iff split: if_splits intro: less_SucI)

lemma text_next_length:
  "text_next utf8flag ch ptr = Some (Text_Utf8 ud ptr') \<Longrightarrow> length ptr' \<le> length ptr"
  "text_next utf8flag ch ptr = Some (Text_Byte c ptr') \<Longrightarrow> length ptr' \<le> length ptr"
  by (auto simp: text_next_def bind_Some_iff split: if_splits dest!: utf8_take_length)

section \<open>Lengths\<close>

function text_length :: "bool \<Rightarrow> u_char list \<Rightarrow> nat \<Rightarrow> nat option" where
  "text_length utf8flag [] len = Some len"
| "text_length utf8flag (ch # ptr) len = do {
     item \<leftarrow> text_next utf8flag ch ptr;
     case item of
       Text_End \<Rightarrow> Some len
     | Text_Utf8 ud ptr \<Rightarrow> text_length utf8flag ptr (len + ud_width ud)
     | Text_Byte ch ptr \<Rightarrow> text_length utf8flag ptr (len + 1)
   }"
  by pat_completeness auto
termination
  by (relation "measure (\<lambda>(utf8flag, ptr, len). length ptr)") (auto dest: text_next_length)

definition screen_write_strlen :: "bool \<Rightarrow> u_char list \<Rightarrow> nat option" where
  "screen_write_strlen utf8flag msg = text_length utf8flag msg 0"

text \<open>Removing the styles \<open>#[...]\<close>, as \<open>screen_write_cstrlen\<close> does; an open one runs to the end.\<close>

function strip_styles :: "u_char list \<Rightarrow> u_char list" where
  "strip_styles [] = []"
| "strip_styles (ch # ptr) =
     (if ch = 0x23 \<and> ptr \<noteq> [] \<and> hd ptr = 0x5b
      then strip_styles (drop 1 (dropWhile (\<lambda>c. c \<noteq> 0x5d) ptr))
      else ch # strip_styles ptr)"
  by pat_completeness auto
termination
  by (relation "measure length") (auto simp: less_Suc_eq_le intro: le_trans [OF diff_le_self length_dropWhile_le])

definition screen_write_cstrlen :: "bool \<Rightarrow> u_char list \<Rightarrow> nat option" where
  "screen_write_cstrlen utf8flag msg = screen_write_strlen utf8flag (strip_styles msg)"

section \<open>Strings\<close>

type_synonym pen = "screen_write_ctx \<times> grid_cell"

text \<open>The space that is left by a wide character that no longer fits is filled.\<close>

definition pad_columns :: "nat \<Rightarrow> nat \<Rightarrow> pen \<Rightarrow> pen option" where
  "pad_columns len maxlen = for_upto len maxlen (\<lambda>_ (ctx, gc). screen_write_putc ctx gc 0x20)"

definition write_utf8 :: "utf8_data \<Rightarrow> pen \<Rightarrow> pen option" where
  "write_utf8 ud pen = (case pen of (ctx, gc) \<Rightarrow> do {
     let gc = gc\<lparr>gc_flags := set_flag (gc_flags gc) GRID_FLAG_UTF8\<rparr>;
     ctx \<leftarrow> screen_write_cell ctx gc (Some ud);
     Some (ctx, gc\<lparr>gc_flags := clear_flag (gc_flags gc) GRID_FLAG_UTF8\<rparr>)
   })"

function vnputs_loop :: "int \<Rightarrow> bool \<Rightarrow> u_char list \<Rightarrow> nat \<Rightarrow> pen \<Rightarrow> pen option" where
  "vnputs_loop maxlen utf8flag [] len pen = Some pen"
| "vnputs_loop maxlen utf8flag (ch # ptr) len pen = do {
     item \<leftarrow> text_next utf8flag ch ptr;
     case item of
       Text_End \<Rightarrow> Some pen
     | Text_Utf8 ud ptr \<Rightarrow>
         if maxlen > 0 \<and> len + ud_width ud > nat maxlen then pad_columns len (nat maxlen) pen
         else do {
           pen \<leftarrow> write_utf8 ud pen;
           vnputs_loop maxlen utf8flag ptr (len + ud_width ud) pen
         }
     | Text_Byte ch ptr \<Rightarrow>
         if maxlen > 0 \<and> len + 1 > nat maxlen then Some pen
         else do {
           pen \<leftarrow> screen_write_putc (fst pen) (snd pen) ch;
           vnputs_loop maxlen utf8flag ptr (len + 1) pen
         }
   }"
  by pat_completeness auto
termination
  by (relation "measure (\<lambda>(maxlen, utf8flag, ptr, len, pen). length ptr)") (auto dest: text_next_length)

definition screen_write_vnputs ::
  "screen_write_ctx \<Rightarrow> int \<Rightarrow> grid_cell \<Rightarrow> bool \<Rightarrow> u_char list \<Rightarrow> pen option" where
  "screen_write_vnputs ctx maxlen gc utf8flag msg = vnputs_loop maxlen utf8flag msg 0 (ctx, gc)"

definition screen_write_puts :: "screen_write_ctx \<Rightarrow> grid_cell \<Rightarrow> u_char list \<Rightarrow> pen option" where
  "screen_write_puts ctx gc msg = screen_write_vnputs ctx (- 1) gc False msg"

definition screen_write_nputs ::
  "screen_write_ctx \<Rightarrow> int \<Rightarrow> grid_cell \<Rightarrow> bool \<Rightarrow> u_char list \<Rightarrow> pen option" where
  "screen_write_nputs ctx maxlen gc utf8flag msg = screen_write_vnputs ctx maxlen gc utf8flag msg"

section \<open>Styles\<close>

abbreviation style_delimiters :: string where
  "style_delimiters \<equiv> '' ,''"

record style =
  st_fg :: u_char
  st_bg :: u_char
  st_attr :: u_char
  st_flags :: u_char

text \<open>Setting a colour \<open>val\<close> (not -1): its new flag word and number, the default's number for 8.\<close>

definition style_colour :: "int \<Rightarrow> u_char \<Rightarrow> u_char \<Rightarrow> u_char \<Rightarrow> u_char \<times> u_char" where
  "style_colour val m flags dflt =
     (if val \<noteq> 8 then
        if val AND 0x100 \<noteq> 0 then (set_flag flags m, of_int (val AND NOT 0x100))
        else (clear_flag flags m, of_int val)
      else (flags, dflt))"

text \<open>
  One word of a style. The outer option is the execution of the code, the inner one is \<open>None\<close> when it
  returns without changing the cell.
\<close>

definition style_word ::
  "colour_rgb list \<Rightarrow> grid_cell \<Rightarrow> string \<Rightarrow> style \<Rightarrow> style option option" where
  "style_word table defgc tmp st =
     (if strcasecmp tmp ''default''
      then Some (Some (st\<lparr>st_fg := gc_fg defgc, st_bg := gc_bg defgc, st_attr := gc_attr defgc\<rparr>))
      else if length tmp > 3 \<and> strncasecmp (drop 1 tmp) ''g='' 2 then do {
        val \<leftarrow> colour_fromstring table (drop 3 tmp);
        if val = -1 then Some None
        else if char_at tmp 0 = CHR ''f'' \<or> char_at tmp 0 = CHR ''F'' then
          (case style_colour val GRID_FLAG_FG256 (st_flags st) (gc_fg defgc) of (flags, fg) \<Rightarrow>
             Some (Some (st\<lparr>st_flags := flags, st_fg := fg\<rparr>)))
        else if char_at tmp 0 = CHR ''b'' \<or> char_at tmp 0 = CHR ''B'' then
          (case style_colour val GRID_FLAG_BG256 (st_flags st) (gc_bg defgc) of (flags, bg) \<Rightarrow>
             Some (Some (st\<lparr>st_flags := flags, st_bg := bg\<rparr>)))
        else Some None
      }
      else if length tmp > 2 \<and> strncasecmp tmp ''no'' 2 then
        let val = attributes_fromstring (drop 2 tmp)
        in Some (if val = -1 then None else Some (st\<lparr>st_attr := clear_flag (st_attr st) (of_int val)\<rparr>))
      else
        let val = attributes_fromstring tmp
        in Some (if val = -1 then None else Some (st\<lparr>st_attr := set_flag (st_attr st) (of_int val)\<rparr>)))"

lemma attributes_empty: "attributes_fromstring [] = -1"
  by (simp add: attributes_fromstring_def)

text \<open>The empty word is not a style, so every round of the loop consumes its word.\<close>

lemma style_word_empty: "style_word table defgc [] st = Some None"
  by (simp add: style_word_def attributes_empty strcasecmp_def)

lemma style_word_pos:
  assumes "style_word table defgc (take (strcspn str style_delimiters) str) st = Some (Some st')"
  shows "0 < strcspn str style_delimiters \<and> str \<noteq> []"
  using assms style_word_empty [of table defgc st] by (auto intro: ccontr)

function style_loop ::
  "colour_rgb list \<Rightarrow> grid_cell \<Rightarrow> string \<Rightarrow> style \<Rightarrow> style option option" where
  "style_loop table defgc str st =
     (let end = strcspn str style_delimiters
      in if end > 31 then Some None
         else do {
           r \<leftarrow> style_word table defgc (take end str) st;
           case r of
             None \<Rightarrow> Some None
           | Some st \<Rightarrow>
               let str = drop (end + strspn (drop end str) style_delimiters) str
               in if str \<noteq> [] then style_loop table defgc str st else Some (Some st)
         })"
  by pat_completeness auto
termination
  by (relation "measure (\<lambda>(table, defgc, str, st). length str)") (auto dest!: style_word_pos)

declare style_loop.simps [simp del]

text \<open>The colour table \<open>colour_rgb_256\<close>, generated on first use.\<close>

definition colour_rgb_256 :: "colour_rgb list" where
  "colour_rgb_256 = (case colour_rgb_generate256 of Some t \<Rightarrow> t | None \<Rightarrow> [])"

definition screen_write_parsestyle :: "grid_cell \<Rightarrow> grid_cell \<Rightarrow> string \<Rightarrow> grid_cell option" where
  "screen_write_parsestyle defgc gc str =
     (if str = [] then Some gc
      else if last str \<in> set style_delimiters then Some gc
      else do {
        r \<leftarrow> style_loop colour_rgb_256 defgc str
               \<lparr>st_fg = gc_fg gc, st_bg = gc_bg gc, st_attr = gc_attr gc, st_flags = gc_flags gc\<rparr>;
        Some (case r of
          None \<Rightarrow> gc
        | Some st \<Rightarrow> gc\<lparr>gc_fg := st_fg st, gc_bg := st_bg st, gc_attr := st_attr st, gc_flags := st_flags st\<rparr>)
      })"

text \<open>A byte string as a string of characters.\<close>

definition chars :: "u_char list \<Rightarrow> string" where
  "chars = map (\<lambda>b. char_of (unat b))"

text \<open>The state of the loop is the context and the local copy \<open>lgc\<close>; the caller's \<open>gc\<close> is only padded with.\<close>

function cnputs_loop :: "int \<Rightarrow> grid_cell \<Rightarrow> bool \<Rightarrow> u_char list \<Rightarrow> nat \<Rightarrow> pen \<Rightarrow> pen option" where
  "cnputs_loop maxlen gc utf8flag [] len pen = Some (fst pen, gc)"
| "cnputs_loop maxlen gc utf8flag (ch # ptr) len pen =
     (if ch = 0x23 \<and> ptr \<noteq> [] \<and> hd ptr = 0x5b then
        let style = takeWhile (\<lambda>c. c \<noteq> 0x5d) (tl ptr);
            last = dropWhile (\<lambda>c. c \<noteq> 0x5d) (tl ptr)
        in if last = [] then Some (fst pen, gc)
           else do {
             lgc \<leftarrow> screen_write_parsestyle gc (snd pen) (chars style);
             cnputs_loop maxlen gc utf8flag (tl last) len (fst pen, lgc)
           }
      else do {
        item \<leftarrow> text_next utf8flag ch ptr;
        case item of
          Text_End \<Rightarrow> Some (fst pen, gc)
        | Text_Utf8 ud ptr \<Rightarrow>
            if maxlen > 0 \<and> len + ud_width ud > nat maxlen then pad_columns len (nat maxlen) (fst pen, gc)
            else do {
              pen \<leftarrow> write_utf8 ud pen;
              cnputs_loop maxlen gc utf8flag ptr (len + ud_width ud) pen
            }
        | Text_Byte ch ptr \<Rightarrow>
            if maxlen > 0 \<and> len + 1 > nat maxlen then Some (fst pen, gc)
            else do {
              pen \<leftarrow> screen_write_putc (fst pen) (snd pen) ch;
              cnputs_loop maxlen gc utf8flag ptr (len + 1) pen
            }
      })"
  by pat_completeness auto
termination
proof (relation "measure (\<lambda>(maxlen, gc, utf8flag, ptr, len, pen). length ptr)", goal_cases)
  case (2 maxlen gc utf8flag ch ptr len pen style last lgc)
  then show ?case using length_dropWhile_le [of "\<lambda>c. c \<noteq> 0x5d" "tl ptr"] by (cases ptr) auto
qed (auto dest: text_next_length)

definition screen_write_cnputs ::
  "screen_write_ctx \<Rightarrow> int \<Rightarrow> grid_cell \<Rightarrow> bool \<Rightarrow> u_char list \<Rightarrow> pen option" where
  "screen_write_cnputs ctx maxlen gc utf8flag msg =
     cnputs_loop maxlen gc utf8flag msg 0 (ctx, gc)"

section \<open>Copying\<close>

text \<open>A cell of the line \<open>gl\<close> of the source.\<close>

definition copy_cell :: "grid_line \<Rightarrow> u_int \<Rightarrow> writer" where
  "copy_cell gl xx ctx = do {
     gc \<leftarrow> (if xx \<ge> gl_cellsize gl then Some grid_default_cell else get_at (gl_celldata gl) xx);
     if \<not> has_flag (gc_flags gc) GRID_FLAG_UTF8 then screen_write_cell ctx gc None
     else do {
       gu \<leftarrow> get_at (gl_utf8data gl) xx;
       bs \<leftarrow> grid_utf8_copy gu UTF8_SIZE;
       let ud = \<lparr>ud_data = bs @ replicate (UTF8_SIZE - length bs) undefined, ud_have = undefined,
                 ud_size = length bs, ud_width = unat (gu_width gu)\<rparr>;
       screen_write_cell ctx gc (Some ud)
     }
   }"

definition copy_line :: "grid \<Rightarrow> u_int \<Rightarrow> u_int \<Rightarrow> u_int \<Rightarrow> writer" where
  "copy_line gd px nx yy ctx =
     (if yy < u_add (gd_hsize gd) (gd_sy gd) then do {
        gl \<leftarrow> get_at (gd_linedata gd) yy;
        let ax = (if px > gl_cellsize gl then gl_cellsize gl else px);
        let whole = (u_add px nx = gd_sx gd \<and> u_add px nx > gl_cellsize gl);
        let bx = (if whole then gl_cellsize gl else u_add px nx);
        ctx \<leftarrow> for_upto ax bx (copy_cell gl) ctx;
        if whole then screen_write_clearendofline ctx else Some ctx
      }
      else screen_write_clearline ctx)"

definition screen_write_copy ::
  "screen_write_ctx \<Rightarrow> screen \<Rightarrow> u_int \<Rightarrow> u_int \<Rightarrow> u_int \<Rightarrow> u_int \<Rightarrow> screen_write_ctx option" where
  "screen_write_copy ctx src px py nx ny =
     (let cx = scr_cx (ctx_s ctx); cy = scr_cy (ctx_s ctx)
      in for_upto py (u_add py ny) (\<lambda>yy ctx. do {
           ctx \<leftarrow> copy_line (scr_grid src) px nx yy ctx;
           Some (screen_write_cursormove ctx cx (u_add cy (yy - py + 1)))
         }) ctx)"

end
