(* ===== verification/Screen_Text_Facts.thy ===== *)
theory Screen_Text_Facts
  imports Screen_Write_Cell Screen_Text
begin

text \<open>
  The text writers of \<open>Screen_Text\<close> never die (\<open>pen_next\<close>); with a column limit they keep to their row and
  to their columns (\<open>on_row\<close>, \<open>pen_row\<close>).
\<close>

unbundle bit_operations_syntax

section \<open>Characters of a string\<close>

lemma utf8_take_returns:
  assumes "utf8_data_ok ud" and "ud_have ud < ud_size ud" and "ud_size ud - ud_have ud \<le> length ptr"
  shows "returns (utf8_take ud ptr) (\<lambda>(ud', ptr'). ud_ok ud')"
  using assms
proof (induction ud ptr rule: utf8_take.induct)
  case (2 ud ch ptr)
  obtain ud' more where a: "utf8_append ud ch = Some (ud', more)" "utf8_data_ok ud'" "ud_have ud' = ud_have ud + 1"
    "ud_size ud' = ud_size ud" "more = (ud_have ud' \<noteq> ud_size ud')" "\<not> more \<longrightarrow> ud_width ud' \<le> 2"
    using utf8_append_returns [OF 2(2,3), of ch] by (auto simp: returns_eq)
  show ?case
  proof (cases more)
    case True
    then show ?thesis using 2 a by (auto simp: utf8_data_ok_def)
  next
    case False
    then show ?thesis using 2 a by (auto simp: utf8_data_ok_def ud_ok_def)
  qed
qed simp

lemma text_next_returns:
  "returns (text_next utf8flag ch ptr) (\<lambda>item. \<forall>ud ptr'. item = Text_Utf8 ud ptr' \<longrightarrow> ud_ok ud)"
proof (cases "utf8flag \<and> ch > 0x7f")
  case True
  obtain ud ok where o: "utf8_open ch = Some (ud, ok)" "utf8_data_ok ud" "ok = (utf8_open_size ch \<noteq> 0)"
    "ud_size ud = utf8_open_size ch" "ok \<longrightarrow> ud_have ud = 1"
    using utf8_open_returns [of ch] by (cases "utf8_open ch") (fastforce simp: returns_eq)+
  show ?thesis
  proof (cases "ok \<and> \<not> length ptr < ud_size ud - 1")
    case t: True
    have "utf8_open_size ch \<noteq> 1" by (simp add: utf8_open_size_def)
    then have "ud_have ud < ud_size ud" "ud_size ud - ud_have ud \<le> length ptr" using o t by auto
    then obtain ud' ptr' where "utf8_take ud ptr = Some (ud', ptr')" "ud_ok ud'"
      using utf8_take_returns [OF o(2)] by (cases "utf8_take ud ptr") (fastforce simp: returns_eq)+
    then show ?thesis using True o t by (simp add: text_next_def)
  next
    case False
    then show ?thesis using True o by (auto simp: text_next_def)
  qed
next
  case False
  then show ?thesis by (auto simp: text_next_def)
qed

lemma screen_write_strlen_returns: "\<exists>n. screen_write_strlen utf8flag msg = Some n"
proof -
  have "\<exists>n'. text_length utf8flag msg n = Some n'" for n
  proof (induction utf8flag msg n rule: text_length.induct)
    case (2 utf8flag ch ptr n)
    obtain item where "text_next utf8flag ch ptr = Some item"
      using text_next_returns [of utf8flag ch ptr] by (auto simp: returns_eq)
    then show ?case using 2 by (cases item) auto
  qed simp
  then show ?thesis by (simp add: screen_write_strlen_def)
qed

section \<open>Styles\<close>

lemma rgb_step_length:
  assumes "0 < i" and "length (snd (snd (snd st))) = 240"
  shows "returns (rgb_step i st) (\<lambda>st. length (snd (snd (snd st))) = 240)"
  by (cases st) (use assms in \<open>auto simp: rgb_step_def Let_def\<close>)

lemma grey_step_length: "0 < i \<Longrightarrow> length table = 240 \<Longrightarrow> returns (grey_step i table) (\<lambda>t. length t = 240)"
  by (simp add: grey_step_def Let_def)

lemma rgb_steps_length:
  assumes "\<forall>i \<in> set is. 0 < i" and "length (snd (snd (snd st))) = 240"
  shows "returns (fold_opt rgb_step is st) (\<lambda>st. length (snd (snd (snd st))) = 240)"
  by (rule fold_opt_returns [where I = "\<lambda>st. length (snd (snd (snd st))) = 240"])
     (use assms rgb_step_length in auto)

lemma grey_steps_length:
  assumes "\<forall>i \<in> set is. 0 < i" and "length table = 240"
  shows "returns (fold_opt grey_step is table) (\<lambda>t. length t = 240)"
  by (rule fold_opt_returns [where I = "\<lambda>t. length t = 240"]) (use assms grey_step_length in auto)

lemma colour_rgb_generated:
  assumes "\<forall>i \<in> set is. 0 < i" and "\<forall>i \<in> set js. 0 < i" and "length table = 240"
  shows "returns (fold_opt rgb_step is (r, g, b, table) \<bind> (\<lambda>(r, g, b, table). fold_opt grey_step js table))
    (\<lambda>t. length t = 240)"
proof -
  have "returns (fold_opt rgb_step is (r, g, b, table))
      (\<lambda>st. returns (case st of (r, g, b, table) \<Rightarrow> fold_opt grey_step js table) (\<lambda>t. length t = 240))"
    by (rule returns_mono [OF rgb_steps_length [OF assms(1)]])
       (use assms(2,3) grey_steps_length in \<open>auto split: prod.splits\<close>)
  then show ?thesis unfolding returns_bind .
qed

lemma colour_rgb_256_length: "length colour_rgb_256 = 240"
proof -
  have pos: "\<forall>i \<in> set (rev [Suc a..<b]). 0 < i" for a b by auto
  have five: "(25::nat) = Suc 24" "(1::nat) = Suc 0" by simp_all
  have "returns colour_rgb_generate256 (\<lambda>t. length t = 240)"
    unfolding colour_rgb_generate256_def five by (rule colour_rgb_generated [OF pos pos length_replicate])
  then obtain t where t: "colour_rgb_generate256 = Some t" "length t = 240" unfolding returns_eq by blast
  show ?thesis unfolding colour_rgb_256_def t(1) option.case by (fact t(2))
qed

lemma colour_rgb_find_returns: "length table = 240 \<Longrightarrow> colour_rgb_find table rgb \<noteq> None"
proof -
  assume "length table = 240"
  then have "returns (for_upto 0 240 (rgb_find_step table rgb) (UINT_MAX, 16)) (\<lambda>s. True)"
    by (intro for_upto_returns) (auto simp: rgb_find_step_def Let_def split: prod.splits)
  then show ?thesis by (auto simp: colour_rgb_find_def returns_eq)
qed

lemma colour_fromstring_returns: "length table = 240 \<Longrightarrow> \<exists>c. colour_fromstring table s = Some c"
proof -
  assume "length table = 240"
  then obtain c where "colour_rgb_find table \<lparr>rgb_r = hex_byte s 1, rgb_g = hex_byte s 3, rgb_b = hex_byte s 5\<rparr> = Some c"
    using colour_rgb_find_returns [of table] by blast
  then show ?thesis unfolding colour_fromstring_def by auto
qed

text \<open>A style changes the colours and attributes of the cell, and no flag but the two of the palette.\<close>

definition same_kind :: "u_char \<Rightarrow> u_char \<Rightarrow> bool" where
  "same_kind fl fl' \<longleftrightarrow> has_flag fl' GRID_FLAG_UTF8 = has_flag fl GRID_FLAG_UTF8 \<and>
     has_flag fl' GRID_FLAG_PADDING = has_flag fl GRID_FLAG_PADDING"

lemma same_kind_refl [simp]: "same_kind fl fl"
  by (simp add: same_kind_def)

lemma same_kind_trans: "same_kind a b \<Longrightarrow> same_kind b c \<Longrightarrow> same_kind a c"
  by (simp add: same_kind_def)

lemma style_colour_kind:
  "style_colour val GRID_FLAG_FG256 fl dflt = (fl', n) \<Longrightarrow> same_kind fl fl'"
  "style_colour val GRID_FLAG_BG256 fl dflt = (fl', n) \<Longrightarrow> same_kind fl fl'"
  by (auto simp: style_colour_def same_kind_def has_flag_set_other has_flag_clear_other split: if_splits)

definition styled :: "style \<Rightarrow> style option \<Rightarrow> bool" where
  "styled st r \<longleftrightarrow> (\<forall>st'. r = Some st' \<longrightarrow> same_kind (st_flags st) (st_flags st'))"

lemma style_word_returns:
  assumes "length table = 240"
  shows "returns (style_word table defgc tmp st) (styled st)"
proof -
  obtain val where "colour_fromstring table (drop 3 tmp) = Some val"
    using colour_fromstring_returns [OF assms] by blast
  then show ?thesis
    by (auto simp: style_word_def styled_def Let_def split: prod.splits dest: style_colour_kind)
qed

lemma style_loop_returns:
  assumes "length table = 240"
  shows "returns (style_loop table defgc str st) (styled st)"
  using assms
proof (induction table defgc str st rule: style_loop.induct)
  case (1 table defgc str st)
  let ?stop = "strcspn str style_delimiters"
  let ?rest = "drop (?stop + strspn (drop ?stop str) style_delimiters) str"
  obtain r where r: "style_word table defgc (take ?stop str) st = Some r" "styled st r"
    using style_word_returns [OF 1(2), of defgc "take ?stop str" st] by (auto simp: returns_eq)
  consider "?stop > 31 \<or> r = None" | st' where "\<not> ?stop > 31" "r = Some st'" "?rest = []"
    | st' where "\<not> ?stop > 31" "r = Some st'" "?rest \<noteq> []" by (cases r) auto
  then show ?case
  proof cases
    case 1
    then show ?thesis using r by (subst style_loop.simps) (auto simp: Let_def styled_def)
  next
    case 2
    then show ?thesis using r by (subst style_loop.simps) (simp add: Let_def del: drop_eq_Nil)
  next
    case 3
    have "returns (style_loop table defgc ?rest st') (styled st')"
      by (rule 1(1) [OF refl 3(1) r(1) 3(2) refl 3(3) 1(2)])
    then have "returns (style_loop table defgc ?rest st') (styled st)"
      by (rule returns_mono) (use r(2) 3(2) in \<open>auto simp: styled_def intro: same_kind_trans\<close>)
    then show ?thesis using r(1) 3
      by (subst style_loop.simps) (simp add: Let_def del: drop_eq_Nil)
  qed
qed

lemma screen_write_parsestyle_returns:
  "returns (screen_write_parsestyle defgc gc str) (\<lambda>gc'. same_kind (gc_flags gc) (gc_flags gc'))"
  using style_loop_returns [OF colour_rgb_256_length, of defgc str
        "\<lparr>st_fg = gc_fg gc, st_bg = gc_bg gc, st_attr = gc_attr gc, st_flags = gc_flags gc\<rparr>"]
  by (auto simp: screen_write_parsestyle_def styled_def split: option.splits elim!: returns_mono)

section \<open>Strings are safe\<close>

definition pen_ok :: "grid_cell \<Rightarrow> bool" where
  "pen_ok gc \<longleftrightarrow> \<not> is_utf8 gc"

definition pen_next :: "screen_write_ctx \<Rightarrow> pen \<Rightarrow> bool" where
  "pen_next ctx pen \<longleftrightarrow> ctx_next ctx (fst pen) \<and> pen_ok (snd pen)"

lemma pen_next_trans: "pen_next ctx pen \<Longrightarrow> pen_next (fst pen) pen' \<Longrightarrow> pen_next ctx pen'"
  by (auto simp: pen_next_def intro: ctx_next_trans)

lemma pen_next_bind:
  assumes "returns m (pen_next ctx)" and "\<And>pen. m = Some pen \<Longrightarrow> pen_next ctx pen \<Longrightarrow> returns (f pen) (pen_next (fst pen))"
  shows "returns (m \<bind> f) (pen_next ctx)"
proof -
  obtain pen where pen: "m = Some pen" "pen_next ctx pen" using assms(1) by (auto simp: returns_eq)
  have "returns (f pen) (pen_next ctx)"
    using assms(2) [OF pen] by (rule returns_mono) (rule pen_next_trans [OF pen(2)])
  then show ?thesis using pen(1) by simp
qed

lemma pen_nextD: "pen_next ctx pen \<Longrightarrow> ctx_safe (fst pen) \<and> pen_ok (snd pen)"
  by (auto simp: pen_next_def dest: ctx_nextD)

lemma pen_next_refl: "ctx_safe (fst pen) \<Longrightarrow> pen_ok (snd pen) \<Longrightarrow> pen_next (fst pen) pen"
  "ctx_safe ctx \<Longrightarrow> pen_ok gc \<Longrightarrow> pen_next ctx (ctx, gc)"
  by (simp_all add: pen_next_def ctx_next_refl)

lemma pen_ok_data [simp]: "pen_ok (gc\<lparr>gc_data := ch\<rparr>) = pen_ok gc"
  by (simp add: pen_ok_def is_utf8_def)

lemma pen_char_ok: "pen_ok gc \<Longrightarrow> char_ok gc ud"
  by (simp add: pen_ok_def char_ok_def)

lemma utf8_flags [simp]:
  "is_utf8 (gc\<lparr>gc_flags := set_flag (gc_flags gc) GRID_FLAG_UTF8\<rparr>)"
  "pen_ok (gc\<lparr>gc_flags := clear_flag (gc_flags gc) GRID_FLAG_UTF8\<rparr>)"
  "is_padding (gc\<lparr>gc_flags := set_flag (gc_flags gc) GRID_FLAG_UTF8\<rparr>) = is_padding gc"
  "is_padding (gc\<lparr>gc_flags := clear_flag (gc_flags gc) GRID_FLAG_UTF8\<rparr>) = is_padding gc"
  by (simp_all add: is_utf8_def pen_ok_def is_padding_def has_flag_set_other has_flag_clear_other has_flag_set_self)

lemma flags_twice [simp]:
  "is_padding (gc\<lparr>gc_flags := clear_flag (set_flag (gc_flags gc) GRID_FLAG_UTF8) GRID_FLAG_UTF8\<rparr>) = is_padding gc"
  "pen_ok (gc\<lparr>gc_flags := clear_flag (set_flag (gc_flags gc) GRID_FLAG_UTF8) GRID_FLAG_UTF8\<rparr>)"
  by (simp_all add: is_utf8_def pen_ok_def is_padding_def has_flag_set_other has_flag_clear_other)

lemma screen_write_putc_next:
  assumes "ctx_safe ctx" and "pen_ok gc"
  shows "returns (screen_write_putc ctx gc ch) (pen_next ctx)"
  using screen_write_cell_next [OF assms(1) pen_char_ok, of "gc\<lparr>gc_data := ch\<rparr>" None] assms(2)
  by (auto simp: screen_write_putc_def pen_next_def Let_def elim!: returns_mono)

lemma write_utf8_next:
  assumes "ctx_safe (fst pen)" and "ud_ok ud"
  shows "returns (write_utf8 ud pen) (pen_next (fst pen))"
proof -
  have "char_ok ((snd pen)\<lparr>gc_flags := set_flag (gc_flags (snd pen)) GRID_FLAG_UTF8\<rparr>) (Some ud)"
    using assms(2) by (simp add: char_ok_def)
  from screen_write_cell_next [OF assms(1) this] show ?thesis
    by (auto simp: write_utf8_def pen_next_def split: prod.splits elim!: returns_mono)
qed

lemma pad_columns_next:
  assumes "ctx_safe (fst pen)" and "pen_ok (snd pen)"
  shows "returns (pad_columns len maxlen pen) (pen_next (fst pen))"
  unfolding pad_columns_def
proof (rule for_upto_returns)
  show "pen_next (fst pen) pen" using assms by (simp add: pen_next_refl)
  fix i and pen' :: pen assume 1: "pen_next (fst pen) pen'"
  then have "returns (screen_write_putc (fst pen') (snd pen') 0x20) (pen_next (fst pen'))"
    by (intro screen_write_putc_next) (auto dest: pen_nextD)
  then have "returns (screen_write_putc (fst pen') (snd pen') 0x20) (pen_next (fst pen))"
    by (rule returns_mono) (rule pen_next_trans [OF 1])
  then show "returns (case pen' of (ctx, gc) \<Rightarrow> screen_write_putc ctx gc 0x20) (pen_next (fst pen))"
    by (cases pen') simp
qed

lemma vnputs_loop_next:
  assumes "ctx_safe (fst pen)" and "pen_ok (snd pen)"
  shows "returns (vnputs_loop maxlen utf8flag msg len pen) (pen_next (fst pen))"
  using assms
proof (induction maxlen utf8flag msg len pen rule: vnputs_loop.induct)
  case (1 maxlen utf8flag len pen)
  then show ?case by (simp add: pen_next_refl)
next
  case (2 maxlen utf8flag ch ptr len pen)
  obtain item where item: "text_next utf8flag ch ptr = Some item"
    "\<And>ud ptr'. item = Text_Utf8 ud ptr' \<Longrightarrow> ud_ok ud"
    using text_next_returns [of utf8flag ch ptr] by (auto simp: returns_eq)
  show ?case
  proof (cases item)
    case Text_End
    then show ?thesis using item 2 by (simp add: pen_next_refl)
  next
    case (Text_Utf8 ud ptr')
    have "returns (write_utf8 ud pen \<bind> vnputs_loop maxlen utf8flag ptr' (len + ud_width ud)) (pen_next (fst pen))"
      if "\<not> (maxlen > 0 \<and> len + ud_width ud > nat maxlen)"
    proof (rule pen_next_bind [OF write_utf8_next [OF 2(3)]])
      show "ud_ok ud" using item(2) Text_Utf8 .
      fix pen' assume "write_utf8 ud pen = Some pen'" "pen_next (fst pen) pen'"
      then show "returns (vnputs_loop maxlen utf8flag ptr' (len + ud_width ud) pen') (pen_next (fst pen'))"
        using 2(1) [OF item(1) Text_Utf8 that] pen_nextD by blast
    qed
    then show ?thesis using Text_Utf8 item(1) 2(3,4) pad_columns_next by auto
  next
    case (Text_Byte ch' ptr')
    have "returns (screen_write_putc (fst pen) (snd pen) ch' \<bind> vnputs_loop maxlen utf8flag ptr' (len + 1))
        (pen_next (fst pen))" if "\<not> (maxlen > 0 \<and> len + 1 > nat maxlen)"
    proof (rule pen_next_bind [OF screen_write_putc_next [OF 2(3,4)]])
      fix pen' assume "screen_write_putc (fst pen) (snd pen) ch' = Some pen'" "pen_next (fst pen) pen'"
      then show "returns (vnputs_loop maxlen utf8flag ptr' (len + 1) pen') (pen_next (fst pen'))"
        using 2(2) [OF item(1) Text_Byte that] pen_nextD by blast
    qed
    then show ?thesis using Text_Byte item(1) 2(3,4) by (auto simp: pen_next_refl)
  qed
qed

lemma pen_ok_style: "same_kind (gc_flags gc) (gc_flags gc') \<Longrightarrow> pen_ok gc' = pen_ok gc"
  by (simp add: same_kind_def pen_ok_def is_utf8_def)

lemma padding_style: "same_kind (gc_flags gc) (gc_flags gc') \<Longrightarrow> is_padding gc' = is_padding gc"
  by (simp add: same_kind_def is_padding_def)

lemma cnputs_loop_next:
  assumes "ctx_safe (fst pen)" and "pen_ok (snd pen)" and "pen_ok gc"
  shows "returns (cnputs_loop maxlen gc utf8flag msg len pen) (pen_next (fst pen))"
  using assms
proof (induction maxlen gc utf8flag msg len pen rule: cnputs_loop.induct)
  case (1 maxlen gc utf8flag len pen)
  then show ?case by (simp add: pen_next_refl)
next
  case (2 maxlen gc utf8flag ch ptr len pen)
  show ?case
  proof (cases "ch = 0x23 \<and> ptr \<noteq> [] \<and> hd ptr = 0x5b")
    case style: True
    let ?last = "dropWhile (\<lambda>c. c \<noteq> 0x5d) (tl ptr)"
    obtain lgc where lgc: "screen_write_parsestyle gc (snd pen) (chars (takeWhile (\<lambda>c. c \<noteq> 0x5d) (tl ptr))) = Some lgc"
      "same_kind (gc_flags (snd pen)) (gc_flags lgc)"
      using screen_write_parsestyle_returns [of gc "snd pen"] unfolding returns_eq by blast
    have "?last \<noteq> [] \<Longrightarrow> returns (cnputs_loop maxlen gc utf8flag (tl ?last) len (fst pen, lgc)) (pen_next (fst pen))"
      using 2(1) [OF style refl refl _ lgc(1)] 2(4-) pen_ok_style [OF lgc(2)] by simp
    moreover have "pen_next (fst pen) (fst pen, gc)" using 2(4-) by (simp add: pen_next_refl)
    ultimately show ?thesis using style lgc(1) by (auto simp: Let_def simp del: dropWhile_eq_Nil_conv)
  next
    case plain: False
    obtain item where item: "text_next utf8flag ch ptr = Some item"
      "\<And>ud ptr'. item = Text_Utf8 ud ptr' \<Longrightarrow> ud_ok ud"
      using text_next_returns [of utf8flag ch ptr] by (auto simp: returns_eq)
    show ?thesis
    proof (cases item)
      case Text_End
      then show ?thesis using item plain 2 by (simp add: pen_next_refl if_not_P)
    next
      case (Text_Utf8 ud ptr')
      have "returns (write_utf8 ud pen \<bind> cnputs_loop maxlen gc utf8flag ptr' (len + ud_width ud)) (pen_next (fst pen))"
        if "\<not> (maxlen > 0 \<and> len + ud_width ud > nat maxlen)"
      proof (rule pen_next_bind [OF write_utf8_next [OF 2(4)]])
        show "ud_ok ud" using item(2) Text_Utf8 .
        fix pen' assume "write_utf8 ud pen = Some pen'" "pen_next (fst pen) pen'"
        then show "returns (cnputs_loop maxlen gc utf8flag ptr' (len + ud_width ud) pen') (pen_next (fst pen'))"
          using 2(2) [OF plain item(1) Text_Utf8 that] pen_nextD 2(6) by blast
      qed
      moreover have "returns (pad_columns len (nat maxlen) (fst pen, gc)) (pen_next (fst pen))"
        using pad_columns_next [of "(fst pen, gc)"] 2(4-) by simp
      ultimately show ?thesis using Text_Utf8 item(1) plain by (simp add: if_not_P)
    next
      case (Text_Byte ch' ptr')
      have "returns (screen_write_putc (fst pen) (snd pen) ch' \<bind> cnputs_loop maxlen gc utf8flag ptr' (len + 1))
          (pen_next (fst pen))" if "\<not> (maxlen > 0 \<and> len + 1 > nat maxlen)"
      proof (rule pen_next_bind [OF screen_write_putc_next [OF 2(4,5)]])
        fix pen' assume "screen_write_putc (fst pen) (snd pen) ch' = Some pen'" "pen_next (fst pen) pen'"
        then show "returns (cnputs_loop maxlen gc utf8flag ptr' (len + 1) pen') (pen_next (fst pen'))"
          using 2(3) [OF plain item(1) Text_Byte that] pen_nextD 2(6) by blast
      qed
      then show ?thesis using Text_Byte item(1) 2(4-) plain by (simp add: if_not_P pen_next_refl)
    qed
  qed
qed

section \<open>Strings keep to their row and their columns\<close>

text \<open>From \<open>ctx\<close> to \<open>ctx'\<close>: at most \<open>n\<close> columns to the right, and no other row changed.\<close>

definition on_row :: "screen_write_ctx \<Rightarrow> nat \<Rightarrow> screen_write_ctx \<Rightarrow> bool" where
  "on_row ctx n ctx' \<longleftrightarrow> ctx_next ctx ctx' \<and> ctx_cy ctx' = ctx_cy ctx \<and>
     ctx_cx ctx \<le> ctx_cx ctx' \<and> ctx_cx ctx' \<le> ctx_cx ctx + n \<and>
     scr_mode (ctx_s ctx') = scr_mode (ctx_s ctx) \<and>
     (\<forall>x y. x < ctx_sx ctx \<longrightarrow> y < ctx_sy ctx \<longrightarrow> y \<noteq> ctx_cy ctx \<longrightarrow> ctx_glyph ctx' x y = ctx_glyph ctx x y)"

lemma on_row_size: "on_row ctx n ctx' \<Longrightarrow> ctx_safe ctx' \<and> ctx_sx ctx' = ctx_sx ctx \<and> ctx_sy ctx' = ctx_sy ctx"
  by (auto simp: on_row_def ctx_next_def ctx_keep_def grid_keep_def)

lemma on_row_refl: "ctx_safe ctx \<Longrightarrow> on_row ctx n ctx"
  by (simp add: on_row_def ctx_next_refl)

lemma on_row_mono: "on_row ctx m ctx' \<Longrightarrow> m \<le> n \<Longrightarrow> on_row ctx n ctx'"
  by (simp add: on_row_def)

lemma on_row_trans:
  assumes "on_row a m b" and "on_row b n c"
  shows "on_row a (m + n) c"
  using assms on_row_size [OF assms(1)] by (auto simp: on_row_def intro: ctx_next_trans)

definition plain_mode :: "screen_write_ctx \<Rightarrow> bool" where
  "plain_mode ctx \<longleftrightarrow> \<not> has_flag (scr_mode (ctx_s ctx)) MODE_INSERT"

lemma on_row_mode: "on_row ctx n ctx' \<Longrightarrow> plain_mode ctx' = plain_mode ctx"
  by (simp add: on_row_def plain_mode_def)

lemma overwrite_view_row: "y \<noteq> cy \<Longrightarrow> char_view gd cx cy w g x y = view_glyph gd x y"
  by (simp add: char_view_def overwrite_view_def)

lemma screen_write_cell_row:
  assumes "ctx_safe ctx" and "char_ok gc ud" and "plain_mode ctx" and "ctx_cx ctx + char_width gc ud \<le> ctx_sx ctx"
  shows "returns (screen_write_cell ctx gc ud) (on_row ctx (char_width gc ud))"
proof (cases "is_padding gc")
  case True
  then show ?thesis using assms(1) by (simp add: screen_write_cell_def is_padding_def on_row_refl)
next
  case pad: False
  show ?thesis
  proof (cases "char_width gc ud = 0")
    case True
    then obtain u where u: "is_utf8 gc" "ud = Some u" "ud_ok u" "ud_width u = 0"
      using assms(2) by (auto simp: char_width_def char_ok_def split: if_splits)
    show ?thesis unfolding u(2)
    proof (rule returns_mono [OF screen_write_cell_combine [OF assms(1) u(1) pad u(3,4)]], clarify)
      fix ctx' F cmds assume "combined ctx F" and w: "wrote ctx F (ctx_cx ctx) (ctx_cy ctx) cmds ctx'"
      then show "on_row ctx (char_width gc (Some u)) ctx'"
        using wrote_screen [OF w] wrote_next [OF w] by (auto simp: on_row_def combined_def)
    qed
  next
    case False
    let ?F = "char_view (ctx_gd ctx) (ctx_cx ctx) (ctx_cy ctx) (char_width gc ud) (gc, char_utf8 gc ud)"
    have "returns (screen_write_cell ctx gc ud) (wrote ctx ?F (ctx_cx ctx + char_width gc ud) (ctx_cy ctx) [tty_cmd_cell])"
      by (rule screen_write_cell_wrote) (use assms pad False in \<open>simp_all add: plain_mode_def\<close>)
    then show ?thesis
    proof (rule returns_mono)
      fix ctx' assume w: "wrote ctx ?F (ctx_cx ctx + char_width gc ud) (ctx_cy ctx) [tty_cmd_cell] ctx'"
      then show "on_row ctx (char_width gc ud) ctx'"
        using wrote_screen [OF w] wrote_next [OF w] by (simp add: on_row_def overwrite_view_row)
    qed
  qed
qed

text \<open>A pen with a column limit: \<open>n\<close> columns are left, and they are on the screen.\<close>

definition pen_fits :: "nat \<Rightarrow> pen \<Rightarrow> bool" where
  "pen_fits n pen \<longleftrightarrow> ctx_safe (fst pen) \<and> pen_ok (snd pen) \<and> plain_mode (fst pen) \<and>
     ctx_cx (fst pen) + n \<le> ctx_sx (fst pen)"

definition pen_row :: "nat \<Rightarrow> screen_write_ctx \<Rightarrow> pen \<Rightarrow> bool" where
  "pen_row n ctx pen \<longleftrightarrow> on_row ctx n (fst pen) \<and> pen_ok (snd pen)"

lemma pen_row_refl: "pen_fits n pen \<Longrightarrow> pen_row m (fst pen) pen"
  by (simp add: pen_fits_def pen_row_def on_row_refl)

lemma pen_row_trans: "pen_row m ctx pen \<Longrightarrow> pen_row n (fst pen) pen' \<Longrightarrow> pen_row (m + n) ctx pen'"
  by (auto simp: pen_row_def intro: on_row_trans)

lemma pen_fits_after: "pen_row m (fst pen) pen' \<Longrightarrow> pen_fits (m + n) pen \<Longrightarrow> pen_fits n pen'"
  using on_row_size [of "fst pen" m "fst pen'"] on_row_mode [of "fst pen" m "fst pen'"]
  by (auto simp: pen_row_def pen_fits_def on_row_def)

lemma pen_row_bind:
  assumes "returns m (pen_row k (fst pen))" and "pen_fits (k + n) pen"
    and "\<And>pen'. m = Some pen' \<Longrightarrow> pen_fits n pen' \<Longrightarrow> returns (f pen') (pen_row n (fst pen'))"
  shows "returns (m \<bind> f) (pen_row (k + n) (fst pen))"
proof -
  obtain pen' where pen': "m = Some pen'" "pen_row k (fst pen) pen'" using assms(1) by (auto simp: returns_eq)
  have "returns (f pen') (pen_row (k + n) (fst pen))"
    using assms(3) [OF pen'(1) pen_fits_after [OF pen'(2) assms(2)]]
    by (rule returns_mono) (use pen'(2) in \<open>auto simp: pen_row_def intro: on_row_trans\<close>)
  then show ?thesis using pen'(1) by simp
qed

lemma screen_write_putc_row:
  assumes "pen_fits 1 pen"
  shows "returns (screen_write_putc (fst pen) (snd pen) ch) (pen_row 1 (fst pen))"
proof -
  let ?gc = "(snd pen)\<lparr>gc_data := ch\<rparr>"
  have w: "char_ok ?gc None" "char_width ?gc None = 1"
    using assms by (auto simp: pen_fits_def char_ok_def char_width_def pen_ok_def is_utf8_def)
  show ?thesis using screen_write_cell_row [OF _ w(1), of "fst pen"] w(2) assms
    by (auto simp: pen_fits_def pen_row_def screen_write_putc_def Let_def elim!: returns_mono)
qed

lemma write_utf8_row:
  assumes "pen_fits (ud_width ud) pen" and "ud_ok ud"
  shows "returns (write_utf8 ud pen) (pen_row (ud_width ud) (fst pen))"
proof -
  obtain ctx gc where pen: "pen = (ctx, gc)" by (cases pen)
  let ?gc = "gc\<lparr>gc_flags := set_flag (gc_flags gc) GRID_FLAG_UTF8\<rparr>"
  have w: "char_ok ?gc (Some ud)" "char_width ?gc (Some ud) = ud_width ud"
    using assms(2) by (auto simp: char_ok_def char_width_def)
  show ?thesis using screen_write_cell_row [OF _ w(1), of ctx] w(2) assms(1)
    by (auto simp: pen pen_fits_def pen_row_def write_utf8_def Let_def elim!: returns_mono)
qed

lemma pad_columns_row:
  assumes "pen_fits (maxlen - len) pen"
  shows "returns (pad_columns len maxlen pen) (pen_row (maxlen - len) (fst pen))"
proof (cases "len \<le> maxlen")
  case True
  have "returns (for_upto len maxlen (\<lambda>_ (ctx, gc). screen_write_putc ctx gc 0x20) pen) (pen_row (maxlen - len) (fst pen))"
  proof (rule for_upto_returns_index [OF True])
    show "pen_row (len - len) (fst pen) pen" using assms by (simp add: pen_fits_def pen_row_def on_row_refl)
    fix i and pen' :: pen assume i: "len \<le> i" "i < maxlen" and 1: "pen_row (i - len) (fst pen) pen'"
    have "pen_fits (maxlen - i) pen'" by (rule pen_fits_after [OF 1]) (use assms i in simp)
    then have "returns (screen_write_putc (fst pen') (snd pen') 0x20) (pen_row 1 (fst pen'))"
      by (intro screen_write_putc_row) (use i in \<open>auto simp: pen_fits_def\<close>)
    then have "returns (screen_write_putc (fst pen') (snd pen') 0x20) (pen_row (i - len + 1) (fst pen))"
      by (rule returns_mono) (rule pen_row_trans [OF 1])
    then show "returns (case pen' of (ctx, gc) \<Rightarrow> screen_write_putc ctx gc 0x20) (pen_row (Suc i - len) (fst pen))"
      using i(1) by (cases pen') (simp add: Suc_diff_le)
  qed
  then show ?thesis by (simp add: pad_columns_def)
next
  case False
  then show ?thesis using assms pen_row_refl by (simp add: pad_columns_def)
qed

lemma vnputs_loop_row:
  assumes "0 < maxlen" and "len \<le> nat maxlen" and "pen_fits (nat maxlen - len) pen"
  shows "returns (vnputs_loop maxlen utf8flag msg len pen) (pen_row (nat maxlen - len) (fst pen))"
  using assms
proof (induction maxlen utf8flag msg len pen rule: vnputs_loop.induct)
  case (1 maxlen utf8flag len pen)
  then show ?case by (simp add: pen_row_refl)
next
  case (2 maxlen utf8flag ch ptr len pen)
  obtain item where item: "text_next utf8flag ch ptr = Some item"
    "\<And>ud ptr'. item = Text_Utf8 ud ptr' \<Longrightarrow> ud_ok ud"
    using text_next_returns [of utf8flag ch ptr] by (auto simp: returns_eq)
  show ?case
  proof (cases item)
    case Text_End
    then show ?thesis using item pen_row_refl [OF 2(5)] by simp
  next
    case (Text_Utf8 ud ptr')
    let ?w = "ud_width ud"
    have "returns (write_utf8 ud pen \<bind> vnputs_loop maxlen utf8flag ptr' (len + ?w)) (pen_row (nat maxlen - len) (fst pen))"
      if fits: "\<not> (maxlen > 0 \<and> len + ?w > nat maxlen)"
    proof -
      have n: "nat maxlen - len = ?w + (nat maxlen - (len + ?w))" using fits 2(3) by simp
      have f: "pen_fits (?w + (nat maxlen - (len + ?w))) pen" using 2(5) n by simp
      show ?thesis unfolding n
      proof (rule pen_row_bind [OF _ f])
        show "returns (write_utf8 ud pen) (pen_row ?w (fst pen))"
          by (rule write_utf8_row) (use f item(2) Text_Utf8 in \<open>auto simp: pen_fits_def\<close>)
        fix pen' assume "write_utf8 ud pen = Some pen'" "pen_fits (nat maxlen - (len + ?w)) pen'"
        then show "returns (vnputs_loop maxlen utf8flag ptr' (len + ?w) pen') (pen_row (nat maxlen - (len + ?w)) (fst pen'))"
          using 2(1) [OF item(1) Text_Utf8 fits] 2(3) fits by simp
      qed
    qed
    then show ?thesis using Text_Utf8 item(1) 2(5) pad_columns_row by simp
  next
    case (Text_Byte ch' ptr')
    have "returns (screen_write_putc (fst pen) (snd pen) ch' \<bind> vnputs_loop maxlen utf8flag ptr' (len + 1))
        (pen_row (nat maxlen - len) (fst pen))" if fits: "\<not> (maxlen > 0 \<and> len + 1 > nat maxlen)"
    proof -
      have n: "nat maxlen - len = 1 + (nat maxlen - (len + 1))" using fits 2(3) by simp
      have f: "pen_fits (1 + (nat maxlen - (len + 1))) pen" using 2(5) n by simp
      show ?thesis unfolding n
      proof (rule pen_row_bind [OF _ f])
        show "returns (screen_write_putc (fst pen) (snd pen) ch') (pen_row 1 (fst pen))"
          by (rule screen_write_putc_row) (use f in \<open>auto simp: pen_fits_def\<close>)
        fix pen' assume "screen_write_putc (fst pen) (snd pen) ch' = Some pen'" "pen_fits (nat maxlen - (len + 1)) pen'"
        then show "returns (vnputs_loop maxlen utf8flag ptr' (len + 1) pen') (pen_row (nat maxlen - (len + 1)) (fst pen'))"
          using 2(2) [OF item(1) Text_Byte fits] 2(3) fits by simp
      qed
    qed
    then show ?thesis using Text_Byte item(1) pen_row_refl [OF 2(5)] by auto
  qed
qed

end
