(* ===== verification/Screen_Write_Props.thy ===== *)
theory Screen_Write_Props
  imports Screen_Text_Facts
begin

text \<open>
  The properties of the writers: every sequence of writer calls is safe on a screen of at least two
  columns, and what the writers do to the picture, the cursor and the commands for the terminal.
\<close>

unbundle bit_operations_syntax

section \<open>Every sequence of writer calls\<close>

text \<open>
  The calls that a user of \<open>screen-write.c\<close> makes. A cell is written as single byte (the flag
  \<open>GRID_FLAG_UTF8\<close> cleared) or with the UTF-8 data that \<open>utf8_open\<close> and \<open>utf8_append\<close> produce from the
  given bytes; the mouse modes are the only modes that \<open>screen_write_mousemode_on\<close> is given.
\<close>

datatype writer_op =
    W_putc grid_cell u_char
  | W_utf8 grid_cell "u_char list"
  | W_puts grid_cell "u_char list"
  | W_nputs int grid_cell bool "u_char list"
  | W_cnputs int grid_cell bool "u_char list"
  | W_cursorup u_int
  | W_cursordown u_int
  | W_cursorleft u_int
  | W_cursorright u_int
  | W_cursormove u_int u_int
  | W_backspace
  | W_carriagereturn
  | W_linefeed bool
  | W_reverseindex
  | W_scrollregion u_int u_int
  | W_insertcharacter u_int
  | W_deletecharacter u_int
  | W_insertline u_int
  | W_deleteline u_int
  | W_clearline
  | W_clearendofline
  | W_clearstartofline
  | W_clearendofscreen
  | W_clearstartofscreen
  | W_clearscreen
  | W_clearhistory
  | W_alignmenttest
  | W_cursormode bool
  | W_insertmode bool
  | W_utf8mousemode bool
  | W_bracketpaste bool
  | W_kcursormode bool
  | W_kkeypadmode bool
  | W_mousemode_off
  | W_mousemode_on c_flags
  | W_setselection "u_char list" u_int
  | W_rawstring "u_char list" u_int
  | W_reset

abbreviation plain_pen :: "grid_cell \<Rightarrow> grid_cell" where
  "plain_pen gc \<equiv> gc\<lparr>gc_flags := clear_flag (gc_flags gc) GRID_FLAG_UTF8\<rparr>"

definition write_utf8_bytes :: "grid_cell \<Rightarrow> u_char list \<Rightarrow> writer" where
  "write_utf8_bytes gc bs ctx = (case bs of
     [] \<Rightarrow> Some ctx
   | ch # ptr \<Rightarrow> do {
       item \<leftarrow> text_next True ch ptr;
       case item of
         Text_Utf8 ud _ \<Rightarrow> map_option fst (write_utf8 ud (ctx, gc))
       | _ \<Rightarrow> Some ctx
     })"

fun writer_run :: "writer_op \<Rightarrow> writer" where
  "writer_run (W_putc gc ch) ctx = map_option fst (screen_write_putc ctx (plain_pen gc) ch)"
| "writer_run (W_utf8 gc bs) ctx = write_utf8_bytes gc bs ctx"
| "writer_run (W_puts gc msg) ctx = map_option fst (screen_write_puts ctx (plain_pen gc) msg)"
| "writer_run (W_nputs n gc u msg) ctx = map_option fst (screen_write_nputs ctx n (plain_pen gc) u msg)"
| "writer_run (W_cnputs n gc u msg) ctx = map_option fst (screen_write_cnputs ctx n (plain_pen gc) u msg)"
| "writer_run (W_cursorup n) ctx = Some (screen_write_cursorup ctx n)"
| "writer_run (W_cursordown n) ctx = Some (screen_write_cursordown ctx n)"
| "writer_run (W_cursorleft n) ctx = Some (screen_write_cursorleft ctx n)"
| "writer_run (W_cursorright n) ctx = Some (screen_write_cursorright ctx n)"
| "writer_run (W_cursormove px py) ctx = Some (screen_write_cursormove ctx px py)"
| "writer_run W_backspace ctx = screen_write_backspace ctx"
| "writer_run W_carriagereturn ctx = Some (screen_write_carriagereturn ctx)"
| "writer_run (W_linefeed w) ctx = screen_write_linefeed ctx w"
| "writer_run W_reverseindex ctx = screen_write_reverseindex ctx"
| "writer_run (W_scrollregion u l) ctx = Some (screen_write_scrollregion ctx u l)"
| "writer_run (W_insertcharacter n) ctx = screen_write_insertcharacter ctx n"
| "writer_run (W_deletecharacter n) ctx = screen_write_deletecharacter ctx n"
| "writer_run (W_insertline n) ctx = screen_write_insertline ctx n"
| "writer_run (W_deleteline n) ctx = screen_write_deleteline ctx n"
| "writer_run W_clearline ctx = screen_write_clearline ctx"
| "writer_run W_clearendofline ctx = screen_write_clearendofline ctx"
| "writer_run W_clearstartofline ctx = screen_write_clearstartofline ctx"
| "writer_run W_clearendofscreen ctx = screen_write_clearendofscreen ctx"
| "writer_run W_clearstartofscreen ctx = screen_write_clearstartofscreen ctx"
| "writer_run W_clearscreen ctx = screen_write_clearscreen ctx"
| "writer_run W_clearhistory ctx = screen_write_clearhistory ctx"
| "writer_run W_alignmenttest ctx = screen_write_alignmenttest ctx"
| "writer_run (W_cursormode b) ctx = Some (screen_write_cursormode ctx b)"
| "writer_run (W_insertmode b) ctx = Some (screen_write_insertmode ctx b)"
| "writer_run (W_utf8mousemode b) ctx = Some (screen_write_utf8mousemode ctx b)"
| "writer_run (W_bracketpaste b) ctx = Some (screen_write_bracketpaste ctx b)"
| "writer_run (W_kcursormode b) ctx = Some (screen_write_kcursormode ctx b)"
| "writer_run (W_kkeypadmode b) ctx = Some (screen_write_kkeypadmode ctx b)"
| "writer_run W_mousemode_off ctx = Some (screen_write_mousemode_off ctx)"
| "writer_run (W_mousemode_on m) ctx = Some (screen_write_mousemode_on ctx (m AND ALL_MOUSE_MODES))"
| "writer_run (W_setselection str n) ctx = screen_write_setselection ctx str n"
| "writer_run (W_rawstring str n) ctx = screen_write_rawstring ctx str n"
| "writer_run W_reset ctx = screen_write_reset ctx"

lemma returns_fst: "returns (map_option fst m) P = returns m (\<lambda>x. P (fst x))"
  by (cases m) simp_all

lemma pen_returns_next: "returns m (pen_next ctx) \<Longrightarrow> returns (map_option fst m) (ctx_next ctx)"
  unfolding returns_fst by (erule returns_mono) (simp add: pen_next_def)

lemma write_utf8_bytes_next:
  assumes "ctx_safe ctx"
  shows "returns (write_utf8_bytes gc bs ctx) (ctx_next ctx)"
proof (cases bs)
  case Nil
  then show ?thesis using assms by (simp add: write_utf8_bytes_def ctx_next_refl)
next
  case (Cons ch ptr)
  obtain item where item: "text_next True ch ptr = Some item" "\<And>ud ptr'. item = Text_Utf8 ud ptr' \<Longrightarrow> ud_ok ud"
    using text_next_returns [of True ch ptr] by (auto simp: returns_eq)
  then show ?thesis using Cons assms write_utf8_next [of "(ctx, gc)"]
    by (cases item) (auto simp: write_utf8_bytes_def ctx_next_refl intro: pen_returns_next)
qed

lemma mouse_modes_wrap: "((m :: c_flags) AND ALL_MOUSE_MODES) AND MODE_WRAP = 0"
  by (simp add: and.assoc)

lemma writer_run_next:
  assumes "ctx_safe ctx"
  shows "returns (writer_run op ctx) (ctx_next ctx)"
proof -
  note plain = utf8_flags(2)
  have strings: "returns (map_option fst (screen_write_putc ctx (plain_pen gc) ch)) (ctx_next ctx)"
    "returns (map_option fst (screen_write_nputs ctx n (plain_pen gc) u msg)) (ctx_next ctx)"
    "returns (map_option fst (screen_write_puts ctx (plain_pen gc) msg)) (ctx_next ctx)"
    "returns (map_option fst (screen_write_cnputs ctx n (plain_pen gc) u msg)) (ctx_next ctx)" for gc ch n u msg
    using screen_write_putc_next [OF assms plain] vnputs_loop_next [of "(ctx, plain_pen gc)"]
      cnputs_loop_next [of "(ctx, plain_pen gc)"] assms
    by (auto simp: screen_write_nputs_def screen_write_puts_def screen_write_vnputs_def screen_write_cnputs_def
        intro!: pen_returns_next)
  note plain_writers = write_utf8_bytes_next screen_write_backspace_next screen_write_characters_next
    screen_write_lines_next screen_write_strings_next
  note picture_writers = screen_write_linefeed_wrote screen_write_reverseindex_wrote screen_write_clearline_wrote
    screen_write_clearendofline_wrote screen_write_clearstartofline_wrote screen_write_clearendofscreen_wrote
    screen_write_clearstartofscreen_wrote screen_write_clearscreen_wrote screen_write_clearhistory_wrote
  note cursor_writers = screen_write_cursorup_wrote screen_write_cursordown_wrote screen_write_cursorleft_wrote
    screen_write_cursorright_wrote screen_write_cursormove_wrote screen_write_carriagereturn_wrote
  have resets: "returns (screen_write_alignmenttest ctx) (ctx_next ctx)" "returns (screen_write_reset ctx) (ctx_next ctx)"
    using screen_write_alignmenttest_next [OF assms] screen_write_reset_next [OF assms] by (auto elim!: returns_mono)
  have mouse: "ctx_next ctx (screen_write_mousemode_on ctx (m AND ALL_MOUSE_MODES))" for m
    by (rule screen_write_mousemode_next(2) [OF assms mouse_modes_wrap])
  show ?thesis
    by (cases op)
       (simp_all add: strings plain_writers [OF assms] picture_writers [OF assms, THEN wrote_returns_next]
         cursor_writers [OF assms, THEN wrote_next] resets screen_write_modes_next [OF assms]
         screen_write_mousemode_next(1) [OF assms] screen_write_scrollregion_next [OF assms] mouse)
qed

interpretation writers: guarded_ops ctx_safe ctx_keep writer_run
proof
  fix ctx op assume "ctx_safe ctx"
  then show "returns (writer_run op ctx) (\<lambda>ctx'. ctx_safe ctx' \<and> ctx_keep ctx ctx')"
    using writer_run_next [of ctx op] by (auto simp: ctx_next_def elim!: returns_mono)
qed (auto intro: ctx_keep_trans)

text \<open>The screens that the code creates are safe.\<close>

lemma screen_reinit_safe:
  assumes "view_ok (scr_grid s)" and "2 \<le> screen_size_x s"
  shows "returns (screen_reinit s) (\<lambda>s'. screen_safe s' \<and> grid_keep (scr_grid s) (scr_grid s'))"
proof (rule returns_mono [OF screen_reinit_returns [OF assms(1)]], elim conjE)
  fix s' assume s': "screen_ok s'" "grid_keep (scr_grid s) (scr_grid s')"
    and "\<forall>x y. y < screen_size_y s \<longrightarrow> view_glyph (scr_grid s') x y = (grid_default_cell, None)"
  then have "rows_live (screen_size_x s') (screen_size_y s') (view_glyph (scr_grid s'))"
    using assms(2) by (auto simp: rows_live_def grid_keep_def intro!: exI [where x = 0])
  then show "screen_safe s' \<and> grid_keep (scr_grid s) (scr_grid s')"
    using s' assms(2) by (auto simp: screen_safe_def grid_keep_def)
qed

lemma screen_init_safe:
  assumes "2 \<le> sx" "sx \<le> DIM_MAX" "0 < sy" "sy \<le> DIM_MAX" "0 < hlimit" "hlimit \<le> INT_MAX"
  shows "returns (screen_init hn sx sy hlimit) (\<lambda>s. screen_safe s \<and> screen_size_x s = sx \<and> screen_size_y s = sy)"
proof -
  have "0 < sx" using assms(1) by simp
  show ?thesis
    unfolding screen_init_def grid_create_blank [OF assms(3)] Option.bind.bind_lunit
    by (rule returns_mono [OF screen_reinit_safe])
       (use view_blank_ok [OF \<open>0 < sx\<close> assms(2-)] assms(1) in \<open>auto simp: grid_keep_def\<close>)
qed

section \<open>Properties\<close>

text \<open>A new screen of 80 columns and 24 rows.\<close>

lemma fresh_screen: "returns (screen_init None 80 24 2000) (\<lambda>s. ctx_safe (screen_write_start None s) \<and>
    screen_size_x s = 80 \<and> screen_size_y s = 24)"
  by (rule returns_mono [OF screen_init_safe]) (auto simp: ctx_safe_def screen_write_start_def)

lemma fresh_ctx:
  obtains ctx where "ctx_safe ctx" "ctx_sx ctx = 80" "ctx_sy ctx = 24"
  using fresh_screen by (auto simp: returns_eq screen_write_start_def)

text \<open>
  C2. No sequence of writer calls, with whatever arguments, kills the process or accesses memory out of
  bounds on a screen with at least two columns; afterwards the screen is again well formed with the cursor
  row on the screen, the grid has its size and its history limit, and the commands for the terminal have
  only been added to.
\<close>

theorem writers_safe:
  assumes "screen_safe s"
  shows "returns (fold_opt writer_run ops (screen_write_start wp s)) (\<lambda>ctx.
    screen_safe (ctx_s ctx) \<and> ctx_cy ctx < screen_size_y s \<and> grid_keep (scr_grid s) (ctx_gd ctx) \<and> ctx_wp ctx = wp)"
proof -
  have "ctx_safe (screen_write_start wp s)" using assms by (simp add: ctx_safe_def screen_write_start_def)
  from writers.run_ok [OF this, of ops] show ?thesis
  proof (rule returns_mono, elim conjE)
    fix ctx assume c: "ctx_safe ctx" "ctx_keep (screen_write_start wp s) ctx"
    then show "screen_safe (ctx_s ctx) \<and> ctx_cy ctx < screen_size_y s \<and> grid_keep (scr_grid s) (ctx_gd ctx) \<and> ctx_wp ctx = wp"
      using ctx_safe_bounds(6) [OF c(1)] by (auto simp: ctx_safe_def ctx_keep_def screen_write_start_def grid_keep_def)
  qed
qed

theorem writers_safe_witness:
  "returns (screen_init None 80 24 2000 \<bind> (\<lambda>s. fold_opt writer_run
      [W_cursormove 79 23, W_utf8 grid_default_cell [0xe4, 0xb8, 0xad], W_reverseindex] (screen_write_start None s)))
    (\<lambda>ctx. screen_safe (ctx_s ctx) \<and> ctx_cy ctx < 24)"
proof -
  obtain s where s: "screen_init None 80 24 2000 = Some s" "screen_safe s" "screen_size_y s = 24"
    using screen_init_safe [of 80 24 2000 None] by (auto simp: returns_eq)
  show ?thesis unfolding s(1) Option.bind.bind_lunit
    by (rule returns_mono [OF writers_safe [OF s(2)]]) (simp add: s(3))
qed

text \<open>
  The picture a character of width \<open>w\<close> leaves when it is put at \<open>(cx, cy)\<close> of the picture \<open>F\<close>: its glyph, then
  padding; what is left of the wide characters that it partly overwrites is blank.
\<close>

definition put_char :: "u_int \<Rightarrow> u_int \<Rightarrow> u_int \<Rightarrow> grid_cell \<times> grid_utf8 option \<Rightarrow>
    (u_int \<Rightarrow> u_int \<Rightarrow> grid_cell \<times> grid_utf8 option) \<Rightarrow> u_int \<Rightarrow> u_int \<Rightarrow> grid_cell \<times> grid_utf8 option" where
  "put_char cx cy w glyph F x y =
     (let rest = (if y = cy \<and> overwritten (\<lambda>x. fst (F x y)) cx w x then blank else F x y)
      in if y = cy \<and> x = cx then glyph
         else if y = cy \<and> cx < x \<and> x < cx + w then pad_glyph rest else rest)"

lemma overwritten_cong:
  assumes "\<And>x. x < sx \<Longrightarrow> row x = row' x" and "cx < sx" and "x < sx"
  shows "overwritten row cx w x = overwritten row' cx w x"
  using assms by (auto simp: overwritten_def padding_before_def padding_from_def)

lemma char_view_put_char:
  assumes F: "\<And>x y. x < gd_sx gd \<Longrightarrow> y < gd_sy gd \<Longrightarrow> view_glyph gd x y = F x y"
    and "cx < gd_sx gd" and "x < gd_sx gd" and "y < gd_sy gd"
  shows "char_view gd cx cy w glyph x y = put_char cx cy w glyph F x y"
proof -
  have "overwritten (view_row gd y) cx w x = overwritten (\<lambda>x. fst (F x y)) cx w x"
    by (rule overwritten_cong [of "gd_sx gd"]) (use assms in auto)
  then show ?thesis using F [OF assms(3,4)] by (auto simp: char_view_def overwrite_view_def put_char_def Let_def)
qed

text \<open>
  C8. Outside insert mode, writing a character of width 1 or 2 puts it at the cursor if it fits on the row,
  and otherwise at the beginning of the next row after a line feed, which scrolls the region when the cursor is
  on its last row. The terminal is told the same, and the cursor is behind the character.
\<close>

theorem screen_write_cell_spec:
  assumes "ctx_safe ctx" and "char_ok gc ud" and "\<not> is_padding gc" and "0 < char_width gc ud"
    and "\<not> has_flag (scr_mode (ctx_s ctx)) MODE_INSERT"
  shows "returns (screen_write_cell ctx gc ud)
    (let w = char_width gc ud; put = (\<lambda>cx cy. put_char cx cy w (gc, char_utf8 gc ud))
     in if ctx_cx ctx + w \<le> ctx_sx ctx
        then wrote ctx (put (ctx_cx ctx) (ctx_cy ctx) (ctx_glyph ctx)) (ctx_cx ctx + w) (ctx_cy ctx) [tty_cmd_cell]
        else wrote ctx (put 0 (linefeed_cy (ctx_s ctx)) (linefeed_view (ctx_s ctx))) w (linefeed_cy (ctx_s ctx))
               [tty_cmd_linefeed, tty_cmd_cell])"
proof (rule returns_mono [OF screen_write_cell_inserted [OF assms(1-4)]], elim exE conjE)
  let ?w = "char_width gc ud"
  fix ctx' ctx1 ctx2 ins
  assume "\<not> ins \<longrightarrow> ctx1 = ctx" "ins = (has_flag (scr_mode (ctx_s ctx)) MODE_INSERT \<and> ctx_cx ctx + ?w \<le> ctx_sx ctx)"
    and 2: "if ctx_cx ctx + ?w \<le> ctx_sx ctx then ctx2 = ctx1
      else wrote ctx1 (linefeed_view (ctx_s ctx1)) 0 (linefeed_cy (ctx_s ctx1)) [tty_cmd_linefeed] ctx2"
    and w: "wrote ctx2 (char_view (ctx_gd ctx2) (ctx_cx ctx2) (ctx_cy ctx2) ?w (gc, char_utf8 gc ud))
      (ctx_cx ctx2 + ?w) (ctx_cy ctx2) ((if ins then [tty_cmd_insertcharacter] else []) @ [tty_cmd_cell]) ctx'"
  then have ins: "\<not> ins" "ctx1 = ctx" using assms(5) by auto
  show "(let w = ?w; put = (\<lambda>cx cy. put_char cx cy w (gc, char_utf8 gc ud))
     in if ctx_cx ctx + w \<le> ctx_sx ctx
        then wrote ctx (put (ctx_cx ctx) (ctx_cy ctx) (ctx_glyph ctx)) (ctx_cx ctx + w) (ctx_cy ctx) [tty_cmd_cell]
        else wrote ctx (put 0 (linefeed_cy (ctx_s ctx)) (linefeed_view (ctx_s ctx))) w (linefeed_cy (ctx_s ctx))
               [tty_cmd_linefeed, tty_cmd_cell]) ctx'"
  proof (cases "ctx_cx ctx + ?w \<le> ctx_sx ctx")
    case True
    then have "ctx2 = ctx" using 2 ins by simp
    with w ins True assms(4) show ?thesis
      by (auto simp: Let_def char_view_put_char [of _ "ctx_glyph ctx"] elim!: wrote_cong)
  next
    case False
    then have 1: "wrote ctx (linefeed_view (ctx_s ctx)) 0 (linefeed_cy (ctx_s ctx)) [tty_cmd_linefeed] ctx2"
      using 2 ins by simp
    note s = wrote_screen [OF 1]
    have "wrote ctx2 (put_char 0 (linefeed_cy (ctx_s ctx)) ?w (gc, char_utf8 gc ud) (linefeed_view (ctx_s ctx)))
        ?w (linefeed_cy (ctx_s ctx)) [tty_cmd_cell] ctx'"
      using w ins s ctx_safe_bounds(1) [OF assms(1)]
      by (auto simp: char_view_put_char [of _ "linefeed_view (ctx_s ctx)"] elim!: wrote_cong)
    from wrote_trans [OF 1 this] show ?thesis using False by (simp add: Let_def)
  qed
qed

theorem screen_write_cell_spec_witness:
  "\<exists>ctx. ctx_safe ctx \<and> returns (screen_write_cell ctx (grid_default_cell\<lparr>gc_data := 0x41\<rparr>) None) ctx_safe"
proof -
  let ?gc = "grid_default_cell\<lparr>gc_data := 0x41\<rparr>"
  obtain s where s: "screen_init None 80 24 2000 = Some s" "screen_safe s"
    using screen_init_safe [of 80 24 2000 None] by (auto simp: returns_eq)
  have gc: "char_ok ?gc None" "\<not> is_padding ?gc" "0 < char_width ?gc None"
    by (simp_all add: char_ok_def char_width_def is_utf8_def is_padding_def grid_default_cell_def)
  define ctx where "ctx = screen_write_insertmode (screen_write_start None s) False"
  have "ctx_safe (screen_write_start None s)" using s(2) by (simp add: ctx_safe_def screen_write_start_def)
  from ctx_nextD [OF screen_write_modes_next(2) [OF this]] have safe: "ctx_safe ctx" unfolding ctx_def .
  have "\<not> has_flag (scr_mode (ctx_s ctx)) MODE_INSERT"
    by (simp add: ctx_def screen_write_insertmode_def screen_write_mode_def Let_def del: One_nat_def)
  from screen_write_cell_spec [OF safe gc this] have "returns (screen_write_cell ctx ?gc None) ctx_safe"
    by (auto simp: Let_def wrote_def split: if_splits elim!: returns_mono)
  then show ?thesis using safe by blast
qed



text \<open>
  C9. A line feed moves the cursor down, or scrolls the region up when the cursor is on its last row; a reverse
  index moves it up, or scrolls the region down on its first row. Inside the scroll region, inserting and
  deleting lines shifts the rows between the cursor and the bottom of the region and blanks the freed ones,
  at most as many as there are; the rows outside do not change.
\<close>

theorem screen_write_lines_spec:
  assumes "ctx_safe ctx" and "in_region (ctx_s ctx)"
  defines "cx \<equiv> ctx_cx ctx" and "cy \<equiv> ctx_cy ctx" and "s \<equiv> ctx_s ctx" and "F \<equiv> ctx_glyph ctx"
  shows "returns (screen_write_linefeed ctx wrapped)
      (if cy = scr_rlower s then wrote ctx (scrolled_up s) cx cy [tty_cmd_linefeed]
       else wrote ctx F cx (cy + 1) [tty_cmd_linefeed]) \<and>
    returns (screen_write_reverseindex ctx)
      (if cy = scr_rupper s then wrote ctx (scrolled_down s) cx cy [tty_cmd_reverseindex]
       else wrote ctx F cx (cy - 1) [tty_cmd_reverseindex]) \<and>
    returns (screen_write_insertline ctx ny) (wrote ctx
      (\<lambda>x y. let e = scr_rlower s + 1; n = min (max 1 ny) (e - cy) in
         if y < cy \<or> e \<le> y then F x y else if y < cy + n then blank else F x (y - n)) cx cy [tty_cmd_insertline]) \<and>
    returns (screen_write_deleteline ctx ny) (wrote ctx
      (\<lambda>x y. let e = scr_rlower s + 1; n = min (max 1 ny) (e - cy) in
         if y < cy \<or> e \<le> y then F x y else if y + n < e then F x (y + n) else blank) cx cy [tty_cmd_deleteline])"
proof (intro conjI)
  have "linefeed_cy s = (if cy = scr_rlower s then cy else cy + 1)"
    using assms(2) ctx_safe_bounds(6,8) [OF assms(1)] by (auto simp: linefeed_cy_def s_def cy_def in_region_def)
  then show "returns (screen_write_linefeed ctx wrapped) (if cy = scr_rlower s
      then wrote ctx (scrolled_up s) cx cy [tty_cmd_linefeed] else wrote ctx F cx (cy + 1) [tty_cmd_linefeed])"
    using screen_write_linefeed_wrote [OF assms(1), of wrapped]
    by (simp add: linefeed_view_def s_def cx_def cy_def F_def split: if_splits)
  show "returns (screen_write_reverseindex ctx) (if cy = scr_rupper s
      then wrote ctx (scrolled_down s) cx cy [tty_cmd_reverseindex]
      else wrote ctx F cx (cy - 1) [tty_cmd_reverseindex])"
    using screen_write_reverseindex_wrote [OF assms(1)] by (simp add: s_def cx_def cy_def F_def split: if_splits)
  have "lines_end (ctx_s ctx) = scr_rlower (ctx_s ctx) + 1" using assms(2) by (simp add: lines_end_def)
  note lines = screen_write_insertline_wrote [OF assms(1,2), of ny] screen_write_deleteline_wrote [OF assms(1), of ny, unfolded this]
  then show "returns (screen_write_insertline ctx ny) (wrote ctx
      (\<lambda>x y. let e = scr_rlower s + 1; n = min (max 1 ny) (e - cy) in
         if y < cy \<or> e \<le> y then F x y else if y < cy + n then blank else F x (y - n)) cx cy [tty_cmd_insertline])"
    unfolding s_def cx_def cy_def F_def by blast
  show "returns (screen_write_deleteline ctx ny) (wrote ctx
      (\<lambda>x y. let e = scr_rlower s + 1; n = min (max 1 ny) (e - cy) in
         if y < cy \<or> e \<le> y then F x y else if y + n < e then F x (y + n) else blank) cx cy [tty_cmd_deleteline])"
    using lines unfolding s_def cx_def cy_def F_def by blast
qed

theorem screen_write_lines_spec_witness:
  "\<exists>ctx. ctx_safe ctx \<and> in_region (ctx_s ctx) \<and> returns (screen_write_deleteline ctx 1) ctx_safe"
proof -
  obtain s where s: "screen_init None 80 24 2000 = Some s" "screen_safe s" "screen_size_y s = 24"
    using screen_init_safe [of 80 24 2000 None] by (auto simp: returns_eq)
  define ctx where "ctx = screen_write_scrollregion (screen_write_start None s) 0 10"
  have 0: "ctx_safe (screen_write_start None s)" using s(2) by (simp add: ctx_safe_def screen_write_start_def)
  from ctx_nextD [OF screen_write_scrollregion_next [OF this]] have safe: "ctx_safe ctx" unfolding ctx_def .
  have "in_region (ctx_s ctx)"
    using s(3) by (simp add: ctx_def screen_write_scrollregion_def screen_write_start_def Let_def in_region_def)
  from screen_write_lines_spec [OF safe this, of False 1] this safe show ?thesis
    by (auto simp: wrote_def elim!: returns_mono)
qed

text \<open>
  C36. The cursor moves stop at the scroll region or at the edge of the screen, and \<open>screen_write_cursormove\<close>
  always lands on the screen. But when the cursor is behind the last column, where a full row leaves it,
  \<open>screen_write_cursorright\<close> moves it off the screen by as much as it is told to.
\<close>

theorem screen_write_cursor_spec:
  assumes "ctx_safe ctx"
  defines "s \<equiv> ctx_s ctx" and "at \<equiv> (\<lambda>cx cy. wrote ctx (ctx_glyph ctx) cx cy [])"
  shows "at (scr_cx s) (if scr_cy s < scr_rupper s then scr_cy s - max 1 n else max (scr_rupper s) (scr_cy s - max 1 n))
      (screen_write_cursorup ctx n) \<and>
    at (scr_cx s) (if scr_cy s > scr_rlower s then min (screen_size_y s - 1) (scr_cy s + max 1 n)
      else min (scr_rlower s) (scr_cy s + max 1 n)) (screen_write_cursordown ctx n) \<and>
    at (scr_cx s - max 1 n) (scr_cy s) (screen_write_cursorleft ctx n) \<and>
    at (min px (screen_size_x s - 1)) (min py (screen_size_y s - 1)) (screen_write_cursormove ctx px py) \<and>
    (scr_cx s < screen_size_x s \<longrightarrow>
      at (min (screen_size_x s - 1) (scr_cx s + max 1 n)) (scr_cy s) (screen_write_cursorright ctx n)) \<and>
    (scr_cx s = screen_size_x s \<and> n \<le> 1000000 \<longrightarrow>
      at (screen_size_x s + max 1 n) (scr_cy s) (screen_write_cursorright ctx n))"
proof -
  have "scr_cx s = screen_size_x s \<and> n \<le> 1000000 \<longrightarrow>
      at (screen_size_x s + max 1 n) (scr_cy s) (screen_write_cursorright ctx n)"
  proof (intro impI, elim conjE)
    assume a: "scr_cx s = screen_size_x s" "n \<le> 1000000"
    have "screen_size_x s \<le> DIM_MAX" using ctx_safe_bounds(3) [OF assms(1)] by (simp add: s_def)
    then have "u_add (scr_cx s) (min (max 1 n) (UINT_MOD + screen_size_x s - 1 - scr_cx s)) = screen_size_x s + max 1 n"
      using a by simp
    then show "at (screen_size_x s + max 1 n) (scr_cy s) (screen_write_cursorright ctx n)"
      using screen_write_cursorright_wrote [OF assms(1), of n] a(1) by (simp add: s_def at_def)
  qed
  then show ?thesis
    using screen_write_cursorup_wrote [OF assms(1), of n] screen_write_cursordown_wrote [OF assms(1), of n]
      screen_write_cursorleft_wrote [OF assms(1), of n] screen_write_cursormove_wrote [OF assms(1), of px py]
      screen_write_cursorright_wrote [OF assms(1), of n]
    unfolding s_def at_def by (intro conjI impI) (simp_all only: if_True)
qed

theorem screen_write_cursor_spec_witness:
  "\<exists>ctx. ctx_safe ctx \<and> ctx_sx ctx = 80 \<and> ctx_cx (screen_write_cursormove ctx 200 3) = 79"
proof -
  obtain ctx where ctx: "ctx_safe ctx" "ctx_sx ctx = 80" "ctx_sy ctx = 24" by (rule fresh_ctx)
  then show ?thesis using screen_write_cursor_spec [OF ctx(1), of 0 200 3] by (auto simp: wrote_def)
qed



end
