(* ===== verification/Input_Facts.thy ===== *)
theory Input_Facts
  imports Input_Parse Screen_Write_Props
begin

text \<open>
  The invariant of a pane (\<open>pane_core\<close>, \<open>pane_ok\<close>) and the lemmas that every handler of the parser keeps
  it and does not die. The two places where the code can die are the hypotheses of their lemmas: the
  backward tab with the cursor behind the screen, and the switch to the alternate screen when a visible
  line is stale.
\<close>

unbundle bit_operations_syntax

section \<open>Tables\<close>

abbreviation all_states :: "input_state list" where
  "all_states \<equiv> [input_state_ground, input_state_esc_enter, input_state_esc_intermediate, input_state_csi_enter,
     input_state_csi_parameter, input_state_csi_intermediate, input_state_csi_ignore, input_state_dcs_enter,
     input_state_dcs_parameter, input_state_dcs_intermediate, input_state_dcs_handler, input_state_dcs_escape,
     input_state_dcs_ignore, input_state_osc_string, input_state_apc_string, input_state_rename_string,
     input_state_consume_st, input_state_utf8_three, input_state_utf8_two, input_state_utf8_one]"

lemma all_states: "st \<in> set all_states"
  by (cases st) simp_all

lemmas input_table_defs = INPUT_STATE_ANYWHERE_def c0_rows_def input_state_ground_table_def
  input_state_esc_enter_table_def input_state_esc_intermediate_table_def input_state_csi_enter_table_def
  input_state_csi_parameter_table_def input_state_csi_intermediate_table_def input_state_csi_ignore_table_def
  input_state_dcs_enter_table_def input_state_dcs_parameter_table_def input_state_dcs_intermediate_table_def
  input_state_dcs_handler_table_def input_state_dcs_escape_table_def input_state_dcs_ignore_table_def
  input_state_osc_string_table_def input_state_apc_string_table_def input_state_rename_string_table_def
  input_state_consume_st_table_def input_state_utf8_three_table_def input_state_utf8_two_table_def
  input_state_utf8_one_table_def

text \<open>The rows of a table cover all bytes: some row ends right before every row that does not start at 0.\<close>

definition row_chain :: "input_transition list \<Rightarrow> bool" where
  "row_chain rows \<longleftrightarrow> (\<exists>r \<in> set rows. it_first r = 0) \<and>
     (\<forall>r \<in> set rows. it_first r \<le> it_last r \<and> (it_last r \<noteq> 0xff \<longrightarrow> (\<exists>q \<in> set rows. it_first q = it_last r + 1)))"

lemma row_chain_covers:
  assumes "row_chain rows"
  shows "\<exists>r \<in> set rows. it_first r \<le> ch \<and> ch \<le> it_last r"
proof (induction "unat ch" arbitrary: ch)
  case 0
  then have "ch = 0" by (simp add: unat_eq_0)
  obtain r where "r \<in> set rows" "it_first r = 0" using assms by (auto simp: row_chain_def)
  then show ?case using \<open>ch = 0\<close> by (intro bexI [of _ r]) auto
next
  case (Suc n)
  have ch: "ch \<noteq> 0" using Suc.hyps(2) by auto
  then have "n = unat (ch - 1)" using Suc.hyps(2) by (simp add: unat_minus_one)
  then obtain r where r: "r \<in> set rows" "it_first r \<le> ch - 1" "ch - 1 \<le> it_last r" using Suc.hyps(1) by blast
  show ?case
  proof (cases "ch \<le> it_last r")
    case True
    have "it_first r \<le> ch" using r(2) ch by (simp add: word_le_nat_alt unat_minus_one)
    then show ?thesis using True r(1) by blast
  next
    case False
    then have last: "it_last r = ch - 1" using r(3) ch
      by (simp add: word_le_nat_alt word_less_nat_alt unat_minus_one word_unat_eq_iff)
    then have "it_last r \<noteq> 0xff" using ch by auto
    then obtain q where "q \<in> set rows" "it_first q = it_last r + 1" using assms r(1) by (auto simp: row_chain_def)
    moreover from this have "it_first q \<le> it_last q" using assms by (auto simp: row_chain_def)
    ultimately show ?thesis using last by (intro bexI [of _ q]) auto
  qed
qed

lemma tables_chain: "row_chain (input_transitions st)"
  by (cases st) (simp_all add: row_chain_def input_table_defs)

lemma input_find_transition_returns:
  "returns (input_find_transition st ch) (\<lambda>itr. itr \<in> set (input_transitions st) \<and> it_first itr \<le> ch \<and> ch \<le> it_last itr)"
proof -
  obtain r where "r \<in> set (input_transitions st)" "it_first r \<le> ch \<and> ch \<le> it_last r"
    using row_chain_covers [OF tables_chain, of st ch] by blast
  then have "input_find_transition st ch \<noteq> None" by (auto simp: input_find_transition_def find_None_iff)
  then show ?thesis unfolding returns_eq input_find_transition_def
    by (auto simp: find_Some_iff)
qed

text \<open>How many bytes of a UTF-8 character are missing in a state.\<close>

fun utf8_pending :: "input_state \<Rightarrow> nat" where
  "utf8_pending input_state_utf8_three = 3"
| "utf8_pending input_state_utf8_two = 2"
| "utf8_pending input_state_utf8_one = 1"
| "utf8_pending _ = 0"

definition transition_ok :: "input_state \<Rightarrow> input_transition \<Rightarrow> bool" where
  "transition_ok st itr \<longleftrightarrow> (case it_handler itr of
       Some H_utf8_open \<Rightarrow> utf8_pending st = 0 \<and> 0xc2 \<le> it_first itr \<and>
         (it_state itr = Some input_state_utf8_one \<and> it_last itr \<le> 0xdf \<or>
          it_state itr = Some input_state_utf8_two \<and> 0xe0 \<le> it_first itr \<and> it_last itr \<le> 0xef \<or>
          it_state itr = Some input_state_utf8_three \<and> 0xf0 \<le> it_first itr \<and> it_last itr \<le> 0xf4)
     | Some H_utf8_add \<Rightarrow> utf8_pending st = 2 \<and> it_state itr = Some input_state_utf8_one \<or>
         utf8_pending st = 3 \<and> it_state itr = Some input_state_utf8_two
     | Some H_utf8_close \<Rightarrow> utf8_pending st = 1 \<and> it_state itr = to_ground
     | Some H_csi_dispatch \<Rightarrow> st \<in> {input_state_csi_enter, input_state_csi_parameter, input_state_csi_intermediate} \<and>
         it_state itr = to_ground
     | _ \<Rightarrow> (case it_state itr of None \<Rightarrow> utf8_pending st = 0 | Some st' \<Rightarrow> utf8_pending st' = 0))"

lemma tables_ok: "itr \<in> set (input_transitions st) \<Longrightarrow> transition_ok st itr"
  by (cases st) (auto simp: transition_ok_def input_table_defs)

section \<open>The invariant of a pane\<close>

definition input_options :: "string list" where
  "input_options = [''utf8'', ''allow-rename'', ''alternate-screen'', ''c0-change-trigger'']"

definition options_ok :: "options \<Rightarrow> bool" where
  "options_ok oo \<longleftrightarrow> (\<forall>name \<in> set input_options. options_get_number oo name \<noteq> None)"

definition ictx_ok :: "input_ctx \<Rightarrow> bool" where
  "ictx_ok ic \<longleftrightarrow> \<not> is_utf8 (ic_cell ic) \<and> \<not> is_utf8 (ic_old_cell ic) \<and>
     length (ic_interm_buf ic) \<le> 3 \<and> length (ic_param_buf ic) \<le> 63 \<and> length (ic_input_buf ic) \<le> 255"

text \<open>The screen saved for the alternate screen has the size of the pane's screen.\<close>

definition saved_ok :: "grid \<Rightarrow> grid option \<Rightarrow> bool" where
  "saved_ok gd sg \<longleftrightarrow> (\<forall>saved. sg = Some saved \<longrightarrow> grid_ok saved \<and> gd_hsize saved = 0 \<and>
     gd_sx saved = gd_sx gd \<and> gd_sy saved = gd_sy gd \<and> rows_live (gd_sx gd) (gd_sy gd) (grid_glyph saved) \<and>
     (\<forall>y < gd_sy gd. \<not> line_stale (gd_linedata saved ! y)))"

definition pane_core :: "window_pane \<Rightarrow> bool" where
  "pane_core wp \<longleftrightarrow> screen_safe (wp_base wp) \<and> 0 < gd_hlimit (scr_grid (wp_base wp)) \<and>
     grid_total (scr_grid (wp_base wp)) \<le> gd_hlimit (scr_grid (wp_base wp)) + DIM_MAX \<and>
     saved_ok (scr_grid (wp_base wp)) (wp_saved_grid wp) \<and> ictx_ok (wp_ictx wp) \<and> \<not> is_utf8 (wp_saved_cell wp) \<and>
     options_ok (w_options (wp_window wp))"

definition utf8_state_ok :: "input_ctx \<Rightarrow> bool" where
  "utf8_state_ok ic \<longleftrightarrow> (let k = utf8_pending (ic_state ic); ud = ic_utf8data ic in
     0 < k \<longrightarrow> utf8_data_ok ud \<and> 0 < ud_have ud \<and> ud_have ud + k = ud_size ud)"

definition pane_ok :: "window_pane \<Rightarrow> bool" where
  "pane_ok wp \<longleftrightarrow> pane_core wp \<and> utf8_state_ok (wp_ictx wp)"

text \<open>What the parser keeps of a pane.\<close>

definition pane_keep :: "window_pane \<Rightarrow> window_pane \<Rightarrow> bool" where
  "pane_keep wp wp' \<longleftrightarrow> wp_id wp' = wp_id wp \<and> wp_sx wp' = wp_sx wp \<and> wp_sy wp' = wp_sy wp \<and>
     wp_mode wp' = wp_mode wp \<and>
     screen_size_x (wp_base wp') = screen_size_x (wp_base wp) \<and>
     screen_size_y (wp_base wp') = screen_size_y (wp_base wp) \<and>
     gd_hlimit (scr_grid (wp_base wp')) = gd_hlimit (scr_grid (wp_base wp)) \<and>
     (\<exists>out. wp_tty wp' = wp_tty wp @ out) \<and> (\<exists>out. wp_reply wp' = wp_reply wp @ out)"

lemma pane_keep_refl [simp]: "pane_keep wp wp"
  by (simp add: pane_keep_def)

lemma pane_keep_trans: "pane_keep a b \<Longrightarrow> pane_keep b c \<Longrightarrow> pane_keep a c"
  by (auto simp: pane_keep_def)

text \<open>A handler that does not touch the state of the parser or its UTF-8 character.\<close>

definition pane_step :: "window_pane \<Rightarrow> window_pane \<Rightarrow> bool" where
  "pane_step wp wp' \<longleftrightarrow> pane_core wp' \<and> pane_keep wp wp' \<and> ic_state (wp_ictx wp') = ic_state (wp_ictx wp) \<and>
     ic_utf8data (wp_ictx wp') = ic_utf8data (wp_ictx wp)"

lemma pane_step_refl: "pane_core wp \<Longrightarrow> pane_step wp wp"
  by (simp add: pane_step_def)

lemma pane_step_trans: "pane_step a b \<Longrightarrow> pane_step b c \<Longrightarrow> pane_step a c"
  by (auto simp: pane_step_def intro: pane_keep_trans)

lemma pane_stepD: "pane_step a b \<Longrightarrow> pane_core b"
  by (simp add: pane_step_def)

lemma pane_step_bind:
  assumes "returns m (pane_step wp)" and "\<And>wp'. pane_step wp wp' \<Longrightarrow> returns (f wp') (pane_step wp')"
  shows "returns (m \<bind> f) (pane_step wp)"
  using assms(1) unfolding returns_bind
  by (rule returns_mono) (use assms(2) in \<open>blast intro: returns_mono pane_step_trans\<close>)

lemma pane_core_option:
  assumes "pane_core wp" and "name \<in> set input_options"
  obtains n where "options_get_number (w_options (wp_window wp)) name = Some n"
  using assms by (auto simp: pane_core_def options_ok_def)

lemma pane_option_bool:
  assumes "pane_core wp" and "name \<in> set input_options"
  obtains b where "options_get_bool (w_options (wp_window wp)) name = Some b"
  using pane_core_option [OF assms] by (force simp: options_get_bool_def)

lemma pane_option_u_int:
  assumes "pane_core wp" and "name \<in> set input_options"
  obtains n where "options_get_u_int (w_options (wp_window wp)) name = Some n"
  using pane_core_option [OF assms] by (force simp: options_get_u_int_def)

text \<open>Updates of single parts.\<close>

lemma pane_core_ictx:
  "pane_core wp \<Longrightarrow> ictx_ok (f (wp_ictx wp)) \<Longrightarrow> pane_core (upd_ictx f wp)"
  by (simp add: pane_core_def upd_ictx_def)

lemma pane_step_ictx:
  "pane_core wp \<Longrightarrow> ictx_ok (f (wp_ictx wp)) \<Longrightarrow> ic_state (f (wp_ictx wp)) = ic_state (wp_ictx wp) \<Longrightarrow>
   ic_utf8data (f (wp_ictx wp)) = ic_utf8data (wp_ictx wp) \<Longrightarrow> pane_step wp (upd_ictx f wp)"
  by (simp add: pane_step_def pane_core_ictx) (simp add: upd_ictx_def pane_keep_def)

lemma pane_step_window:
  "pane_core wp \<Longrightarrow> options_ok (w_options (f (wp_window wp))) \<Longrightarrow> pane_step wp (upd_window f wp)"
  by (simp add: pane_step_def pane_core_def upd_window_def pane_keep_def)

lemma pane_core_options: "pane_core wp \<Longrightarrow> options_ok (w_options (wp_window wp))"
  by (simp add: pane_core_def)

text \<open>A change of the screen that keeps its grid.\<close>

lemma pane_step_base:
  assumes "pane_core wp" and "screen_safe s" and "scr_grid s = scr_grid (wp_base wp)"
  shows "pane_step wp (wp\<lparr>wp_base := s\<rparr>)"
  using assms by (simp add: pane_step_def pane_core_def pane_keep_def)

lemma pane_step_upd_base:
  "pane_core wp \<Longrightarrow> screen_safe (f (wp_base wp)) \<Longrightarrow> scr_grid (f (wp_base wp)) = scr_grid (wp_base wp) \<Longrightarrow>
   pane_step wp (upd_base f wp)"
  unfolding upd_base_def by (rule pane_step_base)

lemma on_base_step:
  assumes "pane_core wp"
    and "returns (f (wp_base wp)) (\<lambda>s. screen_safe s \<and> scr_grid s = scr_grid (wp_base wp))"
  shows "returns (on_base f wp) (pane_step wp)"
  unfolding on_base_def returns_bind
  by (rule returns_mono [OF assms(2)]) (simp add: pane_step_base assms(1))

text \<open>A writer.\<close>

lemma saved_ok_size:
  "saved_ok gd sg \<Longrightarrow> gd_sx gd' = gd_sx gd \<Longrightarrow> gd_sy gd' = gd_sy gd \<Longrightarrow> saved_ok gd' sg"
  by (auto simp: saved_ok_def)

lemma total_keep:
  assumes "grid_total gd \<le> gd_hlimit gd + DIM_MAX" and "grid_keep gd gd'" and "grid_ok gd'"
  shows "grid_total gd' \<le> gd_hlimit gd' + DIM_MAX"
  using assms by (auto simp: grid_keep_def grid_ok_def)

abbreviation pane_ctx :: "window_pane \<Rightarrow> screen_write_ctx" where
  "pane_ctx wp \<equiv> \<lparr>ctx_wp = (if wp_mode wp then None else Some (wp_id wp)), ctx_s = wp_base wp, ctx_out = wp_tty wp\<rparr>"

lemma pane_ctx_safe: "pane_core wp \<Longrightarrow> ctx_safe (pane_ctx wp)"
  by (simp add: pane_core_def ctx_safe_def)

lemma on_ctx_step:
  assumes core: "pane_core wp" and f: "ctx_safe (pane_ctx wp) \<Longrightarrow> returns (f (pane_ctx wp)) (ctx_next (pane_ctx wp))"
  shows "returns (on_ctx f wp) (pane_step wp)"
  unfolding on_ctx_def returns_bind
proof (rule returns_mono [OF f [OF pane_ctx_safe [OF core]]])
  fix ctx assume n: "ctx_next (pane_ctx wp) ctx"
  then have k: "grid_keep (scr_grid (wp_base wp)) (scr_grid (ctx_s ctx))" "screen_safe (ctx_s ctx)"
    "\<exists>out. ctx_out ctx = wp_tty wp @ out"
    by (simp_all add: ctx_next_def ctx_keep_def ctx_safe_def)
  have "grid_ok (scr_grid (ctx_s ctx))" using ctx_safe_bounds(10) [OF ctx_nextD [OF n]] .
  then have "grid_total (scr_grid (ctx_s ctx)) \<le> gd_hlimit (scr_grid (ctx_s ctx)) + DIM_MAX"
    by (intro total_keep [OF _ k(1)]) (use core in \<open>simp_all add: pane_core_def\<close>)
  moreover have "saved_ok (scr_grid (ctx_s ctx)) (wp_saved_grid wp)"
    by (rule saved_ok_size [of "scr_grid (wp_base wp)"]) (use core k(1) in \<open>auto simp: pane_core_def grid_keep_def\<close>)
  ultimately show "returns (Some (wp\<lparr>wp_base := ctx_s ctx, wp_tty := ctx_out ctx\<rparr>)) (pane_step wp)"
    using core k by (auto simp: pane_step_def pane_core_def pane_keep_def grid_keep_def)
qed

lemma on_ctx_total: "pane_core wp \<Longrightarrow> (\<And>ctx. ctx_safe ctx \<Longrightarrow> ctx_next ctx (f ctx)) \<Longrightarrow>
  returns (on_ctx (\<lambda>ctx. Some (f ctx)) wp) (pane_step wp)"
  by (rule on_ctx_step) simp_all

end
