(* ===== verification/Input_Handlers.thy ===== *)
theory Input_Handlers
  imports Input_Facts
begin

text \<open>
  Every handler of the parser keeps the pane's invariant (\<open>pane_step\<close>), with the two exceptions.
\<close>

unbundle bit_operations_syntax

section \<open>Tabs\<close>

lemma pane_tabs:
  assumes "screen_safe s"
  shows "screen_size_x s \<le> length (scr_tabs s)" "screen_size_x s \<le> DIM_MAX" "2 \<le> screen_size_x s"
  using assms bitstr_size_ge [of "screen_size_x s"] screen_ok_bounds(3) [of s]
  by (auto simp: screen_safe_def screen_ok_def)

lemma screen_safe_cx: "screen_safe s \<Longrightarrow> cx < UINT_MOD \<Longrightarrow> screen_safe (s\<lparr>scr_cx := cx\<rparr>)"
  by (simp add: screen_safe_def screen_ok_def)

lemma screen_safe_tabs:
  "screen_safe s \<Longrightarrow> length tabs = length (scr_tabs s) \<Longrightarrow> screen_safe (s\<lparr>scr_tabs := tabs\<rparr>)"
  by (simp add: screen_safe_def screen_ok_def)

lemma tab_right_returns:
  assumes "cx < sx - 1" and "sx \<le> length tabs"
  shows "returns (tab_right tabs sx cx) (\<lambda>cx'. cx < cx' \<and> cx' < sx)"
  using assms
proof (induction tabs sx cx rule: tab_right.induct)
  case (1 tabs sx cx)
  have g: "get_at tabs (cx + 1) = Some (tabs ! (cx + 1))" using 1 by simp
  show ?case
  proof (cases "tabs ! (cx + 1) \<or> \<not> cx + 1 < sx - 1")
    case True
    then show ?thesis using 1 by (subst tab_right.simps) (auto simp: Let_def)
  next
    case False
    have "returns (tab_right tabs sx (cx + 1)) (\<lambda>cx'. cx + 1 < cx' \<and> cx' < sx)"
      using 1(1) [OF refl g] False 1(3) by auto
    then show ?thesis using False g
      by (subst tab_right.simps) (auto simp: Let_def elim!: returns_mono)
  qed
qed

lemma input_tab_returns:
  assumes "screen_safe s"
  shows "returns (input_tab s) (\<lambda>s'. screen_safe s' \<and> scr_grid s' = scr_grid s)"
proof (cases "scr_cx s \<ge> u_sub (screen_size_x s) 1")
  case True
  then show ?thesis using assms by (simp add: input_tab_def)
next
  case False
  note b = pane_tabs [OF assms]
  have "u_sub (screen_size_x s) 1 = screen_size_x s - 1" using b by simp
  then have cx: "scr_cx s < screen_size_x s - 1" using False by simp
  have "returns (tab_right (scr_tabs s) (screen_size_x s) (scr_cx s)) (\<lambda>cx. cx < UINT_MOD)"
    by (rule returns_mono [OF tab_right_returns [OF cx b(1)]]) (use b in auto)
  then show ?thesis unfolding input_tab_def if_not_P [OF False] returns_bind
    by (rule returns_mono) (simp add: screen_safe_cx assms)
qed

text \<open>The backward tab reads no bit of the tab array behind the screen when the cursor is not behind it.\<close>

lemma tab_left_returns: "cx \<le> length tabs \<Longrightarrow> returns (tab_left tabs cx) (\<lambda>cx'. cx' \<le> cx)"
  by (induction cx) (auto elim!: returns_mono)

lemma tab_back_returns: "cx \<le> length tabs \<Longrightarrow> returns (tab_back tabs n cx) (\<lambda>cx'. cx' \<le> cx)"
proof (induction tabs n cx rule: tab_back.induct)
  case (2 tabs n cx)
  obtain cx' where "tab_left tabs cx = Some cx'" "cx' \<le> cx"
    using tab_left_returns [OF 2(2)] by (auto simp: returns_eq)
  moreover have "0 < cx \<Longrightarrow> returns (tab_back tabs n cx') (\<lambda>cx''. cx'' \<le> cx')"
    using 2 calculation by auto
  ultimately show ?case by (auto elim!: returns_mono)
qed simp

lemma input_cbt_returns:
  assumes "screen_safe s" and "scr_cx s \<le> screen_size_x s"
  shows "returns (input_cbt n s) (\<lambda>s'. screen_safe s' \<and> scr_grid s' = scr_grid s)"
proof -
  note b = pane_tabs [OF assms(1)]
  have "scr_cx s \<le> length (scr_tabs s)" using assms(2) b(1) by simp
  then have "returns (tab_back (scr_tabs s) n (scr_cx s)) (\<lambda>cx. cx < UINT_MOD)"
    by (rule returns_mono [OF tab_back_returns]) (use assms(2) b(2) in auto)
  then show ?thesis unfolding input_cbt_def returns_bind
    by (rule returns_mono) (simp add: screen_safe_cx assms(1))
qed

lemma set_tab_returns:
  assumes "screen_safe s"
  shows "returns (if scr_cx s < screen_size_x s then put_at (scr_cx s) v (scr_tabs s) \<bind>
      (\<lambda>tabs. Some (s\<lparr>scr_tabs := tabs\<rparr>)) else Some s) (\<lambda>s'. screen_safe s' \<and> scr_grid s' = scr_grid s)"
  using assms pane_tabs(1) [OF assms] by (simp add: screen_safe_tabs)

lemma input_csi_dispatch_tbc_returns:
  assumes "screen_safe s"
  shows "returns (input_csi_dispatch_tbc params s) (\<lambda>s'. screen_safe s' \<and> scr_grid s' = scr_grid s)"
proof -
  note b = pane_tabs [OF assms]
  have "u_sub (screen_size_x s) 1 + 1 = screen_size_x s" using b by simp
  then have "for_upto 0 (u_sub (screen_size_x s) 1 + 1) (\<lambda>i. put_at i False) (scr_tabs s) =
      Some (fill_list 0 (screen_size_x s) False (scr_tabs s))"
    using for_upto_put_at [OF b(1)] by simp
  then show ?thesis using assms set_tab_returns [OF assms, of False]
    unfolding input_csi_dispatch_tbc_def Let_def by (simp add: screen_safe_tabs)
qed

section \<open>Control characters and escape sequences\<close>

lemma count_c0_step:
  assumes "pane_core wp"
  shows "returns (count_c0 wp) (pane_step wp)"
proof -
  obtain n where "options_get_u_int (w_options (wp_window wp)) ''c0-change-trigger'' = Some n"
    using pane_option_u_int [OF assms, of "''c0-change-trigger''"] by (auto simp: input_options_def)
  then show ?thesis using assms
    by (simp add: count_c0_def Let_def window_pane_timer_start_def pane_step_def pane_core_def pane_keep_def)
qed

lemma then_count_c0:
  assumes "returns m (pane_step wp)"
  shows "returns (m \<bind> count_c0) (pane_step wp)"
  using assms by (rule pane_step_bind) (use count_c0_step pane_stepD in blast)

lemma ictx_ok_core: "pane_core wp \<Longrightarrow> ictx_ok (wp_ictx wp)"
  by (simp add: pane_core_def)

lemma cell_attr_step: "pane_core wp \<Longrightarrow> pane_step wp (upd_ictx (cell_attr f) wp)"
  by (rule pane_step_ictx)
     (auto simp: cell_attr_def ictx_ok_def is_utf8_def dest: ictx_ok_core)

lemma input_c0_dispatch_step:
  assumes core: "pane_core wp"
  shows "returns (input_c0_dispatch wp) (pane_step wp)"
proof -
  have bell: "pane_step wp (upd_window (\<lambda>w. w\<lparr>w_flags := set_flag (w_flags w) WINDOW_BELL\<rparr>) wp)"
    by (rule pane_step_window) (use core in \<open>simp_all add: pane_core_options\<close>)
  have bs: "returns (on_ctx screen_write_backspace wp \<bind> count_c0) (pane_step wp)"
    by (rule then_count_c0, rule on_ctx_step [OF core], rule screen_write_backspace_next)
  have ht: "returns (on_base input_tab wp) (pane_step wp)"
    by (rule on_base_step [OF core], rule input_tab_returns) (use core in \<open>simp add: pane_core_def\<close>)
  have lf: "returns (on_ctx (\<lambda>ctx. screen_write_linefeed ctx False) wp \<bind> count_c0) (pane_step wp)"
    by (rule then_count_c0, rule on_ctx_step [OF core], rule wrote_returns_next [OF screen_write_linefeed_wrote])
  have cr: "returns (on_ctx (\<lambda>ctx. Some (screen_write_carriagereturn ctx)) wp \<bind> count_c0) (pane_step wp)"
    by (rule then_count_c0, rule on_ctx_total [OF core], rule wrote_next [OF screen_write_carriagereturn_wrote])
  show ?thesis unfolding input_c0_dispatch_def Let_def
    using bell bs ht lf cr core by (simp add: cell_attr_step pane_step_refl)
qed

lemma save_cursor_step: "pane_core wp \<Longrightarrow> pane_step wp (save_cursor wp)"
  unfolding save_cursor_def by (rule pane_step_ictx) (auto simp: ictx_ok_def dest: ictx_ok_core)

lemma restore_cursor_step:
  assumes "pane_core wp"
  shows "returns (restore_cursor wp) (pane_step wp)"
proof -
  have 1: "pane_step wp (upd_ictx (\<lambda>ic. ic\<lparr>ic_cell := ic_old_cell ic\<rparr>) wp)"
    by (rule pane_step_ictx) (use assms in \<open>auto simp: ictx_ok_def dest: ictx_ok_core\<close>)
  show ?thesis unfolding restore_cursor_def Let_def
    by (rule returns_mono [OF on_ctx_total [OF pane_stepD [OF 1] wrote_next [OF screen_write_cursormove_wrote]]])
       (auto intro: pane_step_trans [OF 1])
qed

lemma default_not_utf8': "\<not> is_utf8 (grid_default_cell\<lparr>gc_attr := a\<rparr>)"
  by (simp add: is_utf8_def grid_default_cell_def)

lemma linefeed_after_return:
  assumes "ctx_safe ctx"
  shows "returns (screen_write_linefeed (screen_write_carriagereturn ctx) False) (ctx_next ctx)"
proof -
  note 1 = wrote_next [OF screen_write_carriagereturn_wrote [OF assms]]
  from wrote_returns_next [OF screen_write_linefeed_wrote [OF ctx_nextD [OF 1]]] show ?thesis
    by (rule returns_mono) (rule ctx_next_trans [OF 1])
qed

lemma input_esc_type_step:
  assumes core: "pane_core wp"
  shows "returns (input_esc_type ty wp) (pane_step wp)"
proof -
  define ris where "ris = upd_ictx (\<lambda>ic. ic\<lparr>ic_cell := grid_default_cell, ic_old_cell := grid_default_cell,
    ic_old_cx := 0, ic_old_cy := 0\<rparr>) wp"
  have 1: "pane_step wp ris" unfolding ris_def
    by (rule pane_step_ictx) (use core in \<open>auto simp: ictx_ok_def dest: ictx_ok_core\<close>)
  have "returns (on_ctx screen_write_reset ris) (pane_step ris)"
    by (rule on_ctx_step [OF pane_stepD [OF 1]])
       (auto intro: returns_mono [OF screen_write_reset_next])
  then have reset: "returns (on_ctx screen_write_reset ris) (pane_step wp)"
    by (rule returns_mono) (rule pane_step_trans [OF 1])
  have align: "returns (screen_write_alignmenttest ctx) (ctx_next ctx)" if "ctx_safe ctx" for ctx
    by (rule returns_mono [OF screen_write_alignmenttest_next [OF that]]) simp
  have tab: "returns (on_base (\<lambda>s. if scr_cx s < screen_size_x s then put_at (scr_cx s) True (scr_tabs s) \<bind>
      (\<lambda>tabs. Some (s\<lparr>scr_tabs := tabs\<rparr>)) else Some s) wp) (pane_step wp)"
    by (rule on_base_step [OF core], rule set_tab_returns) (use core in \<open>simp add: pane_core_def\<close>)
  have writers: "returns (on_ctx (\<lambda>ctx. screen_write_linefeed ctx False) wp) (pane_step wp)"
    "returns (on_ctx (\<lambda>ctx. screen_write_linefeed (screen_write_carriagereturn ctx) False) wp) (pane_step wp)"
    "returns (on_ctx screen_write_reverseindex wp) (pane_step wp)"
    "returns (on_ctx screen_write_alignmenttest wp) (pane_step wp)"
    "returns (on_ctx (\<lambda>ctx. Some (screen_write_kkeypadmode ctx b)) wp) (pane_step wp)" for b
    by (rule on_ctx_step [OF core] on_ctx_total [OF core], erule align linefeed_after_return screen_write_modes_next
        screen_write_linefeed_wrote [THEN wrote_returns_next] screen_write_reverseindex_wrote [THEN wrote_returns_next])+
  show ?thesis
    unfolding input_esc_type_def
    using reset tab writers restore_cursor_step [OF core] save_cursor_step [OF core] cell_attr_step [OF core]
      pane_step_refl [OF core]
    by (simp add: ris_def split: input_type.split)
qed

lemma input_esc_dispatch_step:
  assumes "pane_core wp"
  shows "returns (input_esc_dispatch wp) (pane_step wp)"
  using assms input_esc_type_step [OF assms]
  by (auto simp: input_esc_dispatch_def Let_def pane_step_refl split: option.split)

end
