(* ===== verification/Input_Csi.thy ===== *)
theory Input_Csi
  imports Input_Handlers
begin

text \<open>
  The control sequences, the alternate screen and the strings keep the pane's invariant.
\<close>

unbundle bit_operations_syntax

section \<open>The alternate screen\<close>

text \<open>A visible line that \<open>grid_duplicate_lines\<close> would copy with its array shared.\<close>

definition stale_view :: "grid \<Rightarrow> bool" where
  "stale_view gd \<longleftrightarrow> (\<exists>y < gd_sy gd. line_stale (gd_linedata gd ! (gd_hsize gd + y)))"

lemma screen_safe_flags:
  assumes "screen_safe s" and "view_ok (gd\<lparr>gd_flags := fl\<rparr>)" and "gd_sx gd = screen_size_x s" and "gd_sy gd = screen_size_y s"
    and "rows_live (gd_sx gd) (gd_sy gd) (view_glyph gd)"
  shows "screen_safe (s\<lparr>scr_grid := gd\<lparr>gd_flags := fl\<rparr>\<rparr>)"
proof -
  have "view_glyph (gd\<lparr>gd_flags := fl\<rparr>) = view_glyph gd"
    by (intro ext) (simp add: view_glyph_def grid_glyph_def)
  then show ?thesis using assms by (simp add: screen_safe_def screen_ok_def)
qed

lemma grid_ok_flags:
  "grid_ok gd \<Longrightarrow> grid_total gd \<le> gd_hlimit gd + DIM_MAX \<Longrightarrow> grid_ok (gd\<lparr>gd_flags := fl\<rparr>)"
  by (simp add: grid_ok_def)

lemma window_pane_alternate_on_step:
  assumes core: "pane_core wp" and "\<not> is_utf8 gc"
    and fresh: "wp_saved_grid wp = None \<Longrightarrow> \<not> stale_view (scr_grid (wp_base wp))"
  shows "returns (window_pane_alternate_on gc wp) (pane_step wp)"
proof -
  let ?s = "wp_base wp"
  let ?gd = "scr_grid ?s"
  obtain b where b: "options_get_bool (w_options (wp_window wp)) ''alternate-screen'' = Some b"
    using pane_option_bool [OF core, of "''alternate-screen''"] by (auto simp: input_options_def)
  show ?thesis
  proof (cases "wp_saved_grid wp = None \<and> b")
    case False
    then show ?thesis using b core by (auto simp: window_pane_alternate_on_def Let_def pane_step_refl)
  next
    case True
    note c = ctx_safe_bounds [OF pane_ctx_safe [OF core], simplified]
    have dims: "0 < gd_sx ?gd" "0 < gd_sy ?gd" "gd_sx ?gd \<le> DIM_MAX" "gd_sy ?gd \<le> DIM_MAX" "2 \<le> gd_sx ?gd"
      using c(1-4) by auto
    have blank: "grid_ok (grid_blank (gd_sx ?gd) (gd_sy ?gd) 0)" by (rule grid_blank_ok) (use dims in simp_all)
    have "returns (grid_duplicate_lines (grid_blank (gd_sx ?gd) (gd_sy ?gd) 0) 0 ?gd (gd_hsize ?gd) (gd_sy ?gd))
      (\<lambda>gd. grid_result (grid_blank (gd_sx ?gd) (gd_sy ?gd) 0) (\<lambda>x y. if 0 \<le> y \<and> y < 0 + gd_sy ?gd
          then grid_glyph ?gd x (gd_hsize ?gd + (y - 0)) else grid_glyph (grid_blank (gd_sx ?gd) (gd_sy ?gd) 0) x y) gd \<and>
        (\<forall>k < gd_sy ?gd. \<not> line_stale (gd_linedata gd ! (0 + k))))"
      by (rule grid_duplicate_returns [OF c(10) blank])
         (use fresh True in \<open>auto simp: stale_view_def\<close>)
    then obtain sv where sv: "grid_duplicate_lines (grid_blank (gd_sx ?gd) (gd_sy ?gd) 0) 0 ?gd (gd_hsize ?gd) (gd_sy ?gd) = Some sv"
      "grid_ok sv" "gd_hsize sv = 0" "gd_sx sv = gd_sx ?gd" "gd_sy sv = gd_sy ?gd"
      "\<And>x y. y < gd_sy ?gd \<Longrightarrow> grid_glyph sv x y = view_glyph ?gd x y"
      "\<And>y. y < gd_sy ?gd \<Longrightarrow> \<not> line_stale (gd_linedata sv ! y)"
      by (auto simp: returns_eq grid_result_def grid_same_def view_glyph_def)
    have live: "rows_live (gd_sx ?gd) (gd_sy ?gd) (grid_glyph sv)"
      by (rule rows_live_cong [OF c(12)]) (simp add: sv(6))
    have "returns (grid_view_clear ?gd 0 0 (gd_sx ?gd) (gd_sy ?gd)) (view_result ?gd
      (\<lambda>x y. if 0 \<le> y \<and> y < 0 + gd_sy ?gd \<and> 0 \<le> x \<and> (x < 0 + gd_sx ?gd \<and> 0 + gd_sx ?gd < UINT_MOD \<or>
         0 = (0::nat) \<and> gd_sx ?gd = gd_sx ?gd) then (grid_default_cell, None) else view_glyph ?gd x y))"
      by (rule grid_view_clear_returns) (use c dims in auto)
    then obtain gd' where gd': "grid_view_clear ?gd 0 0 (gd_sx ?gd) (gd_sy ?gd) = Some gd'" "view_ok gd'" "grid_keep ?gd gd'"
      "\<And>x y. x < gd_sx ?gd \<Longrightarrow> y < gd_sy ?gd \<Longrightarrow> view_glyph gd' x y = blank"
      by (auto simp: returns_eq view_result_def)
    have total: "grid_total gd' \<le> gd_hlimit gd' + DIM_MAX"
      by (rule total_keep [OF _ gd'(3) view_ok_grid [OF gd'(2)]]) (use core in \<open>simp add: pane_core_def\<close>)
    have k: "gd_sx gd' = gd_sx ?gd" "gd_sy gd' = gd_sy ?gd" "gd_hlimit gd' = gd_hlimit ?gd"
      using gd'(3) by (auto simp: grid_keep_def)
    let ?g2 = "gd'\<lparr>gd_flags := clear_flag (gd_flags gd') GRID_HISTORY\<rparr>"
    have "view_ok ?g2" using grid_ok_flags [OF view_ok_grid [OF gd'(2)] total] by (simp add: view_ok_def)
    moreover have "rows_live (gd_sx gd') (gd_sy gd') (view_glyph gd')"
      using gd'(4) k dims by (auto simp: rows_live_def intro!: exI [of _ 0])
    ultimately have "screen_safe (?s\<lparr>scr_grid := ?g2\<rparr>)"
      by (intro screen_safe_flags) (use core k in \<open>simp_all add: pane_core_def\<close>)
    moreover have "saved_ok ?g2 (Some sv)" using sv live k by (simp add: saved_ok_def)
    moreover have "window_pane_alternate_on gc wp = Some (wp\<lparr>wp_saved_grid := Some sv, wp_saved_cx := scr_cx ?s,
        wp_saved_cy := scr_cy ?s, wp_saved_cell := gc, wp_base := ?s\<lparr>scr_grid := ?g2\<rparr>,
        wp_flags := set_flag (wp_flags wp) PANE_REDRAW\<rparr>)"
      using True b gd'(1) sv(1) grid_create_blank [OF dims(2)]
      by (simp add: window_pane_alternate_on_def Let_def)
    ultimately show ?thesis using core k total assms(2)
      by (simp add: pane_step_def pane_core_def pane_keep_def)
  qed
qed

lemma window_pane_alternate_off_step:
  assumes core: "pane_core wp"
  shows "returns (window_pane_alternate_off wp) (\<lambda>(wp', gc). pane_step wp wp' \<and> (\<forall>c. gc = Some c \<longrightarrow> \<not> is_utf8 c))"
proof -
  let ?s = "wp_base wp"
  let ?gd = "scr_grid ?s"
  obtain b where b: "options_get_bool (w_options (wp_window wp)) ''alternate-screen'' = Some b"
    using pane_option_bool [OF core, of "''alternate-screen''"] by (auto simp: input_options_def)
  show ?thesis
  proof (cases "wp_saved_grid wp")
    case None
    then show ?thesis using core by (simp add: window_pane_alternate_off_def pane_step_refl)
  next
    case (Some sv)
    show ?thesis
    proof (cases b)
      case False
      then show ?thesis using Some b core by (simp add: window_pane_alternate_off_def pane_step_refl)
    next
      case True
      note c = ctx_safe_bounds [OF pane_ctx_safe [OF core], simplified]
      have sv: "grid_ok sv" "gd_hsize sv = 0" "gd_sx sv = gd_sx ?gd" "gd_sy sv = gd_sy ?gd"
        "rows_live (gd_sx ?gd) (gd_sy ?gd) (grid_glyph sv)" "\<And>y. y < gd_sy ?gd \<Longrightarrow> \<not> line_stale (gd_linedata sv ! y)"
        using core Some by (auto simp: pane_core_def saved_ok_def)
      have "returns (grid_duplicate_lines ?gd (gd_hsize ?gd) sv 0 (gd_sy ?gd)) (\<lambda>gd. grid_result ?gd
        (\<lambda>x y. if gd_hsize ?gd \<le> y \<and> y < gd_hsize ?gd + gd_sy ?gd then grid_glyph sv x (0 + (y - gd_hsize ?gd))
          else grid_glyph ?gd x y) gd \<and> (\<forall>k < gd_sy ?gd. \<not> line_stale (gd_linedata gd ! (gd_hsize ?gd + k))))"
        by (rule grid_duplicate_returns [OF sv(1) c(10)]) (use sv in auto)
      then obtain gd' where gd': "grid_duplicate_lines ?gd (gd_hsize ?gd) sv 0 (gd_sy ?gd) = Some gd'" "grid_ok gd'"
        "grid_same ?gd gd'" "\<And>x y. y < gd_sy ?gd \<Longrightarrow> view_glyph gd' x y = grid_glyph sv x y"
        by (auto simp: returns_eq grid_result_def view_glyph_def grid_same_def)
      have k: "gd_sx gd' = gd_sx ?gd" "gd_sy gd' = gd_sy ?gd" "gd_hlimit gd' = gd_hlimit ?gd" "gd_hsize gd' = gd_hsize ?gd"
        using gd'(3) by (auto simp: grid_same_def)
      have total: "grid_total gd' \<le> gd_hlimit gd' + DIM_MAX" using core k by (simp add: pane_core_def)
      let ?g2 = "gd'\<lparr>gd_flags := set_flag (gd_flags gd') GRID_HISTORY\<rparr>"
      let ?cx = "if wp_saved_cx wp > gd_sx ?gd - 1 then gd_sx ?gd - 1 else wp_saved_cx wp"
      let ?cy = "if wp_saved_cy wp > gd_sy ?gd - 1 then gd_sy ?gd - 1 else wp_saved_cy wp"
      have "view_ok ?g2"
        using grid_ok_flags [OF gd'(2) total] core k by (simp add: view_ok_def pane_core_def)
      moreover have "rows_live (gd_sx gd') (gd_sy gd') (view_glyph gd')"
        unfolding k by (rule rows_live_cong [OF sv(5)]) (simp add: gd'(4))
      ultimately have 2: "screen_safe (?s\<lparr>scr_grid := ?g2\<rparr>)"
        by (intro screen_safe_flags) (use core k in \<open>simp_all add: pane_core_def\<close>)
      have "screen_safe ((?s\<lparr>scr_grid := ?g2\<rparr>)\<lparr>scr_cx := ?cx, scr_cy := ?cy\<rparr>)"
        by (rule screen_safe_cursor [OF 2]) (use c k in auto)
      moreover have "window_pane_alternate_off wp = Some (wp\<lparr>wp_base := ?s\<lparr>scr_grid := ?g2, scr_cx := ?cx, scr_cy := ?cy\<rparr>,
          wp_saved_grid := None, wp_flags := set_flag (wp_flags wp) PANE_REDRAW\<rparr>, Some (wp_saved_cell wp))"
        using True Some b gd'(1) sv(4) c(1-4) k by (simp add: window_pane_alternate_off_def Let_def)
      ultimately show ?thesis using core k total
        by (simp add: pane_step_def pane_core_def pane_keep_def saved_ok_def)
    qed
  qed
qed

lemma input_alternate_off_step:
  assumes core: "pane_core wp"
  shows "returns (input_alternate_off wp) (pane_step wp)"
  unfolding input_alternate_off_def returns_bind
proof (rule returns_mono [OF window_pane_alternate_off_step [OF core]], clarify)
  fix wp1 gc assume 1: "pane_step wp wp1" "\<forall>c. gc = Some c \<longrightarrow> \<not> is_utf8 c"
  have "pane_step wp1 (case gc of None \<Rightarrow> wp1 | Some gc \<Rightarrow> upd_ictx (\<lambda>ic. ic\<lparr>ic_cell := gc\<rparr>) wp1)"
    using pane_stepD [OF 1(1)] 1(2)
    by (auto simp: pane_step_refl ictx_ok_def dest: ictx_ok_core split: option.split intro!: pane_step_ictx)
  then show "returns (Some (case gc of None \<Rightarrow> wp1 | Some gc \<Rightarrow> upd_ictx (\<lambda>ic. ic\<lparr>ic_cell := gc\<rparr>) wp1)) (pane_step wp)"
    using pane_step_trans [OF 1(1)] by simp
qed

section \<open>Control sequences\<close>

lemma sgr_kind [simp]:
  "is_utf8 (sgr_reset gc) = False" "is_utf8 (set_fg pal c gc) = is_utf8 gc" "is_utf8 (set_bg pal c gc) = is_utf8 gc"
  "is_utf8 (attr_on a gc) = is_utf8 gc" "is_utf8 (attr_off a gc) = is_utf8 gc"
  by (simp_all add: sgr_reset_def set_fg_def set_bg_def attr_on_def attr_off_def is_utf8_def grid_default_cell_def
      has_flag_set_other has_flag_clear_other)

lemma sgr_single_kind: "\<not> is_utf8 gc \<Longrightarrow> \<not> is_utf8 (sgr_single n gc)"
  by (simp add: sgr_single_def)

lemma sgr_palette_kind: "\<not> is_utf8 gc \<Longrightarrow> \<not> is_utf8 (sgr_palette n m gc)"
  by (simp add: sgr_palette_def)

lemma sgr_loop_kind: "\<not> is_utf8 gc \<Longrightarrow> \<not> is_utf8 (sgr_loop params i gc)"
proof (induction params i gc rule: sgr_loop.induct)
  case (1 params i gc)
  then show ?case
    by (subst sgr_loop.simps) (auto simp: Let_def sgr_single_kind sgr_palette_kind)
qed

lemma input_csi_dispatch_sgr_kind: "\<not> is_utf8 gc \<Longrightarrow> \<not> is_utf8 (input_csi_dispatch_sgr params gc)"
  by (simp add: input_csi_dispatch_sgr_def sgr_loop_kind)

lemma input_reply_step: "pane_core wp \<Longrightarrow> pane_step wp (input_reply reply wp)"
  by (simp add: input_reply_def pane_step_def pane_core_def pane_keep_def)

lemma ctx_next_then:
  assumes "ctx_next ctx ctx1" and "returns m (ctx_next ctx1)"
  shows "returns m (ctx_next ctx)"
  using assms(2) by (rule returns_mono) (rule ctx_next_trans [OF assms(1)])

lemma home_and_clear:
  assumes "ctx_safe ctx"
  shows "returns (screen_write_clearscreen (screen_write_cursormove ctx px py)) (ctx_next ctx)"
proof -
  note 1 = wrote_next [OF screen_write_cursormove_wrote [OF assms, of px py]]
  show ?thesis
    by (rule ctx_next_then [OF 1 wrote_returns_next [OF screen_write_clearscreen_wrote [OF ctx_nextD [OF 1]]]])
qed

lemma return_and_move:
  assumes "ctx_safe ctx"
  shows "ctx_next ctx (screen_write_cursordown (screen_write_carriagereturn ctx) n)"
    "ctx_next ctx (screen_write_cursorup (screen_write_carriagereturn ctx) n)"
proof -
  note 1 = wrote_next [OF screen_write_carriagereturn_wrote [OF assms]]
  show "ctx_next ctx (screen_write_cursordown (screen_write_carriagereturn ctx) n)"
    "ctx_next ctx (screen_write_cursorup (screen_write_carriagereturn ctx) n)"
    by (rule ctx_next_trans [OF 1 wrote_next [OF screen_write_cursordown_wrote [OF ctx_nextD [OF 1]]]]
        ctx_next_trans [OF 1 wrote_next [OF screen_write_cursorup_wrote [OF ctx_nextD [OF 1]]]])+
qed

lemmas picture_writers = screen_write_clearline_wrote screen_write_clearendofline_wrote
  screen_write_clearstartofline_wrote screen_write_clearendofscreen_wrote screen_write_clearstartofscreen_wrote
  screen_write_clearscreen_wrote screen_write_clearhistory_wrote

lemmas cursor_writers = screen_write_cursorup_wrote screen_write_cursordown_wrote screen_write_cursorleft_wrote
  screen_write_cursorright_wrote screen_write_cursormove_wrote

lemma csi_writers:
  assumes core: "pane_core wp"
  shows "returns (on_ctx (\<lambda>ctx. Some (screen_write_cursorleft ctx n)) wp) (pane_step wp)"
    "returns (on_ctx (\<lambda>ctx. Some (screen_write_cursorright ctx n)) wp) (pane_step wp)"
    "returns (on_ctx (\<lambda>ctx. Some (screen_write_cursorup ctx n)) wp) (pane_step wp)"
    "returns (on_ctx (\<lambda>ctx. Some (screen_write_cursordown ctx n)) wp) (pane_step wp)"
    "returns (on_ctx (\<lambda>ctx. Some (screen_write_cursormove ctx px py)) wp) (pane_step wp)"
    "returns (on_ctx (\<lambda>ctx. Some (screen_write_cursordown (screen_write_carriagereturn ctx) n)) wp) (pane_step wp)"
    "returns (on_ctx (\<lambda>ctx. Some (screen_write_cursorup (screen_write_carriagereturn ctx) n)) wp) (pane_step wp)"
    "returns (on_ctx (\<lambda>ctx. Some (screen_write_scrollregion ctx px py)) wp) (pane_step wp)"
    "returns (on_ctx (\<lambda>ctx. screen_write_deletecharacter ctx n) wp) (pane_step wp)"
    "returns (on_ctx (\<lambda>ctx. screen_write_insertcharacter ctx n) wp) (pane_step wp)"
    "returns (on_ctx (\<lambda>ctx. screen_write_deleteline ctx n) wp) (pane_step wp)"
    "returns (on_ctx (\<lambda>ctx. screen_write_insertline ctx n) wp) (pane_step wp)"
    "returns (on_ctx screen_write_clearline wp) (pane_step wp)"
    "returns (on_ctx screen_write_clearendofline wp) (pane_step wp)"
    "returns (on_ctx screen_write_clearstartofline wp) (pane_step wp)"
    "returns (on_ctx screen_write_clearendofscreen wp) (pane_step wp)"
    "returns (on_ctx screen_write_clearstartofscreen wp) (pane_step wp)"
    "returns (on_ctx screen_write_clearscreen wp) (pane_step wp)"
    "returns (on_ctx screen_write_clearhistory wp) (pane_step wp)"
    "returns (on_ctx (\<lambda>ctx. screen_write_clearscreen (screen_write_cursormove ctx px py)) wp) (pane_step wp)"
    "returns (on_ctx (\<lambda>ctx. Some (screen_write_mousemode_off ctx)) wp) (pane_step wp)"
    "returns (set_mode screen_write_kcursormode b wp) (pane_step wp)"
    "returns (set_mode screen_write_cursormode b wp) (pane_step wp)"
    "returns (set_mode screen_write_insertmode b wp) (pane_step wp)"
    "returns (set_mode screen_write_utf8mousemode b wp) (pane_step wp)"
    "returns (set_mode screen_write_bracketpaste b wp) (pane_step wp)"
  unfolding set_mode_def
  by (rule on_ctx_total [OF core] on_ctx_step [OF core],
      erule cursor_writers [THEN wrote_next] return_and_move screen_write_scrollregion_next
        screen_write_characters_next screen_write_lines_next picture_writers [THEN wrote_returns_next]
        home_and_clear screen_write_mousemode_next screen_write_modes_next)+

lemma mouse_writers:
  assumes core: "pane_core wp"
  shows "returns (on_ctx (\<lambda>ctx. Some (screen_write_mousemode_on ctx MODE_MOUSE_STANDARD)) wp) (pane_step wp)"
    "returns (on_ctx (\<lambda>ctx. Some (screen_write_mousemode_on ctx MODE_MOUSE_BUTTON)) wp) (pane_step wp)"
    "returns (on_ctx (\<lambda>ctx. Some (screen_write_mousemode_on ctx MODE_MOUSE_ANY)) wp) (pane_step wp)"
  by (rule on_ctx_total [OF core], erule screen_write_mousemode_next(2), simp)+

text \<open>The two hypotheses are the two ways in which the parser can die.\<close>

definition csi_hazard :: "input_type \<Rightarrow> window_pane \<Rightarrow> bool" where
  "csi_hazard ty wp \<longleftrightarrow> ty = INPUT_CSI_CBT \<and> screen_size_x (wp_base wp) < scr_cx (wp_base wp) \<or>
     ty = INPUT_CSI_SM_PRIVATE \<and> wp_saved_grid wp = None \<and> stale_view (scr_grid (wp_base wp))"

lemma input_csi_type_step:
  assumes core: "pane_core wp" and safe: "\<not> csi_hazard ty wp"
  shows "returns (input_csi_type ty params wp) (pane_step wp)"
proof -
  note writers = csi_writers [OF core] mouse_writers [OF core]
  have base: "screen_safe (wp_base wp)" using core by (simp add: pane_core_def)
  have cbt: "returns (on_base (input_cbt n) wp) (pane_step wp)" if "ty = INPUT_CSI_CBT" for n
    by (rule on_base_step [OF core], rule input_cbt_returns [OF base]) (use safe that in \<open>auto simp: csi_hazard_def\<close>)
  have on: "returns (window_pane_alternate_on (ic_cell (ictx wp)) wp) (pane_step wp)" if "ty = INPUT_CSI_SM_PRIVATE"
    by (rule window_pane_alternate_on_step [OF core])
       (use safe that ictx_ok_core [OF core] in \<open>auto simp: csi_hazard_def ictx_ok_def\<close>)
  have tbc: "returns (on_base (input_csi_dispatch_tbc params) wp) (pane_step wp)"
    by (rule on_base_step [OF core], rule input_csi_dispatch_tbc_returns [OF base])
  have sgr: "pane_step wp (upd_ictx (\<lambda>ic. ic\<lparr>ic_cell := input_csi_dispatch_sgr params (ic_cell ic)\<rparr>) wp)"
    by (rule pane_step_ictx)
       (use core in \<open>auto simp: ictx_ok_def input_csi_dispatch_sgr_kind dest: ictx_ok_core\<close>)
  have style: "pane_step wp (upd_base (\<lambda>s. screen_set_cursor_style s n) wp)" for n
    by (rule pane_step_upd_base) (use base core in \<open>simp_all add: screen_set_cursor_style_def screen_safe_def screen_ok_def\<close>)
  have parts: "returns (input_csi_dispatch_ed params wp) (pane_step wp)"
    "returns (input_csi_dispatch_el params wp) (pane_step wp)"
    "returns (input_csi_dispatch_rm_private params wp) (pane_step wp)"
    "ty = INPUT_CSI_SM_PRIVATE \<Longrightarrow> returns (input_csi_dispatch_sm_private params wp) (pane_step wp)"
    unfolding input_csi_dispatch_ed_def input_csi_dispatch_el_def input_csi_dispatch_rm_private_def
      input_csi_dispatch_sm_private_def Let_def
    using writers on input_alternate_off_step [OF core] pane_step_refl [OF core] by simp_all
  show ?thesis unfolding input_csi_type_def Let_def
    by (cases ty) (simp_all add: writers cbt tbc sgr style parts input_reply_step core restore_cursor_step
        save_cursor_step pane_step_refl)
qed

lemma input_csi_dispatch_step:
  assumes core: "pane_core wp"
    and safe: "\<And>e i ty. bsearch (input_table_compare (ic_ch (ictx wp)) (ic_interm_buf (ictx wp))) input_csi_table =
      Some (e, i, ty) \<Longrightarrow> \<not> csi_hazard ty wp"
  shows "returns (input_csi_dispatch wp) (pane_step wp)"
proof -
  obtain params ok where split: "input_split (ictx wp) = (params, ok)" by (cases "input_split (ictx wp)")
  define wp1 where "wp1 = upd_ictx (\<lambda>ic. ic\<lparr>ic_param_list := params\<rparr>) wp"
  have 1: "pane_step wp wp1" unfolding wp1_def
    by (rule pane_step_ictx) (use core in \<open>auto simp: ictx_ok_def dest: ictx_ok_core\<close>)
  have haz: "csi_hazard ty wp1 = csi_hazard ty wp" for ty by (simp add: csi_hazard_def wp1_def upd_ictx_def)
  have "returns (input_csi_type ty params wp1) (pane_step wp)" if "\<not> csi_hazard ty wp" for ty
    using input_csi_type_step [OF pane_stepD [OF 1], of ty params] that haz
    by (auto elim!: returns_mono intro: pane_step_trans [OF 1])
  with safe have "returns (case bsearch (input_table_compare (ic_ch (ictx wp)) (ic_interm_buf (ictx wp))) input_csi_table of
      None \<Rightarrow> Some wp1 | Some (_, _, ty) \<Rightarrow> input_csi_type ty params wp1) (pane_step wp)"
    using 1 by (simp split: option.split prod.split)
  then show ?thesis using 1 pane_step_refl [OF core]
    unfolding input_csi_dispatch_def Let_def split prod.case wp1_def [symmetric] by simp
qed

section \<open>Strings\<close>

lemma input_print_step:
  assumes core: "pane_core wp"
  shows "returns (input_print wp) (pane_step wp)"
proof -
  define wp1 where "wp1 = upd_ictx (\<lambda>ic. ic\<lparr>ic_cell := (ic_cell ic)\<lparr>gc_data := ic_ch ic\<rparr>\<rparr>) wp"
  have 1: "pane_step wp wp1" unfolding wp1_def
    by (rule pane_step_ictx) (use core in \<open>auto simp: ictx_ok_def is_utf8_def dest: ictx_ok_core\<close>)
  have "char_ok (ic_cell (ictx wp1)) None"
    using ictx_ok_core [OF pane_stepD [OF 1]] by (simp add: ictx_ok_def char_ok_def)
  then have "returns (on_ctx (\<lambda>ctx. screen_write_cell ctx (ic_cell (ictx wp1)) None) wp1) (pane_step wp1)"
    by (intro on_ctx_step [OF pane_stepD [OF 1]] screen_write_cell_next)
  then show ?thesis unfolding input_print_def Let_def wp1_def [symmetric]
    by (rule returns_mono) (rule pane_step_trans [OF 1])
qed

lemma collect_ok:
  assumes "ictx_ok ic"
  shows "ictx_ok (input_intermediate ic)" "ictx_ok (input_parameter ic)" "ictx_ok (input_input ic)"
  using assms by (auto simp: input_intermediate_def input_parameter_def input_input_def collect_byte_def ictx_ok_def)

lemma collect_state [simp]:
  "ic_state (input_intermediate ic) = ic_state ic" "ic_state (input_parameter ic) = ic_state ic"
  "ic_state (input_input ic) = ic_state ic" "ic_utf8data (input_intermediate ic) = ic_utf8data ic"
  "ic_utf8data (input_parameter ic) = ic_utf8data ic" "ic_utf8data (input_input ic) = ic_utf8data ic"
  by (simp_all add: input_intermediate_def input_parameter_def input_input_def collect_byte_def)

lemma collect_step:
  assumes "pane_core wp"
  shows "pane_step wp (upd_ictx input_intermediate wp)" "pane_step wp (upd_ictx input_parameter wp)"
    "pane_step wp (upd_ictx input_input wp)"
  using assms by (auto intro!: pane_step_ictx collect_ok dest: ictx_ok_core)

lemma input_dcs_dispatch_step:
  assumes core: "pane_core wp"
  shows "returns (input_dcs_dispatch wp) (pane_step wp)"
proof -
  have "returns (on_ctx (\<lambda>ctx. screen_write_rawstring ctx str len) wp) (pane_step wp)" for str len
    by (rule on_ctx_step [OF core], rule screen_write_strings_next)
  then show ?thesis using pane_step_refl [OF core] by (simp add: input_dcs_dispatch_def Let_def)
qed

lemma window_notify_step: "pane_core wp \<Longrightarrow> pane_step wp (window_notify c wp)"
  unfolding window_notify_def by (rule pane_step_window) (simp_all add: pane_core_options)

lemma screen_set_title_step: "pane_core wp \<Longrightarrow> pane_step wp (upd_base (\<lambda>s. screen_set_title s p) wp)"
  by (rule pane_step_upd_base) (simp_all add: screen_set_title_def pane_core_def screen_safe_def screen_ok_def)

lemma screen_set_cursor_colour_step:
  "pane_core wp \<Longrightarrow> pane_step wp (upd_base (\<lambda>s. screen_set_cursor_colour s p) wp)"
  by (rule pane_step_upd_base) (simp_all add: screen_set_cursor_colour_def pane_core_def screen_safe_def screen_ok_def)

lemma title_and_status_step:
  assumes "pane_core wp"
  shows "pane_step wp (window_notify server_status_window (upd_base (\<lambda>s. screen_set_title s p) wp))"
  using screen_set_title_step [OF assms] window_notify_step pane_stepD pane_step_trans by blast

lemma input_exit_osc_step: "pane_core wp \<Longrightarrow> pane_step wp (input_exit_osc wp)"
  by (simp add: input_exit_osc_def Let_def pane_step_refl title_and_status_step screen_set_cursor_colour_step)

lemma input_exit_apc_step: "pane_core wp \<Longrightarrow> pane_step wp (input_exit_apc wp)"
  by (simp add: input_exit_apc_def pane_step_refl title_and_status_step)

lemma options_ok_set: "options_ok oo \<Longrightarrow> options_ok (options_set_number oo name n)"
  by (simp add: options_ok_def)

lemma input_exit_rename_step:
  assumes core: "pane_core wp"
  shows "returns (input_exit_rename wp) (pane_step wp)"
proof -
  obtain b where b: "options_get_bool (w_options (wp_window wp)) ''allow-rename'' = Some b"
    using pane_option_bool [OF core, of "''allow-rename''"] by (auto simp: input_options_def)
  define wp1 where "wp1 = upd_window (\<lambda>w. w\<lparr>w_name := ic_input_buf (ictx wp)\<rparr>) wp"
  define wp2 where "wp2 = window_notify notify_window_renamed wp1"
  define wp3 where "wp3 = upd_window (\<lambda>w. w\<lparr>w_options := options_set_number (w_options w) ''automatic-rename'' 0\<rparr>) wp2"
  have 1: "pane_step wp wp1" unfolding wp1_def
    by (rule pane_step_window) (simp_all add: core pane_core_options)
  have 2: "pane_step wp1 wp2" unfolding wp2_def by (rule window_notify_step [OF pane_stepD [OF 1]])
  have 3: "pane_step wp2 wp3" unfolding wp3_def
    by (rule pane_step_window) (use pane_stepD [OF 2] in \<open>simp_all add: options_ok_set pane_core_options\<close>)
  have 4: "pane_step wp3 (window_notify server_status_window wp3)" by (rule window_notify_step [OF pane_stepD [OF 3]])
  have "input_exit_rename wp = Some wp \<or> input_exit_rename wp = Some (window_notify server_status_window wp3)"
    using b by (simp add: input_exit_rename_def window_set_name_def wp1_def wp2_def wp3_def Let_def)
  then show ?thesis
    using pane_step_refl [OF core] pane_step_trans [OF pane_step_trans [OF 1 2] pane_step_trans [OF 3 4]] by auto
qed

end
