(* ===== verification/Input_Props.thy ===== *)
theory Input_Props
  imports Input_Csi
begin

text \<open>
  The whole parser: one byte (\<open>input_byte_returns\<close>) and any sequence of bytes, and its properties.
\<close>

unbundle bit_operations_syntax

section \<open>Searching the command tables\<close>

lemma bsearch_loop_sound:
  assumes "base + lim \<le> length xs" and "bsearch_loop compar xs base lim = Some e"
  shows "e \<in> set xs \<and> compar e = 0"
  using assms
proof (induction compar xs base lim rule: bsearch_loop.induct)
  case (1 compar xs base lim)
  let ?p = "base + lim div 2"
  show ?case
  proof (cases "lim = 0")
    case True
    then show ?thesis using 1(4) by (subst (asm) bsearch_loop.simps) simp
  next
    case False
    then have p: "?p < length xs" using 1(3) by linarith
    have r: "?p + 1 + (lim - 1) div 2 \<le> length xs" "base + lim div 2 \<le> length xs" using 1(3) False by linarith+
    consider "compar (xs ! ?p) = 0" | "compar (xs ! ?p) > 0" | "compar (xs ! ?p) < 0" by linarith
    then show ?thesis
    proof cases
      case 1
      then show ?thesis using \<open>bsearch_loop compar xs base lim = Some e\<close> False p
        by (subst (asm) bsearch_loop.simps) (auto simp: Let_def)
    next
      case 2
      then have "bsearch_loop compar xs (?p + 1) ((lim - 1) div 2) = Some e"
        using 1(4) False by (subst (asm) bsearch_loop.simps) (simp add: Let_def)
      then show ?thesis using 1(1) [OF False refl refl _ _ r(1)] 2 by simp
    next
      case 3
      then have "bsearch_loop compar xs base (lim div 2) = Some e"
        using 1(4) False by (subst (asm) bsearch_loop.simps) (simp add: Let_def)
      then show ?thesis using 1(2) [OF False refl refl _ _ r(2)] 3 by simp
    qed
  qed
qed

lemma bsearch_sound: "bsearch compar xs = Some e \<Longrightarrow> e \<in> set xs \<and> compar e = 0"
  unfolding bsearch_def using bsearch_loop_sound [of 0 "length xs" xs compar e] by simp

lemma input_table_compare_char: "input_table_compare ch interm (e, i, ty) = 0 \<Longrightarrow> ch = e"
  by (auto simp: input_table_compare_def word_uint_eq_iff split: if_splits)

text \<open>The bytes at which the parser can die, and the states of the pane in which it does.\<close>

definition input_hazard :: "u_char \<Rightarrow> window_pane \<Rightarrow> bool" where
  "input_hazard ch wp \<longleftrightarrow>
     ic_state (ictx wp) \<in> {input_state_csi_enter, input_state_csi_parameter, input_state_csi_intermediate} \<and>
     (ch = 0x5a \<and> screen_size_x (wp_base wp) < scr_cx (wp_base wp) \<or>
      ch = 0x68 \<and> wp_saved_grid wp = None \<and> stale_view (scr_grid (wp_base wp)))"

lemma csi_hazard_byte:
  assumes "bsearch (input_table_compare ch interm) input_csi_table = Some (e, i, ty)" and "csi_hazard ty wp"
  shows "ch = 0x5a \<and> screen_size_x (wp_base wp) < scr_cx (wp_base wp) \<or>
    ch = 0x68 \<and> wp_saved_grid wp = None \<and> stale_view (scr_grid (wp_base wp))"
proof -
  have e: "(e, i, ty) \<in> set input_csi_table" "ch = e"
    using bsearch_sound [OF assms(1)] input_table_compare_char by blast+
  have "ty = INPUT_CSI_CBT \<Longrightarrow> e = 0x5a" "ty = INPUT_CSI_SM_PRIVATE \<Longrightarrow> e = 0x68"
    using e(1) by (auto simp: input_csi_table_def)
  then show ?thesis using assms(2) e(2) by (auto simp: csi_hazard_def)
qed

section \<open>One byte\<close>

lemma upd_ictx_simps [simp]:
  "wp_ictx (upd_ictx f wp) = f (wp_ictx wp)" "wp_base (upd_ictx f wp) = wp_base wp"
  "wp_saved_grid (upd_ictx f wp) = wp_saved_grid wp" "wp_window (upd_ictx f wp) = wp_window wp"
  by (simp_all add: upd_ictx_def)

lemma pane_keep_ictx [simp]: "pane_keep wp (upd_ictx f wp)"
  by (simp add: upd_ictx_def pane_keep_def)

lemma input_clear_ok: "ictx_ok ic \<Longrightarrow> ictx_ok (input_clear ic)"
  by (simp add: input_clear_def ictx_ok_def)

lemma input_clear_state [simp]: "ic_state (input_clear ic) = ic_state ic" "ic_utf8data (input_clear ic) = ic_utf8data ic"
  by (simp_all add: input_clear_def)

text \<open>After a change of state.\<close>

definition pane_moved :: "window_pane \<Rightarrow> input_state \<Rightarrow> window_pane \<Rightarrow> bool" where
  "pane_moved wp st wp' \<longleftrightarrow> pane_core wp' \<and> pane_keep wp wp' \<and> ic_state (wp_ictx wp') = st \<and>
     ic_utf8data (wp_ictx wp') = ic_utf8data (wp_ictx wp)"

lemma input_state_exit_step: "pane_core wp \<Longrightarrow> returns (input_state_exit st wp) (pane_step wp)"
  unfolding input_state_exit_def
  by (cases st) (simp_all add: pane_step_refl input_exit_osc_step input_exit_apc_step input_exit_rename_step)

lemma pane_moved_enter: "pane_moved wp st wp' \<Longrightarrow> pane_moved wp st (input_state_enter st' wp')"
proof -
  assume m: "pane_moved wp st wp'"
  then have core: "pane_core wp'" by (simp add: pane_moved_def)
  have "pane_core (upd_ictx input_clear wp')"
    by (rule pane_core_ictx [OF core]) (rule input_clear_ok [OF ictx_ok_core [OF core]])
  moreover have "pane_keep wp (upd_ictx input_clear wp')"
    using m pane_keep_trans [OF _ pane_keep_ictx] by (auto simp: pane_moved_def)
  ultimately show ?thesis using m by (simp add: pane_moved_def input_state_enter_def)
qed

lemma input_set_state_moved:
  assumes core: "pane_core wp"
  shows "returns (input_set_state st wp) (\<lambda>wp'. pane_moved wp st wp' \<and>
    (st = input_state_ground \<longrightarrow> ic_since_ground (ictx wp') = []))"
  unfolding input_set_state_def Let_def returns_bind
proof (rule returns_mono [OF input_state_exit_step [OF core]])
  fix wp1 assume 1: "pane_step wp wp1"
  define wp2 where "wp2 = (if st = input_state_ground then upd_ictx (\<lambda>ic. ic\<lparr>ic_since_ground := []\<rparr>) wp1 else wp1)"
  define wp3 where "wp3 = upd_ictx (\<lambda>ic. ic\<lparr>ic_state := st\<rparr>) wp2"
  have i: "ictx_ok (wp_ictx wp1)" using ictx_ok_core [OF pane_stepD [OF 1]] .
  have 2: "pane_step wp1 wp2"
    using pane_step_ictx [OF pane_stepD [OF 1], of "\<lambda>ic. ic\<lparr>ic_since_ground := []\<rparr>"] pane_step_refl [OF pane_stepD [OF 1]] i
    by (simp add: wp2_def ictx_ok_def)
  have "pane_core wp3" unfolding wp3_def
    by (rule pane_core_ictx [OF pane_stepD [OF 2]]) (use ictx_ok_core [OF pane_stepD [OF 2]] in \<open>simp add: ictx_ok_def\<close>)
  moreover have "pane_keep wp wp3" unfolding wp3_def
    by (rule pane_keep_trans [OF _ pane_keep_ictx]) (use pane_step_trans [OF 1 2] in \<open>simp add: pane_step_def\<close>)
  ultimately have "pane_moved wp st wp3"
    using pane_step_trans [OF 1 2] by (simp add: pane_moved_def pane_step_def wp3_def)
  from pane_moved_enter [OF this] show "returns (Some (input_state_enter st (upd_ictx (\<lambda>ic. ic\<lparr>ic_state := st\<rparr>)
      (if st = input_state_ground then upd_ictx (\<lambda>ic. ic\<lparr>ic_since_ground := []\<rparr>) wp1 else wp1))))
    (\<lambda>wp'. pane_moved wp st wp' \<and> (st = input_state_ground \<longrightarrow> ic_since_ground (ictx wp') = []))"
    unfolding wp2_def [symmetric] wp3_def [symmetric]
    by (auto simp: input_state_enter_def wp3_def wp2_def)
qed

text \<open>The UTF-8 handlers.\<close>

lemma utf8_update_step:
  "pane_core wp \<Longrightarrow> pane_core (upd_ictx (\<lambda>ic. ic\<lparr>ic_utf8data := ud\<rparr>) wp)"
  by (rule pane_core_ictx) (auto simp: ictx_ok_def dest: ictx_ok_core)

lemma input_utf8_open_returns:
  assumes core: "pane_core wp"
  shows "returns (input_utf8_open wp) (\<lambda>(wp', stay). pane_core wp' \<and> pane_keep wp wp' \<and>
    ic_state (ictx wp') = ic_state (ictx wp) \<and>
    (\<not> stay \<longrightarrow> utf8_data_ok (ic_utf8data (ictx wp')) \<and> ud_size (ic_utf8data (ictx wp')) = utf8_open_size (ic_ch (ictx wp)) \<and>
      (utf8_open_size (ic_ch (ictx wp)) \<noteq> 0 \<longrightarrow> ud_have (ic_utf8data (ictx wp')) = 1)))"
proof -
  obtain b where b: "options_get_bool (w_options (wp_window wp)) ''utf8'' = Some b"
    using pane_option_bool [OF core, of "''utf8''"] by (auto simp: input_options_def)
  obtain ud ok where ud: "utf8_open (ic_ch (ictx wp)) = Some (ud, ok)" "utf8_data_ok ud"
    "ok = (utf8_open_size (ic_ch (ictx wp)) \<noteq> 0)" "ud_size ud = utf8_open_size (ic_ch (ictx wp))" "ok \<longrightarrow> ud_have ud = 1"
    using utf8_open_returns [of "ic_ch (ictx wp)"] by (cases "utf8_open (ic_ch (ictx wp))") (fastforce simp: returns_eq)+
  have print: "returns (input_print wp) (\<lambda>wp'. pane_core wp' \<and> pane_keep wp wp' \<and> ic_state (ictx wp') = ic_state (ictx wp))"
    by (rule returns_mono [OF input_print_step [OF core]]) (simp add: pane_step_def)
  show ?thesis using b ud print utf8_update_step [OF core]
    by (auto simp: input_utf8_open_def elim!: returns_mono)
qed

lemma input_utf8_add_returns:
  assumes core: "pane_core wp" and ud: "utf8_data_ok (ic_utf8data (ictx wp))"
    and room: "ud_have (ic_utf8data (ictx wp)) < ud_size (ic_utf8data (ictx wp))"
  shows "returns (input_utf8_add wp) (\<lambda>wp'. pane_core wp' \<and> pane_keep wp wp' \<and>
    ic_state (ictx wp') = ic_state (ictx wp) \<and> utf8_data_ok (ic_utf8data (ictx wp')) \<and>
    ud_have (ic_utf8data (ictx wp')) = ud_have (ic_utf8data (ictx wp)) + 1 \<and>
    ud_size (ic_utf8data (ictx wp')) = ud_size (ic_utf8data (ictx wp)) \<and>
    (ud_have (ic_utf8data (ictx wp')) = ud_size (ic_utf8data (ictx wp')) \<longrightarrow> ud_width (ic_utf8data (ictx wp')) \<le> 2))"
proof -
  obtain ud' more where "utf8_append (ic_utf8data (ictx wp)) (ic_ch (ictx wp)) = Some (ud', more)" "utf8_data_ok ud'"
    "ud_have ud' = ud_have (ic_utf8data (ictx wp)) + 1" "ud_size ud' = ud_size (ic_utf8data (ictx wp))"
    "more = (ud_have ud' \<noteq> ud_size ud')" "\<not> more \<longrightarrow> ud_width ud' \<le> 2"
    using utf8_append_returns [OF ud room, of "ic_ch (ictx wp)"] by (auto simp: returns_eq)
  then show ?thesis using utf8_update_step [OF core] by (simp add: input_utf8_add_def)
qed

lemma input_utf8_close_returns:
  assumes core: "pane_core wp" and ud: "utf8_data_ok (ic_utf8data (ictx wp))"
    and room: "ud_have (ic_utf8data (ictx wp)) + 1 = ud_size (ic_utf8data (ictx wp))"
  shows "returns (input_utf8_close wp) (\<lambda>wp'. pane_core wp' \<and> pane_keep wp wp' \<and> ic_state (ictx wp') = ic_state (ictx wp))"
proof -
  have lt: "ud_have (ic_utf8data (ictx wp)) < ud_size (ic_utf8data (ictx wp))" using room by simp
  obtain wp1 where 1: "input_utf8_add wp = Some wp1" "pane_core wp1" "pane_keep wp wp1"
    "ic_state (ictx wp1) = ic_state (ictx wp)" "utf8_data_ok (ic_utf8data (ictx wp1))"
    "ud_size (ic_utf8data (ictx wp1)) \<noteq> 0" "ud_width (ic_utf8data (ictx wp1)) \<le> 2"
    using input_utf8_add_returns [OF core ud lt] room by (auto simp: returns_eq)
  define ic where "ic = cell_utf8 True (ictx wp1)"
  have ud1: "ud_ok (ic_utf8data (ictx wp1))" using 1(5-7) by (simp add: utf8_data_ok_def ud_ok_def)
  have ok: "char_ok (ic_cell ic) (Some (ic_utf8data ic))" using ud1 by (simp add: char_ok_def ic_def cell_utf8_def)
  have safe: "ctx_safe (pane_ctx wp1)" using pane_ctx_safe [OF 1(2)] .
  have plain: "\<not> is_utf8 ((ic_cell ic)\<lparr>gc_flags := clear_flag (gc_flags (ic_cell ic)) GRID_FLAG_UTF8\<rparr>)"
    by (simp add: is_utf8_def)
  have "returns (on_ctx (\<lambda>ctx. screen_write_cell ctx (ic_cell ic) (Some (ic_utf8data ic))) wp1) (pane_step wp1)"
    by (rule on_ctx_step [OF 1(2)]) (rule screen_write_cell_next [OF _ ok])
  then obtain wp3 where 3: "on_ctx (\<lambda>ctx. screen_write_cell ctx (ic_cell ic) (Some (ic_utf8data ic))) wp1 = Some wp3"
    "pane_step wp1 wp3" unfolding returns_eq by blast
  have same: "ictx wp3 = ictx wp1" using 3(1) by (auto simp: on_ctx_def bind_Some_iff)
  have run2: "on_ctx (\<lambda>ctx. screen_write_cell ctx (ic_cell (cell_utf8 True (ictx wp1)))
      (Some (ic_utf8data (cell_utf8 True (ictx wp1))))) (upd_ictx (cell_utf8 True) wp1) =
      Some (upd_ictx (cell_utf8 True) wp3)"
    using 3(1) by (auto simp: upd_ictx_def on_ctx_def bind_Some_iff ic_def)
  let ?wp4 = "upd_ictx (cell_utf8 False) (upd_ictx (cell_utf8 True) wp3)"
  have "?wp4 = upd_ictx (\<lambda>_. cell_utf8 False (cell_utf8 True (ictx wp3))) wp3" by (simp add: upd_ictx_def)
  moreover have "ictx_ok (cell_utf8 False (cell_utf8 True (ictx wp3)))"
    using ictx_ok_core [OF 1(2)] by (simp add: same ictx_ok_def cell_utf8_def is_utf8_def)
  ultimately have "pane_core ?wp4" using pane_core_ictx [OF pane_stepD [OF 3(2)]] by simp
  moreover have "pane_keep wp ?wp4"
    using 1(3) 3(2) pane_keep_trans pane_keep_ictx unfolding pane_step_def by blast
  moreover have "ic_state (ictx ?wp4) = ic_state (ictx wp)" using 1(4) by (simp add: same cell_utf8_def)
  ultimately show ?thesis using 1(1) run2
    by (simp add: input_utf8_close_def Let_def)
qed

text \<open>Any handler: \<open>next\<close> is the state the transition leads to.\<close>

definition utf8_ready :: "input_state \<Rightarrow> utf8_data \<Rightarrow> bool" where
  "utf8_ready st ud \<longleftrightarrow> (0 < utf8_pending st \<longrightarrow>
     utf8_data_ok ud \<and> 0 < ud_have ud \<and> ud_have ud + utf8_pending st = ud_size ud)"

lemma utf8_state_ok_ready: "utf8_state_ok ic \<longleftrightarrow> utf8_ready (ic_state ic) (ic_utf8data ic)"
  by (simp add: utf8_state_ok_def utf8_ready_def Let_def)

definition handled :: "input_transition \<Rightarrow> window_pane \<Rightarrow> window_pane \<times> bool \<Rightarrow> bool" where
  "handled itr wp r \<longleftrightarrow> (case r of (wp', stay) \<Rightarrow> pane_core wp' \<and> pane_keep wp wp' \<and>
     ic_state (ictx wp') = ic_state (ictx wp) \<and>
     (if stay then utf8_ready (ic_state (ictx wp)) (ic_utf8data (ictx wp'))
      else utf8_ready (case it_state itr of None \<Rightarrow> ic_state (ictx wp) | Some st \<Rightarrow> st) (ic_utf8data (ictx wp'))))"

lemma utf8_ready_none: "utf8_pending st = 0 \<Longrightarrow> utf8_ready st ud"
  by (simp add: utf8_ready_def)

lemma handled_step:
  assumes "returns m (pane_step wp)"
    and "case it_state itr of None \<Rightarrow> utf8_pending (ic_state (ictx wp)) = 0 | Some st \<Rightarrow> utf8_pending st = 0"
  shows "returns (map_option (\<lambda>wp. (wp, False)) m) (handled itr wp)"
  using assms unfolding returns_eq
  by (auto simp: handled_def pane_step_def intro: utf8_ready_none split: option.splits)

lemma utf8_open_row:
  assumes "0xc2 \<le> it_first itr \<and>
      (it_state itr = Some input_state_utf8_one \<and> it_last itr \<le> 0xdf \<or>
       it_state itr = Some input_state_utf8_two \<and> 0xe0 \<le> it_first itr \<and> it_last itr \<le> 0xef \<or>
       it_state itr = Some input_state_utf8_three \<and> 0xf0 \<le> it_first itr \<and> it_last itr \<le> 0xf4)"
    and "it_first itr \<le> ch" and "ch \<le> it_last itr"
  shows "utf8_open_size ch = Suc (utf8_pending (case it_state itr of None \<Rightarrow> st | Some st \<Rightarrow> st))"
proof -
  have "uint (it_first itr) \<le> uint ch" "uint ch \<le> uint (it_last itr)"
    using assms(2,3) by (simp_all add: word_le_def)
  then show ?thesis using assms(1) by (auto simp: utf8_open_size_def word_le_def)
qed

lemma input_run_handler_returns:
  assumes core: "pane_core wp" and ready: "utf8_ready (ic_state (ictx wp)) (ic_utf8data (ictx wp))"
    and itr: "transition_ok (ic_state (ictx wp)) itr" "it_handler itr = Some h"
    and ch: "it_first itr \<le> ic_ch (ictx wp)" "ic_ch (ictx wp) \<le> it_last itr"
    and safe: "\<not> input_hazard (ic_ch (ictx wp)) wp"
  shows "returns (input_run_handler h wp) (handled itr wp)"
proof -
  note ok = itr(1) [unfolded transition_ok_def itr(2)]
  show ?thesis
  proof (cases h)
    case H_utf8_open
    then have free: "utf8_pending (ic_state (ictx wp)) = 0" using ok by simp
    have size: "utf8_open_size (ic_ch (ictx wp)) =
        Suc (utf8_pending (case it_state itr of None \<Rightarrow> ic_state (ictx wp) | Some st \<Rightarrow> st))"
      using utf8_open_row [OF _ ch] ok H_utf8_open by simp
    have "input_run_handler h wp = input_utf8_open wp" by (simp add: input_run_handler_def H_utf8_open)
    moreover have "returns (input_utf8_open wp) (handled itr wp)"
    proof (rule returns_mono [OF input_utf8_open_returns [OF core]], clarify)
      fix wp' stay
      assume r: "pane_core wp'" "pane_keep wp wp'" "ic_state (ictx wp') = ic_state (ictx wp)"
        "\<not> stay \<longrightarrow> utf8_data_ok (ic_utf8data (ictx wp')) \<and>
          ud_size (ic_utf8data (ictx wp')) = utf8_open_size (ic_ch (ictx wp)) \<and>
          (utf8_open_size (ic_ch (ictx wp)) \<noteq> 0 \<longrightarrow> ud_have (ic_utf8data (ictx wp')) = 1)"
      show "handled itr wp (wp', stay)"
        using r free by (simp add: handled_def size utf8_ready_def)
    qed
    ultimately show ?thesis by simp
  next
    case H_utf8_add
    then have k: "2 \<le> utf8_pending (ic_state (ictx wp))" using ok by auto
    then have ud: "utf8_data_ok (ic_utf8data (ictx wp))"
      "ud_have (ic_utf8data (ictx wp)) + utf8_pending (ic_state (ictx wp)) = ud_size (ic_utf8data (ictx wp))"
      using ready by (auto simp: utf8_ready_def)
    have lt: "ud_have (ic_utf8data (ictx wp)) < ud_size (ic_utf8data (ictx wp))" using k ud(2) by linarith
    obtain wp1 where 1: "input_utf8_add wp = Some wp1" "pane_core wp1" "pane_keep wp wp1"
      "ic_state (ictx wp1) = ic_state (ictx wp)" "utf8_data_ok (ic_utf8data (ictx wp1))"
      "ud_have (ic_utf8data (ictx wp1)) = ud_have (ic_utf8data (ictx wp)) + 1"
      "ud_size (ic_utf8data (ictx wp1)) = ud_size (ic_utf8data (ictx wp))"
      using input_utf8_add_returns [OF core ud(1) lt] unfolding returns_eq by blast
    obtain st where st: "it_state itr = Some st" "utf8_pending (ic_state (ictx wp)) = utf8_pending st + 1"
      using ok H_utf8_add by auto
    have "utf8_ready st (ic_utf8data (ictx wp1))"
      using ud(2) st(2) 1(5-7) by (simp add: utf8_ready_def)
    then show ?thesis using 1(1-4) st(1) by (simp add: input_run_handler_def H_utf8_add handled_def)
  next
    case H_utf8_close
    then have k: "utf8_pending (ic_state (ictx wp)) = 1" using ok by simp
    then have ud: "utf8_data_ok (ic_utf8data (ictx wp))"
      "ud_have (ic_utf8data (ictx wp)) + 1 = ud_size (ic_utf8data (ictx wp))"
      using ready by (auto simp: utf8_ready_def)
    obtain wp1 where 1: "input_utf8_close wp = Some wp1" "pane_core wp1" "pane_keep wp wp1"
      "ic_state (ictx wp1) = ic_state (ictx wp)"
      using input_utf8_close_returns [OF core ud] unfolding returns_eq by blast
    have "it_state itr = to_ground" using ok H_utf8_close by simp
    then show ?thesis using 1 by (simp add: input_run_handler_def H_utf8_close handled_def utf8_ready_def)
  next
    case H_csi_dispatch
    then have st: "ic_state (ictx wp) \<in> {input_state_csi_enter, input_state_csi_parameter, input_state_csi_intermediate}"
      "it_state itr = to_ground" using ok by auto
    have "returns (input_csi_dispatch wp) (pane_step wp)"
      by (rule input_csi_dispatch_step [OF core])
         (use csi_hazard_byte safe st(1) in \<open>unfold input_hazard_def, blast\<close>)
    from handled_step [OF this, of itr] show ?thesis using st(2) by (simp add: input_run_handler_def H_csi_dispatch)
  qed (insert ok, simp_all add: input_run_handler_def handled_step [of "Some _", simplified] handled_step
        input_print_step core collect_step input_c0_dispatch_step input_esc_dispatch_step input_dcs_dispatch_step)
qed

lemma input_no_handler:
  assumes "pane_core wp" and "transition_ok (ic_state (ictx wp)) itr" and "it_handler itr = None"
  shows "handled itr wp (wp, False)"
  using assms by (auto simp: handled_def transition_ok_def intro: utf8_ready_none split: option.splits)

lemma input_since_ground:
  "pane_ok wp \<Longrightarrow> pane_ok (upd_ictx (\<lambda>ic. ic\<lparr>ic_since_ground := bs\<rparr>) wp)"
  "pane_ok wp \<Longrightarrow> pane_ok (upd_ictx (\<lambda>ic. ic\<lparr>ic_since_ground := ic_since_ground ic @ bs\<rparr>) wp)"
  "pane_core wp \<Longrightarrow> pane_core (upd_ictx (\<lambda>ic. ic\<lparr>ic_ch := ch\<rparr>) wp)"
  by (auto simp: pane_ok_def utf8_state_ok_ready ictx_ok_def intro!: pane_core_ictx dest: ictx_ok_core)

lemma input_next_state_returns:
  assumes h: "handled itr wp (wp', False)"
  shows "returns (case it_state itr of None \<Rightarrow> Some wp' | Some st \<Rightarrow> input_set_state st wp')
    (\<lambda>wp''. pane_ok wp'' \<and> pane_keep wp wp'')"
proof (cases "it_state itr")
  case None
  then show ?thesis using h by (simp add: handled_def pane_ok_def utf8_state_ok_ready)
next
  case (Some st)
  have core: "pane_core wp'" and keep: "pane_keep wp wp'" and ready: "utf8_ready st (ic_utf8data (ictx wp'))"
    using h Some by (simp_all add: handled_def)
  show ?thesis unfolding Some option.case
  proof (rule returns_mono [OF input_set_state_moved [OF core]], elim conjE)
    fix wp'' assume m: "pane_moved wp' st wp''"
    show "pane_ok wp'' \<and> pane_keep wp wp''"
      using m ready pane_keep_trans [OF keep] by (simp add: pane_moved_def pane_ok_def utf8_state_ok_ready)
  qed
qed

theorem input_byte_returns:
  assumes ok: "pane_ok wp" and safe: "\<not> input_hazard ch wp"
  shows "returns (input_byte ch wp) (\<lambda>wp'. pane_ok wp' \<and> pane_keep wp wp')"
proof -
  define wp0 where "wp0 = upd_ictx (\<lambda>ic. ic\<lparr>ic_ch := ch\<rparr>) wp"
  have core: "pane_core wp0" using input_since_ground(3) ok by (simp add: wp0_def pane_ok_def)
  have 0: "utf8_ready (ic_state (ictx wp0)) (ic_utf8data (ictx wp0))" "ic_ch (ictx wp0) = ch"
    "\<not> input_hazard (ic_ch (ictx wp0)) wp0" "pane_keep wp wp0"
    using ok safe by (simp_all add: wp0_def pane_ok_def utf8_state_ok_ready input_hazard_def)
  obtain itr where itr: "input_find_transition (ic_state (ictx wp0)) ch = Some itr"
    "itr \<in> set (input_transitions (ic_state (ictx wp0)))" "it_first itr \<le> ch" "ch \<le> it_last itr"
    using input_find_transition_returns [of "ic_state (ictx wp0)" ch] unfolding returns_eq by blast
  note tok = tables_ok [OF itr(2)]
  have "returns (case it_handler itr of None \<Rightarrow> Some (wp0, False) | Some h \<Rightarrow> input_run_handler h wp0) (handled itr wp0)"
  proof (cases "it_handler itr")
    case None
    then show ?thesis using input_no_handler [OF core tok] by simp
  next
    case (Some h)
    have "returns (input_run_handler h wp0) (handled itr wp0)"
      by (rule input_run_handler_returns [OF core 0(1) tok Some _ _ 0(3)]) (simp_all add: 0(2) itr)
    then show ?thesis by (simp add: Some)
  qed
  then obtain wp1 stay where 1: "(case it_handler itr of None \<Rightarrow> Some (wp0, False)
      | Some h \<Rightarrow> input_run_handler h wp0) = Some (wp1, stay)" "handled itr wp0 (wp1, stay)"
    unfolding returns_eq by (metis surj_pair)
  have start: "input_byte ch wp = (if stay then Some wp1 else do {
      wp \<leftarrow> (case it_state itr of None \<Rightarrow> Some wp1 | Some st \<Rightarrow> input_set_state st wp1);
      Some (if ic_state (ictx wp) \<noteq> input_state_ground
            then upd_ictx (\<lambda>ic. ic\<lparr>ic_since_ground := ic_since_ground ic @ [ch]\<rparr>) wp else wp) })"
    unfolding input_byte_def Let_def wp0_def [symmetric] itr(1) by (simp add: 1(1))
  show ?thesis
  proof (cases stay)
    case True
    have "pane_ok wp1" "pane_keep wp0 wp1"
      using 1(2) True by (simp_all add: handled_def pane_ok_def utf8_state_ok_ready)
    then show ?thesis using start True pane_keep_trans [OF 0(4)] by simp
  next
    case False
    have r: "returns (case it_state itr of None \<Rightarrow> Some wp1 | Some st \<Rightarrow> input_set_state st wp1)
        (\<lambda>wp2. pane_ok wp2 \<and> pane_keep wp0 wp2)"
      using input_next_state_returns 1(2) False by simp
    show ?thesis unfolding start using False
      by (auto intro!: returns_mono [OF r] input_since_ground pane_keep_trans [OF 0(4)]
          intro: pane_keep_trans [OF _ pane_keep_ictx])
  qed
qed

section \<open>Any input\<close>

text \<open>Where the parser stops: it returns after all of the bytes, or it dies at a byte that is a hazard.\<close>

lemma input_bytes_outcome:
  assumes "pane_ok wp"
  shows "(\<exists>wp'. input_bytes bs wp = Some wp' \<and> pane_ok wp' \<and> pane_keep wp wp') \<or>
    (\<exists>pre ch post wp'. bs = pre @ ch # post \<and> input_bytes pre wp = Some wp' \<and> pane_ok wp' \<and>
      pane_keep wp wp' \<and> input_hazard ch wp')"
  using assms
proof (induction bs arbitrary: wp)
  case Nil
  then show ?case by (simp add: input_bytes_def)
next
  case (Cons b bs)
  show ?case
  proof (cases "input_hazard b wp")
    case True
    then show ?thesis using Cons.prems
      by (intro disjI2 exI [of _ "[]"] exI [of _ b] exI [of _ bs] exI [of _ wp]) (simp add: input_bytes_def)
  next
    case False
    then obtain wp1 where 1: "input_byte b wp = Some wp1" "pane_ok wp1" "pane_keep wp wp1"
      using input_byte_returns [OF Cons.prems] unfolding returns_eq by blast
    have step: "input_bytes (b # bs') wp = input_bytes bs' wp1" for bs' by (simp add: input_bytes_def 1(1))
    from Cons.IH [OF 1(2)] show ?thesis
    proof (elim disjE exE conjE)
      fix wp' assume "input_bytes bs wp1 = Some wp'" "pane_ok wp'" "pane_keep wp1 wp'"
      then show ?thesis using step pane_keep_trans [OF 1(3)] by auto
    next
      fix pre ch post wp'
      assume r: "bs = pre @ ch # post" "input_bytes pre wp1 = Some wp'" "pane_ok wp'" "pane_keep wp1 wp'" "input_hazard ch wp'"
      then have "b # bs = (b # pre) @ ch # post \<and> input_bytes (b # pre) wp = Some wp' \<and> pane_ok wp' \<and>
          pane_keep wp wp' \<and> input_hazard ch wp'"
        using step pane_keep_trans [OF 1(3)] by auto
      then show ?thesis by blast
    qed
  qed
qed

section \<open>New panes\<close>

lemma window_pane_create_returns:
  assumes size: "2 \<le> sx" "sx \<le> DIM_MAX" "0 < sy" "sy \<le> DIM_MAX" "0 < hlimit" "hlimit \<le> INT_MAX"
    and opts: "options_ok (w_options w)"
  shows "returns (window_pane_create k hn w sx sy hlimit) (\<lambda>wp. pane_ok wp \<and> wp_window wp = w \<and>
    screen_size_x (wp_base wp) = sx \<and> screen_size_y (wp_base wp) = sy \<and> wp_ictx wp = input_init \<and>
    wp_saved_grid wp = None \<and> \<not> wp_mode wp \<and> wp_tty wp = [])"
proof -
  have "0 < sx" using size(1) by simp
  then have "returns (screen_init hn sx sy hlimit) (\<lambda>s. screen_safe s \<and> grid_keep (grid_blank sx sy hlimit) (scr_grid s))"
    unfolding screen_init_def grid_create_blank [OF size(3)] Option.bind.bind_lunit
    by (intro returns_mono [OF screen_reinit_safe]) (use view_blank_ok size in auto)
  then obtain s where s: "screen_init hn sx sy hlimit = Some s" "screen_safe s"
    "grid_keep (grid_blank sx sy hlimit) (scr_grid s)" unfolding returns_eq by blast
  have "grid_ok (scr_grid s)" using s(2) by (simp add: screen_safe_def screen_ok_def view_ok_def)
  then have "grid_total (scr_grid s) \<le> gd_hlimit (scr_grid s) + DIM_MAX"
    by (intro total_keep [OF _ s(3)]) (use size in \<open>simp_all add: grid_blank_def\<close>)
  moreover have "gd_sx (scr_grid s) = sx" "gd_sy (scr_grid s) = sy" "0 < gd_hlimit (scr_grid s)"
    using s(3) size(5) by (simp_all add: grid_keep_def grid_blank_def)
  ultimately show ?thesis using s(2) opts
    by (simp add: window_pane_create_def s(1) pane_ok_def pane_core_def saved_ok_def ictx_ok_def input_init_def
        is_utf8_def utf8_state_ok_def grid_default_cell_def Let_def)
qed

text \<open>A store with the options the parser reads.\<close>

definition default_options :: options where
  "default_options = fold (\<lambda>name oo. options_set_number oo name 1) input_options (options_init None)"

lemma default_options_ok: "options_ok default_options"
  by (simp add: options_ok_def default_options_def input_options_def)

lemma fresh_pane:
  obtains wp where "window_pane_create 0 None \<lparr>w_name = [], w_flags = 0, w_options = default_options, w_calls = []\<rparr> 80 24 2000 = Some wp"
    "pane_ok wp" "screen_size_x (wp_base wp) = 80" "screen_size_y (wp_base wp) = 24" "wp_ictx wp = input_init"
    "wp_saved_grid wp = None" "\<not> wp_mode wp" "wp_tty wp = []"
proof -
  have opts: "options_ok (w_options \<lparr>w_name = [], w_flags = 0, w_options = default_options, w_calls = []\<rparr>)"
    using default_options_ok by simp
  show ?thesis
    using window_pane_create_returns [of 80 24 2000, OF _ _ _ _ _ _ opts, of 0 None] that
    unfolding returns_eq by auto
qed

section \<open>Properties\<close>

text \<open>
  C1. The terminal parser survives any output of the program in the pane. From a well-formed pane, whatever the
  bytes are, either all of them are parsed and the pane is well formed again with its size, its history limit
  and its earlier terminal commands and replies kept; or there is a first byte before which all of this holds
  and at which one of the two known faults is reached (\<open>input_hazard\<close>: a backward tab with the cursor behind
  the tab stops, or a switch to the alternate screen with a stale visible line).
\<close>

theorem input_bytes_safe:
  assumes "pane_ok wp"
  shows "(\<exists>wp'. input_bytes bs wp = Some wp' \<and> pane_ok wp' \<and> pane_keep wp wp') \<or>
    (\<exists>pre ch post wp'. bs = pre @ ch # post \<and> input_bytes pre wp = Some wp' \<and> pane_ok wp' \<and>
      pane_keep wp wp' \<and> input_hazard ch wp')"
  by (rule input_bytes_outcome [OF assms])

theorem input_bytes_safe_witness:
  "\<exists>wp wp'. pane_ok wp \<and> input_bytes [0x1b, 0x5b, 0x33, 0x31, 0x6d, 0xe4, 0xb8, 0xad, 0x0a] wp = Some wp' \<and> pane_ok wp'"
proof -
  obtain wp where wp: "pane_ok wp" by (rule fresh_pane)
  have "\<not> input_hazard ch wp'" if "ch \<in> set [0x1b, 0x5b, 0x33, 0x31, 0x6d, 0xe4, 0xb8, 0xad, 0x0a]" for ch wp'
    using that by (auto simp: input_hazard_def)
  then show ?thesis
    using input_bytes_safe [OF wp, of "[0x1b, 0x5b, 0x33, 0x31, 0x6d, 0xe4, 0xb8, 0xad, 0x0a]"] wp
    by (metis in_set_conv_decomp)
qed

text \<open>
  C39. A new pane is well formed: for every size from two columns and one row up to the limits, creating a pane
  succeeds, and its screen, parser and options satisfy the invariant that the parser keeps.
\<close>

theorem window_pane_create_ok:
  assumes "2 \<le> sx" "sx \<le> DIM_MAX" "0 < sy" "sy \<le> DIM_MAX" "0 < hlimit" "hlimit \<le> INT_MAX"
    and "options_ok (w_options w)"
  shows "\<exists>wp. window_pane_create k hn w sx sy hlimit = Some wp \<and> pane_ok wp \<and>
    screen_size_x (wp_base wp) = sx \<and> screen_size_y (wp_base wp) = sy \<and> wp_tty wp = [] \<and>
    (\<forall>bs. (\<forall>ch \<in> set bs. ch \<noteq> 0x5a \<and> ch \<noteq> 0x68) \<longrightarrow> (\<exists>wp'. input_bytes bs wp = Some wp' \<and> pane_ok wp'))"
proof -
  obtain wp where wp: "window_pane_create k hn w sx sy hlimit = Some wp" "pane_ok wp"
    "screen_size_x (wp_base wp) = sx" "screen_size_y (wp_base wp) = sy" "wp_tty wp = []"
    using window_pane_create_returns [OF assms, of k hn] unfolding returns_eq by blast
  have "\<exists>wp'. input_bytes bs wp = Some wp' \<and> pane_ok wp'" if bs: "\<forall>ch \<in> set bs. ch \<noteq> 0x5a \<and> ch \<noteq> 0x68" for bs
    using input_bytes_outcome [OF wp(2), of bs]
  proof (elim disjE exE conjE)
    fix pre ch post wp' assume "bs = pre @ ch # post" "input_hazard ch wp'"
    then show ?thesis using bs by (auto simp: input_hazard_def)
  qed auto
  then show ?thesis using wp by blast
qed

theorem window_pane_create_ok_witness:
  "\<exists>wp. window_pane_create 3 None \<lparr>w_name = [], w_flags = 0, w_options = default_options, w_calls = []\<rparr> 80 24 2000 = Some wp \<and>
     pane_ok wp \<and> (\<exists>wp'. input_bytes [0x41, 0x0d] wp = Some wp' \<and> pane_ok wp')"
proof -
  have opts: "options_ok (w_options \<lparr>w_name = [], w_flags = 0, w_options = default_options, w_calls = []\<rparr>)"
    using default_options_ok by simp
  obtain wp where "window_pane_create 3 None \<lparr>w_name = [], w_flags = 0, w_options = default_options, w_calls = []\<rparr> 80 24 2000 = Some wp"
    "pane_ok wp" "\<forall>bs. (\<forall>ch \<in> set bs. ch \<noteq> 0x5a \<and> ch \<noteq> 0x68) \<longrightarrow> (\<exists>wp'. input_bytes bs wp = Some wp' \<and> pane_ok wp')"
    using window_pane_create_ok [of 80 24 2000, OF _ _ _ _ _ _ opts, of 3 None] by auto
  then show ?thesis by (intro exI [of _ wp]) simp
qed

end
