(* ===== verification/Input_Sequences.thy ===== *)
theory Input_Sequences
  imports Input_Props
begin

text \<open>
  What the parser does with whole sequences: the search in the command tables agrees with a scan of them, a
  string terminator brings the parser back to its ground state, and a control sequence reaches its handler
  with the parameters it was sent with.
\<close>

unbundle bit_operations_syntax

section \<open>The command tables\<close>

text \<open>A list in which the key is looked for: above the key before it, below it after it.\<close>

abbreviation ordered_for :: "('e \<Rightarrow> int) \<Rightarrow> 'e list \<Rightarrow> bool" where
  "ordered_for compar xs \<equiv> sorted_wrt (\<lambda>a b. (0 \<le> compar b \<longrightarrow> 0 < compar a) \<and> (compar a \<le> 0 \<longrightarrow> compar b < 0)) xs"

lemma ordered_for_nth:
  assumes "ordered_for compar xs" and "i < j" and "j < length xs"
  shows "0 \<le> compar (xs ! j) \<Longrightarrow> 0 < compar (xs ! i)" "compar (xs ! i) \<le> 0 \<Longrightarrow> compar (xs ! j) < 0"
  using sorted_wrt_nth_less [OF assms] by auto

text \<open>The loop finds the entry when it lies in the range that is left.\<close>

lemma bsearch_loop_complete:
  assumes "ordered_for compar xs" and "base + lim \<le> length xs"
    and "base \<le> k" and "k < base + lim" and "compar (xs ! k) = 0"
  shows "bsearch_loop compar xs base lim = Some (xs ! k)"
  using assms
proof (induction compar xs base lim rule: bsearch_loop.induct)
  case (1 compar xs base lim)
  let ?p = "base + lim div 2"
  have lim: "lim \<noteq> 0" using 1(5,6) by simp
  have p: "?p < length xs" using 1(4) lim by linarith
  have k: "k < length xs" using 1(4,6) by linarith
  note key = 1(7)
  note lower = ordered_for_nth [OF 1(3)]
  have "?p = k \<longleftrightarrow> compar (xs ! ?p) = 0" "compar (xs ! ?p) > 0 \<longrightarrow> ?p < k" "compar (xs ! ?p) < 0 \<longrightarrow> k < ?p"
    using lower(2) [of ?p k] lower(1) [of k ?p] lower(1) [of ?p k] lower(2) [of k ?p] p k key
    by (metis less_irrefl linorder_neqE_nat order.refl less_asym)+
  then consider "?p = k" "compar (xs ! ?p) = 0" | "?p < k" "compar (xs ! ?p) > 0" | "k < ?p" "compar (xs ! ?p) < 0"
    by linarith
  then show ?case
  proof cases
    case 1
    then show ?thesis using lim by (subst bsearch_loop.simps) simp
  next
    case 2
    have "bsearch_loop compar xs (?p + 1) ((lim - 1) div 2) = Some (xs ! k)"
      by (rule 1(1) [OF lim refl refl]) (use 2 1(3,4,6) key in \<open>auto\<close>)
    then show ?thesis using lim 2(2) by (subst bsearch_loop.simps) (simp add: Let_def)
  next
    case 3
    have "bsearch_loop compar xs base (lim div 2) = Some (xs ! k)"
      by (rule 1(2) [OF lim refl refl]) (use 3 1(3,4,5) key in \<open>auto\<close>)
    then show ?thesis using lim 3(2) by (subst bsearch_loop.simps) (simp add: Let_def)
  qed
qed

lemma bsearch_find:
  assumes "ordered_for compar xs"
  shows "bsearch compar xs = find (\<lambda>e. compar e = 0) xs"
proof (cases "\<exists>k < length xs. compar (xs ! k) = 0")
  case True
  then obtain k where k: "k < length xs" "compar (xs ! k) = 0" by blast
  have "compar (xs ! j) \<noteq> 0" if "j < k" for j
    using ordered_for_nth(1) [OF assms that k(1)] k(2) by simp
  then have "find (\<lambda>e. compar e = 0) xs = Some (xs ! k)" unfolding find_Some_iff using k by blast
  moreover have "bsearch compar xs = Some (xs ! k)"
    unfolding bsearch_def by (rule bsearch_loop_complete [OF assms]) (use k in auto)
  ultimately show ?thesis by simp
next
  case False
  then have "find (\<lambda>e. compar e = 0) xs = None" by (auto simp: find_None_iff in_set_conv_nth)
  moreover have "bsearch compar xs = None"
    using bsearch_sound [of compar xs] False by (cases "bsearch compar xs") (auto simp: in_set_conv_nth)
  ultimately show ?thesis by simp
qed

text \<open>\<open>strcmp\<close> orders strings without a NUL.\<close>

abbreviation no_nul :: "u_char list \<Rightarrow> bool" where
  "no_nul s \<equiv> 0 \<notin> set s"

lemma uint_pos: "(b :: u_char) \<noteq> 0 \<Longrightarrow> 0 < uint b"
  by (metis uint_0_iff uint_ge_0 order_le_less)

lemma strcmp_zero: "no_nul s \<Longrightarrow> no_nul t \<Longrightarrow> strcmp s t = 0 \<longleftrightarrow> s = t"
  by (induction s t rule: strcmp.induct) (auto simp: word_uint_eq_iff dest: uint_pos)

lemma strcmp_order:
  assumes "no_nul s" "no_nul a" "no_nul b" "strcmp a b < 0"
  shows "(0 \<le> strcmp s b \<longrightarrow> 0 < strcmp s a) \<and> (strcmp s a \<le> 0 \<longrightarrow> strcmp s b < 0)"
  using assms
proof (induction a b arbitrary: s rule: strcmp.induct)
  case (4 c a d b)
  show ?case
  proof (cases s)
    case Nil
    then show ?thesis using 4(2-) uint_pos [of c] uint_pos [of d] by simp
  next
    case (Cons e u)
    then show ?thesis using 4 by (cases "c = d") (auto simp: word_uint_eq_iff)
  qed
next
  case (3 d b)
  then show ?case by (cases s) (auto dest!: uint_pos)
qed (auto dest!: uint_pos)

fun entry_less :: "input_table_entry \<Rightarrow> input_table_entry \<Rightarrow> bool" where
  "entry_less (c, i, t) (d, j, u) \<longleftrightarrow> c < d \<or> c = d \<and> strcmp i j < 0"

lemma entry_less_ordered:
  assumes "no_nul interm" "entry_less a b" "no_nul (fst (snd a))" "no_nul (fst (snd b))"
  shows "(0 \<le> input_table_compare ch interm b \<longrightarrow> 0 < input_table_compare ch interm a) \<and>
    (input_table_compare ch interm a \<le> 0 \<longrightarrow> input_table_compare ch interm b < 0)"
proof -
  obtain c i t d j u where e: "a = (c, i, t)" "b = (d, j, u)" by (cases a, cases b) auto
  have cd: "c < d \<or> c = d \<and> strcmp i j < 0" using assms(2) e by simp
  show ?thesis
  proof (cases "c = d")
    case True
    then have "strcmp i j < 0" using cd by simp
    then show ?thesis using strcmp_order [of interm i j] True assms(1,3,4) e
      by (cases "ch = d") (auto simp: input_table_compare_def word_uint_eq_iff)
  next
    case False
    then have "uint c < uint d" using cd by (simp add: word_less_def)
    then show ?thesis using e by (auto simp: input_table_compare_def)
  qed
qed

lemma tables_sorted:
  "sorted_wrt entry_less input_esc_table \<and> (\<forall>e \<in> set input_esc_table. no_nul (fst (snd e)))"
  "sorted_wrt entry_less input_csi_table \<and> (\<forall>e \<in> set input_csi_table. no_nul (fst (snd e)))"
  by (simp_all add: input_esc_table_def input_csi_table_def)

lemma table_ordered:
  assumes "no_nul interm" and "sorted_wrt entry_less xs \<and> (\<forall>e \<in> set xs. no_nul (fst (snd e)))"
  shows "ordered_for (input_table_compare ch interm) xs"
  by (rule sorted_wrt_mono_rel [OF _ conjunct1 [OF assms(2)]])
     (use assms(2) entry_less_ordered [OF assms(1)] in blast)

lemma input_table_compare_zero:
  "no_nul interm \<Longrightarrow> no_nul i \<Longrightarrow> input_table_compare ch interm (e, i, ty) = 0 \<longleftrightarrow> e = ch \<and> i = interm"
  using strcmp_zero [of interm i] by (auto simp: input_table_compare_def word_uint_eq_iff)

lemma table_bsearch:
  assumes interm: "no_nul interm" and xs: "sorted_wrt entry_less xs \<and> (\<forall>e \<in> set xs. no_nul (fst (snd e)))"
  shows "bsearch (input_table_compare ch interm) xs = find (\<lambda>(e, i, _). e = ch \<and> i = interm) xs"
  unfolding bsearch_find [OF table_ordered [OF assms]]
  by (rule find_cong [OF refl]) (use input_table_compare_zero [OF interm] xs in auto)

text \<open>
  C12. The parser's tables are right: every state has a transition for every byte, so that no byte kills the
  server; and the binary search for an escape or control sequence finds the entry with exactly its final
  byte and its intermediate bytes, or nothing when the table has none.
\<close>

theorem input_tables_correct:
  assumes "0 \<notin> set interm"
  shows "bsearch (input_table_compare ch interm) input_esc_table = find (\<lambda>(e, i, _). e = ch \<and> i = interm) input_esc_table \<and>
    bsearch (input_table_compare ch interm) input_csi_table = find (\<lambda>(e, i, _). e = ch \<and> i = interm) input_csi_table \<and>
    (\<exists>itr \<in> set (input_transitions st). input_find_transition st ch = Some itr \<and> it_first itr \<le> ch \<and> ch \<le> it_last itr)"
  using table_bsearch [OF assms tables_sorted(1)] table_bsearch [OF assms tables_sorted(2)]
    input_find_transition_returns [of st ch] unfolding returns_eq by auto

theorem input_tables_correct_witness:
  "bsearch (input_table_compare 0x63 [0x3e]) input_csi_table = Some (0x63, [0x3e], INPUT_CSI_DA_TWO)"
  using input_tables_correct [of "[0x3e]" "0x63"] by (simp add: input_csi_table_def)

section \<open>Control sequences\<close>

text \<open>A parameter byte: a digit or the separator.\<close>

definition is_param :: "u_char \<Rightarrow> bool" where
  "is_param b \<longleftrightarrow> (0x30 \<le> b \<and> b \<le> 0x39) \<or> b = 0x3b"

lemma find_digit:
  assumes "0x30 \<le> b" "b \<le> 0x39"
  shows "input_find_transition input_state_csi_enter b = Some (tr 0x30 0x39 (Some H_parameter) (Some input_state_csi_parameter))"
    "input_find_transition input_state_csi_parameter b = Some (tr 0x30 0x39 (Some H_parameter) None)"
proof -
  have "48 \<le> uint b" "uint b \<le> 57" using assms by (simp_all add: word_le_def)
  then show "input_find_transition input_state_csi_enter b = Some (tr 0x30 0x39 (Some H_parameter) (Some input_state_csi_parameter))"
    "input_find_transition input_state_csi_parameter b = Some (tr 0x30 0x39 (Some H_parameter) None)"
    by (simp_all add: input_find_transition_def input_table_defs word_le_def)
qed

lemma find_params:
  assumes "is_param b"
  shows "\<exists>a c. input_find_transition input_state_csi_enter b = Some (tr a c (Some H_parameter) (Some input_state_csi_parameter))"
    "\<exists>a c. input_find_transition input_state_csi_parameter b = Some (tr a c (Some H_parameter) None)"
proof -
  have "input_find_transition input_state_csi_enter 0x3b = Some (tr 0x3b 0x3b (Some H_parameter) (Some input_state_csi_parameter))"
    "input_find_transition input_state_csi_parameter 0x3b = Some (tr 0x3b 0x3b (Some H_parameter) None)"
    by (simp_all add: input_find_transition_def input_table_defs)
  then show "\<exists>a c. input_find_transition input_state_csi_enter b = Some (tr a c (Some H_parameter) (Some input_state_csi_parameter))"
    "\<exists>a c. input_find_transition input_state_csi_parameter b = Some (tr a c (Some H_parameter) None)"
    using assms find_digit [of b] by (auto simp: is_param_def)
qed

lemma find_final:
  assumes "0x40 \<le> b" "b \<le> 0x7e"
  shows "input_find_transition input_state_csi_enter b = Some (tr 0x40 0x7e (Some H_csi_dispatch) to_ground)"
    "input_find_transition input_state_csi_parameter b = Some (tr 0x40 0x7e (Some H_csi_dispatch) to_ground)"
proof -
  have "64 \<le> uint b" "uint b \<le> 126" using assms by (simp_all add: word_le_def)
  then show "input_find_transition input_state_csi_enter b = Some (tr 0x40 0x7e (Some H_csi_dispatch) to_ground)"
    "input_find_transition input_state_csi_parameter b = Some (tr 0x40 0x7e (Some H_csi_dispatch) to_ground)"
    by (simp_all add: input_find_transition_def input_table_defs word_le_def)
qed

lemma find_start:
  "input_find_transition input_state_ground 0x1b = Some (tr 0x1b 0x1b None (Some input_state_esc_enter))"
  "input_find_transition input_state_esc_enter 0x5b = Some (tr 0x5b 0x5b None (Some input_state_csi_enter))"
  by (simp_all add: input_find_transition_def input_table_defs)

abbreviation csi_collect :: "u_char list \<Rightarrow> u_char \<Rightarrow> window_pane \<Rightarrow> window_pane" where
  "csi_collect ps c wp \<equiv> upd_ictx (\<lambda>ic. ic\<lparr>ic_ch := c, ic_state := input_state_csi_parameter,
     ic_param_buf := ic_param_buf ic @ ps, ic_since_ground := ic_since_ground ic @ ps\<rparr>) wp"

lemma input_byte_param:
  assumes b: "is_param b" and st: "ic_state (ictx wp) \<in> {input_state_csi_enter, input_state_csi_parameter}"
    and room: "length (ic_param_buf (ictx wp)) < 63"
  shows "input_byte b wp = Some (csi_collect [b] b wp)"
proof (cases "ic_state (ictx wp) = input_state_csi_enter")
  case True
  obtain a c where t: "input_find_transition input_state_csi_enter b =
      Some (tr a c (Some H_parameter) (Some input_state_csi_parameter))" using find_params(1) [OF b] by blast
  show ?thesis using room
    by (simp add: input_byte_def True t input_run_handler_def input_parameter_def collect_byte_def
        input_set_state_def input_state_exit_def input_state_enter_def upd_ictx_def)
next
  case False
  then have st': "ic_state (ictx wp) = input_state_csi_parameter" using st by simp
  obtain a c where t: "input_find_transition input_state_csi_parameter b = Some (tr a c (Some H_parameter) None)"
    using find_params(2) [OF b] by blast
  show ?thesis using room
    by (simp add: input_byte_def st' t input_run_handler_def input_parameter_def collect_byte_def upd_ictx_def)
qed

lemma input_bytes_params:
  assumes "\<forall>b \<in> set ps. is_param b" and "ps \<noteq> []"
    and "ic_state (ictx wp) \<in> {input_state_csi_enter, input_state_csi_parameter}"
    and "length (ic_param_buf (ictx wp)) + length ps \<le> 63"
  shows "input_bytes ps wp = Some (csi_collect ps (last ps) wp)"
  using assms
proof (induction ps arbitrary: wp)
  case (Cons b ps)
  have 1: "input_byte b wp = Some (csi_collect [b] b wp)"
    using Cons.prems by (intro input_byte_param) simp_all
  show ?case
  proof (cases "ps = []")
    case True
    then show ?thesis by (simp add: input_bytes_def 1)
  next
    case False
    have "input_bytes ps (csi_collect [b] b wp) = Some (csi_collect ps (last ps) (csi_collect [b] b wp))"
      using Cons.prems False by (intro Cons.IH) simp_all
    then show ?thesis using False by (simp add: input_bytes_def 1 upd_ictx_def)
  qed
qed simp

lemma input_bytes_append: "input_bytes (xs @ ys) wp = input_bytes xs wp \<bind> input_bytes ys"
  by (simp add: input_bytes_def fold_opt_append)

text \<open>The parser's context when a control sequence is dispatched.\<close>

definition csi_sent :: "u_char list \<Rightarrow> u_char \<Rightarrow> input_ctx \<Rightarrow> input_ctx" where
  "csi_sent ps ch ic = (input_clear ic)\<lparr>ic_param_buf := ps, ic_ch := ch,
     ic_state := (if ps = [] then input_state_csi_enter else input_state_csi_parameter),
     ic_since_ground := ic_since_ground ic @ [0x1b, 0x5b] @ ps\<rparr>"

lemma input_bytes_csi_start:
  assumes "ic_state (ictx wp) = input_state_ground"
  shows "input_bytes [0x1b, 0x5b] wp = Some (upd_ictx (csi_sent [] 0x5b) wp)"
  using assms find_start
  by (simp add: input_bytes_def input_byte_def input_set_state_def input_state_exit_def input_state_enter_def
      upd_ictx_def csi_sent_def input_clear_def clear_flag_def and.assoc)

lemma csi_sent_ok: "pane_core wp \<Longrightarrow> length ps \<le> 63 \<Longrightarrow> pane_core (upd_ictx (csi_sent ps ch) wp)"
  by (rule pane_core_ictx) (auto simp: csi_sent_def input_clear_def ictx_ok_def dest: ictx_ok_core)

lemma input_bytes_csi:
  assumes core: "pane_core wp" and st: "ic_state (ictx wp) = input_state_ground"
    and ps: "\<forall>b \<in> set ps. is_param b" "length ps \<le> 63" and ch: "0x40 \<le> ch" "ch \<le> 0x7e"
    and safe: "\<not> input_hazard ch (upd_ictx (csi_sent ps ch) wp)"
  obtains wp1 where "input_csi_dispatch (upd_ictx (csi_sent ps ch) wp) = Some wp1"
    "pane_step (upd_ictx (csi_sent ps ch) wp) wp1"
    "input_bytes (0x1b # 0x5b # ps @ [ch]) wp =
       Some (upd_ictx (\<lambda>ic. ic\<lparr>ic_since_ground := [], ic_state := input_state_ground\<rparr>) wp1)"
proof -
  let ?wp = "upd_ictx (csi_sent ps ch) wp"
  have mid: "input_bytes (0x1b # 0x5b # ps) wp = Some (upd_ictx (csi_sent ps (if ps = [] then 0x5b else last ps)) wp)"
  proof (cases "ps = []")
    case True
    then show ?thesis using input_bytes_csi_start [OF st] by simp
  next
    case False
    have "input_bytes ps (upd_ictx (csi_sent [] 0x5b) wp) =
        Some (csi_collect ps (last ps) (upd_ictx (csi_sent [] 0x5b) wp))"
      using ps False by (intro input_bytes_params) (simp_all add: csi_sent_def)
    then show ?thesis using input_bytes_append [of "[0x1b, 0x5b]" ps wp] input_bytes_csi_start [OF st] False
      by (simp add: csi_sent_def upd_ictx_def)
  qed
  have state: "ic_state (ictx ?wp) \<in> {input_state_csi_enter, input_state_csi_parameter}" by (simp add: csi_sent_def)
  have step: "returns (input_csi_dispatch ?wp) (pane_step ?wp)"
  proof (rule input_csi_dispatch_step [OF csi_sent_ok [OF core ps(2)]])
    fix e i ty
    assume b: "bsearch (input_table_compare (ic_ch (ictx ?wp)) (ic_interm_buf (ictx ?wp))) input_csi_table = Some (e, i, ty)"
    have ch: "ic_ch (ictx ?wp) = ch" by (simp add: csi_sent_def)
    show "\<not> csi_hazard ty ?wp"
    proof
      assume "csi_hazard ty ?wp"
      from csi_hazard_byte [OF b this] have "input_hazard ch ?wp"
        unfolding input_hazard_def ch by (simp add: csi_sent_def)
      then show False using safe by simp
    qed
  qed
  then obtain wp1 where wp1: "input_csi_dispatch ?wp = Some wp1" "pane_step ?wp wp1" unfolding returns_eq by blast
  have t: "input_find_transition (ic_state (ictx ?wp)) ch = Some (tr 0x40 0x7e (Some H_csi_dispatch) to_ground)"
    using find_final [OF ch] state by auto
  have st1: "ic_state (ictx wp1) \<in> {input_state_csi_enter, input_state_csi_parameter}"
    using wp1(2) state by (simp add: pane_step_def)
  have same: "upd_ictx (\<lambda>ic. ic\<lparr>ic_ch := ch\<rparr>) (upd_ictx (csi_sent ps x) wp) = ?wp" for x
    by (simp add: upd_ictx_def csi_sent_def)
  have exit: "input_state_exit (ic_state (ictx wp1)) wp1 = Some wp1" using st1 by (auto simp: input_state_exit_def)
  have run: "input_run_handler H_csi_dispatch ?wp = Some (wp1, False)"
    unfolding input_run_handler_def Let_def input_handler.case wp1(1) by simp
  have ground: "input_set_state input_state_ground wp1 =
      Some (upd_ictx (\<lambda>ic. ic\<lparr>ic_since_ground := [], ic_state := input_state_ground\<rparr>) wp1)"
    unfolding input_set_state_def exit Let_def by (simp add: input_state_enter_def upd_ictx_def)
  have "input_byte ch (upd_ictx (csi_sent ps x) wp) =
      Some (upd_ictx (\<lambda>ic. ic\<lparr>ic_since_ground := [], ic_state := input_state_ground\<rparr>) wp1)" for x
    unfolding input_byte_def same Let_def t Option.bind.bind_lunit input_transition.simps option.case run
    by (simp add: ground upd_ictx_def)
  moreover have "input_bytes [ch] w = input_byte ch w" for w by (cases "input_byte ch w") (simp_all add: input_bytes_def)
  ultimately have "input_bytes (0x1b # 0x5b # ps @ [ch]) wp =
      Some (upd_ictx (\<lambda>ic. ic\<lparr>ic_since_ground := [], ic_state := input_state_ground\<rparr>) wp1)"
    using input_bytes_append [of "0x1b # 0x5b # ps" "[ch]" wp] unfolding mid append_Cons by simp
  with wp1 that show ?thesis by blast
qed

section \<open>The cursor position sequence\<close>

definition bytes_of :: "string \<Rightarrow> u_char list" where
  "bytes_of s = map (\<lambda>c. of_nat (of_char c)) s"

lemma param_string_bytes: "param_string (bytes_of s) = s"
proof (induction s)
  case (Cons c s)
  have "(of_char c :: nat) < 256" using nat_of_char_less_256 .
  then have "unat (of_nat (of_char c) :: u_char) = of_char c" by (simp add: unat_of_nat)
  then show ?case using Cons by (simp add: param_string_def bytes_of_def)
qed (simp add: param_string_def bytes_of_def)

lemma bytes_of_digits:
  assumes "list_all isdigit s"
  shows "b \<in> set (bytes_of s) \<Longrightarrow> 0x30 \<le> b \<and> b \<le> 0x39"
proof -
  assume "b \<in> set (bytes_of s)"
  then obtain c where c: "b = of_nat (of_char c)" "isdigit c" using assms by (auto simp: bytes_of_def list_all_iff)
  then have "48 \<le> (of_char c :: nat)" "(of_char c :: nat) \<le> 57" by (simp_all add: isdigit_def less_eq_char_def)
  then show ?thesis using c(1) by (simp add: word_le_nat_alt unat_of_nat)
qed

lemma strsep_fields_last: "0x3b \<notin> set xs \<Longrightarrow> strsep_fields xs = [xs]"
  by (induction xs) auto

lemma strsep_fields_cons: "0x3b \<notin> set xs \<Longrightarrow> strsep_fields (xs @ 0x3b # ys) = xs # strsep_fields ys"
  by (induction xs) auto

definition cup_params :: "nat \<Rightarrow> nat \<Rightarrow> u_char list" where
  "cup_params row col = bytes_of (dec_string row) @ 0x3b # bytes_of (dec_string col)"

lemma no_separator: "0x3b \<notin> set (bytes_of (dec_string n))"
  using bytes_of_digits [of "dec_string n"] dec_string_value [of n] by fastforce

lemma cup_params_bytes: "\<forall>b \<in> set (cup_params row col). is_param b"
  using bytes_of_digits [of "dec_string row"] bytes_of_digits [of "dec_string col"] dec_string_value
  by (auto simp: cup_params_def is_param_def)

lemma dec_string_length: "n < 10 ^ Suc k \<Longrightarrow> length (dec_string n) \<le> Suc k"
proof (induction k arbitrary: n)
  case 0
  then show ?case by (subst dec_string.simps) simp
next
  case (Suc k)
  then have "n div 10 < 10 ^ Suc k" by (simp add: less_mult_imp_div_less)
  then show ?case using Suc.IH [of "n div 10"] by (subst dec_string.simps) simp
qed

lemma cup_params_split:
  assumes "row \<le> INT_MAX" "col \<le> INT_MAX" and "ic_param_buf ic = cup_params row col"
  shows "input_split ic = ([int row, int col], True)"
proof -
  have f: "strsep_fields (cup_params row col) = [bytes_of (dec_string row), bytes_of (dec_string col)]"
    unfolding cup_params_def strsep_fields_cons [OF no_separator] strsep_fields_last [OF no_separator] ..
  have n: "bytes_of (dec_string k) \<noteq> []" for k using dec_string_value [of k] by (simp add: bytes_of_def)
  have "cup_params row col \<noteq> []" by (simp add: cup_params_def)
  then show ?thesis using assms f n
    by (simp add: input_split_def param_string_bytes strtonum_dec)
qed

lemma find_cup: "bsearch (input_table_compare 0x48 []) input_csi_table = Some (0x48, [], INPUT_CSI_CUP)"
  using table_bsearch [OF _ tables_sorted(2), of "[]" "0x48"] by (simp add: input_csi_table_def)

text \<open>
  C11. The cursor position sequence round-trips: when a program sends \<open>ESC [ row ; column H\<close> with the numbers
  in decimal, counted from one, the cursor of the pane goes to exactly that row and column, the picture does
  not change, and the parser is in its ground state again.
\<close>

theorem cursor_position_round_trip:
  assumes "pane_ok wp" and "ic_state (ictx wp) = input_state_ground"
    and "c < screen_size_x (wp_base wp)" and "r < screen_size_y (wp_base wp)"
  shows "\<exists>wp'. input_bytes (0x1b # 0x5b # cup_params (r + 1) (c + 1) @ [0x48]) wp = Some wp' \<and> pane_ok wp' \<and>
    scr_cx (wp_base wp') = c \<and> scr_cy (wp_base wp') = r \<and> scr_grid (wp_base wp') = scr_grid (wp_base wp) \<and>
    ic_state (ictx wp') = input_state_ground \<and> ic_since_ground (ictx wp') = []"
proof -
  have core: "pane_core wp" using assms(1) by (simp add: pane_ok_def)
  have base: "screen_safe (wp_base wp)" using core by (simp add: pane_core_def)
  have dims: "screen_size_x (wp_base wp) \<le> DIM_MAX" "screen_size_y (wp_base wp) \<le> DIM_MAX"
    using base by (simp_all add: screen_safe_def screen_ok_def view_ok_def grid_ok_def)
  then have small: "r + 1 < 10 ^ Suc 9" "c + 1 < 10 ^ Suc 9" "r + 1 \<le> INT_MAX" "c + 1 \<le> INT_MAX"
    using assms(3,4) by simp_all
  then have len: "length (cup_params (r + 1) (c + 1)) \<le> 63"
    using dec_string_length [of "r + 1" 9] dec_string_length [of "c + 1" 9]
    by (simp add: cup_params_def bytes_of_def)
  let ?ps = "cup_params (r + 1) (c + 1)"
  let ?wp = "upd_ictx (csi_sent ?ps 0x48) wp"
  obtain wp1 where wp1: "input_csi_dispatch ?wp = Some wp1" "pane_step ?wp wp1"
    "input_bytes (0x1b # 0x5b # ?ps @ [0x48]) wp =
       Some (upd_ictx (\<lambda>ic. ic\<lparr>ic_since_ground := [], ic_state := input_state_ground\<rparr>) wp1)"
    by (rule input_bytes_csi [OF core assms(2) cup_params_bytes len, of "0x48"]) (simp_all add: input_hazard_def)
  define ic where "ic = csi_sent ?ps 0x48 (ictx wp)"
  have split: "input_split ic = ([int (r + 1), int (c + 1)], True)"
    by (rule cup_params_split) (use small in \<open>simp_all add: ic_def csi_sent_def\<close>)
  have kept: "\<not> has_flag (ic_flags ic) INPUT_DISCARD" "ic_ch ic = 0x48" "ic_interm_buf ic = []"
    by (simp_all add: ic_def csi_sent_def input_clear_def)
  have "?wp = wp\<lparr>wp_ictx := ic\<rparr>" by (simp add: upd_ictx_def ic_def)
  then have "input_csi_type INPUT_CSI_CUP [int (r + 1), int (c + 1)] (wp\<lparr>wp_ictx := ic\<lparr>ic_param_list := [int (r + 1), int (c + 1)]\<rparr>\<rparr>) =
      Some wp1"
    using wp1(1) by (simp add: input_csi_dispatch_def split kept find_cup upd_ictx_def)
  then have "scr_cx (wp_base wp1) = c \<and> scr_cy (wp_base wp1) = r \<and> scr_grid (wp_base wp1) = scr_grid (wp_base wp)"
    using assms(3,4) dims
    by (auto simp: input_csi_type_def input_get_def on_ctx_def screen_write_cursormove_def Let_def)
  moreover have "pane_core (upd_ictx (\<lambda>ic. ic\<lparr>ic_since_ground := [], ic_state := input_state_ground\<rparr>) wp1)"
    by (rule pane_core_ictx [OF pane_stepD [OF wp1(2)]])
       (use ictx_ok_core [OF pane_stepD [OF wp1(2)]] in \<open>simp add: ictx_ok_def\<close>)
  ultimately show ?thesis using wp1(3) by (simp add: pane_ok_def utf8_state_ok_def)
qed

theorem cursor_position_round_trip_witness:
  "\<exists>wp wp'. input_bytes (0x1b # 0x5b # cup_params 24 80 @ [0x48]) wp = Some wp' \<and>
    scr_cx (wp_base wp') = 79 \<and> scr_cy (wp_base wp') = 23"
proof -
  obtain wp where wp: "pane_ok wp" "screen_size_x (wp_base wp) = 80" "screen_size_y (wp_base wp) = 24"
    "ic_state (ictx wp) = input_state_ground" by (rule fresh_pane) (simp add: input_init_def)
  have "\<exists>wp'. input_bytes (0x1b # 0x5b # cup_params (23 + 1) (79 + 1) @ [0x48]) wp = Some wp' \<and> pane_ok wp' \<and>
    scr_cx (wp_base wp') = 79 \<and> scr_cy (wp_base wp') = 23 \<and> scr_grid (wp_base wp') = scr_grid (wp_base wp) \<and>
    ic_state (ictx wp') = input_state_ground \<and> ic_since_ground (ictx wp') = []"
    by (rule cursor_position_round_trip [OF wp(1,4)]) (simp_all add: wp)
  then show ?thesis by auto
qed

section \<open>Resynchronisation\<close>

abbreviation next_state :: "input_transition \<Rightarrow> input_state \<Rightarrow> input_state" where
  "next_state itr st \<equiv> (case it_state itr of None \<Rightarrow> st | Some st' \<Rightarrow> st')"

lemma handler_moves:
  assumes "input_run_handler h wp = Some (wp', stay)" and "h \<noteq> H_utf8_open"
  shows "\<not> stay"
  using assms by (cases h) (auto simp: input_run_handler_def)

text \<open>The state after a byte that does not start a character.\<close>

lemma input_byte_next:
  assumes ok: "pane_ok wp" and safe: "\<not> input_hazard ch wp"
    and itr: "input_find_transition (ic_state (ictx wp)) ch = Some itr" "it_handler itr \<noteq> Some H_utf8_open"
  obtains wp' where "input_byte ch wp = Some wp'" "pane_ok wp'" "ic_state (ictx wp') = next_state itr (ic_state (ictx wp))"
    "it_state itr = to_ground \<Longrightarrow> ic_since_ground (ictx wp') = []"
proof -
  obtain wp' where wp': "input_byte ch wp = Some wp'" "pane_ok wp'"
    using input_byte_returns [OF ok safe] unfolding returns_eq by blast
  define wp0 where "wp0 = upd_ictx (\<lambda>ic. ic\<lparr>ic_ch := ch\<rparr>) wp"
  have core: "pane_core wp0" using input_since_ground(3) ok by (simp add: wp0_def pane_ok_def)
  have 0: "utf8_ready (ic_state (ictx wp0)) (ic_utf8data (ictx wp0))" "ic_ch (ictx wp0) = ch"
    "\<not> input_hazard (ic_ch (ictx wp0)) wp0" "ic_state (ictx wp0) = ic_state (ictx wp)"
    using ok safe by (simp_all add: wp0_def pane_ok_def utf8_state_ok_ready input_hazard_def)
  have "itr \<in> set (input_transitions (ic_state (ictx wp))) \<and> it_first itr \<le> ch \<and> ch \<le> it_last itr"
    using input_find_transition_returns [of "ic_state (ictx wp)" ch] itr(1) by simp
  then have tok: "transition_ok (ic_state (ictx wp0)) itr" and range: "it_first itr \<le> ch" "ch \<le> it_last itr"
    using tables_ok 0(4) by simp_all
  obtain wp1 where wp1: "(case it_handler itr of None \<Rightarrow> Some (wp0, False) | Some h \<Rightarrow> input_run_handler h wp0) =
      Some (wp1, False)" "handled itr wp0 (wp1, False)"
  proof (cases "it_handler itr")
    case None
    then show ?thesis using that input_no_handler [OF core tok] by simp
  next
    case (Some h)
    obtain w stay where r: "input_run_handler h wp0 = Some (w, stay)" "handled itr wp0 (w, stay)"
      using input_run_handler_returns [OF core 0(1) tok Some _ _ 0(3)] range 0(2) unfolding returns_eq by auto
    have "\<not> stay" using handler_moves [OF r(1)] itr(2) Some by simp
    then show ?thesis using that r Some by simp
  qed
  have start: "input_byte ch wp = do {
      wp \<leftarrow> (case it_state itr of None \<Rightarrow> Some wp1 | Some st \<Rightarrow> input_set_state st wp1);
      Some (if ic_state (ictx wp) \<noteq> input_state_ground
            then upd_ictx (\<lambda>ic. ic\<lparr>ic_since_ground := ic_since_ground ic @ [ch]\<rparr>) wp else wp) }"
    unfolding input_byte_def Let_def wp0_def [symmetric] 0(4) itr(1) by (simp add: wp1(1))
  have core1: "pane_core wp1" and st1: "ic_state (ictx wp1) = ic_state (ictx wp)"
    using wp1(2) 0(4) by (simp_all add: handled_def)
  have "ic_state (ictx wp') = next_state itr (ic_state (ictx wp)) \<and>
      (it_state itr = to_ground \<longrightarrow> ic_since_ground (ictx wp') = [])"
  proof (cases "it_state itr")
    case None
    then show ?thesis using wp'(1) start st1 by auto
  next
    case (Some st)
    obtain wp2 where "input_set_state st wp1 = Some wp2" "ic_state (ictx wp2) = st"
      "st = input_state_ground \<longrightarrow> ic_since_ground (ictx wp2) = []"
      using input_set_state_moved [OF core1, of st] unfolding returns_eq pane_moved_def by blast
    then show ?thesis using wp'(1) start Some by auto
  qed
  with wp' that show ?thesis by blast
qed

text \<open>The states that the two bytes of a string terminator lead to.\<close>

definition esc_next :: "input_state \<Rightarrow> input_state" where
  "esc_next st =
     (if st = input_state_dcs_handler then input_state_dcs_escape
      else if st = input_state_dcs_escape then input_state_dcs_handler
      else if utf8_pending st \<noteq> 0 then input_state_ground
      else input_state_esc_enter)"

lemma find_esc:
  "\<exists>itr. input_find_transition st 0x1b = Some itr \<and> it_handler itr \<noteq> Some H_utf8_open \<and> next_state itr st = esc_next st"
  by (cases st) (simp_all add: input_find_transition_def input_table_defs esc_next_def)

lemma find_backslash:
  "st \<in> {input_state_ground, input_state_dcs_handler} \<Longrightarrow>
   \<exists>itr. input_find_transition st 0x5c = Some itr \<and> it_handler itr \<noteq> Some H_utf8_open \<and> next_state itr st = st"
  "st \<in> {input_state_esc_enter, input_state_dcs_escape} \<Longrightarrow>
   \<exists>itr. input_find_transition st 0x5c = Some itr \<and> it_handler itr \<noteq> Some H_utf8_open \<and> it_state itr = to_ground"
  by (auto simp: input_find_transition_def input_table_defs)

lemma esc_byte:
  assumes "pane_ok wp"
  obtains wp' where "input_byte 0x1b wp = Some wp'" "pane_ok wp'" "ic_state (ictx wp') = esc_next (ic_state (ictx wp))"
proof -
  have "\<not> input_hazard 0x1b wp" by (simp add: input_hazard_def)
  then show ?thesis using find_esc [of "ic_state (ictx wp)"] input_byte_next [OF assms, of "0x1b"] that by metis
qed

lemma backslash_byte:
  assumes "pane_ok wp"
  obtains wp' where "input_byte 0x5c wp = Some wp'" "pane_ok wp'"
    "ic_state (ictx wp) \<in> {input_state_ground, input_state_dcs_handler} \<Longrightarrow> ic_state (ictx wp') = ic_state (ictx wp)"
    "ic_state (ictx wp) \<in> {input_state_esc_enter, input_state_dcs_escape} \<Longrightarrow>
      ic_state (ictx wp') = input_state_ground \<and> ic_since_ground (ictx wp') = []"
proof -
  have safe: "\<not> input_hazard 0x5c wp" by (simp add: input_hazard_def)
  obtain wp' where wp': "input_byte 0x5c wp = Some wp'" "pane_ok wp'"
    using input_byte_returns [OF assms safe] unfolding returns_eq by blast
  have stay: "ic_state (ictx wp') = ic_state (ictx wp)" if st: "ic_state (ictx wp) \<in> {input_state_ground, input_state_dcs_handler}"
  proof -
    obtain itr where "input_find_transition (ic_state (ictx wp)) 0x5c = Some itr" "it_handler itr \<noteq> Some H_utf8_open"
      "next_state itr (ic_state (ictx wp)) = ic_state (ictx wp)"
      using find_backslash(1) [OF st] by blast
    then show ?thesis using input_byte_next [OF assms safe] wp'(1) by (metis option.inject)
  qed
  moreover have "ic_state (ictx wp') = input_state_ground \<and> ic_since_ground (ictx wp') = []"
    if st: "ic_state (ictx wp) \<in> {input_state_esc_enter, input_state_dcs_escape}"
  proof -
    obtain itr where "input_find_transition (ic_state (ictx wp)) 0x5c = Some itr" "it_handler itr \<noteq> Some H_utf8_open"
      "it_state itr = to_ground" using find_backslash(2) [OF st] by blast
    then show ?thesis using input_byte_next [OF assms safe, of itr] wp'(1) by auto
  qed
  ultimately show ?thesis using wp' that by blast
qed

text \<open>
  C17. The parser always resynchronises: in whatever state the bytes so far have left it, in the middle of a
  character, a control sequence or a string, two string terminators (\<open>ESC \\<close> sent twice) bring it back to the
  ground state, where the bytes saved since the last ground state have been dropped.
\<close>

theorem string_terminator_resets:
  assumes "pane_ok wp"
  shows "\<exists>wp'. input_bytes [0x1b, 0x5c, 0x1b, 0x5c] wp = Some wp' \<and> pane_ok wp' \<and>
    ic_state (ictx wp') = input_state_ground \<and> ic_since_ground (ictx wp') = []"
proof -
  obtain wp1 where 1: "input_byte 0x1b wp = Some wp1" "pane_ok wp1" "ic_state (ictx wp1) = esc_next (ic_state (ictx wp))"
    using esc_byte [OF assms] .
  obtain wp2 where 2: "input_byte 0x5c wp1 = Some wp2" "pane_ok wp2"
    "ic_state (ictx wp1) \<in> {input_state_ground, input_state_dcs_handler} \<Longrightarrow> ic_state (ictx wp2) = ic_state (ictx wp1)"
    "ic_state (ictx wp1) \<in> {input_state_esc_enter, input_state_dcs_escape} \<Longrightarrow>
      ic_state (ictx wp2) = input_state_ground \<and> ic_since_ground (ictx wp2) = []"
    using backslash_byte [OF 1(2)] by blast
  have mid: "ic_state (ictx wp2) \<in> {input_state_ground, input_state_dcs_handler}"
    using 1(3) 2(3,4) by (auto simp: esc_next_def split: if_splits)
  obtain wp3 where 3: "input_byte 0x1b wp2 = Some wp3" "pane_ok wp3" "ic_state (ictx wp3) = esc_next (ic_state (ictx wp2))"
    using esc_byte [OF 2(2)] .
  have "ic_state (ictx wp3) \<in> {input_state_esc_enter, input_state_dcs_escape}"
    using 3(3) mid by (auto simp: esc_next_def)
  then obtain wp4 where 4: "input_byte 0x5c wp3 = Some wp4" "pane_ok wp4"
    "ic_state (ictx wp4) = input_state_ground \<and> ic_since_ground (ictx wp4) = []"
    using backslash_byte [OF 3(2)] by blast
  then show ?thesis using 1(1) 2(1) 3(1) by (simp add: input_bytes_def)
qed

theorem string_terminator_resets_witness:
  "\<exists>wp wp'. pane_ok wp \<and> input_bytes [0x1b, 0x5c, 0x1b, 0x5c] wp = Some wp' \<and> ic_since_ground (ictx wp') = []"
proof -
  obtain wp where "pane_ok wp" by (rule fresh_pane)
  then show ?thesis using string_terminator_resets [of wp] by blast
qed

text \<open>The known fault of the backward tab: behind the tab stops the bit test is out of bounds.\<close>

lemma tab_left_outside:
  assumes "length tabs < cx" "0 < length tabs"
  shows "tab_left tabs cx = None"
proof -
  obtain c where "cx = Suc c" "0 < c" "length tabs \<le> c" using assms by (cases cx) auto
  then show ?thesis by (simp add: get_at_def)
qed

lemma input_cbt_out_of_bounds:
  assumes "length (scr_tabs s) < scr_cx s" and "0 < length (scr_tabs s)" and "0 < n"
  shows "input_cbt n s = None"
  using assms tab_left_outside [OF assms(1,2)] by (cases n) (auto simp: input_cbt_def)

end
