(* ===== verification/Terminal.thy ===== *)
theory Terminal
  imports Screen_Write_Props
begin

text \<open>
  What the screen writing code promises: a terminal is a list of rows of glyphs with a cursor and a scroll
  region, and its commands are list operations. The screens of the program, with their grids, histories and UTF-8
  arrays, implement it.
\<close>

section \<open>The terminal\<close>

type_synonym glyph = "grid_cell \<times> grid_utf8 option"

record terminal =
  t_sx :: nat
  t_sy :: nat
  t_cx :: nat
  t_cy :: nat
  t_upper :: nat
  t_lower :: nat
  t_rows :: "glyph list list"

datatype terminal_op =
    T_char grid_cell "utf8_data option"
  | T_up nat
  | T_down nat
  | T_left nat
  | T_right nat
  | T_move nat nat
  | T_carriagereturn
  | T_linefeed
  | T_reverseindex
  | T_region nat nat
  | T_insertcharacter nat
  | T_deletecharacter nat
  | T_insertline nat
  | T_deleteline nat
  | T_clearline
  | T_clearendofline
  | T_clearstartofline
  | T_clearendofscreen
  | T_clearstartofscreen
  | T_clearscreen

definition blanks :: "nat \<Rightarrow> glyph list" where
  "blanks n = replicate n blank"

definition with_row :: "(glyph list \<Rightarrow> glyph list) \<Rightarrow> terminal \<Rightarrow> terminal" where
  "with_row f t = t\<lparr>t_rows := (t_rows t)[t_cy t := f (t_rows t ! t_cy t)]\<rparr>"

text \<open>A character of width \<open>w\<close> at column \<open>cx\<close>: its glyph and padding; wide characters that are cut are blanked.\<close>

definition put_glyph :: "nat \<Rightarrow> nat \<Rightarrow> glyph \<Rightarrow> glyph list \<Rightarrow> glyph list" where
  "put_glyph cx w g row = map (\<lambda>x.
     let rest = (if overwritten (\<lambda>x. fst (row ! x)) cx w x then blank else row ! x)
     in if x = cx then g else if cx < x \<and> x < cx + w then pad_glyph rest else rest) [0..<length row]"

definition t_linefeed :: "terminal \<Rightarrow> terminal" where
  "t_linefeed t =
     (if t_cy t = t_lower t
      then t\<lparr>t_rows := take (t_upper t) (t_rows t) @ take (t_lower t - t_upper t) (drop (t_upper t + 1) (t_rows t)) @
        [blanks (t_sx t)] @ drop (t_lower t + 1) (t_rows t)\<rparr>
      else t\<lparr>t_cy := min (t_sy t - 1) (t_cy t + 1)\<rparr>)"

fun terminal_step :: "terminal_op \<Rightarrow> terminal \<Rightarrow> terminal" where
  "terminal_step (T_char gc ud) t =
     (let w = char_width gc ud; t = (if t_cx t + w \<le> t_sx t then t else (t_linefeed t)\<lparr>t_cx := 0\<rparr>)
      in (with_row (put_glyph (t_cx t) w (gc, char_utf8 gc ud)) t)\<lparr>t_cx := t_cx t + w\<rparr>)"
| "terminal_step (T_up n) t = t\<lparr>t_cy := (if t_cy t < t_upper t then t_cy t - max 1 n else max (t_upper t) (t_cy t - max 1 n))\<rparr>"
| "terminal_step (T_down n) t = t\<lparr>t_cy := (if t_cy t > t_lower t then min (t_sy t - 1) (t_cy t + max 1 n)
     else min (t_lower t) (t_cy t + max 1 n))\<rparr>"
| "terminal_step (T_left n) t = t\<lparr>t_cx := t_cx t - max 1 n\<rparr>"
| "terminal_step (T_right n) t = t\<lparr>t_cx := min (t_sx t - 1) (t_cx t + max 1 n)\<rparr>"
| "terminal_step (T_move x y) t = t\<lparr>t_cx := min x (t_sx t - 1), t_cy := min y (t_sy t - 1)\<rparr>"
| "terminal_step T_carriagereturn t = t\<lparr>t_cx := 0\<rparr>"
| "terminal_step T_linefeed t = t_linefeed t"
| "terminal_step T_reverseindex t =
     (if t_cy t = t_upper t
      then t\<lparr>t_rows := take (t_upper t) (t_rows t) @ [blanks (t_sx t)] @
        take (t_lower t - t_upper t) (drop (t_upper t) (t_rows t)) @ drop (t_lower t + 1) (t_rows t)\<rparr>
      else t\<lparr>t_cy := t_cy t - 1\<rparr>)"
| "terminal_step (T_region u l) t =
     (let u = min u (t_sy t - 1); l = min l (t_sy t - 1)
      in if u < l then t\<lparr>t_cx := 0, t_cy := 0, t_upper := u, t_lower := l\<rparr> else t)"
| "terminal_step (T_insertcharacter n) t =
     with_row (\<lambda>row. take (t_cx t) row @ blanks (max 1 n) @ take (t_sx t - t_cx t - max 1 n) (drop (t_cx t) row)) t"
| "terminal_step (T_deletecharacter n) t =
     (let n = min (max 1 n) (t_sx t - t_cx t) in with_row (\<lambda>row. take (t_cx t) row @ drop (t_cx t + n) row @ blanks n) t)"
| "terminal_step (T_insertline n) t =
     (let e = t_lower t + 1; n = min (max 1 n) (e - t_cy t)
      in t\<lparr>t_rows := take (t_cy t) (t_rows t) @ replicate n (blanks (t_sx t)) @
        take (e - t_cy t - n) (drop (t_cy t) (t_rows t)) @ drop e (t_rows t)\<rparr>)"
| "terminal_step (T_deleteline n) t =
     (let e = t_lower t + 1; n = min (max 1 n) (e - t_cy t)
      in t\<lparr>t_rows := take (t_cy t) (t_rows t) @ take (e - t_cy t - n) (drop (t_cy t + n) (t_rows t)) @
        replicate n (blanks (t_sx t)) @ drop e (t_rows t)\<rparr>)"
| "terminal_step T_clearline t = with_row (\<lambda>row. blanks (t_sx t)) t"
| "terminal_step T_clearendofline t = with_row (\<lambda>row. take (t_cx t) row @ blanks (t_sx t - t_cx t)) t"
| "terminal_step T_clearstartofline t = with_row (\<lambda>row. blanks (min (t_cx t + 1) (t_sx t)) @ drop (t_cx t + 1) row) t"
| "terminal_step T_clearendofscreen t =
     t\<lparr>t_rows := take (t_cy t) (t_rows t) @ [take (t_cx t) (t_rows t ! t_cy t) @ blanks (t_sx t - t_cx t)] @
       replicate (t_sy t - t_cy t - 1) (blanks (t_sx t))\<rparr>"
| "terminal_step T_clearstartofscreen t =
     t\<lparr>t_rows := replicate (t_cy t) (blanks (t_sx t)) @
       [blanks (min (t_cx t + 1) (t_sx t)) @ drop (t_cx t + 1) (t_rows t ! t_cy t)] @ drop (t_cy t + 1) (t_rows t)\<rparr>"
| "terminal_step T_clearscreen t = t\<lparr>t_rows := replicate (t_sy t) (blanks (t_sx t))\<rparr>"

text \<open>
  Where the code keeps its promise. The exceptions: it does not put characters into rows that are not there or scroll a region of one line,
  moves the cursor off the screen when it is moved right behind the last column, leaves cells standing when more than
  half of the rest of the row is inserted, inserts and deletes other lines outside the scroll region, and clears the whole first row.
\<close>

definition narrow :: "terminal \<Rightarrow> bool" where
  "narrow t \<longleftrightarrow> t_cy t = t_lower t \<longrightarrow> t_upper t < t_lower t"

fun terminal_guard :: "terminal \<Rightarrow> terminal_op \<Rightarrow> bool" where
  "terminal_guard t (T_char gc ud) = (char_ok gc ud \<and> \<not> is_padding gc \<and> 0 < char_width gc ud \<and> (t_sx t < t_cx t + char_width gc ud \<longrightarrow> narrow t))"
| "terminal_guard t (T_right n) = (t_cx t < t_sx t)"
| "terminal_guard t T_linefeed = narrow t"
| "terminal_guard t T_reverseindex = (t_cy t = t_upper t \<longrightarrow> t_upper t < t_lower t)"
| "terminal_guard t (T_insertcharacter n) = (t_cx t + 2 * max 1 n \<le> t_sx t)"
| "terminal_guard t (T_deletecharacter n) = (t_cx t < t_sx t)"
| "terminal_guard t (T_insertline n) = (t_upper t \<le> t_cy t \<and> t_cy t \<le> t_lower t)"
| "terminal_guard t (T_deleteline n) = (t_upper t \<le> t_cy t \<and> t_cy t \<le> t_lower t)"
| "terminal_guard t T_clearendofscreen = (0 < t_cy t \<or> t_cx t = 0)"
| "terminal_guard t _ = True"

section \<open>The screen as a terminal\<close>

definition picture :: "nat \<Rightarrow> nat \<Rightarrow> (nat \<Rightarrow> nat \<Rightarrow> glyph) \<Rightarrow> glyph list list" where
  "picture sx sy F = map (\<lambda>y. map (\<lambda>x. F x y) [0..<sx]) [0..<sy]"

definition terminal_of :: "screen_write_ctx \<Rightarrow> terminal" where
  "terminal_of ctx = \<lparr>t_sx = ctx_sx ctx, t_sy = ctx_sy ctx, t_cx = ctx_cx ctx, t_cy = ctx_cy ctx,
     t_upper = scr_rupper (ctx_s ctx), t_lower = scr_rlower (ctx_s ctx), t_rows = picture (ctx_sx ctx) (ctx_sy ctx) (ctx_glyph ctx)\<rparr>"

fun screen_step :: "terminal_op \<Rightarrow> writer" where
  "screen_step (T_char gc ud) ctx = screen_write_cell ctx gc ud"
| "screen_step (T_up n) ctx = Some (screen_write_cursorup ctx n)"
| "screen_step (T_down n) ctx = Some (screen_write_cursordown ctx n)"
| "screen_step (T_left n) ctx = Some (screen_write_cursorleft ctx n)"
| "screen_step (T_right n) ctx = Some (screen_write_cursorright ctx n)"
| "screen_step (T_move x y) ctx = Some (screen_write_cursormove ctx x y)"
| "screen_step T_carriagereturn ctx = Some (screen_write_carriagereturn ctx)"
| "screen_step T_linefeed ctx = screen_write_linefeed ctx False"
| "screen_step T_reverseindex ctx = screen_write_reverseindex ctx"
| "screen_step (T_region u l) ctx = Some (screen_write_scrollregion ctx u l)"
| "screen_step (T_insertcharacter n) ctx = screen_write_insertcharacter ctx n"
| "screen_step (T_deletecharacter n) ctx = screen_write_deletecharacter ctx n"
| "screen_step (T_insertline n) ctx = screen_write_insertline ctx n"
| "screen_step (T_deleteline n) ctx = screen_write_deleteline ctx n"
| "screen_step T_clearline ctx = screen_write_clearline ctx"
| "screen_step T_clearendofline ctx = screen_write_clearendofline ctx"
| "screen_step T_clearstartofline ctx = screen_write_clearstartofline ctx"
| "screen_step T_clearendofscreen ctx = screen_write_clearendofscreen ctx"
| "screen_step T_clearstartofscreen ctx = screen_write_clearstartofscreen ctx"
| "screen_step T_clearscreen ctx = screen_write_clearscreen ctx"

section \<open>Pictures\<close>

lemma picture_simps [simp]: "length (picture sx sy F) = sy" "y < sy \<Longrightarrow> picture sx sy F ! y = map (\<lambda>x. F x y) [0..<sx]"
  by (simp_all add: picture_def)

lemma blanks_simps [simp]: "length (blanks n) = n" "i < n \<Longrightarrow> blanks n ! i = blank"
  by (simp_all add: blanks_def)

lemma picture_eqI:
  assumes "length rows = sy" and "\<And>y. y < sy \<Longrightarrow> length (rows ! y) = sx" and "\<And>x y. x < sx \<Longrightarrow> y < sy \<Longrightarrow> rows ! y ! x = F x y"
  shows "rows = picture sx sy F"
  using assms by (intro nth_equalityI) (auto intro: nth_equalityI)

lemma picture_row:
  assumes "cy < sy" and "length row = sx"
  shows "(picture sx sy F)[cy := row] = picture sx sy (\<lambda>x y. if y = cy then row ! x else F x y)"
  by (rule picture_eqI) (use assms in \<open>auto simp: nth_list_update\<close>)

lemma picture_cong: "(\<And>x y. x < sx \<Longrightarrow> y < sy \<Longrightarrow> F x y = G x y) \<Longrightarrow> picture sx sy F = picture sx sy G"
  by (simp add: picture_def)

lemma with_row_picture:
  assumes "t_rows t = picture (t_sx t) (t_sy t) F" and "t_cy t < t_sy t"
    and "length (f (map (\<lambda>x. F x (t_cy t)) [0..<t_sx t])) = t_sx t"
    and "\<And>x y. x < t_sx t \<Longrightarrow> y < t_sy t \<Longrightarrow> G x y = (if y = t_cy t then f (map (\<lambda>x. F x (t_cy t)) [0..<t_sx t]) ! x else F x y)"
  shows "with_row f t = t\<lparr>t_rows := picture (t_sx t) (t_sy t) G\<rparr>"
proof -
  have "picture (t_sx t) (t_sy t) (\<lambda>x y. if y = t_cy t then f (map (\<lambda>x. F x (t_cy t)) [0..<t_sx t]) ! x else F x y) =
      picture (t_sx t) (t_sy t) G"
    by (rule picture_cong) (use assms(4) in simp)
  then show ?thesis using assms(1-3) by (simp add: with_row_def picture_row)
qed

text \<open>What a writer leaves, seen as a terminal.\<close>

lemma wrote_terminal:
  assumes "wrote ctx F cx cy cmds ctx'"
  shows "terminal_of ctx' = (terminal_of ctx)\<lparr>t_cx := cx, t_cy := cy, t_rows := picture (ctx_sx ctx) (ctx_sy ctx) F\<rparr>"
    "ctx_safe ctx'" "scr_mode (ctx_s ctx') = scr_mode (ctx_s ctx)"
proof -
  obtain gd where gd: "ctx_s ctx' = (ctx_s ctx)\<lparr>scr_grid := gd, scr_cx := cx, scr_cy := cy\<rparr>" using assms by (auto simp: wrote_def)
  have sz: "ctx_sx ctx' = ctx_sx ctx" "ctx_sy ctx' = ctx_sy ctx" using assms by (auto simp: wrote_def grid_keep_def)
  have "picture (ctx_sx ctx) (ctx_sy ctx) (ctx_glyph ctx') = picture (ctx_sx ctx) (ctx_sy ctx) F"
    by (rule picture_cong) (use assms in \<open>simp add: wrote_def\<close>)
  then show "terminal_of ctx' = (terminal_of ctx)\<lparr>t_cx := cx, t_cy := cy, t_rows := picture (ctx_sx ctx) (ctx_sy ctx) F\<rparr>"
    using gd sz by (simp add: terminal_of_def)
  show "ctx_safe ctx'" "scr_mode (ctx_s ctx') = scr_mode (ctx_s ctx)" using assms gd by (simp_all add: wrote_def)
qed

section \<open>Refinement\<close>

definition refines :: "screen_write_ctx \<Rightarrow> terminal \<Rightarrow> screen_write_ctx \<Rightarrow> bool" where
  "refines ctx t ctx' \<longleftrightarrow> ctx_safe ctx' \<and> scr_mode (ctx_s ctx') = scr_mode (ctx_s ctx) \<and> terminal_of ctx' = t"

lemma refinesI:
  assumes "wrote ctx F cx cy cmds ctx'" and "t = (terminal_of ctx)\<lparr>t_cx := cx, t_cy := cy, t_rows := picture (ctx_sx ctx) (ctx_sy ctx) F\<rparr>"
  shows "refines ctx t ctx'"
  using wrote_terminal [OF assms(1)] assms(2) by (simp add: refines_def)

lemma returns_refines:
  assumes "returns m (wrote ctx F cx cy cmds)" and "t = (terminal_of ctx)\<lparr>t_cx := cx, t_cy := cy, t_rows := picture (ctx_sx ctx) (ctx_sy ctx) F\<rparr>"
  shows "returns m (refines ctx t)"
  by (rule returns_mono [OF assms(1)]) (rule refinesI [OF _ assms(2)])

lemma terminal_of_simps [simp]: "t_sx (terminal_of ctx) = ctx_sx ctx" "t_sy (terminal_of ctx) = ctx_sy ctx" "t_cx (terminal_of ctx) = ctx_cx ctx"
  "t_cy (terminal_of ctx) = ctx_cy ctx" "t_upper (terminal_of ctx) = scr_rupper (ctx_s ctx)" "t_lower (terminal_of ctx) = scr_rlower (ctx_s ctx)"
  "t_rows (terminal_of ctx) = picture (ctx_sx ctx) (ctx_sy ctx) (ctx_glyph ctx)"
  by (simp_all add: terminal_of_def)

text \<open>Only the cursor moves.\<close>

lemma cursor_refines:
  assumes "wrote ctx (ctx_glyph ctx) cx cy cmds ctx'" and "t = (terminal_of ctx)\<lparr>t_cx := cx, t_cy := cy\<rparr>"
  shows "refines ctx t ctx'"
  by (rule refinesI [OF assms(1)]) (simp add: assms(2) terminal_of_def)

text \<open>Only the rows change.\<close>

lemma rows_refine:
  assumes "returns m (wrote ctx F (ctx_cx ctx) (ctx_cy ctx) cmds)" and "t = (terminal_of ctx)\<lparr>t_rows := rows\<rparr>"
    and "length rows = ctx_sy ctx" and "\<And>y. y < ctx_sy ctx \<Longrightarrow> length (rows ! y) = ctx_sx ctx"
    and "\<And>x y. x < ctx_sx ctx \<Longrightarrow> y < ctx_sy ctx \<Longrightarrow> rows ! y ! x = F x y"
  shows "returns m (refines ctx t)"
  by (rule returns_refines [OF assms(1)]) (use picture_eqI [OF assms(3-5)] assms(2) in \<open>simp add: terminal_of_def\<close>)

text \<open>Only the row of the cursor changes.\<close>

lemma row_refines:
  assumes safe: "ctx_safe ctx" and w: "returns m (wrote ctx F (ctx_cx ctx) (ctx_cy ctx) cmds)"
    and len: "\<And>row. length row = ctx_sx ctx \<Longrightarrow> length (f row) = ctx_sx ctx"
    and F: "\<And>x y. x < ctx_sx ctx \<Longrightarrow> y < ctx_sy ctx \<Longrightarrow>
      F x y = (if y = ctx_cy ctx then f (map (\<lambda>x. ctx_glyph ctx x y) [0..<ctx_sx ctx]) ! x else ctx_glyph ctx x y)"
  shows "returns m (refines ctx (with_row f (terminal_of ctx)))"
proof (rule returns_refines [OF w])
  have "with_row f (terminal_of ctx) = (terminal_of ctx)\<lparr>t_rows := picture (ctx_sx ctx) (ctx_sy ctx) F\<rparr>"
    using with_row_picture [of "terminal_of ctx" "ctx_glyph ctx" f F] len F ctx_safe_bounds(6) [OF safe] by simp
  then show "with_row f (terminal_of ctx) = (terminal_of ctx)\<lparr>t_cx := ctx_cx ctx, t_cy := ctx_cy ctx,
      t_rows := picture (ctx_sx ctx) (ctx_sy ctx) F\<rparr>" by (simp add: terminal_of_def)
qed

lemma t_linefeed_of:
  assumes safe: "ctx_safe ctx" and n: "narrow (terminal_of ctx)"
  shows "t_linefeed (terminal_of ctx) = (terminal_of ctx)\<lparr>t_cy := linefeed_cy (ctx_s ctx),
    t_rows := picture (ctx_sx ctx) (ctx_sy ctx) (linefeed_view (ctx_s ctx))\<rparr>"
proof (cases "ctx_cy ctx = scr_rlower (ctx_s ctx)")
  case True
  note b = ctx_safe_bounds [OF safe]
  let ?u = "scr_rupper (ctx_s ctx)" and ?l = "scr_rlower (ctx_s ctx)" and ?rows = "picture (ctx_sx ctx) (ctx_sy ctx) (ctx_glyph ctx)"
  have lt: "?u < ?l" using n True by (simp add: narrow_def)
  have "take ?u ?rows @ take (?l - ?u) (drop (?u + 1) ?rows) @ [blanks (ctx_sx ctx)] @ drop (?l + 1) ?rows =
      picture (ctx_sx ctx) (ctx_sy ctx) (scrolled_up (ctx_s ctx))"
  proof (rule picture_eqI)
    show "length (take ?u ?rows @ take (?l - ?u) (drop (?u + 1) ?rows) @ [blanks (ctx_sx ctx)] @ drop (?l + 1) ?rows) = ctx_sy ctx"
      using b(7,8) by simp
    fix y assume y: "y < ctx_sy ctx"
    have nth: "(take ?u ?rows @ take (?l - ?u) (drop (?u + 1) ?rows) @ [blanks (ctx_sx ctx)] @ drop (?l + 1) ?rows) ! y =
        region_up ?u ?l (blanks (ctx_sx ctx)) ((!) ?rows) y"
      using region_lines_nth [of ?u ?l ?rows y "blanks (ctx_sx ctx)"] b(7,8) y by simp
    show "length ((take ?u ?rows @ take (?l - ?u) (drop (?u + 1) ?rows) @ [blanks (ctx_sx ctx)] @ drop (?l + 1) ?rows) ! y) = ctx_sx ctx"
      unfolding nth using y b(8) by (simp add: region_up_def)
    fix x assume "x < ctx_sx ctx"
    then show "(take ?u ?rows @ take (?l - ?u) (drop (?u + 1) ?rows) @ [blanks (ctx_sx ctx)] @ drop (?l + 1) ?rows) ! y ! x = scrolled_up (ctx_s ctx) x y"
      unfolding nth using y b(8) lt by (simp add: region_up_def scrolled_up_def)
  qed
  then show ?thesis using True by (simp add: t_linefeed_def linefeed_view_def linefeed_cy_def terminal_of_def)
next
  case False
  then show ?thesis by (simp add: t_linefeed_def linefeed_view_def linefeed_cy_def terminal_of_def)
qed

lemma put_glyph_length [simp]: "length (put_glyph cx w g row) = length row"
  by (simp add: put_glyph_def)

text \<open>A character on the row of the cursor.\<close>

lemma put_refines:
  assumes safe: "ctx_safe ctx" and w: "returns m (wrote ctx (put_char cx cy w g F) (cx + w) cy cmds)" and cy: "cy < ctx_sy ctx"
    and cx: "cx < ctx_sx ctx" and t: "t_sx t = ctx_sx ctx" "t_sy t = ctx_sy ctx" "t_cy t = cy" "t_rows t = picture (ctx_sx ctx) (ctx_sy ctx) F"
      "t_upper t = scr_rupper (ctx_s ctx)" "t_lower t = scr_rlower (ctx_s ctx)"
  shows "returns m (refines ctx ((with_row (put_glyph cx w g) t)\<lparr>t_cx := cx + w\<rparr>))"
proof (rule returns_refines [OF w])
  have G: "put_char cx cy w g F x y = (if y = cy then put_glyph cx w g (map (\<lambda>x. F x cy) [0..<ctx_sx ctx]) ! x else F x y)"
    if "x < ctx_sx ctx" for x y
  proof (cases "y = cy")
    case True
    have "overwritten (\<lambda>x. fst (map (\<lambda>x. F x cy) [0..<ctx_sx ctx] ! x)) cx w x = overwritten (\<lambda>x. fst (F x cy)) cx w x"
      by (rule overwritten_cong [OF _ cx that]) simp
    then show ?thesis using True that by (simp add: put_char_def put_glyph_def Let_def)
  qed (simp add: put_char_def)
  have "with_row (put_glyph cx w g) t = t\<lparr>t_rows := picture (t_sx t) (t_sy t) (put_char cx cy w g F)\<rparr>"
  proof (rule with_row_picture [where F = F])
    show "t_rows t = picture (t_sx t) (t_sy t) F" "t_cy t < t_sy t" "length (put_glyph cx w g (map (\<lambda>x. F x (t_cy t)) [0..<t_sx t])) = t_sx t"
      using t cy by simp_all
    fix x y assume "x < t_sx t"
    then show "put_char cx cy w g F x y = (if y = t_cy t then put_glyph cx w g (map (\<lambda>x. F x (t_cy t)) [0..<t_sx t]) ! x else F x y)"
      using G [of x y] t by simp
  qed
  then show "(with_row (put_glyph cx w g) t)\<lparr>t_cx := cx + w\<rparr> = (terminal_of ctx)\<lparr>t_cx := cx + w, t_cy := cy,
      t_rows := picture (ctx_sx ctx) (ctx_sy ctx) (put_char cx cy w g F)\<rparr>"
    using t by (simp add: terminal_of_def)
qed

lemma char_refines:
  assumes safe: "ctx_safe ctx" and m: "\<not> has_flag (scr_mode (ctx_s ctx)) MODE_INSERT" and g: "terminal_guard (terminal_of ctx) (T_char gc ud)"
  shows "returns (screen_write_cell ctx gc ud) (refines ctx (terminal_step (T_char gc ud) (terminal_of ctx)))"
proof -
  note b = ctx_safe_bounds [OF safe]
  define w where "w = char_width gc ud"
  have gc: "char_ok gc ud" "\<not> is_padding gc" "0 < char_width gc ud" using g by auto
  note cell = screen_write_cell_spec [OF safe gc m, folded w_def, unfolded Let_def]
  show ?thesis
  proof (cases "ctx_cx ctx + w \<le> ctx_sx ctx")
    case True
    have "returns (screen_write_cell ctx gc ud) (refines ctx ((with_row (put_glyph (ctx_cx ctx) w (gc, char_utf8 gc ud)) (terminal_of ctx))\<lparr>t_cx := ctx_cx ctx + w\<rparr>))"
      by (rule put_refines [OF safe]) (use cell True b(6) gc(3) w_def in simp_all)
    then show ?thesis using True by (simp add: w_def Let_def)
  next
    case False
    define t where "t = (terminal_of ctx)\<lparr>t_cx := 0, t_cy := linefeed_cy (ctx_s ctx), t_rows := picture (ctx_sx ctx) (ctx_sy ctx) (linefeed_view (ctx_s ctx))\<rparr>"
    have "narrow (terminal_of ctx)" using g False w_def by simp
    then have t: "(t_linefeed (terminal_of ctx))\<lparr>t_cx := 0\<rparr> = t" using t_linefeed_of [OF safe] by (simp add: t_def)
    have cy: "linefeed_cy (ctx_s ctx) < ctx_sy ctx" using b(2,6) by (auto simp: linefeed_cy_def)
    have "returns (screen_write_cell ctx gc ud) (refines ctx ((with_row (put_glyph 0 w (gc, char_utf8 gc ud)) t)\<lparr>t_cx := 0 + w\<rparr>))"
      by (rule put_refines [OF safe _ cy]) (use cell False b(1) in \<open>simp_all add: t_def\<close>)
    then show ?thesis using False t by (simp add: w_def t_def Let_def)
  qed
qed

lemma region_refines:
  assumes safe: "ctx_safe ctx"
  shows "refines ctx (terminal_step (T_region u l) (terminal_of ctx)) (screen_write_scrollregion ctx u l)"
proof -
  note b = ctx_safe_bounds [OF safe]
  have "ctx_safe (screen_write_scrollregion ctx u l)" using ctx_nextD [OF screen_write_scrollregion_next [OF safe]] .
  moreover have "terminal_of (screen_write_scrollregion ctx u l) = terminal_step (T_region u l) (terminal_of ctx)"
    using b(2) by (auto simp: screen_write_scrollregion_def Let_def ctx_u_sub [OF safe] terminal_of_def min_def not_le)
  moreover have "scr_mode (ctx_s (screen_write_scrollregion ctx u l)) = scr_mode (ctx_s ctx)"
    by (simp add: screen_write_scrollregion_def Let_def)
  ultimately show ?thesis by (simp add: refines_def)
qed

lemma lines_refine:
  assumes safe: "ctx_safe ctx" and r: "scr_rupper (ctx_s ctx) \<le> ctx_cy ctx" "ctx_cy ctx \<le> scr_rlower (ctx_s ctx)"
  shows "returns (screen_write_insertline ctx n) (refines ctx (terminal_step (T_insertline n) (terminal_of ctx)))"
    "returns (screen_write_deleteline ctx n) (refines ctx (terminal_step (T_deleteline n) (terminal_of ctx)))"
proof -
  note b = ctx_safe_bounds [OF safe]
  have reg: "in_region (ctx_s ctx)" using r by (simp add: in_region_def)
  then have e: "lines_end (ctx_s ctx) = scr_rlower (ctx_s ctx) + 1" by (simp add: lines_end_def)
  define k where "k = min (max 1 n) (scr_rlower (ctx_s ctx) + 1 - ctx_cy ctx)"
  define rows where "rows = picture (ctx_sx ctx) (ctx_sy ctx) (ctx_glyph ctx)"
  have rl: "length rows = ctx_sy ctx" "\<And>y. y < ctx_sy ctx \<Longrightarrow> rows ! y = map (\<lambda>x. ctx_glyph ctx x y) [0..<ctx_sx ctx]"
    by (simp_all add: rows_def)
  have k: "k \<le> scr_rlower (ctx_s ctx) + 1 - ctx_cy ctx" by (simp add: k_def)
  let ?ins = "take (ctx_cy ctx) rows @ replicate k (blanks (ctx_sx ctx)) @ take (scr_rlower (ctx_s ctx) + 1 - ctx_cy ctx - k) (drop (ctx_cy ctx) rows) @
      drop (scr_rlower (ctx_s ctx) + 1) rows"
  have nth: "?ins ! y = (if y < ctx_cy ctx \<or> scr_rlower (ctx_s ctx) + 1 \<le> y then rows ! y
      else if y < ctx_cy ctx + k then blanks (ctx_sx ctx) else rows ! (y - k))" if "y < ctx_sy ctx" for y
    using that rl(1) k b(6,8) r by (auto simp: nth_append min_def) 
  show "returns (screen_write_insertline ctx n) (refines ctx (terminal_step (T_insertline n) (terminal_of ctx)))"
  proof (rule rows_refine [OF screen_write_insertline_wrote [OF safe reg], where rows = ?ins])
    show "terminal_step (T_insertline n) (terminal_of ctx) = terminal_of ctx\<lparr>t_rows := ?ins\<rparr>"
      by (simp add: k_def rows_def Let_def)
    show "length ?ins = ctx_sy ctx" using rl(1) k b(6,8) r by (auto simp: min_def)
  next
    fix y assume y: "y < ctx_sy ctx"
    show "length (?ins ! y) = ctx_sx ctx" using nth [OF y] y rl(2) by simp
  next
    fix x y assume "x < ctx_sx ctx" "y < ctx_sy ctx"
    then show "?ins ! y ! x = (let e = scr_rlower (ctx_s ctx) + 1; n = min (max 1 n) (e - ctx_cy ctx) in
       if y < ctx_cy ctx \<or> e \<le> y then ctx_glyph ctx x y else if y < ctx_cy ctx + n then blank else ctx_glyph ctx x (y - n))"
      unfolding Let_def k_def [symmetric] using nth [of y] rl(2) by simp
  qed
  let ?del = "take (ctx_cy ctx) rows @ take (scr_rlower (ctx_s ctx) + 1 - ctx_cy ctx - k) (drop (ctx_cy ctx + k) rows) @
      replicate k (blanks (ctx_sx ctx)) @ drop (scr_rlower (ctx_s ctx) + 1) rows"
  have nth': "?del ! y = (if y < ctx_cy ctx \<or> scr_rlower (ctx_s ctx) + 1 \<le> y then rows ! y
      else if y + k < scr_rlower (ctx_s ctx) + 1 then rows ! (y + k) else blanks (ctx_sx ctx))" if "y < ctx_sy ctx" for y
    using that rl(1) k b(6,8) r by (auto simp: nth_append min_def add.commute)
  show "returns (screen_write_deleteline ctx n) (refines ctx (terminal_step (T_deleteline n) (terminal_of ctx)))"
  proof (rule rows_refine [OF screen_write_deleteline_wrote [OF safe, unfolded e], where rows = ?del])
    show "terminal_step (T_deleteline n) (terminal_of ctx) = terminal_of ctx\<lparr>t_rows := ?del\<rparr>"
      by (simp add: k_def rows_def Let_def)
    show "length ?del = ctx_sy ctx" using rl(1) k b(6,8) r by (auto simp: min_def)
  next
    fix y assume y: "y < ctx_sy ctx"
    show "length (?del ! y) = ctx_sx ctx" using nth' [OF y] y rl(2) b(8) by simp
  next
    fix x y assume "x < ctx_sx ctx" "y < ctx_sy ctx"
    then show "?del ! y ! x = (let e = scr_rlower (ctx_s ctx) + 1; n = min (max 1 n) (e - ctx_cy ctx) in
       if y < ctx_cy ctx \<or> e \<le> y then ctx_glyph ctx x y else if y + n < e then ctx_glyph ctx x (y + n) else blank)"
      unfolding Let_def k_def [symmetric] using nth' [of y] rl(2) b(8) by simp
  qed
qed

lemma reverseindex_refines:
  assumes safe: "ctx_safe ctx" and g: "terminal_guard (terminal_of ctx) T_reverseindex"
  shows "returns (screen_write_reverseindex ctx) (refines ctx (terminal_step T_reverseindex (terminal_of ctx)))"
proof (cases "ctx_cy ctx = scr_rupper (ctx_s ctx)")
  case True
  note b = ctx_safe_bounds [OF safe]
  let ?u = "scr_rupper (ctx_s ctx)" and ?l = "scr_rlower (ctx_s ctx)"
  define rows where "rows = picture (ctx_sx ctx) (ctx_sy ctx) (ctx_glyph ctx)"
  have rl: "length rows = ctx_sy ctx" "\<And>y. y < ctx_sy ctx \<Longrightarrow> rows ! y = map (\<lambda>x. ctx_glyph ctx x y) [0..<ctx_sx ctx]"
    by (simp_all add: rows_def)
  have lt: "?u < ?l" using g True by simp
  let ?down = "take ?u rows @ [blanks (ctx_sx ctx)] @ take (?l - ?u) (drop ?u rows) @ drop (?l + 1) rows"
  have nth: "?down ! y = (if ?u < y \<and> y \<le> ?l then rows ! (y - 1) else if y = ?u then blanks (ctx_sx ctx) else rows ! y)" if "y < ctx_sy ctx" for y
    using that rl(1) b(8) lt by (auto simp: nth_append nth_Cons' min_def)
  have "returns (screen_write_reverseindex ctx) (wrote ctx (scrolled_down (ctx_s ctx)) (ctx_cx ctx) (ctx_cy ctx) [tty_cmd_reverseindex])"
    using screen_write_reverseindex_wrote [OF safe] True by simp
  then show ?thesis
  proof (rule rows_refine [where rows = ?down])
    show "terminal_step T_reverseindex (terminal_of ctx) = terminal_of ctx\<lparr>t_rows := ?down\<rparr>" using True by (simp add: rows_def)
    show "length ?down = ctx_sy ctx" using rl(1) b(8) lt by (auto simp: min_def)
  next
    fix y assume y: "y < ctx_sy ctx"
    show "length (?down ! y) = ctx_sx ctx" using nth [OF y] y rl(2) by simp
  next
    fix x y assume "x < ctx_sx ctx" "y < ctx_sy ctx"
    then show "?down ! y ! x = scrolled_down (ctx_s ctx) x y" using nth [of y] rl(2) lt by (simp add: scrolled_down_def)
  qed
next
  case False
  then have "returns (screen_write_reverseindex ctx) (wrote ctx (ctx_glyph ctx) (ctx_cx ctx) (ctx_cy ctx - 1) [tty_cmd_reverseindex])"
    using screen_write_reverseindex_wrote [OF safe] by simp
  then show ?thesis by (rule returns_mono) (rule cursor_refines, assumption, use False in \<open>simp add: terminal_of_def\<close>)
qed

lemma clear_refines:
  assumes safe: "ctx_safe ctx"
  shows "returns (screen_write_clearline ctx) (refines ctx (terminal_step T_clearline (terminal_of ctx)))"
    "returns (screen_write_clearendofline ctx) (refines ctx (terminal_step T_clearendofline (terminal_of ctx)))"
    "returns (screen_write_clearstartofline ctx) (refines ctx (terminal_step T_clearstartofline (terminal_of ctx)))"
    "returns (screen_write_clearscreen ctx) (refines ctx (terminal_step T_clearscreen (terminal_of ctx)))"
proof -
  note b = ctx_safe_bounds [OF safe]
  show "returns (screen_write_clearline ctx) (refines ctx (terminal_step T_clearline (terminal_of ctx)))"
    unfolding terminal_step.simps terminal_of_simps by (rule row_refines [OF safe screen_write_clearline_wrote [OF safe]]) auto
  show "returns (screen_write_clearscreen ctx) (refines ctx (terminal_step T_clearscreen (terminal_of ctx)))"
    unfolding terminal_step.simps terminal_of_simps
    by (rule rows_refine [OF screen_write_clearscreen_wrote [OF safe], where rows = "replicate (ctx_sy ctx) (blanks (ctx_sx ctx))"]) simp_all
  have len: "length (take (ctx_cx ctx) row @ blanks (ctx_sx ctx - ctx_cx ctx)) = ctx_sx ctx"
    "length (blanks (min (ctx_cx ctx + 1) (ctx_sx ctx)) @ drop (ctx_cx ctx + 1) row) = ctx_sx ctx" if "length row = ctx_sx ctx" for row :: "glyph list"
    using that by (auto simp: min_def)
  show "returns (screen_write_clearendofline ctx) (refines ctx (terminal_step T_clearendofline (terminal_of ctx)))"
    unfolding terminal_step.simps terminal_of_simps
    by (rule row_refines [OF safe screen_write_clearendofline_wrote [OF safe] len(1)]) (auto simp: nth_append min_def)
  show "returns (screen_write_clearstartofline ctx) (refines ctx (terminal_step T_clearstartofline (terminal_of ctx)))"
    unfolding terminal_step.simps terminal_of_simps
    by (rule row_refines [OF safe screen_write_clearstartofline_wrote [OF safe] len(2)]) (auto simp: nth_append min_def)
qed

lemma clear_part_refines:
  assumes safe: "ctx_safe ctx"
  shows "0 < ctx_cy ctx \<or> ctx_cx ctx = 0 \<Longrightarrow>
      returns (screen_write_clearendofscreen ctx) (refines ctx (terminal_step T_clearendofscreen (terminal_of ctx)))"
    "returns (screen_write_clearstartofscreen ctx) (refines ctx (terminal_step T_clearstartofscreen (terminal_of ctx)))"
proof -
  note b = ctx_safe_bounds [OF safe]
  define rows where "rows = picture (ctx_sx ctx) (ctx_sy ctx) (ctx_glyph ctx)"
  have rl: "length rows = ctx_sy ctx" "\<And>y. y < ctx_sy ctx \<Longrightarrow> rows ! y = map (\<lambda>x. ctx_glyph ctx x y) [0..<ctx_sx ctx]"
    by (simp_all add: rows_def)
  let ?below = "take (ctx_cy ctx) rows @ [take (ctx_cx ctx) (rows ! ctx_cy ctx) @ blanks (ctx_sx ctx - ctx_cx ctx)] @
       replicate (ctx_sy ctx - ctx_cy ctx - 1) (blanks (ctx_sx ctx))"
  have nth: "?below ! y = (if y < ctx_cy ctx then rows ! y else if y = ctx_cy ctx then take (ctx_cx ctx) (rows ! ctx_cy ctx) @ blanks (ctx_sx ctx - ctx_cx ctx)
      else blanks (ctx_sx ctx))" if "y < ctx_sy ctx" for y
    using that rl(1) b(6) by (auto simp: nth_append nth_Cons' min_def)
  show "returns (screen_write_clearendofscreen ctx) (refines ctx (terminal_step T_clearendofscreen (terminal_of ctx)))"
    if g: "0 < ctx_cy ctx \<or> ctx_cx ctx = 0"
  proof (rule rows_refine [OF screen_write_clearendofscreen_wrote [OF safe], where rows = ?below])
    show "terminal_step T_clearendofscreen (terminal_of ctx) = terminal_of ctx\<lparr>t_rows := ?below\<rparr>" by (simp add: rows_def)
    show "length ?below = ctx_sy ctx" using rl(1) b(6) by simp
  next
    fix y assume y: "y < ctx_sy ctx"
    show "length (?below ! y) = ctx_sx ctx" using nth [OF y] y rl(2) by (simp add: min_def)
  next
    fix x y assume "x < ctx_sx ctx" "y < ctx_sy ctx"
    then show "?below ! y ! x = (if ctx_cy ctx < y \<or> y = ctx_cy ctx \<and> (ctx_cx ctx \<le> x \<or> y = 0 \<and> has_flag (gd_flags (ctx_gd ctx)) GRID_HISTORY)
      then blank else ctx_glyph ctx x y)"
      using nth [of y] rl(2) g by (auto simp: nth_append)
  qed
  let ?start = "replicate (ctx_cy ctx) (blanks (ctx_sx ctx)) @
       [blanks (min (ctx_cx ctx + 1) (ctx_sx ctx)) @ drop (ctx_cx ctx + 1) (rows ! ctx_cy ctx)] @ drop (ctx_cy ctx + 1) rows"
  have nth': "?start ! y = (if y < ctx_cy ctx then blanks (ctx_sx ctx) else if y = ctx_cy ctx
      then blanks (min (ctx_cx ctx + 1) (ctx_sx ctx)) @ drop (ctx_cx ctx + 1) (rows ! ctx_cy ctx) else rows ! y)" if "y < ctx_sy ctx" for y
    using that rl(1) b(6) by (auto simp: nth_append nth_Cons' min_def)
  show "returns (screen_write_clearstartofscreen ctx) (refines ctx (terminal_step T_clearstartofscreen (terminal_of ctx)))"
  proof (rule rows_refine [OF screen_write_clearstartofscreen_wrote [OF safe], where rows = ?start])
    show "terminal_step T_clearstartofscreen (terminal_of ctx) = terminal_of ctx\<lparr>t_rows := ?start\<rparr>" by (simp add: rows_def)
    show "length ?start = ctx_sy ctx" using rl(1) b(6) by simp
  next
    fix y assume y: "y < ctx_sy ctx"
    show "length (?start ! y) = ctx_sx ctx" using nth' [OF y] y rl(2) by (auto simp: min_def)
  next
    fix x y assume "x < ctx_sx ctx" "y < ctx_sy ctx"
    then show "?start ! y ! x = (if y < ctx_cy ctx \<or> y = ctx_cy ctx \<and> x \<le> ctx_cx ctx then blank else ctx_glyph ctx x y)"
      using nth' [of y] rl(2) by (auto simp: nth_append min_def)
  qed
qed

lemma characters_refine:
  assumes safe: "ctx_safe ctx"
  shows "ctx_cx ctx + 2 * max 1 n \<le> ctx_sx ctx \<Longrightarrow>
      returns (screen_write_insertcharacter ctx n) (refines ctx (terminal_step (T_insertcharacter n) (terminal_of ctx)))"
    "ctx_cx ctx < ctx_sx ctx \<Longrightarrow>
      returns (screen_write_deletecharacter ctx n) (refines ctx (terminal_step (T_deletecharacter n) (terminal_of ctx)))"
proof -
  show "returns (screen_write_insertcharacter ctx n) (refines ctx (terminal_step (T_insertcharacter n) (terminal_of ctx)))"
    if g: "ctx_cx ctx + 2 * max 1 n \<le> ctx_sx ctx"
  proof -
    define k where "k = max 1 n"
    have k: "0 < k" "ctx_cx ctx + 2 * k \<le> ctx_sx ctx" "min k (ctx_sx ctx - ctx_cx ctx) = k" using g by (auto simp: k_def)
    then have cx: "ctx_cx ctx < ctx_sx ctx" by simp
    show ?thesis unfolding terminal_step.simps terminal_of_simps
    proof (rule row_refines [OF safe screen_write_insertcharacter_wrote [OF safe cx]], fold k_def, unfold k(3))
      fix row :: "glyph list" assume "length row = ctx_sx ctx"
      then show "length (take (ctx_cx ctx) row @ blanks k @ take (ctx_sx ctx - ctx_cx ctx - k) (drop (ctx_cx ctx) row)) = ctx_sx ctx"
        using k by simp
    next
      fix x y assume "x < ctx_sx ctx" "y < ctx_sy ctx"
      then show "(let n = k in if y \<noteq> ctx_cy ctx then ctx_glyph ctx x y
         else if ctx_cx ctx + 1 = ctx_sx ctx then if x = ctx_cx ctx then blank else ctx_glyph ctx x y
         else moved (ctx_cx ctx + n) (ctx_cx ctx) (ctx_sx ctx - ctx_cx ctx - n) blank (\<lambda>x. ctx_glyph ctx x y) x) =
        (if y = ctx_cy ctx then (take (ctx_cx ctx) (map (\<lambda>x. ctx_glyph ctx x y) [0..<ctx_sx ctx]) @ blanks k @
           take (ctx_sx ctx - ctx_cx ctx - k) (drop (ctx_cx ctx) (map (\<lambda>x. ctx_glyph ctx x y) [0..<ctx_sx ctx]))) ! x
         else ctx_glyph ctx x y)"
        using k(1,2) by (auto simp: Let_def moved_def nth_append min_def)
    qed
  qed
  show "returns (screen_write_deletecharacter ctx n) (refines ctx (terminal_step (T_deletecharacter n) (terminal_of ctx)))"
    if cx: "ctx_cx ctx < ctx_sx ctx"
  proof -
    define k where "k = min (max 1 n) (ctx_sx ctx - ctx_cx ctx)"
    have k: "k \<le> ctx_sx ctx - ctx_cx ctx" by (simp add: k_def)
    show ?thesis unfolding terminal_step.simps terminal_of_simps Let_def
    proof (rule row_refines [OF safe screen_write_deletecharacter_wrote [OF safe cx]], fold k_def)
      fix row :: "glyph list" assume "length row = ctx_sx ctx"
      then show "length (take (ctx_cx ctx) row @ drop (ctx_cx ctx + k) row @ blanks k) = ctx_sx ctx" using k cx by simp
    next
      fix x y assume "x < ctx_sx ctx" "y < ctx_sy ctx"
      then show "(let n = k in if y \<noteq> ctx_cy ctx \<or> x < ctx_cx ctx then ctx_glyph ctx x y
         else if x + n < ctx_sx ctx then ctx_glyph ctx (x + n) y else blank) =
        (if y = ctx_cy ctx then (take (ctx_cx ctx) (map (\<lambda>x. ctx_glyph ctx x y) [0..<ctx_sx ctx]) @
           drop (ctx_cx ctx + k) (map (\<lambda>x. ctx_glyph ctx x y) [0..<ctx_sx ctx]) @ blanks k) ! x else ctx_glyph ctx x y)"
        using k cx by (auto simp: Let_def nth_append min_def add.commute)
    qed
  qed
qed

lemma cursors_refine:
  assumes safe: "ctx_safe ctx"
  shows "refines ctx (terminal_step (T_up n) (terminal_of ctx)) (screen_write_cursorup ctx n)"
    "refines ctx (terminal_step (T_down n) (terminal_of ctx)) (screen_write_cursordown ctx n)"
    "refines ctx (terminal_step (T_left n) (terminal_of ctx)) (screen_write_cursorleft ctx n)"
    "refines ctx (terminal_step (T_move x y) (terminal_of ctx)) (screen_write_cursormove ctx x y)"
    "refines ctx (terminal_step T_carriagereturn (terminal_of ctx)) (screen_write_carriagereturn ctx)"
    "ctx_cx ctx < ctx_sx ctx \<Longrightarrow> refines ctx (terminal_step (T_right n) (terminal_of ctx)) (screen_write_cursorright ctx n)"
proof -
  show "refines ctx (terminal_step (T_up n) (terminal_of ctx)) (screen_write_cursorup ctx n)"
    by (rule cursor_refines [OF screen_write_cursorup_wrote [OF safe]]) (simp add: terminal_of_def)
  show "refines ctx (terminal_step (T_down n) (terminal_of ctx)) (screen_write_cursordown ctx n)"
    by (rule cursor_refines [OF screen_write_cursordown_wrote [OF safe]]) (simp add: terminal_of_def)
  show "refines ctx (terminal_step (T_left n) (terminal_of ctx)) (screen_write_cursorleft ctx n)"
    by (rule cursor_refines [OF screen_write_cursorleft_wrote [OF safe]]) (simp add: terminal_of_def)
  show "refines ctx (terminal_step (T_move x y) (terminal_of ctx)) (screen_write_cursormove ctx x y)"
    by (rule cursor_refines [OF screen_write_cursormove_wrote [OF safe]]) (simp add: terminal_of_def)
  show "refines ctx (terminal_step T_carriagereturn (terminal_of ctx)) (screen_write_carriagereturn ctx)"
    by (rule cursor_refines [OF screen_write_carriagereturn_wrote [OF safe]]) (simp add: terminal_of_def)
  show "refines ctx (terminal_step (T_right n) (terminal_of ctx)) (screen_write_cursorright ctx n)" if "ctx_cx ctx < ctx_sx ctx"
    by (rule cursor_refines [OF screen_write_cursorright_wrote [OF safe]]) (simp add: terminal_of_def that)
qed

lemma linefeed_refines:
  assumes safe: "ctx_safe ctx" and n: "narrow (terminal_of ctx)"
  shows "returns (screen_write_linefeed ctx wrapped) (refines ctx (terminal_step T_linefeed (terminal_of ctx)))"
  unfolding terminal_step.simps t_linefeed_of [OF safe n]
  by (rule returns_refines [OF screen_write_linefeed_wrote [OF safe]]) (simp add: terminal_of_def)

lemma step_refines:
  assumes safe: "ctx_safe ctx" and m: "\<not> has_flag (scr_mode (ctx_s ctx)) MODE_INSERT" and g: "terminal_guard (terminal_of ctx) op"
  shows "returns (screen_step op ctx) (refines ctx (terminal_step op (terminal_of ctx)))"
proof (cases op)
  case (T_char gc ud)
  then show ?thesis using char_refines [OF safe m] g by simp
next
  case T_reverseindex
  then show ?thesis using reverseindex_refines [OF safe] g by simp
next
  case T_linefeed
  then show ?thesis using linefeed_refines [OF safe] g by simp
next
  case (T_insertline n)
  then show ?thesis using lines_refine(1) [OF safe] g by simp
next
  case (T_deleteline n)
  then show ?thesis using lines_refine(2) [OF safe] g by simp
next
  case (T_insertcharacter n)
  then show ?thesis using characters_refine(1) [OF safe] g by simp
next
  case (T_deletecharacter n)
  then show ?thesis using characters_refine(2) [OF safe] g by simp
qed (use g cursors_refine [OF safe] region_refines [OF safe] clear_refines [OF safe] clear_part_refines [OF safe] in simp_all)

text \<open>The guards of a sequence of operations are checked on the terminal alone.\<close>

fun terminal_guarded :: "terminal_op list \<Rightarrow> terminal \<Rightarrow> bool" where
  "terminal_guarded [] t \<longleftrightarrow> True"
| "terminal_guarded (op # ops) t \<longleftrightarrow> terminal_guard t op \<and> terminal_guarded ops (terminal_step op t)"

lemma steps_refine:
  assumes "ctx_safe ctx" and "\<not> has_flag (scr_mode (ctx_s ctx)) MODE_INSERT" and "terminal_guarded ops (terminal_of ctx)"
  shows "returns (fold_opt screen_step ops ctx) (refines ctx (fold terminal_step ops (terminal_of ctx)))"
  using assms
proof (induction ops arbitrary: ctx)
  case Nil
  then show ?case by (simp add: refines_def)
next
  case (Cons op ops)
  obtain ctx1 where 1: "screen_step op ctx = Some ctx1" "refines ctx (terminal_step op (terminal_of ctx)) ctx1"
    using step_refines [OF Cons.prems(1,2), of op] Cons.prems(3) unfolding returns_eq by auto
  then have r: "ctx_safe ctx1" "scr_mode (ctx_s ctx1) = scr_mode (ctx_s ctx)" "terminal_of ctx1 = terminal_step op (terminal_of ctx)"
    by (simp_all add: refines_def)
  have "returns (fold_opt screen_step ops ctx1) (refines ctx1 (fold terminal_step ops (terminal_of ctx1)))"
    by (rule Cons.IH) (use r Cons.prems in simp_all)
  then show ?case using 1(1) r by (auto simp: refines_def elim!: returns_mono)
qed

text \<open>
  C3. The screen writing code refines a terminal that is a list of rows: from any well-formed screen that is not in insert mode, every
  sequence of characters, cursor movements, line feeds, scroll regions, insertions, deletions and clearings runs
  to the end, and the screen it leaves, with its grid, history, wide characters and UTF-8 arrays, is the picture
  of the terminal after the same operations on lists, in the cases in which the guard of the terminal allows the operation.
\<close>

theorem screen_refines_terminal:
  assumes "ctx_safe ctx" and "\<not> has_flag (scr_mode (ctx_s ctx)) MODE_INSERT" and "terminal_guarded ops (terminal_of ctx)"
  shows "\<exists>ctx'. fold_opt screen_step ops ctx = Some ctx' \<and> terminal_of ctx' = fold terminal_step ops (terminal_of ctx)"
  using steps_refine [OF assms] unfolding returns_eq refines_def by blast

definition example_terminal_ops :: "terminal_op list" where
  "example_terminal_ops = [T_region 0 10, T_move 78 10, T_char (grid_default_cell\<lparr>gc_data := 0x41\<rparr>) None, T_char (grid_default_cell\<lparr>gc_data := 0x42\<rparr>) None,
     T_char (grid_default_cell\<lparr>gc_data := 0x43\<rparr>) None, T_up 3, T_insertline 2, T_reverseindex, T_clearendofline, T_deleteline 1]"

theorem screen_refines_terminal_witness:
  "\<exists>ctx ctx'. ctx_safe ctx \<and> fold_opt screen_step example_terminal_ops ctx = Some ctx' \<and>
    terminal_of ctx' = fold terminal_step example_terminal_ops (terminal_of ctx)"
proof -
  obtain s where s: "screen_init None 80 24 2000 = Some s" "screen_safe s" "screen_size_x s = 80" "screen_size_y s = 24"
    using screen_init_safe [of 80 24 2000 None] by (auto simp: returns_eq)
  define ctx where "ctx = screen_write_insertmode (screen_write_start None s) False"
  have "ctx_safe (screen_write_start None s)" using s(2) by (simp add: ctx_safe_def screen_write_start_def)
  from ctx_nextD [OF screen_write_modes_next(2) [OF this]] have safe: "ctx_safe ctx" unfolding ctx_def .
  have m: "\<not> has_flag (scr_mode (ctx_s ctx)) MODE_INSERT"
    by (simp add: ctx_def screen_write_insertmode_def screen_write_mode_def Let_def del: One_nat_def)
  have sz: "ctx_sx ctx = 80" "ctx_sy ctx = 24"
    using s(3,4) by (simp_all add: ctx_def screen_write_insertmode_def screen_write_mode_def screen_write_start_def Let_def)
  have "terminal_guarded example_terminal_ops (terminal_of ctx)"
    by (simp add: example_terminal_ops_def sz Let_def narrow_def t_linefeed_def with_row_def char_ok_def char_width_def is_utf8_def is_padding_def
        grid_default_cell_def)
  from screen_refines_terminal [OF safe m this] safe show ?thesis by blast
qed

end
