(* ===== verification/Layout.thy ===== *)
theory Layout
  imports Prelude Options
begin

text \<open>
  The layout of a window (\<open>src/layout.c\<close>): a tree whose inner cells split their area from left to right or
  from top to bottom and whose leaves hold the panes. A cell's parent pointer and a pane's pointer to its
  cell are replaced by paths from the root (the list of child numbers). A pane is its identifier with its
  position and size; its screen is modelled in \<open>Pane\<close>. Sizes and offsets are \<open>u_int\<close>, changes of a size
  are \<open>int\<close>, with the conversions of C. \<open>None\<close> is a \<open>NULL\<close> pointer dereference, \<open>fatalx\<close> or a loop that
  never ends. Drawing, notifications and debug output are left out.
\<close>

section \<open>Cells\<close>

definition to_int :: "u_int \<Rightarrow> int" where
  "to_int n = (if n < 2147483648 then int n else int n - int UINT_MOD)"

definition to_u_int :: "int \<Rightarrow> u_int" where
  "to_u_int i = nat (i mod int UINT_MOD)"

text \<open>\<open>size += change\<close> for a \<open>u_int\<close> and an \<open>int\<close>.\<close>

definition u_adjust :: "u_int \<Rightarrow> int \<Rightarrow> u_int" where
  "u_adjust n change = to_u_int (int n + change)"

datatype layout_type =
    LAYOUT_LEFTRIGHT
  | LAYOUT_TOPBOTTOM
  | LAYOUT_WINDOWPANE

datatype layout_cell =
  Layout_Cell (lc_type: layout_type) (lc_sx: u_int) (lc_sy: u_int) (lc_xoff: u_int) (lc_yoff: u_int)
    (lc_wp: "nat option") (lc_cells: "layout_cell list")

definition PANE_MINIMUM :: u_int where
  "PANE_MINIMUM = 2"

record layout_pane =
  lp_id :: nat
  lp_xoff :: u_int
  lp_yoff :: u_int
  lp_sx :: u_int
  lp_sy :: u_int

record layout_window =
  lw_sx :: u_int
  lw_sy :: u_int
  lw_root :: "layout_cell option"
  lw_panes :: "layout_pane list"
  lw_active :: "nat option"
  lw_last :: "nat option"
  lw_lastlayout :: int
  lw_options :: options
  lw_list :: "string option list"
  lw_list_last :: "nat option"

definition layout_create_cell :: layout_cell where
  "layout_create_cell = Layout_Cell LAYOUT_WINDOWPANE UINT_MAX UINT_MAX UINT_MAX UINT_MAX None []"

definition layout_set_size :: "layout_cell \<Rightarrow> u_int \<Rightarrow> u_int \<Rightarrow> u_int \<Rightarrow> u_int \<Rightarrow> layout_cell" where
  "layout_set_size lc sx sy xoff yoff = Layout_Cell (lc_type lc) sx sy xoff yoff (lc_wp lc) (lc_cells lc)"

definition layout_make_leaf :: "layout_cell \<Rightarrow> nat \<Rightarrow> layout_cell" where
  "layout_make_leaf lc wp =
     Layout_Cell LAYOUT_WINDOWPANE (lc_sx lc) (lc_sy lc) (lc_xoff lc) (lc_yoff lc) (Some wp) []"

definition layout_make_node :: "layout_cell \<Rightarrow> layout_type \<Rightarrow> layout_cell option" where
  "layout_make_node lc type =
     (if type = LAYOUT_WINDOWPANE then None
      else Some (Layout_Cell type (lc_sx lc) (lc_sy lc) (lc_xoff lc) (lc_yoff lc) None []))"

definition set_cells :: "layout_cell \<Rightarrow> layout_cell list \<Rightarrow> layout_cell" where
  "set_cells lc cs = Layout_Cell (lc_type lc) (lc_sx lc) (lc_sy lc) (lc_xoff lc) (lc_yoff lc) (lc_wp lc) cs"

text \<open>The cell at a path, and the tree with another cell at a path.\<close>

fun cell_at :: "nat list \<Rightarrow> layout_cell \<Rightarrow> layout_cell option" where
  "cell_at [] lc = Some lc"
| "cell_at (i # p) lc = (if i < length (lc_cells lc) then cell_at p (lc_cells lc ! i) else None)"

fun cell_put :: "nat list \<Rightarrow> layout_cell \<Rightarrow> layout_cell \<Rightarrow> layout_cell" where
  "cell_put [] new lc = new"
| "cell_put (i # p) new lc =
     (if i < length (lc_cells lc) then set_cells lc ((lc_cells lc)[i := cell_put p new (lc_cells lc ! i)]) else lc)"

text \<open>The path of the leaf that holds a pane: \<open>wp->layout_cell\<close>.\<close>

fun pane_path :: "nat \<Rightarrow> layout_cell \<Rightarrow> nat list option" and
    pane_paths :: "nat \<Rightarrow> nat \<Rightarrow> layout_cell list \<Rightarrow> nat list option" where
  "pane_path wp (Layout_Cell type sx sy xoff yoff w cs) =
     (if type = LAYOUT_WINDOWPANE \<and> w = Some wp then Some [] else pane_paths wp 0 cs)"
| "pane_paths wp i [] = None"
| "pane_paths wp i (c # cs) =
     (case pane_path wp c of Some p \<Rightarrow> Some (i # p) | None \<Rightarrow> pane_paths wp (Suc i) cs)"

definition pane_cell :: "nat \<Rightarrow> layout_cell \<Rightarrow> layout_cell option" where
  "pane_cell wp root = pane_path wp root \<bind> (\<lambda>p. cell_at p root)"

section \<open>Offsets and panes\<close>

text \<open>The children get their offsets before the function is called on them.\<close>

fun layout_fix_offsets_at :: "u_int \<Rightarrow> u_int \<Rightarrow> layout_cell \<Rightarrow> layout_cell" and
    layout_fix_row :: "layout_type \<Rightarrow> u_int \<Rightarrow> u_int \<Rightarrow> layout_cell list \<Rightarrow> layout_cell list" where
  "layout_fix_offsets_at xoff yoff (Layout_Cell type sx sy _ _ w cs) =
     Layout_Cell type sx sy xoff yoff w
       (if type \<noteq> LAYOUT_WINDOWPANE then layout_fix_row type xoff yoff cs else cs)"
| "layout_fix_row type xoff yoff [] = []"
| "layout_fix_row type xoff yoff (c # cs) =
     layout_fix_offsets_at xoff yoff c #
     (if type = LAYOUT_LEFTRIGHT then layout_fix_row type (u_add xoff (u_add (lc_sx c) 1)) yoff cs
      else layout_fix_row type xoff (u_add yoff (u_add (lc_sy c) 1)) cs)"

definition layout_fix_offsets :: "layout_cell \<Rightarrow> layout_cell" where
  "layout_fix_offsets lc = layout_fix_offsets_at (lc_xoff lc) (lc_yoff lc) lc"

definition layout_crop :: "u_int \<Rightarrow> u_int \<Rightarrow> u_int \<Rightarrow> u_int \<Rightarrow> u_int" where
  "layout_crop minimum off csize wsize =
     (if off \<ge> wsize \<or> u_add off csize < wsize then csize
      else if u_sub wsize off < minimum then csize else u_sub wsize off)"

definition layout_fix_pane :: "layout_cell option \<Rightarrow> u_int \<Rightarrow> u_int \<Rightarrow> layout_pane \<Rightarrow> layout_pane" where
  "layout_fix_pane root wsx wsy wp =
     (case root \<bind> pane_cell (lp_id wp) of
        None \<Rightarrow> wp
      | Some lc \<Rightarrow> wp\<lparr>lp_xoff := lc_xoff lc, lp_yoff := lc_yoff lc,
          lp_sx := layout_crop 1 (lc_xoff lc) (lc_sx lc) wsx,
          lp_sy := layout_crop 2 (lc_yoff lc) (lc_sy lc) wsy\<rparr>)"

definition layout_fix_panes :: "layout_window \<Rightarrow> u_int \<Rightarrow> u_int \<Rightarrow> layout_window" where
  "layout_fix_panes w wsx wsy = w\<lparr>lw_panes := map (layout_fix_pane (lw_root w) wsx wsy) (lw_panes w)\<rparr>"

fun layout_count_cells :: "layout_cell \<Rightarrow> u_int" where
  "layout_count_cells (Layout_Cell type sx sy xoff yoff w cs) =
     (if type = LAYOUT_WINDOWPANE then 1 else foldl u_add 0 (map layout_count_cells cs))"

section \<open>Changing sizes\<close>

fun layout_resize_check :: "layout_cell \<Rightarrow> layout_type \<Rightarrow> u_int" where
  "layout_resize_check (Layout_Cell ty sx sy xoff yoff w cs) type =
     (if ty = LAYOUT_WINDOWPANE then
        (let available = (if type = LAYOUT_LEFTRIGHT then sx else sy)
         in if available > PANE_MINIMUM then available - PANE_MINIMUM else 0)
      else if ty = type then foldl u_add 0 (map (\<lambda>c. layout_resize_check c type) cs)
      else foldl min UINT_MAX (map (\<lambda>c. layout_resize_check c type) cs))"

text \<open>
  One run of the inner loop over the children, which are changed by \<open>f\<close>, with the change that is left.
\<close>

fun adjust_pass :: "(layout_cell \<Rightarrow> int \<Rightarrow> layout_cell option) \<Rightarrow> layout_type \<Rightarrow> layout_cell list \<Rightarrow> int \<Rightarrow>
    (layout_cell list \<times> int) option" where
  "adjust_pass f type [] change = Some ([], change)"
| "adjust_pass f type (c # cs) change =
     (if change = 0 then Some (c # cs, change)
      else if change > 0 then do {
        c \<leftarrow> f c 1;
        (cs, change) \<leftarrow> adjust_pass f type cs (change - 1);
        Some (c # cs, change)
      }
      else if layout_resize_check c type > 0 then do {
        c \<leftarrow> f c (-1);
        (cs, change) \<leftarrow> adjust_pass f type cs (change + 1);
        Some (c # cs, change)
      }
      else do {
        (cs, change) \<leftarrow> adjust_pass f type cs change;
        Some (c # cs, change)
      })"

lemma adjust_pass_change:
  "adjust_pass f type cs change = Some (cs', change') \<Longrightarrow>
   (0 \<le> change \<longrightarrow> 0 \<le> change' \<and> change' \<le> change) \<and> (change \<le> 0 \<longrightarrow> change \<le> change' \<and> change' \<le> 0)"
proof (induction cs arbitrary: change cs')
  case (Cons c cs)
  show ?case using Cons.prems
    by (fastforce simp: bind_Some_iff split: if_splits prod.splits dest: Cons.IH)
qed simp

text \<open>
  The loop around it. A run that changes nothing leaves the same state for the next one, so the loop never
  ends then: the result is \<open>None\<close>.
\<close>

function adjust_loop :: "(layout_cell \<Rightarrow> int \<Rightarrow> layout_cell option) \<Rightarrow> layout_type \<Rightarrow> layout_cell list \<Rightarrow> int \<Rightarrow>
    layout_cell list option" where
  "adjust_loop f type cs change =
     (if change = 0 then Some cs
      else case adjust_pass f type cs change of
        None \<Rightarrow> None
      | Some (cs', change') \<Rightarrow> if change' = change then None else adjust_loop f type cs' change')"
  by pat_completeness auto
termination
  by (relation "measure (\<lambda>(f, type, cs, change). nat \<bar>change\<bar>)") (auto dest: adjust_pass_change)

declare adjust_loop.simps [simp del]

text \<open>Changing a size in a direction.\<close>

definition change_size :: "layout_type \<Rightarrow> int \<Rightarrow> layout_cell \<Rightarrow> layout_cell" where
  "change_size type change lc =
     (if type = LAYOUT_LEFTRIGHT
      then layout_set_size lc (u_adjust (lc_sx lc) change) (lc_sy lc) (lc_xoff lc) (lc_yoff lc)
      else layout_set_size lc (lc_sx lc) (u_adjust (lc_sy lc) change) (lc_xoff lc) (lc_yoff lc))"

fun map_opt :: "('a \<Rightarrow> 'b option) \<Rightarrow> 'a list \<Rightarrow> 'b list option" where
  "map_opt f [] = Some []"
| "map_opt f (x # xs) = do { y \<leftarrow> f x; ys \<leftarrow> map_opt f xs; Some (y # ys) }"

text \<open>The recursion goes down the tree, \<open>d\<close> levels at most; the height of the cell is always enough.\<close>

fun layout_adjust :: "nat \<Rightarrow> layout_type \<Rightarrow> layout_cell \<Rightarrow> int \<Rightarrow> layout_cell option" where
  "layout_adjust 0 type lc change = None"
| "layout_adjust (Suc d) type lc change =
     (let lc = change_size type change lc
      in if type = LAYOUT_WINDOWPANE then Some lc
         else if lc_type lc \<noteq> type then do {
           cs \<leftarrow> map_opt (\<lambda>c. layout_adjust d type c change) (lc_cells lc);
           Some (set_cells lc cs)
         }
         else do {
           cs \<leftarrow> adjust_loop (layout_adjust d type) type (lc_cells lc) change;
           Some (set_cells lc cs)
         })"

fun cell_height :: "layout_cell \<Rightarrow> nat" where
  "cell_height (Layout_Cell type sx sy xoff yoff w cs) = Suc (foldr max (map cell_height cs) 0)"

definition layout_resize_adjust :: "layout_cell \<Rightarrow> layout_type \<Rightarrow> int \<Rightarrow> layout_cell option" where
  "layout_resize_adjust lc type change = layout_adjust (cell_height lc) type lc change"

section \<open>Operations on the tree\<close>

text \<open>The result of removing a cell is \<open>None\<close> (inside \<open>Some\<close>) when the tree is empty afterwards.\<close>

definition layout_destroy_cell :: "nat list \<Rightarrow> layout_cell \<Rightarrow> layout_cell option option" where
  "layout_destroy_cell path root =
     (if path = [] then Some None
      else do {
        let i = last path;
        let ppath = butlast path;
        lcparent \<leftarrow> cell_at ppath root;
        lc \<leftarrow> get_at (lc_cells lcparent) i;
        let other = (if i = 0 then 1 else i - 1);
        lcother \<leftarrow> get_at (lc_cells lcparent) other;
        lcother \<leftarrow> layout_resize_adjust lcother (lc_type lcparent)
          (to_int (u_add (if lc_type lcparent = LAYOUT_LEFTRIGHT then lc_sx lc else lc_sy lc) 1));
        let cs = (lc_cells lcparent)[other := lcother];
        let cs = take i cs @ drop (Suc i) cs;
        Some (Some (case cs of
            [c] \<Rightarrow>
              if ppath = [] then layout_set_size c (lc_sx c) (lc_sy c) 0 0 else cell_put ppath c root
          | _ \<Rightarrow> cell_put ppath (set_cells lcparent cs) root))
      })"

definition layout_init :: "layout_window \<Rightarrow> layout_window option" where
  "layout_init w =
     (case lw_panes w of
        [] \<Rightarrow> None
      | wp # _ \<Rightarrow>
          let lc = layout_make_leaf (layout_set_size layout_create_cell (lw_sx w) (lw_sy w) 0 0) (lp_id wp)
          in Some (layout_fix_panes (w\<lparr>lw_root := Some lc\<rparr>) (lw_sx w) (lw_sy w)))"

text \<open>One direction of \<open>layout_resize\<close>: the change of the root cell.\<close>

definition resize_change :: "layout_cell \<Rightarrow> layout_type \<Rightarrow> u_int \<Rightarrow> u_int \<Rightarrow> u_int \<Rightarrow> int" where
  "resize_change lc type new old lcsize =
     (let change = to_int (u_sub new old);
          limit = to_int (layout_resize_check lc type);
          change = (if change < 0 \<and> change < - limit then - limit else change)
      in if limit = 0 then (if new \<le> lcsize then 0 else to_int (u_sub new lcsize)) else change)"

definition resize_direction :: "layout_type \<Rightarrow> u_int \<Rightarrow> u_int \<Rightarrow> layout_cell \<Rightarrow> layout_cell option" where
  "resize_direction type new old lc =
     (let change = resize_change lc type new old (if type = LAYOUT_LEFTRIGHT then lc_sx lc else lc_sy lc)
      in if change \<noteq> 0 then layout_resize_adjust lc type change else Some lc)"

definition layout_resize :: "layout_window \<Rightarrow> u_int \<Rightarrow> u_int \<Rightarrow> layout_window option" where
  "layout_resize w sx sy = do {
     lc \<leftarrow> lw_root w;
     lc \<leftarrow> resize_direction LAYOUT_LEFTRIGHT sx (lw_sx w) lc;
     lc \<leftarrow> resize_direction LAYOUT_TOPBOTTOM sy (lw_sy w) lc;
     Some (layout_fix_panes (w\<lparr>lw_root := Some (layout_fix_offsets lc)\<rparr>) sx sy)
   }"

section \<open>Resizing one pane\<close>

text \<open>The first cell of a list of child numbers that has space left, with that space.\<close>

definition find_space :: "layout_type \<Rightarrow> layout_cell list \<Rightarrow> nat list \<Rightarrow> nat option" where
  "find_space type cs = find (\<lambda>k. layout_resize_check (cs ! k) type > 0)"

text \<open>Moving \<open>csize\<close> columns or rows from cell \<open>k\<close> to cell \<open>i\<close>.\<close>

definition move_space :: "layout_type \<Rightarrow> nat \<Rightarrow> nat \<Rightarrow> u_int \<Rightarrow> layout_cell list \<Rightarrow> layout_cell list option" where
  "move_space type i k csize cs = do {
     lcadd \<leftarrow> layout_resize_adjust (cs ! i) type (int csize);
     let cs = cs[i := lcadd];
     lcremove \<leftarrow> layout_resize_adjust (cs ! k) type (- int csize);
     Some (cs[k := lcremove])
   }"

definition layout_resize_pane_grow ::
  "layout_type \<Rightarrow> nat \<Rightarrow> int \<Rightarrow> layout_cell list \<Rightarrow> (layout_cell list \<times> u_int) option" where
  "layout_resize_pane_grow type i needed cs =
     (case find_space type cs ([Suc i..<length cs] @ rev [0..<i]) of
        None \<Rightarrow> Some (cs, 0)
      | Some k \<Rightarrow>
          let csize = layout_resize_check (cs ! k) type;
              csize = (if csize > to_u_int needed then to_u_int needed else csize)
          in do { cs \<leftarrow> move_space type i k csize cs; Some (cs, csize) })"

definition layout_resize_pane_shrink ::
  "layout_type \<Rightarrow> nat \<Rightarrow> int \<Rightarrow> layout_cell list \<Rightarrow> (layout_cell list \<times> u_int) option" where
  "layout_resize_pane_shrink type i needed cs =
     (case find_space type cs (rev [0..<Suc i]) of
        None \<Rightarrow> Some (cs, 0)
      | Some k \<Rightarrow>
          if Suc i \<ge> length cs then Some (cs, 0)
          else let csize = layout_resize_check (cs ! k) type;
                   csize = (if csize > to_u_int (- needed) then to_u_int (- needed) else csize)
            in do { cs \<leftarrow> move_space type (Suc i) k csize cs; Some (cs, csize) })"

text \<open>The loop, with at most \<open>n\<close> rounds: each round but the last uses up a part of \<open>needed\<close>.\<close>

fun resize_pane_loop :: "nat \<Rightarrow> layout_type \<Rightarrow> nat \<Rightarrow> int \<Rightarrow> int \<Rightarrow> layout_cell list \<Rightarrow> layout_cell list option" where
  "resize_pane_loop n type i change needed cs =
     (if needed = 0 then Some cs
      else case n of
        0 \<Rightarrow> None
      | Suc n \<Rightarrow> do {
          (cs, csize) \<leftarrow> (if change > 0 then layout_resize_pane_grow type i needed cs
            else layout_resize_pane_shrink type i needed cs);
          if csize = 0 then Some cs
          else resize_pane_loop n type i change (if change > 0 then needed - int csize else needed + int csize) cs
        })"

declare resize_pane_loop.simps [simp del]

text \<open>The path of the cell to resize: the closest one whose parent has the type.\<close>

function resize_target :: "layout_type \<Rightarrow> layout_cell \<Rightarrow> nat list \<Rightarrow> nat list option" where
  "resize_target type root path =
     (if path = [] then None
      else case cell_at (butlast path) root of
        None \<Rightarrow> None
      | Some lcparent \<Rightarrow> if lc_type lcparent \<noteq> type then resize_target type root (butlast path) else Some path)"
  by pat_completeness auto
termination
  by (relation "measure (\<lambda>(type, root, path). length path)") auto

declare resize_target.simps [simp del]

definition resize_cells :: "layout_type \<Rightarrow> nat list \<Rightarrow> int \<Rightarrow> layout_cell \<Rightarrow> layout_cell option" where
  "resize_cells type path change root = do {
     lcparent \<leftarrow> cell_at (butlast path) root;
     let cs = lc_cells lcparent;
     let i = last path;
     if length cs < 2 \<and> i + 1 = length cs then None
     else do {
       let i = (if i + 1 = length cs then i - 1 else i);
       cs \<leftarrow> resize_pane_loop (nat \<bar>change\<bar>) type i change change cs;
       Some (cell_put (butlast path) (set_cells lcparent cs) root)
     }
   }"

definition layout_resize_pane :: "nat \<Rightarrow> layout_type \<Rightarrow> int \<Rightarrow> layout_window \<Rightarrow> layout_window option" where
  "layout_resize_pane wp type change w = do {
     root \<leftarrow> lw_root w;
     path \<leftarrow> pane_path wp root;
     case resize_target type root path of
       None \<Rightarrow> Some w
     | Some path \<Rightarrow> do {
         root \<leftarrow> resize_cells type path change root;
         Some (layout_fix_panes (w\<lparr>lw_root := Some (layout_fix_offsets root)\<rparr>) (lw_sx w) (lw_sy w))
       }
   }"

section \<open>Splitting and closing\<close>

text \<open>The sizes of the two parts of a cell of size \<open>sz\<close>.\<close>

definition split_sizes :: "u_int \<Rightarrow> int \<Rightarrow> u_int \<times> u_int" where
  "split_sizes sz hint =
     (let size2 = (if hint < 0 then (sz + 1) div 2 - 1 else to_u_int hint);
          size2 = (if size2 < PANE_MINIMUM then PANE_MINIMUM else if size2 > sz - 2 then sz - 2 else size2)
      in (sz - 1 - size2, size2))"

text \<open>The two cells, the first at the offset of the old one.\<close>

definition split_cells :: "layout_type \<Rightarrow> int \<Rightarrow> layout_cell \<Rightarrow> layout_cell \<Rightarrow> layout_cell \<Rightarrow> layout_cell \<times> layout_cell" where
  "split_cells type hint old lc1 lc2 =
     (let sx = lc_sx old; sy = lc_sy old; xoff = lc_xoff old; yoff = lc_yoff old
      in if type = LAYOUT_LEFTRIGHT then
           let (size1, size2) = split_sizes sx hint
           in (layout_set_size lc1 size1 sy xoff yoff, layout_set_size lc2 size2 sy (u_add xoff (u_add size1 1)) yoff)
         else
           let (size1, size2) = split_sizes sy hint
           in (layout_set_size lc1 sx size1 xoff yoff, layout_set_size lc2 sx size2 xoff (u_add yoff (u_add size1 1))))"

text \<open>
  The result is the new tree with the path of the new cell, which has no pane yet; \<open>None\<close> (inside \<open>Some\<close>)
  when there is not enough space.
\<close>

definition layout_split_pane ::
  "nat \<Rightarrow> layout_type \<Rightarrow> int \<Rightarrow> bool \<Rightarrow> layout_cell \<Rightarrow> (layout_cell \<times> nat list) option option" where
  "layout_split_pane wp type hint insert_before root = do {
     path \<leftarrow> pane_path wp root;
     lc \<leftarrow> cell_at path root;
     if type = LAYOUT_WINDOWPANE then None
     else if (if type = LAYOUT_LEFTRIGHT then lc_sx lc else lc_sy lc) < PANE_MINIMUM * 2 + 1 then Some None
     else do {
       let lcnew = layout_create_cell;
       let (lc1, lc2) = (if insert_before then split_cells type hint lc lcnew lc else split_cells type hint lc lc lcnew);
       let (lc1, lc2) = (if insert_before then (lc1, layout_make_leaf lc2 wp) else (layout_make_leaf lc1 wp, lc2));
       let j = (if insert_before then 0 else 1);
       if path \<noteq> [] \<and> map_option lc_type (cell_at (butlast path) root) = Some type
       then do {
         lcparent \<leftarrow> cell_at (butlast path) root;
         let i = last path;
         let cs = lc_cells lcparent;
         Some (Some (cell_put (butlast path) (set_cells lcparent (take i cs @ [lc1, lc2] @ drop (Suc i) cs)) root,
           butlast path @ [i + j]))
       }
       else do {
         lcparent \<leftarrow> layout_make_node layout_create_cell type;
         let lcparent = layout_set_size lcparent (lc_sx lc) (lc_sy lc) (lc_xoff lc) (lc_yoff lc);
         Some (Some (cell_put path (set_cells lcparent [lc1, lc2]) root, path @ [j]))
       }
     }
   }"

text \<open>Splitting followed by assigning the new pane, as its callers do.\<close>

definition layout_assign_pane :: "nat list \<Rightarrow> nat \<Rightarrow> layout_window \<Rightarrow> layout_window option" where
  "layout_assign_pane path wp w = do {
     root \<leftarrow> lw_root w;
     lc \<leftarrow> cell_at path root;
     Some (layout_fix_panes (w\<lparr>lw_root := Some (cell_put path (layout_make_leaf lc wp) root)\<rparr>) (lw_sx w) (lw_sy w))
   }"

definition layout_close_pane :: "nat \<Rightarrow> layout_window \<Rightarrow> layout_window option" where
  "layout_close_pane wp w = do {
     root \<leftarrow> lw_root w;
     path \<leftarrow> pane_path wp root;
     root \<leftarrow> layout_destroy_cell path root;
     Some (case root of
         None \<Rightarrow> w\<lparr>lw_root := None\<rparr>
       | Some root \<Rightarrow> layout_fix_panes (w\<lparr>lw_root := Some (layout_fix_offsets root)\<rparr>) (lw_sx w) (lw_sy w))
   }"

end
