(* ===== verification/Window.thy ===== *)
theory Window
  imports Layout Cstring
begin

text \<open>
  The panes of a window (the pane functions of \<open>src/window.c\<close>): a list of panes with an active and a last
  active one. Panes are referred to by their identifiers. The screen and the parser of a pane are modelled in
  \<open>Pane\<close>; here a pane has its position and size only.
\<close>

definition pane_ids :: "layout_window \<Rightarrow> nat list" where
  "pane_ids w = map lp_id (lw_panes w)"

definition find_pane :: "layout_window \<Rightarrow> nat \<Rightarrow> layout_pane option" where
  "find_pane w wp = find (\<lambda>p. lp_id p = wp) (lw_panes w)"

text \<open>The position of an element in a list, \<open>TAILQ_PREV\<close>, \<open>TAILQ_NEXT\<close>, \<open>TAILQ_FIRST\<close>, \<open>TAILQ_LAST\<close>.\<close>

fun index_of :: "'a \<Rightarrow> 'a list \<Rightarrow> nat option" where
  "index_of x [] = None"
| "index_of x (y # ys) = (if x = y then Some 0 else map_option Suc (index_of x ys))"

definition tailq_next :: "'a list \<Rightarrow> 'a \<Rightarrow> 'a option" where
  "tailq_next xs x = index_of x xs \<bind> (\<lambda>i. if Suc i < length xs then Some (xs ! Suc i) else None)"

definition tailq_prev :: "'a list \<Rightarrow> 'a \<Rightarrow> 'a option" where
  "tailq_prev xs x = index_of x xs \<bind> (\<lambda>i. if 0 < i then Some (xs ! (i - 1)) else None)"

definition tailq_first :: "'a list \<Rightarrow> 'a option" where
  "tailq_first xs = (if xs = [] then None else Some (hd xs))"

definition tailq_last :: "'a list \<Rightarrow> 'a option" where
  "tailq_last xs = (if xs = [] then None else Some (last xs))"

section \<open>The list of panes\<close>

definition window_resize :: "layout_window \<Rightarrow> u_int \<Rightarrow> u_int \<Rightarrow> layout_window" where
  "window_resize w sx sy = w\<lparr>lw_sx := sx, lw_sy := sy\<rparr>"

text \<open>A new pane with identifier \<open>wp\<close>, after the active one; \<open>None\<close> when there are panes but none is active.\<close>

definition window_add_pane :: "layout_window \<Rightarrow> nat \<Rightarrow> layout_window option" where
  "window_add_pane w wp =
     (let p = \<lparr>lp_id = wp, lp_xoff = 0, lp_yoff = 0, lp_sx = lw_sx w, lp_sy = lw_sy w\<rparr>
      in if lw_panes w = [] then Some (w\<lparr>lw_panes := [p]\<rparr>)
         else do {
           active \<leftarrow> lw_active w;
           i \<leftarrow> index_of active (pane_ids w);
           Some (w\<lparr>lw_panes := take (Suc i) (lw_panes w) @ p # drop (Suc i) (lw_panes w)\<rparr>)
         })"

definition window_remove_pane :: "layout_window \<Rightarrow> nat \<Rightarrow> layout_window" where
  "window_remove_pane w wp =
     (let w = (if lw_active w = Some wp then
                 (let active = lw_last w;
                      active = (if active = None then tailq_prev (pane_ids w) wp else active);
                      active = (if active = None then tailq_next (pane_ids w) wp else active)
                  in w\<lparr>lw_active := active, lw_last := None\<rparr>)
               else if lw_last w = Some wp then w\<lparr>lw_last := None\<rparr> else w)
      in w\<lparr>lw_panes := filter (\<lambda>p. lp_id p \<noteq> wp) (lw_panes w)\<rparr>)"

definition window_count_panes :: "layout_window \<Rightarrow> u_int" where
  "window_count_panes w = length (lw_panes w)"

definition window_pane_at_index :: "layout_window \<Rightarrow> u_int \<Rightarrow> layout_pane option option" where
  "window_pane_at_index w idx = do {
     n \<leftarrow> options_get_u_int (lw_options w) ''pane-base-index'';
     Some (if n \<le> idx \<and> idx - n < length (lw_panes w) then Some (lw_panes w ! (idx - n)) else None)
   }"

definition window_pane_index :: "layout_window \<Rightarrow> nat \<Rightarrow> u_int option option" where
  "window_pane_index w wp = do {
     n \<leftarrow> options_get_u_int (lw_options w) ''pane-base-index'';
     Some (map_option (\<lambda>i. u_add n i) (index_of wp (pane_ids w)))
   }"

fun window_pane_next_by_number :: "layout_window \<Rightarrow> nat \<Rightarrow> nat \<Rightarrow> nat option" where
  "window_pane_next_by_number w wp 0 = Some wp"
| "window_pane_next_by_number w wp (Suc n) =
     (case tailq_next (pane_ids w) wp of
        Some wp \<Rightarrow> window_pane_next_by_number w wp n
      | None \<Rightarrow> tailq_first (pane_ids w) \<bind> (\<lambda>wp. window_pane_next_by_number w wp n))"

fun window_pane_previous_by_number :: "layout_window \<Rightarrow> nat \<Rightarrow> nat \<Rightarrow> nat option" where
  "window_pane_previous_by_number w wp 0 = Some wp"
| "window_pane_previous_by_number w wp (Suc n) =
     (case tailq_prev (pane_ids w) wp of
        Some wp \<Rightarrow> window_pane_previous_by_number w wp n
      | None \<Rightarrow> tailq_last (pane_ids w) \<bind> (\<lambda>wp. window_pane_previous_by_number w wp n))"

section \<open>The active pane\<close>

definition window_pane_visible :: "layout_window \<Rightarrow> layout_pane \<Rightarrow> bool" where
  "window_pane_visible w wp \<longleftrightarrow>
     \<not> (lp_xoff wp \<ge> lw_sx w \<or> lp_yoff wp \<ge> lw_sy w) \<and>
     \<not> (u_add (lp_xoff wp) (lp_sx wp) > lw_sx w \<or> u_add (lp_yoff wp) (lp_sy wp) > lw_sy w)"

text \<open>
  The search for a visible pane, backwards from \<open>active\<close>, until it comes to the pane it started at. Each
  round visits another pane of the list, so \<open>n\<close> rounds, the number of panes, are enough.
\<close>

fun active_loop :: "nat \<Rightarrow> layout_window \<Rightarrow> nat \<Rightarrow> nat \<Rightarrow> nat option" where
  "active_loop n w wp active = do {
     p \<leftarrow> find_pane w active;
     if window_pane_visible w p then Some active
     else case n of
       0 \<Rightarrow> None
     | Suc n \<Rightarrow> do {
         active \<leftarrow> (case tailq_prev (pane_ids w) active of Some a \<Rightarrow> Some a | None \<Rightarrow> tailq_last (pane_ids w));
         if active = wp then Some active else active_loop n w wp active
       }
   }"

declare active_loop.simps [simp del]

definition window_set_active_pane :: "layout_window \<Rightarrow> nat \<Rightarrow> layout_window option" where
  "window_set_active_pane w wp =
     (if lw_active w = Some wp then Some w
      else do {
        active \<leftarrow> active_loop (length (lw_panes w)) w wp wp;
        Some (w\<lparr>lw_last := lw_active w, lw_active := Some active\<rparr>)
      })"

definition window_get_active_at :: "layout_window \<Rightarrow> u_int \<Rightarrow> u_int \<Rightarrow> nat option" where
  "window_get_active_at w x y = map_option lp_id (find (\<lambda>wp. window_pane_visible w wp \<and>
     \<not> (x < lp_xoff wp \<or> x > u_add (lp_xoff wp) (lp_sx wp)) \<and>
     \<not> (y < lp_yoff wp \<or> y > u_add (lp_yoff wp) (lp_sy wp))) (lw_panes w))"

definition window_set_active_at :: "layout_window \<Rightarrow> u_int \<Rightarrow> u_int \<Rightarrow> layout_window option" where
  "window_set_active_at w x y =
     (case window_get_active_at w x y of
        None \<Rightarrow> Some w
      | Some wp \<Rightarrow> if lw_active w \<noteq> Some wp then window_set_active_pane w wp else Some w)"

definition window_find_string :: "layout_window \<Rightarrow> string \<Rightarrow> nat option" where
  "window_find_string w s =
     (let x = lw_sx w div 2; y = lw_sy w div 2; right = u_sub (lw_sx w) 1; bottom = u_sub (lw_sy w) 1;
          at = window_get_active_at w
      in if strcasecmp s ''top'' then at x 0
         else if strcasecmp s ''bottom'' then at x bottom
         else if strcasecmp s ''left'' then at 0 y
         else if strcasecmp s ''right'' then at right y
         else if strcasecmp s ''top-left'' then at 0 0
         else if strcasecmp s ''top-right'' then at right 0
         else if strcasecmp s ''bottom-left'' then at 0 bottom
         else if strcasecmp s ''bottom-right'' then at right bottom
         else None)"

end
