(* ===== verification/Layout_Custom.thy ===== *)
theory Layout_Custom
  imports Window
begin

text \<open>
  Layouts as strings (\<open>src/layout-custom.c\<close>) and the list of recent layouts of a window (the end of
  \<open>src/layout.c\<close>). The size of the buffer of \<open>layout_dump\<close>, \<open>BUFSIZ\<close>, belongs to the C library and is a
  parameter. \<open>sscanf\<close> with \<open>%u\<close> and \<open>%hx\<close> is modelled for what the code can pass it. Where the code returns an
  error, the model returns \<open>None\<close> in \<open>layout_append\<close>, \<open>layout_dump\<close> and \<open>layout_construct\<close>; in \<open>layout_parse\<close>
  and the list functions \<open>None\<close> is a crash.
\<close>

section \<open>Printing\<close>

fun layout_find_bottomright :: "layout_cell \<Rightarrow> nat list option" where
  "layout_find_bottomright (Layout_Cell type sx sy xoff yoff w cs) =
     (if type = LAYOUT_WINDOWPANE then Some []
      else if cs = [] then None
      else map_option (\<lambda>p. (length cs - 1) # p) (last (None # map layout_find_bottomright cs)))"

definition signed_char :: "char \<Rightarrow> int" where
  "signed_char c = (let n = of_char c in if n < 128 then n else n - 256)"

definition checksum_step :: "char \<Rightarrow> 16 word \<Rightarrow> 16 word" where
  "checksum_step c csum =
     (let csum = drop_bit 1 csum + push_bit 15 (Bit_Operations.and csum 1) in csum + of_int (signed_char c))"

definition layout_checksum :: "string \<Rightarrow> 16 word" where
  "layout_checksum layout = fold checksum_step layout 0"

text \<open>\<open>strlcat\<close> into a buffer of \<open>len\<close> bytes, \<open>None\<close> when the result was cut.\<close>

definition strlcat :: "string \<Rightarrow> string \<Rightarrow> nat \<Rightarrow> string option" where
  "strlcat buf s len = (if length buf + length s \<ge> len then None else Some (buf @ s))"

definition cell_prefix :: "layout_cell \<Rightarrow> string" where
  "cell_prefix lc = dec_string (lc_sx lc) @ ''x'' @ dec_string (lc_sy lc) @ '','' @ dec_string (lc_xoff lc) @ '','' @
     dec_string (lc_yoff lc) @ (case lc_wp lc of Some wp \<Rightarrow> '','' @ dec_string wp | None \<Rightarrow> [])"

fun layout_append :: "nat \<Rightarrow> layout_cell \<Rightarrow> string \<Rightarrow> string option" and
    layout_append_cells :: "nat \<Rightarrow> layout_cell list \<Rightarrow> string \<Rightarrow> string option" where
  "layout_append len (Layout_Cell type sx sy xoff yoff w cs) buf =
     (let tmp = cell_prefix (Layout_Cell type sx sy xoff yoff w cs);
          brackets = (if type = LAYOUT_LEFTRIGHT then ''}{'' else '']['')
      in if len = 0 \<or> length tmp > 64 - 1 then None
         else do {
           buf \<leftarrow> strlcat buf tmp len;
           if type = LAYOUT_WINDOWPANE then Some buf
           else do {
             buf \<leftarrow> strlcat buf (tl brackets) len;
             buf \<leftarrow> layout_append_cells len cs buf;
             Some (butlast buf @ [hd brackets])
           }
         })"
| "layout_append_cells len [] buf = Some buf"
| "layout_append_cells len (c # cs) buf = do {
     buf \<leftarrow> layout_append len c buf;
     buf \<leftarrow> strlcat buf '','' len;
     layout_append_cells len cs buf
   }"

definition hex_digit :: "nat \<Rightarrow> char" where
  "hex_digit d = (if d < 10 then char_of (48 + d) else char_of (87 + d))"

fun hex_string :: "nat \<Rightarrow> string" where
  "hex_string n = (if n < 16 then [hex_digit n] else hex_string (n div 16) @ [hex_digit (n mod 16)])"

declare hex_string.simps [simp del]

text \<open>The conversion \<open>%4x\<close>, which pads with spaces.\<close>

definition hex4 :: "nat \<Rightarrow> string" where
  "hex4 n = replicate (4 - length (hex_string n)) CHR '' '' @ hex_string n"

definition layout_dump :: "nat \<Rightarrow> layout_cell \<Rightarrow> string option" where
  "layout_dump bufsiz root = do {
     layout \<leftarrow> layout_append bufsiz root [];
     Some (hex4 (unat (layout_checksum layout)) @ '','' @ layout)
   }"

section \<open>Reading\<close>

definition hex_value :: "string \<Rightarrow> nat" where
  "hex_value s = foldl (\<lambda>n c. 16 * n + xdigit_value c) 0 s"

definition strtoul_limit :: nat where
  "strtoul_limit = 18446744073709551616"

text \<open>\<open>strtoul\<close> gives \<open>ULONG_MAX\<close> for a value that is too large; the conversions store its low bits.\<close>

definition ulong_of :: "nat \<Rightarrow> nat" where
  "ulong_of n = (if n < strtoul_limit then n else strtoul_limit - 1)"

text \<open>\<open>sscanf (s, "%hx,", &csum)\<close>: the value when the first conversion succeeds.\<close>

definition scan_hx :: "string \<Rightarrow> 16 word option" where
  "scan_hx s =
     (let s = dropWhile isspace s;
          neg = (s \<noteq> [] \<and> hd s = CHR ''-'');
          s = (if s \<noteq> [] \<and> (hd s = CHR ''-'' \<or> hd s = CHR ''+'') then tl s else s);
          s = (if take 2 s = ''0x'' \<or> take 2 s = ''0X'' then drop 2 s else s);
          digits = takeWhile isxdigit s;
          n = word_of_nat (ulong_of (hex_value digits)) :: 16 word
      in if digits = [] then None
         else Some (if neg \<and> hex_value digits < strtoul_limit then - n else n))"

text \<open>
  The numbers of a cell. \<open>sscanf\<close> would skip spaces and signs in front of a number, but the code then finds
  no digit or comma in that place and gives up, so both together want digits. The pane identifier after a
  fourth comma may be missing.
\<close>

definition scan_u :: "string \<Rightarrow> (u_int \<times> string) option" where
  "scan_u s =
     (let digits = takeWhile isdigit s
      in if digits = [] then None
         else Some (ulong_of (dec_value digits) mod UINT_MOD, dropWhile isdigit s))"

definition expect :: "char \<Rightarrow> string \<Rightarrow> string option" where
  "expect c s = (if s \<noteq> [] \<and> hd s = c then Some (tl s) else None)"

definition scan_cell :: "string \<Rightarrow> (layout_cell \<times> string) option" where
  "scan_cell s = do {
     (sx, s) \<leftarrow> scan_u s;
     s \<leftarrow> expect CHR ''x'' s;
     (sy, s) \<leftarrow> scan_u s;
     s \<leftarrow> expect CHR '','' s;
     (xoff, s) \<leftarrow> scan_u s;
     s \<leftarrow> expect CHR '','' s;
     (yoff, s) \<leftarrow> scan_u s;
     let s = (case expect CHR '','' s of Some s \<Rightarrow> dropWhile isdigit s | None \<Rightarrow> s);
     Some (layout_set_size layout_create_cell sx sy xoff yoff, s)
   }"

definition node_type :: "string \<Rightarrow> layout_type option" where
  "node_type s =
     (if s = [] \<or> hd s \<in> set '',}]'' then Some LAYOUT_WINDOWPANE
      else if hd s = CHR 0x7B then Some LAYOUT_LEFTRIGHT
      else if hd s = CHR ''['' then Some LAYOUT_TOPBOTTOM
      else None)"

text \<open>Each call reads at least one character, so the length of the string is enough for the recursion.\<close>

fun layout_construct :: "nat \<Rightarrow> string \<Rightarrow> (layout_cell \<times> string) option" and
    layout_construct_cells :: "nat \<Rightarrow> string \<Rightarrow> (layout_cell list \<times> string) option" where
  "layout_construct 0 s = None"
| "layout_construct (Suc n) s = do {
     (lc, s) \<leftarrow> scan_cell s;
     type \<leftarrow> node_type s;
     if type = LAYOUT_WINDOWPANE then Some (lc, s)
     else do {
       (cs, s) \<leftarrow> layout_construct_cells n (tl s);
       s \<leftarrow> expect (if type = LAYOUT_LEFTRIGHT then CHR 0x7D else CHR '']'') s;
       Some (Layout_Cell type (lc_sx lc) (lc_sy lc) (lc_xoff lc) (lc_yoff lc) None cs, s)
     }
   }"
| "layout_construct_cells 0 s = None"
| "layout_construct_cells (Suc n) s = do {
     (c, s) \<leftarrow> layout_construct n s;
     case expect CHR '','' s of
       None \<Rightarrow> Some ([c], s)
     | Some s \<Rightarrow> do { (cs, s) \<leftarrow> layout_construct_cells n s; Some (c # cs, s) }
   }"

text \<open>The panes are put into the leaves in the order of the window's list.\<close>

fun layout_assign :: "layout_cell \<Rightarrow> nat list \<Rightarrow> (layout_cell \<times> nat list) option" and
    layout_assign_cells :: "layout_cell list \<Rightarrow> nat list \<Rightarrow> (layout_cell list \<times> nat list) option" where
  "layout_assign (Layout_Cell type sx sy xoff yoff w cs) wps =
     (if type = LAYOUT_WINDOWPANE then
        (case wps of
           [] \<Rightarrow> None
         | wp # wps \<Rightarrow> Some (layout_make_leaf (Layout_Cell type sx sy xoff yoff w cs) wp, wps))
      else do {
        (cs, wps) \<leftarrow> layout_assign_cells cs wps;
        Some (Layout_Cell type sx sy xoff yoff w cs, wps)
      })"
| "layout_assign_cells [] wps = Some ([], wps)"
| "layout_assign_cells (c # cs) wps = do {
     (c, wps) \<leftarrow> layout_assign c wps;
     (cs, wps) \<leftarrow> layout_assign_cells cs wps;
     Some (c # cs, wps)
   }"

text \<open>
  Closing cells until as many as panes are left; the result is \<open>None\<close> (inside \<open>Some\<close>) when there are more
  panes than cells. Each round removes a leaf, so \<open>n\<close>, the number of cells, is enough.
\<close>

fun close_cells :: "nat \<Rightarrow> u_int \<Rightarrow> layout_cell \<Rightarrow> layout_cell option option" where
  "close_cells n npanes lc =
     (if npanes > layout_count_cells lc then Some None
      else if npanes = layout_count_cells lc then Some (Some lc)
      else case n of
        0 \<Rightarrow> None
      | Suc n \<Rightarrow> do {
          path \<leftarrow> layout_find_bottomright lc;
          lc \<leftarrow> layout_destroy_cell path lc;
          lc \<leftarrow> lc;
          close_cells n npanes lc
        })"

declare close_cells.simps [simp del]

text \<open>The flag is false when the code returns -1.\<close>

definition layout_parse :: "layout_window \<Rightarrow> string \<Rightarrow> (layout_window \<times> bool) option" where
  "layout_parse w layout =
     (case scan_hx layout of
        None \<Rightarrow> Some (w, False)
      | Some csum \<Rightarrow>
          if length layout < 5 then None
          else let layout = drop 5 layout
          in if csum \<noteq> layout_checksum layout then Some (w, False)
             else case layout_construct (Suc (length layout)) layout of
               None \<Rightarrow> Some (w, False)
             | Some (lc, rest) \<Rightarrow>
                 if rest \<noteq> [] then Some (w, False)
                 else do {
                   lc \<leftarrow> close_cells (layout_count_cells lc) (window_count_panes w) lc;
                   case lc of
                     None \<Rightarrow> Some (w, False)
                   | Some lc \<Rightarrow> do {
                       let sx = lw_sx w;
                       let sy = lw_sy w;
                       let w = window_resize w (lc_sx lc) (lc_sy lc);
                       (lc, _) \<leftarrow> layout_assign lc (pane_ids w);
                       let w = w\<lparr>lw_root := Some (layout_fix_offsets lc)\<rparr>;
                       let w = layout_fix_panes w (lc_sx lc) (lc_sy lc);
                       w \<leftarrow> layout_resize w sx sy;
                       Some (window_resize w sx sy, True)
                     }
                 })"

section \<open>The list of recent layouts\<close>

text \<open>
  \<open>lw_list_last\<close> is the position of \<open>layout_list_last\<close>. With a limit of 0, which the option does not allow,
  the code would free the entry that \<open>layout_list_last\<close> points to; the model stops there.
\<close>

fun trim_list :: "'a list \<Rightarrow> nat \<Rightarrow> u_int \<Rightarrow> ('a list \<times> nat) option" where
  "trim_list xs i limit =
     (if length xs \<le> limit then Some (xs, i)
      else if i \<noteq> length xs - 1 then trim_list (butlast xs) i limit
      else if i = 0 then None
      else trim_list (tl xs) (i - 1) limit)"

declare trim_list.simps [simp del]

definition layout_list_add :: "nat \<Rightarrow> layout_window \<Rightarrow> layout_window option" where
  "layout_list_add bufsiz w = do {
     root \<leftarrow> lw_root w;
     let layout = layout_dump bufsiz root;
     same \<leftarrow> (case lw_list_last w of
         None \<Rightarrow> Some False
       | Some i \<Rightarrow> do {
           last \<leftarrow> get_at (lw_list w) i;
           last \<leftarrow> last;
           layout \<leftarrow> layout;
           Some (last = layout)
         });
     if same then Some w
     else do {
       let (xs, i) = (case lw_list_last w of
           None \<Rightarrow> (lw_list w @ [layout], length (lw_list w))
         | Some i \<Rightarrow> (take (Suc i) (lw_list w) @ [layout] @ drop (Suc i) (lw_list w), Suc i));
       limit \<leftarrow> options_get_u_int (lw_options w) ''layout-history-limit'';
       (xs, i) \<leftarrow> trim_list xs i limit;
       Some (w\<lparr>lw_list := xs, lw_list_last := Some i\<rparr>)
     }
   }"

text \<open>The layout to apply, \<open>None\<close> when there is none.\<close>

definition layout_list_redo :: "layout_window \<Rightarrow> layout_window \<times> string option" where
  "layout_list_redo w =
     (case lw_list_last w of
        None \<Rightarrow> (w, None)
      | Some i \<Rightarrow> if Suc i < length (lw_list w) then (w\<lparr>lw_list_last := Some (Suc i)\<rparr>, lw_list w ! Suc i) else (w, None))"

definition layout_list_undo :: "layout_window \<Rightarrow> layout_window \<times> string option" where
  "layout_list_undo w =
     (case lw_list_last w of
        None \<Rightarrow> (w, None)
      | Some i \<Rightarrow> if 0 < i \<and> i \<le> length (lw_list w) then (w\<lparr>lw_list_last := Some (i - 1)\<rparr>, lw_list w ! (i - 1))
          else (w, None))"

end
