(* ===== verification/Layout_Facts.thy ===== *)
theory Layout_Facts
  imports Layout
begin

text \<open>
  The invariant of a layout tree (\<open>cell_ok\<close>: the children of every cell fill it exactly, with one line
  between neighbours) and the proof that changing the size of a cell keeps it, ends, and changes the size by
  exactly the amount asked for.
\<close>

section \<open>Sizes in a direction\<close>

abbreviation CELL_MAX :: u_int where "CELL_MAX \<equiv> 1073741823"

text \<open>The size in the direction \<open>d\<close> and in the other one.\<close>

definition len :: "layout_type \<Rightarrow> layout_cell \<Rightarrow> u_int" where
  "len d lc = (if d = LAYOUT_LEFTRIGHT then lc_sx lc else lc_sy lc)"

definition cross :: "layout_type \<Rightarrow> layout_cell \<Rightarrow> u_int" where
  "cross d lc = (if d = LAYOUT_LEFTRIGHT then lc_sy lc else lc_sx lc)"

abbreviation is_direction :: "layout_type \<Rightarrow> bool" where
  "is_direction d \<equiv> d \<noteq> LAYOUT_WINDOWPANE"

lemma cross_len: "is_direction d \<Longrightarrow> is_direction ty \<Longrightarrow> ty \<noteq> d \<Longrightarrow> cross ty lc = len d lc \<and> cross d lc = len ty lc"
  by (cases d; cases ty) (auto simp: len_def cross_def)

text \<open>The lengths of neighbours, each with the line behind it.\<close>

abbreviation row_len :: "layout_type \<Rightarrow> layout_cell list \<Rightarrow> nat" where
  "row_len d cs \<equiv> sum_list (map (\<lambda>c. len d c + 1) cs)"

fun cell_ok :: "layout_cell \<Rightarrow> bool" where
  "cell_ok (Layout_Cell ty sx sy xoff yoff w cs) \<longleftrightarrow>
     0 < sx \<and> 0 < sy \<and> sx \<le> CELL_MAX \<and> sy \<le> CELL_MAX \<and>
     (if ty = LAYOUT_WINDOWPANE then cs = []
      else w = None \<and> 2 \<le> length cs \<and> (\<forall>c \<in> set cs. cell_ok c) \<and>
        (if ty = LAYOUT_LEFTRIGHT then (\<forall>c \<in> set cs. lc_sy c = sy) \<and> row_len ty cs = sx + 1
         else (\<forall>c \<in> set cs. lc_sx c = sx) \<and> row_len ty cs = sy + 1))"

lemma cell_ok_iff:
  "cell_ok lc \<longleftrightarrow> 0 < lc_sx lc \<and> 0 < lc_sy lc \<and> lc_sx lc \<le> CELL_MAX \<and> lc_sy lc \<le> CELL_MAX \<and>
     (if lc_type lc = LAYOUT_WINDOWPANE then lc_cells lc = []
      else lc_wp lc = None \<and> 2 \<le> length (lc_cells lc) \<and> (\<forall>c \<in> set (lc_cells lc). cell_ok c) \<and>
        (\<forall>c \<in> set (lc_cells lc). cross (lc_type lc) c = cross (lc_type lc) lc) \<and>
        row_len (lc_type lc) (lc_cells lc) = len (lc_type lc) lc + 1)"
  by (cases lc) (auto simp: len_def cross_def)

lemma cell_ok_len: "cell_ok lc \<Longrightarrow> 0 < len d lc \<and> len d lc \<le> CELL_MAX \<and> 0 < cross d lc \<and> cross d lc \<le> CELL_MAX"
  by (simp add: cell_ok_iff len_def cross_def)

text \<open>The panes of a tree, in order.\<close>

fun cell_panes :: "layout_cell \<Rightarrow> nat option list" where
  "cell_panes (Layout_Cell ty sx sy xoff yoff w cs) =
     (if ty = LAYOUT_WINDOWPANE then [w] else concat (map cell_panes cs))"

lemma cell_panes_eq: "cell_panes lc = (if lc_type lc = LAYOUT_WINDOWPANE then [lc_wp lc]
    else concat (map cell_panes (lc_cells lc)))"
  by (cases lc) simp

lemma cell_height_eq: "cell_height lc = Suc (foldr max (map cell_height (lc_cells lc)) 0)"
  by (cases lc) simp

lemma foldr_max_le: "x \<in> set xs \<Longrightarrow> x \<le> foldr max xs (0 :: nat)"
  by (induction xs) auto

lemma cell_height_child: "c \<in> set (lc_cells lc) \<Longrightarrow> cell_height c < cell_height lc"
  unfolding cell_height_eq [of lc] using foldr_max_le [of "cell_height c" "map cell_height (lc_cells lc)"] by force

section \<open>Available space\<close>

lemma foldl_u_add: "a + sum_list xs < UINT_MOD \<Longrightarrow> foldl u_add a xs = a + sum_list xs"
proof (induction xs arbitrary: a)
  case (Cons x xs)
  then have "u_add a x = a + x" by (intro u_add_small) simp
  then show ?case using Cons by simp
qed simp

lemma foldl_min_le: "foldl min a xs \<le> (a :: nat) \<and> (\<forall>x \<in> set xs. foldl min a xs \<le> x)"
proof (induction xs arbitrary: a)
  case (Cons x xs)
  then show ?case using Cons [of "min a x"] by auto
qed simp

lemma foldl_min_in: "foldl min a xs = (a :: nat) \<or> foldl min a xs \<in> set xs"
proof (induction xs arbitrary: a)
  case (Cons x xs)
  then show ?case using Cons [of "min a x"] by (auto simp: min_def split: if_splits)
qed simp

lemma foldl_min_eq:
  assumes "xs \<noteq> []" and "\<forall>x \<in> set xs. x \<le> (a :: nat)"
  shows "foldl min a xs = Min (set xs)"
proof -
  obtain x where x: "x \<in> set xs" using assms(1) by (cases xs) auto
  have "foldl min a xs \<in> set xs"
    using foldl_min_in [of a xs] foldl_min_le [of a xs] assms(2) x by (metis le_antisym)
  then show ?thesis using foldl_min_le [of a xs] by (metis List.finite_set Min_eqI)
qed

abbreviation check :: "layout_type \<Rightarrow> layout_cell \<Rightarrow> nat" where
  "check d c \<equiv> layout_resize_check c d"

lemma sum_list_member: "c \<in> set cs \<Longrightarrow> (f c :: nat) \<le> sum_list (map f cs)"
  by (induction cs) auto

lemma row_len_bounds:
  assumes "row_len d cs \<le> n + 1" and "c \<in> set cs"
  shows "len d c \<le> n" "sum_list (map (len d) cs) \<le> n + 1"
proof -
  have "len d c + 1 \<le> row_len d cs" using sum_list_member [OF assms(2), of "\<lambda>c. len d c + 1"] by simp
  then show "len d c \<le> n" using assms(1) by simp
  have "sum_list (map (len d) cs) \<le> row_len d cs" by (rule sum_list_mono) simp
  then show "sum_list (map (len d) cs) \<le> n + 1" using assms(1) by simp
qed

lemma check_less_len: "cell_ok lc \<Longrightarrow> is_direction d \<Longrightarrow> check d lc < len d lc"
proof (induction lc)
  case (Layout_Cell ty sx sy xoff yoff w cs)
  let ?lc = "Layout_Cell ty sx sy xoff yoff w cs"
  note ok = Layout_Cell.prems(1) [THEN cell_ok_iff [THEN iffD1], simplified]
  show ?case
  proof (cases "ty = LAYOUT_WINDOWPANE")
    case True
    then show ?thesis using ok by (auto simp: len_def Let_def PANE_MINIMUM_def)
  next
    case node: False
    then have cs: "2 \<le> length cs" "\<forall>c \<in> set cs. cell_ok c" "\<forall>c \<in> set cs. cross ty c = cross ty ?lc"
      "row_len ty cs = len ty ?lc + 1" using ok by auto
    have child: "check d c < len d c" if "c \<in> set cs" for c using Layout_Cell.IH that cs(2) Layout_Cell.prems(2) by simp
    show ?thesis
    proof (cases "ty = d")
      case True
      have "sum_list (map (\<lambda>c. check d c + 1 + 1) cs) \<le> row_len d cs"
        by (rule sum_list_mono) (use child in \<open>simp add: Suc_le_eq\<close>)
      moreover have "sum_list (map (\<lambda>c. check d c + 1 + 1) cs) = sum_list (map (check d) cs) + 2 * length cs"
        by (simp add: sum_list_Suc)
      ultimately have le: "sum_list (map (check d) cs) < len d ?lc" using cs(1,4) True by simp
      moreover have "len d ?lc \<le> CELL_MAX" using cell_ok_len [OF Layout_Cell.prems(1)] by blast
      ultimately show ?thesis using node True by (simp add: foldl_u_add)
    next
      case False
      obtain c where c: "c \<in> set cs" using cs(1) by (cases cs) auto
      have "foldl min UINT_MAX (map (check d) cs) \<le> check d c" using foldl_min_le c by auto
      also have "\<dots> < len d c" using child [OF c] .
      also have "\<dots> = len d ?lc" using cs(3) c cross_len [OF Layout_Cell.prems(2) node False] by simp
      finally show ?thesis using node False by simp
    qed
  qed
qed

lemma check_le_len: "cell_ok lc \<Longrightarrow> is_direction d \<Longrightarrow> check d lc \<le> len d lc"
  using check_less_len less_imp_le by blast

lemma check_node:
  assumes ok: "cell_ok lc" and d: "is_direction d" and node: "lc_type lc \<noteq> LAYOUT_WINDOWPANE"
  shows "lc_type lc = d \<Longrightarrow> check d lc = sum_list (map (check d) (lc_cells lc))"
    "lc_type lc \<noteq> d \<Longrightarrow> check d lc = Min (check d ` set (lc_cells lc))"
proof -
  obtain ty sx sy xoff yoff w cs where lc: "lc = Layout_Cell ty sx sy xoff yoff w cs" by (cases lc)
  note okd = ok [THEN cell_ok_iff [THEN iffD1]]
  have cs: "2 \<le> length cs" "\<forall>c \<in> set cs. cell_ok c" "row_len ty cs = len ty lc + 1" using okd node lc by auto
  have child: "check d c \<le> CELL_MAX" if "c \<in> set cs" for c
    using check_le_len [OF _ d] cell_ok_len cs(2) that order_trans by blast
  {
    assume t: "lc_type lc = d"
    have "sum_list (map (check d) cs) \<le> sum_list (map (len d) cs)"
      by (rule sum_list_mono) (use check_le_len [OF _ d] cs(2) in blast)
    moreover obtain c where "c \<in> set cs" using cs(1) by (cases cs) auto
    ultimately have "sum_list (map (check d) cs) \<le> CELL_MAX + 1"
      using row_len_bounds(2) [of d cs "len d lc" c] cs(3) t lc cell_ok_len [OF ok, of d] by simp
    then show "check d lc = sum_list (map (check d) (lc_cells lc))" using t d lc by (simp add: foldl_u_add)
  }
  {
    assume t: "lc_type lc \<noteq> d"
    have "foldl min UINT_MAX (map (check d) cs) = Min (set (map (check d) cs))"
      by (rule foldl_min_eq) (use cs(1) in \<open>auto simp: UINT_MAX_def intro: order_trans [OF child]\<close>)
    then show "check d lc = Min (check d ` set (lc_cells lc))" using t node lc by simp
  }
qed

section \<open>Adjusting a cell\<close>

text \<open>What changing the length of a cell in the direction \<open>d\<close> keeps.\<close>

definition alike :: "layout_type \<Rightarrow> layout_cell \<Rightarrow> layout_cell \<Rightarrow> bool" where
  "alike d lc lc' \<longleftrightarrow> cell_ok lc' \<and> cross d lc' = cross d lc \<and> lc_type lc' = lc_type lc \<and> lc_wp lc' = lc_wp lc \<and>
     lc_xoff lc' = lc_xoff lc \<and> lc_yoff lc' = lc_yoff lc \<and>
     cell_panes lc' = cell_panes lc \<and> cell_height lc' = cell_height lc"

definition adjusted :: "layout_type \<Rightarrow> int \<Rightarrow> layout_cell \<Rightarrow> layout_cell \<Rightarrow> bool" where
  "adjusted d change lc lc' \<longleftrightarrow> alike d lc lc' \<and> int (len d lc') = int (len d lc) + change \<and>
     (change \<le> 0 \<longrightarrow> int (check d lc') = int (check d lc) + change)"

text \<open>When a change is possible.\<close>

definition adjustable :: "layout_type \<Rightarrow> int \<Rightarrow> layout_cell \<Rightarrow> bool" where
  "adjustable d change lc \<longleftrightarrow> cell_ok lc \<and> int (len d lc) + change \<le> int CELL_MAX \<and> - change \<le> int (check d lc)"

lemma alike_refl: "cell_ok lc \<Longrightarrow> alike d lc lc"
  by (simp add: alike_def)

lemma alike_trans: "alike d a b \<Longrightarrow> alike d b c \<Longrightarrow> alike d a c"
  by (simp add: alike_def)

text \<open>The rows of children, changed one unit at a time: sums of lengths and of available space.\<close>

definition total :: "(layout_cell \<Rightarrow> nat) \<Rightarrow> layout_cell list \<Rightarrow> int" where
  "total f cs = (\<Sum>c\<leftarrow>cs. int (f c))"

lemma total_simps [simp]: "total f [] = 0" "total f (c # cs) = int (f c) + total f cs"
  by (simp_all add: total_def)

lemma total_nonneg: "0 \<le> total f cs"
  by (induction cs) auto

lemma total_member: "c \<in> set cs \<Longrightarrow> int (f c) \<le> total f cs"
  by (induction cs) (use total_nonneg in \<open>auto simp: add_increasing2 add_increasing\<close>)

lemma total_eq: "total f cs = int (sum_list (map f cs))"
  by (induction cs) auto

definition row_adjusted :: "layout_type \<Rightarrow> int \<Rightarrow> layout_cell list \<Rightarrow> layout_cell list \<Rightarrow> bool" where
  "row_adjusted d change cs cs' \<longleftrightarrow> list_all2 (alike d) cs cs' \<and> total (len d) cs' = total (len d) cs + change \<and>
     (change \<le> 0 \<longrightarrow> total (check d) cs' = total (check d) cs + change)"

lemma row_adjusted_trans:
  assumes "row_adjusted d a cs cs'" and "row_adjusted d b cs' cs''" and "0 \<le> a \<and> 0 \<le> b \<or> a \<le> 0 \<and> b \<le> 0"
  shows "row_adjusted d (a + b) cs cs''"
  using assms list_all2_trans [of "alike d" "alike d" "alike d" cs cs' cs'']
  by (auto simp: row_adjusted_def intro: alike_trans)

definition adjusts :: "layout_type \<Rightarrow> (layout_cell \<Rightarrow> int \<Rightarrow> layout_cell option) \<Rightarrow> layout_cell \<Rightarrow> bool" where
  "adjusts d f lc \<longleftrightarrow> (\<forall>k. adjustable d k lc \<longrightarrow> returns (f lc k) (adjusted d k lc))"

lemma row_adjusted_Cons:
  assumes "adjusted d a c c'" and "row_adjusted d b cs cs'" and "0 \<le> a \<and> 0 \<le> b \<or> a \<le> 0 \<and> b \<le> 0"
  shows "row_adjusted d (a + b) (c # cs) (c' # cs')"
  using assms by (auto simp: row_adjusted_def adjusted_def)

lemma row_adjusted_refl: "\<forall>c \<in> set cs. cell_ok c \<Longrightarrow> row_adjusted d 0 cs cs"
  by (simp add: row_adjusted_def list_all2_same alike_refl)

text \<open>One run over the children: it does something unless nothing can be done.\<close>

lemma adjust_pass_ok:
  assumes "\<forall>c \<in> set cs. cell_ok c \<and> adjusts d f c" and "change > 0 \<longrightarrow> total (len d) cs + change \<le> int CELL_MAX"
  shows "\<exists>cs' change'. adjust_pass f d cs change = Some (cs', change') \<and>
    row_adjusted d (change - change') cs cs' \<and>
    (change' = change \<longrightarrow> change = 0 \<or> change > 0 \<and> cs = [] \<or> change < 0 \<and> total (check d) cs = 0)"
  using assms
proof (induction cs arbitrary: change)
  case Nil
  then show ?case using row_adjusted_refl [of "[]"] by auto
next
  case (Cons c cs)
  have c: "cell_ok c" "adjusts d f c" and cs: "\<forall>c \<in> set cs. cell_ok c \<and> adjusts d f c" using Cons.prems(1) by auto
  have rest: "0 \<le> total (len d) cs" "0 \<le> total (check d) cs" by (rule total_nonneg)+
  consider "change = 0" | "change > 0" | "change < 0" "check d c > 0" | "change < 0" "check d c = 0" by linarith
  then show ?case
  proof cases
    case 1
    then show ?thesis using row_adjusted_refl [of "c # cs"] Cons.prems(1) by auto
  next
    case 2
    have "adjustable d 1 c" using c(1) 2 Cons.prems(2) rest by (simp add: adjustable_def)
    then obtain c' where c': "f c 1 = Some c'" "adjusted d 1 c c'" using c(2) unfolding adjusts_def returns_eq by blast
    have "change - 1 > 0 \<longrightarrow> total (len d) cs + (change - 1) \<le> int CELL_MAX" using Cons.prems(2) 2 by simp
    from Cons.IH [OF cs this] obtain cs' change' where p: "adjust_pass f d cs (change - 1) = Some (cs', change')"
      "row_adjusted d (change - 1 - change') cs cs'" by blast
    have "0 \<le> change' \<and> change' \<le> change - 1" using adjust_pass_change [OF p(1)] 2 by simp
    then show ?thesis using 2 c'(1) p(1) row_adjusted_Cons [OF c'(2) p(2)] by simp
  next
    case 3
    have "adjustable d (-1) c" using c(1) 3(2) cell_ok_len [OF c(1), of d] by (simp add: adjustable_def)
    then obtain c' where c': "f c (-1) = Some c'" "adjusted d (-1) c c'" using c(2) unfolding adjusts_def returns_eq by blast
    have "change + 1 > 0 \<longrightarrow> total (len d) cs + (change + 1) \<le> int CELL_MAX" using 3(1) by simp
    from Cons.IH [OF cs this] obtain cs' change' where p: "adjust_pass f d cs (change + 1) = Some (cs', change')"
      "row_adjusted d (change + 1 - change') cs cs'" by blast
    have "change + 1 \<le> change' \<and> change' \<le> 0" using adjust_pass_change [OF p(1)] 3 by simp
    then show ?thesis using 3 c'(1) p(1) row_adjusted_Cons [OF c'(2) p(2)] by simp
  next
    case 4
    from Cons.IH [OF cs, of change] 4 obtain cs' change' where p: "adjust_pass f d cs change = Some (cs', change')"
      "row_adjusted d (change - change') cs cs'"
      "change' = change \<longrightarrow> total (check d) cs = 0" by auto
    have "change \<le> change' \<and> change' \<le> 0" using adjust_pass_change [OF p(1)] 4 by simp
    moreover have "adjusted d 0 c c" using c(1) by (simp add: adjusted_def alike_refl)
    ultimately show ?thesis using 4 p row_adjusted_Cons [OF _ p(2), of 0 c c] by simp
  qed
qed

lemma adjust_loop_ok:
  assumes "\<And>c k. cell_ok c \<Longrightarrow> cell_height c \<le> n \<Longrightarrow> adjustable d k c \<Longrightarrow> returns (f c k) (adjusted d k c)"
    and "\<forall>c \<in> set cs. cell_ok c \<and> cell_height c \<le> n" and "cs \<noteq> []"
    and "change > 0 \<longrightarrow> total (len d) cs + change \<le> int CELL_MAX" and "- change \<le> total (check d) cs"
  shows "returns (adjust_loop f d cs change) (row_adjusted d change cs)"
  using assms(2-)
proof (induction "nat \<bar>change\<bar>" arbitrary: cs change rule: less_induct)
  case less
  have all: "\<forall>c \<in> set cs. cell_ok c \<and> adjusts d f c"
    using less.prems(1) assms(1) by (simp add: adjusts_def)
  show ?case
  proof (cases "change = 0")
    case True
    then show ?thesis using row_adjusted_refl [of cs] less.prems(1) by (simp add: adjust_loop.simps [of f d cs])
  next
    case False
    obtain cs' change' where p: "adjust_pass f d cs change = Some (cs', change')"
      "row_adjusted d (change - change') cs cs'"
      "change' = change \<longrightarrow> change = 0 \<or> change > 0 \<and> cs = [] \<or> change < 0 \<and> total (check d) cs = 0"
      using adjust_pass_ok [OF all less.prems(3)] by blast
    have moved: "change' \<noteq> change" using p(3) False less.prems(2,4) by auto
    have sign: "0 \<le> change \<longrightarrow> 0 \<le> change' \<and> change' \<le> change" "change \<le> 0 \<longrightarrow> change \<le> change' \<and> change' \<le> 0"
      using adjust_pass_change [OF p(1)] by simp_all
    have kinds: "list_all2 (alike d) cs cs'" using p(2) by (simp add: row_adjusted_def)
    have "\<forall>c \<in> set cs'. cell_ok c \<and> cell_height c \<le> n"
      using kinds less.prems(1) by (induction cs cs' rule: list_all2_induct) (auto simp: alike_def)
    moreover have "cs' \<noteq> []" using kinds less.prems(2) by auto
    moreover have "change' > 0 \<longrightarrow> total (len d) cs' + change' \<le> int CELL_MAX"
      using p(2) less.prems(3) sign by (auto simp: row_adjusted_def)
    moreover have "- change' \<le> total (check d) cs'"
    proof (cases "change < 0")
      case True
      then have "total (check d) cs' = total (check d) cs + (change - change')" using p(2) sign by (auto simp: row_adjusted_def)
      then show ?thesis using less.prems(4) by simp
    next
      case False
      then show ?thesis using sign total_nonneg [of "check d" cs'] by simp
    qed
    moreover have "nat \<bar>change'\<bar> < nat \<bar>change\<bar>" using sign moved by (cases "0 \<le> change") auto
    ultimately have "returns (adjust_loop f d cs' change') (row_adjusted d change' cs')" by (intro less.hyps)
    moreover have "adjust_loop f d cs change = adjust_loop f d cs' change'"
      by (simp add: adjust_loop.simps [of f d cs] p(1) False moved)
    moreover have "0 \<le> change - change' \<and> 0 \<le> change' \<or> change - change' \<le> 0 \<and> change' \<le> 0"
      using sign by (cases "0 \<le> change") auto
    ultimately show ?thesis using row_adjusted_trans [OF p(2), of change'] by (auto elim!: returns_mono)
  qed
qed

lemma map_opt_ok:
  "\<forall>c \<in> set cs. returns (f c) (P c) \<Longrightarrow> returns (map_opt f cs) (list_all2 P cs)"
  by (induction cs) (auto simp: returns_eq)

lemma list_all2_member: "list_all2 P xs ys \<Longrightarrow> y \<in> set ys \<Longrightarrow> \<exists>x \<in> set xs. P x y"
  by (induction rule: list_all2_induct) auto

lemma list_all2_heights: "list_all2 (alike d) cs cs' \<Longrightarrow> map cell_height cs' = map cell_height cs"
  by (induction rule: list_all2_induct) (auto simp: alike_def)

lemma list_all2_panes: "list_all2 (alike d) cs cs' \<Longrightarrow> map cell_panes cs' = map cell_panes cs"
  by (induction rule: list_all2_induct) (auto simp: alike_def)

text \<open>A cell with new children of the same kinds.\<close>

definition resized :: "layout_type \<Rightarrow> int \<Rightarrow> layout_cell \<Rightarrow> layout_cell list \<Rightarrow> layout_cell" where
  "resized d change lc cs = set_cells (change_size d change lc) cs"

lemma u_adjust_exact: "0 \<le> int n + k \<Longrightarrow> int n + k < int UINT_MOD \<Longrightarrow> int (u_adjust n k) = int n + k"
  by (simp add: u_adjust_def to_u_int_def)

lemma resized_simps [simp]:
  "lc_type (resized d k lc cs) = lc_type lc" "lc_wp (resized d k lc cs) = lc_wp lc"
  "lc_xoff (resized d k lc cs) = lc_xoff lc" "lc_yoff (resized d k lc cs) = lc_yoff lc"
  "lc_cells (resized d k lc cs) = cs" "cross d (resized d k lc cs) = cross d lc"
  "len d (resized d k lc cs) = u_adjust (len d lc) k"
  by (simp_all add: resized_def set_cells_def change_size_def layout_set_size_def cross_def len_def)

lemma adjustable_bounds:
  assumes "adjustable d k lc" and "is_direction d"
  shows "0 < int (len d lc) + k" "int (len d lc) + k \<le> int CELL_MAX"
    "int (u_adjust (len d lc) k) = int (len d lc) + k"
proof -
  have "check d lc < len d lc" using assms check_less_len by (simp add: adjustable_def)
  then show b: "0 < int (len d lc) + k" "int (len d lc) + k \<le> int CELL_MAX" using assms(1) by (simp_all add: adjustable_def)
  then show "int (u_adjust (len d lc) k) = int (len d lc) + k" by (intro u_adjust_exact) simp_all
qed

lemma cell_ok_intro:
  assumes "is_direction d" and "0 < len d lc" "len d lc \<le> CELL_MAX" "0 < cross d lc" "cross d lc \<le> CELL_MAX"
    and "if lc_type lc = LAYOUT_WINDOWPANE then lc_cells lc = []
      else lc_wp lc = None \<and> 2 \<le> length (lc_cells lc) \<and> (\<forall>c \<in> set (lc_cells lc). cell_ok c) \<and>
        (\<forall>c \<in> set (lc_cells lc). cross (lc_type lc) c = cross (lc_type lc) lc) \<and>
        row_len (lc_type lc) (lc_cells lc) = len (lc_type lc) lc + 1"
  shows "cell_ok lc"
  using assms by (subst cell_ok_iff) (cases d; simp add: len_def cross_def)

lemma alike_resized:
  assumes "cell_ok (resized d k lc cs')" and "list_all2 (alike d) (lc_cells lc) cs'"
  shows "alike d lc (resized d k lc cs')"
  using assms(1) list_all2_heights [OF assms(2)] list_all2_panes [OF assms(2)]
  by (simp add: alike_def cell_panes_eq [of lc] cell_panes_eq [of "resized d k lc cs'"]
      cell_height_eq [of lc] cell_height_eq [of "resized d k lc cs'"])

lemma row_len_total: "int (row_len d cs) = total (len d) cs + int (length cs)"
  by (induction cs) auto

lemma row_len_kinds:
  assumes "is_direction d" "ty \<noteq> LAYOUT_WINDOWPANE" "ty \<noteq> d"
  shows "list_all2 (alike d) cs cs' \<Longrightarrow> row_len ty cs' = row_len ty cs"
  by (induction rule: list_all2_induct) (use cross_len [OF assms] in \<open>auto simp: alike_def\<close>)

lemma checks_adjusted:
  assumes "k \<le> 0"
  shows "list_all2 (adjusted d k) cs cs' \<Longrightarrow>
    map (\<lambda>c. int (check d c)) cs' = map (\<lambda>c. int (check d c) + k) cs"
  by (induction rule: list_all2_induct) (use assms in \<open>auto simp: adjusted_def\<close>)

text \<open>The three cases: a pane, children across the direction, and children along it.\<close>

lemma adjust_pane:
  assumes adj: "adjustable d k lc" and d: "is_direction d" and ty: "lc_type lc = LAYOUT_WINDOWPANE"
  shows "adjusted d k lc (resized d k lc [])"
proof -
  note b = adjustable_bounds [OF adj d]
  have ok: "cell_ok lc" using adj by (simp add: adjustable_def)
  have cs: "lc_cells lc = []" using ok ty by (subst (asm) cell_ok_iff) simp
  have new: "cell_ok (resized d k lc [])"
    by (rule cell_ok_intro [OF d]) (use b cell_ok_len [OF ok, of d] ty in auto)
  have leaf: "check d c = (if len d c > PANE_MINIMUM then len d c - PANE_MINIMUM else 0)"
    if "lc_type c = LAYOUT_WINDOWPANE" for c using that by (cases c) (simp add: len_def Let_def)
  have "int (check d (resized d k lc [])) = int (check d lc) + k" if "k \<le> 0"
    using that adj b(1,3) ty by (auto simp: leaf adjustable_def PANE_MINIMUM_def split: if_splits)
  then show ?thesis using b(3) alike_resized [OF new] cs by (simp add: adjusted_def)
qed

lemma adjust_across:
  assumes adj: "adjustable d k lc" and d: "is_direction d"
    and ty: "lc_type lc \<noteq> LAYOUT_WINDOWPANE" "lc_type lc \<noteq> d"
    and cs': "list_all2 (adjusted d k) (lc_cells lc) cs'"
  shows "adjusted d k lc (resized d k lc cs')"
proof -
  note b = adjustable_bounds [OF adj d]
  have ok: "cell_ok lc" using adj by (simp add: adjustable_def)
  note okd = ok [THEN cell_ok_iff [THEN iffD1]]
  have lc: "2 \<le> length (lc_cells lc)" "lc_wp lc = None" "row_len (lc_type lc) (lc_cells lc) = len (lc_type lc) lc + 1"
    "\<forall>c \<in> set (lc_cells lc). cross (lc_type lc) c = cross (lc_type lc) lc" using okd ty by auto
  have kinds: "list_all2 (alike d) (lc_cells lc) cs'"
    using cs' by (rule list_all2_mono) (simp add: adjusted_def)
  note swap = cross_len [OF d ty]
  have lens: "\<forall>c' \<in> set cs'. cell_ok c' \<and> cross (lc_type lc) c' = u_adjust (len d lc) k"
  proof
    fix c' assume "c' \<in> set cs'"
    then obtain c where c: "c \<in> set (lc_cells lc)" "adjusted d k c c'" using list_all2_member [OF cs'] by blast
    then have "int (len d c') = int (len d lc) + k" using lc(4) swap by (simp add: adjusted_def)
    then have "int (len d c') = int (u_adjust (len d lc) k)" using b(3) by simp
    then show "cell_ok c' \<and> cross (lc_type lc) c' = u_adjust (len d lc) k"
      using c(2) swap by (simp add: adjusted_def alike_def)
  qed
  have rows: "row_len (lc_type lc) cs' = row_len (lc_type lc) (lc_cells lc)"
    by (rule row_len_kinds [OF d ty kinds])
  have other: "len (lc_type lc) (resized d k lc cs') = len (lc_type lc) lc"
    using swap [of "resized d k lc cs'"] swap [of lc] by (metis resized_simps(6))
  have new: "cell_ok (resized d k lc cs')"
    by (rule cell_ok_intro [OF d])
       (use b cell_ok_len [OF ok, of d] ty lc lens rows swap other list_all2_lengthD [OF cs'] in auto)
  have "int (check d (resized d k lc cs')) = int (check d lc) + k" if k: "k \<le> 0"
  proof -
    have "int ` check d ` set cs' = (\<lambda>n. int n + k) ` check d ` set (lc_cells lc)"
    proof -
      have "map (\<lambda>c. int (check d c)) cs' = map (\<lambda>c. int (check d c) + k) (lc_cells lc)"
        by (rule checks_adjusted [OF k cs'])
      then have "set (map (\<lambda>c. int (check d c)) cs') = set (map (\<lambda>c. int (check d c) + k) (lc_cells lc))" by simp
      then show ?thesis by (simp add: image_image)
    qed
    moreover have ne: "lc_cells lc \<noteq> []" "cs' \<noteq> []" using lc(1) list_all2_lengthD [OF cs'] by auto
    moreover have "int (Min A) = Min (int ` A)" "Min ((\<lambda>n. int n + k) ` A) = int (Min A) + k"
      if "finite A" "A \<noteq> {}" for A :: "nat set"
      using that mono_Min_commute [of int A] mono_Min_commute [of "\<lambda>n. int n + k" A] by (auto simp: mono_def)
    ultimately show ?thesis
      using check_node(2) [OF ok d ty] check_node(2) [OF new d] ty by simp
  qed
  then show ?thesis using b(3) alike_resized [OF new kinds] by (simp add: adjusted_def)
qed

lemma adjust_along:
  assumes adj: "adjustable d k lc" and d: "is_direction d" and ty: "lc_type lc = d"
    and cs': "row_adjusted d k (lc_cells lc) cs'"
  shows "adjusted d k lc (resized d k lc cs')"
proof -
  note b = adjustable_bounds [OF adj d]
  have ok: "cell_ok lc" using adj by (simp add: adjustable_def)
  note okd = ok [THEN cell_ok_iff [THEN iffD1]]
  have lc: "2 \<le> length (lc_cells lc)" "lc_wp lc = None" "row_len d (lc_cells lc) = len d lc + 1"
    "\<forall>c \<in> set (lc_cells lc). cross d c = cross d lc" using okd ty d by auto
  have kinds: "list_all2 (alike d) (lc_cells lc) cs'" using cs' by (simp add: row_adjusted_def)
  have crosses: "\<forall>c' \<in> set cs'. cell_ok c' \<and> cross d c' = cross d lc"
    using list_all2_member [OF kinds] lc(4) by (fastforce simp: alike_def)
  have "int (row_len d cs') = int (u_adjust (len d lc) k + 1)"
    using cs' b(3) lc(3) list_all2_lengthD [OF kinds] row_len_total [of d cs'] row_len_total [of d "lc_cells lc"]
    by (simp add: row_adjusted_def)
  then have rows: "row_len d cs' = u_adjust (len d lc) k + 1" by linarith
  have new: "cell_ok (resized d k lc cs')"
    by (rule cell_ok_intro [OF d])
       (use b cell_ok_len [OF ok, of d] ty d lc crosses rows list_all2_lengthD [OF kinds] in auto)
  have "int (check d (resized d k lc cs')) = int (check d lc) + k" if "k \<le> 0"
    using that cs' check_node(1) [OF ok d] check_node(1) [OF new d] ty d
    by (simp add: row_adjusted_def total_eq)
  then show ?thesis using b(3) alike_resized [OF new kinds] by (simp add: adjusted_def)
qed

text \<open>The function itself.\<close>

lemma layout_adjust_ok:
  assumes d: "is_direction d"
  shows "cell_height lc \<le> n \<Longrightarrow> adjustable d k lc \<Longrightarrow> returns (layout_adjust n d lc k) (adjusted d k lc)"
proof (induction n arbitrary: lc k)
  case 0
  then show ?case by (simp add: cell_height_eq)
next
  case (Suc n)
  note adj = Suc.prems(2)
  have ok: "cell_ok lc" using adj by (simp add: adjustable_def)
  note okd = ok [THEN cell_ok_iff [THEN iffD1]]
  have heights: "cell_height c \<le> n" if "c \<in> set (lc_cells lc)" for c
    using cell_height_child [OF that] Suc.prems(1) by simp
  have kept: "lc_type (change_size d k lc) = lc_type lc" "lc_cells (change_size d k lc) = lc_cells lc"
    by (simp_all add: change_size_def layout_set_size_def)
  consider "lc_type lc = LAYOUT_WINDOWPANE" | "lc_type lc \<noteq> LAYOUT_WINDOWPANE" "lc_type lc \<noteq> d" | "lc_type lc = d"
    by blast
  then show ?case
  proof cases
    case 1
    then have "lc_cells lc = []" using okd by simp
    then show ?thesis using adjust_pane [OF adj d 1] 1 d kept by (simp add: Let_def resized_def)
  next
    case 2
    have lc: "2 \<le> length (lc_cells lc)" "\<forall>c \<in> set (lc_cells lc). cell_ok c"
      "\<forall>c \<in> set (lc_cells lc). cross (lc_type lc) c = cross (lc_type lc) lc" using okd 2 by auto
    have "adjustable d k c" if c: "c \<in> set (lc_cells lc)" for c
    proof -
      have "len d c = len d lc" using lc(3) c cross_len [OF d 2] by simp
      moreover have "check d lc \<le> check d c" using check_node(2) [OF ok d 2] c by simp
      ultimately show ?thesis using adj lc(2) c by (simp add: adjustable_def)
    qed
    then have "\<forall>c \<in> set (lc_cells lc). returns (layout_adjust n d c k) (adjusted d k c)"
      using Suc.IH heights by blast
    from map_opt_ok [OF this] obtain cs' where cs': "map_opt (\<lambda>c. layout_adjust n d c k) (lc_cells lc) = Some cs'"
      "list_all2 (adjusted d k) (lc_cells lc) cs'" unfolding returns_eq by auto
    then show ?thesis using adjust_across [OF adj d 2 cs'(2)] 2 d kept by (simp add: Let_def resized_def)
  next
    case 3
    then have lc: "2 \<le> length (lc_cells lc)" "\<forall>c \<in> set (lc_cells lc). cell_ok c \<and> cell_height c \<le> n"
      "row_len d (lc_cells lc) = len d lc + 1" using okd d heights by auto
    have "returns (adjust_loop (layout_adjust n d) d (lc_cells lc) k) (row_adjusted d k (lc_cells lc))"
    proof (rule adjust_loop_ok [OF _ lc(2)])
      show "k > 0 \<longrightarrow> total (len d) (lc_cells lc) + k \<le> int CELL_MAX"
        using adj lc(1,3) row_len_total [of d "lc_cells lc"] by (simp add: adjustable_def)
      show "- k \<le> total (check d) (lc_cells lc)"
        using adj check_node(1) [OF ok d] 3 d by (simp add: adjustable_def total_eq)
    qed (use Suc.IH lc(1) in auto)
    then obtain cs' where "adjust_loop (layout_adjust n d) d (lc_cells lc) k = Some cs'"
      "row_adjusted d k (lc_cells lc) cs'" unfolding returns_eq by blast
    then show ?thesis using adjust_along [OF adj d 3] 3 d kept by (simp add: Let_def resized_def)
  qed
qed

lemma layout_resize_adjust_ok:
  "is_direction d \<Longrightarrow> adjustable d k lc \<Longrightarrow> returns (layout_resize_adjust lc d k) (adjusted d k lc)"
  unfolding layout_resize_adjust_def by (rule layout_adjust_ok) simp_all

end
