(* ===== verification/Layout_Ops.thy ===== *)
theory Layout_Ops
  imports Layout_Facts
begin

text \<open>The operations on a layout tree keep it well formed and change its panes as they should.\<close>

section \<open>Paths\<close>

text \<open>A replacement of the cell at a path by one of the same size.\<close>

abbreviation same_size :: "layout_cell \<Rightarrow> layout_cell \<Rightarrow> bool" where
  "same_size a b \<equiv> lc_sx a = lc_sx b \<and> lc_sy a = lc_sy b"

lemma same_size_len: "same_size a b \<Longrightarrow> len d a = len d b \<and> cross d a = cross d b"
  by (simp add: len_def cross_def)

lemma set_cells_simps [simp]:
  "lc_type (set_cells lc cs) = lc_type lc" "lc_sx (set_cells lc cs) = lc_sx lc" "lc_sy (set_cells lc cs) = lc_sy lc"
  "lc_xoff (set_cells lc cs) = lc_xoff lc" "lc_yoff (set_cells lc cs) = lc_yoff lc"
  "lc_wp (set_cells lc cs) = lc_wp lc" "lc_cells (set_cells lc cs) = cs"
  "len d (set_cells lc cs) = len d lc" "cross d (set_cells lc cs) = cross d lc"
  by (simp_all add: set_cells_def len_def cross_def)

lemma cell_ok_child:
  assumes "cell_ok lc" and "i < length (lc_cells lc)"
  shows "cell_ok (lc_cells lc ! i)" "lc_type lc \<noteq> LAYOUT_WINDOWPANE"
  using assms(1) [THEN cell_ok_iff [THEN iffD1]] assms(2) by (auto split: if_splits)

lemma row_len_update:
  assumes "i < length cs" and "len d c = len d (cs ! i)"
  shows "row_len d (cs[i := c]) = row_len d cs"
proof -
  have "map (\<lambda>c. len d c + 1) (cs[i := c]) = map (\<lambda>c. len d c + 1) cs"
    using assms by (intro nth_equalityI) (auto simp: nth_list_update)
  then show ?thesis by simp
qed

lemma cell_ok_set_cells:
  assumes "cell_ok lc" and "lc_type lc \<noteq> LAYOUT_WINDOWPANE" and "2 \<le> length cs"
    and "\<forall>c \<in> set cs. cell_ok c \<and> cross (lc_type lc) c = cross (lc_type lc) lc"
    and "row_len (lc_type lc) cs = row_len (lc_type lc) (lc_cells lc)"
  shows "cell_ok (set_cells lc cs)"
  using assms(1) [THEN cell_ok_iff [THEN iffD1]] assms(2-) by (subst cell_ok_iff) auto

lemma cell_node:
  assumes "cell_ok lc" and "lc_type lc \<noteq> LAYOUT_WINDOWPANE"
  shows "2 \<le> length (lc_cells lc)" "c \<in> set (lc_cells lc) \<Longrightarrow> cell_ok c"
    "c \<in> set (lc_cells lc) \<Longrightarrow> cross (lc_type lc) c = cross (lc_type lc) lc"
    "row_len (lc_type lc) (lc_cells lc) = len (lc_type lc) lc + 1" "lc_wp lc = None"
  using assms(1) [THEN cell_ok_iff [THEN iffD1]] assms(2) by auto

lemma cell_put_ok:
  "cell_ok root \<Longrightarrow> cell_at p root = Some c \<Longrightarrow> cell_ok new \<Longrightarrow> same_size new c \<Longrightarrow>
   cell_ok (cell_put p new root) \<and> same_size (cell_put p new root) root"
proof (induction p arbitrary: root)
  case (Cons i p)
  have i: "i < length (lc_cells root)" "cell_at p (lc_cells root ! i) = Some c"
    using Cons.prems(2) by (auto split: if_splits)
  note child = cell_ok_child [OF Cons.prems(1) i(1)]
  note node = cell_node [OF Cons.prems(1) child(2)]
  let ?c = "cell_put p new (lc_cells root ! i)"
  have new: "cell_ok ?c" "same_size ?c (lc_cells root ! i)"
    using Cons.IH [OF child(1) i(2) Cons.prems(3,4)] by auto
  have "cell_ok (set_cells root ((lc_cells root)[i := ?c]))"
  proof (rule cell_ok_set_cells [OF Cons.prems(1) child(2)])
    show "\<forall>c \<in> set ((lc_cells root)[i := ?c]). cell_ok c \<and> cross (lc_type root) c = cross (lc_type root) root"
      using node(2,3) new i(1) same_size_len [OF new(2), of "lc_type root"]
      by (auto dest!: set_update_subset_insert [THEN subsetD])
    show "row_len (lc_type root) ((lc_cells root)[i := ?c]) = row_len (lc_type root) (lc_cells root)"
      by (rule row_len_update) (use i(1) same_size_len [OF new(2)] in auto)
  qed (use node(1) in simp)
  then show ?case using i(1) by simp
qed simp

text \<open>The panes before and after the cell at a path.\<close>

lemma cell_put_panes:
  "cell_ok root \<Longrightarrow> cell_at p root = Some c \<Longrightarrow>
   \<exists>pre post. cell_panes root = pre @ cell_panes c @ post \<and>
     (\<forall>new. cell_panes (cell_put p new root) = pre @ cell_panes new @ post)"
proof (induction p arbitrary: root)
  case Nil
  then show ?case by (intro exI [of _ "[]"]) simp
next
  case (Cons i p)
  have i: "i < length (lc_cells root)" "cell_at p (lc_cells root ! i) = Some c"
    using Cons.prems(2) by (auto split: if_splits)
  note child = cell_ok_child [OF Cons.prems(1) i(1)]
  obtain pre post where ih: "cell_panes (lc_cells root ! i) = pre @ cell_panes c @ post"
    "\<forall>new. cell_panes (cell_put p new (lc_cells root ! i)) = pre @ cell_panes new @ post"
    using Cons.IH [OF child(1) i(2)] by blast
  let ?before = "concat (map cell_panes (take i (lc_cells root)))"
  let ?after = "concat (map cell_panes (drop (Suc i) (lc_cells root)))"
  have split: "concat (map cell_panes ((lc_cells root)[i := x])) = ?before @ cell_panes x @ ?after" for x
    using i(1) by (simp add: upd_conv_take_nth_drop)
  have "cell_panes root = ?before @ cell_panes (lc_cells root ! i) @ ?after"
    using split [of "lc_cells root ! i"] child(2) by (simp add: cell_panes_eq [of root])
  moreover have "cell_panes (cell_put (i # p) new root) = ?before @ cell_panes (cell_put p new (lc_cells root ! i)) @ ?after" for new
    using split i(1) child(2) by (simp add: cell_panes_eq [of "set_cells _ _"])
  ultimately show ?case using ih by (intro exI [of _ "?before @ pre"] exI [of _ "post @ ?after"]) simp
qed

lemma cell_at_append: "cell_at (p @ q) root = cell_at p root \<bind> cell_at q"
  by (induction p arbitrary: root) auto

lemma cell_at_ok: "cell_ok root \<Longrightarrow> cell_at p root = Some c \<Longrightarrow> cell_ok c"
proof (induction p arbitrary: root)
  case (Cons i p)
  then show ?case using cell_ok_child by (fastforce split: if_splits)
qed simp

lemma cell_at_snoc:
  "cell_at (p @ [i]) root = Some c \<longleftrightarrow> (\<exists>parent. cell_at p root = Some parent \<and> i < length (lc_cells parent) \<and> lc_cells parent ! i = c)"
  by (auto simp: cell_at_append bind_Some_iff split: if_splits)

lemma pane_path_sound:
  "pane_path wp lc = Some p \<Longrightarrow> \<exists>c. cell_at p lc = Some c \<and> lc_type c = LAYOUT_WINDOWPANE \<and> lc_wp c = Some wp"
  "pane_paths wp i cs = Some q \<Longrightarrow> \<exists>j p c. q = (i + j) # p \<and> j < length cs \<and> cell_at p (cs ! j) = Some c \<and>
     lc_type c = LAYOUT_WINDOWPANE \<and> lc_wp c = Some wp"
proof (induction wp lc and wp i cs arbitrary: p and q rule: pane_path_pane_paths.induct)
  case (1 wp type sx sy xoff yoff w cs)
  show ?case
  proof (cases "type = LAYOUT_WINDOWPANE \<and> w = Some wp")
    case False
    then have "pane_paths wp 0 cs = Some p" using 1(2) by (simp only: pane_path.simps if_not_P [OF False] if_False)
    from 1(1) [OF False this] obtain j r c where "p = (0 + j) # r" "j < length cs" "cell_at r (cs ! j) = Some c"
      "lc_type c = LAYOUT_WINDOWPANE" "lc_wp c = Some wp" by blast
    then show ?thesis by auto
  qed (use 1 in auto)
next
  case (3 wp i c cs)
  show ?case
  proof (cases "pane_path wp c")
    case None
    then have "pane_paths wp (Suc i) cs = Some q" using 3(3) by simp
    from 3(2) [OF None this] obtain j p c' where "q = (Suc i + j) # p" "j < length cs" "cell_at p (cs ! j) = Some c'"
      "lc_type c' = LAYOUT_WINDOWPANE" "lc_wp c' = Some wp" by blast
    then show ?thesis by (intro exI [of _ "Suc j"]) auto
  next
    case (Some p)
    then show ?thesis using 3(1) [of p] 3(3) by (intro exI [of _ 0]) fastforce
  qed
qed simp

lemma pane_path_complete:
  "cell_ok lc \<Longrightarrow> Some wp \<in> set (cell_panes lc) \<Longrightarrow> \<exists>p. pane_path wp lc = Some p"
  "(\<forall>c \<in> set cs. cell_ok c) \<Longrightarrow> Some wp \<in> set (concat (map cell_panes cs)) \<Longrightarrow> \<exists>p. pane_paths wp i cs = Some p"
proof (induction wp lc and wp i cs rule: pane_path_pane_paths.induct)
  case (1 wp type sx sy xoff yoff w cs)
  then show ?case by (auto split: if_splits)
next
  case (3 wp i c cs)
  then show ?case by (cases "pane_path wp c") auto
qed auto

section \<open>Resizing the whole layout\<close>

text \<open>The new length of a root cell of the window's old length.\<close>

definition resized_len :: "layout_type \<Rightarrow> u_int \<Rightarrow> layout_cell \<Rightarrow> u_int" where
  "resized_len d new lc = max new (len d lc - check d lc)"

lemma resize_direction_ok:
  assumes ok: "cell_ok lc" and d: "is_direction d" and new: "new \<le> CELL_MAX" and old: "len d lc = old"
  shows "returns (resize_direction d new old lc) (\<lambda>lc'. cell_ok lc' \<and> len d lc' = resized_len d new lc \<and>
    cross d lc' = cross d lc \<and> cell_panes lc' = cell_panes lc \<and> lc_xoff lc' = lc_xoff lc \<and> lc_yoff lc' = lc_yoff lc)"
proof -
  have size: "(if d = LAYOUT_LEFTRIGHT then lc_sx lc else lc_sy lc) = old" using old by (simp add: len_def)
  have bounds: "old \<le> CELL_MAX" "check d lc < old" using cell_ok_len [OF ok, of d] check_less_len [OF ok d] old by auto
  have diff: "to_int (u_sub new old) = int new - int old"
  proof (cases "old \<le> new")
    case True
    then show ?thesis using new by (simp add: to_int_def)
  next
    case False
    then show ?thesis using bounds by (simp add: to_int_def u_sub_wrap)
  qed
  have limit: "to_int (check d lc) = int (check d lc)" using bounds by (simp add: to_int_def)
  have change: "resize_change lc d new old old = max (int new - int old) (- int (check d lc))"
    using bounds diff by (auto simp: resize_change_def Let_def limit)
  let ?k = "max (int new - int old) (- int (check d lc))"
  have adj: "adjustable d ?k lc" using ok new bounds old by (auto simp: adjustable_def)
  have k: "int (resized_len d new lc) = int (len d lc) + ?k"
    using bounds old by (auto simp: resized_len_def)
  show ?thesis
  proof (cases "?k = 0")
    case True
    then have "resized_len d new lc = len d lc" using k by linarith
    then show ?thesis using ok True by (simp add: resize_direction_def size change)
  next
    case False
    have "returns (layout_resize_adjust lc d ?k) (\<lambda>lc'. cell_ok lc' \<and> len d lc' = resized_len d new lc \<and>
        cross d lc' = cross d lc \<and> cell_panes lc' = cell_panes lc \<and> lc_xoff lc' = lc_xoff lc \<and> lc_yoff lc' = lc_yoff lc)"
      by (rule returns_mono [OF layout_resize_adjust_ok [OF d adj]]) (use k in \<open>auto simp: adjusted_def alike_def\<close>)
    then show ?thesis using False by (simp add: resize_direction_def size change)
  qed
qed

section \<open>Moving space between the children of a cell\<close>

text \<open>The children of a cell after some space was moved: the row has its length.\<close>

definition row_kept :: "layout_type \<Rightarrow> layout_cell list \<Rightarrow> layout_cell list \<Rightarrow> bool" where
  "row_kept d cs cs' \<longleftrightarrow> list_all2 (alike d) cs cs' \<and> row_len d cs' = row_len d cs"

lemma row_kept_refl: "\<forall>c \<in> set cs. cell_ok c \<Longrightarrow> row_kept d cs cs"
  by (simp add: row_kept_def list_all2_same alike_refl)

lemma row_kept_trans: "row_kept d a b \<Longrightarrow> row_kept d b c \<Longrightarrow> row_kept d a c"
  using list_all2_trans [of "alike d" "alike d" "alike d" a b c]
  by (auto simp: row_kept_def intro: alike_trans)

lemma list_all2_update:
  "list_all2 P xs xs \<Longrightarrow> i < length xs \<Longrightarrow> P (xs ! i) y \<Longrightarrow> list_all2 P xs (xs[i := y])"
  by (simp add: list_all2_conv_all_nth nth_list_update)

lemma total_update: "i < length cs \<Longrightarrow> total f (cs[i := c]) = total f cs - int (f (cs ! i)) + int (f c)"
  by (induction cs arbitrary: i) (auto split: nat.splits)

lemma row_len_eq: "length cs' = length cs \<Longrightarrow> total (len d) cs' = total (len d) cs \<Longrightarrow> row_len d cs' = row_len d cs"
  using row_len_total [of d cs] row_len_total [of d cs'] by simp

lemma total_two:
  assumes "i < length cs" "k < length cs" "i \<noteq> k"
  shows "int (f (cs ! i)) + int (f (cs ! k)) \<le> total f cs"
proof -
  have "int (f (cs ! k)) \<le> total f (cs[i := cs ! k])"
    using total_member [of "cs ! k" "cs[i := cs ! k]" f] assms by (simp add: set_update_memI)
  moreover have "int (f (cs ! k)) + int (f (cs ! k)) \<le> total f (cs[i := cs ! k])"
  proof -
    have "cs[i := cs ! k] = take i (cs[i := cs ! k]) @ cs ! k # drop (Suc i) (cs[i := cs ! k])"
      using assms by (simp add: upd_conv_take_nth_drop)
    moreover have "cs ! k \<in> set (take i cs @ drop (Suc i) cs)"
    proof (cases "k < i")
      case True
      then show ?thesis using assms by (auto simp: in_set_conv_nth intro!: exI [of _ k])
    next
      case False
      then have "cs ! k = drop (Suc i) cs ! (k - Suc i)" "k - Suc i < length (drop (Suc i) cs)" using assms by auto
      then have "cs ! k \<in> set (drop (Suc i) cs)" by (metis nth_mem)
      then show ?thesis by simp
    qed
    then have "int (f (cs ! k)) \<le> total f (take i cs @ drop (Suc i) cs)" by (rule total_member)
    moreover have "total f (take i cs @ cs ! k # drop (Suc i) cs) = int (f (cs ! k)) + total f (take i cs @ drop (Suc i) cs)"
      by (simp add: total_def)
    ultimately show ?thesis using assms by (simp add: upd_conv_take_nth_drop)
  qed
  ultimately show ?thesis using total_update [OF assms(1), of f "cs ! k"] by simp
qed

lemma move_space_ok:
  assumes cs: "\<forall>c \<in> set cs. cell_ok c" and d: "is_direction d" and ik: "i < length cs" "k < length cs" "i \<noteq> k"
    and space: "csize \<le> check d (cs ! k)" and total: "total (len d) cs \<le> int CELL_MAX"
  shows "returns (move_space d i k csize cs) (row_kept d cs)"
proof -
  have oks: "cell_ok (cs ! i)" "cell_ok (cs ! k)" using cs ik by auto
  have "check d (cs ! k) < len d (cs ! k)" using check_less_len [OF oks(2) d] .
  then have "adjustable d (int csize) (cs ! i)"
    using oks total_two [OF ik, of "len d"] total space by (simp add: adjustable_def)
  then obtain a where a: "layout_resize_adjust (cs ! i) d (int csize) = Some a" "adjusted d (int csize) (cs ! i) a"
    using layout_resize_adjust_ok [OF d] unfolding returns_eq by blast
  have "adjustable d (- int csize) (cs ! k)"
    using oks space cell_ok_len [OF oks(2), of d] by (simp add: adjustable_def)
  then obtain b where b: "layout_resize_adjust (cs ! k) d (- int csize) = Some b" "adjusted d (- int csize) (cs ! k) b"
    using layout_resize_adjust_ok [OF d] unfolding returns_eq by blast
  have "move_space d i k csize cs = Some (cs[i := a, k := b])"
    using a(1) b(1) ik by (simp add: move_space_def)
  moreover have "row_kept d cs (cs[i := a, k := b])" unfolding row_kept_def
  proof
    show "list_all2 (alike d) cs (cs[i := a, k := b])"
      using cs ik a(2) b(2) by (auto simp: list_all2_conv_all_nth nth_list_update adjusted_def alike_refl)
    show "row_len d (cs[i := a, k := b]) = row_len d cs"
      by (rule row_len_eq) (use ik a(2) b(2) in \<open>simp_all add: total_update adjusted_def\<close>)
  qed
  ultimately show ?thesis by simp
qed

lemma row_kept_total: "row_kept d cs cs' \<Longrightarrow> total (len d) cs' = total (len d) cs"
  using row_len_total [of d cs] row_len_total [of d cs'] list_all2_lengthD by (fastforce simp: row_kept_def)

lemma row_kept_cells: "row_kept d cs cs' \<Longrightarrow> \<forall>c \<in> set cs'. cell_ok c"
  using list_all2_member by (fastforce simp: row_kept_def alike_def)

lemma find_space_sound: "find_space d cs ks = Some k \<Longrightarrow> k \<in> set ks \<and> 0 < check d (cs ! k)"
  by (auto simp: find_space_def find_Some_iff)

lemma to_u_int_small: "0 \<le> i \<Longrightarrow> i < int UINT_MOD \<Longrightarrow> int (to_u_int i) = i"
  by (simp add: to_u_int_def)

text \<open>Growing and shrinking: the size that is returned is positive unless nothing was possible.\<close>

lemma grow_ok:
  assumes cs: "\<forall>c \<in> set cs. cell_ok c" and d: "is_direction d" and i: "Suc i < length cs"
    and total: "total (len d) cs \<le> int CELL_MAX" and needed: "0 < needed" "needed < int UINT_MOD"
  shows "returns (layout_resize_pane_grow d i needed cs) (\<lambda>(cs', csize). row_kept d cs cs' \<and> int csize \<le> needed)"
proof (cases "find_space d cs ([Suc i..<length cs] @ rev [0..<i])")
  case None
  then show ?thesis using needed row_kept_refl [OF cs] by (simp add: layout_resize_pane_grow_def)
next
  case (Some k)
  have k: "k < length cs" "i \<noteq> k" using find_space_sound [OF Some] i by auto
  let ?s = "if check d (cs ! k) > to_u_int needed then to_u_int needed else check d (cs ! k)"
  have s: "?s \<le> check d (cs ! k)" "int ?s \<le> needed" using to_u_int_small [of needed] needed by auto
  have "i < length cs" using i by simp
  from move_space_ok [OF cs d this k s(1) total] obtain cs' where "move_space d i k ?s cs = Some cs'" "row_kept d cs cs'"
    unfolding returns_eq by blast
  then show ?thesis using s(2) Some by (simp add: layout_resize_pane_grow_def Let_def)
qed

lemma shrink_ok:
  assumes cs: "\<forall>c \<in> set cs. cell_ok c" and d: "is_direction d" and i: "Suc i < length cs"
    and total: "total (len d) cs \<le> int CELL_MAX" and needed: "needed < 0" "- needed < int UINT_MOD"
  shows "returns (layout_resize_pane_shrink d i needed cs) (\<lambda>(cs', csize). row_kept d cs cs' \<and> int csize \<le> - needed)"
proof (cases "find_space d cs (rev [0..<Suc i])")
  case None
  then show ?thesis using needed row_kept_refl [OF cs] by (simp add: layout_resize_pane_shrink_def)
next
  case (Some k)
  have k: "k < length cs" "Suc i \<noteq> k" using find_space_sound [OF Some] i by auto
  let ?s = "if check d (cs ! k) > to_u_int (- needed) then to_u_int (- needed) else check d (cs ! k)"
  have s: "?s \<le> check d (cs ! k)" "int ?s \<le> - needed" using to_u_int_small [of "- needed"] needed by auto
  from move_space_ok [OF cs d i k s(1) total] obtain cs' where "move_space d (Suc i) k ?s cs = Some cs'" "row_kept d cs cs'"
    unfolding returns_eq by blast
  then show ?thesis using s(2) Some i by (simp add: layout_resize_pane_shrink_def Let_def)
qed

text \<open>The rounds that \<open>change\<close> gives are always enough.\<close>

lemma resize_pane_loop_ok:
  assumes d: "is_direction d" and "change > 0 \<longrightarrow> 0 \<le> needed" "change \<le> 0 \<longrightarrow> needed \<le> 0" "\<bar>needed\<bar> < int UINT_MOD"
    and "nat \<bar>needed\<bar> \<le> n" and "\<forall>c \<in> set cs. cell_ok c" and "Suc i < length cs"
    and "total (len d) cs \<le> int CELL_MAX"
  shows "returns (resize_pane_loop n d i change needed cs) (row_kept d cs)"
  using assms(2-)
proof (induction n arbitrary: needed cs)
  case 0
  then show ?case by (subst resize_pane_loop.simps) (simp add: row_kept_refl)
next
  case (Suc n)
  show ?case
  proof (cases "needed = 0")
    case True
    then show ?thesis using Suc.prems(5) by (subst resize_pane_loop.simps) (simp add: row_kept_refl)
  next
    case False
    let ?m = "if change > 0 then layout_resize_pane_grow d i needed cs else layout_resize_pane_shrink d i needed cs"
    obtain cs1 csize where m: "?m = Some (cs1, csize)" "row_kept d cs cs1" "int csize \<le> \<bar>needed\<bar>"
    proof (cases "change > 0")
      case True
      then have "returns ?m (\<lambda>(cs', csize). row_kept d cs cs' \<and> int csize \<le> \<bar>needed\<bar>)"
        using grow_ok [OF Suc.prems(5) d Suc.prems(6,7), of needed] False Suc.prems(1,3) by simp
      then show ?thesis using that unfolding returns_eq by auto
    next
      case neg: False
      then have "returns ?m (\<lambda>(cs', csize). row_kept d cs cs' \<and> int csize \<le> \<bar>needed\<bar>)"
        using shrink_ok [OF Suc.prems(5) d Suc.prems(6,7), of needed] False Suc.prems(2,3) by simp
      then show ?thesis using that unfolding returns_eq by auto
    qed
    show ?thesis
    proof (cases "csize = 0")
      case True
      then show ?thesis using m False by (subst resize_pane_loop.simps) simp
    next
      case pos: False
      let ?needed = "if change > 0 then needed - int csize else needed + int csize"
      have n: "change > 0 \<longrightarrow> 0 \<le> ?needed" "change \<le> 0 \<longrightarrow> ?needed \<le> 0" "\<bar>?needed\<bar> < int UINT_MOD" "nat \<bar>?needed\<bar> \<le> n"
        using Suc.prems(1-4) m(3) pos by auto
      have "returns (resize_pane_loop n d i change ?needed cs1) (row_kept d cs1)"
        by (rule Suc.IH [OF n row_kept_cells [OF m(2)]])
           (use m(2) Suc.prems(6,7) row_kept_total [OF m(2)] in \<open>auto simp: row_kept_def dest: list_all2_lengthD\<close>)
      then show ?thesis using m False pos row_kept_trans [OF m(2)]
        by (subst resize_pane_loop.simps) (auto elim!: returns_mono)
    qed
  qed
qed

lemma resize_target_sound:
  "resize_target d root p = Some q \<Longrightarrow> q \<noteq> [] \<and> (\<exists>parent. cell_at (butlast q) root = Some parent \<and> lc_type parent = d) \<and>
    (\<exists>r. p = q @ r)"
proof (induction d root p rule: resize_target.induct)
  case (1 d root p)
  have ne: "p \<noteq> []" using 1(2) by (subst (asm) resize_target.simps) (simp split: if_splits)
  obtain parent where parent: "cell_at (butlast p) root = Some parent"
    using 1(2) ne by (subst (asm) resize_target.simps) (auto split: option.splits)
  show ?case
  proof (cases "lc_type parent = d")
    case True
    then have "q = p" using 1(2) ne parent by (subst (asm) resize_target.simps) simp
    then show ?thesis using True ne parent by simp
  next
    case False
    then have "resize_target d root (butlast p) = Some q" using 1(2) ne parent by (subst (asm) resize_target.simps) simp
    from 1(1) [OF ne parent False this] obtain r where
      "q \<noteq> []" "\<exists>parent. cell_at (butlast q) root = Some parent \<and> lc_type parent = d" "butlast p = q @ r" by blast
    moreover have "p = butlast p @ [last p]" using ne by simp
    ultimately show ?thesis by (metis append_assoc)
  qed
qed

lemma row_total: "row_len d cs = n + 1 \<Longrightarrow> 2 \<le> length cs \<Longrightarrow> total (len d) cs < int n"
  using row_len_total [of d cs] by linarith

lemma resize_cells_ok:
  assumes ok: "cell_ok root" and d: "is_direction d" and p: "p \<noteq> []" "cell_at p root \<noteq> None"
    and parent: "cell_at (butlast p) root = Some parent" "lc_type parent = d"
    and change: "\<bar>change\<bar> < int UINT_MOD"
  shows "returns (resize_cells d p change root) (\<lambda>root'. cell_ok root' \<and> same_size root' root \<and> cell_panes root' = cell_panes root)"
proof -
  have pok: "cell_ok parent" using cell_at_ok [OF ok parent(1)] .
  have node: "lc_type parent \<noteq> LAYOUT_WINDOWPANE" using parent(2) d by simp
  note cs = cell_node [OF pok node]
  have "p = butlast p @ [last p]" using p(1) by simp
  then have last: "last p < length (lc_cells parent)"
    using p(2) parent(1) cell_at_snoc [of "butlast p" "last p" root] by auto
  let ?i = "if last p + 1 = length (lc_cells parent) then last p - 1 else last p"
  have i: "Suc ?i < length (lc_cells parent)" using last cs(1) by auto
  have total: "total (len d) (lc_cells parent) \<le> int CELL_MAX"
    using row_total [of d "lc_cells parent" "len d parent"] cs(1,4) parent(2) cell_ok_len [OF pok, of d] by simp
  have "returns (resize_pane_loop (nat \<bar>change\<bar>) d ?i change change (lc_cells parent)) (row_kept d (lc_cells parent))"
    by (rule resize_pane_loop_ok [OF d]) (use change i total cs(2) in auto)
  then obtain cs' where cs': "resize_pane_loop (nat \<bar>change\<bar>) d ?i change change (lc_cells parent) = Some cs'"
    "row_kept d (lc_cells parent) cs'" unfolding returns_eq by blast
  have kinds: "list_all2 (alike d) (lc_cells parent) cs'" using cs'(2) by (simp add: row_kept_def)
  have new: "cell_ok (set_cells parent cs')"
  proof (rule cell_ok_set_cells [OF pok node])
    show "\<forall>c \<in> set cs'. cell_ok c \<and> cross (lc_type parent) c = cross (lc_type parent) parent"
      using list_all2_member [OF kinds] cs(3) parent(2) by (fastforce simp: alike_def)
  qed (use cs'(2) parent(2) cs(1) in \<open>auto simp: row_kept_def dest: list_all2_lengthD\<close>)
  have panes: "cell_panes (set_cells parent cs') = cell_panes parent"
    using list_all2_panes [OF kinds] node by (simp add: cell_panes_eq [of parent] cell_panes_eq [of "set_cells parent cs'"])
  have "cell_panes (cell_put (butlast p) (set_cells parent cs') root) = cell_panes root"
    using cell_put_panes [OF ok parent(1)] panes by auto
  moreover have "cell_ok (cell_put (butlast p) (set_cells parent cs') root) \<and>
      same_size (cell_put (butlast p) (set_cells parent cs') root) root"
    by (rule cell_put_ok [OF ok parent(1) new]) simp
  moreover have "resize_cells d p change root = Some (cell_put (butlast p) (set_cells parent cs') root)"
    using cs'(1) cs(1) last parent(1) by (auto simp: resize_cells_def Let_def)
  ultimately show ?thesis by simp
qed

section \<open>Removing a cell\<close>

lemma total_append: "total f (xs @ ys) = total f xs + total f ys"
  by (simp add: total_def)

lemma total_split: "i < length cs \<Longrightarrow> total f cs = int (f (cs ! i)) + total f (take i cs @ drop (Suc i) cs)"
  using id_take_nth_drop [of i cs] total_append [of f] by (metis add.left_commute total_simps(2))

lemma concat_split: "i < length cs \<Longrightarrow> concat (map f cs) = concat (map f (take i cs)) @ f (cs ! i) @ concat (map f (drop (Suc i) cs))"
  using id_take_nth_drop [of i cs] by (metis concat.simps(2) concat_append list.simps(9) map_append)

text \<open>The row without cell \<open>i\<close>, its neighbour having taken over its space and the line between them.\<close>

lemma merge_row:
  assumes cs: "\<forall>c \<in> set cs. cell_ok c" and d: "is_direction d" and i: "i < length cs" "2 \<le> length cs"
    and total: "row_len d cs = n + 1" "n \<le> CELL_MAX"
    and other: "other = (if i = 0 then 1 else i - 1)"
  shows "\<exists>c' rest. layout_resize_adjust (cs ! other) d (to_int (u_add (len d (cs ! i)) 1)) = Some c' \<and>
    alike d (cs ! other) c' \<and> rest = take i (cs[other := c']) @ drop (Suc i) (cs[other := c']) \<and>
    length rest = length cs - 1 \<and> row_len d rest = n + 1 \<and>
    (\<forall>r \<in> set rest. cell_ok r \<and> (\<exists>c \<in> set cs. cross d r = cross d c)) \<and>
    concat (map cell_panes rest) = concat (map cell_panes (take i cs)) @ concat (map cell_panes (drop (Suc i) cs))"
proof -
  have o: "other < length cs" "other \<noteq> i" using i other by auto
  have oks: "cell_ok (cs ! other)" "cell_ok (cs ! i)" using cs o i by auto
  have li: "len d (cs ! i) \<le> CELL_MAX" using cell_ok_len [OF oks(2), of d] by blast
  have k: "to_int (u_add (len d (cs ! i)) 1) = int (len d (cs ! i)) + 1" using li by (simp add: to_int_def)
  have le: "total (len d) cs < int n" using row_total [OF total(1) i(2)] .
  have "int (len d (cs ! other)) + int (len d (cs ! i)) \<le> total (len d) cs" by (rule total_two) (use o i in auto)
  then have "adjustable d (int (len d (cs ! i)) + 1) (cs ! other)"
    using oks le total(2) by (simp add: adjustable_def)
  then obtain c' where c': "layout_resize_adjust (cs ! other) d (int (len d (cs ! i)) + 1) = Some c'"
    "adjusted d (int (len d (cs ! i)) + 1) (cs ! other) c'"
    using layout_resize_adjust_ok [OF d] unfolding returns_eq by blast
  have kind: "alike d (cs ! other) c'" using c'(2) by (simp add: adjusted_def)
  let ?cs = "cs[other := c']"
  let ?rest = "take i ?cs @ drop (Suc i) ?cs"
  have len: "length ?rest = length cs - 1" using i by simp
  have tot: "total (len d) ?cs = total (len d) cs + int (len d (cs ! i)) + 1"
    using o(1) c'(2) by (simp add: total_update adjusted_def)
  have "total (len d) ?cs = int (len d (cs ! i)) + total (len d) ?rest"
    using total_split [of i ?cs "len d"] i o by simp
  then have "total (len d) ?rest = total (len d) cs + 1" using tot by simp
  then have rows: "row_len d ?rest = n + 1"
    using row_len_total [of d ?rest] row_len_total [of d cs] len i total(1) by simp
  have cells: "\<forall>r \<in> set ?rest. cell_ok r \<and> (\<exists>c \<in> set cs. cross d r = cross d c)"
  proof
    fix r assume "r \<in> set ?rest"
    then have "r \<in> set ?cs" by (auto dest: in_set_takeD in_set_dropD)
    then have "r = c' \<or> r \<in> set cs" using set_update_subset_insert [of cs other c'] by blast
    then show "cell_ok r \<and> (\<exists>c \<in> set cs. cross d r = cross d c)"
      using kind cs o(1) by (auto simp: alike_def)
  qed
  have panes: "map cell_panes ?cs = map cell_panes cs"
    using kind o(1) by (intro nth_equalityI) (auto simp: nth_list_update alike_def)
  then have "concat (map cell_panes ?rest) =
      concat (map cell_panes (take i cs)) @ concat (map cell_panes (drop (Suc i) cs))"
    by (simp add: take_map [symmetric] drop_map [symmetric])
  then show ?thesis using c'(1) kind len rows cells k by auto
qed

lemma set_size_same:
  assumes "cell_ok c"
  shows "cell_ok (layout_set_size c (lc_sx c) (lc_sy c) x y) \<and>
    cell_panes (layout_set_size c (lc_sx c) (lc_sy c) x y) = cell_panes c"
proof (cases c)
  case (Layout_Cell ty sx sy xoff yoff w cs)
  have "layout_set_size c (lc_sx c) (lc_sy c) x y = Layout_Cell ty sx sy x y w cs"
    by (simp add: layout_set_size_def Layout_Cell)
  moreover have eqs: "cell_ok (Layout_Cell ty sx sy x y w cs) = cell_ok (Layout_Cell ty sx sy xoff yoff w cs)"
    "cell_panes (Layout_Cell ty sx sy x y w cs) = cell_panes (Layout_Cell ty sx sy xoff yoff w cs)"
    by (simp_all only: cell_ok.simps cell_panes.simps)
  ultimately show ?thesis using assms eqs unfolding Layout_Cell by metis
qed

lemma layout_destroy_cell_ok:
  assumes ok: "cell_ok root" and p: "p \<noteq> []" and leaf: "cell_at p root = Some lc" "cell_panes lc = [w]"
  shows "\<exists>root' pre post. layout_destroy_cell p root = Some (Some root') \<and> cell_ok root' \<and> same_size root' root \<and>
    cell_panes root = pre @ [w] @ post \<and> cell_panes root' = pre @ post"
proof -
  have split: "p = butlast p @ [last p]" using p by simp
  obtain parent where parent: "cell_at (butlast p) root = Some parent"
    and i: "last p < length (lc_cells parent)" "lc_cells parent ! last p = lc"
    using leaf(1) cell_at_snoc [of "butlast p" "last p" root lc] split by auto
  have pok: "cell_ok parent" using cell_at_ok [OF ok parent] .
  have node: "lc_type parent \<noteq> LAYOUT_WINDOWPANE" using cell_ok_child(2) [OF pok i(1)] .
  note cs = cell_node [OF pok node]
  define d where "d = lc_type parent"
  define other where "other = (if last p = 0 then 1 else last p - 1)"
  have lend: "(if d = LAYOUT_LEFTRIGHT then lc_sx lc else lc_sy lc) = len d lc"
    by (simp add: len_def)
  obtain c' rest where m: "layout_resize_adjust (lc_cells parent ! other) d (to_int (u_add (len d lc) 1)) = Some c'"
    "rest = take (last p) ((lc_cells parent)[other := c']) @ drop (Suc (last p)) ((lc_cells parent)[other := c'])"
    "length rest = length (lc_cells parent) - 1" "row_len d rest = len d parent + 1"
    "\<forall>r \<in> set rest. cell_ok r \<and> (\<exists>c \<in> set (lc_cells parent). cross d r = cross d c)"
    "concat (map cell_panes rest) = concat (map cell_panes (take (last p) (lc_cells parent))) @
       concat (map cell_panes (drop (Suc (last p)) (lc_cells parent)))"
    using merge_row [of "lc_cells parent" d "last p" "len d parent" other] cs(1,2,4) node i cell_ok_len [OF pok, of d]
    unfolding d_def other_def by metis
  have o: "other < length (lc_cells parent)" using cs(1) i(1) by (auto simp: other_def)
  have crosses: "\<forall>r \<in> set rest. cell_ok r \<and> cross d r = cross d parent"
    using m(5) cs(3) by (fastforce simp: d_def)
  let ?pre = "concat (map cell_panes (take (last p) (lc_cells parent)))"
  let ?post = "concat (map cell_panes (drop (Suc (last p)) (lc_cells parent)))"
  have here: "cell_panes parent = ?pre @ [w] @ ?post"
    using node concat_split [OF i(1), of cell_panes] i(2) leaf(2) by (simp add: cell_panes_eq [of parent])
  obtain pre post where put: "cell_panes root = pre @ cell_panes parent @ post"
    "\<And>new. cell_panes (cell_put (butlast p) new root) = pre @ cell_panes new @ post"
    using cell_put_panes [OF ok parent] by blast
  define new where "new = (case rest of [c] \<Rightarrow> c | _ \<Rightarrow> set_cells parent rest)"
  have new: "cell_ok new \<and> same_size new parent \<and> cell_panes new = ?pre @ ?post"
  proof (cases "length rest = 1")
    case True
    then obtain c where c: "rest = [c]" by (auto simp: length_Suc_conv)
    have "len d c = len d parent" "cross d c = cross d parent" using m(4) crosses c by auto
    then have "same_size c parent" using node by (cases "d = LAYOUT_LEFTRIGHT") (auto simp: len_def cross_def)
    then show ?thesis using c crosses m(6) by (simp add: new_def)
  next
    case False
    then have two: "2 \<le> length rest" using m(3) cs(1) by simp
    then have "new = set_cells parent rest" by (auto simp: new_def split: list.split)
    moreover have "cell_ok (set_cells parent rest)"
      by (rule cell_ok_set_cells [OF pok node two]) (use crosses m(4) cs(4) in \<open>simp_all add: d_def\<close>)
    ultimately show ?thesis using m(6) node by (simp add: cell_panes_eq [of "set_cells _ _"])
  qed
  define root' where "root' = (case rest of
      [c] \<Rightarrow> if butlast p = [] then layout_set_size c (lc_sx c) (lc_sy c) 0 0 else cell_put (butlast p) c root
    | _ \<Rightarrow> cell_put (butlast p) (set_cells parent rest) root)"
  have run: "layout_destroy_cell p root = Some (Some root')"
    by (simp only: layout_destroy_cell_def p if_False Let_def parent Option.bind.bind_lunit get_at_Some [OF i(1)] i(2)
        other_def [symmetric] get_at_Some [OF o] d_def [symmetric] lend m(1) m(2) [symmetric] root'_def)
  have "cell_ok root' \<and> same_size root' root \<and> cell_panes root' = pre @ (?pre @ ?post) @ post"
  proof (cases "length rest = 1 \<and> butlast p = []")
    case True
    then obtain c where c: "rest = [c]" by (auto simp: length_Suc_conv)
    have "parent = root" using parent True by simp
    moreover have "length pre + length post = 0" using arg_cong [OF put(1), of length] calculation by simp
    then have "pre = []" "post = []" by simp_all
    ultimately show ?thesis using True c new set_size_same [of c]
      by (simp add: root'_def new_def) (simp add: layout_set_size_def)
  next
    case False
    then have "root' = cell_put (butlast p) new root"
      by (auto simp: root'_def new_def split: list.split)
    then show ?thesis using cell_put_ok [OF ok parent, of new] new put(2) by simp
  qed
  then show ?thesis using run put(1) here
    by (intro exI [of _ root'] exI [of _ "pre @ ?pre"] exI [of _ "?post @ post"]) simp
qed

end
