(* ===== verification/Layout_Props.thy ===== *)
theory Layout_Props
  imports Layout_Ops "HOL-Library.Multiset"
begin

text \<open>
  Where the panes of a layout are (\<open>fix_geometry\<close>), splitting a pane, and the steps of a window's layout:
  every sequence of resizes, splits and closings keeps the tree well formed, with exactly the window's panes.
\<close>

section \<open>Geometry\<close>

fun cell_leaves :: "layout_cell \<Rightarrow> layout_cell list" where
  "cell_leaves (Layout_Cell ty sx sy xoff yoff w cs) =
     (if ty = LAYOUT_WINDOWPANE then [Layout_Cell ty sx sy xoff yoff w cs] else concat (map cell_leaves cs))"

text \<open>Inside an area; to the left of, or above, with at least one column or row between.\<close>

definition inside :: "nat \<Rightarrow> nat \<Rightarrow> nat \<Rightarrow> nat \<Rightarrow> layout_cell \<Rightarrow> bool" where
  "inside x y sx sy c \<longleftrightarrow> x \<le> lc_xoff c \<and> lc_xoff c + lc_sx c \<le> x + sx \<and> y \<le> lc_yoff c \<and> lc_yoff c + lc_sy c \<le> y + sy"

definition apart :: "layout_cell \<Rightarrow> layout_cell \<Rightarrow> bool" where
  "apart a b \<longleftrightarrow> lc_xoff a + lc_sx a < lc_xoff b \<or> lc_yoff a + lc_sy a < lc_yoff b"

lemma row_len_Cons: "row_len d (c # cs) = len d c + 1 + row_len d cs"
  by simp

lemma row_join:
  assumes "(\<forall>c \<in> set A. P c) \<and> sorted_wrt apart A" and "(\<forall>c \<in> set B. Q c) \<and> sorted_wrt apart B"
    and "\<And>a. P a \<Longrightarrow> R a" and "\<And>b. Q b \<Longrightarrow> R b" and "\<And>a b. P a \<Longrightarrow> Q b \<Longrightarrow> apart a b"
  shows "(\<forall>c \<in> set (A @ B). R c) \<and> sorted_wrt apart (A @ B)"
  using assms by (auto simp: sorted_wrt_append)

lemma fix_geometry:
  "cell_ok lc \<Longrightarrow> x + lc_sx lc < UINT_MOD \<Longrightarrow> y + lc_sy lc < UINT_MOD \<Longrightarrow>
   (\<forall>c \<in> set (cell_leaves (layout_fix_offsets_at x y lc)). inside x y (lc_sx lc) (lc_sy lc) c) \<and>
   sorted_wrt apart (cell_leaves (layout_fix_offsets_at x y lc))"
  "is_direction ty \<Longrightarrow> (\<forall>c \<in> set cs. cell_ok c \<and> cross ty c = h) \<Longrightarrow>
   (if ty = LAYOUT_LEFTRIGHT then x + row_len ty cs \<le> UINT_MOD \<and> y + h < UINT_MOD
    else x + h < UINT_MOD \<and> y + row_len ty cs \<le> UINT_MOD) \<Longrightarrow>
   (\<forall>c \<in> set (concat (map cell_leaves (layout_fix_row ty x y cs))).
      if ty = LAYOUT_LEFTRIGHT then inside x y (row_len ty cs) h c \<and> lc_xoff c + lc_sx c < x + row_len ty cs
      else inside x y h (row_len ty cs) c \<and> lc_yoff c + lc_sy c < y + row_len ty cs) \<and>
   sorted_wrt apart (concat (map cell_leaves (layout_fix_row ty x y cs)))"
proof (induction x y lc and ty x y cs arbitrary: and h rule: layout_fix_offsets_at_layout_fix_row.induct)
  case (1 x y ty sx sy uu uv w cs)
  show ?case
  proof (cases "ty = LAYOUT_WINDOWPANE")
    case True
    then show ?thesis by (simp add: inside_def)
  next
    case False
    let ?lc = "Layout_Cell ty sx sy uu uv w cs"
    have "lc_type ?lc \<noteq> LAYOUT_WINDOWPANE" using False by simp
    note node = cell_node [OF 1(2) this, simplified]
    have rows: "row_len ty cs = (if ty = LAYOUT_LEFTRIGHT then sx + 1 else sy + 1)"
      using node(4) by (simp add: len_def)
    have "\<forall>c \<in> set cs. cell_ok c \<and> cross ty c = (if ty = LAYOUT_LEFTRIGHT then sy else sx)"
      using node(2,3) by (auto simp: cross_def)
    from 1(1) [OF False False this] 1(3,4) rows show ?thesis
      using False by (cases "ty = LAYOUT_LEFTRIGHT") (auto simp: inside_def less_Suc_eq_le)
  qed
next
  case (3 ty x y c cs)
  have c: "cell_ok c" "cross ty c = h" and cs: "\<forall>c \<in> set cs. cell_ok c \<and> cross ty c = h" using 3(5) by auto
  have len: "0 < len ty c" "len ty c \<le> CELL_MAX" using cell_ok_len [OF c(1), of ty] by simp_all
  let ?here = "cell_leaves (layout_fix_offsets_at x y c)"
  show ?case
  proof (cases "ty = LAYOUT_LEFTRIGHT")
    case True
    let ?x = "u_add x (u_add (lc_sx c) 1)"
    have sz: "lc_sx c = len ty c" "lc_sy c = h" using c(2) True by (simp_all add: len_def cross_def)
    have b: "x + (len ty c + 1 + row_len ty cs) \<le> UINT_MOD" "y + h < UINT_MOD"
      using 3(6) True by (simp_all add: row_len_Cons)
    show ?thesis
    proof (cases "cs = []")
      case e: True
      have "(\<forall>c' \<in> set ?here. inside x y (lc_sx c) (lc_sy c) c') \<and> sorted_wrt apart ?here"
        by (rule 3(1) [OF c(1)]) (use b sz in auto)
      then show ?thesis using True sz e by (auto simp: inside_def)
    next
      case False
      then have pos: "0 < row_len ty cs" by (cases cs) auto
      have x: "?x = x + len ty c + 1" using b len pos sz by simp
      have here: "(\<forall>c' \<in> set ?here. inside x y (lc_sx c) (lc_sy c) c') \<and> sorted_wrt apart ?here"
        by (rule 3(1) [OF c(1)]) (use b sz in auto)
      have rest: "(\<forall>c' \<in> set (concat (map cell_leaves (layout_fix_row ty ?x y cs))).
            inside ?x y (row_len ty cs) h c' \<and> lc_xoff c' + lc_sx c' < ?x + row_len ty cs) \<and>
          sorted_wrt apart (concat (map cell_leaves (layout_fix_row ty ?x y cs)))"
        using 3(2) [OF True 3(4) cs] b x True by simp
      have rows: "concat (map cell_leaves (layout_fix_row ty x y (c # cs))) = ?here @ concat (map cell_leaves (layout_fix_row ty ?x y cs))"
        using True by simp
      show ?thesis unfolding rows row_len_Cons x
        by (rule row_join [OF here rest [unfolded x]]) (use True in \<open>auto simp: inside_def apart_def sz\<close>)
    qed
  next
    case False
    let ?y = "u_add y (u_add (lc_sy c) 1)"
    have sz: "lc_sy c = len ty c" "lc_sx c = h" using c(2) False by (simp_all add: len_def cross_def)
    have b: "y + (len ty c + 1 + row_len ty cs) \<le> UINT_MOD" "x + h < UINT_MOD"
      using 3(6) False by (simp_all add: row_len_Cons)
    show ?thesis
    proof (cases "cs = []")
      case e: True
      have "(\<forall>c' \<in> set ?here. inside x y (lc_sx c) (lc_sy c) c') \<and> sorted_wrt apart ?here"
        by (rule 3(1) [OF c(1)]) (use b sz in auto)
      then show ?thesis using False sz e by (auto simp: inside_def)
    next
      case ne: False
      then have pos: "0 < row_len ty cs" by (cases cs) auto
      have y: "?y = y + len ty c + 1" using b len pos sz by simp
      have here: "(\<forall>c' \<in> set ?here. inside x y (lc_sx c) (lc_sy c) c') \<and> sorted_wrt apart ?here"
        by (rule 3(1) [OF c(1)]) (use b sz in auto)
      have rest: "(\<forall>c' \<in> set (concat (map cell_leaves (layout_fix_row ty x ?y cs))).
            inside x ?y h (row_len ty cs) c' \<and> lc_yoff c' + lc_sy c' < ?y + row_len ty cs) \<and>
          sorted_wrt apart (concat (map cell_leaves (layout_fix_row ty x ?y cs)))"
        using 3(3) [OF False 3(4) cs] b y False by simp
      have rows: "concat (map cell_leaves (layout_fix_row ty x y (c # cs))) = ?here @ concat (map cell_leaves (layout_fix_row ty x ?y cs))"
        using False by simp
      show ?thesis unfolding rows row_len_Cons y
        by (rule row_join [OF here rest [unfolded y]]) (use False in \<open>auto simp: inside_def apart_def sz\<close>)
    qed
  qed
qed simp

lemma fix_row_eq: "layout_fix_row ty x y cs = [] \<longleftrightarrow> cs = []"
  by (cases cs) auto

lemma fix_kept:
  "lc_sx (layout_fix_offsets_at x y lc) = lc_sx lc \<and> lc_sy (layout_fix_offsets_at x y lc) = lc_sy lc \<and>
   cell_panes (layout_fix_offsets_at x y lc) = cell_panes lc \<and>
   (cell_ok lc \<longrightarrow> cell_ok (layout_fix_offsets_at x y lc))"
  "is_direction ty \<Longrightarrow> length (layout_fix_row ty x y cs) = length cs \<and> map lc_sx (layout_fix_row ty x y cs) = map lc_sx cs \<and>
   map lc_sy (layout_fix_row ty x y cs) = map lc_sy cs \<and> map cell_panes (layout_fix_row ty x y cs) = map cell_panes cs \<and>
   ((\<forall>c \<in> set cs. cell_ok c) \<longrightarrow> (\<forall>c \<in> set (layout_fix_row ty x y cs). cell_ok c))"
proof (induction x y lc and ty x y cs rule: layout_fix_offsets_at_layout_fix_row.induct)
  case (1 x y ty sx sy uu uv w cs)
  show ?case
  proof (cases "ty = LAYOUT_WINDOWPANE")
    case False
    note ih = 1 [OF False False]
    have sizes: "(\<forall>c \<in> set (layout_fix_row ty x y cs). P (f c)) = (\<forall>c \<in> set cs. P (f c))"
      if "map f (layout_fix_row ty x y cs) = map f cs" for f :: "layout_cell \<Rightarrow> nat" and P
      using that by (metis (mono_tags, lifting) image_iff list.set_map)
    have lens: "row_len d (layout_fix_row ty x y cs) = row_len d cs" for d
    proof -
      have "map (len d) (layout_fix_row ty x y cs) = map (len d) cs" using ih by (cases d) (simp_all add: len_def [abs_def])
      then have "map (\<lambda>n. n + 1) (map (len d) (layout_fix_row ty x y cs)) = map (\<lambda>n. n + 1) (map (len d) cs)" by simp
      then show ?thesis by (simp add: comp_def)
    qed
    show ?thesis using False ih sizes [of lc_sx "\<lambda>n. n = sx"] sizes [of lc_sy "\<lambda>n. n = sy"] lens
      by (cases "ty = LAYOUT_LEFTRIGHT") auto
  qed simp
qed auto

section \<open>Splitting a cell\<close>

lemma split_sizes_ok:
  assumes "5 \<le> sz" and "sz \<le> CELL_MAX" and "split_sizes sz hint = (size1, size2)"
  shows "0 < size1" "2 \<le> size2" "size1 + size2 + 1 = sz"
  using assms by (auto simp: split_sizes_def Let_def PANE_MINIMUM_def split: if_splits)

definition leaf_of :: "layout_cell \<Rightarrow> bool" where
  "leaf_of lc \<longleftrightarrow> lc_type lc = LAYOUT_WINDOWPANE \<and> lc_cells lc = []"

lemma set_size_simps [simp]:
  "lc_type (layout_set_size lc sx sy x y) = lc_type lc" "lc_sx (layout_set_size lc sx sy x y) = sx"
  "lc_sy (layout_set_size lc sx sy x y) = sy" "lc_xoff (layout_set_size lc sx sy x y) = x"
  "lc_yoff (layout_set_size lc sx sy x y) = y" "lc_wp (layout_set_size lc sx sy x y) = lc_wp lc"
  "lc_cells (layout_set_size lc sx sy x y) = lc_cells lc"
  by (simp_all add: layout_set_size_def)

lemma make_leaf_simps [simp]:
  "lc_type (layout_make_leaf lc wp) = LAYOUT_WINDOWPANE" "lc_sx (layout_make_leaf lc wp) = lc_sx lc"
  "lc_sy (layout_make_leaf lc wp) = lc_sy lc" "lc_xoff (layout_make_leaf lc wp) = lc_xoff lc"
  "lc_yoff (layout_make_leaf lc wp) = lc_yoff lc" "lc_wp (layout_make_leaf lc wp) = Some wp"
  "lc_cells (layout_make_leaf lc wp) = []"
  by (simp_all add: layout_make_leaf_def)

lemma leaf_ok: "leaf_of lc \<Longrightarrow> cell_ok lc \<longleftrightarrow> 0 < lc_sx lc \<and> 0 < lc_sy lc \<and> lc_sx lc \<le> CELL_MAX \<and> lc_sy lc \<le> CELL_MAX"
  by (subst cell_ok_iff) (simp add: leaf_of_def)

text \<open>The two cells after a split: they fill the old one, with a line between them.\<close>

lemma split_cells_ok:
  assumes lc: "cell_ok lc" "leaf_of lc" and leaves: "leaf_of a" "leaf_of b"
    and d: "is_direction d" "5 \<le> len d lc" and "split_cells d hint lc a b = (lc1, lc2)"
  shows "cell_ok lc1" "cell_ok lc2" "leaf_of lc1" "leaf_of lc2" "lc_wp lc1 = lc_wp a" "lc_wp lc2 = lc_wp b"
    "cross d lc1 = cross d lc" "cross d lc2 = cross d lc" "len d lc1 + len d lc2 + 1 = len d lc"
proof -
  have b: "len d lc \<le> CELL_MAX" "0 < cross d lc" "cross d lc \<le> CELL_MAX" using cell_ok_len [OF lc(1), of d] by simp_all
  obtain size1 size2 where s: "split_sizes (len d lc) hint = (size1, size2)" by fastforce
  note sizes = split_sizes_ok [OF d(2) b(1) s]
  show "cell_ok lc1" "cell_ok lc2" "leaf_of lc1" "leaf_of lc2" "lc_wp lc1 = lc_wp a" "lc_wp lc2 = lc_wp b"
    "cross d lc1 = cross d lc" "cross d lc2 = cross d lc" "len d lc1 + len d lc2 + 1 = len d lc"
    using assms(7) s sizes b d(1) leaves
    by (cases d; auto simp: split_cells_def Let_def len_def cross_def leaf_of_def leaf_ok)+
qed

lemma cell_at_put: "cell_at p root = Some c \<Longrightarrow> cell_at (p @ q) (cell_put p new root) = cell_at q new"
  by (induction p arbitrary: root) (auto split: if_splits)

lemma panes_leaf: "leaf_of lc \<Longrightarrow> cell_panes lc = [lc_wp lc]"
  by (simp add: cell_panes_eq leaf_of_def)

lemma cell_panes_set_cells: "lc_type lc \<noteq> LAYOUT_WINDOWPANE \<Longrightarrow> cell_panes (set_cells lc cs) = concat (map cell_panes cs)"
  by (simp add: cell_panes_eq [of "set_cells lc cs"])

text \<open>A cell replaced by two in the row of its parent.\<close>

lemma replace_by_two:
  assumes pok: "cell_ok parent" and d: "is_direction d" "lc_type parent = d" and i: "i < length (lc_cells parent)"
    and two: "cell_ok lc1" "cell_ok lc2" "cross d lc1 = cross d (lc_cells parent ! i)" "cross d lc2 = cross d (lc_cells parent ! i)"
      "len d lc1 + len d lc2 + 1 = len d (lc_cells parent ! i)"
  defines "cs \<equiv> take i (lc_cells parent) @ [lc1, lc2] @ drop (Suc i) (lc_cells parent)"
  shows "cell_ok (set_cells parent cs)"
proof -
  have node: "lc_type parent \<noteq> LAYOUT_WINDOWPANE" using d by simp
  note old = cell_node [OF pok node]
  have "total (len d) cs + 1 = total (len d) (lc_cells parent)"
    using total_split [OF i, of "len d"] two(5) by (simp add: cs_def total_append)
  moreover have len: "length cs = length (lc_cells parent) + 1" using i by (simp add: cs_def)
  ultimately have "row_len d cs = row_len d (lc_cells parent)"
    using row_len_total [of d cs] row_len_total [of d "lc_cells parent"] by simp
  moreover have "\<forall>c \<in> set cs. cell_ok c \<and> cross d c = cross d parent"
    using two old(2,3) d(2) i nth_mem [OF i] unfolding cs_def by (auto dest: in_set_takeD in_set_dropD)
  moreover have "2 \<le> length cs" using len old(1) by simp
  ultimately show ?thesis using cell_ok_set_cells [OF pok node] d(2) by simp
qed

lemma layout_split_pane_ok:
  assumes ok: "cell_ok root" and path: "pane_path wp root = Some path" "cell_at path root = Some lc" and d: "is_direction d"
  shows "layout_split_pane wp d hint before root = Some None \<and> len d lc < 5 \<or>
    (\<exists>root' p. layout_split_pane wp d hint before root = Some (Some (root', p)) \<and> cell_ok root' \<and> same_size root' root \<and>
      (\<exists>c. cell_at p root' = Some c \<and> leaf_of c \<and> lc_wp c = None) \<and>
      mset (cell_panes root') = add_mset None (mset (cell_panes root)))"
proof (cases "len d lc < 5")
  case True
  then show ?thesis using path d
    by (simp add: layout_split_pane_def PANE_MINIMUM_def len_def split: if_splits)
next
  case False
  then have five: "5 \<le> len d lc" by simp
  have lok: "cell_ok lc" using cell_at_ok [OF ok path(2)] .
  have leaf: "leaf_of lc" "lc_wp lc = Some wp"
    using pane_path_sound(1) [OF path(1)] path(2) lok [THEN cell_ok_iff [THEN iffD1]] by (auto simp: leaf_of_def)
  have lnew: "leaf_of layout_create_cell" "lc_wp layout_create_cell = None"
    by (simp_all add: leaf_of_def layout_create_cell_def)
  define a where "a = (if before then layout_create_cell else lc)"
  define b where "b = (if before then lc else layout_create_cell)"
  obtain lc1 lc2 where sp: "split_cells d hint lc a b = (lc1, lc2)" by fastforce
  have ab: "leaf_of a" "leaf_of b" using leaf lnew by (simp_all add: a_def b_def)
  note two = split_cells_ok [OF lok leaf(1) ab d five sp]
  define m1 where "m1 = (if before then lc1 else layout_make_leaf lc1 wp)"
  define m2 where "m2 = (if before then layout_make_leaf lc2 wp else lc2)"
  have leaves: "leaf_of m1" "leaf_of m2" using two by (simp_all add: m1_def m2_def leaf_of_def)
  have sizes: "same_size m1 lc1" "same_size m2 lc2" by (simp_all add: m1_def m2_def)
  have lens: "len d m1 = len d lc1" "len d m2 = len d lc2" "cross d m1 = cross d lc1" "cross d m2 = cross d lc2"
    using same_size_len [OF sizes(1)] same_size_len [OF sizes(2)] by simp_all
  have m: "cell_ok m1" "cell_ok m2" "cross d m1 = cross d lc" "cross d m2 = cross d lc" "len d m1 + len d m2 + 1 = len d lc"
    using two leaves sizes by (simp_all add: lens leaf_ok)
  have wps: "lc_wp (if before then m1 else m2) = None" "{#lc_wp m1, lc_wp m2#} = {#Some wp, None#}"
    using two(5,6) leaf(2) lnew by (auto simp: m1_def m2_def a_def b_def)
  let ?j = "if before then 0 else 1 :: nat"
  have size: "\<not> (if d = LAYOUT_LEFTRIGHT then lc_sx lc else lc_sy lc) < PANE_MINIMUM * 2 + 1"
    using five by (simp add: len_def PANE_MINIMUM_def)
  have pair: "(if before then split_cells d hint lc layout_create_cell lc else split_cells d hint lc lc layout_create_cell) = (lc1, lc2)"
    using sp unfolding a_def b_def by (cases before) simp_all
  have pair2: "(if before then (lc1, layout_make_leaf lc2 wp) else (layout_make_leaf lc1 wp, lc2)) = (m1, m2)"
    by (simp add: m1_def m2_def)
  show ?thesis
  proof (cases "path \<noteq> [] \<and> map_option lc_type (cell_at (butlast path) root) = Some d")
    case True
    then obtain parent where parent: "cell_at (butlast path) root = Some parent" "lc_type parent = d" by auto
    have pp: "path = butlast path @ [last path]" using True by simp
    then have i: "last path < length (lc_cells parent)" "lc_cells parent ! last path = lc"
      using path(2) parent(1) cell_at_snoc [of "butlast path" "last path" root lc] by auto
    have pok: "cell_ok parent" using cell_at_ok [OF ok parent(1)] .
    let ?cs = "take (last path) (lc_cells parent) @ [m1, m2] @ drop (Suc (last path)) (lc_cells parent)"
    let ?root = "cell_put (butlast path) (set_cells parent ?cs) root"
    have new: "cell_ok (set_cells parent ?cs)" by (rule replace_by_two [OF pok d parent(2) i(1)]) (use m i(2) in simp_all)
    have run: "layout_split_pane wp d hint before root = Some (Some (?root, butlast path @ [last path + ?j]))"
      using path True parent(1)
      by (simp only: layout_split_pane_def d if_False size Let_def pair pair2 prod.case Option.bind.bind_lunit if_True simp_thms)
    have at: "cell_at (butlast path @ [last path + ?j]) ?root = Some (if before then m1 else m2)"
      unfolding cell_at_put [OF parent(1)] using i(1) by (cases before) (auto simp: nth_append)
    obtain pre post where put: "cell_panes root = pre @ cell_panes parent @ post"
      "cell_panes ?root = pre @ cell_panes (set_cells parent ?cs) @ post"
      using cell_put_panes [OF ok parent(1)] by blast
    have "mset (cell_panes (set_cells parent ?cs)) = add_mset None (mset (cell_panes parent))"
      using d parent(2) i leaf wps(2) concat_split [OF i(1), of cell_panes]
      by (simp add: cell_panes_set_cells cell_panes_eq [of parent] panes_leaf leaves)
    then have "mset (cell_panes ?root) = add_mset None (mset (cell_panes root))" using put by simp
    moreover have "cell_ok ?root \<and> same_size ?root root" by (rule cell_put_ok [OF ok parent(1) new]) simp
    moreover have "leaf_of (if before then m1 else m2)" using leaves by simp
    ultimately show ?thesis using run at wps(1) by blast
  next
    case no: False
    define node where "node = set_cells (layout_set_size (Layout_Cell d UINT_MAX UINT_MAX UINT_MAX UINT_MAX None [])
        (lc_sx lc) (lc_sy lc) (lc_xoff lc) (lc_yoff lc)) [m1, m2]"
    have nsimps: "lc_type node = d" "same_size node lc" "lc_cells node = [m1, m2]" "lc_wp node = None"
      by (simp_all add: node_def layout_set_size_def)
    have nlen: "len x node = len x lc \<and> cross x node = cross x lc" for x using same_size_len [OF nsimps(2)] .
    have nok: "cell_ok node"
      by (rule cell_ok_intro [OF d]) (use cell_ok_len [OF lok, of d] nlen nsimps m d in auto)
    let ?root = "cell_put path node root"
    have mk: "layout_make_node layout_create_cell d = Some (Layout_Cell d UINT_MAX UINT_MAX UINT_MAX UINT_MAX None [])"
      by (simp add: layout_make_node_def layout_create_cell_def d)
    have run: "layout_split_pane wp d hint before root = Some (Some (?root, path @ [?j]))"
      using path no
      by (simp only: layout_split_pane_def d if_False size Let_def pair pair2 prod.case Option.bind.bind_lunit simp_thms mk node_def)
    have at: "cell_at (path @ [?j]) ?root = Some (if before then m1 else m2)"
      unfolding cell_at_put [OF path(2)] using nsimps(3) by simp
    obtain pre post where put: "cell_panes root = pre @ cell_panes lc @ post" "cell_panes ?root = pre @ cell_panes node @ post"
      using cell_put_panes [OF ok path(2)] by blast
    have "mset (cell_panes node) = {#Some wp, None#}"
      using wps(2) nsimps d by (simp add: cell_panes_eq [of node] panes_leaf leaves)
    then have "mset (cell_panes ?root) = add_mset None (mset (cell_panes root))"
      using put leaf by (simp add: panes_leaf)
    moreover have "cell_ok ?root \<and> same_size ?root root" by (rule cell_put_ok [OF ok path(2) nok nsimps(2)])
    moreover have "leaf_of (if before then m1 else m2)" using leaves by simp
    ultimately show ?thesis using run at wps(1) by blast
  qed
qed

end
