(* ===== verification/Machine.thy ===== *)
theory Machine
  imports Prelude
begin

text \<open>
  Programs as machines whose operations have preconditions: a function \<open>run\<close> that performs an operation
  (\<open>None\<close> when the program dies) and a guard that says what the callers of an operation make sure of. The
  locale turns the preservation of an invariant by one guarded operation into facts about every sequence
  of operations.
\<close>

inductive reaches :: "('op \<Rightarrow> 's \<Rightarrow> 's option) \<Rightarrow> ('s \<Rightarrow> 'op \<Rightarrow> bool) \<Rightarrow> 's \<Rightarrow> 's \<Rightarrow> bool" for run guard where
  reaches_refl: "reaches run guard s s"
| reaches_step: "reaches run guard s t \<Longrightarrow> guard t op \<Longrightarrow> run op t = Some u \<Longrightarrow> reaches run guard s u"

lemma reaches_one: "guard s op \<Longrightarrow> run op s = Some t \<Longrightarrow> reaches run guard s t"
  by (rule reaches_step [OF reaches_refl])

lemma reaches_trans: "reaches run guard s t \<Longrightarrow> reaches run guard t u \<Longrightarrow> reaches run guard s u"
  by (rotate_tac, induction rule: reaches.induct) (auto intro: reaches_step)

text \<open>Running a list of operations, the guard of each checked in the state it starts from.\<close>

fun guarded_run :: "('op \<Rightarrow> 's \<Rightarrow> 's option) \<Rightarrow> ('s \<Rightarrow> 'op \<Rightarrow> bool) \<Rightarrow> 'op list \<Rightarrow> 's \<Rightarrow> bool" where
  "guarded_run run guard [] s \<longleftrightarrow> True"
| "guarded_run run guard (op # ops) s \<longleftrightarrow> guard s op \<and> (\<forall>t. run op s = Some t \<longrightarrow> guarded_run run guard ops t)"

fun run_all :: "('op \<Rightarrow> 's \<Rightarrow> 's option) \<Rightarrow> 'op list \<Rightarrow> 's \<Rightarrow> 's option" where
  "run_all run [] s = Some s"
| "run_all run (op # ops) s = run op s \<bind> run_all run ops"

locale guarded_machine =
  fixes inv :: "'s \<Rightarrow> bool"
    and guard :: "'s \<Rightarrow> 'op \<Rightarrow> bool"
    and run :: "'op \<Rightarrow> 's \<Rightarrow> 's option"
  assumes preserved: "inv s \<Longrightarrow> guard s op \<Longrightarrow> returns (run op s) inv"
begin

lemma reaches_inv: "reaches run guard s t \<Longrightarrow> inv s \<Longrightarrow> inv t"
proof (induction rule: reaches.induct)
  case (reaches_step s t op u)
  then show ?case using preserved [of t op] by (simp add: returns_eq)
qed

text \<open>No reachable state has an operation that dies, and every guarded list of operations can be run.\<close>

lemma reaches_alive: "inv s \<Longrightarrow> reaches run guard s t \<Longrightarrow> inv t \<and> (\<forall>op. guard t op \<longrightarrow> returns (run op t) inv)"
  using reaches_inv preserved by blast

lemma run_all_ok: "inv s \<Longrightarrow> guarded_run run guard ops s \<Longrightarrow> returns (run_all run ops s) inv"
proof (induction ops arbitrary: s)
  case (Cons op ops)
  have g: "guard s op" and rest: "\<And>t. run op s = Some t \<Longrightarrow> guarded_run run guard ops t" using Cons.prems(2) by auto
  obtain t where "run op s = Some t" "inv t" using preserved [OF Cons.prems(1) g] unfolding returns_eq by blast
  then show ?case using Cons.IH [of t] rest [of t] by simp
qed simp

end

end
