(* ===== verification/Layout_Steps.thy ===== *)
theory Layout_Steps
  imports Layout_Props Window Machine
begin

text \<open>
  The life of a window's layout as a sequence of steps: resizing the window, resizing, splitting and closing
  panes, in the way the commands of tmux do it. No step dies, and the layout always holds exactly the panes
  of the window.
\<close>

section \<open>Steps\<close>

text \<open>
  \<open>L_split\<close> is the part of \<open>cmd_split_window_exec\<close> from \<open>layout_split_pane\<close> to \<open>layout_assign_pane\<close>;
  \<open>L_close\<close> is \<open>layout_close_pane\<close> followed by \<open>window_remove_pane\<close>, as in \<open>cmd_kill_pane_exec\<close>.
\<close>

datatype layout_op =
    L_resize u_int u_int
  | L_resize_pane nat layout_type int
  | L_split nat layout_type int bool nat
  | L_close nat
  | L_active nat

fun layout_run :: "layout_op \<Rightarrow> layout_window \<Rightarrow> layout_window option" where
  "layout_run (L_resize sx sy) w = do { w \<leftarrow> layout_resize w sx sy; Some (window_resize w sx sy) }"
| "layout_run (L_resize_pane wp type change) w = layout_resize_pane wp type change w"
| "layout_run (L_split wp type hint before new) w = do {
     root \<leftarrow> lw_root w;
     r \<leftarrow> layout_split_pane wp type hint before root;
     case r of
       None \<Rightarrow> Some w
     | Some (root, path) \<Rightarrow> do {
         w \<leftarrow> window_add_pane (w\<lparr>lw_root := Some root\<rparr>) new;
         layout_assign_pane path new w
       }
   }"
| "layout_run (L_close wp) w = do { w \<leftarrow> layout_close_pane wp w; Some (window_remove_pane w wp) }"
| "layout_run (L_active wp) w = window_set_active_pane w wp"

text \<open>
  What the callers make sure of: panes that exist, a fresh identifier, more than one pane when one is closed
  (the window goes with its last pane), and sizes far from the limits of the integers. The last condition,
  that a pane to be made active can be seen, is not checked by all callers; without it the invariant fails
  (\<open>window_set_active_dangling\<close> below).
\<close>

definition layout_guard :: "layout_window \<Rightarrow> layout_op \<Rightarrow> bool" where
  "layout_guard w op \<longleftrightarrow> (case op of
       L_resize sx sy \<Rightarrow> sx \<le> CELL_MAX \<and> sy \<le> CELL_MAX \<and> lw_sx w \<le> CELL_MAX \<and> lw_sy w \<le> CELL_MAX \<and>
         (\<forall>lc. lw_root w = Some lc \<longrightarrow> lc_sx lc + sx \<le> CELL_MAX + lw_sx w \<and> lc_sy lc + sy \<le> CELL_MAX + lw_sy w)
     | L_resize_pane wp type change \<Rightarrow> wp \<in> set (pane_ids w) \<and> is_direction type \<and> \<bar>change\<bar> < 2147483648
     | L_split wp type hint before new \<Rightarrow> wp \<in> set (pane_ids w) \<and> is_direction type \<and> new \<notin> set (pane_ids w)
     | L_close wp \<Rightarrow> wp \<in> set (pane_ids w) \<and> 1 < length (lw_panes w)
     | L_active wp \<Rightarrow> (\<exists>p. find_pane w wp = Some p \<and> window_pane_visible w p))"

section \<open>The invariant\<close>

definition window_ok :: "layout_window \<Rightarrow> bool" where
  "window_ok w \<longleftrightarrow> (\<exists>root. lw_root w = Some root \<and> cell_ok root \<and>
     mset (cell_panes root) = mset (map Some (pane_ids w))) \<and> distinct (pane_ids w) \<and>
     (\<exists>a. lw_active w = Some a \<and> a \<in> set (pane_ids w)) \<and> (\<forall>l. lw_last w = Some l \<longrightarrow> l \<in> set (pane_ids w) \<and> lw_active w \<noteq> Some l)"

lemma window_okE:
  assumes "window_ok w"
  obtains root where "lw_root w = Some root" "cell_ok root" "mset (cell_panes root) = mset (map Some (pane_ids w))"
  using assms by (auto simp: window_ok_def)

lemma fix_pane_id [simp]: "lp_id (layout_fix_pane root x y p) = lp_id p"
  by (simp add: layout_fix_pane_def split: option.splits)

lemma pane_ids_update [simp]: "pane_ids (w\<lparr>lw_root := r\<rparr>) = pane_ids w" "pane_ids (w\<lparr>lw_sx := sx\<rparr>) = pane_ids w"
  "pane_ids (w\<lparr>lw_sy := sy\<rparr>) = pane_ids w" "pane_ids (w\<lparr>lw_active := a\<rparr>) = pane_ids w"
  "pane_ids (w\<lparr>lw_last := l\<rparr>) = pane_ids w"
  by (simp_all add: pane_ids_def)

lemma fix_panes_simps [simp]:
  "pane_ids (layout_fix_panes w x y) = pane_ids w" "lw_root (layout_fix_panes w x y) = lw_root w"
  "lw_active (layout_fix_panes w x y) = lw_active w" "lw_last (layout_fix_panes w x y) = lw_last w"
  "lw_sx (layout_fix_panes w x y) = lw_sx w" "lw_sy (layout_fix_panes w x y) = lw_sy w"
  by (simp_all add: layout_fix_panes_def pane_ids_def comp_def)

text \<open>A new tree with the same panes.\<close>

lemma window_ok_root:
  assumes "window_ok w" and "cell_ok root" and "\<And>old. lw_root w = Some old \<Longrightarrow> mset (cell_panes root) = mset (cell_panes old)"
  shows "window_ok (layout_fix_panes (w\<lparr>lw_root := Some root\<rparr>) x y)"
  using assms by (auto simp: window_ok_def)

lemma fix_offsets_ok:
  "cell_ok lc \<Longrightarrow> cell_ok (layout_fix_offsets lc)" "cell_panes (layout_fix_offsets lc) = cell_panes lc"
  using fix_kept(1) [of "lc_xoff lc" "lc_yoff lc" lc] by (simp_all add: layout_fix_offsets_def)

lemma pane_in_tree:
  assumes "cell_ok root" and "mset (cell_panes root) = mset (map Some (pane_ids w))" and "wp \<in> set (pane_ids w)"
  obtains p lc where "pane_path wp root = Some p" "cell_at p root = Some lc" "leaf_of lc" "lc_wp lc = Some wp"
proof -
  have "Some wp \<in> set (cell_panes root)" using assms(2,3) by (metis image_eqI list.set_map set_mset_mset)
  then obtain p where p: "pane_path wp root = Some p" using pane_path_complete(1) [OF assms(1)] by blast
  then obtain lc where lc: "cell_at p root = Some lc" "lc_type lc = LAYOUT_WINDOWPANE" "lc_wp lc = Some wp"
    using pane_path_sound(1) by blast
  moreover have "leaf_of lc" using cell_at_ok [OF assms(1) lc(1), THEN cell_ok_iff [THEN iffD1]] lc(2) by (simp add: leaf_of_def)
  ultimately show ?thesis using that p by blast
qed

text \<open>Resizing in one direction, also when the tree and the window have different sizes.\<close>

lemma resize_direction_kept:
  assumes ok: "cell_ok lc" and d: "is_direction d" and b: "new \<le> CELL_MAX" "old \<le> CELL_MAX" "len d lc + new \<le> CELL_MAX + old"
  shows "returns (resize_direction d new old lc) (\<lambda>lc'. cell_ok lc' \<and> cell_panes lc' = cell_panes lc \<and> cross d lc' = cross d lc)"
proof -
  have bounds: "len d lc \<le> CELL_MAX" "check d lc < len d lc" using cell_ok_len [OF ok, of d] check_less_len [OF ok d] by auto
  have to_int_diff: "to_int (u_sub a c) = int a - int c" if "a \<le> CELL_MAX" "c \<le> CELL_MAX" for a c
    using that by (cases "c \<le> a") (auto simp: to_int_def u_sub_wrap)
  have limit: "to_int (check d lc) = int (check d lc)" using bounds by (simp add: to_int_def)
  have small: "to_int (new - len d lc) = int (new - len d lc)" using b(1) by (simp add: to_int_def)
  let ?k = "resize_change lc d new old (len d lc)"
  have size: "(if d = LAYOUT_LEFTRIGHT then lc_sx lc else lc_sy lc) = len d lc" by (simp add: len_def)
  have "adjustable d ?k lc"
    using ok bounds b small by (auto simp: adjustable_def resize_change_def Let_def to_int_diff limit)
  from layout_resize_adjust_ok [OF d this] obtain lc' where
    adjust: "layout_resize_adjust lc d ?k = Some lc'" "adjusted d ?k lc lc'" unfolding returns_eq by blast
  have "cell_ok lc' \<and> cell_panes lc' = cell_panes lc \<and> cross d lc' = cross d lc"
    using adjust(2) by (simp add: adjusted_def alike_def)
  then show ?thesis using ok adjust(1) by (simp add: resize_direction_def size Let_def)
qed

lemma layout_resize_kept:
  assumes w: "window_ok w" and g: "layout_guard w (L_resize sx sy)"
  shows "returns (layout_resize w sx sy) window_ok"
proof -
  obtain root where root: "lw_root w = Some root" "cell_ok root" "mset (cell_panes root) = mset (map Some (pane_ids w))"
    using w by (rule window_okE)
  have b: "sx \<le> CELL_MAX" "sy \<le> CELL_MAX" "lw_sx w \<le> CELL_MAX" "lw_sy w \<le> CELL_MAX"
    "lc_sx root + sx \<le> CELL_MAX + lw_sx w" "lc_sy root + sy \<le> CELL_MAX + lw_sy w"
    using g root(1) by (simp_all add: layout_guard_def)
  obtain lc1 where 1: "resize_direction LAYOUT_LEFTRIGHT sx (lw_sx w) root = Some lc1" "cell_ok lc1"
    "cell_panes lc1 = cell_panes root" "lc_sy lc1 = lc_sy root"
    using resize_direction_kept [OF root(2), of LAYOUT_LEFTRIGHT sx "lw_sx w"] b
    unfolding returns_eq by (auto simp: len_def cross_def)
  obtain lc2 where 2: "resize_direction LAYOUT_TOPBOTTOM sy (lw_sy w) lc1 = Some lc2" "cell_ok lc2"
    "cell_panes lc2 = cell_panes root"
    using resize_direction_kept [OF 1(2), of LAYOUT_TOPBOTTOM sy "lw_sy w"] b 1(3,4)
    unfolding returns_eq by (auto simp: len_def cross_def)
  have "window_ok (layout_fix_panes (w\<lparr>lw_root := Some (layout_fix_offsets lc2)\<rparr>) sx sy)"
    by (rule window_ok_root [OF w]) (use root 2 fix_offsets_ok in auto)
  then show ?thesis using root(1) 1(1) 2(1) by (simp add: layout_resize_def)
qed

lemma layout_resize_pane_kept:
  assumes w: "window_ok w" and g: "layout_guard w (L_resize_pane wp d change)"
  shows "returns (layout_resize_pane wp d change w) window_ok"
proof -
  obtain root where root: "lw_root w = Some root" "cell_ok root" "mset (cell_panes root) = mset (map Some (pane_ids w))"
    using w by (rule window_okE)
  have g': "wp \<in> set (pane_ids w)" "is_direction d" "\<bar>change\<bar> < 2147483648" using g by (simp_all add: layout_guard_def)
  obtain p lc where p: "pane_path wp root = Some p" "cell_at p root = Some lc" using pane_in_tree [OF root(2,3) g'(1)] .
  show ?thesis
  proof (cases "resize_target d root p")
    case None
    then show ?thesis using w root(1) p(1) by (simp add: layout_resize_pane_def)
  next
    case (Some q)
    obtain parent r where q: "q \<noteq> []" "cell_at (butlast q) root = Some parent" "lc_type parent = d" "p = q @ r"
      using resize_target_sound [OF Some] by blast
    have "cell_at q root \<noteq> None" using p(2) q(4) by (auto simp: cell_at_append bind_Some_iff)
    from resize_cells_ok [OF root(2) g'(2) q(1) this q(2,3), of change] g'(3) obtain root' where
      r: "resize_cells d q change root = Some root'" "cell_ok root'" "cell_panes root' = cell_panes root"
      unfolding returns_eq by auto
    have "window_ok (layout_fix_panes (w\<lparr>lw_root := Some (layout_fix_offsets root')\<rparr>) (lw_sx w) (lw_sy w))"
      by (rule window_ok_root [OF w]) (use root r fix_offsets_ok in auto)
    then show ?thesis using root(1) p(1) Some r(1) by (simp add: layout_resize_pane_def)
  qed
qed

text \<open>Adding and removing panes.\<close>

lemma index_of_mem: "x \<in> set xs \<Longrightarrow> \<exists>i. index_of x xs = Some i \<and> i < length xs \<and> xs ! i = x"
proof (induction xs)
  case (Cons y ys)
  then show ?case by (cases "x = y") (auto intro: exI [of _ 0])
qed simp

lemma tailq_mem:
  "tailq_prev xs x = Some y \<Longrightarrow> y \<in> set xs" "tailq_next xs x = Some y \<Longrightarrow> y \<in> set xs"
proof -
  have "i < length xs" if "index_of x xs = Some i" for i
    using that by (induction xs arbitrary: i) (auto split: if_splits)
  then show "tailq_prev xs x = Some y \<Longrightarrow> y \<in> set xs" "tailq_next xs x = Some y \<Longrightarrow> y \<in> set xs"
    by (force simp: tailq_prev_def tailq_next_def bind_Some_iff split: if_splits)+
qed

lemma tailq_neighbour:
  assumes "x \<in> set xs" and "distinct xs" and "1 < length xs" and "tailq_prev xs x = None"
  shows "\<exists>y. tailq_next xs x = Some y \<and> y \<noteq> x"
proof -
  obtain i where i: "index_of x xs = Some i" "i < length xs" "xs ! i = x" using index_of_mem [OF assms(1)] by blast
  then have "i = 0" using assms(4) by (simp add: tailq_prev_def split: if_splits)
  then show ?thesis using i assms(2,3) by (auto simp: tailq_next_def nth_eq_iff_index_eq)
qed

lemma tailq_prev_other: "x \<in> set xs \<Longrightarrow> distinct xs \<Longrightarrow> tailq_prev xs x = Some y \<Longrightarrow> y \<noteq> x"
  using index_of_mem [of x xs] by (auto simp: tailq_prev_def nth_eq_iff_index_eq split: if_splits)

lemma window_add_pane_ok:
  assumes "lw_active w = Some a" and "a \<in> set (pane_ids w)"
  obtains w' where "window_add_pane w new = Some w'" "mset (pane_ids w') = add_mset new (mset (pane_ids w))"
    "lw_root w' = lw_root w" "lw_active w' = lw_active w" "lw_last w' = lw_last w" "lw_sx w' = lw_sx w" "lw_sy w' = lw_sy w"
proof -
  obtain i where i: "index_of a (pane_ids w) = Some i" "i < length (pane_ids w)" using index_of_mem [OF assms(2)] by blast
  let ?p = "\<lparr>lp_id = new, lp_xoff = 0, lp_yoff = 0, lp_sx = lw_sx w, lp_sy = lw_sy w\<rparr>"
  let ?w = "w\<lparr>lw_panes := take (Suc i) (lw_panes w) @ ?p # drop (Suc i) (lw_panes w)\<rparr>"
  have "lw_panes w \<noteq> []" using i(2) by (auto simp: pane_ids_def)
  then have "window_add_pane w new = Some ?w" using assms(1) i(1) by (simp add: window_add_pane_def Let_def)
  moreover have "mset (pane_ids ?w) = add_mset new (mset (pane_ids w))"
  proof -
    have "mset (map lp_id (lw_panes w)) = mset (map lp_id (take (Suc i) (lw_panes w))) + mset (map lp_id (drop (Suc i) (lw_panes w)))"
      by (metis append_take_drop_id map_append mset_append)
    then show ?thesis by (simp add: pane_ids_def)
  qed
  ultimately show ?thesis using that by simp
qed

lemma layout_split_kept:
  assumes w: "window_ok w" and g: "layout_guard w (L_split wp d hint before new)"
  shows "returns (layout_run (L_split wp d hint before new) w) window_ok"
proof -
  obtain root where root: "lw_root w = Some root" "cell_ok root" "mset (cell_panes root) = mset (map Some (pane_ids w))"
    using w by (rule window_okE)
  have g': "wp \<in> set (pane_ids w)" "is_direction d" "new \<notin> set (pane_ids w)" using g by (simp_all add: layout_guard_def)
  obtain p lc where p: "pane_path wp root = Some p" "cell_at p root = Some lc" using pane_in_tree [OF root(2,3) g'(1)] .
  from layout_split_pane_ok [OF root(2) p g'(2), of hint before] show ?thesis
  proof (elim disjE exE conjE)
    assume "layout_split_pane wp d hint before root = Some None"
    then show ?thesis using w root(1) by simp
  next
    fix root' q c
    assume r: "layout_split_pane wp d hint before root = Some (Some (root', q))" "cell_ok root'" "cell_at q root' = Some c"
      "leaf_of c" "lc_wp c = None" "mset (cell_panes root') = add_mset None (mset (cell_panes root))"
    obtain a where a: "lw_active w = Some a" "a \<in> set (pane_ids w)" using w by (auto simp: window_ok_def)
    obtain w1 where w1: "window_add_pane (w\<lparr>lw_root := Some root'\<rparr>) new = Some w1"
      "mset (pane_ids w1) = add_mset new (mset (pane_ids w))" "lw_root w1 = Some root'" "lw_active w1 = lw_active w"
      "lw_last w1 = lw_last w"
      using window_add_pane_ok [of "w\<lparr>lw_root := Some root'\<rparr>" a new] a by auto
    have leaf: "cell_ok (layout_make_leaf c new)"
      using cell_at_ok [OF r(2,3)] r(4) by (simp add: leaf_ok leaf_of_def)
    let ?root = "cell_put q (layout_make_leaf c new) root'"
    have ok: "cell_ok ?root" using cell_put_ok [OF r(2,3) leaf] by simp
    obtain pre post where put: "cell_panes root' = pre @ cell_panes c @ post"
      "cell_panes ?root = pre @ cell_panes (layout_make_leaf c new) @ post" using cell_put_panes [OF r(2,3)] by blast
    have one: "cell_panes (layout_make_leaf c new) = [Some new]" by (simp add: cell_panes_eq)
    have "add_mset None (mset (cell_panes root)) = add_mset None (mset pre + mset post)"
      using r(6) put(1) panes_leaf [OF r(4)] r(5) by simp
    then have "mset (cell_panes ?root) = add_mset (Some new) (mset (cell_panes root))" using put(2) one by simp
    then have panes: "mset (cell_panes ?root) = mset (map Some (pane_ids w1))" using root(3) w1(2) by simp
    have ids: "set (pane_ids w1) = insert new (set (pane_ids w))" using w1(2) by (metis set_mset_add_mset_insert set_mset_mset)
    have "distinct (pane_ids w1)"
    proof -
      have "distinct (pane_ids w)" using w by (simp add: window_ok_def)
      then have "distinct (new # pane_ids w)" using g'(3) by simp
      moreover have "mset (new # pane_ids w) = mset (pane_ids w1)" using w1(2) by simp
      ultimately show ?thesis by (metis mset_eq_imp_distinct_iff)
    qed
    then have "window_ok (layout_fix_panes (w1\<lparr>lw_root := Some ?root\<rparr>) (lw_sx w1) (lw_sy w1))"
      using ok panes ids w1(4,5) w by (auto simp: window_ok_def)
    then show ?thesis using root(1) r(1,3) w1(1,3) by (simp add: layout_assign_pane_def)
  qed
qed

lemma window_remove_pane_ids: "pane_ids (window_remove_pane w wp) = filter (\<lambda>i. i \<noteq> wp) (pane_ids w)"
  by (simp add: window_remove_pane_def pane_ids_def Let_def filter_map comp_def)

lemma window_remove_pane_root [simp]: "lw_root (window_remove_pane w wp) = lw_root w"
  by (simp add: window_remove_pane_def Let_def)

lemma window_remove_active:
  assumes "distinct (pane_ids w)" and "lw_active w = Some a" "a \<in> set (pane_ids w)"
    and "\<forall>l. lw_last w = Some l \<longrightarrow> l \<in> set (pane_ids w) \<and> l \<noteq> a"
    and "wp \<in> set (pane_ids w)" "1 < length (pane_ids w)"
  shows "\<exists>b. lw_active (window_remove_pane w wp) = Some b \<and> b \<in> set (pane_ids w) \<and> b \<noteq> wp"
    "\<forall>l. lw_last (window_remove_pane w wp) = Some l \<longrightarrow>
       l \<in> set (pane_ids w) \<and> l \<noteq> wp \<and> lw_active (window_remove_pane w wp) \<noteq> Some l"
proof -
  let ?prev = "tailq_prev (pane_ids w) wp" and ?next = "tailq_next (pane_ids w) wp"
  show "\<forall>l. lw_last (window_remove_pane w wp) = Some l \<longrightarrow>
      l \<in> set (pane_ids w) \<and> l \<noteq> wp \<and> lw_active (window_remove_pane w wp) \<noteq> Some l"
    using assms(2,4) by (auto simp: window_remove_pane_def Let_def)
  show "\<exists>b. lw_active (window_remove_pane w wp) = Some b \<and> b \<in> set (pane_ids w) \<and> b \<noteq> wp"
  proof (cases "a = wp")
    case False
    then show ?thesis using assms(2,3) by (auto simp: window_remove_pane_def Let_def)
  next
    case True
    show ?thesis
    proof (cases "lw_last w")
      case (Some l)
      then show ?thesis using assms(2,4) True by (simp add: window_remove_pane_def)
    next
      case None
      show ?thesis
      proof (cases ?prev)
        case (Some b)
        then show ?thesis using None True assms(2) tailq_mem(1) [OF Some] tailq_prev_other [OF assms(5,1) Some]
          by (simp add: window_remove_pane_def)
      next
        case none: None
        obtain b where b: "?next = Some b" "b \<noteq> wp" using tailq_neighbour [OF assms(5,1,6) none] by blast
        then show ?thesis using None none True assms(2) tailq_mem(2) [OF b(1)] by (simp add: window_remove_pane_def)
      qed
    qed
  qed
qed

lemma layout_close_kept:
  assumes w: "window_ok w" and g: "layout_guard w (L_close wp)"
  shows "returns (layout_run (L_close wp) w) window_ok"
proof -
  obtain root where root: "lw_root w = Some root" "cell_ok root" "mset (cell_panes root) = mset (map Some (pane_ids w))"
    using w by (rule window_okE)
  have g': "wp \<in> set (pane_ids w)" "1 < length (pane_ids w)" using g by (simp_all add: layout_guard_def pane_ids_def)
  obtain p lc where p: "pane_path wp root = Some p" "cell_at p root = Some lc" "leaf_of lc" "lc_wp lc = Some wp"
    using pane_in_tree [OF root(2,3) g'(1)] .
  have "p \<noteq> []"
  proof
    assume "p = []"
    then have "cell_panes root = [Some wp]" using p by (simp add: panes_leaf)
    then show False using root(3) g'(2) by (metis length_map length_Cons list.size(3) less_numeral_extra(4) size_mset One_nat_def)
  qed
  from layout_destroy_cell_ok [OF root(2) this p(2), of "Some wp"] p(3,4) obtain root' pre post where
    r: "layout_destroy_cell p root = Some (Some root')" "cell_ok root'" "cell_panes root = pre @ [Some wp] @ post"
      "cell_panes root' = pre @ post" using panes_leaf by metis
  let ?w = "layout_fix_panes (w\<lparr>lw_root := Some (layout_fix_offsets root')\<rparr>) (lw_sx w) (lw_sy w)"
  have dist: "distinct (pane_ids w)" using w by (simp add: window_ok_def)
  have "mset (map Some (pane_ids w)) = add_mset (Some wp) (mset (pre @ post))" using root(3) r(3) by simp
  then have "mset (pre @ post) = mset (map Some (pane_ids w)) - {#Some wp#}" by simp
  also have "\<dots> = mset (map Some (filter (\<lambda>i. i \<noteq> wp) (pane_ids w)))"
  proof -
    have "mset (remove1 wp (pane_ids w)) = mset (filter (\<lambda>i. i \<noteq> wp) (pane_ids w))"
      using dist by (simp add: distinct_remove1_removeAll removeAll_filter_not_eq eq_commute)
    then have "mset (map Some (filter (\<lambda>i. i \<noteq> wp) (pane_ids w))) = image_mset Some (mset (pane_ids w) - {#wp#})" by simp
    also have "\<dots> = mset (map Some (pane_ids w)) - {#Some wp#}" using g'(1) by (simp add: image_mset_Diff)
    finally show ?thesis by simp
  qed
  finally have panes: "mset (pre @ post) = mset (map Some (filter (\<lambda>i. i \<noteq> wp) (pane_ids w)))" .
  obtain a where a: "lw_active w = Some a" "a \<in> set (pane_ids w)" using w by (auto simp: window_ok_def)
  have last: "\<forall>l. lw_last w = Some l \<longrightarrow> l \<in> set (pane_ids w) \<and> l \<noteq> a" using w a by (auto simp: window_ok_def)
  note active = window_remove_active [of ?w a wp, simplified, OF dist a last g'(1)] g'(2)
  have "window_ok (window_remove_pane ?w wp)"
    unfolding window_ok_def window_remove_pane_ids window_remove_pane_root
  proof (intro conjI)
    show "\<exists>root. lw_root ?w = Some root \<and> cell_ok root \<and> mset (cell_panes root) = mset (map Some (filter (\<lambda>i. i \<noteq> wp) (pane_ids ?w)))"
      using r(2,4) panes fix_offsets_ok by simp
    show "distinct (filter (\<lambda>i. i \<noteq> wp) (pane_ids ?w))" using dist by simp
    show "\<exists>a. lw_active (window_remove_pane ?w wp) = Some a \<and> a \<in> set (filter (\<lambda>i. i \<noteq> wp) (pane_ids ?w))"
      using active by auto
    show "\<forall>l. lw_last (window_remove_pane ?w wp) = Some l \<longrightarrow>
        l \<in> set (filter (\<lambda>i. i \<noteq> wp) (pane_ids ?w)) \<and> lw_active (window_remove_pane ?w wp) \<noteq> Some l"
      using active by auto
  qed
  then show ?thesis using root(1) p(1) r(1) by (simp add: layout_close_pane_def)
qed

lemma layout_active_kept:
  assumes w: "window_ok w" and g: "layout_guard w (L_active wp)"
  shows "returns (layout_run (L_active wp) w) window_ok"
proof (cases "lw_active w = Some wp")
  case True
  then show ?thesis using w by (simp add: window_set_active_pane_def)
next
  case False
  obtain p where p: "find_pane w wp = Some p" "window_pane_visible w p" using g by (auto simp: layout_guard_def)
  have "p \<in> set (lw_panes w)" "lp_id p = wp" using p(1) by (auto simp: find_pane_def find_Some_iff)
  then have "wp \<in> set (pane_ids w)" by (auto simp: pane_ids_def)
  then have "window_ok (w\<lparr>lw_last := lw_active w, lw_active := Some wp\<rparr>)" using w False by (auto simp: window_ok_def)
  then show ?thesis using False p by (simp add: window_set_active_pane_def active_loop.simps)
qed

section \<open>Every sequence of steps\<close>

lemma layout_run_kept: "window_ok w \<Longrightarrow> layout_guard w op \<Longrightarrow> returns (layout_run op w) window_ok"
proof (cases op)
  case (L_resize sx sy)
  assume *: "window_ok w" "layout_guard w op"
  have "window_ok w \<Longrightarrow> window_ok (window_resize w sx sy)" for w by (simp add: window_ok_def window_resize_def)
  then show ?thesis using layout_resize_kept [of w sx sy] * L_resize by (auto simp: returns_eq)
qed (use layout_resize_pane_kept layout_split_kept layout_close_kept layout_active_kept in auto)

interpretation layout: guarded_machine window_ok layout_guard layout_run
  by unfold_locales (rule layout_run_kept)

end
