(* ===== verification/Layout_Correct.thy ===== *)
theory Layout_Correct
  imports Layout_Steps
begin

text \<open>
  The properties of the layout code: adjusting a cell ends and does what it is asked for, splitting fails
  exactly when there is no space, the panes never overlap, and no sequence of layout operations dies or
  loses a pane. The last lemma shows what an invisible pane does to \<open>window_set_active_pane\<close>.
\<close>

section \<open>Leaves and panes\<close>

lemma cell_at_leaves:
  "cell_ok root \<Longrightarrow> cell_at p root = Some c \<Longrightarrow> lc_type c = LAYOUT_WINDOWPANE \<Longrightarrow> lc_cells c = [] \<Longrightarrow> c \<in> set (cell_leaves root)"
proof (induction p arbitrary: root)
  case Nil
  then show ?case by (cases c) simp
next
  case (Cons i p)
  from Cons.prems(2) have i: "i < length (lc_cells root)" "cell_at p (lc_cells root ! i) = Some c" by (auto split: if_splits)
  then have "c \<in> set (cell_leaves (lc_cells root ! i))"
    using Cons.IH [OF _ i(2) Cons.prems(3,4)] cell_ok_child(1) [OF Cons.prems(1) i(1)] by blast
  moreover have "lc_type root \<noteq> LAYOUT_WINDOWPANE" using cell_ok_child(2) [OF Cons.prems(1) i(1)] .
  ultimately show ?case using i(1) by (cases root) (auto intro!: nth_mem bexI [of _ "lc_cells root ! i"])
qed

lemma sorted_wrt_pair:
  assumes "sorted_wrt P xs" and "x \<in> set xs" "y \<in> set xs" and "x \<noteq> y"
  shows "P x y \<or> P y x"
proof -
  obtain i j where "i < length xs" "xs ! i = x" "j < length xs" "xs ! j = y" using assms(2,3) by (auto simp: in_set_conv_nth)
  then show ?thesis using sorted_wrt_nth_less [OF assms(1), of i j] sorted_wrt_nth_less [OF assms(1), of j i] assms(4)
    by (cases i j rule: linorder_cases) auto
qed

lemma layout_crop_le:
  assumes "0 < csize" and "off + csize < UINT_MOD" and "0 < minimum"
  shows "0 < layout_crop minimum off csize wsize" "layout_crop minimum off csize wsize \<le> csize"
proof -
  have "u_sub wsize off = wsize - off" if "off < wsize" "wsize \<le> off + csize" using that assms(2) by simp
  then show "0 < layout_crop minimum off csize wsize" "layout_crop minimum off csize wsize \<le> csize"
    using assms by (auto simp: layout_crop_def u_add_def not_less not_le)
qed

text \<open>The leaf of a pane and what \<open>layout_fix_panes\<close> makes of the pane.\<close>

lemma fix_pane_leaf:
  assumes ok: "cell_ok root" and panes: "mset (cell_panes root) = mset (map Some ids)" and p: "lp_id p \<in> set ids"
  obtains c where "c \<in> set (cell_leaves root)" "lc_wp c = Some (lp_id p)" "cell_ok c"
    "layout_fix_pane (Some root) sx sy p = p\<lparr>lp_xoff := lc_xoff c, lp_yoff := lc_yoff c,
       lp_sx := layout_crop 1 (lc_xoff c) (lc_sx c) sx, lp_sy := layout_crop 2 (lc_yoff c) (lc_sy c) sy\<rparr>"
proof -
  have "Some (lp_id p) \<in> set (cell_panes root)" using panes p by (metis image_eqI list.set_map set_mset_mset)
  then obtain q where q: "pane_path (lp_id p) root = Some q" using pane_path_complete(1) [OF ok] by blast
  then obtain c where c: "cell_at q root = Some c" "lc_type c = LAYOUT_WINDOWPANE" "lc_wp c = Some (lp_id p)"
    using pane_path_sound(1) by blast
  have cok: "cell_ok c" using cell_at_ok [OF ok c(1)] .
  then have "lc_cells c = []" using c(2) cell_ok_iff [THEN iffD1, OF cok] by simp
  then have "c \<in> set (cell_leaves root)" using cell_at_leaves [OF ok c(1,2)] by blast
  moreover have "layout_fix_pane (Some root) sx sy p = p\<lparr>lp_xoff := lc_xoff c, lp_yoff := lc_yoff c,
       lp_sx := layout_crop 1 (lc_xoff c) (lc_sx c) sx, lp_sy := layout_crop 2 (lc_yoff c) (lc_sy c) sy\<rparr>"
    using q c(1) by (simp add: layout_fix_pane_def pane_cell_def)
  ultimately show ?thesis using that c(3) cok by blast
qed

definition pane_apart :: "layout_pane \<Rightarrow> layout_pane \<Rightarrow> bool" where
  "pane_apart p q \<longleftrightarrow> lp_xoff p + lp_sx p < lp_xoff q \<or> lp_yoff p + lp_sy p < lp_yoff q \<or>
     lp_xoff q + lp_sx q < lp_xoff p \<or> lp_yoff q + lp_sy q < lp_yoff p"

definition pane_within :: "u_int \<Rightarrow> u_int \<Rightarrow> u_int \<Rightarrow> u_int \<Rightarrow> layout_pane \<Rightarrow> bool" where
  "pane_within x y sx sy p \<longleftrightarrow> 0 < lp_sx p \<and> 0 < lp_sy p \<and> x \<le> lp_xoff p \<and> lp_xoff p + lp_sx p \<le> x + sx \<and>
     y \<le> lp_yoff p \<and> lp_yoff p + lp_sy p \<le> y + sy"

section \<open>Properties\<close>

text \<open>
  C6. \<open>layout_resize_adjust\<close> ends, although its loop runs until the change is used up: for every well-formed
  cell, a growth within the size limit or a shrinking by at most what \<open>layout_resize_check\<close> found, the result
  is a well-formed cell changed by exactly that much, with the same size in the other direction and the same
  panes in the same order.
\<close>

theorem layout_resize_adjust_total:
  assumes "cell_ok lc" and "is_direction d"
    and "int (len d lc) + change \<le> int CELL_MAX" and "- change \<le> int (layout_resize_check lc d)"
  shows "\<exists>lc'. layout_resize_adjust lc d change = Some lc' \<and> cell_ok lc' \<and> int (len d lc') = int (len d lc) + change \<and>
    cross d lc' = cross d lc \<and> cell_panes lc' = cell_panes lc \<and>
    (change \<le> 0 \<longrightarrow> int (layout_resize_check lc' d) = int (layout_resize_check lc d) + change)"
proof -
  have "adjustable d change lc" using assms by (simp add: adjustable_def)
  from layout_resize_adjust_ok [OF assms(2) this] show ?thesis by (auto simp: returns_eq adjusted_def alike_def)
qed

definition example_root :: layout_cell where
  "example_root = Layout_Cell LAYOUT_LEFTRIGHT 80 24 0 0 None
     [Layout_Cell LAYOUT_WINDOWPANE 40 24 0 0 (Some 1) [],
      Layout_Cell LAYOUT_TOPBOTTOM 39 24 41 0 None
        [Layout_Cell LAYOUT_WINDOWPANE 39 12 41 0 (Some 2) [], Layout_Cell LAYOUT_WINDOWPANE 39 11 41 13 (Some 3) []]]"

lemma example_root_ok: "cell_ok example_root"
  by (simp add: example_root_def len_def cross_def)

theorem layout_resize_adjust_total_witness:
  "\<exists>lc'. layout_resize_adjust example_root LAYOUT_LEFTRIGHT (- 75) = Some lc' \<and> cell_ok lc' \<and> lc_sx lc' = 5 \<and>
     cell_panes lc' = [Some 1, Some 2, Some 3]"
proof -
  have 1: "int (len LAYOUT_LEFTRIGHT example_root) + - 75 \<le> int CELL_MAX"
    by (simp add: example_root_def len_def)
  have 2: "- (- 75) \<le> int (layout_resize_check example_root LAYOUT_LEFTRIGHT)"
    by (simp add: example_root_def PANE_MINIMUM_def Let_def u_add_def UINT_MAX_def)
  have 3: "len LAYOUT_LEFTRIGHT example_root = 80" "cell_panes example_root = [Some 1, Some 2, Some 3]"
    by (simp_all add: example_root_def len_def)
  from layout_resize_adjust_total [OF example_root_ok _ 1 2] show ?thesis
    using 3 by (auto simp: len_def)
qed



text \<open>
  C13. After \<open>layout_fix_offsets\<close> and \<open>layout_fix_panes\<close> every pane of the window has at least one column and
  one row, lies inside the area of the root cell, and is separated from every other pane by at least one
  column or row.
\<close>

theorem layout_panes_apart:
  assumes w: "window_ok w" and root: "lw_root w = Some root"
    and b: "lc_xoff root + lc_sx root < UINT_MOD" "lc_yoff root + lc_sy root < UINT_MOD"
  shows "\<forall>p \<in> set (lw_panes (layout_fix_panes (w\<lparr>lw_root := Some (layout_fix_offsets root)\<rparr>) sx sy)).
      pane_within (lc_xoff root) (lc_yoff root) (lc_sx root) (lc_sy root) p \<and>
      (\<forall>q \<in> set (lw_panes (layout_fix_panes (w\<lparr>lw_root := Some (layout_fix_offsets root)\<rparr>) sx sy)).
         lp_id p \<noteq> lp_id q \<longrightarrow> pane_apart p q)"
proof -
  let ?root = "layout_fix_offsets root"
  have ok: "cell_ok root" and ids: "mset (cell_panes root) = mset (map Some (pane_ids w))"
    using window_okE [OF w] root by fastforce+
  have ok': "cell_ok ?root" and ids': "mset (cell_panes ?root) = mset (map Some (pane_ids w))"
    using fix_offsets_ok [of root] ok ids by simp_all
  have geo: "\<forall>c \<in> set (cell_leaves ?root). inside (lc_xoff root) (lc_yoff root) (lc_sx root) (lc_sy root) c"
      "sorted_wrt apart (cell_leaves ?root)"
    using fix_geometry(1) [OF ok b] by (simp_all add: layout_fix_offsets_def)
  have leaf: "\<exists>c. c \<in> set (cell_leaves ?root) \<and> lc_wp c = Some (lp_id p') \<and> 0 < lp_sx p' \<and> lp_sx p' \<le> lc_sx c \<and> 0 < lp_sy p' \<and>
      lp_sy p' \<le> lc_sy c \<and> lp_xoff p' = lc_xoff c \<and> lp_yoff p' = lc_yoff c"
    if "p' \<in> set (lw_panes (layout_fix_panes (w\<lparr>lw_root := Some ?root\<rparr>) sx sy))" for p'
  proof -
    from that obtain p where p: "p \<in> set (lw_panes w)" "p' = layout_fix_pane (Some ?root) sx sy p"
      by (auto simp: layout_fix_panes_def)
    then have "lp_id p \<in> set (pane_ids w)" by (simp add: pane_ids_def)
    from fix_pane_leaf [OF ok' ids' this, of sx sy] obtain c where c: "c \<in> set (cell_leaves ?root)" "lc_wp c = Some (lp_id p)"
      "cell_ok c" "p' = p\<lparr>lp_xoff := lc_xoff c, lp_yoff := lc_yoff c,
       lp_sx := layout_crop 1 (lc_xoff c) (lc_sx c) sx, lp_sy := layout_crop 2 (lc_yoff c) (lc_sy c) sy\<rparr>"
      using p(2) by metis
    have sz: "0 < lc_sx c" "0 < lc_sy c" using c(3) [THEN cell_ok_iff [THEN iffD1]] by simp_all
    have "lc_xoff c + lc_sx c < UINT_MOD" "lc_yoff c + lc_sy c < UINT_MOD"
      using geo(1) c(1) b by (fastforce simp: inside_def)+
    with sz c show ?thesis using layout_crop_le [of "lc_sx c" "lc_xoff c" 1 sx] layout_crop_le [of "lc_sy c" "lc_yoff c" 2 sy]
      by (intro exI [of _ c]) simp
  qed
  show ?thesis
  proof (intro ballI conjI impI)
    fix p assume "p \<in> set (lw_panes (layout_fix_panes (w\<lparr>lw_root := Some ?root\<rparr>) sx sy))"
    from leaf [OF this] obtain c where c: "c \<in> set (cell_leaves ?root)" "lc_wp c = Some (lp_id p)" "0 < lp_sx p"
      "lp_sx p \<le> lc_sx c" "0 < lp_sy p" "lp_sy p \<le> lc_sy c" "lp_xoff p = lc_xoff c" "lp_yoff p = lc_yoff c" by blast
    then show "pane_within (lc_xoff root) (lc_yoff root) (lc_sx root) (lc_sy root) p"
      using geo(1) by (fastforce simp: pane_within_def inside_def)
    fix q assume "q \<in> set (lw_panes (layout_fix_panes (w\<lparr>lw_root := Some ?root\<rparr>) sx sy))" and ne: "lp_id p \<noteq> lp_id q"
    from leaf [OF this(1)] obtain e where e: "e \<in> set (cell_leaves ?root)" "lc_wp e = Some (lp_id q)" "0 < lp_sx q"
      "lp_sx q \<le> lc_sx e" "0 < lp_sy q" "lp_sy q \<le> lc_sy e" "lp_xoff q = lc_xoff e" "lp_yoff q = lc_yoff e" by blast
    have "c \<noteq> e" using c(2) e(2) ne by auto
    from sorted_wrt_pair [OF geo(2) c(1) e(1) this] show "pane_apart p q"
      using c(3-8) e(3-8) by (auto simp: apart_def pane_apart_def)
  qed
qed

definition example_window :: layout_window where
  "example_window = \<lparr>lw_sx = 80, lw_sy = 24, lw_root = Some example_root,
     lw_panes = map (\<lambda>i. \<lparr>lp_id = i, lp_xoff = 0, lp_yoff = 0, lp_sx = 80, lp_sy = 24\<rparr>) [1, 2, 3],
     lw_active = Some 2, lw_last = Some 1, lw_lastlayout = -1, lw_options = Options Map.empty None, lw_list = [],
     lw_list_last = None\<rparr>"

lemma example_window_ok: "window_ok example_window"
  using example_root_ok by (simp add: window_ok_def example_window_def pane_ids_def example_root_def)

theorem layout_panes_apart_witness:
  "\<exists>w. window_ok w \<and> length (lw_panes w) = 3 \<and> (\<forall>p \<in> set (lw_panes w). pane_within 0 0 80 24 p)"
proof (intro exI conjI)
  let ?w = "layout_fix_panes (example_window\<lparr>lw_root := Some (layout_fix_offsets example_root)\<rparr>) 80 24"
  have root: "lw_root example_window = Some example_root" by (simp add: example_window_def)
  show "window_ok ?w" by (rule window_ok_root [OF example_window_ok]) (use fix_offsets_ok example_root_ok root in auto)
  show "length (lw_panes ?w) = 3" by (simp add: layout_fix_panes_def example_window_def)
  show "\<forall>p \<in> set (lw_panes ?w). pane_within 0 0 80 24 p"
    using layout_panes_apart [OF example_window_ok root, of 80 24] by (simp add: example_root_def)
qed

text \<open>
  C4. From a window whose layout is well formed and holds exactly its panes, no sequence of window resizes,
  pane resizes, splits, closings and changes of the active pane, each under the conditions its callers
  check, dies or runs forever; afterwards the layout is well formed, holds exactly the panes of the window,
  and the active and the last active pane are two different panes of the window.
\<close>

theorem layout_steps_safe:
  assumes "window_ok w" and "guarded_run layout_run layout_guard ops w"
  shows "\<exists>w'. run_all layout_run ops w = Some w' \<and> window_ok w'"
  using layout.run_all_ok [OF assms] by (simp add: returns_eq)

lemma close_pane_ids: "layout_run (L_close wp) w = Some w' \<Longrightarrow> pane_ids w' = filter (\<lambda>i. i \<noteq> wp) (pane_ids w)"
  by (auto simp: layout_close_pane_def window_remove_pane_ids bind_Some_iff split: option.splits)

theorem layout_steps_safe_witness:
  "\<exists>w'. run_all layout_run [L_close 3, L_close 2] example_window = Some w' \<and> window_ok w'"
proof (rule layout_steps_safe [OF example_window_ok])
  have ids: "pane_ids example_window = [1, 2, 3]" by (simp add: pane_ids_def example_window_def)
  have guard: "layout_guard w (L_close wp)" if "wp \<in> set (pane_ids w)" "1 < length (pane_ids w)" for w wp
    using that by (simp add: layout_guard_def pane_ids_def)
  have "layout_guard t (L_close 2)" if "layout_run (L_close 3) example_window = Some t" for t
    by (rule guard) (simp_all add: close_pane_ids [OF that] ids)
  moreover have "layout_guard example_window (L_close 3)" by (rule guard) (simp_all add: ids)
  ultimately show "guarded_run layout_run layout_guard [L_close 3, L_close 2] example_window" by simp
qed

section \<open>Panes outside the window\<close>

text \<open>
  A layout can be larger than its window, and then panes are invisible. \<open>window_set_active_pane\<close> on such a pane
  records the active pane as the last one and then searches for a visible one, which may be the active pane
  again. When that pane is closed, \<open>window_remove_pane\<close> makes the last active pane the active one: the pane that
  is removed and freed.
\<close>

lemma window_set_active_dangling:
  assumes "lw_active w = Some a" and "pane_ids w = [a, b]" and "a \<noteq> b" and "find_pane w a = Some p" "window_pane_visible w p"
    and "find_pane w b = Some q" "\<not> window_pane_visible w q"
  shows "\<exists>w'. window_set_active_pane w b = Some w' \<and> lw_active w' = Some a \<and> lw_last w' = Some a \<and>
    lw_active (window_remove_pane w' a) = Some a \<and> a \<notin> set (pane_ids (window_remove_pane w' a))"
proof -
  have "length (lw_panes w) = 2" using assms(2) by (metis length_Cons length_map list.size(3) numeral_2_eq_2 pane_ids_def)
  moreover have "tailq_prev [a, b] b = Some a" using assms(3) by (simp add: tailq_prev_def)
  ultimately have "active_loop (length (lw_panes w)) w b b = Some a"
    using assms by (simp add: active_loop.simps [of "Suc (Suc 0)"] active_loop.simps [of "Suc 0"] numeral_2_eq_2)
  then have "window_set_active_pane w b = Some (w\<lparr>lw_last := Some a, lw_active := Some a\<rparr>)"
    using assms(1,3) by (simp add: window_set_active_pane_def)
  moreover have "lw_active (window_remove_pane (w\<lparr>lw_last := Some a, lw_active := Some a\<rparr>) a) = Some a"
    by (simp add: window_remove_pane_def)
  ultimately show ?thesis by (simp add: window_remove_pane_ids)
qed

end
