(* ===== verification/Layout_Text.thy ===== *)
theory Layout_Text
  imports Layout_Custom Layout_Correct
begin

text \<open>
  Layout strings: what \<open>layout_dump\<close> prints, \<open>layout_parse\<close> reads back; the checksum notices every changed
  character; \<open>layout_parse\<close> reads past the end of a short string.
\<close>

section \<open>The checksum\<close>

lemma checksum_rotate_inj:
  "drop_bit 1 a + push_bit 15 (Bit_Operations.and a 1) = drop_bit 1 b + push_bit 15 (Bit_Operations.and b 1) \<Longrightarrow> a = b"
  for a b :: "16 word"
proof -
  have rot: "drop_bit 1 a + push_bit 15 (Bit_Operations.and a 1) = word_rotr 1 a" for a :: "16 word"
  proof -
    have "drop_bit 1 a + push_bit 15 (Bit_Operations.and a 1) = Bit_Operations.or (drop_bit 1 a) (push_bit 15 (Bit_Operations.and a 1))"
    proof (rule disjunctive_add)
      fix n
      have "\<not> bit a (Suc n)" if "15 \<le> n" using bit_imp_le_length [of a "Suc n"] that by auto
      then show "\<not> bit (drop_bit 1 a) n \<or> \<not> bit (push_bit 15 (Bit_Operations.and a 1)) n"
        by (cases "15 \<le> n") (auto simp: bit_simps)
    qed
    also have "\<dots> = word_rotr 1 a"
    proof (rule bit_word_eqI)
      fix n assume n: "n < LENGTH(16)"
      have "\<not> bit a 16" using bit_imp_le_length [of a 16] by auto
      then have "\<not> bit a (Suc n)" if "n = 15" using that by simp
      then show "bit (Bit_Operations.or (drop_bit 1 a) (push_bit 15 (Bit_Operations.and a 1))) n = bit (word_rotr 1 a) n"
        using n by (cases "n = 15") (auto simp: bit_simps bit_word_rotr_iff)
    qed
    finally show ?thesis .
  qed
  have "word_rotl 1 (word_rotr 1 a) = a" for a :: "16 word" by (rule word_rot_rl)
  then show "drop_bit 1 a + push_bit 15 (Bit_Operations.and a 1) = drop_bit 1 b + push_bit 15 (Bit_Operations.and b 1) \<Longrightarrow> a = b"
    by (metis rot)
qed

lemma char_int: "0 \<le> (of_char c :: int) \<and> (of_char c :: int) < 256"
proof -
  have "int (of_char c) = (of_char c :: int)" by (rule of_nat_of_char)
  then show ?thesis using nat_of_char_less_256 [of c] by linarith
qed

lemma signed_char_inj: "(of_int (signed_char c) :: 16 word) = of_int (signed_char d) \<Longrightarrow> c = d"
proof -
  assume *: "(of_int (signed_char c) :: 16 word) = of_int (signed_char d)"
  have range: "- 128 \<le> signed_char c \<and> signed_char c < 128" for c
    using char_int [of c] by (auto simp: signed_char_def Let_def)
  have "signed_char c mod 65536 = signed_char d mod 65536" using * by (simp add: word_of_int_eq_iff take_bit_eq_mod)
  then have "(signed_char c + 128) mod 65536 = (signed_char d + 128) mod 65536" by (rule mod_add_cong) simp
  then have "signed_char c = signed_char d" using range [of c] range [of d] by (simp add: mod_pos_pos_trivial)
  then have "(of_char c :: int) = of_char d"
    using char_int [of c] char_int [of d] 
    by (auto simp: signed_char_def Let_def split: if_splits)
  then show "c = d" by simp
qed

lemma checksum_step_inj: "checksum_step c a = checksum_step c b \<Longrightarrow> a = b"
  unfolding checksum_step_def Let_def by (rule checksum_rotate_inj) (simp only: add_right_cancel)

lemma checksum_fold_inj: "fold checksum_step s a = fold checksum_step s b \<Longrightarrow> a = b"
  by (induction s arbitrary: a b) (auto dest: checksum_step_inj)

lemma layout_checksum_detects: "layout_checksum (a @ c # b) = layout_checksum (a @ d # b) \<longleftrightarrow> c = d"
proof
  assume "layout_checksum (a @ c # b) = layout_checksum (a @ d # b)"
  then have "checksum_step c (fold checksum_step a 0) = checksum_step d (fold checksum_step a 0)"
    by (auto simp: layout_checksum_def dest: checksum_fold_inj)
  then show "c = d" by (auto simp: checksum_step_def Let_def dest: signed_char_inj)
qed simp

section \<open>Numbers\<close>

lemma hex_digit_ok: "d < 16 \<Longrightarrow> isxdigit (hex_digit d) \<and> xdigit_value (hex_digit d) = d \<and> \<not> isspace (hex_digit d) \<and>
    hex_digit d \<notin> set ''-+xX''"
  by (auto simp: hex_digit_def isxdigit_def isdigit_def xdigit_value_def isspace_def less_eq_char_def char_of_eq_iff take_bit_nat_eq_self)

lemma hex_string_ok: "hex_string n \<noteq> [] \<and> list_all (\<lambda>c. isxdigit c \<and> \<not> isspace c \<and> c \<notin> set ''-+xX'') (hex_string n) \<and>
    hex_value (hex_string n) = n"
proof (induction n rule: hex_string.induct)
  case (1 n)
  have snoc: "hex_value (s @ [c]) = 16 * hex_value s + xdigit_value c" for s c by (simp add: hex_value_def)
  show ?case
  proof (cases "n < 16")
    case True
    then show ?thesis using hex_digit_ok [of n] by (simp add: hex_string.simps [of n] hex_value_def)
  next
    case False
    then show ?thesis using 1 hex_digit_ok [of "n mod 16"]
      by (simp add: hex_string.simps [of n] snoc)
  qed
qed

lemma hex_string_length: "n < 16 ^ k \<Longrightarrow> 0 < k \<Longrightarrow> length (hex_string n) \<le> k"
proof (induction n arbitrary: k rule: hex_string.induct)
  case (1 n)
  show ?case
  proof (cases "n < 16")
    case True
    then show ?thesis using 1(3) by (simp add: hex_string.simps [of n])
  next
    case False
    then obtain j where k: "k = Suc j" "0 < j" using 1(2,3) by (cases k; cases "k = 1") auto
    then have "n div 16 < 16 ^ j" using 1(2) by (simp add: less_mult_imp_div_less mult.commute)
    then show ?thesis using 1(1) [OF False _ k(2)] False k(1) by (simp add: hex_string.simps [of n])
  qed
qed

lemma scan_hx_hex4:
  assumes "n < 65536"
  shows "scan_hx (hex4 n @ '','' @ s) = Some (word_of_nat n)" "length (hex4 n @ '','') = 5"
proof -
  note h = hex_string_ok [of n]
  have len: "length (hex_string n) \<le> 4" using hex_string_length [of n 4] assms by simp
  then show "length (hex4 n @ '','') = 5" by (simp add: hex4_def)
  obtain c r where hs: "hex_string n = c # r" using h by (cases "hex_string n") auto
  have space: "isspace CHR '' ''" by (simp add: isspace_def)
  have "dropWhile isspace (replicate k CHR '' '' @ t) = dropWhile isspace t" for k t
    by (induction k) (simp_all add: space)
  then have drop: "dropWhile isspace (hex4 n @ '','' @ s) = hex_string n @ '','' @ s"
    using h hs by (simp add: hex4_def)
  have "\<not> isxdigit CHR '',''" by (simp add: isxdigit_def isdigit_def less_eq_char_def)
  then have take: "takeWhile isxdigit (hex_string n @ '','' @ s) = hex_string n"
    using h by (subst takeWhile_append2) (auto simp: list_all_iff)
  have two: "take 2 (hex_string n @ '','' @ s) \<noteq> ''0x''" "take 2 (hex_string n @ '','' @ s) \<noteq> ''0X''"
    using h hs by (cases r; simp add: list_all_iff)+
  have first: "hd (hex_string n @ '','' @ s) \<noteq> CHR ''-''" "hd (hex_string n @ '','' @ s) \<noteq> CHR ''+''"
    "hex_string n @ '','' @ s \<noteq> []" using h hs by auto
  show "scan_hx (hex4 n @ '','' @ s) = Some (word_of_nat n)"
    unfolding scan_hx_def Let_def drop by (simp only: first two take if_False simp_thms)
      (use h assms in \<open>simp add: ulong_of_def strtoul_limit_def\<close>)
qed

definition no_digit :: "string \<Rightarrow> bool" where
  "no_digit s \<longleftrightarrow> s = [] \<or> \<not> isdigit (hd s)"

lemma while_digits:
  assumes "list_all isdigit d" and "no_digit s"
  shows "takeWhile isdigit (d @ s) = d" "dropWhile isdigit (d @ s) = s"
  using assms by (cases s; simp add: no_digit_def list_all_iff takeWhile_append2 dropWhile_append2)+

lemma scan_u_dec: "n < UINT_MOD \<Longrightarrow> no_digit s \<Longrightarrow> scan_u (dec_string n @ s) = Some (n, s)"
  using dec_string_value [of n] while_digits [of "dec_string n" s]
  by (simp add: scan_u_def ulong_of_def strtoul_limit_def)

lemma no_digit_simps [simp]: "no_digit (CHR ''x'' # s)" "no_digit (CHR '','' # s)" "no_digit (CHR 0x7B # s)" "no_digit (CHR ''['' # s)"
  "no_digit (CHR 0x7D # s)" "no_digit (CHR '']'' # s)" "no_digit []"
  by (simp_all add: no_digit_def isdigit_def less_eq_char_def)

lemma expect_simps [simp]: "expect c (c # s) = Some s" "expect c [] = None" "c \<noteq> d \<Longrightarrow> expect c (d # s) = None"
  by (auto simp: expect_def)

section \<open>The text of a layout\<close>

fun cell_text :: "layout_cell \<Rightarrow> string" and cells_text :: "layout_cell list \<Rightarrow> string" where
  "cell_text (Layout_Cell type sx sy xoff yoff w cs) =
     cell_prefix (Layout_Cell type sx sy xoff yoff w cs) @
     (if type = LAYOUT_WINDOWPANE then []
      else [if type = LAYOUT_LEFTRIGHT then CHR 0x7B else CHR ''[''] @ cells_text cs @
        [if type = LAYOUT_LEFTRIGHT then CHR 0x7D else CHR '']''])"
| "cells_text [] = []"
| "cells_text (c # cs) = cell_text c @ (if cs = [] then [] else '','' @ cells_text cs)"

lemma append_text:
  "cell_ok lc \<Longrightarrow> layout_append sz lc buf = Some buf' \<Longrightarrow> buf' = buf @ cell_text lc"
  "\<forall>c \<in> set cs. cell_ok c \<Longrightarrow> layout_append_cells sz cs buf = Some buf' \<Longrightarrow>
   buf' = buf @ cells_text cs @ (if cs = [] then [] else '','')"
proof (induction lc and cs arbitrary: buf buf' and buf buf' rule: cell_text_cells_text.induct)
  case (1 ty sx sy xoff yoff w cs)
  note ok = 1(2) [THEN cell_ok_iff [THEN iffD1], simplified]
  show ?case
  proof (cases "ty = LAYOUT_WINDOWPANE")
    case True
    then show ?thesis using 1(3) by (auto simp: Let_def strlcat_def split: if_splits)
  next
    case False
    then have cs: "\<forall>c \<in> set cs. cell_ok c" "cs \<noteq> []" using ok by auto
    define br where "br = (if ty = LAYOUT_LEFTRIGHT then ''}{'' else '']['')"
    obtain b where b: "layout_append_cells sz cs (buf @ cell_prefix (Layout_Cell ty sx sy xoff yoff w cs) @ tl br) = Some b"
      "buf' = butlast b @ [hd br]"
      using 1(3) False by (auto simp: Let_def strlcat_def bind_Some_iff br_def split: if_splits)
    have "b = buf @ cell_prefix (Layout_Cell ty sx sy xoff yoff w cs) @ tl br @ cells_text cs @ '',''"
      using 1(1) [OF False cs(1) b(1)] cs(2) by simp
    then show ?thesis using b(2) False by (auto simp: br_def butlast_append)
  qed
next
  case (3 c cs)
  then obtain b where b: "layout_append sz c buf = Some b" "layout_append_cells sz cs (b @ '','') = Some buf'"
    by (auto simp: bind_Some_iff strlcat_def split: if_splits)
  have 1: "b = buf @ cell_text c" using 3(1) [OF _ b(1)] 3(3) by simp
  show ?case
  proof (cases "cs = []")
    case True
    then show ?thesis using 1 b(2) by simp
  next
    case False
    then have "buf' = (b @ '','') @ cells_text cs @ '',''" using 3(2) [OF False _ b(2)] 3(3) by simp
    then show ?thesis using 1 False by simp
  qed
qed simp

lemma scan_cell_prefix:
  assumes "lc_sx lc < UINT_MOD" "lc_sy lc < UINT_MOD" "lc_xoff lc < UINT_MOD" "lc_yoff lc < UINT_MOD"
    and "no_digit s" and "lc_wp lc = None \<Longrightarrow> s = [] \<or> hd s \<noteq> CHR '',''"
  shows "scan_cell (cell_prefix lc @ s) = Some (layout_set_size layout_create_cell (lc_sx lc) (lc_sy lc) (lc_xoff lc) (lc_yoff lc), s)"
proof -
  define t where "t = (case lc_wp lc of Some wp \<Rightarrow> '','' @ dec_string wp | None \<Rightarrow> []) @ s"
  have tail: "no_digit t" using assms(5) by (cases "lc_wp lc") (auto simp: t_def)
  have wp: "(case expect CHR '','' t of Some s \<Rightarrow> dropWhile isdigit s | None \<Rightarrow> t) = s"
  proof (cases "lc_wp lc")
    case None
    then show ?thesis using assms(6) by (cases s) (auto simp: t_def)
  next
    case (Some wp)
    then show ?thesis using while_digits(2) [of "dec_string wp" s] dec_string_value [of wp] assms(5) by (simp add: t_def)
  qed
  have "cell_prefix lc @ s = dec_string (lc_sx lc) @ ''x'' @ dec_string (lc_sy lc) @ '','' @ dec_string (lc_xoff lc) @ '','' @
     dec_string (lc_yoff lc) @ t" by (simp add: cell_prefix_def t_def)
  then show ?thesis using assms(1-4) tail wp by (simp add: scan_cell_def scan_u_dec)
qed

text \<open>The tree without its panes; what a layout string describes.\<close>

fun strip_panes :: "layout_cell \<Rightarrow> layout_cell" where
  "strip_panes (Layout_Cell type sx sy xoff yoff w cs) = Layout_Cell type sx sy xoff yoff None (map strip_panes cs)"

fun numbers_ok :: "layout_cell \<Rightarrow> bool" where
  "numbers_ok (Layout_Cell type sx sy xoff yoff w cs) \<longleftrightarrow>
     xoff < UINT_MOD \<and> yoff < UINT_MOD \<and> (type = LAYOUT_WINDOWPANE \<longrightarrow> w \<noteq> None) \<and> (\<forall>c \<in> set cs. numbers_ok c)"

definition cell_end :: "string \<Rightarrow> bool" where
  "cell_end s \<longleftrightarrow> s = [] \<or> hd s \<in> set '',}]''"

lemma cell_text_nonempty: "cell_text lc \<noteq> []"
  using dec_string_value by (cases lc) (simp add: cell_prefix_def)

lemma construct_text:
  "cell_ok lc \<Longrightarrow> numbers_ok lc \<Longrightarrow> length (cell_text lc) < n \<Longrightarrow> cell_end s \<Longrightarrow>
   layout_construct n (cell_text lc @ s) = Some (strip_panes lc, s)"
  "\<forall>c \<in> set cs. cell_ok c \<and> numbers_ok c \<Longrightarrow> cs \<noteq> [] \<Longrightarrow> length (cells_text cs) + 1 < n \<Longrightarrow> s \<noteq> [] \<and> hd s \<in> set ''}]'' \<Longrightarrow>
   layout_construct_cells n (cells_text cs @ s) = Some (map strip_panes cs, s)"
proof (induction lc and cs arbitrary: n s and n s rule: cell_text_cells_text.induct)
  case (1 ty sx sy xoff yoff w cs)
  let ?lc = "Layout_Cell ty sx sy xoff yoff w cs"
  note ok = 1(2) [THEN cell_ok_iff [THEN iffD1], simplified]
  have b: "lc_sx ?lc < UINT_MOD" "lc_sy ?lc < UINT_MOD" "lc_xoff ?lc < UINT_MOD" "lc_yoff ?lc < UINT_MOD"
    using ok 1(3) by auto
  obtain m where n: "n = Suc m" using 1(4) by (cases n) auto
  show ?case
  proof (cases "ty = LAYOUT_WINDOWPANE")
    case True
    have "no_digit s" using 1(5) by (auto simp: cell_end_def no_digit_def isdigit_def less_eq_char_def)
    moreover have "lc_wp ?lc \<noteq> None" using 1(3) True by simp
    ultimately have "scan_cell (cell_prefix ?lc @ s) = Some (layout_set_size layout_create_cell sx sy xoff yoff, s)"
      using scan_cell_prefix [OF b, of s] by fastforce
    moreover have "node_type s = Some LAYOUT_WINDOWPANE" using 1(5) by (simp add: cell_end_def node_type_def)
    ultimately show ?thesis using True ok n by (simp add: layout_set_size_def layout_create_cell_def)
  next
    case False
    then have cs: "\<forall>c \<in> set cs. cell_ok c \<and> numbers_ok c" "cs \<noteq> []" "w = None" using ok 1(3) by auto
    define ob where "ob = (if ty = LAYOUT_LEFTRIGHT then CHR 0x7B else CHR ''['')"
    define e where "e = (if ty = LAYOUT_LEFTRIGHT then CHR 0x7D else CHR '']'')"
    have whole: "cell_text ?lc @ s = cell_prefix ?lc @ (ob # cells_text cs @ e # s)"
      using False by (simp add: ob_def e_def)
    have "scan_cell (cell_text ?lc @ s) = Some (layout_set_size layout_create_cell sx sy xoff yoff, ob # cells_text cs @ e # s)"
      unfolding whole by (subst scan_cell_prefix [OF b]) (auto simp: ob_def)
    moreover have "node_type (ob # cells_text cs @ e # s) = Some ty"
      using False by (cases ty) (auto simp: node_type_def ob_def)
    moreover have "length (cells_text cs) + 1 < m"
    proof -
      have "length (cell_text ?lc) = length (cell_prefix ?lc) + length (cells_text cs) + 2" using False by simp
      moreover have "3 \<le> length (cell_prefix ?lc)" by (simp add: cell_prefix_def)
      ultimately show ?thesis using 1(4) n by linarith
    qed
    then have "layout_construct_cells m (cells_text cs @ (e # s)) = Some (map strip_panes cs, e # s)"
      by (rule 1(1) [OF False cs(1,2)]) (simp add: e_def)
    ultimately show ?thesis using False n cs(3) by (simp add: e_def)
  qed
next
  case 2
  then show ?case by simp
next
  case (3 c cs)
  obtain m where n: "n = Suc m" using 3(5) by (cases n) auto
  have "0 < length (cell_text c)" using cell_text_nonempty [of c] by simp
  then have len: "length (cell_text c) < m" "cs \<noteq> [] \<Longrightarrow> length (cells_text cs) + 1 < m" using 3(5) n by auto
  show ?case
  proof (cases "cs = []")
    case True
    have "cell_end s" using 3(6) by (auto simp: cell_end_def)
    then have "layout_construct m (cell_text c @ s) = Some (strip_panes c, s)" using 3(1) [of m s] 3(3) len by simp
    moreover have "expect CHR '','' s = None" using 3(6) by (auto simp: expect_def)
    ultimately show ?thesis using n True by simp
  next
    case False
    have "layout_construct m (cell_text c @ '','' @ cells_text cs @ s) = Some (strip_panes c, '','' @ cells_text cs @ s)"
      using 3(1) [of m "'','' @ cells_text cs @ s"] 3(3) len by (simp add: cell_end_def)
    moreover have "layout_construct_cells m (cells_text cs @ s) = Some (map strip_panes cs, s)"
      using 3(2) [of m s] 3(3,6) len False by simp
    ultimately show ?thesis using n False by simp
  qed
qed

section \<open>Putting the panes back\<close>

lemma assign_strip:
  "cell_ok lc \<Longrightarrow> cell_panes lc = map Some ids \<Longrightarrow> layout_assign (strip_panes lc) (ids @ rest) = Some (lc, rest)"
  "\<forall>c \<in> set cs. cell_ok c \<Longrightarrow> concat (map cell_panes cs) = map Some ids \<Longrightarrow>
   layout_assign_cells (map strip_panes cs) (ids @ rest) = Some (cs, rest)"
proof (induction lc and cs arbitrary: ids rest and ids rest rule: cell_text_cells_text.induct)
  case (1 ty sx sy xoff yoff w cs)
  note ok = 1(2) [THEN cell_ok_iff [THEN iffD1], simplified]
  show ?case
  proof (cases "ty = LAYOUT_WINDOWPANE")
    case True
    then obtain i where "w = Some i" "ids = [i]" using 1(3) by (cases ids) auto
    then show ?thesis using True ok by (simp add: layout_make_leaf_def)
  next
    case False
    then show ?thesis using 1(1) [OF False, of ids rest] 1(3) ok by simp
  qed
next
  case (3 c cs)
  from 3(4) obtain a b where "ids = a @ b" "cell_panes c = map Some a" "concat (map cell_panes cs) = map Some b"
    by (auto simp: map_eq_append_conv append_eq_map_conv)
  then show ?case using 3(1) [of a "b @ rest"] 3(2) [of b rest] 3(3) by (cases "cs = []") simp_all
qed simp

lemma count_strip:
  "cell_ok lc \<Longrightarrow> length (cell_panes lc) < UINT_MOD \<Longrightarrow> layout_count_cells (strip_panes lc) = length (cell_panes lc)"
proof (induction lc)
  case (Layout_Cell ty sx sy xoff yoff w cs)
  note ok = Layout_Cell.prems(1) [THEN cell_ok_iff [THEN iffD1], simplified]
  show ?case
  proof (cases "ty = LAYOUT_WINDOWPANE")
    case False
    have total: "length (concat (map cell_panes cs)) = sum_list (map (\<lambda>c. length (cell_panes c)) cs)" for cs
      by (induction cs) simp_all
    have b: "sum_list (map (\<lambda>c. length (cell_panes c)) cs) < UINT_MOD" using Layout_Cell.prems(2) False total [of cs] by simp
    have "layout_count_cells (strip_panes c) = length (cell_panes c)" if "c \<in> set cs" for c
      using Layout_Cell.IH [OF that] that ok False b sum_list_member [OF that, of "\<lambda>c. length (cell_panes c)"] by simp
    then have "map (layout_count_cells \<circ> strip_panes) cs = map (\<lambda>c. length (cell_panes c)) cs" by simp
    then show ?thesis using False b total [of cs] by (simp add: foldl_u_add del: map_eq_conv)
  qed simp
qed

lemma fix_offsets_again:
  "layout_fix_offsets_at x y (layout_fix_offsets_at u v lc) = layout_fix_offsets_at x y lc"
  "layout_fix_row ty x y (layout_fix_row ty u v cs) = layout_fix_row ty x y cs"
proof (induction x y lc and ty x y cs arbitrary: u v and u v rule: layout_fix_offsets_at_layout_fix_row.induct)
  case (3 ty x y c cs)
  have "lc_sx (layout_fix_offsets_at u v c) = lc_sx c \<and> lc_sy (layout_fix_offsets_at u v c) = lc_sy c" for u v
    by (cases c) simp
  then show ?case using 3 by (auto split: if_splits)
qed auto

lemma fix_offsets_idem: "layout_fix_offsets (layout_fix_offsets lc) = layout_fix_offsets lc"
proof -
  have "lc_xoff (layout_fix_offsets_at x y lc) = x \<and> lc_yoff (layout_fix_offsets_at x y lc) = y" for x y by (cases lc) simp
  then show ?thesis by (simp add: layout_fix_offsets_def fix_offsets_again(1))
qed

text \<open>A resize to the size the layout already has.\<close>

lemma resize_direction_same: "is_direction d \<Longrightarrow> resize_direction d n n lc = Some lc" if "n < UINT_MOD" "n \<le> len d lc"
  using that by (auto simp: resize_direction_def resize_change_def Let_def to_int_def len_def)

section \<open>Reading what was printed\<close>

lemma dump_text:
  assumes "cell_ok root" and "layout_dump bufsiz root = Some s"
  shows "s = (hex4 (unat (layout_checksum (cell_text root))) @ '','') @ cell_text root"
  using assms append_text(1) [OF assms(1), of bufsiz "[]"] by (auto simp: layout_dump_def bind_Some_iff)

lemma scan_dump:
  "scan_hx ((hex4 (unat (layout_checksum t)) @ '','') @ u) = Some (layout_checksum t)"
  "length (hex4 (unat (layout_checksum t)) @ '','') = 5"
proof -
  have "unat (layout_checksum t) < 65536" using unsigned_less [where ?'a = nat, of "layout_checksum t"] by simp
  from scan_hx_hex4 [OF this] show "scan_hx ((hex4 (unat (layout_checksum t)) @ '','') @ u) = Some (layout_checksum t)"
    "length (hex4 (unat (layout_checksum t)) @ '','') = 5" by simp_all
qed

lemma parse_dump:
  assumes w: "window_ok w" and root: "lw_root w = Some root"
    and numbers: "numbers_ok root" and fixed: "layout_fix_offsets root = root"
    and order: "cell_panes root = map Some (pane_ids w)" and panes: "length (lw_panes w) < UINT_MOD"
    and size: "lw_sx w = lc_sx root" "lw_sy w = lc_sy root"
    and dump: "layout_dump bufsiz root = Some s"
  shows "\<exists>w'. layout_parse w s = Some (w', True) \<and> lw_root w' = Some root \<and> pane_ids w' = pane_ids w \<and>
    lw_sx w' = lw_sx w \<and> lw_sy w' = lw_sy w"
proof -
  have ok: "cell_ok root" using window_okE [OF w] root by force
  let ?t = "cell_text root"
  note s = dump_text [OF ok dump]
  have bounds: "lc_sx root < UINT_MOD" "lc_sy root < UINT_MOD" using ok [THEN cell_ok_iff [THEN iffD1]] by auto
  have construct: "layout_construct (Suc (length ?t)) ?t = Some (strip_panes root, [])"
    using construct_text(1) [OF ok numbers, of "Suc (length ?t)" "[]"] by (simp add: cell_end_def)
  have count: "layout_count_cells (strip_panes root) = length (lw_panes w)"
    using count_strip [OF ok] order panes by (simp add: pane_ids_def)
  then have close: "close_cells (layout_count_cells (strip_panes root)) (window_count_panes w) (strip_panes root) =
      Some (Some (strip_panes root))" by (simp add: close_cells.simps window_count_panes_def)
  have strip: "lc_sx (strip_panes root) = lc_sx root" "lc_sy (strip_panes root) = lc_sy root" by (cases root; simp)+
  define w1 where "w1 = window_resize w (lc_sx root) (lc_sy root)"
  have ids1: "pane_ids w1 = pane_ids w" by (simp add: w1_def window_resize_def)
  have assign: "layout_assign (strip_panes root) (pane_ids w1) = Some (root, [])"
    using assign_strip(1) [OF ok order, of "[]"] ids1 by simp
  define w2 where "w2 = layout_fix_panes (w1\<lparr>lw_root := Some root\<rparr>) (lc_sx root) (lc_sy root)"
  have w2: "lw_root w2 = Some root" "lw_sx w2 = lc_sx root" "lw_sy w2 = lc_sy root" "pane_ids w2 = pane_ids w"
    by (simp_all add: w2_def w1_def window_resize_def)
  have resize: "layout_resize w2 (lw_sx w) (lw_sy w) =
      Some (layout_fix_panes (w2\<lparr>lw_root := Some root\<rparr>) (lw_sx w) (lw_sy w))"
    using w2 bounds size resize_direction_same [of "lc_sx root" LAYOUT_LEFTRIGHT root]
      resize_direction_same [of "lc_sy root" LAYOUT_TOPBOTTOM root]
    by (simp add: layout_resize_def fixed len_def)
  have "layout_parse w s = Some (window_resize (layout_fix_panes (w2\<lparr>lw_root := Some root\<rparr>) (lw_sx w) (lw_sy w)) (lw_sx w) (lw_sy w), True)"
    unfolding layout_parse_def s scan_dump(1) option.case Let_def
    using scan_dump(2) [of ?t] construct close assign resize
    by (simp add: strip fixed w1_def [symmetric] w2_def [symmetric])
  then show ?thesis using w2 by (simp add: window_resize_def)
qed



text \<open>A layout string of a single hexadecimal digit passes \<open>sscanf\<close>, and the code skips five characters.\<close>

lemma layout_parse_short: "layout_parse w ''a'' = None"
  by (simp add: layout_parse_def scan_hx_def isspace_def isxdigit_def isdigit_def less_eq_char_def Let_def)

end
