(* ===== verification/Layout_Set.thy ===== *)
theory Layout_Set
  imports Layout_Text
begin

text \<open>
  The predefined layouts (\<open>src/layout-set.c\<close>). The horizontal and the vertical version of a layout are the
  same code with the directions exchanged, and one definition here, with the direction as a parameter:
  \<open>along\<close> is the size in this direction, \<open>across\<close> the other one. The code for the rows of the main and the
  tiled layouts is shared.
\<close>

section \<open>The layouts\<close>

definition window_along :: "layout_type \<Rightarrow> layout_window \<Rightarrow> u_int" where
  "window_along type w = (if type = LAYOUT_LEFTRIGHT then lw_sx w else lw_sy w)"

definition window_across :: "layout_type \<Rightarrow> layout_window \<Rightarrow> u_int" where
  "window_across type w = (if type = LAYOUT_LEFTRIGHT then lw_sy w else lw_sx w)"

definition other_type :: "layout_type \<Rightarrow> layout_type" where
  "other_type type = (if type = LAYOUT_LEFTRIGHT then LAYOUT_TOPBOTTOM else LAYOUT_LEFTRIGHT)"

text \<open>A new cell with a size along and across a direction, and an offset along it.\<close>

definition sized_cell :: "layout_type \<Rightarrow> u_int \<Rightarrow> u_int \<Rightarrow> u_int \<Rightarrow> layout_cell" where
  "sized_cell type along across off =
     (if type = LAYOUT_LEFTRIGHT then layout_set_size layout_create_cell along across off 0
      else layout_set_size layout_create_cell across along 0 off)"

text \<open>The last cell of a list, changed.\<close>

definition adjust_last :: "layout_type \<Rightarrow> u_int \<Rightarrow> layout_cell list \<Rightarrow> layout_cell list option" where
  "adjust_last type change cs =
     (if cs = [] then None
      else do { lc \<leftarrow> layout_resize_adjust (last cs) type (to_int change); Some (butlast cs @ [lc]) })"

fun even_cells :: "layout_type \<Rightarrow> u_int \<Rightarrow> u_int \<Rightarrow> u_int \<Rightarrow> nat list \<Rightarrow> layout_cell list \<times> u_int" where
  "even_cells type width across off [] = ([], off)"
| "even_cells type width across off (wp # wps) =
     (let (cs, off') = even_cells type width across (u_add off (u_add width 1)) wps
      in (layout_make_leaf (sized_cell type width across off) wp # cs, off'))"

text \<open>When the last cell is adjusted, \<open>layout_fix_offsets\<close> is called on it and not on the root.\<close>

definition layout_set_even :: "layout_type \<Rightarrow> layout_window \<Rightarrow> layout_window option" where
  "layout_set_even type w =
     (let n = window_count_panes w
      in if n \<le> 1 then Some w
         else do {
           let along = window_along type w;
           let across = window_across type w;
           let width = u_sub along (n - 1) div n;
           let width = (if width < PANE_MINIMUM then PANE_MINIMUM else width);
           lc \<leftarrow> layout_make_node (sized_cell type along across 0) type;
           let (cs, off) = even_cells type width across 0 (pane_ids w);
           if along > u_sub off 1 then do {
             cs \<leftarrow> adjust_last type (u_sub along (u_sub off 1)) cs;
             Some (layout_fix_panes (w\<lparr>lw_root := Some (set_cells lc cs)\<rparr>) (lw_sx w) (lw_sy w))
           }
           else Some (layout_fix_panes (w\<lparr>lw_root := Some (layout_fix_offsets (set_cells lc cs))\<rparr>) (lw_sx w) (lw_sy w))
         })"

definition layout_set_even_h :: "layout_window \<Rightarrow> layout_window option" where
  "layout_set_even_h = layout_set_even LAYOUT_LEFTRIGHT"

definition layout_set_even_v :: "layout_window \<Rightarrow> layout_window option" where
  "layout_set_even_v = layout_set_even LAYOUT_TOPBOTTOM"

text \<open>
  A row of at most \<open>columns\<close> panes, of the given size across \<open>type\<close> (the direction the rows are stacked in),
  with the panes that are left.
\<close>

definition pane_row ::
  "layout_type \<Rightarrow> u_int \<Rightarrow> u_int \<Rightarrow> u_int \<Rightarrow> nat \<Rightarrow> nat list \<Rightarrow> (layout_cell \<times> nat list) option" where
  "pane_row type across width height columns wps = do {
     lcrow \<leftarrow> layout_make_node (sized_cell type height across 0) (other_type type);
     let here = take columns wps;
     let cs = map (layout_make_leaf (sized_cell type height width 0)) here;
     let used = u_sub (u_mul (length here) (u_add width 1)) 1;
     cs \<leftarrow> (if across \<le> used then Some cs else adjust_last (other_type type) (u_sub across used) cs);
     Some (set_cells lcrow cs, drop columns wps)
   }"

text \<open>The rows; \<open>single j\<close> tells whether row \<open>j\<close> is a pane itself.\<close>

fun pane_rows ::
  "layout_type \<Rightarrow> u_int \<Rightarrow> u_int \<Rightarrow> u_int \<Rightarrow> nat \<Rightarrow> (nat \<Rightarrow> bool) \<Rightarrow> nat \<Rightarrow> nat \<Rightarrow> nat list \<Rightarrow> layout_cell list option" where
  "pane_rows type across width height columns single j 0 wps = Some []"
| "pane_rows type across width height columns single j (Suc n) [] = Some []"
| "pane_rows type across width height columns single j (Suc n) (wp # wps) =
     (if single j then do {
        cs \<leftarrow> pane_rows type across width height columns single (Suc j) n wps;
        Some (layout_make_leaf (sized_cell type height across 0) wp # cs)
      }
      else do {
        (lcrow, wps) \<leftarrow> pane_row type across width height columns (wp # wps);
        cs \<leftarrow> pane_rows type across width height columns single (Suc j) n wps;
        Some (lcrow # cs)
      })"

definition layout_set_main :: "layout_type \<Rightarrow> string \<Rightarrow> string \<Rightarrow> layout_window \<Rightarrow> layout_window option" where
  "layout_set_main type main_option other_option w =
     (let n = window_count_panes w
      in if n \<le> 1 then Some w
         else do {
           let n = n - 1;
           let along = window_along type w;
           let across = window_across type w;
           let columns = u_add across 1 div (PANE_MINIMUM + 1);
           let columns = (if columns = 0 then 1 else columns);
           let rows = 1 + (n - 1) div columns;
           let columns = 1 + (n - 1) div rows;
           let width = u_sub across (n - 1) div columns;
           main \<leftarrow> options_get_number (lw_options w) main_option;
           let mainheight = to_u_int (main + 1);
           other \<leftarrow> options_get_number (lw_options w) other_option;
           let otherheight = to_u_int (other + 1);
           let mainheight = (if otherheight > 1 \<and> u_sub along otherheight > mainheight then u_sub along otherheight else mainheight);
           let mainheight = (if mainheight < PANE_MINIMUM + 1 then PANE_MINIMUM + 1 else mainheight);
           let totalrows = u_sub (u_mul rows (PANE_MINIMUM + 1)) 1;
           let (mainheight, height) =
             (if u_add mainheight totalrows > along then
                (if u_add totalrows (PANE_MINIMUM + 1) > along then (PANE_MINIMUM + 2, PANE_MINIMUM)
                 else (u_sub along totalrows, PANE_MINIMUM))
              else (mainheight, u_sub (u_sub along mainheight) (rows - 1) div rows));
           lc \<leftarrow> layout_make_node (sized_cell type (u_sub (u_add mainheight (u_mul rows (u_add height 1))) 1) across 0) type;
           first \<leftarrow> get_at (pane_ids w) 0;
           let lcmain = layout_make_leaf (sized_cell type (u_sub mainheight 1) across 0) first;
           cs \<leftarrow> pane_rows type across width height columns (\<lambda>j. columns = 1) 0 rows (tl (pane_ids w));
           let used = u_sub (u_add (u_add mainheight (u_mul rows height)) rows) 1;
           cs \<leftarrow> (if along > used then adjust_last type (u_sub along used) (lcmain # cs) else Some (lcmain # cs));
           Some (layout_fix_panes (w\<lparr>lw_root := Some (layout_fix_offsets (set_cells lc cs))\<rparr>) (lw_sx w) (lw_sy w))
         })"

definition layout_set_main_h :: "layout_window \<Rightarrow> layout_window option" where
  "layout_set_main_h = layout_set_main LAYOUT_TOPBOTTOM ''main-pane-height'' ''other-pane-height''"

definition layout_set_main_v :: "layout_window \<Rightarrow> layout_window option" where
  "layout_set_main_v = layout_set_main LAYOUT_LEFTRIGHT ''main-pane-width'' ''other-pane-width''"

text \<open>The loop starts from one row and one column, so \<open>columns\<close> is never 0.\<close>

function tiled_size :: "nat \<Rightarrow> nat \<Rightarrow> nat \<Rightarrow> nat \<times> nat" where
  "tiled_size n rows columns =
     (if rows * columns < n \<and> 0 < columns then
        (if (rows + 1) * columns < n then tiled_size n (rows + 1) (columns + 1) else tiled_size n (rows + 1) columns)
      else (rows, columns))"
  by pat_completeness auto
termination
proof (relation "measure (\<lambda>(n, rows, columns). n - rows)")
  fix n rows columns :: nat assume *: "rows * columns < n \<and> 0 < columns"
  then have "rows \<le> rows * columns" by simp
  then have "rows < n" using * by linarith
  then show "((n, rows + 1, columns + 1), n, rows, columns) \<in> measure (\<lambda>(n, rows, columns). n - rows)"
    "((n, rows + 1, columns), n, rows, columns) \<in> measure (\<lambda>(n, rows, columns). n - rows)" by simp_all
qed simp

declare tiled_size.simps [simp del]

definition layout_set_tiled :: "layout_window \<Rightarrow> layout_window option" where
  "layout_set_tiled w =
     (let n = window_count_panes w
      in if n \<le> 1 then Some w
         else do {
           let (rows, columns) = tiled_size n 1 1;
           let width = u_sub (lw_sx w) (columns - 1) div columns;
           let width = (if width < PANE_MINIMUM then PANE_MINIMUM else width);
           let height = u_sub (lw_sy w) (rows - 1) div rows;
           let height = (if height < PANE_MINIMUM then PANE_MINIMUM else height);
           lc \<leftarrow> layout_make_node (layout_set_size layout_create_cell (u_sub (u_mul (u_add width 1) columns) 1)
             (u_sub (u_mul (u_add height 1) rows) 1) 0 0) LAYOUT_TOPBOTTOM;
           cs \<leftarrow> pane_rows LAYOUT_TOPBOTTOM (lw_sx w) width height columns
             (\<lambda>j. u_sub n (u_mul j columns) = 1 \<or> columns = 1) 0 rows (pane_ids w);
           let used = u_sub (u_add (u_mul rows height) rows) 1;
           cs \<leftarrow> (if lw_sy w > used then adjust_last LAYOUT_TOPBOTTOM (u_sub (lw_sy w) used) cs else Some cs);
           Some (layout_fix_panes (w\<lparr>lw_root := Some (layout_fix_offsets (set_cells lc cs))\<rparr>) (lw_sx w) (lw_sy w))
         })"

section \<open>Choosing a layout\<close>

definition layout_sets :: "(string \<times> (layout_window \<Rightarrow> layout_window option)) list" where
  "layout_sets =
    [(''even-horizontal'', layout_set_even_h),
     (''even-vertical'', layout_set_even_v),
     (''main-horizontal'', layout_set_main_h),
     (''main-vertical'', layout_set_main_v),
     (''tiled'', layout_set_tiled)]"

definition layout_set_name :: "u_int \<Rightarrow> string option" where
  "layout_set_name layout = map_option fst (get_at layout_sets layout)"

text \<open>The loop over the names, with the entry number and the match so far.\<close>

fun layout_set_match :: "string \<Rightarrow> string list \<Rightarrow> int \<Rightarrow> int \<Rightarrow> int" where
  "layout_set_match name [] i matched = matched"
| "layout_set_match name (s # ss) i matched =
     (if take (length name) s = name then
        (if matched \<noteq> -1 then -1 else layout_set_match name ss (i + 1) i)
      else layout_set_match name ss (i + 1) matched)"

definition layout_set_lookup :: "string \<Rightarrow> int" where
  "layout_set_lookup name = layout_set_match name (map fst layout_sets) 0 (-1)"

definition layout_set_apply :: "u_int \<Rightarrow> layout_window \<Rightarrow> (layout_window \<times> u_int) option" where
  "layout_set_apply layout w = do {
     (_, arrange) \<leftarrow> get_at layout_sets layout;
     w \<leftarrow> arrange w;
     Some (w\<lparr>lw_lastlayout := int layout\<rparr>, layout)
   }"

definition layout_set_select :: "layout_window \<Rightarrow> u_int \<Rightarrow> (layout_window \<times> u_int) option" where
  "layout_set_select w layout = layout_set_apply (if layout > length layout_sets - 1 then length layout_sets - 1 else layout) w"

definition layout_set_next :: "layout_window \<Rightarrow> (layout_window \<times> u_int) option" where
  "layout_set_next w =
     (let layout = (if lw_lastlayout w = -1 then 0
        else (let layout = u_add (to_u_int (lw_lastlayout w)) 1 in if layout > length layout_sets - 1 then 0 else layout))
      in layout_set_apply layout w)"

definition layout_set_previous :: "layout_window \<Rightarrow> (layout_window \<times> u_int) option" where
  "layout_set_previous w =
     (let layout = (if lw_lastlayout w = -1 then length layout_sets - 1
        else (let layout = to_u_int (lw_lastlayout w) in if layout = 0 then length layout_sets - 1 else layout - 1))
      in layout_set_apply layout w)"

section \<open>Even layouts\<close>

lemma sized_cell_simps [simp]:
  "is_direction type \<Longrightarrow> len type (sized_cell type along across off) = along"
  "is_direction type \<Longrightarrow> cross type (sized_cell type along across off) = across"
  "lc_type (sized_cell type along across off) = LAYOUT_WINDOWPANE" "lc_cells (sized_cell type along across off) = []"
  by (simp_all add: sized_cell_def len_def cross_def layout_create_cell_def)

lemma sized_leaf:
  assumes "is_direction type" and "0 < along" "along \<le> CELL_MAX" "0 < across" "across \<le> CELL_MAX"
  shows "leaf_of (layout_make_leaf (sized_cell type along across off) wp)" "cell_ok (layout_make_leaf (sized_cell type along across off) wp)"
    "len type (layout_make_leaf (sized_cell type along across off) wp) = along"
    "cross type (layout_make_leaf (sized_cell type along across off) wp) = across"
proof -
  show leaf: "leaf_of (layout_make_leaf (sized_cell type along across off) wp)" by (simp add: leaf_of_def)
  show "len type (layout_make_leaf (sized_cell type along across off) wp) = along"
    "cross type (layout_make_leaf (sized_cell type along across off) wp) = across"
    using assms(1) by (simp_all add: len_def cross_def sized_cell_def)
  show "cell_ok (layout_make_leaf (sized_cell type along across off) wp)"
    unfolding leaf_ok [OF leaf] using assms by (simp add: sized_cell_def)
qed

lemma even_cells_ok:
  assumes d: "is_direction type" and w: "0 < width" "width \<le> CELL_MAX" and a: "0 < across" "across \<le> CELL_MAX"
  shows "off + length wps * (width + 1) < UINT_MOD \<Longrightarrow> even_cells type width across off wps = (cs, off') \<Longrightarrow>
    (\<forall>c \<in> set cs. leaf_of c \<and> cell_ok c \<and> len type c = width \<and> cross type c = across) \<and> map lc_wp cs = map Some wps \<and>
    off' = off + length wps * (width + 1)"
proof (induction wps arbitrary: off cs off')
  case (Cons wp wps)
  have add: "u_add off (u_add width 1) = off + (width + 1)" using Cons.prems(1) by (simp add: u_add_def)
  obtain ds where ds: "even_cells type width across (off + (width + 1)) wps = (ds, off')"
    "cs = layout_make_leaf (sized_cell type width across off) wp # ds"
    using Cons.prems(2) add by (auto split: prod.splits)
  have "off + (width + 1) + length wps * (width + 1) < UINT_MOD" using Cons.prems(1) by (simp add: algebra_simps)
  from Cons.IH [OF this ds(1)] show ?case using ds(2) sized_leaf [OF d w a, of off wp] by simp
qed simp

lemma adjust_last_leaf:
  assumes d: "is_direction type" and cs: "cs \<noteq> []" "leaf_of (last cs)" "cell_ok (last cs)" and b: "len type (last cs) + change \<le> CELL_MAX"
  obtains lc where "adjust_last type change cs = Some (butlast cs @ [lc])" "cell_ok lc" "len type lc = len type (last cs) + change"
    "cross type lc = cross type (last cs)" "cell_panes lc = cell_panes (last cs)"
proof -
  have "to_int change = int change" using b by (simp add: to_int_def)
  moreover have "adjustable type (int change) (last cs)" using cs b by (simp add: adjustable_def)
  ultimately obtain lc where "layout_resize_adjust (last cs) type (to_int change) = Some lc" "adjusted type (int change) (last cs) lc"
    using layout_resize_adjust_ok [OF d, of "int change" "last cs"] unfolding returns_eq by auto
  then show ?thesis using that [of lc] cs(1) by (simp add: adjust_last_def adjusted_def alike_def)
qed

lemma window_ok_new_root:
  "window_ok w \<Longrightarrow> cell_ok root \<Longrightarrow> cell_panes root = map Some (pane_ids w) \<Longrightarrow>
   window_ok (layout_fix_panes (w\<lparr>lw_root := Some root\<rparr>) sx sy)"
  by (simp add: window_ok_def)

lemma fix_offsets_row:
  "lc_type (layout_fix_offsets lc) = lc_type lc" "len d (layout_fix_offsets lc) = len d lc"
  "lc_type lc \<noteq> LAYOUT_WINDOWPANE \<Longrightarrow> map (len d) (lc_cells (layout_fix_offsets lc)) = map (len d) (lc_cells lc)"
proof -
  have at: "len d (layout_fix_offsets_at x y c) = len d c" for c x y by (cases c) (simp add: len_def)
  have "map (len d) (layout_fix_row ty x y cs) = map (len d) cs" for ty x y cs
    by (induction cs arbitrary: x y) (auto simp: at)
  then show "lc_type lc \<noteq> LAYOUT_WINDOWPANE \<Longrightarrow> map (len d) (lc_cells (layout_fix_offsets lc)) = map (len d) (lc_cells lc)"
    by (cases lc) (simp add: layout_fix_offsets_def)
  show "lc_type (layout_fix_offsets lc) = lc_type lc" "len d (layout_fix_offsets lc) = len d lc"
    by (cases lc; simp add: layout_fix_offsets_def len_def)+
qed

text \<open>The width of a pane and what is left over.\<close>

lemma even_width:
  assumes "n * (PANE_MINIMUM + 1) \<le> along + 1" and "1 < n" and "along \<le> CELL_MAX"
  shows "u_sub along (n - 1) = along - (n - 1)" "2 \<le> (along - (n - 1)) div n" "(along - (n - 1)) mod n < n"
    "n * ((along - (n - 1)) div n + 1) + (along - (n - 1)) mod n = along + 1"
    "(along - (n - 1)) div n + (along - (n - 1)) mod n \<le> CELL_MAX"
proof -
  define q rest where "q = (along - (n - 1)) div n" and "rest = (along - (n - 1)) mod n"
  have n1: "n - 1 \<le> along" "n * 2 \<le> along - (n - 1)" using assms(1,2) by (simp_all add: PANE_MINIMUM_def)
  then show "u_sub along (n - 1) = along - (n - 1)" "2 \<le> (along - (n - 1)) div n" "(along - (n - 1)) mod n < n"
    using assms(2,3) by (simp_all add: less_eq_div_iff_mult_less_eq mult.commute)
  have "n * q + rest = along - (n - 1)" by (simp add: q_def rest_def)
  then have sum: "n * (q + 1) + rest = along + 1" using n1(1) assms(2) by (simp add: algebra_simps)
  then show "n * ((along - (n - 1)) div n + 1) + (along - (n - 1)) mod n = along + 1" by (simp only: q_def rest_def)
  have "q \<le> n * q" using assms(2) by simp
  moreover have "n * q + n + rest = along + 1" using sum by (simp add: algebra_simps)
  ultimately show "(along - (n - 1)) div n + (along - (n - 1)) mod n \<le> CELL_MAX"
    unfolding q_def [symmetric] rest_def [symmetric] using assms(2,3) by linarith
qed

text \<open>The new root and its children.\<close>

definition even_root :: "layout_type \<Rightarrow> u_int \<Rightarrow> u_int \<Rightarrow> layout_cell list \<Rightarrow> layout_cell" where
  "even_root type along across cs = Layout_Cell type (if type = LAYOUT_LEFTRIGHT then along else across)
     (if type = LAYOUT_LEFTRIGHT then across else along) 0 0 None cs"

lemma even_root_node:
  assumes "is_direction type"
  shows "layout_make_node (sized_cell type along across 0) type = Some (even_root type along across [])"
    "set_cells (even_root type along across ds) cs = even_root type along across cs"
  using assms by (cases type; simp add: layout_make_node_def sized_cell_def even_root_def set_cells_def)+

lemma even_root_ok:
  assumes d: "is_direction type" and size: "0 < along" "along \<le> CELL_MAX" "0 < across" "across \<le> CELL_MAX"
    and cs: "\<forall>c \<in> set cs. cell_ok c \<and> cross type c = across" "row_len type cs = along + 1" "2 \<le> length cs"
      "concat (map cell_panes cs) = map Some ids"
  shows "cell_ok (even_root type along across cs)" "cell_panes (even_root type along across cs) = map Some ids"
proof -
  show "cell_ok (even_root type along across cs)" using d size cs
    by (subst cell_ok_iff; cases type) (auto simp: even_root_def len_def cross_def)
  show "cell_panes (even_root type along across cs) = map Some ids" using d cs(4) by (cases type) (simp_all add: even_root_def)
qed

text \<open>The cells of \<open>even_cells\<close> with the left-over space given to the last one.\<close>

lemma even_cells_adjusted:
  assumes d: "is_direction type" and w: "0 < q" "q + rest \<le> CELL_MAX" and a: "0 < across" "across \<le> CELL_MAX"
    and n: "0 < length ids" "length ids * (q + 1) < UINT_MOD" and even: "even_cells type q across 0 ids = (cs, off)"
  obtains ds where "off = length ids * (q + 1)" "rest = 0 \<longrightarrow> ds = cs" "rest \<noteq> 0 \<longrightarrow> adjust_last type rest cs = Some ds"
    "\<forall>c \<in> set ds. cell_ok c \<and> cross type c = across" "concat (map cell_panes ds) = map Some ids"
    "map (len type) ds = replicate (length ids - 1) q @ [q + rest]"
proof -
  have q: "q \<le> CELL_MAX" using w(2) by simp
  have cs: "\<forall>c \<in> set cs. leaf_of c \<and> cell_ok c \<and> len type c = q \<and> cross type c = across" "map lc_wp cs = map Some ids"
    "off = length ids * (q + 1)" using even_cells_ok [OF d w(1) q a _ even] n(2) by simp_all
  have lcs: "length cs = length ids" using cs(2) by (metis length_map)
  then have ne: "cs \<noteq> []" using n(1) by auto
  have split: "cs = butlast cs @ [last cs]" using ne by simp
  have panes: "concat (map cell_panes cs) = map Some ids"
    using cs(1) by (subst cs(2) [symmetric], induction cs) (auto simp: panes_leaf)
  have lst: "leaf_of (last cs)" "cell_ok (last cs)" "len type (last cs) = q" "cross type (last cs) = across"
    using cs(1) last_in_set [OF ne] by auto
  from adjust_last_leaf [OF d ne lst(1,2), of rest] lst(3,4) w(2) obtain l where
    l: "adjust_last type rest cs = Some (butlast cs @ [l])" "cell_ok l" "len type l = q + rest"
      "cross type l = across" "cell_panes l = cell_panes (last cs)" by auto
  have front: "map (len type) (butlast cs) = replicate (length ids - 1) q"
    using cs(1) lcs by (intro replicate_eqI) (auto dest: in_set_butlastD)
  define ds where "ds = (if rest = 0 then cs else butlast cs @ [l])"
  have "map cell_panes (butlast cs @ [l]) = map cell_panes cs" using l(5) by (subst (2) split) simp
  then have "map cell_panes ds = map cell_panes cs" by (simp add: ds_def)
  moreover have "map (len type) cs = replicate (length ids - 1) q @ [q]" using front lst(3) by (subst split) simp
  then have "map (len type) ds = replicate (length ids - 1) q @ [q + rest]" using front l(3) by (simp add: ds_def)
  moreover have "\<forall>c \<in> set ds. cell_ok c \<and> cross type c = across" using cs(1) l(2,4) by (auto simp: ds_def dest: in_set_butlastD)
  ultimately show ?thesis using that [of ds] cs(3) l(1) panes by (simp add: ds_def)
qed

lemma row_len_map: "row_len d cs = sum_list (map (\<lambda>n. n + 1) (map (len d) cs))"
  by (simp add: comp_def)

text \<open>
  C40. When every pane fits with its separators, the even layouts keep the panes in their order, give each pane
  the same number of columns (or rows) and the last one what is left over, less than one for each pane, and fill the
  window exactly: the separators and the panes add up to its size.
\<close>

theorem layout_set_even_ok:
  assumes w: "window_ok w" and d: "is_direction type" and n: "length (lw_panes w) = n" "1 < n"
    and fits: "n * (PANE_MINIMUM + 1) \<le> window_along type w + 1"
    and size: "window_along type w \<le> CELL_MAX" "0 < window_across type w" "window_across type w \<le> CELL_MAX"
  shows "\<exists>w' root rest. layout_set_even type w = Some w' \<and> window_ok w' \<and> lw_root w' = Some root \<and> lc_type root = type \<and>
    cell_panes root = map Some (pane_ids w) \<and>
    (let q = (window_along type w - (n - 1)) div n in
       map (len type) (lc_cells root) = replicate (n - 1) q @ [q + rest] \<and> rest < n \<and> n * (q + 1) + rest = window_along type w + 1)"
proof -
  define along across where "along = window_along type w" and "across = window_across type w"
  define q rest where "q = (along - (n - 1)) div n" and "rest = (along - (n - 1)) mod n"
  note width = even_width [OF fits n(2) size(1), folded along_def, folded q_def rest_def]
  have ids: "length (pane_ids w) = n" using n(1) by (simp add: pane_ids_def)
  obtain cs off where even: "even_cells type q across 0 (pane_ids w) = (cs, off)" by fastforce
  have small: "length (pane_ids w) * (q + 1) < UINT_MOD" "0 < length (pane_ids w)" "0 < q"
    using width(2,4) size(1) ids n(2) by (simp_all add: along_def)
  from even_cells_adjusted [OF d small(3) width(5) _ _ small(2,1) even] size(2,3) obtain ds where
    ds: "off = length (pane_ids w) * (q + 1)" "rest = 0 \<longrightarrow> ds = cs" "rest \<noteq> 0 \<longrightarrow> adjust_last type rest cs = Some ds"
      "\<forall>c \<in> set ds. cell_ok c \<and> cross type c = across" "concat (map cell_panes ds) = map Some (pane_ids w)"
      "map (len type) ds = replicate (n - 1) q @ [q + rest]" unfolding across_def ids by blast
  have "row_len type ds = along + 1"
    unfolding row_len_map ds(6) using width(4) n(2) by (cases n) (simp_all add: sum_list_replicate algebra_simps)
  moreover have "2 \<le> length ds" using arg_cong [OF ds(6), of length] n(2) by simp
  moreover have "0 < along" using width(2,4) n(2) by (cases along) auto
  ultimately have root: "cell_ok (even_root type along across ds)" "cell_panes (even_root type along across ds) = map Some (pane_ids w)"
    using even_root_ok [OF d _ _ _ _ ds(4) _ _ ds(5)] size by (simp_all add: along_def across_def)
  define r where "r = (if rest = 0 then layout_fix_offsets (even_root type along across ds) else even_root type along across ds)"
  have off1: "u_sub off 1 = n * (q + 1) - 1" "u_sub along (n * (q + 1) - 1) = rest"
    using ds(1) ids width(4) size(1) n(2) by (simp_all add: along_def)
  have run: "layout_set_even type w = Some (layout_fix_panes (w\<lparr>lw_root := Some r\<rparr>) (lw_sx w) (lw_sy w))"
  proof -
    have q2: "(if q < PANE_MINIMUM then PANE_MINIMUM else q) = q" using width(2) by (simp add: PANE_MINIMUM_def)
    have count: "window_count_panes w = n" "\<not> n \<le> 1" using n by (simp_all add: window_count_panes_def)
    have more: "along > u_sub off 1 \<longleftrightarrow> rest \<noteq> 0" "u_sub along (u_sub off 1) = rest"
      unfolding off1 using width(4) n(2) by auto
    have "\<not> n \<le> Suc 0" using n(2) by simp
    then show ?thesis
      using ds(2,3) unfolding layout_set_even_def Let_def count(1) along_def [symmetric] across_def [symmetric] width(1) q_def [symmetric] q2
      by (cases "rest = 0") (simp_all add: even_root_node [OF d] even more [unfolded One_nat_def] r_def)
  qed
  have r: "cell_ok r" "cell_panes r = map Some (pane_ids w)" "lc_type r = type" "map (len type) (lc_cells r) = map (len type) ds"
    using root fix_offsets_ok [of "even_root type along across ds"] fix_offsets_row [where lc = "even_root type along across ds"] d
    by (auto simp: r_def even_root_def)
  have "window_ok (layout_fix_panes (w\<lparr>lw_root := Some r\<rparr>) (lw_sx w) (lw_sy w))" by (rule window_ok_new_root [OF w r(1,2)])
  then show ?thesis using run r ds(6) width(3,4) unfolding along_def [symmetric] Let_def q_def [symmetric] by (metis fix_panes_simps(2) layout_window.select_convs(3) layout_window.surjective layout_window.update_convs(3))
qed

theorem layout_set_even_ok_witness:
  "\<exists>w' root. layout_set_even_h example_window = Some w' \<and> lw_root w' = Some root \<and> map lc_sx (lc_cells root) = [26, 26, 26]"
proof -
  have "window_along LAYOUT_LEFTRIGHT example_window = 80" "window_across LAYOUT_LEFTRIGHT example_window = 24"
    "length (lw_panes example_window) = 3" by (simp_all add: window_along_def window_across_def example_window_def)
  from layout_set_even_ok [OF example_window_ok _ this(3), of LAYOUT_LEFTRIGHT] this
  obtain w' root rest where "layout_set_even LAYOUT_LEFTRIGHT example_window = Some w'" "lw_root w' = Some root"
    "map (len LAYOUT_LEFTRIGHT) (lc_cells root) = replicate (3 - 1) 26 @ [26 + rest]" "rest = 0"
    by (auto simp: PANE_MINIMUM_def Let_def)
  then show ?thesis by (auto simp: layout_set_even_h_def len_def numeral_eq_Suc)
qed

end
