(* ===== verification/Winlink.thy ===== *)
theory Winlink
  imports Prelude Options
begin

text \<open>
  The links from sessions to windows (the winlink functions of \<open>src/window.c\<close>) and the reference counts of
  windows. The red-black tree of a session's winlinks is the list of its elements, sorted by index; a winlink
  is known by its index in the session. Windows are numbers here; their layout and panes are modelled in
  \<open>Window\<close>. \<open>None\<close> is \<open>fatal\<close>, \<open>fatalx\<close> or a use of a window that was freed. Notifications of control
  clients are left out.
\<close>

section \<open>Winlinks\<close>

abbreviation INT_MAX :: int where
  "INT_MAX \<equiv> 2147483647"

definition WINLINK_BELL :: c_flags where "WINLINK_BELL = 0x1"
definition WINLINK_ACTIVITY :: c_flags where "WINLINK_ACTIVITY = 0x2"
definition WINLINK_CONTENT :: c_flags where "WINLINK_CONTENT = 0x4"
definition WINLINK_SILENCE :: c_flags where "WINLINK_SILENCE = 0x8"

definition WINLINK_ALERTFLAGS :: c_flags where
  "WINLINK_ALERTFLAGS = Bit_Operations.or WINLINK_BELL (Bit_Operations.or WINLINK_ACTIVITY
     (Bit_Operations.or WINLINK_CONTENT WINLINK_SILENCE))"

record winlink =
  wl_idx :: int
  wl_window :: "nat option"
  wl_flags :: c_flags

type_synonym winlinks = "winlink list"

definition winlink_find_by_window :: "winlinks \<Rightarrow> nat \<Rightarrow> winlink option" where
  "winlink_find_by_window wwl w = find (\<lambda>wl. wl_window wl = Some w) wwl"

definition winlink_find_by_index :: "winlinks \<Rightarrow> int \<Rightarrow> winlink option option" where
  "winlink_find_by_index wwl idx = (if idx < 0 then None else Some (find (\<lambda>wl. wl_idx wl = idx) wwl))"

text \<open>
  The search for a free index, with at most \<open>n\<close> rounds; \<open>None\<close> inside \<open>Some\<close> is the result -1. Each round
  meets another winlink, so one round more than there are winlinks is enough.
\<close>

fun next_index_loop :: "nat \<Rightarrow> winlinks \<Rightarrow> int \<Rightarrow> int \<Rightarrow> int option option" where
  "next_index_loop 0 wwl idx i = None"
| "next_index_loop (Suc n) wwl idx i = do {
     wl \<leftarrow> winlink_find_by_index wwl i;
     if wl = None then Some (Some i)
     else do {
       let i = (if i = INT_MAX then 0 else i + 1);
       if i = idx then Some None else next_index_loop n wwl idx i
     }
   }"

definition winlink_next_index :: "winlinks \<Rightarrow> int \<Rightarrow> int option option" where
  "winlink_next_index wwl idx = next_index_loop (Suc (length wwl)) wwl idx idx"

definition winlink_count :: "winlinks \<Rightarrow> u_int" where
  "winlink_count wwl = length wwl"

text \<open>The result is the new winlink's index, \<open>None\<close> when there is none.\<close>

definition winlink_add :: "winlinks \<Rightarrow> int \<Rightarrow> (winlinks \<times> int option) option" where
  "winlink_add wwl idx = do {
     idx \<leftarrow> (if idx < 0 then winlink_next_index wwl (- idx - 1)
       else do { wl \<leftarrow> winlink_find_by_index wwl idx; Some (if wl = None then Some idx else None) });
     case idx of
       None \<Rightarrow> Some (wwl, None)
     | Some idx \<Rightarrow> Some (insort_key wl_idx \<lparr>wl_idx = idx, wl_window = None, wl_flags = 0\<rparr> wwl, Some idx)
   }"

text \<open>The next and the previous winlink, for the index of one that is in the tree.\<close>

definition winlink_next :: "winlinks \<Rightarrow> int \<Rightarrow> winlink option" where
  "winlink_next wwl idx = find (\<lambda>wl. idx < wl_idx wl) wwl"

definition winlink_previous :: "winlinks \<Rightarrow> int \<Rightarrow> winlink option" where
  "winlink_previous wwl idx = find (\<lambda>wl. wl_idx wl < idx) (rev wwl)"

definition winlink_min :: "winlinks \<Rightarrow> winlink option" where
  "winlink_min wwl = (case wwl of [] \<Rightarrow> None | wl # _ \<Rightarrow> Some wl)"

definition winlink_max :: "winlinks \<Rightarrow> winlink option" where
  "winlink_max wwl = (if wwl = [] then None else Some (last wwl))"

fun winlink_next_by_number :: "winlinks \<Rightarrow> int \<Rightarrow> nat \<Rightarrow> int option" where
  "winlink_next_by_number wwl idx 0 = Some idx"
| "winlink_next_by_number wwl idx (Suc n) = do {
     wl \<leftarrow> (case winlink_next wwl idx of Some wl \<Rightarrow> Some wl | None \<Rightarrow> winlink_min wwl);
     winlink_next_by_number wwl (wl_idx wl) n
   }"

fun winlink_previous_by_number :: "winlinks \<Rightarrow> int \<Rightarrow> nat \<Rightarrow> int option" where
  "winlink_previous_by_number wwl idx 0 = Some idx"
| "winlink_previous_by_number wwl idx (Suc n) = do {
     wl \<leftarrow> (case winlink_previous wwl idx of Some wl \<Rightarrow> Some wl | None \<Rightarrow> winlink_max wwl);
     winlink_previous_by_number wwl (wl_idx wl) n
   }"

section \<open>The stack of last windows\<close>

definition winlink_stack_remove :: "int list \<Rightarrow> int option \<Rightarrow> int list" where
  "winlink_stack_remove stack wl = (case wl of None \<Rightarrow> stack | Some idx \<Rightarrow> remove1 idx stack)"

definition winlink_stack_push :: "int list \<Rightarrow> int option \<Rightarrow> int list" where
  "winlink_stack_push stack wl = (case wl of None \<Rightarrow> stack | Some idx \<Rightarrow> idx # winlink_stack_remove stack wl)"

section \<open>References\<close>

text \<open>The windows that exist, with their numbers of references.\<close>

type_synonym windows = "nat \<Rightarrow> nat option"

definition window_remove_ref :: "windows \<Rightarrow> nat \<Rightarrow> windows option" where
  "window_remove_ref ws w = do {
     references \<leftarrow> ws w;
     if references = 0 then None
     else if references - 1 = 0 then Some (ws(w := None))
     else Some (ws(w \<mapsto> references - 1))
   }"

definition winlink_set_window :: "winlinks \<Rightarrow> int \<Rightarrow> nat \<Rightarrow> windows \<Rightarrow> (winlinks \<times> windows) option" where
  "winlink_set_window wwl idx w ws = do {
     references \<leftarrow> ws w;
     Some (map (\<lambda>wl. if wl_idx wl = idx then wl\<lparr>wl_window := Some w\<rparr> else wl) wwl, ws(w \<mapsto> references + 1))
   }"

definition winlink_remove :: "winlinks \<Rightarrow> int \<Rightarrow> windows \<Rightarrow> (winlinks \<times> windows) option" where
  "winlink_remove wwl idx ws = do {
     wl \<leftarrow> find (\<lambda>wl. wl_idx wl = idx) wwl;
     ws \<leftarrow> (case wl_window wl of None \<Rightarrow> Some ws | Some w \<Rightarrow> window_remove_ref ws w);
     Some (filter (\<lambda>wl. wl_idx wl \<noteq> idx) wwl, ws)
   }"

end
