(* ===== verification/Session.thy ===== *)
theory Session
  imports Winlink Cstring "HOL-Library.List_Lexorder"
begin

text \<open>
  Sessions and session groups (\<open>src/session.c\<close>), and the functions of \<open>src/server-fn.c\<close> and of the commands
  that link, unlink, move and kill windows. A session is known by the number it gets when it is created; the
  current window and the stack of last windows of a session are indexes of its winlinks. The red-black tree
  of sessions is the list sorted by name. Environments, terminal settings, times, clients and redrawing are
  left out; whether a new window's command can be started is a parameter of the operations that create one.
\<close>

section \<open>State\<close>

record session =
  ss_idx :: u_int
  ss_name :: string
  ss_curw :: "int option"
  ss_lastw :: "int list"
  ss_windows :: winlinks
  ss_options :: options

record server =
  sv_sessions :: "session list"
  sv_groups :: "nat list list"
  sv_windows :: windows
  sv_next_session :: u_int
  sv_next_window :: u_int
  sv_options :: options

definition session_get :: "server \<Rightarrow> nat \<Rightarrow> session option" where
  "session_get sv sid = find (\<lambda>s. ss_idx s = sid) (sv_sessions sv)"

definition session_put :: "session \<Rightarrow> server \<Rightarrow> server" where
  "session_put s sv = sv\<lparr>sv_sessions := map (\<lambda>t. if ss_idx t = ss_idx s then s else t) (sv_sessions sv)\<rparr>"

definition session_alive :: "server \<Rightarrow> nat \<Rightarrow> bool" where
  "session_alive sv sid \<longleftrightarrow> (\<exists>s \<in> set (sv_sessions sv). ss_idx s = sid)"

definition session_find :: "server \<Rightarrow> string \<Rightarrow> session option" where
  "session_find sv name = find (\<lambda>s. ss_name s = name) (sv_sessions sv)"

definition session_find_by_index :: "server \<Rightarrow> u_int \<Rightarrow> session option" where
  "session_find_by_index sv idx = find (\<lambda>s. ss_idx s = idx) (sv_sessions sv)"

definition session_check_name :: "string \<Rightarrow> bool" where
  "session_check_name name \<longleftrightarrow> name \<noteq> [] \<and> CHR '':'' \<notin> set name"

definition session_next_session :: "server \<Rightarrow> nat \<Rightarrow> nat option" where
  "session_next_session sv sid =
     (if sv_sessions sv = [] \<or> \<not> session_alive sv sid then None
      else case session_get sv sid of
        None \<Rightarrow> None
      | Some s \<Rightarrow>
          let s2 = (case find (\<lambda>t. ss_name s < ss_name t) (sv_sessions sv) of Some t \<Rightarrow> t | None \<Rightarrow> hd (sv_sessions sv))
          in if ss_idx s2 = sid then None else Some (ss_idx s2))"

definition session_previous_session :: "server \<Rightarrow> nat \<Rightarrow> nat option" where
  "session_previous_session sv sid =
     (if sv_sessions sv = [] \<or> \<not> session_alive sv sid then None
      else case session_get sv sid of
        None \<Rightarrow> None
      | Some s \<Rightarrow>
          let s2 = (case find (\<lambda>t. ss_name t < ss_name s) (rev (sv_sessions sv)) of Some t \<Rightarrow> t | None \<Rightarrow> last (sv_sessions sv))
          in if ss_idx s2 = sid then None else Some (ss_idx s2))"

section \<open>The current window\<close>

definition session_has :: "session \<Rightarrow> nat \<Rightarrow> winlink option" where
  "session_has s w = winlink_find_by_window (ss_windows s) w"

text \<open>\<open>winlink_clear_flags\<close> (\<open>src/window.c\<close>): in every session the first winlink of the window loses its alerts.\<close>

fun clear_first :: "nat \<Rightarrow> winlinks \<Rightarrow> winlinks" where
  "clear_first w [] = []"
| "clear_first w (wl # wls) =
     (if wl_window wl = Some w
      then wl\<lparr>wl_flags := Bit_Operations.and (wl_flags wl) (Bit_Operations.not WINLINK_ALERTFLAGS)\<rparr> # wls
      else wl # clear_first w wls)"

definition winlink_clear_flags :: "nat option \<Rightarrow> server \<Rightarrow> server" where
  "winlink_clear_flags w sv =
     (case w of
        None \<Rightarrow> sv
      | Some w \<Rightarrow> sv\<lparr>sv_sessions := map (\<lambda>s. s\<lparr>ss_windows := clear_first w (ss_windows s)\<rparr>) (sv_sessions sv)\<rparr>)"

text \<open>The common end of the functions below: the winlink becomes the current one.\<close>

definition session_make_current :: "session \<Rightarrow> int \<Rightarrow> session" where
  "session_make_current s idx =
     s\<lparr>ss_lastw := winlink_stack_push (winlink_stack_remove (ss_lastw s) (Some idx)) (ss_curw s), ss_curw := Some idx\<rparr>"

definition session_goto :: "session \<Rightarrow> winlink \<Rightarrow> server \<Rightarrow> server \<times> int" where
  "session_goto s wl sv =
     (if ss_curw s = Some (wl_idx wl) then (sv, 1)
      else (winlink_clear_flags (wl_window wl) (session_put (session_make_current s (wl_idx wl)) sv), 0))"

definition has_alert :: "winlink \<Rightarrow> bool" where
  "has_alert wl \<longleftrightarrow> Bit_Operations.and (wl_flags wl) WINLINK_ALERTFLAGS \<noteq> 0"

text \<open>From a winlink on, the first one with an alert.\<close>

definition session_next_alert :: "winlinks \<Rightarrow> winlink option \<Rightarrow> winlink option" where
  "session_next_alert wwl wl = wl \<bind> (\<lambda>wl. find has_alert (filter (\<lambda>wm. wl_idx wl \<le> wl_idx wm) wwl))"

definition session_previous_alert :: "winlinks \<Rightarrow> winlink option \<Rightarrow> winlink option" where
  "session_previous_alert wwl wl = wl \<bind> (\<lambda>wl. find has_alert (rev (filter (\<lambda>wm. wl_idx wm \<le> wl_idx wl) wwl)))"

text \<open>A current window that is not among the winlinks is a pointer to freed memory.\<close>

definition session_next :: "server \<Rightarrow> nat \<Rightarrow> bool \<Rightarrow> (server \<times> int) option" where
  "session_next sv sid alert = do {
     s \<leftarrow> session_get sv sid;
     case ss_curw s of
       None \<Rightarrow> Some (sv, -1)
     | Some idx \<Rightarrow>
         if idx \<notin> wl_idx ` set (ss_windows s) then None
         else
           let wwl = ss_windows s;
               wl = winlink_next wwl idx;
               wl = (if alert then session_next_alert wwl wl else wl);
               wl = (if wl = None then (if alert then session_next_alert wwl (winlink_min wwl) else winlink_min wwl) else wl)
           in case wl of
                None \<Rightarrow> Some (sv, -1)
              | Some wl \<Rightarrow> Some (session_goto s wl sv)
   }"

definition session_previous :: "server \<Rightarrow> nat \<Rightarrow> bool \<Rightarrow> (server \<times> int) option" where
  "session_previous sv sid alert = do {
     s \<leftarrow> session_get sv sid;
     case ss_curw s of
       None \<Rightarrow> Some (sv, -1)
     | Some idx \<Rightarrow>
         if idx \<notin> wl_idx ` set (ss_windows s) then None
         else
           let wwl = ss_windows s;
               wl = winlink_previous wwl idx;
               wl = (if alert then session_previous_alert wwl wl else wl);
               wl = (if wl = None then (if alert then session_previous_alert wwl (winlink_max wwl) else winlink_max wwl) else wl)
           in case wl of
                None \<Rightarrow> Some (sv, -1)
              | Some wl \<Rightarrow> Some (session_goto s wl sv)
   }"

definition session_select :: "server \<Rightarrow> nat \<Rightarrow> int \<Rightarrow> (server \<times> int) option" where
  "session_select sv sid idx = do {
     s \<leftarrow> session_get sv sid;
     wl \<leftarrow> winlink_find_by_index (ss_windows s) idx;
     case wl of
       None \<Rightarrow> Some (sv, -1)
     | Some wl \<Rightarrow> Some (session_goto s wl sv)
   }"

definition session_last :: "server \<Rightarrow> nat \<Rightarrow> (server \<times> int) option" where
  "session_last sv sid = do {
     s \<leftarrow> session_get sv sid;
     case ss_lastw s of
       [] \<Rightarrow> Some (sv, -1)
     | idx # _ \<Rightarrow> do {
         wl \<leftarrow> find (\<lambda>wl. wl_idx wl = idx) (ss_windows s);
         Some (session_goto s wl sv)
       }
   }"

text \<open>Away from the current window: to the last one, the previous one or the next one, whichever works first.\<close>

definition session_leave :: "server \<Rightarrow> nat \<Rightarrow> server option" where
  "session_leave sv sid = do {
     (sv, r) \<leftarrow> session_last sv sid;
     if r = 0 then Some sv
     else do {
       (sv, r) \<leftarrow> session_previous sv sid False;
       if r = 0 then Some sv
       else do { (sv, _) \<leftarrow> session_next sv sid False; Some sv }
     }
   }"

section \<open>Groups\<close>

definition session_group_find :: "server \<Rightarrow> nat \<Rightarrow> nat list option" where
  "session_group_find sv sid = find (\<lambda>sg. sid \<in> set sg) (sv_groups sv)"

definition session_group_index :: "server \<Rightarrow> nat list \<Rightarrow> u_int option" where
  "session_group_index sv sg =
     (let n = length (takeWhile (\<lambda>g. g \<noteq> sg) (sv_groups sv)) in if n < length (sv_groups sv) then Some n else None)"

definition session_group_add :: "server \<Rightarrow> nat \<Rightarrow> nat \<Rightarrow> server" where
  "session_group_add sv target sid =
     (case session_group_find sv target of
        None \<Rightarrow> sv\<lparr>sv_groups := sv_groups sv @ [[target, sid]]\<rparr>
      | Some sg \<Rightarrow> sv\<lparr>sv_groups := map (\<lambda>g. if g = sg then sg @ [sid] else g) (sv_groups sv)\<rparr>)"

text \<open>A group of one session is dissolved.\<close>

definition session_group_remove :: "server \<Rightarrow> nat \<Rightarrow> server option" where
  "session_group_remove sv sid =
     (case session_group_find sv sid of
        None \<Rightarrow> Some sv
      | Some sg \<Rightarrow>
          let sg' = remove1 sid sg;
              sg'' = (case sg' of [] \<Rightarrow> [] | [s] \<Rightarrow> [] | _ \<Rightarrow> sg')
          in if sg' = [] then None
             else if sg'' = [] then Some (sv\<lparr>sv_groups := filter (\<lambda>g. g \<noteq> sg) (sv_groups sv)\<rparr>)
             else Some (sv\<lparr>sv_groups := map (\<lambda>g. if g = sg then sg'' else g) (sv_groups sv)\<rparr>))"

text \<open>All winlinks of a tree removed, and winlinks like those of another session added to an empty tree.\<close>

fun winlinks_free :: "winlinks \<Rightarrow> windows \<Rightarrow> windows option" where
  "winlinks_free [] ws = Some ws"
| "winlinks_free (wl # wls) ws = do {
     ws \<leftarrow> (case wl_window wl of None \<Rightarrow> Some ws | Some w \<Rightarrow> window_remove_ref ws w);
     winlinks_free wls ws
   }"

fun winlinks_link :: "winlinks \<Rightarrow> winlinks \<Rightarrow> windows \<Rightarrow> (winlinks \<times> windows) option" where
  "winlinks_link [] wwl ws = Some (wwl, ws)"
| "winlinks_link (wl # wls) wwl ws = do {
     (wwl, idx) \<leftarrow> winlink_add wwl (wl_idx wl);
     idx \<leftarrow> idx;
     w \<leftarrow> wl_window wl;
     (wwl, ws) \<leftarrow> winlink_set_window wwl idx w ws;
     let wwl = map (\<lambda>wm. if wl_idx wm = idx
       then wm\<lparr>wl_flags := Bit_Operations.or (wl_flags wm) (Bit_Operations.and (wl_flags wl) WINLINK_ALERTFLAGS)\<rparr> else wm) wwl;
     winlinks_link wls wwl ws
   }"

definition session_group_synchronize1 :: "nat \<Rightarrow> nat \<Rightarrow> server \<Rightarrow> server option" where
  "session_group_synchronize1 target sid sv = do {
     t \<leftarrow> session_get sv target;
     s \<leftarrow> session_get sv sid;
     if ss_windows t = [] then Some sv
     else do {
       gone \<leftarrow> (case ss_curw s of
           None \<Rightarrow> Some False
         | Some idx \<Rightarrow> do { wl \<leftarrow> winlink_find_by_index (ss_windows t) idx; Some (wl = None) });
       sv \<leftarrow> (if gone then session_leave sv sid else Some sv);
       t \<leftarrow> session_get sv target;
       s \<leftarrow> session_get sv sid;
       (wwl, ws) \<leftarrow> winlinks_link (ss_windows t) [] (sv_windows sv);
       idx \<leftarrow> (case ss_curw s of Some idx \<Rightarrow> Some idx | None \<Rightarrow> ss_curw t);
       curw \<leftarrow> winlink_find_by_index wwl idx;
       let lastw = filter (\<lambda>i. i \<in> wl_idx ` set wwl) (ss_lastw s);
       ws \<leftarrow> winlinks_free (ss_windows s) ws;
       Some (session_put (s\<lparr>ss_windows := wwl, ss_curw := map_option wl_idx curw, ss_lastw := lastw\<rparr>) (sv\<lparr>sv_windows := ws\<rparr>))
     }
   }"

definition session_group_synchronize_to :: "nat \<Rightarrow> server \<Rightarrow> server option" where
  "session_group_synchronize_to sid sv =
     (case session_group_find sv sid of
        None \<Rightarrow> Some sv
      | Some sg \<Rightarrow> do { target \<leftarrow> find (\<lambda>t. t \<noteq> sid) sg; session_group_synchronize1 target sid sv })"

fun synchronize_all :: "nat \<Rightarrow> nat list \<Rightarrow> server \<Rightarrow> server option" where
  "synchronize_all target [] sv = Some sv"
| "synchronize_all target (s # ss) sv = do {
     sv \<leftarrow> (if s \<noteq> target then session_group_synchronize1 target s sv else Some sv);
     synchronize_all target ss sv
   }"

definition session_group_synchronize_from :: "nat \<Rightarrow> server \<Rightarrow> server option" where
  "session_group_synchronize_from target sv =
     (case session_group_find sv target of
        None \<Rightarrow> Some sv
      | Some sg \<Rightarrow> synchronize_all target sg sv)"

section \<open>Creating and destroying\<close>

text \<open>The session is taken from the tree; the memory that remains until its clients have left is not modelled.\<close>

definition session_destroy :: "nat \<Rightarrow> server \<Rightarrow> server option" where
  "session_destroy sid sv = do {
     s \<leftarrow> session_get sv sid;
     sv \<leftarrow> session_group_remove (sv\<lparr>sv_sessions := filter (\<lambda>t. ss_idx t \<noteq> sid) (sv_sessions sv)\<rparr>) sid;
     ws \<leftarrow> winlinks_free (ss_windows s) (sv_windows sv);
     Some (sv\<lparr>sv_windows := ws\<rparr>)
   }"

text \<open>\<open>window_create\<close>, as far as it concerns the sessions: a window without references, or nothing.\<close>

definition window_create :: "bool \<Rightarrow> server \<Rightarrow> server \<times> nat option" where
  "window_create started sv =
     (let w = sv_next_window sv; sv = sv\<lparr>sv_next_window := u_add w 1\<rparr>
      in if started then (sv\<lparr>sv_windows := (sv_windows sv)(w \<mapsto> 0)\<rparr>, Some w) else (sv, None))"

definition session_new :: "nat \<Rightarrow> int \<Rightarrow> bool \<Rightarrow> server \<Rightarrow> (server \<times> int option) option" where
  "session_new sid idx started sv = do {
     s \<leftarrow> session_get sv sid;
     (wwl, wl) \<leftarrow> winlink_add (ss_windows s) idx;
     case wl of
       None \<Rightarrow> Some (sv, None)
     | Some idx \<Rightarrow> do {
         let sv = session_put (s\<lparr>ss_windows := wwl\<rparr>) sv;
         let (sv, w) = window_create started sv;
         case w of
           None \<Rightarrow> do {
             (wwl, ws) \<leftarrow> winlink_remove wwl idx (sv_windows sv);
             Some (session_put (s\<lparr>ss_windows := wwl\<rparr>) (sv\<lparr>sv_windows := ws\<rparr>), None)
           }
         | Some w \<Rightarrow> do {
             (wwl, ws) \<leftarrow> winlink_set_window wwl idx w (sv_windows sv);
             sv \<leftarrow> session_group_synchronize_from sid (session_put (s\<lparr>ss_windows := wwl\<rparr>) (sv\<lparr>sv_windows := ws\<rparr>));
             Some (sv, Some idx)
           }
       }
   }"

definition session_attach :: "nat \<Rightarrow> nat \<Rightarrow> int \<Rightarrow> server \<Rightarrow> (server \<times> int option) option" where
  "session_attach sid w idx sv = do {
     s \<leftarrow> session_get sv sid;
     (wwl, wl) \<leftarrow> winlink_add (ss_windows s) idx;
     case wl of
       None \<Rightarrow> Some (sv, None)
     | Some idx \<Rightarrow> do {
         (wwl, ws) \<leftarrow> winlink_set_window wwl idx w (sv_windows sv);
         sv \<leftarrow> session_group_synchronize_from sid (session_put (s\<lparr>ss_windows := wwl\<rparr>) (sv\<lparr>sv_windows := ws\<rparr>));
         Some (sv, Some idx)
       }
   }"

text \<open>The flag says that the session was destroyed with its last window.\<close>

definition session_detach :: "nat \<Rightarrow> int \<Rightarrow> server \<Rightarrow> (server \<times> bool) option" where
  "session_detach sid idx sv = do {
     s \<leftarrow> session_get sv sid;
     sv \<leftarrow> (if ss_curw s = Some idx then session_leave sv sid else Some sv);
     s \<leftarrow> session_get sv sid;
     (wwl, ws) \<leftarrow> winlink_remove (ss_windows s) idx (sv_windows sv);
     let s = s\<lparr>ss_lastw := winlink_stack_remove (ss_lastw s) (Some idx), ss_windows := wwl\<rparr>;
     sv \<leftarrow> session_group_synchronize_from sid (session_put s (sv\<lparr>sv_windows := ws\<rparr>));
     if wwl = [] then do { sv \<leftarrow> session_destroy sid sv; Some (sv, True) }
     else Some (sv, False)
   }"

text \<open>
  A name for a session without one: its number, the first that is not a name yet. One round more than there
  are sessions is enough.
\<close>

fun session_number :: "nat \<Rightarrow> string list \<Rightarrow> u_int \<Rightarrow> u_int option" where
  "session_number 0 names idx = None"
| "session_number (Suc n) names idx =
     (if dec_string idx \<in> set names then session_number n names (u_add idx 1) else Some idx)"

text \<open>\<open>start\<close> is \<open>None\<close> when no command is given, otherwise the index for the first window and whether it starts.\<close>

definition session_create :: "string option \<Rightarrow> (int \<times> bool) option \<Rightarrow> server \<Rightarrow> (server \<times> nat option) option" where
  "session_create name start sv = do {
     sid \<leftarrow> (case name of
         Some _ \<Rightarrow> Some (sv_next_session sv)
       | None \<Rightarrow> session_number (Suc (length (sv_sessions sv))) (map ss_name (sv_sessions sv)) (sv_next_session sv));
     let s = \<lparr>ss_idx = sid, ss_name = (case name of Some name \<Rightarrow> name | None \<Rightarrow> dec_string sid), ss_curw = None, ss_lastw = [],
       ss_windows = [], ss_options = options_init (Some (sv_options sv))\<rparr>;
     let sv = sv\<lparr>sv_next_session := u_add sid 1, sv_sessions := insort_key ss_name s (sv_sessions sv)\<rparr>;
     case start of
       None \<Rightarrow> Some (sv, Some sid)
     | Some (idx, started) \<Rightarrow> do {
         (sv, wl) \<leftarrow> session_new sid idx started sv;
         case wl of
           None \<Rightarrow> do { sv \<leftarrow> session_destroy sid sv; Some (sv, None) }
         | Some idx \<Rightarrow> do { (sv, _) \<leftarrow> session_select sv sid idx; Some (sv, Some sid) }
       }
   }"

section \<open>Moving windows\<close>

fun renumber_link :: "winlinks \<Rightarrow> int option \<Rightarrow> int \<Rightarrow> int \<Rightarrow> winlinks \<Rightarrow> windows \<Rightarrow> (winlinks \<times> windows \<times> int) option" where
  "renumber_link [] curw new_idx new_curw wwl ws = Some (wwl, ws, new_curw)"
| "renumber_link (wl # wls) curw new_idx new_curw wwl ws = do {
     (wwl, idx) \<leftarrow> winlink_add wwl new_idx;
     idx \<leftarrow> idx;
     w \<leftarrow> wl_window wl;
     (wwl, ws) \<leftarrow> winlink_set_window wwl idx w ws;
     let wwl = map (\<lambda>wm. if wl_idx wm = idx
       then wm\<lparr>wl_flags := Bit_Operations.or (wl_flags wm) (Bit_Operations.and (wl_flags wl) WINLINK_ALERTFLAGS)\<rparr> else wm) wwl;
     renumber_link wls curw (new_idx + 1) (if curw = Some (wl_idx wl) then idx else new_curw) wwl ws
   }"

definition session_renumber_windows :: "nat \<Rightarrow> server \<Rightarrow> server option" where
  "session_renumber_windows sid sv = do {
     s \<leftarrow> session_get sv sid;
     base \<leftarrow> options_get_number (ss_options s) ''base-index'';
     (wwl, ws, new_curw) \<leftarrow> renumber_link (ss_windows s) (ss_curw s) base 0 [] (sv_windows sv);
     let lastw = filter (\<lambda>i. i \<in> wl_idx ` set wwl) (ss_lastw s);
     curw \<leftarrow> winlink_find_by_index wwl new_curw;
     ws \<leftarrow> winlinks_free (ss_windows s) ws;
     Some (session_put (s\<lparr>ss_windows := wwl, ss_curw := map_option wl_idx curw, ss_lastw := lastw\<rparr>) (sv\<lparr>sv_windows := ws\<rparr>))
   }"

text \<open>\<open>server_unlink_window\<close>; what happens to the clients of a destroyed session is left out.\<close>

definition server_unlink_window :: "nat \<Rightarrow> int \<Rightarrow> server \<Rightarrow> server option" where
  "server_unlink_window sid idx sv = map_option fst (session_detach sid idx sv)"

text \<open>The loop over the winlinks of one session, at most one round for each, and over the sessions.\<close>

fun detach_window :: "nat \<Rightarrow> nat \<Rightarrow> nat \<Rightarrow> server \<Rightarrow> (server \<times> bool) option" where
  "detach_window 0 sid w sv = Some (sv, False)"
| "detach_window (Suc n) sid w sv = do {
     s \<leftarrow> session_get sv sid;
     case winlink_find_by_window (ss_windows s) w of
       None \<Rightarrow> Some (sv, False)
     | Some wl \<Rightarrow> do {
         (sv, gone) \<leftarrow> session_detach sid (wl_idx wl) sv;
         if gone then Some (sv, True) else detach_window n sid w sv
       }
   }"

fun kill_window_in :: "nat list \<Rightarrow> nat \<Rightarrow> server \<Rightarrow> server option" where
  "kill_window_in [] w sv = Some sv"
| "kill_window_in (sid # sids) w sv = do {
     s \<leftarrow> session_get sv sid;
     sv \<leftarrow> (if session_has s w = None then Some sv
       else do {
         (sv, gone) \<leftarrow> detach_window (length (ss_windows s)) sid w sv;
         if gone then Some sv
         else do {
           s \<leftarrow> session_get sv sid;
           renumber \<leftarrow> options_get_number (ss_options s) ''renumber-windows'';
           if renumber \<noteq> 0 then session_renumber_windows sid sv else Some sv
         }
       });
     kill_window_in sids w sv
   }"

definition server_kill_window :: "nat \<Rightarrow> server \<Rightarrow> server option" where
  "server_kill_window w sv = kill_window_in (map ss_idx (sv_sessions sv)) w sv"

text \<open>The flag is false when the code returns -1.\<close>

definition server_link_window :: "nat \<Rightarrow> int \<Rightarrow> nat \<Rightarrow> int \<Rightarrow> bool \<Rightarrow> bool \<Rightarrow> server \<Rightarrow> (server \<times> bool) option" where
  "server_link_window src srcidx dst dstidx killflag selectflag sv = do {
     let srcsg = session_group_find sv src;
     let dstsg = session_group_find sv dst;
     if src \<noteq> dst \<and> srcsg \<noteq> None \<and> srcsg = dstsg then Some (sv, False)
     else do {
       s \<leftarrow> session_get sv src;
       srcwl \<leftarrow> find (\<lambda>wl. wl_idx wl = srcidx) (ss_windows s);
       w \<leftarrow> wl_window srcwl;
       d \<leftarrow> session_get sv dst;
       dstwl \<leftarrow> (if dstidx \<noteq> -1 then winlink_find_by_index (ss_windows d) dstidx else Some None);
       case dstwl of
         Some wl \<Rightarrow>
           if wl_window wl = Some w then Some (sv, False)
           else if killflag then do {
             (wwl, ws) \<leftarrow> winlink_remove (ss_windows d) dstidx (sv_windows sv);
             let d' = d\<lparr>ss_windows := wwl, ss_lastw := winlink_stack_remove (ss_lastw d) (Some dstidx),
               ss_curw := (if ss_curw d = Some dstidx then None else ss_curw d)\<rparr>;
             (sv, wl) \<leftarrow> session_attach dst w dstidx (session_put d' (sv\<lparr>sv_windows := ws\<rparr>));
             case wl of
               None \<Rightarrow> Some (sv, False)
             | Some idx \<Rightarrow> do {
                 sv \<leftarrow> (if selectflag \<or> ss_curw d = Some dstidx then map_option fst (session_select sv dst idx) else Some sv);
                 Some (sv, True)
               }
           }
           else Some (sv, False)
       | None \<Rightarrow> do {
           base \<leftarrow> (if dstidx = -1 then options_get_number (ss_options d) ''base-index'' else Some 0);
           (sv, wl) \<leftarrow> session_attach dst w (if dstidx = -1 then -1 - base else dstidx) sv;
           case wl of
             None \<Rightarrow> Some (sv, False)
           | Some idx \<Rightarrow> do {
               sv \<leftarrow> (if selectflag then map_option fst (session_select sv dst idx) else Some sv);
               Some (sv, True)
             }
         }
     }
   }"

end
