(* ===== verification/Session_Facts.thy ===== *)
theory Session_Facts
  imports Session Machine
begin

text \<open>
  The invariant of the session code. A session's winlinks are strictly sorted, its current window and its
  last windows are among them; the reference count of every window is the number of winlinks that point to
  it. Everything the session functions decide depends on a session up to the alert flags of its winlinks,
  which is what \<open>core\<close> keeps.
\<close>

section \<open>The invariant\<close>

definition idxs :: "winlinks \<Rightarrow> int set" where
  "idxs wwl = wl_idx ` set wwl"

definition links_ok :: "winlinks \<Rightarrow> bool" where
  "links_ok wwl \<longleftrightarrow> sorted_wrt (<) (map wl_idx wwl) \<and> (\<forall>wl \<in> set wwl. 0 \<le> wl_idx wl \<and> wl_idx wl \<le> INT_MAX \<and> wl_window wl \<noteq> None)"

definition half_ok :: "session \<Rightarrow> bool" where
  "half_ok s \<longleftrightarrow> links_ok (ss_windows s) \<and> distinct (ss_lastw s) \<and> set (ss_lastw s) \<subseteq> idxs (ss_windows s) \<and>
     (\<forall>i. ss_curw s = Some i \<longrightarrow> i \<in> idxs (ss_windows s) \<and> i \<notin> set (ss_lastw s))"

definition session_ok :: "session \<Rightarrow> bool" where
  "session_ok s \<longleftrightarrow> half_ok s \<and> ss_curw s \<noteq> None"

definition links_count :: "nat \<Rightarrow> winlinks \<Rightarrow> nat" where
  "links_count w wwl = length (filter (\<lambda>wl. wl_window wl = Some w) wwl)"

definition refs :: "server \<Rightarrow> nat \<Rightarrow> nat" where
  "refs sv w = (\<Sum>s\<leftarrow>sv_sessions sv. links_count w (ss_windows s))"

text \<open>A window exists as long as something refers to it, with the right count.\<close>

definition counted :: "(nat \<Rightarrow> nat) \<Rightarrow> windows \<Rightarrow> bool" where
  "counted f ws \<longleftrightarrow> (\<forall>w. ws w = (if f w = 0 then None else Some (f w)))"

text \<open>The session \<open>x\<close> may be without a current window.\<close>

definition base :: "nat option \<Rightarrow> server \<Rightarrow> bool" where
  "base x sv \<longleftrightarrow> distinct (map ss_idx (sv_sessions sv)) \<and>
     (\<forall>s \<in> set (sv_sessions sv). half_ok s \<and> (x = Some (ss_idx s) \<or> ss_curw s \<noteq> None)) \<and> counted (refs sv) (sv_windows sv)"

section \<open>Sorted winlinks\<close>

lemma links_ok_simps [simp]: "links_ok []" "links_ok (wl # wwl) \<longleftrightarrow> (\<forall>i \<in> idxs wwl. wl_idx wl < i) \<and>
    0 \<le> wl_idx wl \<and> wl_idx wl \<le> INT_MAX \<and> wl_window wl \<noteq> None \<and> links_ok wwl"
  by (auto simp: links_ok_def idxs_def)

lemma idxs_simps [simp]: "idxs [] = {}" "idxs (wl # wwl) = insert (wl_idx wl) (idxs wwl)" "idxs (a @ b) = idxs a \<union> idxs b"
  by (auto simp: idxs_def)

lemma links_count_simps [simp]: "links_count w [] = 0"
  "links_count w (wl # wwl) = (if wl_window wl = Some w then 1 else 0) + links_count w wwl"
  "links_count w (a @ b) = links_count w a + links_count w b"
  by (simp_all add: links_count_def)

lemma links_ok_append: "links_ok (a @ b) \<longleftrightarrow> links_ok a \<and> links_ok b \<and> (\<forall>i \<in> idxs a. \<forall>j \<in> idxs b. i < j)"
  by (induction a) auto

lemma links_ok_idx: "links_ok wwl \<Longrightarrow> i \<in> idxs wwl \<Longrightarrow> 0 \<le> i \<and> i \<le> INT_MAX"
  by (auto simp: links_ok_def idxs_def)

lemma find_idx:
  "(find (\<lambda>wl. wl_idx wl = i) wwl = None) = (i \<notin> idxs wwl)"
  "find (\<lambda>wl. wl_idx wl = i) wwl = Some wl \<Longrightarrow> wl \<in> set wwl \<and> wl_idx wl = i"
  by (induction wwl) (auto split: if_splits)

lemma find_by_index: "0 \<le> i \<Longrightarrow> winlink_find_by_index wwl i = Some (find (\<lambda>wl. wl_idx wl = i) wwl)"
  by (simp add: winlink_find_by_index_def)

text \<open>The flags do not matter.\<close>

definition bare :: "winlinks \<Rightarrow> winlinks" where
  "bare wwl = map (\<lambda>wl. wl\<lparr>wl_flags := 0\<rparr>) wwl"

lemma bare_simps [simp]: "bare [] = []" "bare (wl # wwl) = wl\<lparr>wl_flags := 0\<rparr> # bare wwl" "bare (a @ b) = bare a @ bare b"
  "bare (bare wwl) = bare wwl" "bare wwl = [] \<longleftrightarrow> wwl = []" "[] = bare wwl \<longleftrightarrow> wwl = []" "length (bare wwl) = length wwl"
  by (auto simp: bare_def comp_def)

lemma bare_idxs [simp]: "idxs (bare wwl) = idxs wwl"
  by (induction wwl) auto

lemma bare_ok [simp]: "links_ok (bare wwl) = links_ok wwl"
  by (induction wwl) auto

lemma bare_count [simp]: "links_count w (bare wwl) = links_count w wwl"
  by (induction wwl) auto

lemma bare_eqD:
  assumes "bare a = bare b"
  shows "idxs a = idxs b" "links_ok a = links_ok b" "links_count w a = links_count w b" "length a = length b" "a = [] \<longleftrightarrow> b = []"
  using assms bare_idxs [of a] bare_idxs [of b] bare_ok [of a] bare_ok [of b] bare_count [of w a] bare_count [of w b]
    bare_simps(7) [of a] bare_simps(7) [of b] bare_simps(5) [of a] bare_simps(5) [of b] by metis+

lemma bare_clear_first [simp]: "bare (clear_first w wwl) = bare wwl"
  by (induction w wwl rule: clear_first.induct) auto

lemma bare_flags [simp]: "bare (map (\<lambda>wl. if P wl then wl\<lparr>wl_flags := f wl\<rparr> else wl) wwl) = bare wwl"
  by (induction wwl) auto

section \<open>Counting references\<close>

lemma remove_ref_ok:
  assumes "counted (\<lambda>v. f v + (if v = w then 1 else 0)) ws"
  shows "returns (window_remove_ref ws w) (counted f)"
  using assms by (auto simp: counted_def window_remove_ref_def)

lemma winlinks_free_ok:
  "counted (\<lambda>w. f w + links_count w wls) ws \<Longrightarrow> returns (winlinks_free wls ws) (counted f)"
proof (induction wls arbitrary: ws)
  case (Cons wl wls)
  show ?case
  proof (cases "wl_window wl")
    case None
    then show ?thesis using Cons by simp
  next
    case (Some w)
    have "(\<lambda>v. f v + links_count v (wl # wls)) = (\<lambda>v. (f v + links_count v wls) + (if v = w then 1 else 0))"
      using Some by (auto simp: fun_eq_iff)
    with Cons.prems have "returns (window_remove_ref ws w) (counted (\<lambda>v. f v + links_count v wls))"
      by (intro remove_ref_ok) simp
    then have "returns (window_remove_ref ws w) (\<lambda>ws. returns (winlinks_free wls ws) (counted f))"
      by (rule returns_mono) (rule Cons.IH)
    then show ?thesis using Some by simp
  qed
qed simp

lemma winlink_remove_ok:
  assumes ok: "links_ok wwl" and i: "i \<in> idxs wwl" and c: "counted (\<lambda>w. f w + links_count w wwl) ws"
  shows "returns (winlink_remove wwl i ws) (\<lambda>(wwl', ws'). wwl' = filter (\<lambda>wl. wl_idx wl \<noteq> i) wwl \<and>
    links_ok wwl' \<and> idxs wwl' = idxs wwl - {i} \<and> counted (\<lambda>w. f w + links_count w wwl') ws')"
proof -
  let ?wwl' = "filter (\<lambda>wl. wl_idx wl \<noteq> i) wwl"
  have "find (\<lambda>wl. wl_idx wl = i) wwl \<noteq> None" using i find_idx(1) [of i wwl] by simp
  then obtain wl where f: "find (\<lambda>wl. wl_idx wl = i) wwl = Some wl" by blast
  note wl = f conjunct1 [OF find_idx(2) [OF f]] conjunct2 [OF find_idx(2) [OF f]]
  have *: "links_ok ?wwl' \<and> idxs ?wwl' = idxs wwl - {i} \<and>
      links_count w wwl = links_count w ?wwl' + (if wl_window wl = Some w then 1 else 0)" for w
    using ok wl(2,3)
  proof (induction wwl)
    case (Cons x xs)
    show ?case
    proof (cases "x = wl")
      case True
      then have "filter (\<lambda>wl. wl_idx wl \<noteq> i) xs = xs" using Cons.prems by (auto simp: filter_id_conv idxs_def)
      moreover have "i \<notin> idxs xs" using Cons.prems True by auto
      ultimately show ?thesis using Cons.prems True by auto
    next
      case False
      then have "wl \<in> set xs" using Cons.prems by simp
      then have "wl_idx x \<noteq> i" using Cons.prems by (force simp: idxs_def)
      then show ?thesis using Cons False by auto
    qed
  qed simp
  obtain w where w: "wl_window wl = Some w" using ok wl(2) by (auto simp: links_ok_def)
  have "(\<lambda>v. f v + links_count v wwl) = (\<lambda>v. (f v + links_count v ?wwl') + (if v = w then 1 else 0))"
    using * w by (auto simp: fun_eq_iff)
  then have "returns (window_remove_ref ws w) (counted (\<lambda>v. f v + links_count v ?wwl'))"
    using c by (intro remove_ref_ok) simp
  then show ?thesis using wl(1) w * by (auto simp: winlink_remove_def returns_eq)
qed

section \<open>Adding winlinks\<close>

lemma insort_links:
  assumes "links_ok wwl" and "wl_idx wl \<notin> idxs wwl" and "0 \<le> wl_idx wl" "wl_idx wl \<le> INT_MAX" "wl_window wl \<noteq> None"
  shows "links_ok (insort_key wl_idx wl wwl) \<and> idxs (insort_key wl_idx wl wwl) = insert (wl_idx wl) (idxs wwl) \<and>
    links_count w (insort_key wl_idx wl wwl) = links_count w (wl # wwl)"
  using assms by (induction wwl) (force simp: idxs_def)+

text \<open>The search for a free index finds one.\<close>

lemma next_index_loop_free:
  assumes "0 \<le> idx" "idx \<le> INT_MAX" "0 \<le> i" "i \<le> INT_MAX"
  shows "next_index_loop n wwl idx i = Some (Some r) \<Longrightarrow> 0 \<le> r \<and> r \<le> INT_MAX \<and> r \<notin> idxs wwl"
  using assms
proof (induction n arbitrary: i)
  case (Suc n)
  then show ?case using find_idx(1) [of i wwl]
    by (auto simp: find_by_index Let_def bind_Some_iff split: if_splits)
qed simp

text \<open>
  After \<open>k\<close> rounds the search has met \<open>k\<close> different indexes that are in use, so it ends within one round more
  than there are winlinks.
\<close>

lemma next_index_loop_ends:
  assumes "finite U" and "U \<subseteq> idxs wwl" and "card U + n = Suc (length wwl)" and "0 \<le> idx" "idx \<le> INT_MAX" "0 \<le> i" "i \<le> INT_MAX"
    and "U = (if idx \<le> i then {idx..<i} else {idx..INT_MAX} \<union> {0..<i})"
  shows "next_index_loop n wwl idx i \<noteq> None"
  using assms
proof (induction n arbitrary: i U)
  case 0
  have "card U \<le> card (idxs wwl)" using 0(2) by (intro card_mono) (auto simp: idxs_def)
  also have "\<dots> \<le> length wwl" unfolding idxs_def using card_image_le [of "set wwl" wl_idx] card_length [of wwl] by simp
  finally show ?case using 0(3) by simp
next
  case (Suc n)
  show ?case
  proof (cases "i \<in> idxs wwl")
    case False
    then show ?thesis using Suc.prems find_idx(1) [of i wwl] by (simp add: find_by_index)
  next
    case True
    define j where "j = (if i = INT_MAX then 0 else i + 1)"
    have step: "next_index_loop (Suc n) wwl idx i = (if j = idx then Some None else next_index_loop n wwl idx j)"
      using True Suc.prems find_idx(1) [of i wwl] by (auto simp: find_by_index Let_def j_def)
    show ?thesis
    proof (cases "j = idx")
      case False
      have notin: "i \<notin> U" using Suc.prems by auto
      have U: "insert i U = (if idx \<le> j then {idx..<j} else {idx..INT_MAX} \<union> {0..<j})"
        using Suc.prems False by (auto simp: j_def)
      have "next_index_loop n wwl idx j \<noteq> None"
      proof (rule Suc.IH [OF _ _ _ Suc.prems(4,5) _ _ U])
        show "finite (insert i U)" using Suc.prems(1) by simp
        show "insert i U \<subseteq> idxs wwl" using Suc.prems(2) True by simp
        show "card (insert i U) + n = Suc (length wwl)" using Suc.prems(1,3) notin by simp
        show "0 \<le> j" "j \<le> INT_MAX" using Suc.prems(6,7) by (auto simp: j_def)
      qed
      then show ?thesis using step False by simp
    qed (use step in simp)
  qed
qed

lemma winlink_next_index_ok:
  assumes "0 \<le> idx" "idx \<le> INT_MAX"
  shows "returns (winlink_next_index wwl idx) (\<lambda>r. \<forall>i. r = Some i \<longrightarrow> 0 \<le> i \<and> i \<le> INT_MAX \<and> i \<notin> idxs wwl)"
proof -
  have "next_index_loop (Suc (length wwl)) wwl idx idx \<noteq> None"
    by (rule next_index_loop_ends [of "{}"]) (use assms in auto)
  then obtain r where "winlink_next_index wwl idx = Some r" unfolding winlink_next_index_def by blast
  moreover from this have "0 \<le> i \<and> i \<le> INT_MAX \<and> i \<notin> idxs wwl" if "r = Some i" for i
    using next_index_loop_free [of idx idx "Suc (length wwl)" wwl i] assms that unfolding winlink_next_index_def by blast
  ultimately show ?thesis by simp
qed

definition fresh_link :: "int \<Rightarrow> winlink" where
  "fresh_link i = \<lparr>wl_idx = i, wl_window = None, wl_flags = 0\<rparr>"

lemma winlink_add_ok:
  assumes "- INT_MAX - 1 \<le> idx" "idx \<le> INT_MAX"
  shows "returns (winlink_add wwl idx) (\<lambda>(wwl', r). case r of None \<Rightarrow> wwl' = wwl \<and> (0 \<le> idx \<longrightarrow> idx \<in> idxs wwl)
    | Some i \<Rightarrow> 0 \<le> i \<and> i \<le> INT_MAX \<and> i \<notin> idxs wwl \<and> (0 \<le> idx \<longrightarrow> i = idx) \<and> wwl' = insort_key wl_idx (fresh_link i) wwl)"
proof (cases "idx < 0")
  case True
  obtain r where "winlink_next_index wwl (- idx - 1) = Some r" "\<forall>i. r = Some i \<longrightarrow> 0 \<le> i \<and> i \<le> INT_MAX \<and> i \<notin> idxs wwl"
    using winlink_next_index_ok [of "- idx - 1" wwl] True assms unfolding returns_eq by auto
  then show ?thesis using True by (cases r) (simp_all add: winlink_add_def fresh_link_def)
next
  case False
  then show ?thesis using assms find_idx(1) [of idx wwl]
    by (auto simp: winlink_add_def find_by_index fresh_link_def)
qed

text \<open>Setting the window of the new winlink.\<close>

lemma set_window_fresh:
  assumes ok: "links_ok wwl" and i: "i \<notin> idxs wwl" "0 \<le> i" "i \<le> INT_MAX" and w: "ws w = Some n"
  defines "wwl' \<equiv> insort_key wl_idx (fresh_link i\<lparr>wl_window := Some w\<rparr>) wwl"
  shows "winlink_set_window (insort_key wl_idx (fresh_link i) wwl) i w ws = Some (wwl', ws(w \<mapsto> n + 1))"
    "links_ok wwl'" "idxs wwl' = insert i (idxs wwl)" "links_count v wwl' = links_count v wwl + (if v = w then 1 else 0)"
proof -
  let ?wl = "fresh_link i\<lparr>wl_window := Some w\<rparr>"
  have "map (\<lambda>wl. if wl_idx wl = i then wl\<lparr>wl_window := Some w\<rparr> else wl) (insort_key wl_idx (fresh_link i) wwl) = wwl'"
    unfolding wwl'_def using i(1)
  proof (induction wwl)
    case (Cons a wwl)
    moreover have "map (\<lambda>wl. if wl_idx wl = i then wl\<lparr>wl_window := Some w\<rparr> else wl) wwl = wwl"
      using Cons.prems by (intro map_idI) (auto simp: idxs_def)
    ultimately show ?case by (auto simp: fresh_link_def)
  qed (simp add: fresh_link_def)
  then show "winlink_set_window (insort_key wl_idx (fresh_link i) wwl) i w ws = Some (wwl', ws(w \<mapsto> n + 1))"
    using w by (simp add: winlink_set_window_def)
  show "links_ok wwl'" "idxs wwl' = insert i (idxs wwl)" "links_count v wwl' = links_count v wwl + (if v = w then 1 else 0)"
    unfolding wwl'_def using insort_links [OF ok, of ?wl v] i by (auto simp: fresh_link_def)
qed

lemma counted_add:
  "counted f ws \<Longrightarrow> ws w = Some n \<Longrightarrow> counted (\<lambda>v. f v + (if v = w then 1 else 0)) (ws(w \<mapsto> n + 1))"
  "counted f ws \<Longrightarrow> ws w = None \<Longrightarrow> counted (\<lambda>v. f v + (if v = w then 1 else 0)) (ws(w \<mapsto> 1))"
  by (auto simp: counted_def split: if_splits)

end
