(* ===== verification/Session_Ops.thy ===== *)
theory Session_Ops
  imports Session_Facts
begin

text \<open>
  The operations on one session, and the synchronization of one session with another of its group, keep the
  invariant. A step is described by what becomes of each session, found by its number.
\<close>

section \<open>Sessions by number\<close>

definition core :: "session \<Rightarrow> session" where
  "core s = s\<lparr>ss_windows := bare (ss_windows s)\<rparr>"

lemma core_simps [simp]: "ss_idx (core s) = ss_idx s" "ss_name (core s) = ss_name s" "ss_curw (core s) = ss_curw s"
  "ss_lastw (core s) = ss_lastw s" "ss_options (core s) = ss_options s" "ss_windows (core s) = bare (ss_windows s)"
  by (simp_all add: core_def)

lemma core_half_ok [simp]: "half_ok (core s) = half_ok s"
  by (simp add: half_ok_def)

lemma core_eqD:
  assumes "core s = core t"
  shows "ss_idx s = ss_idx t" "ss_name s = ss_name t" "ss_curw s = ss_curw t" "ss_lastw s = ss_lastw t" "half_ok s = half_ok t"
    "ss_options s = ss_options t" "bare (ss_windows s) = bare (ss_windows t)" "links_count w (ss_windows s) = links_count w (ss_windows t)"
    "idxs (ss_windows s) = idxs (ss_windows t)"
proof -
  show b: "bare (ss_windows s) = bare (ss_windows t)" using assms by (metis core_simps(6))
  show "ss_idx s = ss_idx t" "ss_name s = ss_name t" "ss_curw s = ss_curw t" "ss_lastw s = ss_lastw t"
    "ss_options s = ss_options t" "half_ok s = half_ok t" using assms by (metis core_simps core_half_ok)+
  show "links_count w (ss_windows s) = links_count w (ss_windows t)" "idxs (ss_windows s) = idxs (ss_windows t)"
    using bare_eqD [OF b] by simp_all
qed

definition ids :: "server \<Rightarrow> nat list" where
  "ids sv = map ss_idx (sv_sessions sv)"

lemma session_get_mem: "session_get sv sid = Some s \<Longrightarrow> s \<in> set (sv_sessions sv) \<and> ss_idx s = sid"
  by (auto simp: session_get_def find_Some_iff)

lemma session_get_idx: "session_get sv sid = Some s \<Longrightarrow> ss_idx s = sid"
  by (simp add: session_get_mem)

lemma session_get_None: "session_get sv sid = None \<longleftrightarrow> sid \<notin> set (ids sv)"
  by (auto simp: session_get_def find_None_iff ids_def)

lemma session_get_distinct:
  assumes "distinct (ids sv)" and "s \<in> set (sv_sessions sv)"
  shows "session_get sv (ss_idx s) = Some s"
proof -
  have "session_get sv (ss_idx s) \<noteq> None" using assms(2) by (simp add: session_get_None ids_def)
  then obtain t where t: "session_get sv (ss_idx s) = Some t" by blast
  then have "t \<in> set (sv_sessions sv)" "ss_idx t = ss_idx s" using session_get_mem by blast+
  then have "t = s" using assms by (auto simp: ids_def distinct_map dest: inj_onD)
  then show ?thesis using t by simp
qed

lemma session_alive_get: "session_alive sv sid \<longleftrightarrow> (\<exists>s. session_get sv sid = Some s)"
  using session_get_None [of sv sid] by (auto simp: session_alive_def ids_def)

definition links_at :: "server \<Rightarrow> nat \<Rightarrow> winlinks" where
  "links_at sv sid = (case session_get sv sid of Some s \<Rightarrow> ss_windows s | None \<Rightarrow> [])"

lemma refs_eq: "distinct (ids sv) \<Longrightarrow> refs sv w = (\<Sum>sid\<leftarrow>ids sv. links_count w (links_at sv sid))"
proof -
  assume d: "distinct (ids sv)"
  have "map (\<lambda>s. links_count w (ss_windows s)) (sv_sessions sv) = map (\<lambda>s. links_count w (links_at sv (ss_idx s))) (sv_sessions sv)"
    using session_get_distinct [OF d] by (auto simp: links_at_def)
  then show ?thesis unfolding refs_def ids_def map_map comp_def by (rule arg_cong)
qed

text \<open>The references from all sessions but one.\<close>

definition rest :: "server \<Rightarrow> nat \<Rightarrow> nat \<Rightarrow> nat" where
  "rest sv sid w = (\<Sum>i\<leftarrow>filter (\<lambda>i. i \<noteq> sid) (ids sv). links_count w (links_at sv i))"

lemma sum_list_without:
  fixes f :: "nat \<Rightarrow> nat"
  shows "sid \<in> set xs \<Longrightarrow> distinct xs \<Longrightarrow> sum_list (map f xs) = sum_list (map f (filter (\<lambda>i. i \<noteq> sid) xs)) + f sid"
proof (induction xs)
  case (Cons x xs)
  have "filter (\<lambda>i. i \<noteq> sid) xs = xs" if "sid \<notin> set xs" using that by (intro filter_True) auto
  then show ?case using Cons by auto
qed simp

lemma refs_split: "distinct (ids sv) \<Longrightarrow> session_get sv sid = Some s \<Longrightarrow> refs sv w = rest sv sid w + links_count w (ss_windows s)"
proof -
  assume d: "distinct (ids sv)" and s: "session_get sv sid = Some s"
  have "sid \<in> set (ids sv)" using s session_get_None [of sv sid] by auto
  then have "(\<Sum>i\<leftarrow>ids sv. links_count w (links_at sv i)) = rest sv sid w + links_count w (links_at sv sid)"
    using sum_list_without [of sid "ids sv"] d by (simp add: rest_def)
  then show ?thesis using refs_eq [OF d, of w] s by (simp add: links_at_def)
qed

section \<open>Steps that change one session\<close>

definition frame :: "server \<Rightarrow> server \<Rightarrow> bool" where
  "frame sv sv' \<longleftrightarrow> ids sv' = ids sv \<and> map ss_name (sv_sessions sv') = map ss_name (sv_sessions sv) \<and> sv_groups sv' = sv_groups sv \<and>
     sv_next_session sv' = sv_next_session sv \<and> sv_options sv' = sv_options sv"

definition upd :: "nat \<Rightarrow> session \<Rightarrow> server \<Rightarrow> server \<Rightarrow> bool" where
  "upd sid s' sv sv' \<longleftrightarrow> frame sv sv' \<and> sv_next_window sv' = sv_next_window sv \<and>
     (\<forall>t. map_option core (session_get sv' t) = (if t = sid then Some (core s') else map_option core (session_get sv t)))"

lemma frame_refl [simp]: "frame sv sv"
  by (simp add: frame_def)

lemma frame_trans: "frame a b \<Longrightarrow> frame b c \<Longrightarrow> frame a c"
  by (simp add: frame_def)

lemma upd_trans: "upd sid s1 sv sv1 \<Longrightarrow> upd sid s2 sv1 sv2 \<Longrightarrow> upd sid s2 sv sv2"
  by (auto simp: upd_def intro: frame_trans)

lemma upd_get:
  assumes "upd sid s' sv sv'"
  obtains s'' where "session_get sv' sid = Some s''" "core s'' = core s'"
proof -
  have "map_option core (session_get sv' sid) = Some (core s')" using assms by (simp add: upd_def)
  then show ?thesis using that by auto
qed

lemma upd_other:
  assumes "upd sid s' sv sv'" and "t \<noteq> sid"
  shows "session_get sv t = Some a \<Longrightarrow> \<exists>b. session_get sv' t = Some b \<and> core b = core a"
    "session_get sv' t = Some b \<Longrightarrow> \<exists>a. session_get sv t = Some a \<and> core b = core a"
proof -
  have *: "map_option core (session_get sv' t) = map_option core (session_get sv t)" using assms by (simp add: upd_def)
  then show "session_get sv t = Some a \<Longrightarrow> \<exists>b. session_get sv' t = Some b \<and> core b = core a" by auto
  show "session_get sv' t = Some b \<Longrightarrow> \<exists>a. session_get sv t = Some a \<and> core b = core a" using * by (metis map_option_eq_Some)
qed

lemma upd_rest: "upd sid s' sv sv' \<Longrightarrow> rest sv' sid w = rest sv sid w"
proof -
  assume u: "upd sid s' sv sv'"
  have ids: "ids sv' = ids sv" using u by (simp add: upd_def frame_def)
  have "links_count w (links_at sv' i) = links_count w (links_at sv i)" if "i \<noteq> sid" for i
  proof -
    have "map_option core (session_get sv' i) = map_option core (session_get sv i)" using u that by (simp add: upd_def)
    then show ?thesis by (cases "session_get sv i"; cases "session_get sv' i") (auto simp: links_at_def dest: core_eqD)
  qed
  then have "map (\<lambda>i. links_count w (links_at sv' i)) (filter (\<lambda>i. i \<noteq> sid) (ids sv)) =
      map (\<lambda>i. links_count w (links_at sv i)) (filter (\<lambda>i. i \<noteq> sid) (ids sv))" by simp
  then show ?thesis unfolding rest_def ids by (rule arg_cong)
qed

lemma base_distinct: "base x sv \<Longrightarrow> distinct (ids sv)"
  by (simp add: base_def ids_def)

lemma base_get: "base x sv \<Longrightarrow> session_get sv sid = Some s \<Longrightarrow> half_ok s \<and> (x = Some sid \<or> ss_curw s \<noteq> None)"
  using session_get_mem [of sv sid s] by (auto simp: base_def)

lemma base_counted: "base x sv \<Longrightarrow> session_get sv sid = Some s \<Longrightarrow> counted (\<lambda>w. rest sv sid w + links_count w (ss_windows s)) (sv_windows sv)"
proof -
  assume *: "base x sv" "session_get sv sid = Some s"
  have "refs sv = (\<lambda>w. rest sv sid w + links_count w (ss_windows s))"
    using refs_split [OF base_distinct [OF *(1)] *(2)] by (simp add: fun_eq_iff)
  then show ?thesis using *(1) by (simp add: base_def)
qed

text \<open>A session is replaced: what has to be shown.\<close>

lemma base_upd:
  assumes b: "base x sv" and u: "upd sid s' sv sv'" and h: "half_ok s'" "y = Some sid \<or> ss_curw s' \<noteq> None"
    and xy: "x = None \<or> x = Some sid \<or> x = y"
    and c: "counted (\<lambda>w. rest sv sid w + links_count w (ss_windows s')) (sv_windows sv')"
  shows "base y sv'"
proof -
  have ids: "ids sv' = ids sv" using u by (simp add: upd_def frame_def)
  have d: "distinct (ids sv')" using base_distinct [OF b] ids by simp
  obtain s'' where s'': "session_get sv' sid = Some s''" "core s'' = core s'" using upd_get [OF u] .
  have ok: "half_ok t \<and> (y = Some (ss_idx t) \<or> ss_curw t \<noteq> None)" if "t \<in> set (sv_sessions sv')" for t
  proof (cases "ss_idx t = sid")
    case True
    then have "t = s''" using session_get_distinct [OF d that] s''(1) by simp
    then show ?thesis using core_eqD(3,5) [OF s''(2)] h True by simp
  next
    case False
    have "session_get sv' (ss_idx t) = Some t" by (rule session_get_distinct [OF d that])
    from upd_other(2) [OF u False this] obtain a where a: "session_get sv (ss_idx t) = Some a" "core t = core a" by blast
    then show ?thesis using base_get [OF b a(1)] core_eqD(3,5) [OF a(2)] xy False by auto
  qed
  have "refs sv' = (\<lambda>w. rest sv sid w + links_count w (ss_windows s'))"
    using refs_split [OF d s''(1)] upd_rest [OF u] core_eqD(8) [OF s''(2)] by (simp add: fun_eq_iff)
  then show ?thesis using d ok c by (simp add: base_def ids_def)
qed

lemma upd_put:
  assumes "session_get sv sid = Some s" and "ss_idx s' = sid" "ss_name s' = ss_name s" and d: "distinct (ids sv)"
  shows "upd sid s' sv (session_put s' (sv\<lparr>sv_windows := ws\<rparr>))" "session_get (session_put s' (sv\<lparr>sv_windows := ws\<rparr>)) sid = Some s'"
proof -
  let ?sv = "session_put s' (sv\<lparr>sv_windows := ws\<rparr>)"
  have idle: "ss_idx (if ss_idx t = ss_idx s' then s' else t) = ss_idx t" for t by simp
  have get: "session_get ?sv t = (if t = sid then Some s' else session_get sv t)" for t
  proof -
    have "find (\<lambda>u. ss_idx u = t) (map (\<lambda>t. if ss_idx t = sid then s' else t) xs) =
        (if t = sid then map_option (\<lambda>_. s') (find (\<lambda>u. ss_idx u = t) xs) else find (\<lambda>u. ss_idx u = t) xs)" for xs
      using assms(2) by (induction xs) auto
    then show ?thesis using assms(1,2) by (simp add: session_get_def session_put_def)
  qed
  then show "session_get ?sv sid = Some s'" by simp
  have "map ss_name (sv_sessions ?sv) = map ss_name (sv_sessions sv)"
    using assms(2,3) session_get_distinct [OF d] assms(1) by (auto simp: session_put_def) (metis option.inject)
  then have "frame sv ?sv" using idle by (simp add: frame_def session_put_def ids_def)
  then show "upd sid s' sv ?sv" using get by (simp add: upd_def session_put_def)
qed

lemma clear_flags_upd:
  assumes "session_get sv sid = Some s"
  shows "upd sid s sv (winlink_clear_flags w sv)" "sv_windows (winlink_clear_flags w sv) = sv_windows sv"
proof -
  have get: "map_option core (session_get (winlink_clear_flags w sv) t) = map_option core (session_get sv t)" for t
  proof (cases w)
    case (Some v)
    have "map_option core (find (\<lambda>s. ss_idx s = t) (map (\<lambda>s. s\<lparr>ss_windows := clear_first v (ss_windows s)\<rparr>) xs)) =
        map_option core (find (\<lambda>s. ss_idx s = t) xs)" for xs
      by (induction xs) (auto simp: core_def)
    then show ?thesis using Some by (simp add: winlink_clear_flags_def session_get_def)
  qed (simp add: winlink_clear_flags_def)
  have "frame sv (winlink_clear_flags w sv)"
    by (cases w) (simp_all add: winlink_clear_flags_def frame_def ids_def comp_def)
  then show "upd sid s sv (winlink_clear_flags w sv)" using get assms by (cases w) (auto simp: upd_def winlink_clear_flags_def)
  show "sv_windows (winlink_clear_flags w sv) = sv_windows sv" by (simp add: winlink_clear_flags_def split: option.splits)
qed

section \<open>Changing the current window\<close>

lemma make_current_ok:
  assumes h: "half_ok s" and i: "i \<in> idxs (ss_windows s)" and c: "ss_curw s \<noteq> Some i"
  shows "half_ok (session_make_current s i)" "ss_idx (session_make_current s i) = ss_idx s" "ss_name (session_make_current s i) = ss_name s"
    "ss_windows (session_make_current s i) = ss_windows s" "ss_curw (session_make_current s i) = Some i"
proof -
  have d: "distinct (remove1 i (ss_lastw s))" "set (remove1 i (ss_lastw s)) = set (ss_lastw s) - {i}"
    using h by (auto simp: half_ok_def set_remove1_eq)
  show "half_ok (session_make_current s i)" using h i c d
    by (cases "ss_curw s") (auto simp: half_ok_def session_make_current_def winlink_stack_push_def winlink_stack_remove_def set_remove1_eq)
  show "ss_idx (session_make_current s i) = ss_idx s" "ss_name (session_make_current s i) = ss_name s"
    "ss_windows (session_make_current s i) = ss_windows s" "ss_curw (session_make_current s i) = Some i"
    by (simp_all add: session_make_current_def)
qed

text \<open>A session with another current window and otherwise the same winlinks.\<close>

definition moved :: "nat \<Rightarrow> server \<Rightarrow> server \<Rightarrow> bool" where
  "moved sid sv sv' \<longleftrightarrow> (\<exists>s s'. session_get sv sid = Some s \<and> upd sid s' sv sv' \<and> sv_windows sv' = sv_windows sv \<and>
     half_ok s' \<and> bare (ss_windows s') = bare (ss_windows s) \<and> (ss_curw s \<noteq> None \<longrightarrow> ss_curw s' \<noteq> None))"

lemma moved_base:
  assumes m: "moved sid sv sv'" and b: "base x sv"
  shows "base x sv'"
proof -
  obtain s s' where *: "session_get sv sid = Some s" "upd sid s' sv sv'" "sv_windows sv' = sv_windows sv" "half_ok s'"
    "bare (ss_windows s') = bare (ss_windows s)" "ss_curw s \<noteq> None \<longrightarrow> ss_curw s' \<noteq> None" using m by (auto simp: moved_def)
  show ?thesis by (rule base_upd [OF b *(2,4)])
      (use base_get [OF b *(1)] base_counted [OF b *(1)] * bare_eqD(3) [OF *(5)] in auto)
qed

lemma moved_trans:
  assumes "moved sid a b" and "moved sid b c"
  shows "moved sid a c"
proof -
  obtain s s' where 1: "session_get a sid = Some s" "upd sid s' a b" "sv_windows b = sv_windows a"
    "bare (ss_windows s') = bare (ss_windows s)" "ss_curw s \<noteq> None \<longrightarrow> ss_curw s' \<noteq> None" using assms(1) by (auto simp: moved_def)
  obtain t t' where 2: "session_get b sid = Some t" "upd sid t' b c" "sv_windows c = sv_windows b" "half_ok t'"
    "bare (ss_windows t') = bare (ss_windows t)" "ss_curw t \<noteq> None \<longrightarrow> ss_curw t' \<noteq> None" using assms(2) by (auto simp: moved_def)
  have "core t = core s'" using upd_get [OF 1(2)] 2(1) by auto
  from core_eqD(3,7) [OF this] show ?thesis unfolding moved_def
    using 1 2 upd_trans [OF 1(2) 2(2)] by (intro exI [of _ s] exI [of _ t']) auto
qed

lemma session_goto_ok:
  assumes b: "distinct (ids sv)" and s: "session_get sv sid = Some s" "half_ok s" and wl: "wl_idx wl \<in> idxs (ss_windows s)"
    and g: "session_goto s wl sv = (sv', r)"
  shows "moved sid sv sv'" "\<exists>s'. session_get sv' sid = Some s' \<and> ss_curw s' = Some (wl_idx wl)"
    "r = (if ss_curw s = Some (wl_idx wl) then 1 else 0)"
proof -
  have sid: "ss_idx s = sid" using session_get_idx [OF s(1)] .
  show "r = (if ss_curw s = Some (wl_idx wl) then 1 else 0)" using g by (auto simp: session_goto_def split: if_splits)
  have "moved sid sv sv' \<and> (\<exists>s'. session_get sv' sid = Some s' \<and> ss_curw s' = Some (wl_idx wl))"
  proof (cases "ss_curw s = Some (wl_idx wl)")
    case True
    then have "sv' = sv" using g by (simp add: session_goto_def)
    moreover have "upd sid s sv sv" using s(1) by (simp add: upd_def)
    ultimately show ?thesis
      using s True by (auto simp: moved_def)
  next
    case False
    let ?s = "session_make_current s (wl_idx wl)"
    note mc = make_current_ok [OF s(2) wl False]
    define sv1 where "sv1 = session_put ?s sv"
    have 1: "upd sid ?s sv sv1" "session_get sv1 sid = Some ?s" "sv_windows sv1 = sv_windows sv"
      using upd_put [OF s(1) _ mc(3) b, of "sv_windows sv"] mc(2) sid by (simp_all add: sv1_def session_put_def)
    have sv': "sv' = winlink_clear_flags (wl_window wl) sv1" using g False by (simp add: session_goto_def sv1_def)
    note 2 = clear_flags_upd [OF 1(2), of "wl_window wl", folded sv']
    have u: "upd sid ?s sv sv'" using upd_trans [OF 1(1) 2(1)] .
    then have "moved sid sv sv'" unfolding moved_def using s(1) 1(3) 2(2) mc by (intro exI [of _ s] exI [of _ ?s]) simp
    moreover obtain t where "session_get sv' sid = Some t" "core t = core ?s" using upd_get [OF u] .
    ultimately show ?thesis using core_eqD(3) mc(5) by metis
  qed
  then show "moved sid sv sv'" "\<exists>s'. session_get sv' sid = Some s' \<and> ss_curw s' = Some (wl_idx wl)" by blast+
qed

lemma moved_refl: "session_get sv sid = Some s \<Longrightarrow> half_ok s \<Longrightarrow> moved sid sv sv"
  by (auto simp: moved_def upd_def)

text \<open>Neighbours in the sorted list.\<close>

lemma next_mem: "winlink_next wwl i = Some wl \<Longrightarrow> wl_idx wl \<in> idxs wwl \<and> i < wl_idx wl"
  by (auto simp: winlink_next_def find_Some_iff idxs_def)

lemma previous_mem: "winlink_previous wwl i = Some wl \<Longrightarrow> wl_idx wl \<in> idxs wwl \<and> wl_idx wl < i"
proof -
  assume "winlink_previous wwl i = Some wl"
  then have "wl \<in> set (rev wwl) \<and> wl_idx wl < i" unfolding winlink_previous_def find_Some_iff by (metis nth_mem)
  then show ?thesis by (auto simp: idxs_def)
qed

lemma last_idx: "links_ok wwl \<Longrightarrow> j \<in> idxs wwl \<Longrightarrow> j \<le> wl_idx (last wwl)"
  by (induction wwl rule: rev_induct) (auto simp: links_ok_append)

lemma min_max_mem: "winlink_min wwl = Some wl \<Longrightarrow> wl_idx wl \<in> idxs wwl" "winlink_max wwl = Some wl \<Longrightarrow> wl_idx wl \<in> idxs wwl"
  by (auto simp: winlink_min_def winlink_max_def idxs_def split: list.splits if_splits)

lemma alert_mem:
  "session_next_alert wwl wl = Some wm \<Longrightarrow> wl_idx wm \<in> idxs wwl"
  "session_previous_alert wwl wl = Some wm \<Longrightarrow> wl_idx wm \<in> idxs wwl"
proof -
  have *: "find has_alert xs = Some wm \<Longrightarrow> wm \<in> set xs" for xs by (metis find_Some_iff nth_mem)
  show "session_next_alert wwl wl = Some wm \<Longrightarrow> wl_idx wm \<in> idxs wwl"
    "session_previous_alert wwl wl = Some wm \<Longrightarrow> wl_idx wm \<in> idxs wwl"
    by (auto simp: session_next_alert_def session_previous_alert_def bind_Some_iff idxs_def dest!: *)
qed

lemma session_next_ok:
  assumes b: "distinct (ids sv)" and s: "session_get sv sid = Some s" "half_ok s"
  shows "returns (session_next sv sid alert) (\<lambda>(sv', r). moved sid sv sv' \<and>
    (r \<noteq> -1 \<longrightarrow> (\<exists>s'. session_get sv' sid = Some s' \<and> (r = 0 \<longrightarrow> ss_curw s' \<noteq> ss_curw s))))"
proof (cases "ss_curw s")
  case None
  then show ?thesis using s moved_refl [OF s] by (simp add: session_next_def)
next
  case (Some i)
  then have i: "i \<in> idxs (ss_windows s)" using s(2) by (simp add: half_ok_def)
  let ?wwl = "ss_windows s"
  define wl0 where "wl0 = (if alert then session_next_alert ?wwl (winlink_next ?wwl i) else winlink_next ?wwl i)"
  define wl where "wl = (if wl0 = None then (if alert then session_next_alert ?wwl (winlink_min ?wwl) else winlink_min ?wwl) else wl0)"
  have run: "session_next sv sid alert = (case wl of None \<Rightarrow> Some (sv, -1) | Some wl \<Rightarrow> Some (session_goto s wl sv))"
    using s(1) Some i by (simp add: session_next_def idxs_def wl0_def wl_def Let_def)
  show ?thesis
  proof (cases wl)
    case None
    then show ?thesis using run moved_refl [OF s] by simp
  next
    case (Some w)
    then have "wl_idx w \<in> idxs ?wwl" using next_mem [of ?wwl i w] min_max_mem(1) [of ?wwl w] alert_mem(1) [of ?wwl _ w]
      by (auto simp: wl_def wl0_def split: if_splits)
    from session_goto_ok [OF b s this] Some run show ?thesis by (cases "session_goto s w sv") auto
  qed
qed

lemma session_previous_ok:
  assumes b: "distinct (ids sv)" and s: "session_get sv sid = Some s" "half_ok s"
  shows "returns (session_previous sv sid alert) (\<lambda>(sv', r). moved sid sv sv' \<and>
    (r \<noteq> -1 \<longrightarrow> (\<exists>s'. session_get sv' sid = Some s' \<and> (r = 0 \<longrightarrow> ss_curw s' \<noteq> ss_curw s))))"
proof (cases "ss_curw s")
  case None
  then show ?thesis using s moved_refl [OF s] by (simp add: session_previous_def)
next
  case (Some i)
  then have i: "i \<in> idxs (ss_windows s)" using s(2) by (simp add: half_ok_def)
  let ?wwl = "ss_windows s"
  define wl0 where "wl0 = (if alert then session_previous_alert ?wwl (winlink_previous ?wwl i) else winlink_previous ?wwl i)"
  define wl where "wl = (if wl0 = None then (if alert then session_previous_alert ?wwl (winlink_max ?wwl) else winlink_max ?wwl) else wl0)"
  have run: "session_previous sv sid alert = (case wl of None \<Rightarrow> Some (sv, -1) | Some wl \<Rightarrow> Some (session_goto s wl sv))"
    using s(1) Some i by (simp add: session_previous_def idxs_def wl0_def wl_def Let_def)
  show ?thesis
  proof (cases wl)
    case None
    then show ?thesis using run moved_refl [OF s] by simp
  next
    case (Some w)
    then have "wl_idx w \<in> idxs ?wwl" using previous_mem [of ?wwl i w] min_max_mem(2) [of ?wwl w] alert_mem(2) [of ?wwl _ w]
      by (auto simp: wl_def wl0_def split: if_splits)
    from session_goto_ok [OF b s this] Some run show ?thesis by (cases "session_goto s w sv") auto
  qed
qed

lemma session_select_ok:
  assumes b: "distinct (ids sv)" and s: "session_get sv sid = Some s" "half_ok s" and i: "0 \<le> i"
  shows "returns (session_select sv sid i) (\<lambda>(sv', r). moved sid sv sv' \<and>
    (i \<in> idxs (ss_windows s) \<longrightarrow> (\<exists>s'. session_get sv' sid = Some s' \<and> ss_curw s' = Some i)))"
proof (cases "find (\<lambda>wl. wl_idx wl = i) (ss_windows s)")
  case None
  then show ?thesis using s i moved_refl [OF s] find_idx(1) [of i "ss_windows s"] by (simp add: session_select_def find_by_index)
next
  case (Some wl)
  then have "wl_idx wl = i" "wl_idx wl \<in> idxs (ss_windows s)" using find_idx(2) [OF Some] by (auto simp: idxs_def)
  with session_goto_ok [OF b s this(2)] Some s(1) i show ?thesis
    by (cases "session_goto s wl sv") (auto simp: session_select_def find_by_index)
qed

lemma session_last_ok:
  assumes b: "distinct (ids sv)" and s: "session_get sv sid = Some s" "half_ok s"
  shows "returns (session_last sv sid) (\<lambda>(sv', r). moved sid sv sv' \<and>
    (if ss_lastw s = [] then r = -1 \<and> sv' = sv else r = 0 \<and> (\<exists>s'. session_get sv' sid = Some s' \<and> ss_curw s' \<noteq> ss_curw s)))"
proof (cases "ss_lastw s")
  case Nil
  then show ?thesis using s(1) moved_refl [OF s] by (simp add: session_last_def)
next
  case (Cons i js)
  then have i: "i \<in> idxs (ss_windows s)" "ss_curw s \<noteq> Some i" using s(2) by (auto simp: half_ok_def)
  then obtain wl where wl: "find (\<lambda>wl. wl_idx wl = i) (ss_windows s) = Some wl" using find_idx(1) [of i "ss_windows s"] by auto
  then have "wl_idx wl = i" using find_idx(2) [OF wl] by blast
  with session_goto_ok [OF b s, of wl] wl i s(1) Cons show ?thesis
    by (cases "session_goto s wl sv") (auto simp: session_last_def)
qed

text \<open>Leaving the current window works whenever there is another one.\<close>

lemma session_leave_ok:
  assumes b: "distinct (ids sv)" and s: "session_get sv sid = Some s" "half_ok s" and i: "ss_curw s = Some i"
    and two: "\<exists>j \<in> idxs (ss_windows s). j \<noteq> i"
  shows "returns (session_leave sv sid) (\<lambda>sv'. moved sid sv sv' \<and> (\<exists>s'. session_get sv' sid = Some s' \<and> ss_curw s' \<noteq> Some i))"
proof (cases "ss_lastw s = []")
  case False
  then show ?thesis using session_last_ok [OF b s] i unfolding returns_eq by (force simp: session_leave_def)
next
  case True
  then obtain r where l: "session_last sv sid = Some (sv, -1)"
    using session_last_ok [OF b s] unfolding returns_eq by auto
  obtain sv' r where p: "session_previous sv sid False = Some (sv', r)" "moved sid sv sv'"
    "r \<noteq> -1 \<longrightarrow> (\<exists>s'. session_get sv' sid = Some s' \<and> (r = 0 \<longrightarrow> ss_curw s' \<noteq> ss_curw s))"
    using session_previous_ok [OF b s, of False] unfolding returns_eq by auto
  have "r = 0"
  proof -
    let ?wwl = "ss_windows s"
    have iin: "i \<in> idxs ?wwl" using s(2) i by (simp add: half_ok_def)
    define wl where "wl = (if winlink_previous ?wwl i = None then winlink_max ?wwl else winlink_previous ?wwl i)"
    have ne: "?wwl \<noteq> []" using iin by auto
    then obtain w where w: "wl = Some w" by (cases "winlink_previous ?wwl i") (auto simp: wl_def winlink_max_def)
    have run: "session_previous sv sid False = Some (session_goto s w sv)"
      using s(1) i iin w [unfolded wl_def] by (auto simp: session_previous_def idxs_def [symmetric] Let_def split: if_splits)
    have "wl_idx w \<noteq> i"
    proof (cases "winlink_previous ?wwl i")
      case (Some v)
      then show ?thesis using w previous_mem [OF Some] by (auto simp: wl_def)
    next
      case None
      then have "\<forall>wl \<in> set ?wwl. \<not> wl_idx wl < i" by (simp add: winlink_previous_def find_None_iff)
      then obtain j where j: "j \<in> idxs ?wwl" "i < j" using two by (force simp: idxs_def)
      have "w = last ?wwl" using w None ne by (simp add: wl_def winlink_max_def)
      moreover have "links_ok ?wwl \<Longrightarrow> j \<in> idxs ?wwl \<Longrightarrow> j \<le> wl_idx (last ?wwl)" by (rule last_idx)
      ultimately show ?thesis using j s(2) by (auto simp: half_ok_def)
    qed
    then show ?thesis using run p(1) session_goto_ok(3) [OF b s, of w sv' r] i w
        previous_mem [of ?wwl i w] min_max_mem(2) [of ?wwl w] by (auto simp: wl_def split: if_splits)
  qed
  then show ?thesis using l p i by (auto simp: session_leave_def)
qed

section \<open>Synchronizing\<close>

lemma insort_last: "\<forall>i \<in> idxs wwl. i < wl_idx wl \<Longrightarrow> insort_key wl_idx wl wwl = wwl @ [wl]"
  by (induction wwl) (auto simp: insort_is_Cons)

lemma winlinks_link_ok:
  "links_ok (wwl @ wls) \<Longrightarrow> counted f ws \<Longrightarrow> \<forall>wl \<in> set wls. \<forall>w. wl_window wl = Some w \<longrightarrow> f w \<noteq> 0 \<Longrightarrow>
   returns (winlinks_link wls wwl ws) (\<lambda>(wwl', ws'). bare wwl' = bare (wwl @ wls) \<and> counted (\<lambda>w. f w + links_count w wls) ws')"
proof (induction wls arbitrary: wwl ws f)
  case (Cons wl wls)
  let ?i = "wl_idx wl"
  have i: "0 \<le> ?i" "?i \<le> INT_MAX" "?i \<notin> idxs wwl" "\<forall>j \<in> idxs wwl. j < ?i" using Cons.prems(1) by (auto simp: links_ok_append)
  obtain w where w: "wl_window wl = Some w" using Cons.prems(1) by (auto simp: links_ok_append)
  then obtain n where n: "ws w = Some n" using Cons.prems(2,3) by (auto simp: counted_def)
  have add: "winlink_add wwl ?i = Some (insort_key wl_idx (fresh_link ?i) wwl, Some ?i)"
    using i find_idx(1) [of ?i wwl] by (simp add: winlink_add_def find_by_index fresh_link_def)
  have okw: "links_ok wwl" using Cons.prems(1) by (simp add: links_ok_append)
  note set = set_window_fresh [where ws = ws and w = w and n = n, OF okw i(3,1,2) n]
  let ?wwl1 = "insort_key wl_idx (fresh_link ?i\<lparr>wl_window := Some w\<rparr>) wwl"
  define wwl2 where "wwl2 = map (\<lambda>wm. if wl_idx wm = ?i
       then wm\<lparr>wl_flags := Bit_Operations.or (wl_flags wm) (Bit_Operations.and (wl_flags wl) WINLINK_ALERTFLAGS)\<rparr> else wm) ?wwl1"
  have "?wwl1 = wwl @ [fresh_link ?i\<lparr>wl_window := Some w\<rparr>]" using i(4) by (intro insort_last) (simp add: fresh_link_def)
  then have "bare ?wwl1 = bare (wwl @ [wl])" using w by (simp add: fresh_link_def)
  then have bare2: "bare wwl2 = bare (wwl @ [wl])" by (simp add: wwl2_def)
  have "bare (wwl2 @ wls) = bare (wwl @ wl # wls)" using bare2 by simp
  then have ok2: "links_ok (wwl2 @ wls)" using Cons.prems(1) bare_eqD(2) by blast
  have c2: "counted (\<lambda>v. f v + (if v = w then 1 else 0)) (ws(w \<mapsto> n + 1))" by (rule counted_add(1) [OF Cons.prems(2) n])
  have "\<forall>wl \<in> set wls. \<forall>v. wl_window wl = Some v \<longrightarrow> f v + (if v = w then 1 else 0) \<noteq> 0" using Cons.prems(3) by auto
  from Cons.IH [OF ok2 c2 this] have ih: "returns (winlinks_link wls wwl2 (ws(w \<mapsto> n + 1)))
      (\<lambda>(wwl', ws'). bare wwl' = bare (wwl2 @ wls) \<and> counted (\<lambda>v. f v + (if v = w then 1 else 0) + links_count v wls) ws')" .
  have "(\<lambda>v. f v + (if v = w then 1 else 0) + links_count v wls) = (\<lambda>v. f v + links_count v (wl # wls))"
    using w by (auto simp: fun_eq_iff)
  moreover have "winlinks_link (wl # wls) wwl ws = winlinks_link wls wwl2 (ws(w \<mapsto> n + 1))"
    using add w set(1) by (simp add: wwl2_def Let_def)
  ultimately show ?case using ih \<open>bare (wwl2 @ wls) = bare (wwl @ wl # wls)\<close> by simp
qed (simp add: bare_def)

lemma counted_alive:
  assumes "base x sv" and "session_get sv sid = Some s" and "wl \<in> set (ss_windows s)" "wl_window wl = Some w"
  shows "refs sv w \<noteq> 0"
proof -
  have "links_count w (ss_windows s) \<noteq> 0" using assms(3,4) by (auto simp: links_count_def filter_empty_conv)
  then show ?thesis using refs_split [OF base_distinct [OF assms(1)] assms(2), of w] by simp
qed

text \<open>The winlinks of \<open>target\<close> copied to session \<open>sid\<close>, whose current window becomes the one with index \<open>c\<close>.\<close>

lemma synchronize_tail:
  assumes b: "base x sv" and t: "session_get sv target = Some t" and s: "session_get sv sid = Some s" and ne: "target \<noteq> sid"
    and c: "c \<in> idxs (ss_windows t)" "ss_curw s = Some c \<or> ss_curw s = None \<and> ss_curw t = Some c \<and> ss_lastw s = []"
    and y: "x = None \<or> x = Some sid \<or> x = y"
  shows "returns (do {
       (wwl, ws) \<leftarrow> winlinks_link (ss_windows t) [] (sv_windows sv);
       idx \<leftarrow> (case ss_curw s of Some idx \<Rightarrow> Some idx | None \<Rightarrow> ss_curw t);
       curw \<leftarrow> winlink_find_by_index wwl idx;
       let lastw = filter (\<lambda>i. i \<in> wl_idx ` set wwl) (ss_lastw s);
       ws \<leftarrow> winlinks_free (ss_windows s) ws;
       Some (session_put (s\<lparr>ss_windows := wwl, ss_curw := map_option wl_idx curw, ss_lastw := lastw\<rparr>) (sv\<lparr>sv_windows := ws\<rparr>))
     }) (\<lambda>sv'. \<exists>s'. upd sid s' sv sv' \<and> bare (ss_windows s') = bare (ss_windows t) \<and> ss_curw s' = Some c \<and> base y sv')"
proof -
  note d = base_distinct [OF b]
  have th: "half_ok t" and sh: "half_ok s" using base_get [OF b t] base_get [OF b s] by auto
  have tl: "links_ok ([] @ ss_windows t)" using th by (simp add: half_ok_def)
  have cnt: "counted (refs sv) (sv_windows sv)" using b by (simp add: base_def)
  have alive: "\<forall>wl \<in> set (ss_windows t). \<forall>w. wl_window wl = Some w \<longrightarrow> refs sv w \<noteq> 0" using counted_alive [OF b t] by blast
  obtain wwl ws where link: "winlinks_link (ss_windows t) [] (sv_windows sv) = Some (wwl, ws)" "bare wwl = bare (ss_windows t)"
    "counted (\<lambda>w. refs sv w + links_count w (ss_windows t)) ws"
    using winlinks_link_ok [OF tl cnt alive] unfolding returns_eq by auto
  have "(\<lambda>w. refs sv w + links_count w (ss_windows t)) = (\<lambda>w. (rest sv sid w + links_count w wwl) + links_count w (ss_windows s))"
    using refs_split [OF d s] bare_eqD(3) [OF link(2)] by (simp add: fun_eq_iff)
  with link(3) have "counted (\<lambda>w. (rest sv sid w + links_count w wwl) + links_count w (ss_windows s)) ws" by metis
  from winlinks_free_ok [OF this] obtain ws' where free: "winlinks_free (ss_windows s) ws = Some ws'"
    "counted (\<lambda>w. rest sv sid w + links_count w wwl) ws'" unfolding returns_eq by blast
  have c0: "0 \<le> c" "c \<in> idxs wwl" using c(1) tl links_ok_idx bare_eqD(1) [OF link(2)] by auto
  then obtain wl where wl: "find (\<lambda>wl. wl_idx wl = c) wwl = Some wl" using find_idx(1) [of c wwl] by auto
  then have wlc: "wl_idx wl = c" using find_idx(2) [OF wl] by blast
  define s' where "s' = s\<lparr>ss_windows := wwl, ss_curw := Some c, ss_lastw := filter (\<lambda>i. i \<in> wl_idx ` set wwl) (ss_lastw s)\<rparr>"
  define sv' where "sv' = session_put s' (sv\<lparr>sv_windows := ws'\<rparr>)"
  have u: "upd sid s' sv sv'" unfolding sv'_def
    by (rule upd_put(1) [OF s _ _ d]) (simp_all add: s'_def session_get_idx [OF s])
  have "half_ok s'" using sh c(2) c0(2) bare_eqD(2) [OF link(2)] tl
    by (auto simp: half_ok_def s'_def idxs_def)
  then have "base y sv'" by (rule base_upd [OF b u _ _ _]) (use free(2) y in \<open>auto simp: s'_def sv'_def session_put_def\<close>)
  moreover have "(case ss_curw s of Some idx \<Rightarrow> Some idx | None \<Rightarrow> ss_curw t) = Some c" using c(2) by auto
  moreover have "winlink_find_by_index wwl c = Some (Some wl)" using wl c0(1) by (simp add: find_by_index)
  ultimately show ?thesis using link(1) free(1) wlc u link(2)
    by (simp add: sv'_def s'_def) (intro exI [of _ s'], simp add: sv'_def s'_def)
qed

text \<open>
  Synchronizing session \<open>sid\<close> with \<open>target\<close>, when at most one of its winlinks is gone there, and not all:
  afterwards it has the same winlinks, and nothing else changed.
\<close>

lemma synchronize1_ok:
  assumes b: "base x sv" and x: "x \<noteq> Some sid" and t: "session_get sv target = Some t" and s: "session_get sv sid = Some s"
    and ne: "target \<noteq> sid" and gone: "idxs (ss_windows s) - idxs (ss_windows t) \<subseteq> {i}" "idxs (ss_windows s) \<inter> idxs (ss_windows t) \<noteq> {}"
  shows "returns (session_group_synchronize1 target sid sv) (\<lambda>sv'. \<exists>s'. upd sid s' sv sv' \<and>
    bare (ss_windows s') = bare (ss_windows t) \<and> base x sv')"
proof -
  note d = base_distinct [OF b]
  have sh: "half_ok s" "ss_curw s \<noteq> None" using base_get [OF b s] x by auto
  have th: "half_ok t" "ss_windows t \<noteq> []" using base_get [OF b t] gone(2) by auto
  obtain c where c: "ss_curw s = Some c" using sh(2) by blast
  have cin: "c \<in> idxs (ss_windows s)" "0 \<le> c" using sh(1) c links_ok_idx by (auto simp: half_ok_def)
  have "\<exists>sv1 s1 c1. (if c \<notin> idxs (ss_windows t) then session_leave sv sid else Some sv) = Some sv1 \<and> moved sid sv sv1 \<and>
      session_get sv1 sid = Some s1 \<and> ss_curw s1 = Some c1 \<and> c1 \<in> idxs (ss_windows t)"
  proof (cases "c \<in> idxs (ss_windows t)")
    case True
    then show ?thesis using moved_refl [OF s sh(1)] s c by auto
  next
    case False
    then have only: "i = c" using gone cin by blast
    have "\<exists>j \<in> idxs (ss_windows s). j \<noteq> c" using gone(2) False by auto
    from session_leave_ok [OF d s sh(1) c this] obtain sv1 s1 where l: "session_leave sv sid = Some sv1" "moved sid sv sv1"
      "session_get sv1 sid = Some s1" "ss_curw s1 \<noteq> Some c" unfolding returns_eq by blast
    obtain s' where m: "upd sid s' sv sv1" "half_ok s'" "bare (ss_windows s') = bare (ss_windows s)" "ss_curw s' \<noteq> None"
      using l(2) s sh(2) by (auto simp: moved_def)
    have "core s1 = core s'" using upd_get [OF m(1)] l(3) by auto
    then have same: "ss_curw s1 = ss_curw s'" by (rule core_eqD(3))
    obtain c1 where "ss_curw s' = Some c1" using m(4) by blast
    then have c1: "ss_curw s1 = Some c1" "c1 \<in> idxs (ss_windows s)" "c1 \<noteq> c"
      using same m(2) bare_eqD(1) [OF m(3)] l(4) by (simp_all add: half_ok_def)
    then have "c1 \<in> idxs (ss_windows t)" using gone(1) only by blast
    then show ?thesis using False l c1 by auto
  qed
  then obtain sv1 s1 c1 where 1: "(if c \<notin> idxs (ss_windows t) then session_leave sv sid else Some sv) = Some sv1" "moved sid sv sv1"
    "session_get sv1 sid = Some s1" "ss_curw s1 = Some c1" "c1 \<in> idxs (ss_windows t)" by blast
  note b1 = moved_base [OF 1(2) b]
  obtain m where m: "upd sid m sv sv1" "bare (ss_windows m) = bare (ss_windows s)"
    using 1(2) s by (auto simp: moved_def)
  obtain t1 where t1: "session_get sv1 target = Some t1" "core t1 = core t" using upd_other(1) [OF m(1) ne t] by blast
  have c1: "c1 \<in> idxs (ss_windows t1)" using 1(5) core_eqD(9) [OF t1(2)] by simp
  have x3: "x = None \<or> x = Some sid \<or> x = x" by simp
  note tail = synchronize_tail [OF b1 t1(1) 1(3) ne c1 disjI1 [OF 1(4)] x3]
  have run: "session_group_synchronize1 target sid sv = do {
       (wwl, ws) \<leftarrow> winlinks_link (ss_windows t1) [] (sv_windows sv1);
       idx \<leftarrow> (case ss_curw s1 of Some idx \<Rightarrow> Some idx | None \<Rightarrow> ss_curw t1);
       curw \<leftarrow> winlink_find_by_index wwl idx;
       let lastw = filter (\<lambda>i. i \<in> wl_idx ` set wwl) (ss_lastw s1);
       ws \<leftarrow> winlinks_free (ss_windows s1) ws;
       Some (session_put (s1\<lparr>ss_windows := wwl, ss_curw := map_option wl_idx curw, ss_lastw := lastw\<rparr>) (sv1\<lparr>sv_windows := ws\<rparr>))
     }"
    using t s th(2) c cin(2) 1(1,3) t1(1) find_idx(1) [of c "ss_windows t"]
    by (simp add: session_group_synchronize1_def find_by_index)
  show ?thesis unfolding run
  proof (rule returns_mono [OF tail])
    fix sv' assume "\<exists>s'. upd sid s' sv1 sv' \<and> bare (ss_windows s') = bare (ss_windows t1) \<and> ss_curw s' = Some c1 \<and> base x sv'"
    then show "\<exists>s'. upd sid s' sv sv' \<and> bare (ss_windows s') = bare (ss_windows t) \<and> base x sv'"
      using upd_trans [OF m(1)] core_eqD(7) [OF t1(2)] by metis
  qed
qed

end
