(* ===== verification/Session_Steps.thy ===== *)
theory Session_Steps
  imports Session_Ops
begin

text \<open>
  Sequences of session operations: the invariant of the server, with its session groups, and the machine of
  the operations the commands perform.
\<close>

section \<open>Session groups\<close>

text \<open>The groups are disjoint and have two members at least, which have the same winlinks (but for group of \<open>x\<close>).\<close>

definition groups_ok :: "nat option \<Rightarrow> server \<Rightarrow> bool" where
  "groups_ok x sv \<longleftrightarrow> distinct (concat (sv_groups sv)) \<and> (\<forall>sg \<in> set (sv_groups sv). 2 \<le> length sg \<and> set sg \<subseteq> set (ids sv) \<and>
     ((\<exists>y. x = Some y \<and> y \<in> set sg) \<or> (\<forall>a \<in> set sg. \<forall>b \<in> set sg. bare (links_at sv a) = bare (links_at sv b))))"

lemma groups_okD:
  assumes "groups_ok x sv" and "sg \<in> set (sv_groups sv)"
  shows "2 \<le> length sg" "set sg \<subseteq> set (ids sv)" "distinct sg" "distinct (concat (sv_groups sv))"
    "\<lbrakk>\<And>y. x = Some y \<Longrightarrow> y \<notin> set sg; a \<in> set sg; b \<in> set sg\<rbrakk> \<Longrightarrow> bare (links_at sv a) = bare (links_at sv b)"
proof -
  note g = conjunct1 [OF assms(1) [unfolded groups_ok_def]] bspec [OF conjunct2 [OF assms(1) [unfolded groups_ok_def]] assms(2)]
  then show "2 \<le> length sg" "set sg \<subseteq> set (ids sv)" "distinct (concat (sv_groups sv))" by blast+
  show "distinct sg" using g(1) assms(2) by (simp add: distinct_concat_iff)
  show "\<lbrakk>\<And>y. x = Some y \<Longrightarrow> y \<notin> set sg; a \<in> set sg; b \<in> set sg\<rbrakk> \<Longrightarrow> bare (links_at sv a) = bare (links_at sv b)"
    using g(2) by blast
qed

lemma group_find_Some:
  "session_group_find sv sid = Some sg \<Longrightarrow> sg \<in> set (sv_groups sv) \<and> sid \<in> set sg"
  by (auto simp: session_group_find_def find_Some_iff)

lemma group_find_None: "session_group_find sv sid = None \<longleftrightarrow> (\<forall>sg \<in> set (sv_groups sv). sid \<notin> set sg)"
  by (auto simp: session_group_find_def find_None_iff)

lemma group_unique:
  assumes "distinct (concat gs)" and "a \<in> set gs" "b \<in> set gs" and "i \<in> set a" "i \<in> set b"
  shows "a = b"
  using assms by (induction gs) auto

definition group_of :: "server \<Rightarrow> nat \<Rightarrow> nat set" where
  "group_of sv sid = (case session_group_find sv sid of Some sg \<Rightarrow> set sg | None \<Rightarrow> {})"

text \<open>Steps that change no winlinks but those of \<open>sid\<close>, and then those of its group.\<close>

definition synced :: "nat \<Rightarrow> nat set \<Rightarrow> server \<Rightarrow> server \<Rightarrow> bool" where
  "synced target G sv sv' \<longleftrightarrow> frame sv sv' \<and> sv_next_window sv' = sv_next_window sv \<and>
     (\<forall>u. u \<notin> G - {target} \<longrightarrow> map_option core (session_get sv' u) = map_option core (session_get sv u)) \<and>
     (\<forall>u \<in> G. bare (links_at sv' u) = bare (links_at sv target))"

lemma same_core_links: "map_option core (session_get a u) = map_option core (session_get b u) \<Longrightarrow> bare (links_at a u) = bare (links_at b u)"
  by (cases "session_get a u"; cases "session_get b u") (auto simp: links_at_def dest: core_eqD)

lemma upd_links: "upd sid s' sv sv' \<Longrightarrow> bare (links_at sv' sid) = bare (ss_windows s')"
  using upd_get [of sid s' sv sv'] by (metis core_eqD(7) links_at_def option.simps(5))

lemma synchronize_all_ok:
  assumes "base x sv" and "x = None \<or> x = Some target" and "session_get sv target = Some t" and "set us \<subseteq> set (ids sv)" and "distinct us"
    and "\<And>u. u \<in> set us \<Longrightarrow> u \<noteq> target \<Longrightarrow> idxs (links_at sv u) - idxs (ss_windows t) \<subseteq> {i} \<and> idxs (links_at sv u) \<inter> idxs (ss_windows t) \<noteq> {}"
  shows "returns (synchronize_all target us sv) (\<lambda>sv'. base x sv' \<and> synced target (set us) sv sv')"
  using assms
proof (induction us arbitrary: sv t)
  case Nil
  then show ?case by (simp add: synced_def)
next
  case (Cons u us)
  show ?case
  proof (cases "u = target")
    case True
    have "returns (synchronize_all target us sv) (\<lambda>sv'. base x sv' \<and> synced target (set us) sv sv')"
      by (rule Cons.IH [OF Cons.prems(1-3)]) (use Cons.prems in auto)
    moreover have "synced target (set (u # us)) sv sv'" if "synced target (set us) sv sv'" for sv'
      using that True same_core_links [of sv' target sv] by (auto simp: synced_def)
    ultimately show ?thesis using True by (auto elim: returns_mono)
  next
    case False
    have "u \<in> set (ids sv)" using Cons.prems(4) by simp
    then obtain s where s: "session_get sv u = Some s" using session_get_None [of sv u] by auto
    have ls: "links_at sv u = ss_windows s" using s by (simp add: links_at_def)
    have xu: "x \<noteq> Some u" using Cons.prems(2) False by auto
    from Cons.prems(6) [of u] False ls have gone: "idxs (ss_windows s) - idxs (ss_windows t) \<subseteq> {i}"
      "idxs (ss_windows s) \<inter> idxs (ss_windows t) \<noteq> {}" by auto
    obtain sv1 s' where 1: "session_group_synchronize1 target u sv = Some sv1" "upd u s' sv sv1"
      "bare (ss_windows s') = bare (ss_windows t)" "base x sv1"
      using synchronize1_ok [OF Cons.prems(1) xu Cons.prems(3) s False [symmetric] gone] unfolding returns_eq by blast
    obtain t1 where t1: "session_get sv1 target = Some t1" "core t1 = core t"
      using upd_other(1) [OF 1(2) False [symmetric] Cons.prems(3)] by blast
    have other: "map_option core (session_get sv1 v) = map_option core (session_get sv v)" if "v \<noteq> u" for v
      using 1(2) that by (simp add: upd_def)
    have ids: "ids sv1 = ids sv" using 1(2) by (simp add: upd_def frame_def)
    have "returns (synchronize_all target us sv1) (\<lambda>sv'. base x sv' \<and> synced target (set us) sv1 sv')"
    proof (rule Cons.IH [OF 1(4) Cons.prems(2) t1(1)])
      fix v assume v: "v \<in> set us" "v \<noteq> target"
      then have "v \<noteq> u" using Cons.prems(5) by auto
      then have "idxs (links_at sv1 v) = idxs (links_at sv v)" using same_core_links [OF other] bare_eqD(1) by blast
      then show "idxs (links_at sv1 v) - idxs (ss_windows t1) \<subseteq> {i} \<and> idxs (links_at sv1 v) \<inter> idxs (ss_windows t1) \<noteq> {}"
        using Cons.prems(6) [of v] v core_eqD(9) [OF t1(2)] by simp
    qed (use Cons.prems ids in auto)
    moreover have "synced target (set (u # us)) sv sv'" if sy: "synced target (set us) sv1 sv'" for sv'
    proof -
      have lt: "bare (links_at sv1 target) = bare (links_at sv target)" by (rule same_core_links [OF other]) (use False in simp)
      have "map_option core (session_get sv' u) = map_option core (session_get sv1 u)" using sy Cons.prems(5) by (simp add: synced_def)
      then have "bare (links_at sv' u) = bare (ss_windows s')" using same_core_links upd_links [OF 1(2)] by metis
      then have "bare (links_at sv' u) = bare (links_at sv target)" using 1(3) Cons.prems(3) by (simp add: links_at_def)
      then show ?thesis using sy other lt 1(2) False by (auto simp: synced_def upd_def intro: frame_trans)
    qed
    ultimately show ?thesis using 1(1) False by (auto elim!: returns_mono)
  qed
qed

lemma synchronize_from_ok:
  assumes b: "base x sv" and x: "x = None \<or> x = Some target" and t: "session_get sv target = Some t" and g: "groups_ok (Some target) sv"
    and u: "\<And>u. u \<in> group_of sv target \<Longrightarrow> u \<noteq> target \<Longrightarrow>
      idxs (links_at sv u) - idxs (ss_windows t) \<subseteq> {i} \<and> idxs (links_at sv u) \<inter> idxs (ss_windows t) \<noteq> {}"
  shows "returns (session_group_synchronize_from target sv) (\<lambda>sv'. base x sv' \<and> groups_ok None sv' \<and> synced target (group_of sv target) sv sv')"
proof (cases "session_group_find sv target")
  case None
  have no: "\<not> (\<exists>y. Some target = Some y \<and> y \<in> set sg)" if "sg \<in> set (sv_groups sv)" for sg
    using None that unfolding group_find_None by blast
  have "groups_ok None sv" using g no unfolding groups_ok_def by blast
  then show ?thesis using None b by (simp add: session_group_synchronize_from_def synced_def group_of_def)
next
  case (Some sg)
  note sg = group_find_Some [OF Some]
  have G: "group_of sv target = set sg" using Some by (simp add: group_of_def)
  have d: "distinct (concat (sv_groups sv))" using g by (simp add: groups_ok_def)
  then have "distinct sg" using sg by (simp add: distinct_concat_iff)
  moreover have "set sg \<subseteq> set (ids sv)" using g sg by (simp add: groups_ok_def)
  ultimately have "returns (synchronize_all target sg sv) (\<lambda>sv'. base x sv' \<and> synced target (set sg) sv sv')"
    using synchronize_all_ok [OF b x t, of sg i] u G by auto
  moreover have "groups_ok None sv'" if sy: "synced target (set sg) sv sv'" for sv'
  proof -
    have fr: "sv_groups sv' = sv_groups sv" "ids sv' = ids sv" using sy by (simp_all add: synced_def frame_def)
    have "\<forall>a \<in> set h. \<forall>b \<in> set h. bare (links_at sv' a) = bare (links_at sv' b)" if h: "h \<in> set (sv_groups sv)" for h
    proof (cases "h = sg")
      case True
      then show ?thesis using sy by (simp add: synced_def)
    next
      case False
      then have out: "a \<notin> set sg" if "a \<in> set h" for a using group_unique [OF d] h sg that by blast
      have same: "bare (links_at sv' a) = bare (links_at sv a)" if "a \<in> set h" for a
        using sy out [OF that] by (intro same_core_links) (simp add: synced_def)
      have "target \<notin> set h" using out sg by blast
      then have "bare (links_at sv a) = bare (links_at sv b)" if "a \<in> set h" "b \<in> set h" for a b
        using that by (intro groups_okD(5) [OF g h]) simp_all
      then show ?thesis using same by metis
    qed
    then show ?thesis using g unfolding groups_ok_def fr by blast
  qed
  ultimately show ?thesis using Some G by (auto simp: session_group_synchronize_from_def elim!: returns_mono)
qed

section \<open>The invariant of the server\<close>

definition server_ok :: "server \<Rightarrow> bool" where
  "server_ok sv \<longleftrightarrow> base None sv \<and> groups_ok None sv \<and> (\<forall>i \<in> set (ids sv). i < sv_next_session sv) \<and>
     (\<forall>w. sv_windows sv w \<noteq> None \<longrightarrow> w < sv_next_window sv) \<and> sorted_wrt (<) (map ss_name (sv_sessions sv))"

text \<open>What a step that creates and destroys no session keeps.\<close>

definition fresh_ok :: "server \<Rightarrow> bool" where
  "fresh_ok sv \<longleftrightarrow> (\<forall>i \<in> set (ids sv). i < sv_next_session sv) \<and> sorted_wrt (<) (map ss_name (sv_sessions sv))"

definition windows_ok :: "server \<Rightarrow> bool" where
  "windows_ok sv \<longleftrightarrow> (\<forall>w. refs sv w \<noteq> 0 \<longrightarrow> w < sv_next_window sv)"

lemma server_ok_eq: "server_ok sv \<longleftrightarrow> base None sv \<and> groups_ok None sv \<and> fresh_ok sv \<and> windows_ok sv"
proof -
  have "(\<forall>w. sv_windows sv w \<noteq> None \<longrightarrow> w < sv_next_window sv) = windows_ok sv" if "base None sv"
  proof -
    have "sv_windows sv w \<noteq> None \<longleftrightarrow> refs sv w \<noteq> 0" for w using that by (simp add: base_def counted_def)
    then show ?thesis by (simp add: windows_ok_def)
  qed
  then show ?thesis unfolding server_ok_def fresh_ok_def by blast
qed

lemma fresh_frame: "frame sv sv' \<Longrightarrow> fresh_ok sv \<Longrightarrow> fresh_ok sv'"
  by (simp add: fresh_ok_def frame_def)

text \<open>Which windows are referred to depends on the winlinks of the sessions.\<close>

lemma refs_member:
  assumes "distinct (ids sv)"
  shows "refs sv w \<noteq> 0 \<longleftrightarrow> (\<exists>i \<in> set (ids sv). links_count w (bare (links_at sv i)) \<noteq> 0)"
  using refs_eq [OF assms, of w] by auto

lemma windows_okI:
  assumes "windows_ok sv" and d: "distinct (ids sv)" "distinct (ids sv')" and n: "sv_next_window sv \<le> sv_next_window sv'"
    and "\<And>i w. i \<in> set (ids sv') \<Longrightarrow> links_count w (bare (links_at sv' i)) \<noteq> 0 \<Longrightarrow>
      w < sv_next_window sv' \<or> (\<exists>j \<in> set (ids sv). links_count w (bare (links_at sv j)) \<noteq> 0)"
  shows "windows_ok sv'"
  using assms unfolding windows_ok_def refs_member [OF d(1)] refs_member [OF d(2)] by (meson order_less_le_trans)

section \<open>Moving within a session\<close>

lemma moved_keeps:
  assumes m: "moved sid sv sv'" and b: "base x sv"
  shows "base x sv'" "groups_ok y sv \<Longrightarrow> groups_ok y sv'" "fresh_ok sv \<Longrightarrow> fresh_ok sv'" "windows_ok sv \<Longrightarrow> windows_ok sv'"
    "ids sv' = ids sv" "bare (links_at sv' i) = bare (links_at sv i)"
proof -
  obtain s s' where u: "session_get sv sid = Some s" "upd sid s' sv sv'" "bare (ss_windows s') = bare (ss_windows s)"
    using m by (auto simp: moved_def)
  have fr: "frame sv sv'" "sv_next_window sv' = sv_next_window sv" using u(2) by (simp_all add: upd_def)
  show links: "bare (links_at sv' i) = bare (links_at sv i)" for i
  proof (cases "i = sid")
    case True
    then show ?thesis using upd_links [OF u(2)] u(1,3) by (simp add: links_at_def)
  next
    case False
    then show ?thesis using u(2) by (intro same_core_links) (simp add: upd_def)
  qed
  show b': "base x sv'" by (rule moved_base [OF m b])
  show idseq: "ids sv' = ids sv" using fr by (simp add: frame_def)
  have gr: "sv_groups sv' = sv_groups sv" using fr by (simp add: frame_def)
  show "groups_ok y sv \<Longrightarrow> groups_ok y sv'" unfolding groups_ok_def idseq gr links .
  show "fresh_ok sv \<Longrightarrow> fresh_ok sv'" by (rule fresh_frame [OF fr(1)])
  show "windows_ok sv'" if w: "windows_ok sv"
  proof (rule windows_okI [OF w])
    show "distinct (ids sv)" "distinct (ids sv')" using base_distinct [OF b] idseq by simp_all
    show "sv_next_window sv \<le> sv_next_window sv'" using fr(2) by simp
  qed (unfold links idseq, blast)
qed

lemma moved_ok: "moved sid sv sv' \<Longrightarrow> server_ok sv \<Longrightarrow> server_ok sv'"
  unfolding server_ok_eq using moved_keeps by blast

section \<open>Adding a winlink\<close>

text \<open>
  The common end of \<open>session_attach\<close> and \<open>session_new\<close>: a winlink with the index \<open>i\<close> to the window \<open>w\<close> has been
  added to session \<open>sid\<close>, and its group is synchronized. The other members of the group may have had a winlink with
  the index \<open>i\<close> that session \<open>sid\<close> has lost before.
\<close>

definition good :: "nat option \<Rightarrow> server \<Rightarrow> bool" where
  "good x sv \<longleftrightarrow> base x sv \<and> groups_ok x sv \<and> fresh_ok sv \<and> windows_ok sv"

lemma good_None: "good None sv = server_ok sv"
  by (simp add: good_def server_ok_eq)

text \<open>What is left when the winlinks of one session have changed and those of the others have not.\<close>

lemma groups_ok_upd:
  assumes u: "upd sid s' sv sv'" and g: "groups_ok (Some sid) sv"
  shows "groups_ok (Some sid) sv'"
proof -
  have fr: "sv_groups sv' = sv_groups sv" "ids sv' = ids sv" using u by (simp_all add: upd_def frame_def)
  show ?thesis unfolding groups_ok_def fr
  proof (intro conjI ballI)
    show "distinct (concat (sv_groups sv))" using g by (simp add: groups_ok_def)
  next
    fix sg assume sg: "sg \<in> set (sv_groups sv)"
    show "2 \<le> length sg" "set sg \<subseteq> set (ids sv)" using groups_okD [OF g sg] by blast+
    show "(\<exists>y. Some sid = Some y \<and> y \<in> set sg) \<or> (\<forall>a \<in> set sg. \<forall>b \<in> set sg. bare (links_at sv' a) = bare (links_at sv' b))"
    proof (cases "sid \<in> set sg")
      case False
      have same: "bare (links_at sv' a) = bare (links_at sv a)" if "a \<in> set sg" for a
        using u that False by (intro same_core_links) (auto simp: upd_def)
      have "bare (links_at sv a) = bare (links_at sv b)" if "a \<in> set sg" "b \<in> set sg" for a b
        by (rule groups_okD(5) [OF g sg _ that]) (use False in blast)
      then show ?thesis using same by metis
    qed blast
  qed
qed

lemma synced_links:
  assumes u: "upd sid s' sv sv2" and sy: "synced sid G sv2 sv'"
  shows "bare (links_at sv' v) = bare (ss_windows s') \<or> bare (links_at sv' v) = bare (links_at sv v)" "frame sv sv'"
    "sv_next_window sv' = sv_next_window sv" "\<exists>s''. session_get sv' sid = Some s'' \<and> core s'' = core s'"
proof -
  have g: "map_option core (session_get sv' sid) = Some (core s')" using sy u by (simp add: synced_def upd_def)
  then show "\<exists>s''. session_get sv' sid = Some s'' \<and> core s'' = core s'" by auto
  show "frame sv sv'" "sv_next_window sv' = sv_next_window sv" using u sy by (auto simp: synced_def upd_def intro: frame_trans)
  have at2: "bare (links_at sv2 sid) = bare (ss_windows s')" by (rule upd_links [OF u])
  show "bare (links_at sv' v) = bare (ss_windows s') \<or> bare (links_at sv' v) = bare (links_at sv v)"
  proof (cases "v \<in> G \<or> v = sid")
    case True
    have same: "bare (links_at sv' sid) = bare (links_at sv2 sid)" using sy by (intro same_core_links) (simp add: synced_def)
    have "bare (links_at sv' v) = bare (links_at sv2 sid)" using True same sy unfolding synced_def by blast
    then show ?thesis using at2 by simp
  next
    case False
    have "bare (links_at sv' v) = bare (links_at sv2 v)" using sy False by (intro same_core_links) (simp add: synced_def)
    moreover have "bare (links_at sv2 v) = bare (links_at sv v)" using u False by (intro same_core_links) (simp add: upd_def)
    ultimately show ?thesis by simp
  qed
qed

text \<open>Windows with references have been created, when the winlinks of session \<open>sid\<close> go to such windows.\<close>

lemma synced_windows:
  assumes u: "upd sid s' sv sv2" and sy: "synced sid G sv2 sv'" and w: "windows_ok sv" and d: "distinct (ids sv)"
    and s: "\<And>y. links_count y (ss_windows s') \<noteq> 0 \<Longrightarrow> y < sv_next_window sv \<or> links_count y (links_at sv sid) \<noteq> 0" "sid \<in> set (ids sv)"
  shows "windows_ok sv'"
proof (rule windows_okI [OF w d])
  note links = synced_links [OF u sy]
  have idseq: "ids sv' = ids sv" using links(2) by (simp add: frame_def)
  show "distinct (ids sv')" "sv_next_window sv \<le> sv_next_window sv'" using d idseq links(3) by simp_all
  fix v y assume v: "v \<in> set (ids sv')" and n: "links_count y (bare (links_at sv' v)) \<noteq> 0"
  from links(1) [of v] show "y < sv_next_window sv' \<or> (\<exists>j \<in> set (ids sv). links_count y (bare (links_at sv j)) \<noteq> 0)"
  proof
    assume "bare (links_at sv' v) = bare (links_at sv v)"
    then show ?thesis using v n idseq by metis
  next
    assume "bare (links_at sv' v) = bare (ss_windows s')"
    then have "links_count y (ss_windows s') \<noteq> 0" using n by simp
    then show ?thesis using s links(3) by (metis bare_count)
  qed
qed

lemma add_link_ok:
  assumes b: "base x sv" and x: "x = None \<or> x = Some sid" and g: "groups_ok (Some sid) sv" and fr: "fresh_ok sv" "windows_ok sv"
    and s: "session_get sv sid = Some s" and i: "0 \<le> i" "i \<le> INT_MAX" "i \<notin> idxs (ss_windows s)" and w: "w < sv_next_window sv"
    and u: "\<And>u. u \<in> group_of sv sid \<Longrightarrow> u \<noteq> sid \<Longrightarrow> idxs (links_at sv u) \<subseteq> insert i (idxs (ss_windows s)) \<and> links_at sv u \<noteq> []"
  shows "returns (do {
      (wwl, ws) \<leftarrow> winlink_set_window (insort_key wl_idx (fresh_link i) (ss_windows s)) i w ((sv_windows sv)(w \<mapsto> refs sv w));
      session_group_synchronize_from sid (session_put (s\<lparr>ss_windows := wwl\<rparr>) (sv\<lparr>sv_windows := ws\<rparr>))
    }) (\<lambda>sv'. base x sv' \<and> groups_ok None sv' \<and> fresh_ok sv' \<and> windows_ok sv' \<and> ids sv' = ids sv \<and>
      (\<exists>s'. session_get sv' sid = Some s' \<and> i \<in> idxs (ss_windows s')))"
proof -
  note d = base_distinct [OF b]
  have h: "half_ok s" and cur: "x = Some sid \<or> ss_curw s \<noteq> None" using base_get [OF b s] by auto
  have ok: "links_ok (ss_windows s)" using h by (simp add: half_ok_def)
  define ws where "ws = (sv_windows sv)(w \<mapsto> refs sv w)"
  have wsw: "ws w = Some (refs sv w)" by (simp add: ws_def)
  define wwl where "wwl = insort_key wl_idx (fresh_link i\<lparr>wl_window := Some w\<rparr>) (ss_windows s)"
  note new = set_window_fresh [where ws = ws and w = w, OF ok i(3,1,2) wsw, folded wwl_def]
  define s' where "s' = s\<lparr>ss_windows := wwl\<rparr>"
  define sv2 where "sv2 = session_put s' (sv\<lparr>sv_windows := ws(w \<mapsto> refs sv w + 1)\<rparr>)"
  have s'w: "ss_windows s' = wwl" by (simp add: s'_def)
  have ud: "upd sid s' sv sv2" "session_get sv2 sid = Some s'"
    unfolding sv2_def using upd_put [OF s _ _ d, of s'] session_get_idx [OF s] by (simp_all add: s'_def)
  have h': "half_ok s'" using h new(2,3) by (auto simp: half_ok_def s'_def)
  have cnt: "counted (\<lambda>v. rest sv sid v + links_count v (ss_windows s')) (sv_windows sv2)"
  proof -
    have "counted (refs sv) (sv_windows sv)" using b by (simp add: base_def)
    then show ?thesis using refs_split [OF d s] new(4) by (auto simp: counted_def s'w sv2_def session_put_def ws_def)
  qed
  have b2: "base x sv2" by (rule base_upd [OF b ud(1) h' _ _ cnt]) (use cur in \<open>auto simp: s'_def\<close>)
  note g2 = groups_ok_upd [OF ud(1) g]
  have fr2: "frame sv sv2" "sv_next_window sv2 = sv_next_window sv" using ud(1) by (simp_all add: upd_def)
  have G: "group_of sv2 sid = group_of sv sid" using fr2(1) by (simp add: group_of_def session_group_find_def frame_def)
  have other: "bare (links_at sv2 v) = bare (links_at sv v)" if "v \<noteq> sid" for v
    using ud(1) that by (intro same_core_links) (simp add: upd_def)
  have "idxs (links_at sv2 v) - idxs (ss_windows s') \<subseteq> {i} \<and> idxs (links_at sv2 v) \<inter> idxs (ss_windows s') \<noteq> {}"
    if "v \<in> group_of sv2 sid" "v \<noteq> sid" for v
  proof -
    have v: "idxs (links_at sv v) \<subseteq> insert i (idxs (ss_windows s))" "links_at sv v \<noteq> []" using u [of v] that G by auto
    then have "idxs (links_at sv v) \<noteq> {}" by (simp add: idxs_def)
    then show ?thesis using v new(3) bare_eqD(1) [OF other [OF that(2)]] s'w by auto
  qed
  from synchronize_from_ok [OF b2 x ud(2) g2 this] obtain sv' where sv': "session_group_synchronize_from sid sv2 = Some sv'"
    "base x sv'" "groups_ok None sv'" "synced sid (group_of sv2 sid) sv2 sv'" unfolding returns_eq by blast
  note links = synced_links [OF ud(1) sv'(4)]
  have "sid \<in> set (ids sv)" "links_at sv sid = ss_windows s" using s session_get_None [of sv sid] by (auto simp: links_at_def)
  then have "windows_ok sv'" by (intro synced_windows [OF ud(1) sv'(4) fr(2) d]) (use w new(4) s'w in \<open>auto split: if_splits\<close>)
  moreover have "ids sv' = ids sv" using links(2) by (simp add: frame_def)
  moreover have "\<exists>s''. session_get sv' sid = Some s'' \<and> i \<in> idxs (ss_windows s'')"
    using links(4) core_eqD(9) new(3) s'w by (metis insertI1)
  ultimately show ?thesis using new(1) sv'(1-3) fresh_frame [OF links(2) fr(1)]
    by (simp add: ws_def [symmetric] sv2_def s'_def)
qed

end
