(* ===== verification/Session_Server.thy ===== *)
theory Session_Server
  imports Session_Steps
begin

text \<open>
  The operations that the commands perform on the server keep its invariant: attaching, creating and
  detaching windows, creating and destroying sessions, grouping them.
\<close>

section \<open>Groups of a server in good order\<close>

lemma server_okD:
  assumes "server_ok sv"
  shows "base None sv" "groups_ok None sv" "fresh_ok sv" "windows_ok sv" "distinct (ids sv)"
  using assms base_distinct [of None sv] by (simp_all add: server_ok_eq)

lemma groups_ok_any: "groups_ok None sv \<Longrightarrow> groups_ok x sv"
  unfolding groups_ok_def by blast

lemma server_session:
  assumes "server_ok sv" and "session_get sv sid = Some s"
  shows "half_ok s" "ss_curw s \<noteq> None" "ss_windows s \<noteq> []" "links_at sv sid = ss_windows s" "session_ok s"
proof -
  show *: "half_ok s" "ss_curw s \<noteq> None" using base_get [OF server_okD(1) [OF assms(1)] assms(2)] by auto
  then show "ss_windows s \<noteq> []" by (auto simp: half_ok_def)
  show "links_at sv sid = ss_windows s" using assms(2) by (simp add: links_at_def)
  show "session_ok s" using * by (simp add: session_ok_def)
qed

lemma server_group:
  assumes ok: "server_ok sv" and s: "session_get sv sid = Some s" and u: "u \<in> group_of sv sid"
  shows "bare (links_at sv u) = bare (ss_windows s)" "links_at sv u \<noteq> []" "idxs (links_at sv u) = idxs (ss_windows s)"
proof -
  obtain sg where f: "session_group_find sv sid = Some sg" "u \<in> set sg"
    using u by (auto simp: group_of_def split: option.splits)
  note sg = group_find_Some [OF f(1)]
  have "bare (links_at sv u) = bare (links_at sv sid)"
    by (rule groups_okD(5) [OF server_okD(2) [OF ok]]) (use sg f(2) in auto)
  then show *: "bare (links_at sv u) = bare (ss_windows s)" using server_session(4) [OF ok s] by simp
  then show "links_at sv u \<noteq> []" "idxs (links_at sv u) = idxs (ss_windows s)"
    using bare_eqD(5) [OF *] bare_eqD(1) [OF *] server_session(3) [OF ok s] by auto
qed

text \<open>The groups in the state between the two halves of an operation on session \<open>sid\<close>: what is known of its group.\<close>

definition near :: "nat \<Rightarrow> int set \<Rightarrow> server \<Rightarrow> bool" where
  "near sid A sv \<longleftrightarrow> (\<forall>u \<in> group_of sv sid. u \<noteq> sid \<longrightarrow> idxs (links_at sv u) \<subseteq> A \<and> links_at sv u \<noteq> [])"

lemma server_near: "server_ok sv \<Longrightarrow> session_get sv sid = Some s \<Longrightarrow> near sid (idxs (ss_windows s)) sv"
  using server_group by (auto simp: near_def)

section \<open>Attaching a window\<close>

definition good_with :: "nat option \<Rightarrow> nat \<Rightarrow> int \<Rightarrow> server \<Rightarrow> server \<Rightarrow> bool" where
  "good_with x sid i sv sv' \<longleftrightarrow> base x sv' \<and> groups_ok None sv' \<and> fresh_ok sv' \<and> windows_ok sv' \<and> ids sv' = ids sv \<and>
     (\<exists>s'. session_get sv' sid = Some s' \<and> i \<in> idxs (ss_windows s'))"

lemma attach_ok:
  assumes b: "base x sv" and x: "x = None \<or> x = Some sid" and g: "groups_ok (Some sid) sv" and fr: "fresh_ok sv" "windows_ok sv"
    and s: "session_get sv sid = Some s" and w: "sv_windows sv w \<noteq> None" and i: "- INT_MAX - 1 \<le> idx" "idx \<le> INT_MAX"
    and n: "near sid (if 0 \<le> idx then insert idx (idxs (ss_windows s)) else idxs (ss_windows s)) sv"
  shows "returns (session_attach sid w idx sv) (\<lambda>(sv', r). case r of None \<Rightarrow> sv' = sv \<and> (0 \<le> idx \<longrightarrow> idx \<in> idxs (ss_windows s))
    | Some i \<Rightarrow> (0 \<le> idx \<longrightarrow> i = idx) \<and> good_with x sid i sv sv')"
proof -
  obtain wwl r where add: "winlink_add (ss_windows s) idx = Some (wwl, r)" and
    r: "case r of None \<Rightarrow> wwl = ss_windows s \<and> (0 \<le> idx \<longrightarrow> idx \<in> idxs (ss_windows s)) | Some i \<Rightarrow> 0 \<le> i \<and> i \<le> INT_MAX \<and> i \<notin> idxs (ss_windows s) \<and>
      (0 \<le> idx \<longrightarrow> i = idx) \<and> wwl = insort_key wl_idx (fresh_link i) (ss_windows s)"
    using winlink_add_ok [OF i, of "ss_windows s"] unfolding returns_eq by auto
  show ?thesis
  proof (cases r)
    case None
    then show ?thesis using s add r by (simp add: session_attach_def)
  next
    case (Some i)
    with r have i: "0 \<le> i" "i \<le> INT_MAX" "i \<notin> idxs (ss_windows s)" "0 \<le> idx \<longrightarrow> i = idx"
      "wwl = insort_key wl_idx (fresh_link i) (ss_windows s)" by auto
    have "counted (refs sv) (sv_windows sv)" using b by (simp add: base_def)
    then have refs: "sv_windows sv w = Some (refs sv w)" "refs sv w \<noteq> 0" using w by (auto simp: counted_def split: if_splits)
    then have ws: "(sv_windows sv)(w \<mapsto> refs sv w) = sv_windows sv" by auto
    have wlt: "w < sv_next_window sv" using fr(2) refs(2) by (simp add: windows_ok_def)
    have u: "idxs (links_at sv u) \<subseteq> insert i (idxs (ss_windows s)) \<and> links_at sv u \<noteq> []" if "u \<in> group_of sv sid" "u \<noteq> sid" for u
      using n that i(4) by (auto simp: near_def split: if_splits)
    have "returns (do {
        (wwl, ws) \<leftarrow> winlink_set_window wwl i w (sv_windows sv);
        session_group_synchronize_from sid (session_put (s\<lparr>ss_windows := wwl\<rparr>) (sv\<lparr>sv_windows := ws\<rparr>))
      }) (good_with x sid i sv)"
      using add_link_ok [OF b x g fr s i(1,2,3) wlt u] unfolding ws i(5) good_with_def by simp
    then obtain wwl' ws' sv' where run: "winlink_set_window wwl i w (sv_windows sv) = Some (wwl', ws')"
      "session_group_synchronize_from sid (session_put (s\<lparr>ss_windows := wwl'\<rparr>) (sv\<lparr>sv_windows := ws'\<rparr>)) = Some sv'"
      "good_with x sid i sv sv'" unfolding returns_eq by (auto simp: bind_eq_Some_conv)
    have "session_attach sid w idx sv = Some (sv', Some i)" using s add Some run(1,2) by (simp add: session_attach_def)
    then show ?thesis using run(3) i(4) by simp
  qed
qed

text \<open>On a server in good order.\<close>

lemma good_with_ok: "good_with None sid i sv sv' \<Longrightarrow> server_ok sv' \<and> ids sv' = ids sv"
  by (simp add: good_with_def server_ok_eq)

lemma session_attach_ok:
  assumes ok: "server_ok sv" and s: "session_get sv sid = Some s" and w: "sv_windows sv w \<noteq> None" and i: "- INT_MAX - 1 \<le> idx" "idx \<le> INT_MAX"
  shows "returns (session_attach sid w idx sv) (\<lambda>(sv', r). server_ok sv' \<and> ids sv' = ids sv \<and>
    (\<forall>i. r = Some i \<longrightarrow> (\<exists>s'. session_get sv' sid = Some s' \<and> i \<in> idxs (ss_windows s')) \<and> 0 \<le> i))"
proof -
  note k = server_okD [OF ok]
  have n: "near sid (if 0 \<le> idx then insert idx (idxs (ss_windows s)) else idxs (ss_windows s)) sv"
    using server_near [OF ok s] by (auto simp: near_def)
  show ?thesis
  proof (rule returns_mono [OF attach_ok [OF k(1) disjI1 [OF refl] groups_ok_any [OF k(2)] k(3,4) s w i n]])
    fix p :: "server \<times> int option"
    obtain sv' r where p: "p = (sv', r)" by (cases p)
    assume "case p of (sv', r) \<Rightarrow> case r of None \<Rightarrow> sv' = sv \<and> (0 \<le> idx \<longrightarrow> idx \<in> idxs (ss_windows s)) | Some i \<Rightarrow> (0 \<le> idx \<longrightarrow> i = idx) \<and> good_with None sid i sv sv'"
    then show "case p of (sv', r) \<Rightarrow> server_ok sv' \<and> ids sv' = ids sv \<and>
      (\<forall>i. r = Some i \<longrightarrow> (\<exists>s'. session_get sv' sid = Some s' \<and> i \<in> idxs (ss_windows s')) \<and> 0 \<le> i)"
    proof (cases r)
      case (Some j)
      assume "case p of (sv', r) \<Rightarrow> case r of None \<Rightarrow> sv' = sv \<and> (0 \<le> idx \<longrightarrow> idx \<in> idxs (ss_windows s)) | Some i \<Rightarrow> (0 \<le> idx \<longrightarrow> i = idx) \<and> good_with None sid i sv sv'"
      then have g: "good_with None sid j sv sv'" using p Some by simp
      then obtain s' where s': "session_get sv' sid = Some s'" "j \<in> idxs (ss_windows s')" by (auto simp: good_with_def)
      have "0 \<le> j" using server_session(1) [OF conjunct1 [OF good_with_ok [OF g]] s'(1)] s'(2) links_ok_idx by (auto simp: half_ok_def)
      then show ?thesis using p Some good_with_ok [OF g] s' by simp
    qed (use p ok in auto)
  qed
qed

section \<open>Creating a window\<close>

lemma session_put_put:
  assumes "ss_idx s = ss_idx t"
  shows "session_put s (session_put t sv) = session_put s sv"
    "session_put s ((session_put t sv)\<lparr>sv_windows := ws\<rparr>) = session_put s (sv\<lparr>sv_windows := ws\<rparr>)"
proof -
  have *: "map (\<lambda>u. if ss_idx u = ss_idx s then s else u) (map (\<lambda>u. if ss_idx u = ss_idx t then t else u) us) =
      map (\<lambda>u. if ss_idx u = ss_idx s then s else u) us" for us
    using assms by (induction us) auto
  show "session_put s (session_put t sv) = session_put s sv"
    "session_put s ((session_put t sv)\<lparr>sv_windows := ws\<rparr>) = session_put s (sv\<lparr>sv_windows := ws\<rparr>)"
    by (cases sv; simp only: session_put_def server.simps *)+
qed

lemma session_put_same:
  assumes "session_get sv sid = Some s" and "distinct (ids sv)"
  shows "session_put s sv = sv"
proof -
  have "map (\<lambda>t. if ss_idx t = ss_idx s then s else t) (sv_sessions sv) = sv_sessions sv"
  proof (rule map_idI)
    fix t assume "t \<in> set (sv_sessions sv)"
    then have "session_get sv (ss_idx t) = Some t" by (rule session_get_distinct [OF assms(2)])
    then show "(if ss_idx t = ss_idx s then s else t) = t"
      using assms(1) session_get_idx [OF assms(1)] by (metis option.inject)
  qed
  then show ?thesis by (simp add: session_put_def)
qed

lemma session_put_fields: "(session_put s sv)\<lparr>sv_next_window := n\<rparr> = session_put s (sv\<lparr>sv_next_window := n\<rparr>)"
  "(session_put s sv)\<lparr>sv_windows := ws\<rparr> = session_put s (sv\<lparr>sv_windows := ws\<rparr>)"
  "sv_windows (session_put s sv) = sv_windows sv" "sv_next_window (session_put s sv) = sv_next_window sv"
  by (simp_all add: session_put_def)

lemma remove_fresh:
  assumes "i \<notin> idxs wwl"
  shows "winlink_remove (insort_key wl_idx (fresh_link i) wwl) i ws = Some (wwl, ws)"
proof -
  have "find (\<lambda>wl. wl_idx wl = i) (insort_key wl_idx (fresh_link i) wwl) = Some (fresh_link i)"
    using assms by (induction wwl) (auto simp: fresh_link_def)
  moreover have "filter (\<lambda>wl. wl_idx wl \<noteq> i) (insort_key wl_idx (fresh_link i) wwl) = wwl"
    using assms by (induction wwl) (auto simp: fresh_link_def idxs_def filter_id_conv)
  ultimately show ?thesis by (simp add: winlink_remove_def fresh_link_def)
qed

text \<open>A larger number for the next window.\<close>

lemma next_window_simps [simp]:
  "base x (sv\<lparr>sv_next_window := n\<rparr>) = base x sv" "groups_ok x (sv\<lparr>sv_next_window := n\<rparr>) = groups_ok x sv"
  "fresh_ok (sv\<lparr>sv_next_window := n\<rparr>) = fresh_ok sv" "near sid A (sv\<lparr>sv_next_window := n\<rparr>) = near sid A sv"
  "ids (sv\<lparr>sv_next_window := n\<rparr>) = ids sv" "session_get (sv\<lparr>sv_next_window := n\<rparr>) u = session_get sv u"
  "refs (sv\<lparr>sv_next_window := n\<rparr>) = refs sv" "links_at (sv\<lparr>sv_next_window := n\<rparr>) u = links_at sv u"
proof -
  let ?sv = "sv\<lparr>sv_next_window := n\<rparr>"
  show g: "session_get ?sv u = session_get sv u" for u by (simp add: session_get_def)
  show l: "links_at ?sv u = links_at sv u" for u by (simp add: links_at_def g)
  show i: "ids ?sv = ids sv" by (simp add: ids_def)
  show r: "refs ?sv = refs sv" by (simp add: refs_def fun_eq_iff)
  show "base x ?sv = base x sv" by (simp add: base_def r)
  show "groups_ok x ?sv = groups_ok x sv" by (simp add: groups_ok_def i l)
  show "fresh_ok ?sv = fresh_ok sv" by (simp add: fresh_ok_def i)
  show "near sid A ?sv = near sid A sv" by (simp add: near_def l group_of_def session_group_find_def)
qed

lemma next_window_ok: "windows_ok sv \<Longrightarrow> sv_next_window sv \<le> n \<Longrightarrow> windows_ok (sv\<lparr>sv_next_window := n\<rparr>)"
  by (auto simp: windows_ok_def refs_def intro: order_less_le_trans)

lemma new_ok:
  assumes b: "base x sv" and x: "x = None \<or> x = Some sid" and g: "groups_ok None sv" and fr: "fresh_ok sv" "windows_ok sv"
    and s: "session_get sv sid = Some s" and i: "- INT_MAX - 1 \<le> idx" "idx \<le> INT_MAX"
    and n: "near sid (idxs (ss_windows s)) sv" and nw: "sv_next_window sv < UINT_MAX"
  shows "returns (session_new sid idx started sv) (\<lambda>(sv', r). case r of
      None \<Rightarrow> (\<exists>m \<ge> sv_next_window sv. sv' = sv\<lparr>sv_next_window := m\<rparr>)
    | Some i \<Rightarrow> good_with x sid i sv sv')"
proof -
  note d = base_distinct [OF b]
  obtain wwl r where add: "winlink_add (ss_windows s) idx = Some (wwl, r)" and
    r: "case r of None \<Rightarrow> wwl = ss_windows s \<and> (0 \<le> idx \<longrightarrow> idx \<in> idxs (ss_windows s)) | Some i \<Rightarrow> 0 \<le> i \<and> i \<le> INT_MAX \<and> i \<notin> idxs (ss_windows s) \<and>
      (0 \<le> idx \<longrightarrow> i = idx) \<and> wwl = insort_key wl_idx (fresh_link i) (ss_windows s)"
    using winlink_add_ok [OF i, of "ss_windows s"] unfolding returns_eq by auto
  show ?thesis
  proof (cases r)
    case None
    then show ?thesis using s add by (auto simp: session_new_def intro: exI [of _ "sv_next_window sv"])
  next
    case (Some i)
    with r have i: "0 \<le> i" "i \<le> INT_MAX" "i \<notin> idxs (ss_windows s)" and wwl: "wwl = insort_key wl_idx (fresh_link i) (ss_windows s)" by auto
    let ?w = "sv_next_window sv" and ?n = "u_add (sv_next_window sv) 1"
    define sv1 where "sv1 = sv\<lparr>sv_next_window := ?n\<rparr>"
    have n1: "?n = sv_next_window sv + 1" using nw by (simp add: UINT_MAX_def)
    have nwin: "sv_next_window sv1 = ?n" "sv_windows sv1 = sv_windows sv" by (simp_all add: sv1_def)
    have k1: "base x sv1" "groups_ok None sv1" "fresh_ok sv1" "windows_ok sv1" "session_get sv1 sid = Some s"
      "near sid (idxs (ss_windows s)) sv1" "ids sv1 = ids sv" "refs sv1 ?w = 0"
      using b g fr s n n1 next_window_ok [OF fr(2), of ?n] fr(2) by (auto simp: sv1_def windows_ok_def)
    show ?thesis
    proof (cases started)
      case False
      have "session_new sid idx started sv = Some (session_put s (session_put (s\<lparr>ss_windows := wwl\<rparr>) sv1), None)"
        using s add Some False remove_fresh [OF i(3)]
        by (simp add: session_new_def window_create_def Let_def session_put_fields wwl sv1_def)
      also have "session_put s (session_put (s\<lparr>ss_windows := wwl\<rparr>) sv1) = sv1"
        using session_put_same [OF k1(5)] d k1(7) by (simp add: session_put_put)
      finally show ?thesis using n1 by (auto simp: sv1_def intro!: exI [of _ "Suc (sv_next_window sv)"])
    next
      case True
      have u: "idxs (links_at sv1 u) \<subseteq> insert i (idxs (ss_windows s)) \<and> links_at sv1 u \<noteq> []" if "u \<in> group_of sv1 sid" "u \<noteq> sid" for u
        using k1(6) that by (auto simp: near_def)
      have "returns (do {
          (wwl, ws) \<leftarrow> winlink_set_window wwl i ?w ((sv_windows sv)(?w \<mapsto> 0));
          session_group_synchronize_from sid (session_put (s\<lparr>ss_windows := wwl\<rparr>) (sv1\<lparr>sv_windows := ws\<rparr>))
        }) (good_with x sid i sv)"
        using add_link_ok [OF k1(1) x groups_ok_any [OF k1(2)] k1(3,4,5) i _ u, of ?w] n1
        unfolding good_with_def k1(7,8) nwin wwl by simp
      then obtain wwl' ws' sv' where run: "winlink_set_window wwl i ?w ((sv_windows sv)(?w \<mapsto> 0)) = Some (wwl', ws')"
        "session_group_synchronize_from sid (session_put (s\<lparr>ss_windows := wwl'\<rparr>) (sv1\<lparr>sv_windows := ws'\<rparr>)) = Some sv'"
        "good_with x sid i sv sv'" unfolding returns_eq by (auto simp: bind_eq_Some_conv)
      have "session_new sid idx started sv = Some (sv', Some i)"
        using s add Some True run(1,2)
        by (simp add: session_new_def window_create_def Let_def session_put_fields session_put_put sv1_def)
      then show ?thesis using run(3) by simp
    qed
  qed
qed

lemma session_new_ok:
  assumes ok: "server_ok sv" and s: "session_get sv sid = Some s" and i: "- INT_MAX - 1 \<le> idx" "idx \<le> INT_MAX"
    and nw: "sv_next_window sv < UINT_MAX"
  shows "returns (session_new sid idx started sv) (\<lambda>(sv', r). server_ok sv' \<and> ids sv' = ids sv \<and>
    (\<forall>i. r = Some i \<longrightarrow> (\<exists>s'. session_get sv' sid = Some s' \<and> i \<in> idxs (ss_windows s'))))"
proof -
  note k = server_okD [OF ok]
  from new_ok [OF k(1) disjI1 [OF refl] k(2-4) s i server_near [OF ok s] nw, of started]
  show ?thesis
  proof (rule returns_mono)
    fix p :: "server \<times> int option"
    obtain sv' r where p: "p = (sv', r)" by (cases p)
    assume *: "case p of (sv', r) \<Rightarrow> case r of None \<Rightarrow> \<exists>m\<ge>sv_next_window sv. sv' = sv\<lparr>sv_next_window := m\<rparr>
      | Some i \<Rightarrow> good_with None sid i sv sv'"
    show "case p of (sv', r) \<Rightarrow> server_ok sv' \<and> ids sv' = ids sv \<and>
      (\<forall>i. r = Some i \<longrightarrow> (\<exists>s'. session_get sv' sid = Some s' \<and> i \<in> idxs (ss_windows s')))"
    proof (cases r)
      case None
      then obtain m where "sv_next_window sv \<le> m" "sv' = sv\<lparr>sv_next_window := m\<rparr>" using * p by auto
      then show ?thesis using p None k next_window_ok [OF k(4)] by (simp add: server_ok_eq)
    next
      case (Some j)
      then have g: "good_with None sid j sv sv'" using * p by simp
      then show ?thesis using p Some good_with_ok [OF g] by (auto simp: good_with_def)
    qed
  qed
qed

section \<open>Destroying a session\<close>

lemma concat_shrink:
  assumes "distinct (concat gs)" and "\<And>g. g \<in> set gs \<Longrightarrow> set (f g) \<subseteq> set g \<and> distinct (f g)"
  shows "distinct (concat (map f gs))"
  using assms
proof (induction gs)
  case (Cons g gs)
  have "distinct (concat (map f gs))" by (rule Cons.IH) (use Cons.prems in simp_all)
  moreover have "set (f g) \<subseteq> set g \<and> distinct (f g)" using Cons.prems(2) by simp
  moreover have "(\<Union>h \<in> set gs. set (f h)) \<subseteq> (\<Union>h \<in> set gs. set h)" using Cons.prems(2) by (meson UN_mono list.set_intros(2) subset_refl)
  ultimately show ?case using Cons.prems(1) by auto
qed simp

lemma concat_filter: "distinct (concat gs) \<Longrightarrow> distinct (concat (filter P gs))"
  by (induction gs) auto

lemma group_remove_ok:
  assumes g: "distinct (concat (sv_groups sv))" and two: "\<And>h. h \<in> set (sv_groups sv) \<Longrightarrow> 2 \<le> length h"
  shows "returns (session_group_remove sv sid) (\<lambda>sv'. \<exists>gs. sv' = sv\<lparr>sv_groups := gs\<rparr> \<and> distinct (concat gs) \<and>
    (\<forall>h \<in> set gs. 2 \<le> length h \<and> sid \<notin> set h \<and> (h \<in> set (sv_groups sv) \<or> set h \<subseteq> group_of sv sid)))"
proof (cases "session_group_find sv sid")
  case None
  then have "\<forall>h \<in> set (sv_groups sv). sid \<notin> set h" by (simp add: group_find_None)
  then have all: "\<forall>h \<in> set (sv_groups sv). 2 \<le> length h \<and> sid \<notin> set h \<and> (h \<in> set (sv_groups sv) \<or> set h \<subseteq> group_of sv sid)"
    using two by blast
  have run: "session_group_remove sv sid = Some (sv\<lparr>sv_groups := sv_groups sv\<rparr>)" using None by (simp add: session_group_remove_def)
  show ?thesis unfolding run returns_Some using g all by blast
next
  case (Some sg)
  note sg = group_find_Some [OF Some]
  have G: "group_of sv sid = set sg" using Some by (simp add: group_of_def)
  have other: "sid \<notin> set h" if "h \<in> set (sv_groups sv)" "h \<noteq> sg" for h using group_unique [OF g that(1) _ _ conjunct2 [OF sg]] sg that by blast
  have d: "distinct sg" using g sg by (simp add: distinct_concat_iff)
  define sg' where "sg' = remove1 sid sg"
  have sg': "set sg' \<subseteq> set sg" "sid \<notin> set sg'" "distinct sg'" "sg' \<noteq> []"
    using d two [of sg] sg by (auto simp: sg'_def set_remove1_eq dest: arg_cong [of _ _ length] simp: length_remove1)
  define gs where "gs = (case sg' of [s] \<Rightarrow> filter (\<lambda>h. h \<noteq> sg) (sv_groups sv) | _ \<Rightarrow> map (\<lambda>h. if h = sg then sg' else h) (sv_groups sv))"
  have run: "session_group_remove sv sid = Some (sv\<lparr>sv_groups := gs\<rparr>)"
    using Some sg'(4) by (auto simp: session_group_remove_def Let_def sg'_def [symmetric] gs_def split: list.splits)
  have "distinct (concat gs)"
  proof -
    have dh: "distinct h" if "h \<in> set (sv_groups sv)" for h using g that by (simp add: distinct_concat_iff)
    show ?thesis unfolding gs_def
      using concat_filter [OF g] concat_shrink [OF g, of "\<lambda>h. if h = sg then sg' else h"] sg' dh by (auto split: list.split)
  qed
  moreover have "2 \<le> length h \<and> sid \<notin> set h \<and> (h \<in> set (sv_groups sv) \<or> set h \<subseteq> group_of sv sid)" if "h \<in> set gs" for h
  proof (cases "\<exists>s. sg' = [s]")
    case True
    then have "h \<in> set (sv_groups sv)" "h \<noteq> sg" using that by (auto simp: gs_def)
    then show ?thesis using two other by blast
  next
    case False
    then have "2 \<le> length sg'" using sg'(4) by (cases sg'; cases "tl sg'") auto
    moreover have "h \<in> set (map (\<lambda>h. if h = sg then sg' else h) (sv_groups sv))"
      using that False sg'(4) by (auto simp: gs_def split: list.splits)
    ultimately show ?thesis using two other sg' G by auto
  qed
  ultimately show ?thesis unfolding run returns_Some by blast
qed

lemma find_filter_idx: "find (\<lambda>s. ss_idx s = u) (filter (\<lambda>t. ss_idx t \<noteq> sid) xs) = (if u = sid then None else find (\<lambda>s. ss_idx s = u) xs)"
  by (induction xs) auto

lemma destroy_ok:
  assumes d: "distinct (ids sv)" and others: "\<And>t u. session_get sv u = Some t \<Longrightarrow> u \<noteq> sid \<Longrightarrow> half_ok t \<and> ss_curw t \<noteq> None"
    and c: "counted (refs sv) (sv_windows sv)" and g: "groups_ok (Some sid) sv" and fr: "fresh_ok sv" "windows_ok sv"
    and s: "session_get sv sid = Some s"
    and same: "\<And>u v. u \<in> group_of sv sid \<Longrightarrow> v \<in> group_of sv sid \<Longrightarrow> u \<noteq> sid \<Longrightarrow> v \<noteq> sid \<Longrightarrow> bare (links_at sv u) = bare (links_at sv v)"
  shows "returns (session_destroy sid sv) (\<lambda>sv'. server_ok sv' \<and> ids sv' = filter (\<lambda>i. i \<noteq> sid) (ids sv))"
proof -
  define sv1 where "sv1 = sv\<lparr>sv_sessions := filter (\<lambda>t. ss_idx t \<noteq> sid) (sv_sessions sv)\<rparr>"
  have grp: "sv_groups sv1 = sv_groups sv" "group_of sv1 sid = group_of sv sid" by (simp_all add: sv1_def group_of_def session_group_find_def)
  have two: "2 \<le> length h" if "h \<in> set (sv_groups sv1)" for h using groups_okD(1) [OF g] that grp by simp
  have dg: "distinct (concat (sv_groups sv1))" using g grp by (simp add: groups_ok_def)
  obtain gs where rm: "session_group_remove sv1 sid = Some (sv1\<lparr>sv_groups := gs\<rparr>)" "distinct (concat gs)"
    "\<forall>h \<in> set gs. 2 \<le> length h \<and> sid \<notin> set h \<and> (h \<in> set (sv_groups sv) \<or> set h \<subseteq> group_of sv sid)"
    using group_remove_ok [OF dg two, of sid] unfolding grp returns_eq by blast
  have ids1: "ids sv1 = filter (\<lambda>i. i \<noteq> sid) (ids sv)" by (simp add: sv1_def ids_def filter_map comp_def)
  have get1: "session_get sv1 u = (if u = sid then None else session_get sv u)" for u
    by (simp add: sv1_def session_get_def find_filter_idx)
  have at1: "links_at sv1 u = links_at sv u" if "u \<noteq> sid" for u using that by (simp add: links_at_def get1)
  have d1: "distinct (ids sv1)" using d ids1 by simp
  have "refs sv1 w = rest sv sid w" for w
  proof -
    have "map (\<lambda>i. links_count w (links_at sv1 i)) (filter (\<lambda>i. i \<noteq> sid) (ids sv)) =
        map (\<lambda>i. links_count w (links_at sv i)) (filter (\<lambda>i. i \<noteq> sid) (ids sv))" using at1 by simp
    then show ?thesis unfolding refs_eq [OF d1] ids1 rest_def by (rule arg_cong)
  qed
  then have "refs sv = (\<lambda>w. refs sv1 w + links_count w (ss_windows s))" using refs_split [OF d s] by (simp add: fun_eq_iff)
  then have "counted (\<lambda>w. refs sv1 w + links_count w (ss_windows s)) (sv_windows sv1)" using c by (simp add: sv1_def)
  then obtain ws where free: "winlinks_free (ss_windows s) (sv_windows sv1) = Some ws" "counted (refs sv1) ws"
    using winlinks_free_ok unfolding returns_eq by blast
  define sv' where "sv' = sv1\<lparr>sv_groups := gs, sv_windows := ws\<rparr>"
  have run: "session_destroy sid sv = Some sv'" using s rm(1) free(1) by (simp add: session_destroy_def sv1_def sv'_def)
  have eq: "ids sv' = ids sv1" "refs sv' = refs sv1" "\<And>u. links_at sv' u = links_at sv1 u" "\<And>u. session_get sv' u = session_get sv1 u"
    by (simp_all add: sv'_def ids_def refs_def links_at_def session_get_def fun_eq_iff)
  have "base None sv'"
  proof -
    have "half_ok t \<and> ss_curw t \<noteq> None" if "t \<in> set (sv_sessions sv')" for t
    proof -
      have t: "t \<in> set (sv_sessions sv)" "ss_idx t \<noteq> sid" using that by (auto simp: sv'_def sv1_def)
      show ?thesis by (rule others [OF session_get_distinct [OF d t(1)] t(2)])
    qed
    then show ?thesis using d1 free(2) eq(1,2) by (simp add: base_def ids_def sv'_def)
  qed
  moreover have "groups_ok None sv'"
  proof -
    have "set h \<subseteq> set (ids sv') \<and> (\<forall>a \<in> set h. \<forall>b \<in> set h. bare (links_at sv' a) = bare (links_at sv' b))" if h: "h \<in> set gs" for h
    proof -
      have no: "sid \<notin> set h" and from_: "h \<in> set (sv_groups sv) \<or> set h \<subseteq> group_of sv sid" using rm(3) h by blast+
      have sub: "group_of sv sid \<subseteq> set (ids sv)"
        using groups_okD(2) [OF g] group_find_Some by (fastforce simp: group_of_def split: option.splits)
      have "set h \<subseteq> set (ids sv)" using from_ sub groups_okD(2) [OF g] by blast
      then have "set h \<subseteq> set (ids sv')" using no eq(1) ids1 by auto
      moreover have "bare (links_at sv' a) = bare (links_at sv' b)" if "a \<in> set h" "b \<in> set h" for a b
      proof -
        have ne: "a \<noteq> sid" "b \<noteq> sid" using no that by auto
        have "bare (links_at sv a) = bare (links_at sv b)"
        proof (cases "set h \<subseteq> group_of sv sid")
          case True
          then show ?thesis using same that ne by blast
        next
          case False
          then have "h \<in> set (sv_groups sv)" using from_ by blast
          from groups_okD(5) [OF g this _ that] no show ?thesis by blast
        qed
        then show ?thesis using at1 ne eq(3) by simp
      qed
      ultimately show ?thesis by blast
    qed
    moreover have "sv_groups sv' = gs" by (simp add: sv'_def)
    ultimately show ?thesis using rm(2,3) unfolding groups_ok_def by metis
  qed
  moreover have "fresh_ok sv'"
  proof -
    have "sorted_wrt (<) (map ss_name (filter P xs))" if "sorted_wrt (<) (map ss_name xs)" for P xs
      using that by (induction xs) auto
    from this [of "sv_sessions sv" "\<lambda>t. ss_idx t \<noteq> sid"] show ?thesis using fr(1) ids1 eq(1) by (simp add: fresh_ok_def sv'_def sv1_def)
  qed
  moreover have "windows_ok sv'"
  proof (rule windows_okI [OF fr(2) d])
    show "distinct (ids sv')" "sv_next_window sv \<le> sv_next_window sv'" using d1 eq(1) by (simp_all add: sv'_def sv1_def)
    fix i w assume "i \<in> set (ids sv')" "links_count w (bare (links_at sv' i)) \<noteq> 0"
    then show "w < sv_next_window sv' \<or> (\<exists>j \<in> set (ids sv). links_count w (bare (links_at sv j)) \<noteq> 0)"
      using eq(1,3) ids1 at1 by (intro disjI2 bexI [of _ i]) auto
  qed
  ultimately show ?thesis using run eq(1) ids1 by (simp add: server_ok_eq)
qed

section \<open>Detaching a window\<close>

lemma synchronize_empty:
  "session_get sv target = Some t \<Longrightarrow> ss_windows t = [] \<Longrightarrow> set us \<subseteq> set (ids sv) \<Longrightarrow> synchronize_all target us sv = Some sv"
proof (induction us)
  case (Cons u us)
  then obtain s where "session_get sv u = Some s" using session_get_None [of sv u] by auto
  then show ?case using Cons by (simp add: session_group_synchronize1_def)
qed simp

lemma synchronize_from_empty:
  assumes "session_get sv target = Some t" "ss_windows t = []" and g: "groups_ok x sv"
  shows "session_group_synchronize_from target sv = Some sv"
proof (cases "session_group_find sv target")
  case (Some sg)
  then show ?thesis using synchronize_empty [OF assms(1,2), of sg] groups_okD(2) [OF g] group_find_Some [OF Some]
    by (simp add: session_group_synchronize_from_def)
qed (simp add: session_group_synchronize_from_def)

lemma single_link:
  assumes "links_ok wwl" and "idxs wwl = {i}"
  obtains wl where "wwl = [wl]" "wl_idx wl = i"
proof (cases wwl)
  case (Cons wl wls)
  have "wls = []"
  proof (rule ccontr)
    assume "wls \<noteq> []"
    then obtain wm where "wm \<in> set wls" by (cases wls) auto
    then have "wl_idx wl < wl_idx wm" "wl_idx wm \<in> idxs wwl" "wl_idx wl \<in> idxs wwl" using assms(1) Cons by (auto simp: idxs_def)
    then show False using assms(2) by simp
  qed
  then show ?thesis using that assms(2) Cons by auto
qed (use assms in simp)

text \<open>The last window of a session: the session is destroyed, and the others of its group keep their windows.\<close>

lemma detach_last_ok:
  assumes ok: "server_ok sv" and s: "session_get sv sid = Some s" and i: "idxs (ss_windows s) = {i}"
  shows "returns (session_detach sid i sv) (\<lambda>(sv', gone). gone \<and> server_ok sv' \<and> ids sv' = filter (\<lambda>u. u \<noteq> sid) (ids sv))"
proof -
  note k = server_okD [OF ok]
  note sh = server_session [OF ok s]
  have lok: "links_ok (ss_windows s)" using sh(1) by (simp add: half_ok_def)
  obtain wl where wl: "ss_windows s = [wl]" "wl_idx wl = i" using single_link [OF lok i] by blast
  have cur: "ss_curw s = Some i" using sh(1,2) i by (auto simp: half_ok_def)
  have "set (ss_lastw s) \<subseteq> {i}" "i \<notin> set (ss_lastw s)" using sh(1) i cur by (auto simp: half_ok_def)
  then have nil: "ss_lastw s = []" by (cases "ss_lastw s") auto
  have leave: "session_leave sv sid = Some sv"
    using s cur nil wl by (simp add: session_leave_def session_last_def session_previous_def session_next_def session_goto_def
      winlink_previous_def winlink_next_def winlink_min_def winlink_max_def Let_def)
  have "counted (\<lambda>w. rest sv sid w + links_count w (ss_windows s)) (sv_windows sv)" by (rule base_counted [OF k(1) s])
  then obtain ws where rm: "winlink_remove (ss_windows s) i (sv_windows sv) = Some ([], ws)" "counted (rest sv sid) ws"
    using winlink_remove_ok [OF lok _, of i "rest sv sid" "sv_windows sv"] i wl unfolding returns_eq by auto
  define s2 where "s2 = s\<lparr>ss_lastw := winlink_stack_remove (ss_lastw s) (Some i), ss_windows := []\<rparr>"
  define sv2 where "sv2 = session_put s2 (sv\<lparr>sv_windows := ws\<rparr>)"
  have u: "upd sid s2 sv sv2" "session_get sv2 sid = Some s2" unfolding sv2_def
    using upd_put [OF s _ _ k(5), of s2] session_get_idx [OF s] by (simp_all add: s2_def)
  have w2: "ss_windows s2 = []" by (simp add: s2_def)
  have idseq: "ids sv2 = ids sv" and fr: "frame sv sv2" "sv_next_window sv2 = sv_next_window sv" using u(1) by (simp_all add: upd_def frame_def)
  have d2: "distinct (ids sv2)" using k(5) idseq by simp
  note g2 = groups_ok_upd [OF u(1) groups_ok_any [OF k(2)]]
  have sync: "session_group_synchronize_from sid sv2 = Some sv2" by (rule synchronize_from_empty [OF u(2) w2 g2])
  have cnt: "counted (refs sv2) (sv_windows sv2)"
  proof -
    have "refs sv2 = rest sv sid" using refs_split [OF d2 u(2)] upd_rest [OF u(1)] w2 by (simp add: fun_eq_iff)
    then show ?thesis using rm(2) by (simp add: sv2_def session_put_def)
  qed
  have others: "half_ok t \<and> ss_curw t \<noteq> None" if v: "session_get sv2 v = Some t" "v \<noteq> sid" for t v
  proof -
    obtain a where a: "session_get sv v = Some a" "core t = core a" using upd_other(2) [OF u(1) v(2,1)] by blast
    then show ?thesis using base_get [OF k(1) a(1)] core_eqD(3,5) [OF a(2)] by simp
  qed
  have at2: "bare (links_at sv2 v) = bare (links_at sv v)" if "v \<noteq> sid" for v
    using u(1) that by (intro same_core_links) (simp add: upd_def)
  have G: "group_of sv2 sid = group_of sv sid" using fr(1) by (simp add: group_of_def session_group_find_def frame_def)
  have same: "bare (links_at sv2 a) = bare (links_at sv2 b)" if "a \<in> group_of sv2 sid" "b \<in> group_of sv2 sid" "a \<noteq> sid" "b \<noteq> sid" for a b
    using server_group(1) [OF ok s] at2 that G by metis
  have win2: "windows_ok sv2"
  proof (rule windows_okI [OF k(4,5) d2])
    show "sv_next_window sv \<le> sv_next_window sv2" using fr(2) by simp
    fix v w assume v: "v \<in> set (ids sv2)" and n: "links_count w (bare (links_at sv2 v)) \<noteq> 0"
    have "v \<noteq> sid" using n u(2) w2 by (auto simp: links_at_def)
    then show "w < sv_next_window sv2 \<or> (\<exists>j \<in> set (ids sv). links_count w (bare (links_at sv j)) \<noteq> 0)"
      using v n at2 idseq by metis
  qed
  have "returns (session_destroy sid sv2) (\<lambda>sv'. server_ok sv' \<and> ids sv' = filter (\<lambda>i. i \<noteq> sid) (ids sv2))"
    by (rule destroy_ok [OF d2 _ cnt g2 fresh_frame [OF fr(1) k(3)] win2 u(2)]) (fact others, fact same)
  then obtain sv' where "session_destroy sid sv2 = Some sv'" "server_ok sv'" "ids sv' = filter (\<lambda>i. i \<noteq> sid) (ids sv)"
    unfolding idseq returns_eq by blast
  moreover have "session_detach sid i sv = (do { sv \<leftarrow> session_destroy sid sv2; Some (sv, True) })"
    using s cur leave rm(1) sync by (simp add: session_detach_def Let_def s2_def sv2_def)
  ultimately show ?thesis by simp
qed

text \<open>One of several windows.\<close>

lemma detach_other_ok:
  assumes ok: "server_ok sv" and s: "session_get sv sid = Some s" and i: "i \<in> idxs (ss_windows s)" and j: "j \<in> idxs (ss_windows s)" "j \<noteq> i"
  shows "returns (session_detach sid i sv) (\<lambda>(sv', gone). \<not> gone \<and> server_ok sv' \<and> ids sv' = ids sv \<and>
    (\<exists>s'. session_get sv' sid = Some s' \<and> idxs (ss_windows s') = idxs (ss_windows s) - {i}))"
proof -
  note sh = server_session [OF ok s]
  have "\<exists>sv1 s1. (if ss_curw s = Some i then session_leave sv sid else Some sv) = Some sv1 \<and> moved sid sv sv1 \<and>
      session_get sv1 sid = Some s1 \<and> ss_curw s1 \<noteq> Some i"
  proof (cases "ss_curw s = Some i")
    case True
    have "\<exists>j \<in> idxs (ss_windows s). j \<noteq> i" using j by blast
    from session_leave_ok [OF server_okD(5) [OF ok] s sh(1) True this] True show ?thesis unfolding returns_eq by auto
  qed (use s moved_refl [OF s sh(1)] in auto)
  then obtain sv1 s1 where 1: "(if ss_curw s = Some i then session_leave sv sid else Some sv) = Some sv1" "moved sid sv sv1"
    "session_get sv1 sid = Some s1" "ss_curw s1 \<noteq> Some i" by blast
  have ok1: "server_ok sv1" by (rule moved_ok [OF 1(2) ok])
  note k = server_okD [OF ok1]
  note sh1 = server_session [OF ok1 1(3)]
  have lok: "links_ok (ss_windows s1)" using sh1(1) by (simp add: half_ok_def)
  have idx1: "idxs (ss_windows s1) = idxs (ss_windows s)"
    using moved_keeps(6) [OF 1(2) server_okD(1) [OF ok], of sid] sh(4) sh1(4) bare_eqD(1) by metis
  have i1: "i \<in> idxs (ss_windows s1)" using i idx1 by simp
  obtain wwl ws where rm: "winlink_remove (ss_windows s1) i (sv_windows sv1) = Some (wwl, ws)" "wwl = filter (\<lambda>wl. wl_idx wl \<noteq> i) (ss_windows s1)"
    "links_ok wwl" "idxs wwl = idxs (ss_windows s1) - {i}" "counted (\<lambda>w. rest sv1 sid w + links_count w wwl) ws"
    using winlink_remove_ok [OF lok i1 base_counted [OF k(1) 1(3)]] unfolding returns_eq by auto
  define s2 where "s2 = s1\<lparr>ss_lastw := winlink_stack_remove (ss_lastw s1) (Some i), ss_windows := wwl\<rparr>"
  define sv2 where "sv2 = session_put s2 (sv1\<lparr>sv_windows := ws\<rparr>)"
  have u: "upd sid s2 sv1 sv2" "session_get sv2 sid = Some s2" unfolding sv2_def
    using upd_put [OF 1(3) _ _ k(5), of s2] session_get_idx [OF 1(3)] by (simp_all add: s2_def)
  have w2: "ss_windows s2 = wwl" by (simp add: s2_def)
  have h2: "half_ok s2" using sh1(1) rm(3,4) 1(4)
    by (auto simp: half_ok_def s2_def winlink_stack_remove_def set_remove1_eq)
  have c2: "ss_curw s2 \<noteq> None" using sh1(2) by (simp add: s2_def)
  have b2: "base None sv2" by (rule base_upd [OF k(1) u(1) h2]) (use c2 rm(5) w2 in \<open>simp_all add: sv2_def session_put_def\<close>)
  note g2 = groups_ok_upd [OF u(1) groups_ok_any [OF k(2)]]
  have G: "group_of sv2 sid = group_of sv1 sid" using u(1) by (simp add: group_of_def session_group_find_def upd_def frame_def)
  have near: "idxs (links_at sv2 v) - idxs (ss_windows s2) \<subseteq> {i} \<and> idxs (links_at sv2 v) \<inter> idxs (ss_windows s2) \<noteq> {}"
    if "v \<in> group_of sv2 sid" "v \<noteq> sid" for v
  proof -
    have "bare (links_at sv2 v) = bare (links_at sv1 v)" using u(1) that(2) by (intro same_core_links) (simp add: upd_def)
    then have "idxs (links_at sv2 v) = idxs (ss_windows s1)" using server_group(3) [OF ok1 1(3)] that(1) G bare_eqD(1) by metis
    then show ?thesis using rm(4) w2 j idx1 by auto
  qed
  obtain sv' where sv': "session_group_synchronize_from sid sv2 = Some sv'" "base None sv'" "groups_ok None sv'"
    "synced sid (group_of sv2 sid) sv2 sv'"
    using synchronize_from_ok [OF b2 disjI1 [OF refl] u(2) g2 near] unfolding returns_eq by blast
  note links = synced_links [OF u(1) sv'(4)]
  have sidin: "sid \<in> set (ids sv1)" using 1(3) session_get_None [of sv1 sid] by auto
  have "windows_ok sv'"
  proof (rule synced_windows [OF u(1) sv'(4) k(4,5) _ sidin])
    fix y assume "links_count y (ss_windows s2) \<noteq> 0"
    then have "links_count y (ss_windows s1) \<noteq> 0" by (auto simp: w2 rm(2) links_count_def filter_empty_conv)
    then show "y < sv_next_window sv1 \<or> links_count y (links_at sv1 sid) \<noteq> 0" using sh1(4) by simp
  qed
  then have "server_ok sv'" using sv'(2,3) fresh_frame [OF links(2) k(3)] by (simp add: server_ok_eq)
  moreover have "ids sv' = ids sv" using links(2) moved_keeps(5) [OF 1(2) server_okD(1) [OF ok]] by (simp add: frame_def)
  moreover have "wwl \<noteq> []" using rm(4) j idx1 by auto
  moreover have "session_detach sid i sv = (do { sv \<leftarrow> session_group_synchronize_from sid sv2;
      if wwl = [] then do { sv \<leftarrow> session_destroy sid sv; Some (sv, True) } else Some (sv, False) })"
    using s 1(1,3) rm(1) by (simp add: session_detach_def Let_def s2_def sv2_def)
  moreover obtain s' where "session_get sv' sid = Some s'" "core s' = core s2" using links(4) by blast
  moreover from this have "idxs (ss_windows s') = idxs (ss_windows s) - {i}" using core_eqD(9) rm(4) w2 idx1 by metis
  ultimately show ?thesis using sv'(1) by simp
qed

lemma session_detach_ok:
  assumes ok: "server_ok sv" and s: "session_get sv sid = Some s" and i: "i \<in> idxs (ss_windows s)"
  shows "returns (session_detach sid i sv) (\<lambda>(sv', gone). server_ok sv' \<and> gone = (idxs (ss_windows s) = {i}) \<and>
    ids sv' = (if gone then filter (\<lambda>u. u \<noteq> sid) (ids sv) else ids sv) \<and>
    (\<not> gone \<longrightarrow> (\<exists>s'. session_get sv' sid = Some s' \<and> idxs (ss_windows s') = idxs (ss_windows s) - {i})))"
proof (cases "idxs (ss_windows s) = {i}")
  case True
  then show ?thesis using detach_last_ok [OF ok s True] by (auto elim!: returns_mono)
next
  case False
  then obtain j where j: "j \<in> idxs (ss_windows s)" "j \<noteq> i" using i by blast
  show ?thesis using detach_other_ok [OF ok s i j] False by (auto elim!: returns_mono)
qed

section \<open>Creating a session\<close>

lemma dec_string_inj: "dec_string a = dec_string b \<Longrightarrow> a = b"
  using dec_string_value by metis

text \<open>After \<open>k\<close> rounds, \<open>k\<close> of the names are numbers; so the search ends.\<close>

lemma session_number_ok:
  assumes "idx + n < UINT_MOD" and "m \<le> idx" and "dec_string ` {m..<idx} \<subseteq> set names" and "length names < (idx - m) + n"
  shows "returns (session_number n names idx) (\<lambda>r. idx \<le> r \<and> r < idx + n \<and> dec_string r \<notin> set names)"
  using assms
proof (induction n arbitrary: idx)
  case 0
  have "card (dec_string ` {m..<idx}) = idx - m" using dec_string_inj by (subst card_image) (auto intro: inj_onI)
  moreover have "card (dec_string ` {m..<idx}) \<le> length names"
    using card_mono [OF _ 0(3)] card_length [of names] by (meson List.finite_set le_trans)
  ultimately show ?case using 0(4) by simp
next
  case (Suc n)
  show ?case
  proof (cases "dec_string idx \<in> set names")
    case True
    have "{m..<idx + 1} = insert idx {m..<idx}" using Suc.prems(2) by auto
    then have "returns (session_number n names (idx + 1)) (\<lambda>r. idx + 1 \<le> r \<and> r < idx + 1 + n \<and> dec_string r \<notin> set names)"
      using Suc.prems True by (intro Suc.IH) auto
    then have "returns (session_number n names (idx + 1)) (\<lambda>r. idx \<le> r \<and> r < idx + Suc n \<and> dec_string r \<notin> set names)"
      by (rule returns_mono) simp
    moreover have "u_add idx 1 = idx + 1" using Suc.prems(1) by (intro u_add_small) simp
    ultimately show ?thesis using True by simp
  qed simp
qed

lemma find_insort:
  "P x \<Longrightarrow> \<not> (\<exists>y \<in> set xs. P y) \<Longrightarrow> find P (insort_key f x xs) = Some x"
  "\<not> P x \<Longrightarrow> find P (insort_key f x xs) = find P xs"
  by (induction xs) auto

lemma insort_strict:
  fixes f :: "'a \<Rightarrow> 'b :: linorder"
  assumes "sorted_wrt (<) (map f xs)" and "f x \<notin> f ` set xs"
  shows "sorted_wrt (<) (map f (insort_key f x xs))"
  using assms by (induction xs) (auto simp: set_insort_key)

definition blank_session :: "server \<Rightarrow> nat \<Rightarrow> string \<Rightarrow> session" where
  "blank_session sv sid name = \<lparr>ss_idx = sid, ss_name = name, ss_curw = None, ss_lastw = [], ss_windows = [],
     ss_options = options_init (Some (sv_options sv))\<rparr>"

text \<open>The server with an empty session in it.\<close>

lemma blank_ok:
  assumes ok: "server_ok sv" and new: "name \<notin> ss_name ` set (sv_sessions sv)" and sid: "sv_next_session sv \<le> sid" "sid < UINT_MAX"
  defines "sv1 \<equiv> sv\<lparr>sv_next_session := u_add sid 1, sv_sessions := insort_key ss_name (blank_session sv sid name) (sv_sessions sv)\<rparr>"
  shows "base (Some sid) sv1" "groups_ok None sv1" "fresh_ok sv1" "windows_ok sv1" "set (ids sv1) = insert sid (set (ids sv))"
    "session_get sv1 sid = Some (blank_session sv sid name)" "\<And>u. u \<noteq> sid \<Longrightarrow> session_get sv1 u = session_get sv u" "sid \<notin> set (ids sv)"
proof -
  let ?s = "blank_session sv sid name"
  note k = server_okD [OF ok]
  have lt: "\<forall>i \<in> set (ids sv). i < sv_next_session sv" using k(3) by (simp add: fresh_ok_def)
  then show notin: "sid \<notin> set (ids sv)" using sid by auto
  have idx: "ss_idx ?s = sid" "ss_name ?s = name" "ss_windows ?s = []" by (simp_all add: blank_session_def)
  have no: "\<not> (\<exists>t \<in> set (sv_sessions sv). ss_idx t = sid)" using notin by (auto simp: ids_def)
  show get: "session_get sv1 sid = Some ?s" using find_insort(1) [of "\<lambda>t. ss_idx t = sid" ?s] no idx by (simp add: sv1_def session_get_def)
  show other: "session_get sv1 u = session_get sv u" if "u \<noteq> sid" for u
    using find_insort(2) [of "\<lambda>t. ss_idx t = u" ?s] that idx by (simp add: sv1_def session_get_def)
  show ids1: "set (ids sv1) = insert sid (set (ids sv))" using idx by (simp add: sv1_def ids_def set_insort_key)
  have d1: "distinct (ids sv1)"
  proof -
    have "distinct (map ss_idx (insort_key ss_name t ts))" if "distinct (map ss_idx ts)" "ss_idx t \<notin> ss_idx ` set ts" for t ts
      using that by (induction ts) (auto simp: set_insort_key)
    from this [of "sv_sessions sv" ?s] show ?thesis using k(5) notin idx by (simp add: sv1_def ids_def)
  qed
  have at: "links_at sv1 u = links_at sv u" for u
    using other [of u] get idx(3) notin session_get_None [of sv sid] by (cases "u = sid") (simp_all add: links_at_def)
  have refs: "refs sv1 = refs sv"
  proof
    fix w
    have "(\<Sum>s\<leftarrow>insort_key ss_name ?s xs. links_count w (ss_windows s)) = (\<Sum>s\<leftarrow>xs. links_count w (ss_windows s))" for xs
      using idx(3) by (induction xs) auto
    then show "refs sv1 w = refs sv w" by (simp add: refs_def sv1_def)
  qed
  have "half_ok ?s" by (simp add: blank_session_def half_ok_def)
  then show "base (Some sid) sv1" using k(1) d1 refs idx(1) by (auto simp: base_def ids_def sv1_def set_insort_key)
  have gr: "sv_groups sv1 = sv_groups sv" by (simp add: sv1_def)
  show "groups_ok None sv1" using k(2) unfolding groups_ok_def at gr ids1 by blast
  show "fresh_ok sv1"
  proof -
    have "sorted_wrt (<) (map ss_name (insort_key ss_name ?s (sv_sessions sv)))"
      using k(3) new idx(2) by (intro insort_strict) (simp_all add: fresh_ok_def)
    moreover have "u_add sid 1 = sid + 1" using sid(2) by (intro u_add_small) (simp add: UINT_MAX_def)
    ultimately show ?thesis using lt ids1 sid(1) by (force simp: fresh_ok_def sv1_def)
  qed
  show "windows_ok sv1" using k(4) refs by (simp add: windows_ok_def sv1_def)
qed

lemma blank_near:
  assumes "groups_ok None sv" and "sid \<notin> set (ids sv)" and "sv_groups sv1 = sv_groups sv"
  shows "group_of sv1 sid = {}"
proof -
  have "session_group_find sv1 sid = session_group_find sv sid" using assms(3) by (simp add: session_group_find_def)
  moreover have "session_group_find sv sid = None" unfolding group_find_None using groups_okD(2) [OF assms(1)] assms(2) by blast
  ultimately show ?thesis by (simp add: group_of_def)
qed

lemma base_current:
  assumes b: "base (Some sid) sv" and s: "session_get sv sid = Some s" "ss_curw s \<noteq> None"
  shows "base None sv"
proof -
  have "ss_curw t \<noteq> None" if "t \<in> set (sv_sessions sv)" for t
  proof (cases "ss_idx t = sid")
    case True
    then show ?thesis using session_get_distinct [OF base_distinct [OF b] that] s by simp
  next
    case False
    then show ?thesis using b that by (auto simp: base_def)
  qed
  then show ?thesis using b by (simp add: base_def)
qed

text \<open>Selecting a window of the new session completes it.\<close>

lemma select_completes:
  assumes b: "base (Some sid) sv" and k: "groups_ok None sv" "fresh_ok sv" "windows_ok sv"
    and s: "session_get sv sid = Some s" and i: "i \<in> idxs (ss_windows s)"
  shows "returns (session_select sv sid i) (\<lambda>(sv', r). server_ok sv' \<and> ids sv' = ids sv \<and>
    (\<exists>s'. session_get sv' sid = Some s' \<and> ss_curw s' = Some i))"
proof -
  have h: "half_ok s" using base_get [OF b s] by blast
  have i0: "0 \<le> i" using h i links_ok_idx by (auto simp: half_ok_def)
  obtain sv' r s' where sel: "session_select sv sid i = Some (sv', r)" "moved sid sv sv'" "session_get sv' sid = Some s'" "ss_curw s' = Some i"
    using session_select_ok [OF base_distinct [OF b] s h i0] i unfolding returns_eq by auto
  note m = moved_keeps [OF sel(2) b]
  have "base None sv'" by (rule base_current [OF m(1) sel(3)]) (simp add: sel(4))
  then show ?thesis using sel m(2-5) k by (simp add: server_ok_eq)
qed

lemma session_create_ok:
  assumes ok: "server_ok sv" and name: "\<And>n. name = Some n \<Longrightarrow> n \<notin> ss_name ` set (sv_sessions sv)"
    and room: "sv_next_session sv + length (sv_sessions sv) + 1 < UINT_MAX" "sv_next_window sv < UINT_MAX"
    and i: "- INT_MAX - 1 \<le> idx" "idx \<le> INT_MAX"
  shows "returns (session_create name (Some (idx, started)) sv) (\<lambda>(sv', r). server_ok sv' \<and> (case r of None \<Rightarrow> set (ids sv') = set (ids sv)
    | Some sid \<Rightarrow> sid \<notin> set (ids sv) \<and> set (ids sv') = insert sid (set (ids sv))))"
proof -
  let ?names = "map ss_name (sv_sessions sv)"
  obtain sid where sid: "(case name of Some _ \<Rightarrow> Some (sv_next_session sv)
      | None \<Rightarrow> session_number (Suc (length (sv_sessions sv))) ?names (sv_next_session sv)) = Some sid"
    "sv_next_session sv \<le> sid" "sid < UINT_MAX" "name = None \<longrightarrow> dec_string sid \<notin> set ?names"
  proof (cases name)
    case None
    have "returns (session_number (Suc (length (sv_sessions sv))) ?names (sv_next_session sv))
        (\<lambda>r. sv_next_session sv \<le> r \<and> r < sv_next_session sv + Suc (length (sv_sessions sv)) \<and> dec_string r \<notin> set ?names)"
      using room(1) by (intro session_number_ok [where m = "sv_next_session sv"]) (simp_all add: UINT_MAX_def)
    then obtain r where r: "session_number (Suc (length (sv_sessions sv))) ?names (sv_next_session sv) = Some r"
      "sv_next_session sv \<le> r" "r < sv_next_session sv + Suc (length (sv_sessions sv))" "dec_string r \<notin> set ?names"
      unfolding returns_eq by blast
    show ?thesis by (rule that [of r]) (use None r room(1) in simp_all)
  next
    case (Some n)
    show ?thesis by (rule that [of "sv_next_session sv"]) (use Some room(1) in simp_all)
  qed
  define nm where "nm = (case name of Some name \<Rightarrow> name | None \<Rightarrow> dec_string sid)"
  have nm: "nm \<notin> ss_name ` set (sv_sessions sv)" using name sid(4) by (cases name) (auto simp: nm_def)
  define sv1 where "sv1 = sv\<lparr>sv_next_session := u_add sid 1, sv_sessions := insort_key ss_name (blank_session sv sid nm) (sv_sessions sv)\<rparr>"
  note bl = blank_ok [OF ok nm sid(2,3), folded sv1_def]
  have gof: "group_of sv1 sid = {}" by (rule blank_near [OF server_okD(2) [OF ok] bl(8)]) (simp add: sv1_def)
  have near: "near sid (idxs (ss_windows (blank_session sv sid nm))) sv1" using gof by (simp add: near_def)
  have nw: "sv_next_window sv1 < UINT_MAX" using room(2) by (simp add: sv1_def)
  obtain sv2 r where new: "session_new sid idx started sv1 = Some (sv2, r)" and
    r: "case r of None \<Rightarrow> \<exists>m \<ge> sv_next_window sv1. sv2 = sv1\<lparr>sv_next_window := m\<rparr> | Some i \<Rightarrow> good_with (Some sid) sid i sv1 sv2"
    using new_ok [OF bl(1) disjI2 [OF refl] bl(2-4,6) i near nw, of started] unfolding returns_eq by auto
  have run: "session_create name (Some (idx, started)) sv = (case r of
      None \<Rightarrow> do { sv \<leftarrow> session_destroy sid sv2; Some (sv, None) }
    | Some idx \<Rightarrow> do { (sv, _) \<leftarrow> session_select sv2 sid idx; Some (sv, Some sid) })"
    using sid(1) new by (simp add: session_create_def Let_def nm_def sv1_def blank_session_def)
  show ?thesis
  proof (cases r)
    case None
    then obtain m where m: "sv_next_window sv1 \<le> m" "sv2 = sv1\<lparr>sv_next_window := m\<rparr>" using r by auto
    have k2: "base (Some sid) sv2" "groups_ok None sv2" "fresh_ok sv2" "windows_ok sv2" "ids sv2 = ids sv1" "group_of sv2 sid = {}"
      "session_get sv2 sid = Some (blank_session sv sid nm)"
      using bl m next_window_ok [OF bl(4) m(1)] gof by (simp_all add: group_of_def session_group_find_def)
    have cnt: "counted (refs sv2) (sv_windows sv2)" using k2(1) by (simp add: base_def)
    have others: "half_ok t \<and> ss_curw t \<noteq> None" if "session_get sv2 u = Some t" "u \<noteq> sid" for t u
      using base_get [OF k2(1) that(1)] that(2) by auto
    have same: "bare (links_at sv2 u) = bare (links_at sv2 v)" if "u \<in> group_of sv2 sid" for u v using that k2(6) by simp
    have "returns (session_destroy sid sv2) (\<lambda>sv'. server_ok sv' \<and> ids sv' = filter (\<lambda>i. i \<noteq> sid) (ids sv2))"
      by (rule destroy_ok [OF base_distinct [OF k2(1)] _ cnt groups_ok_any [OF k2(2)] k2(3,4,7)]) (fact others, rule same)
    then obtain sv3 where d: "session_destroy sid sv2 = Some sv3" "server_ok sv3" "ids sv3 = filter (\<lambda>i. i \<noteq> sid) (ids sv2)"
      unfolding returns_eq by blast
    then show ?thesis using run None bl(5,8) k2(5) by auto
  next
    case (Some j)
    then have g: "good_with (Some sid) sid j sv1 sv2" using r by simp
    then obtain s2 where s2: "base (Some sid) sv2" "groups_ok None sv2" "fresh_ok sv2" "windows_ok sv2" "ids sv2 = ids sv1"
      "session_get sv2 sid = Some s2" "j \<in> idxs (ss_windows s2)" by (auto simp: good_with_def)
    obtain sv3 r3 where "session_select sv2 sid j = Some (sv3, r3)" "server_ok sv3" "ids sv3 = ids sv2"
      using select_completes [OF s2(1-4,6,7)] unfolding returns_eq by auto
    then show ?thesis using run Some bl(5,8) s2(5) by simp
  qed
qed

end
