(* ===== verification/Session_Machine.thy ===== *)
theory Session_Machine
  imports Session_Server
begin

text \<open>
  Grouping sessions, linking windows, and the machine of the operations on the server: no sequence of them
  uses a window that is gone, and the invariant holds after each.
\<close>

section \<open>Grouping\<close>

text \<open>
  What \<open>new-session -t\<close> does: an empty session joins the group of another, takes over its winlinks and selects the
  one at the root of its tree. Which one that is depends on the red-black tree, so its index is a parameter.
\<close>

definition session_group_with :: "string option \<Rightarrow> nat \<Rightarrow> int \<Rightarrow> server \<Rightarrow> (server \<times> nat) option" where
  "session_group_with name target root sv = do {
     (sv, sid) \<leftarrow> session_create name None sv;
     sid \<leftarrow> sid;
     sv \<leftarrow> session_group_synchronize_to sid (session_group_add sv target sid);
     (sv, _) \<leftarrow> session_select sv sid root;
     Some (sv, sid)
   }"

text \<open>The group that a session without a group joins.\<close>

lemma group_add_ok:
  assumes g: "groups_ok None sv" and t: "target \<in> set (ids sv)" and sid: "sid \<in> set (ids sv)" "group_of sv sid = {}" "target \<noteq> sid"
  shows "groups_ok (Some sid) (session_group_add sv target sid)"
    "\<exists>sg. session_group_find (session_group_add sv target sid) sid = Some sg \<and> set sg = insert sid (insert target (group_of sv target))"
proof -
  let ?sv = "session_group_add sv target sid"
  have no: "sid \<notin> set h" if "h \<in> set (sv_groups sv)" for h
    using sid(2) group_find_None [of sv sid] that by (auto simp: group_of_def dest: group_find_Some split: option.splits)
  have d: "distinct (concat (sv_groups sv))" using g by (simp add: groups_ok_def)
  have ids: "ids ?sv = ids sv" and at: "links_at ?sv u = links_at sv u" for u
    by (simp_all add: session_group_add_def ids_def links_at_def session_get_def split: option.split)
  obtain sg' where new: "sid \<in> set sg'" "set sg' = insert sid (insert target (group_of sv target))" "distinct sg'" "2 \<le> length sg'"
    and mem: "\<And>h. h \<in> set (sv_groups ?sv) \<Longrightarrow> h = sg' \<or> h \<in> set (sv_groups sv)" "sg' \<in> set (sv_groups ?sv)"
    and dc: "distinct (concat (sv_groups ?sv))"
  proof (cases "session_group_find sv target")
    case None
    have out: "target \<notin> set h" if "h \<in> set (sv_groups sv)" for h using None that by (simp add: group_find_None)
    have gs: "sv_groups ?sv = sv_groups sv @ [[target, sid]]" using None by (simp add: session_group_add_def)
    have "group_of sv target = {}" using None by (simp add: group_of_def)
    moreover have "distinct (concat (sv_groups ?sv))" using d out no sid(3) by (auto simp: gs)
    ultimately show ?thesis using gs sid(3) by (intro that [of "[target, sid]"]) auto
  next
    case (Some sg)
    note sg = group_find_Some [OF Some]
    have gs: "sv_groups ?sv = map (\<lambda>g. if g = sg then sg @ [sid] else g) (sv_groups sv)"
      using Some by (simp add: session_group_add_def)
    have "distinct (concat (map (\<lambda>g. if g = sg then sg @ [sid] else g) gs)) \<and>
        set (concat (map (\<lambda>g. if g = sg then sg @ [sid] else g) gs)) \<subseteq> insert sid (set (concat gs))"
      if "distinct (concat gs)" "\<forall>h \<in> set gs. sid \<notin> set h \<and> h \<noteq> []" for gs
      using that
    proof (induction gs)
      case (Cons h gs)
      let ?f = "\<lambda>g. if g = sg then sg @ [sid] else g"
      have ih: "distinct (concat (map ?f gs))" "set (concat (map ?f gs)) \<subseteq> insert sid (set (concat gs))" using Cons by auto
      show ?case
      proof (cases "h = sg")
        case True
        then have "h \<notin> set gs" using Cons.prems by (cases h) fastforce+
        then have "map ?f gs = gs" using True by (intro map_idI) auto
        then show ?thesis using Cons.prems True by auto
      next
        case False
        have "set h \<inter> insert sid (set (concat gs)) = {}" using Cons.prems by auto
        then show ?thesis using ih False Cons.prems by auto
      qed
    qed simp
    from this [OF d] have "distinct (concat (sv_groups ?sv))" using no groups_okD(1) [OF g] unfolding gs by fastforce
    moreover have "group_of sv target = set sg" using Some by (simp add: group_of_def)
    moreover have "distinct sg" "2 \<le> length sg" using groups_okD(1,3) [OF g conjunct1 [OF sg]] by auto
    ultimately show ?thesis using gs sg no [OF conjunct1 [OF sg]] by (intro that [of "sg @ [sid]"]) (auto split: if_splits)
  qed
  have sub: "group_of sv target \<subseteq> set (ids sv)"
    using groups_okD(2) [OF g] group_find_Some by (fastforce simp: group_of_def split: option.splits)
  show "groups_ok (Some sid) ?sv" unfolding groups_ok_def
  proof (intro conjI ballI)
    show "distinct (concat (sv_groups ?sv))" by (rule dc)
    fix h assume h: "h \<in> set (sv_groups ?sv)"
    show "2 \<le> length h" using mem(1) [OF h] new(4) groups_okD(1) [OF g] by blast
    show "set h \<subseteq> set (ids ?sv)" unfolding ids
    proof (cases "h = sg'")
      case True
      then show "set h \<subseteq> set (ids sv)" using new(2) sub t sid(1) by simp
    next
      case False
      then show "set h \<subseteq> set (ids sv)" using mem(1) [OF h] groups_okD(2) [OF g] by blast
    qed
    show "(\<exists>y. Some sid = Some y \<and> y \<in> set h) \<or> (\<forall>a \<in> set h. \<forall>b \<in> set h. bare (links_at ?sv a) = bare (links_at ?sv b))"
      using mem(1) [OF h] new(1) groups_okD(5) [OF g] at by auto
  qed
  have "session_group_find ?sv sid \<noteq> None" using mem(2) new(1) group_find_None [of ?sv sid] by auto
  then obtain sg where f: "session_group_find ?sv sid = Some sg" by blast
  have "sg = sg'" using mem(1) [of sg] group_find_Some [OF f] no by auto
  then show "\<exists>sg. session_group_find ?sv sid = Some sg \<and> set sg = insert sid (insert target (group_of sv target))" using f new(2) by blast
qed

lemma groups_ok_all:
  assumes g: "groups_ok (Some sid) sv" and a: "\<And>u. u \<in> group_of sv sid \<Longrightarrow> bare (links_at sv u) = bare (links_at sv sid)"
  shows "groups_ok None sv"
  unfolding groups_ok_def
proof (intro conjI ballI)
  show d: "distinct (concat (sv_groups sv))" using g by (simp add: groups_ok_def)
  fix h assume h: "h \<in> set (sv_groups sv)"
  show "2 \<le> length h" "set h \<subseteq> set (ids sv)" using groups_okD(1,2) [OF g h] by blast+
  have "bare (links_at sv u) = bare (links_at sv v)" if "u \<in> set h" "v \<in> set h" for u v
  proof (cases "sid \<in> set h")
    case True
    obtain sg where sg: "session_group_find sv sid = Some sg" using group_find_None [of sv sid] h True by (cases "session_group_find sv sid") auto
    have "sg = h" using group_unique [OF d _ h _ True] group_find_Some [OF sg] by blast
    then have "group_of sv sid = set h" using sg by (simp add: group_of_def)
    then show ?thesis using a that by metis
  next
    case False
    from groups_okD(5) [OF g h _ that] False show ?thesis by blast
  qed
  then show "(\<exists>y. None = Some y \<and> y \<in> set h) \<or> (\<forall>a \<in> set h. \<forall>b \<in> set h. bare (links_at sv a) = bare (links_at sv b))" by blast
qed

lemma synchronize_to_ok:
  assumes b: "base (Some sid) sv" and g: "groups_ok (Some sid) sv" and fr: "fresh_ok sv" "windows_ok sv"
    and s: "session_get sv sid = Some s" "ss_curw s = None" "ss_lastw s = []"
    and sg: "session_group_find sv sid = Some sg" "target \<in> set sg" "target \<noteq> sid" and t: "session_get sv target = Some t"
    and same: "\<And>u v. u \<in> set sg \<Longrightarrow> v \<in> set sg \<Longrightarrow> u \<noteq> sid \<Longrightarrow> v \<noteq> sid \<Longrightarrow> bare (links_at sv u) = bare (links_at sv v)"
  shows "returns (session_group_synchronize_to sid sv) (\<lambda>sv'. server_ok sv' \<and> ids sv' = ids sv \<and>
    (\<exists>s'. session_get sv' sid = Some s' \<and> idxs (ss_windows s') = idxs (ss_windows t)))"
proof -
  have "find (\<lambda>t. t \<noteq> sid) sg \<noteq> None" using sg(2,3) by (auto simp: find_None_iff)
  then obtain u where u: "find (\<lambda>t. t \<noteq> sid) sg = Some u" by blast
  then have us: "u \<in> set sg" "u \<noteq> sid" by (auto simp: find_Some_iff)
  have "u \<in> set (ids sv)" using groups_okD(2) [OF g conjunct1 [OF group_find_Some [OF sg(1)]]] us(1) by blast
  then obtain t' where t': "session_get sv u = Some t'" using session_get_None [of sv u] by auto
  have th: "half_ok t'" "ss_curw t' \<noteq> None" using base_get [OF b t'] us(2) by auto
  then obtain c where c: "ss_curw t' = Some c" "c \<in> idxs (ss_windows t')" by (auto simp: half_ok_def)
  have ne: "ss_windows t' \<noteq> []" using c(2) by auto
  have x: "Some sid = None \<or> Some sid = Some sid \<or> Some sid = None" by simp
  have cc: "ss_curw s = Some c \<or> ss_curw s = None \<and> ss_curw t' = Some c \<and> ss_lastw s = []" using s c by simp
  have run: "session_group_synchronize_to sid sv = do {
       (wwl, ws) \<leftarrow> winlinks_link (ss_windows t') [] (sv_windows sv);
       idx \<leftarrow> (case ss_curw s of Some idx \<Rightarrow> Some idx | None \<Rightarrow> ss_curw t');
       curw \<leftarrow> winlink_find_by_index wwl idx;
       let lastw = filter (\<lambda>i. i \<in> wl_idx ` set wwl) (ss_lastw s);
       ws \<leftarrow> winlinks_free (ss_windows s) ws;
       Some (session_put (s\<lparr>ss_windows := wwl, ss_curw := map_option wl_idx curw, ss_lastw := lastw\<rparr>) (sv\<lparr>sv_windows := ws\<rparr>))
     }"
    using sg(1) u t' s(1,2) ne by (simp add: session_group_synchronize_to_def session_group_synchronize1_def)
  obtain sv' s' where r: "session_group_synchronize_to sid sv = Some sv'" "upd sid s' sv sv'" "bare (ss_windows s') = bare (ss_windows t')"
    "base None sv'"
    using synchronize_tail [OF b t' s(1) us(2) c(2) cc x] unfolding run [symmetric] returns_eq by blast
  have fr': "frame sv sv'" "sv_next_window sv' = sv_next_window sv" using r(2) by (simp_all add: upd_def)
  have ids': "ids sv' = ids sv" and G: "group_of sv' sid = set sg"
    using fr'(1) sg(1) by (simp_all add: frame_def group_of_def session_group_find_def)
  have at: "bare (links_at sv' v) = bare (links_at sv v)" if "v \<noteq> sid" for v
    using r(2) that by (intro same_core_links) (simp add: upd_def)
  have atu: "links_at sv u = ss_windows t'" using t' by (simp add: links_at_def)
  have atsid: "bare (links_at sv' sid) = bare (links_at sv u)" using upd_links [OF r(2)] r(3) atu by simp
  have "groups_ok None sv'"
  proof (rule groups_ok_all [OF groups_ok_upd [OF r(2) g]])
    fix v assume v: "v \<in> group_of sv' sid"
    show "bare (links_at sv' v) = bare (links_at sv' sid)"
    proof (cases "v = sid")
      case False
      then show ?thesis using at [OF False] same [of v u] us v G atsid by simp
    qed simp
  qed
  moreover have "windows_ok sv'"
  proof (rule windows_okI [OF fr(2) base_distinct [OF b]])
    show "distinct (ids sv')" "sv_next_window sv \<le> sv_next_window sv'" using base_distinct [OF b] ids' fr'(2) by simp_all
    fix v w assume v: "v \<in> set (ids sv')" and n: "links_count w (bare (links_at sv' v)) \<noteq> 0"
    have "\<exists>j \<in> set (ids sv). bare (links_at sv' v) = bare (links_at sv j)"
    proof (cases "v = sid")
      case True
      then show ?thesis using atsid \<open>u \<in> set (ids sv)\<close> by blast
    next
      case False
      have "v \<in> set (ids sv)" using v ids' by simp
      then show ?thesis using at [OF False] by blast
    qed
    then show "w < sv_next_window sv' \<or> (\<exists>j \<in> set (ids sv). links_count w (bare (links_at sv j)) \<noteq> 0)" using n by metis
  qed
  ultimately have "server_ok sv'" using r(4) fresh_frame [OF fr'(1) fr(1)] by (simp add: server_ok_eq)
  moreover obtain s'' where s'': "session_get sv' sid = Some s''" "core s'' = core s'" using upd_get [OF r(2)] .
  moreover have "idxs (ss_windows s'') = idxs (ss_windows t)"
  proof -
    have "links_at sv target = ss_windows t" using t by (simp add: links_at_def)
    then have "idxs (ss_windows t') = idxs (ss_windows t)" using bare_eqD(1) [OF same [OF us(1) sg(2) us(2) sg(3)]] atu by simp
    then show ?thesis using core_eqD(9) [OF s''(2)] bare_eqD(1) [OF r(3)] by simp
  qed
  ultimately show ?thesis unfolding r(1) returns_Some using ids' by blast
qed

lemma session_create_blank:
  assumes ok: "server_ok sv" and name: "\<And>n. name = Some n \<Longrightarrow> n \<notin> ss_name ` set (sv_sessions sv)"
    and room: "sv_next_session sv + length (sv_sessions sv) + 1 < UINT_MAX"
  obtains sid nm where "sv_next_session sv \<le> sid" "sid < UINT_MAX" "nm \<notin> ss_name ` set (sv_sessions sv)"
    "session_create name None sv = Some (sv\<lparr>sv_next_session := u_add sid 1,
       sv_sessions := insort_key ss_name (blank_session sv sid nm) (sv_sessions sv)\<rparr>, Some sid)"
proof (cases name)
  case None
  let ?names = "map ss_name (sv_sessions sv)"
  have "returns (session_number (Suc (length (sv_sessions sv))) ?names (sv_next_session sv))
      (\<lambda>r. sv_next_session sv \<le> r \<and> r < sv_next_session sv + Suc (length (sv_sessions sv)) \<and> dec_string r \<notin> set ?names)"
    using room by (intro session_number_ok [where m = "sv_next_session sv"]) (simp_all add: UINT_MAX_def)
  then obtain r where r: "session_number (Suc (length (sv_sessions sv))) ?names (sv_next_session sv) = Some r"
    "sv_next_session sv \<le> r" "r < sv_next_session sv + Suc (length (sv_sessions sv))" "dec_string r \<notin> set ?names"
    unfolding returns_eq by blast
  show ?thesis by (rule that [of r "dec_string r"]) (use None r room in \<open>simp_all add: session_create_def blank_session_def\<close>)
next
  case (Some n)
  show ?thesis by (rule that [of "sv_next_session sv" n])
      (use Some name room in \<open>simp_all add: session_create_def blank_session_def\<close>)
qed

lemma group_same:
  assumes g: "groups_ok None sv" and u: "u \<in> insert sid (group_of sv sid)"
  shows "bare (links_at sv u) = bare (links_at sv sid)"
proof (cases "u = sid")
  case False
  then obtain sg where f: "session_group_find sv sid = Some sg" "u \<in> set sg" using u by (auto simp: group_of_def split: option.splits)
  note sg = group_find_Some [OF f(1)]
  show ?thesis by (rule groups_okD(5) [OF g conjunct1 [OF sg] _ f(2) conjunct2 [OF sg]]) simp
qed simp

lemma group_with_ok:
  assumes ok: "server_ok sv" and name: "\<And>n. name = Some n \<Longrightarrow> n \<notin> ss_name ` set (sv_sessions sv)"
    and room: "sv_next_session sv + length (sv_sessions sv) + 1 < UINT_MAX"
    and t: "session_get sv target = Some t" and root: "root \<in> idxs (ss_windows t)"
  shows "returns (session_group_with name target root sv) (\<lambda>(sv', sid). server_ok sv' \<and>
    sid \<notin> set (ids sv) \<and> set (ids sv') = insert sid (set (ids sv)))"
proof -
  obtain sid nm where c: "sv_next_session sv \<le> sid" "sid < UINT_MAX" "nm \<notin> ss_name ` set (sv_sessions sv)"
    "session_create name None sv = Some (sv\<lparr>sv_next_session := u_add sid 1,
       sv_sessions := insort_key ss_name (blank_session sv sid nm) (sv_sessions sv)\<rparr>, Some sid)"
    by (rule session_create_blank [OF ok name room])
  define sv1 where "sv1 = sv\<lparr>sv_next_session := u_add sid 1, sv_sessions := insort_key ss_name (blank_session sv sid nm) (sv_sessions sv)\<rparr>"
  note bl = blank_ok [OF ok c(3,1,2), folded sv1_def]
  have tin: "target \<in> set (ids sv1)" and ne: "target \<noteq> sid" using t session_get_None [of sv target] bl(5,8) by auto
  have gof: "group_of sv1 sid = {}" by (rule blank_near [OF server_okD(2) [OF ok] bl(8)]) (simp add: sv1_def)
  have sidin: "sid \<in> set (ids sv1)" using bl(5) by simp
  define sv2 where "sv2 = session_group_add sv1 target sid"
  note add = group_add_ok [OF bl(2) tin sidin gof ne, folded sv2_def]
  obtain sg where sg: "session_group_find sv2 sid = Some sg" "set sg = insert sid (insert target (group_of sv1 target))" using add(2) by blast
  have f2: "sv_sessions sv2 = sv_sessions sv1" "sv_windows sv2 = sv_windows sv1" "sv_next_session sv2 = sv_next_session sv1"
    "sv_next_window sv2 = sv_next_window sv1"
    by (simp_all add: sv2_def session_group_add_def split: option.split)
  have k2: "session_get sv2 = session_get sv1" "links_at sv2 = links_at sv1" "ids sv2 = ids sv1" "refs sv2 = refs sv1"
    by (simp_all add: session_get_def links_at_def ids_def refs_def fun_eq_iff f2)
  have b2: "base (Some sid) sv2" using bl(1) unfolding base_def k2(4) f2 .
  have fr2: "fresh_ok sv2" "windows_ok sv2" using bl(3,4) unfolding fresh_ok_def windows_ok_def k2(3,4) f2 .
  have s2: "session_get sv2 sid = Some (blank_session sv sid nm)" "ss_curw (blank_session sv sid nm) = None"
    "ss_lastw (blank_session sv sid nm) = []" using bl(6) by (simp_all add: k2 blank_session_def)
  have t2: "session_get sv2 target = Some t" using t bl(7) [OF ne] by (simp add: k2)
  have one: "bare (links_at sv1 u) = bare (links_at sv1 target)" if "u \<in> insert target (group_of sv1 target)" for u
    using group_same [OF bl(2) that] .
  have same: "bare (links_at sv2 u) = bare (links_at sv2 v)" if "u \<in> set sg" "v \<in> set sg" "u \<noteq> sid" "v \<noteq> sid" for u v
    using one [of u] one [of v] that sg(2) by (simp add: k2)
  have tsg: "target \<in> set sg" using sg(2) by simp
  have "returns (session_group_synchronize_to sid sv2) (\<lambda>sv'. server_ok sv' \<and> ids sv' = ids sv2 \<and>
      (\<exists>s'. session_get sv' sid = Some s' \<and> idxs (ss_windows s') = idxs (ss_windows t)))"
    by (rule synchronize_to_ok [OF b2 add(1) fr2 s2 sg(1) tsg ne t2]) (fact same)
  then obtain sv3 s3 where 3: "session_group_synchronize_to sid sv2 = Some sv3" "server_ok sv3" "ids sv3 = ids sv2"
    "session_get sv3 sid = Some s3" "idxs (ss_windows s3) = idxs (ss_windows t)" unfolding returns_eq by blast
  have r0: "0 \<le> root" using server_session(1) [OF ok t] root links_ok_idx by (auto simp: half_ok_def)
  obtain sv4 r4 where 4: "session_select sv3 sid root = Some (sv4, r4)" "moved sid sv3 sv4"
    using session_select_ok [OF server_okD(5) [OF 3(2)] 3(4) server_session(1) [OF 3(2,4)] r0] unfolding returns_eq by auto
  have "session_group_with name target root sv = Some (sv4, sid)"
    using c(4) 3(1) 4(1) by (simp add: session_group_with_def sv1_def sv2_def)
  moreover have "server_ok sv4" by (rule moved_ok [OF 4(2) 3(2)])
  moreover have "ids sv4 = ids sv1" using moved_keeps(5) [OF 4(2) server_okD(1) [OF 3(2)]] 3(3) k2(3) by simp
  ultimately show ?thesis using bl(5,8) by simp
qed

section \<open>Linking\<close>

lemma alive_window:
  assumes b: "base x sv" and s: "session_get sv sid = Some s" and w: "links_count w (ss_windows s) \<noteq> 0"
  shows "sv_windows sv w \<noteq> None"
proof -
  have "refs sv w \<noteq> 0" using refs_split [OF base_distinct [OF b] s, of w] w by simp
  moreover have "counted (refs sv) (sv_windows sv)" using b by (simp add: base_def)
  ultimately show ?thesis by (simp add: counted_def)
qed

text \<open>The winlink that is in the way is removed, and the session may be left without a current window.\<close>

lemma unlink_ok:
  assumes ok: "server_ok sv" and d: "session_get sv dst = Some d" and i: "i \<in> idxs (ss_windows d)"
  defines "x \<equiv> (if ss_curw d = Some i then Some dst else None)"
  shows "\<exists>wwl ws d' sv1. winlink_remove (ss_windows d) i (sv_windows sv) = Some (wwl, ws) \<and>
    d' = d\<lparr>ss_windows := wwl, ss_lastw := winlink_stack_remove (ss_lastw d) (Some i),
      ss_curw := (if ss_curw d = Some i then None else ss_curw d)\<rparr> \<and> sv1 = session_put d' (sv\<lparr>sv_windows := ws\<rparr>) \<and>
    base x sv1 \<and> groups_ok (Some dst) sv1 \<and> fresh_ok sv1 \<and> windows_ok sv1 \<and> ids sv1 = ids sv \<and> session_get sv1 dst = Some d' \<and>
    wwl = filter (\<lambda>wl. wl_idx wl \<noteq> i) (ss_windows d) \<and> idxs wwl = idxs (ss_windows d) - {i} \<and> near dst (insert i (idxs wwl)) sv1 \<and>
    (\<forall>u. u \<noteq> dst \<longrightarrow> bare (links_at sv1 u) = bare (links_at sv u))"
proof -
  note k = server_okD [OF ok] and sh = server_session [OF ok d]
  have lok: "links_ok (ss_windows d)" using sh(1) by (simp add: half_ok_def)
  obtain wwl ws where rm: "winlink_remove (ss_windows d) i (sv_windows sv) = Some (wwl, ws)"
    "wwl = filter (\<lambda>wl. wl_idx wl \<noteq> i) (ss_windows d)" "links_ok wwl" "idxs wwl = idxs (ss_windows d) - {i}"
    "counted (\<lambda>w. rest sv dst w + links_count w wwl) ws"
    using winlink_remove_ok [OF lok i base_counted [OF k(1) d]] unfolding returns_eq by auto
  define d' where "d' = d\<lparr>ss_windows := wwl, ss_lastw := winlink_stack_remove (ss_lastw d) (Some i),
      ss_curw := (if ss_curw d = Some i then None else ss_curw d)\<rparr>"
  define sv1 where "sv1 = session_put d' (sv\<lparr>sv_windows := ws\<rparr>)"
  have u: "upd dst d' sv sv1" "session_get sv1 dst = Some d'" unfolding sv1_def
    using upd_put [OF d _ _ k(5), of d'] session_get_idx [OF d] by (simp_all add: d'_def)
  have w': "ss_windows d' = wwl" by (simp add: d'_def)
  have h': "half_ok d'" using sh(1) rm(3,4) by (auto simp: half_ok_def d'_def winlink_stack_remove_def set_remove1_eq)
  have b1: "base x sv1" by (rule base_upd [OF k(1) u(1) h'])
      (use sh(2) rm(5) w' in \<open>auto simp: x_def d'_def sv1_def session_put_def\<close>)
  have fr: "frame sv sv1" "sv_next_window sv1 = sv_next_window sv" using u(1) by (simp_all add: upd_def)
  have ids1: "ids sv1 = ids sv" using fr(1) by (simp add: frame_def)
  have at: "bare (links_at sv1 v) = bare (links_at sv v)" if "v \<noteq> dst" for v
    using u(1) that by (intro same_core_links) (simp add: upd_def)
  have "windows_ok sv1"
  proof (rule windows_okI [OF k(4,5)])
    show "distinct (ids sv1)" "sv_next_window sv \<le> sv_next_window sv1" using k(5) ids1 fr(2) by simp_all
    fix v w assume v: "v \<in> set (ids sv1)" and n: "links_count w (bare (links_at sv1 v)) \<noteq> 0"
    have "links_count w (bare (links_at sv v)) \<noteq> 0"
    proof (cases "v = dst")
      case True
      then have "links_count w wwl \<noteq> 0" using n u(2) w' by (simp add: links_at_def)
      then have "links_count w (ss_windows d) \<noteq> 0" by (auto simp: rm(2) links_count_def filter_empty_conv)
      then show ?thesis using True sh(4) by simp
    next
      case False
      then show ?thesis using n at by metis
    qed
    then show "w < sv_next_window sv1 \<or> (\<exists>j \<in> set (ids sv). links_count w (bare (links_at sv j)) \<noteq> 0)" using v ids1 by metis
  qed
  moreover have "near dst (insert i (idxs wwl)) sv1"
  proof -
    have G: "group_of sv1 dst = group_of sv dst" using fr(1) by (simp add: group_of_def session_group_find_def frame_def)
    have "idxs (links_at sv1 v) = idxs (ss_windows d) \<and> links_at sv1 v \<noteq> []" if "v \<in> group_of sv1 dst" "v \<noteq> dst" for v
      using server_group(2,3) [OF ok d] that(1) G bare_eqD(1,5) [OF at [OF that(2)]] by metis
    then show ?thesis using rm(4) by (auto simp: near_def)
  qed
  ultimately show ?thesis
    using rm(1,2,4) b1 groups_ok_upd [OF u(1) groups_ok_any [OF k(2)]] fresh_frame [OF fr(1) k(3)] ids1 u(2) at
    by (intro exI [of _ wwl] exI [of _ ws] exI [of _ d'] exI [of _ sv1] conjI) (simp_all add: d'_def sv1_def)
qed

lemma attached_ok:
  assumes a: "good_with x dst i sv sv'" and x: "x = None \<or> x = Some dst \<and> sel"
  shows "returns (if sel then map_option fst (session_select sv' dst i) else Some sv') (\<lambda>sv''. server_ok sv'' \<and> ids sv'' = ids sv)"
proof -
  obtain s' where g: "base x sv'" "groups_ok None sv'" "fresh_ok sv'" "windows_ok sv'" "ids sv' = ids sv" "session_get sv' dst = Some s'"
    "i \<in> idxs (ss_windows s')" using a by (auto simp: good_with_def)
  show ?thesis
  proof (cases sel)
    case True
    have "base (Some dst) sv'" using g(1) x by (auto simp: base_def)
    from select_completes [OF this g(2-4,6,7)] True g(5) show ?thesis unfolding returns_eq by auto
  next
    case False
    then show ?thesis using x g by (simp add: server_ok_eq)
  qed
qed

lemma link_window_ok:
  assumes ok: "server_ok sv" and s: "session_get sv src = Some s" and d: "session_get sv dst = Some d"
    and si: "srcidx \<in> idxs (ss_windows s)" and di: "- 1 \<le> dstidx" "dstidx \<le> INT_MAX"
    and b: "dstidx = -1 \<Longrightarrow> \<exists>b. options_get_number (ss_options d) ''base-index'' = Some b \<and> 0 \<le> b \<and> b \<le> INT_MAX"
  shows "returns (server_link_window src srcidx dst dstidx killflag selectflag sv) (\<lambda>(sv', _). server_ok sv' \<and> ids sv' = ids sv)"
proof (cases "src \<noteq> dst \<and> session_group_find sv src \<noteq> None \<and> session_group_find sv src = session_group_find sv dst")
  case True
  then have "server_link_window src srcidx dst dstidx killflag selectflag sv = Some (sv, False)"
    unfolding server_link_window_def Let_def by (rule if_P)
  then show ?thesis using ok by simp
next
  case False
  note k = server_okD [OF ok]
  have "find (\<lambda>wl. wl_idx wl = srcidx) (ss_windows s) \<noteq> None" using si find_idx(1) [of srcidx "ss_windows s"] by simp
  then obtain srcwl where f: "find (\<lambda>wl. wl_idx wl = srcidx) (ss_windows s) = Some srcwl" by blast
  note sw = find_idx(2) [OF f]
  obtain w where w: "wl_window srcwl = Some w" using server_session(1) [OF ok s] sw by (auto simp: half_ok_def links_ok_def)
  have wc: "links_count w (ss_windows s) \<noteq> 0" using sw w by (auto simp: links_count_def filter_empty_conv)
  define dstwl where "dstwl = (if dstidx \<noteq> -1 then find (\<lambda>wl. wl_idx wl = dstidx) (ss_windows d) else None)"
  have dw: "(if dstidx \<noteq> -1 then winlink_find_by_index (ss_windows d) dstidx else Some None) = Some dstwl"
    using di by (auto simp: dstwl_def find_by_index)
  show ?thesis
  proof (cases dstwl)
    case None
    obtain base where base: "(if dstidx = -1 then options_get_number (ss_options d) ''base-index'' else Some 0) = Some base"
      "0 \<le> base" "base \<le> INT_MAX" using b by (cases "dstidx = -1") auto
    define idx where "idx = (if dstidx = -1 then -1 - base else dstidx)"
    have rng: "- INT_MAX - 1 \<le> idx" "idx \<le> INT_MAX" using base(2,3) di by (auto simp: idx_def)
    have n: "near dst (if 0 \<le> idx then insert idx (idxs (ss_windows d)) else idxs (ss_windows d)) sv"
      using server_near [OF ok d] by (auto simp: near_def)
    have "returns (session_attach dst w idx sv) (\<lambda>(sv', r). case r of None \<Rightarrow> sv' = sv \<and> (0 \<le> idx \<longrightarrow> idx \<in> idxs (ss_windows d))
        | Some i \<Rightarrow> (0 \<le> idx \<longrightarrow> i = idx) \<and> good_with None dst i sv sv')"
      by (rule attach_ok [OF k(1) disjI1 [OF refl] groups_ok_any [OF k(2)] k(3,4) d alive_window [OF k(1) s wc] rng n])
    then obtain sv1 r where at: "session_attach dst w idx sv = Some (sv1, r)" and post: "case r of None \<Rightarrow> sv1 = sv \<and> (0 \<le> idx \<longrightarrow> idx \<in> idxs (ss_windows d))
        | Some i \<Rightarrow> (0 \<le> idx \<longrightarrow> i = idx) \<and> good_with None dst i sv sv1" unfolding returns_eq by blast
    have post: "r = None \<longrightarrow> sv1 = sv" "\<And>i. r = Some i \<Longrightarrow> good_with None dst i sv sv1" using post by (cases r; simp)+
    have run: "server_link_window src srcidx dst dstidx killflag selectflag sv = (case r of None \<Rightarrow> Some (sv1, False)
        | Some i \<Rightarrow> do { sv \<leftarrow> (if selectflag then map_option fst (session_select sv1 dst i) else Some sv1); Some (sv, True) })"
      using False s f w d dw None base(1) at by (simp add: server_link_window_def Let_def idx_def [symmetric], blast)
    show ?thesis
    proof (cases r)
      case None
      then show ?thesis using run post(1) ok by simp
    next
      case (Some i)
      obtain sv2 where "(if selectflag then map_option fst (session_select sv1 dst i) else Some sv1) = Some sv2" "server_ok sv2" "ids sv2 = ids sv"
        using attached_ok [OF post(2) [OF Some], of selectflag] unfolding returns_eq by auto
      then show ?thesis using run Some by simp
    qed
  next
    case (Some wl)
    have fw: "find (\<lambda>wl. wl_idx wl = dstidx) (ss_windows d) = Some wl" "dstidx \<noteq> -1" using Some by (auto simp: dstwl_def split: if_splits)
    then have d0: "0 \<le> dstidx" "dstidx \<in> idxs (ss_windows d)" using di find_idx(2) [OF fw(1)] by (auto simp: idxs_def)
    consider (same) "wl_window wl = Some w" | (keep) "wl_window wl \<noteq> Some w" "\<not> killflag" | (kill) "wl_window wl \<noteq> Some w" killflag by blast
    then show ?thesis
    proof cases
      case same
      then show ?thesis using False s f w d dw Some ok by (simp add: server_link_window_def Let_def)
    next
      case keep
      then show ?thesis using False s f w d dw Some ok by (simp add: server_link_window_def Let_def)
    next
      case kill
      define x where "x = (if ss_curw d = Some dstidx then Some dst else None)"
      obtain wwl ws d' sv1 where rm: "winlink_remove (ss_windows d) dstidx (sv_windows sv) = Some (wwl, ws)"
        "d' = d\<lparr>ss_windows := wwl, ss_lastw := winlink_stack_remove (ss_lastw d) (Some dstidx),
           ss_curw := (if ss_curw d = Some dstidx then None else ss_curw d)\<rparr>" "sv1 = session_put d' (sv\<lparr>sv_windows := ws\<rparr>)"
        "base x sv1" "groups_ok (Some dst) sv1" "fresh_ok sv1" "windows_ok sv1" "ids sv1 = ids sv" "session_get sv1 dst = Some d'"
        "wwl = filter (\<lambda>wl. wl_idx wl \<noteq> dstidx) (ss_windows d)" "idxs wwl = idxs (ss_windows d) - {dstidx}"
        "near dst (insert dstidx (idxs wwl)) sv1" "\<forall>u. u \<noteq> dst \<longrightarrow> bare (links_at sv1 u) = bare (links_at sv u)"
        using unlink_ok [OF ok d d0(2)] unfolding x_def by blast
      have w1: "ss_windows d' = wwl" using rm(2) by simp
      have "sv_windows sv1 w \<noteq> None"
      proof (cases "src = dst")
        case True
        then have "s = d" using s d by simp
        have "srcwl \<noteq> wl" using w kill(1) by auto
        then have "wl_idx srcwl \<noteq> dstidx" using sw f fw(1) \<open>s = d\<close> by auto
        then have "links_count w (ss_windows d') \<noteq> 0" using sw w \<open>s = d\<close> w1 rm(10) by (auto simp: links_count_def filter_empty_conv)
        then show ?thesis by (rule alive_window [OF rm(4,9)])
      next
        case False
        have "src \<in> set (ids sv1)" using s session_get_None [of sv src] rm(8) by auto
        then obtain s1 where s1: "session_get sv1 src = Some s1" using session_get_None [of sv1 src] by auto
        have "bare (ss_windows s1) = bare (ss_windows s)" using rm(13) False s1 s by (auto simp: links_at_def)
        then show ?thesis using alive_window [OF rm(4) s1] wc bare_eqD(3) by metis
      qed
      then have alive: "sv_windows sv1 w \<noteq> None" .
      have x: "x = None \<or> x = Some dst" by (simp add: x_def)
      have rng: "- INT_MAX - 1 \<le> dstidx" using d0(1) by simp
      have n: "near dst (if 0 \<le> dstidx then insert dstidx (idxs (ss_windows d')) else idxs (ss_windows d')) sv1" using rm(12) d0(1) w1 by simp
      from attach_ok [OF rm(4) x rm(5-7,9) alive rng di(2) n] obtain sv2 r where at: "session_attach dst w dstidx sv1 = Some (sv2, r)"
        and post: "case r of None \<Rightarrow> sv2 = sv1 \<and> (0 \<le> dstidx \<longrightarrow> dstidx \<in> idxs (ss_windows d'))
          | Some i \<Rightarrow> (0 \<le> dstidx \<longrightarrow> i = dstidx) \<and> good_with x dst i sv1 sv2" unfolding returns_eq by blast
      have "r \<noteq> None" using post d0(1) rm(11) w1 by auto
      then obtain i where i: "r = Some i" "good_with x dst i sv1 sv2" using post by auto
      let ?sel = "selectflag \<or> ss_curw d = Some dstidx"
      have "x = None \<or> x = Some dst \<and> ?sel" by (simp add: x_def)
      then obtain sv3 where 3: "(if ?sel then map_option fst (session_select sv2 dst i) else Some sv2) = Some sv3" "server_ok sv3" "ids sv3 = ids sv1"
        using attached_ok [OF i(2), of ?sel] unfolding returns_eq by blast
      have "server_link_window src srcidx dst dstidx killflag selectflag sv = Some (sv3, True)"
        using False s f w d dw Some kill rm(1) at i(1) 3(1) unfolding rm(3) rm(2)
        by (simp add: server_link_window_def Let_def)
      then show ?thesis using 3(2,3) rm(8) by simp
    qed
  qed
qed

section \<open>The machine\<close>

datatype server_op =
    V_next nat bool
  | V_previous nat bool
  | V_select nat int
  | V_last nat
  | V_new nat int bool
  | V_create "string option" int bool
  | V_group "string option" nat int
  | V_unlink nat int
  | V_link nat int nat int bool bool
  | V_destroy nat

fun server_run :: "server_op \<Rightarrow> server \<Rightarrow> server option" where
  "server_run (V_next sid alert) sv = map_option fst (session_next sv sid alert)"
| "server_run (V_previous sid alert) sv = map_option fst (session_previous sv sid alert)"
| "server_run (V_select sid idx) sv = map_option fst (session_select sv sid idx)"
| "server_run (V_last sid) sv = map_option fst (session_last sv sid)"
| "server_run (V_new sid idx started) sv = map_option fst (session_new sid idx started sv)"
| "server_run (V_create name idx started) sv = map_option fst (session_create name (Some (idx, started)) sv)"
| "server_run (V_group name target root) sv = map_option fst (session_group_with name target root sv)"
| "server_run (V_unlink sid idx) sv = server_unlink_window sid idx sv"
| "server_run (V_link src srcidx dst dstidx kill sel) sv = map_option fst (server_link_window src srcidx dst dstidx kill sel sv)"
| "server_run (V_destroy sid) sv = session_destroy sid sv"

text \<open>
  What the commands make sure of: the sessions and the winlinks exist, a name for a session is not in use, indexes
  are numbers an \<open>int\<close> can hold, and the counters have not run out.
\<close>

definition has_link :: "server \<Rightarrow> nat \<Rightarrow> int \<Rightarrow> bool" where
  "has_link sv sid idx = (case session_get sv sid of None \<Rightarrow> False | Some s \<Rightarrow> find (\<lambda>wl. wl_idx wl = idx) (ss_windows s) \<noteq> None)"

definition int_index :: "int \<Rightarrow> bool" where
  "int_index idx \<longleftrightarrow> - INT_MAX - 1 \<le> idx \<and> idx \<le> INT_MAX"

definition name_free :: "string option \<Rightarrow> server \<Rightarrow> bool" where
  "name_free name sv \<longleftrightarrow> (case name of None \<Rightarrow> True | Some n \<Rightarrow> n \<notin> set (map ss_name (sv_sessions sv))) \<and>
     sv_next_session sv + length (sv_sessions sv) + 1 < UINT_MAX"

definition base_index_ok :: "server \<Rightarrow> nat \<Rightarrow> bool" where
  "base_index_ok sv sid = (case session_get sv sid of None \<Rightarrow> False
   | Some s \<Rightarrow> (case options_get_number (ss_options s) ''base-index'' of None \<Rightarrow> False | Some b \<Rightarrow> 0 \<le> b \<and> b \<le> INT_MAX))"

fun server_guard :: "server \<Rightarrow> server_op \<Rightarrow> bool" where
  "server_guard sv (V_next sid alert) = session_alive sv sid"
| "server_guard sv (V_previous sid alert) = session_alive sv sid"
| "server_guard sv (V_select sid idx) = (session_alive sv sid \<and> 0 \<le> idx)"
| "server_guard sv (V_last sid) = session_alive sv sid"
| "server_guard sv (V_new sid idx started) = (session_alive sv sid \<and> int_index idx \<and> sv_next_window sv < UINT_MAX)"
| "server_guard sv (V_create name idx started) = (name_free name sv \<and> int_index idx \<and> sv_next_window sv < UINT_MAX)"
| "server_guard sv (V_group name target root) = (name_free name sv \<and> has_link sv target root)"
| "server_guard sv (V_unlink sid idx) = has_link sv sid idx"
| "server_guard sv (V_link src srcidx dst dstidx kill sel) =
     (has_link sv src srcidx \<and> session_alive sv dst \<and> -1 \<le> dstidx \<and> dstidx \<le> INT_MAX \<and> (dstidx = -1 \<longrightarrow> base_index_ok sv dst))"
| "server_guard sv (V_destroy sid) = session_alive sv sid"

lemma alive_session: "session_alive sv sid \<Longrightarrow> \<exists>s. session_get sv sid = Some s"
  by (simp add: session_alive_get)

lemma linked_session: "has_link sv sid idx \<Longrightarrow> \<exists>s. session_get sv sid = Some s \<and> idx \<in> idxs (ss_windows s)"
  using find_idx(1) by (fastforce simp: has_link_def split: option.splits)

lemma returns_map_fst: "returns (map_option fst m) P = returns m (\<lambda>(a, b). P a)"
  by (cases m) auto

lemma kept_moved: "server_ok sv \<Longrightarrow> returns m (\<lambda>(sv', r). moved sid sv sv' \<and> Q sv' r) \<Longrightarrow> returns (map_option fst m) server_ok"
  unfolding returns_map_fst by (erule returns_mono) (auto intro: moved_ok)

lemma kept_ok: "returns m (\<lambda>(sv', r). server_ok sv' \<and> Q sv' r) \<Longrightarrow> returns (map_option fst m) server_ok"
  unfolding returns_map_fst by (erule returns_mono) auto

lemma server_run_ok:
  assumes ok: "server_ok sv" and g: "server_guard sv op"
  shows "returns (server_run op sv) server_ok"
proof (cases op)
  case (V_next sid alert)
  then obtain s where s: "session_get sv sid = Some s" using g alive_session by auto
  show ?thesis unfolding V_next server_run.simps
    by (rule kept_moved [OF ok session_next_ok [OF server_okD(5) [OF ok] s server_session(1) [OF ok s]]])
next
  case (V_previous sid alert)
  then obtain s where s: "session_get sv sid = Some s" using g alive_session by auto
  show ?thesis unfolding V_previous server_run.simps
    by (rule kept_moved [OF ok session_previous_ok [OF server_okD(5) [OF ok] s server_session(1) [OF ok s]]])
next
  case (V_select sid idx)
  then obtain s where s: "session_get sv sid = Some s" and i: "0 \<le> idx" using g alive_session by auto
  show ?thesis unfolding V_select server_run.simps
    by (rule kept_moved [OF ok session_select_ok [OF server_okD(5) [OF ok] s server_session(1) [OF ok s] i]])
next
  case (V_last sid)
  then obtain s where s: "session_get sv sid = Some s" using g alive_session by auto
  show ?thesis unfolding V_last server_run.simps
    by (rule kept_moved [OF ok session_last_ok [OF server_okD(5) [OF ok] s server_session(1) [OF ok s]]])
next
  case (V_new sid idx started)
  then obtain s where s: "session_get sv sid = Some s" and i: "- INT_MAX - 1 \<le> idx" "idx \<le> INT_MAX" "sv_next_window sv < UINT_MAX"
    using g alive_session by (auto simp: int_index_def)
  show ?thesis unfolding V_new server_run.simps by (rule kept_ok [OF session_new_ok [OF ok s i]])
next
  case (V_create name idx started)
  then have n: "\<And>n. name = Some n \<Longrightarrow> n \<notin> ss_name ` set (sv_sessions sv)"
    and r: "sv_next_session sv + length (sv_sessions sv) + 1 < UINT_MAX" "sv_next_window sv < UINT_MAX" "- INT_MAX - 1 \<le> idx" "idx \<le> INT_MAX"
    using g by (simp_all add: name_free_def int_index_def)
  show ?thesis unfolding V_create server_run.simps by (rule kept_ok [OF session_create_ok [OF ok n r]])
next
  case (V_group name target root)
  then have n: "\<And>n. name = Some n \<Longrightarrow> n \<notin> ss_name ` set (sv_sessions sv)" and r: "sv_next_session sv + length (sv_sessions sv) + 1 < UINT_MAX"
    and l: "has_link sv target root" using g by (simp_all add: name_free_def)
  obtain t where t: "session_get sv target = Some t" "root \<in> idxs (ss_windows t)" using linked_session [OF l] by blast
  show ?thesis unfolding V_group server_run.simps by (rule kept_ok [OF group_with_ok [OF ok n r t]])
next
  case (V_unlink sid idx)
  then have "has_link sv sid idx" using g by simp
  then obtain s where s: "session_get sv sid = Some s" "idx \<in> idxs (ss_windows s)" using linked_session by blast
  show ?thesis unfolding V_unlink server_run.simps server_unlink_window_def by (rule kept_ok [OF session_detach_ok [OF ok s]])
next
  case (V_link src srcidx dst dstidx kill sel)
  then have l: "has_link sv src srcidx" and di: "- 1 \<le> dstidx" "dstidx \<le> INT_MAX" and al: "session_alive sv dst"
    and bi: "dstidx = -1 \<longrightarrow> base_index_ok sv dst" using g by simp_all
  obtain s where s: "session_get sv src = Some s" "srcidx \<in> idxs (ss_windows s)" using linked_session [OF l] by blast
  obtain d where d: "session_get sv dst = Some d" using alive_session [OF al] by blast
  have b: "\<exists>b. options_get_number (ss_options d) ''base-index'' = Some b \<and> 0 \<le> b \<and> b \<le> INT_MAX" if "dstidx = -1"
    using bi d that by (auto simp: base_index_ok_def split: option.splits)
  show ?thesis unfolding V_link server_run.simps by (rule kept_ok [OF link_window_ok [OF ok s(1) d s(2) di b]])
next
  case (V_destroy sid)
  then obtain s where s: "session_get sv sid = Some s" using g alive_session by auto
  note k = server_okD [OF ok]
  have cnt: "counted (refs sv) (sv_windows sv)" using k(1) by (simp add: base_def)
  have others: "half_ok t \<and> ss_curw t \<noteq> None" if "session_get sv u = Some t" for t u using server_session(1,2) [OF ok that] by simp
  have same: "bare (links_at sv u) = bare (links_at sv v)" if "u \<in> group_of sv sid" "v \<in> group_of sv sid" for u v
    using server_group(1) [OF ok s] that by metis
  have "returns (session_destroy sid sv) (\<lambda>sv'. server_ok sv' \<and> ids sv' = filter (\<lambda>i. i \<noteq> sid) (ids sv))"
    by (rule destroy_ok [OF k(5) _ cnt groups_ok_any [OF k(2)] k(3,4) s]) (rule others, assumption, rule same)
  then show ?thesis unfolding V_destroy server_run.simps by (rule returns_mono) blast
qed

interpretation sessions: guarded_machine server_ok server_guard server_run
  by unfold_locales (rule server_run_ok)

section \<open>Correctness\<close>

text \<open>
  C5. Starting from a server in good order, no sequence of the operations of the session commands (next, previous, last and select
  window, new window, new session, grouping a new session with another, unlinking, linking with or without killing
  the window in the way, destroying a session), each under the conditions the commands check, dies or uses freed
  memory. Afterwards every session has a current window which is one of its windows, and its last windows are different
  windows of it; every winlink leads to a window that exists, whose reference count is the number of winlinks to it,
  and no other window exists; the sessions of a group have the same winlinks.
\<close>

theorem server_steps_safe:
  assumes "server_ok sv" and "guarded_run server_run server_guard ops sv"
  shows "\<exists>sv'. run_all server_run ops sv = Some sv' \<and> server_ok sv' \<and>
    (\<forall>s \<in> set (sv_sessions sv'). \<exists>i \<in> idxs (ss_windows s). ss_curw s = Some i) \<and>
    (\<forall>s \<in> set (sv_sessions sv'). distinct (ss_lastw s) \<and> set (ss_lastw s) \<subseteq> idxs (ss_windows s)) \<and>
    (\<forall>w. sv_windows sv' w = (if refs sv' w = 0 then None else Some (refs sv' w))) \<and>
    (\<forall>sg \<in> set (sv_groups sv'). \<forall>a \<in> set sg. \<forall>b \<in> set sg. bare (links_at sv' a) = bare (links_at sv' b))"
proof -
  obtain sv' where sv': "run_all server_run ops sv = Some sv'" "server_ok sv'"
    using sessions.run_all_ok [OF assms] unfolding returns_eq by blast
  note k = server_okD [OF sv'(2)]
  have s: "half_ok s \<and> ss_curw s \<noteq> None" if "s \<in> set (sv_sessions sv')" for s using k(1) that by (simp add: base_def)
  have cur: "\<exists>i \<in> idxs (ss_windows s). ss_curw s = Some i" if "s \<in> set (sv_sessions sv')" for s
    using s [OF that] by (auto simp: half_ok_def)
  have last: "distinct (ss_lastw s) \<and> set (ss_lastw s) \<subseteq> idxs (ss_windows s)" if "s \<in> set (sv_sessions sv')" for s
    using s [OF that] by (simp add: half_ok_def)
  have w: "\<forall>w. sv_windows sv' w = (if refs sv' w = 0 then None else Some (refs sv' w))"
    using k(1) by (simp add: base_def counted_def)
  have g: "bare (links_at sv' a) = bare (links_at sv' b)" if "sg \<in> set (sv_groups sv')" "a \<in> set sg" "b \<in> set sg" for sg a b
    by (rule groups_okD(5) [OF k(2) that(1) _ that(2,3)]) simp
  show ?thesis using sv' cur last w g by blast
qed

definition empty_server :: server where
  "empty_server = \<lparr>sv_sessions = [], sv_groups = [], sv_windows = (\<lambda>w. None), sv_next_session = 0, sv_next_window = 0,
     sv_options = options_set_number (options_init None) ''base-index'' 0\<rparr>"

lemma empty_server_ok: "server_ok empty_server"
  by (simp add: server_ok_def base_def groups_ok_def counted_def refs_def ids_def empty_server_def)

lemma guarded_run_step:
  "guarded_run run guard (op # ops) s \<longleftrightarrow> guard s op \<and> (case run op s of None \<Rightarrow> True | Some t \<Rightarrow> guarded_run run guard ops t)"
  by (auto split: option.split)

lemmas server_eval = session_create_def session_new_def session_select_def session_next_def session_previous_def session_goto_def
  session_make_current_def session_destroy_def session_detach_def session_leave_def session_last_def session_attach_def server_link_window_def
  server_unlink_window_def session_group_with_def session_group_synchronize_to_def session_group_synchronize1_def
  session_group_synchronize_from_def session_group_add_def session_group_find_def session_group_remove_def session_get_def
  session_put_def session_alive_def winlink_add_def winlink_next_index_def winlink_find_by_index_def winlink_set_window_def
  winlink_remove_def window_remove_ref_def winlink_next_def winlink_previous_def winlink_min_def winlink_max_def winlink_clear_flags_def
  winlink_stack_push_def winlink_stack_remove_def window_create_def name_free_def int_index_def has_link_def base_index_ok_def
  empty_server_def UINT_MAX_def Let_def

text \<open>
  Two windows, a group of two sessions, and a third session: a window of the group is linked into it, then in place of its
  current window; the group loses a window, and one of its sessions the last one.
\<close>

definition example_ops :: "server_op list" where
  "example_ops = [V_create (Some ''a'') (-1) True, V_new 0 (-1) True, V_group (Some ''b'') 0 1, V_next 1 False,
     V_create (Some ''c'') (-1) True, V_link 0 1 2 5 False True, V_link 0 0 2 5 True False, V_unlink 0 1, V_unlink 1 0]"

theorem server_steps_safe_witness: "\<exists>sv'. run_all server_run example_ops empty_server = Some sv' \<and> server_ok sv'"
proof -
  have "guarded_run server_run server_guard example_ops empty_server"
    by (simp add: example_ops_def guarded_run_step server_eval del: guarded_run.simps(2))
  from server_steps_safe [OF empty_server_ok this] show ?thesis by blast
qed

text \<open>
  \<open>session_renumber_windows\<close> keeps the old indexes in the stack of last windows: with the windows 1 and 5, of which 5 is
  the current one and 1 the last one, the stack afterwards holds the current window itself.
\<close>

definition two_windows :: server where
  "two_windows = empty_server\<lparr>sv_sessions := [\<lparr>ss_idx = 0, ss_name = ''a'', ss_curw = Some 5, ss_lastw = [1],
     ss_windows = [\<lparr>wl_idx = 1, wl_window = Some 0, wl_flags = 0\<rparr>, \<lparr>wl_idx = 5, wl_window = Some 1, wl_flags = 0\<rparr>],
     ss_options = options_set_number (options_init None) ''base-index'' 0\<rparr>],
     sv_windows := [0 \<mapsto> 1, 1 \<mapsto> 1], sv_next_session := 1, sv_next_window := 2\<rparr>"

lemma two_windows_ok: "server_ok two_windows"
  by (auto simp: server_ok_def base_def groups_ok_def counted_def ids_def refs_def two_windows_def empty_server_def half_ok_def)

lemma session_renumber_stale:
  "\<exists>sv' s'. session_renumber_windows 0 two_windows = Some sv' \<and> session_get sv' 0 = Some s' \<and> ss_curw s' = Some 1 \<and> ss_lastw s' = [1]"
  by (simp add: session_renumber_windows_def server_eval two_windows_def options_get_number_def
      options_set_number_def options_find1_def)

end
