(* ===== verification/Spec2Isabelle.thy ===== *)
theory Spec2Isabelle
  imports Input_Sequences Terminal Layout_Set Session_Machine
begin

text \<open>
  A verification library for tmux, the terminal multiplexer whose source is under \<open>src/\<close>.

  \<^bold>\<open>The program.\<close> Programs run in \<^emph>\<open>panes\<close>. What a program writes is parsed (\<open>src/input.c\<close>) and
  drawn on the pane's virtual \<^emph>\<open>screen\<close> (\<open>src/screen.c\<close>, \<open>src/screen-write.c\<close>), which keeps its cells and
  its history in a \<^emph>\<open>grid\<close> (\<open>src/grid.c\<close>, \<open>src/grid-view.c\<close>, \<open>src/grid-utf8.c\<close>, \<open>src/utf8.c\<close>). The panes of a
  \<^emph>\<open>window\<close> share its area by a tree of cells (\<open>src/layout.c\<close>, \<open>src/layout-set.c\<close>, \<open>src/layout-custom.c\<close>). A
  \<^emph>\<open>session\<close> is a numbered list of links to windows (\<open>src/session.c\<close>, the winlinks of \<open>src/window.c\<close>); a window can
  be in several sessions, and the sessions of a group have the same windows. One server process holds
  them all; clients attach to sessions and draw the current window.

  \<^bold>\<open>Conventions.\<close> A function that can kill the process, access memory out of its bounds or use what was freed
  returns an option, and \<open>None\<close> is that event; so \<open>returns m P\<close> says that \<open>m\<close> is safe and its result
  satisfies \<open>P\<close>. A \<open>u_int\<close> is a natural number with the wrap-around of \<open>u_add\<close>, \<open>u_sub\<close> and \<open>u_mul\<close> written
  out; flags, bytes and checksums are words. Arrays are lists of their allocated length, and are read and
  written by \<open>get_at\<close> and \<open>put_at\<close>, which fail outside of it. Red-black trees are sorted lists or maps, tail queues are
  lists, pointers to objects are their numbers (panes, sessions, windows) or paths (layout cells). Every output to the
  terminals, \<open>tty_write\<close>, is appended to a list of commands.

  \<^bold>\<open>Theories and code.\<close>
  \<^item> \<open>Prelude\<close>: the vocabulary above and its lemmas. \<open>Machine\<close>: programs as machines with guarded operations; its locale
    \<open>guarded_machine\<close> turns an invariant kept by every operation into the safety of every sequence, and is interpreted for
    the layouts (\<open>Layout_Steps\<close>) and the sessions (\<open>Session_Machine\<close>). \<open>Cstring\<close>: the functions of the C library on strings, and
    \<open>src/compat/strtonum.c\<close>.
  \<^item> \<open>Utf8\<close>: \<open>src/utf8.c\<close>, the decoder and the tree of widths. \<open>Grid_Utf8\<close>: \<open>src/grid-utf8.c\<close>.
  \<^item> \<open>Grid\<close>: \<open>struct grid\<close> and \<open>src/grid.c\<close>, with the allocated arrays of every line. \<open>Grid_Facts\<close> has the invariant
    \<open>grid_ok\<close> and what a line does; \<open>Grid_Spec\<close> gives every operation as a function on the visible cells; \<open>Grid_Scroll\<close> does so
    for the history, and \<open>Grid_Props\<close> states the properties. \<open>Grid_View\<close>: \<open>src/grid-view.c\<close>, the same in coordinates of the
    visible part.
  \<^item> \<open>Screen\<close>: \<open>src/screen.c\<close>: tabs, resizing, selection. \<open>Colour\<close>: \<open>src/colour.c\<close> and \<open>src/attributes.c\<close>.
  \<^item> \<open>Screen_Write\<close>, \<open>Screen_Text\<close>: \<open>src/screen-write.c\<close>. \<open>Screen_Write_Facts\<close> has the invariant \<open>screen_safe\<close> and the
    predicate \<open>wrote\<close>, by which \<open>Screen_Write_Ops\<close> and \<open>Screen_Write_Cell\<close> describe each function: the picture it leaves, the cursor, the
    commands for the terminal. \<open>Screen_Text_Facts\<close> is about text, \<open>Screen_Write_Props\<close> about every sequence of calls. \<open>Terminal\<close>
    states what the code promises, a terminal that is a list of rows, and proves that the screens refine it.
  \<^item> \<open>Options\<close>: \<open>src/options.c\<close>. \<open>Pane\<close>: \<open>struct window_pane\<close>, with its parser state and its screens, and the functions of
    \<open>src/window.c\<close> on one pane.
  \<^item> \<open>Input\<close>: the states and tables of \<open>src/input.c\<close>. \<open>Input_Parse\<close>: its functions. \<open>Input_Facts\<close>, \<open>Input_Handlers\<close>, \<open>Input_Csi\<close>:
    the invariant \<open>pane_ok\<close> and every handler; \<open>Input_Props\<close>: any sequence of bytes; \<open>Input_Sequences\<close>: whole escape sequences.
  \<^item> \<open>Layout\<close>: \<open>src/layout.c\<close>. \<open>Layout_Facts\<close> has the invariant \<open>cell_ok\<close>; \<open>Layout_Ops\<close> and \<open>Layout_Props\<close> show what each operation does;
    \<open>Window\<close> is the list of panes of a window (\<open>src/window.c\<close>); \<open>Layout_Steps\<close> puts both together, \<open>Layout_Correct\<close> has the properties.
    \<open>Layout_Custom\<close>: \<open>src/layout-custom.c\<close> and the list of recent layouts, \<open>Layout_Text\<close> its round trip. \<open>Layout_Set\<close>: \<open>src/layout-set.c\<close>.
  \<^item> \<open>Winlink\<close>: the winlinks and the reference counts of windows (\<open>src/window.c\<close>). \<open>Session\<close>: \<open>src/session.c\<close> and the functions of
    \<open>src/server-fn.c\<close> that link, unlink and kill windows. \<open>Session_Facts\<close> and \<open>Session_Ops\<close>: the invariant of one session and the
    synchronization of a group; \<open>Session_Steps\<close> and \<open>Session_Server\<close>: the invariant \<open>server_ok\<close> and every operation;
    \<open>Session_Machine\<close>: every sequence of operations.

  \<^bold>\<open>Bounds and fuel.\<close> Sizes of screens are at most \<open>DIM_MAX\<close> and those of layout cells at most \<open>CELL_MAX\<close>, so that sums
  of them do not wrap. Recursive loops are proved to end by a measure. Fuel is used in three places and is enough in
  each: the search for a free window index (one round more than there are winlinks, \<open>next_index_loop_ends\<close>), the
  search for a session name (one round more than there are sessions, \<open>session_number_ok\<close>), and detaching all winlinks to a window (as many
  rounds as there are winlinks).

  \<^bold>\<open>Not modelled.\<close> The processes, sockets and events of the server and the clients (\<open>src/server.c\<close>, \<open>src/client.c\<close>, \<open>src/tmux.c\<close>,
  \<open>src/job.c\<close>, \<open>src/signal.c\<close>, the \<open>osdep\<close> files, the \<open>imsg\<close> library under \<open>src/compat/\<close>) are calls of the
  operating system. The terminal output and input of the clients (\<open>src/tty.c\<close>, \<open>src/tty-term.c\<close>, \<open>src/tty-keys.c\<close>) depend on terminfo, which is
  not part of the source. The commands (\<open>src/cmd*.c\<close>), the status line, the copy mode and the choice modes are not modelled, apart
  from what they do to layouts and sessions. Environments, terminal settings, times, notifications and redrawing are left out of
  the functions that are modelled.
\<close>

end
